(* ===== verification/Go_Prelude.thy ===== *)
theory Go_Prelude
  imports
    Main
    "HOL-Library.AList"
    "HOL-Library.List_Lexorder"
    "HOL-Library.Char_ord"
    "HOL-Library.Multiset"
    "HOL-Library.Sublist"
begin

text \<open>
  Shared vocabulary of the development: Go maps as association lists, JSON documents as
  \<open>encoding/json\<close> sees them, decimal rendering of integers, the first-occurrence filter that the
  code writes with a "seen" map, and the generic lemmas about them.

  A Go map is an association list whose keys are distinct (\<open>well_keyed\<close>).  The order of the list
  stands for the iteration order of one \<open>range\<close> loop, which Go leaves unspecified: a theorem about
  all lists is a theorem about all iteration orders.  Go strings are byte strings, so
  \<open>char list\<close> with its lexicographic order is the order of \<open>sort.Strings\<close>.
\<close>

section \<open>Collections of facts\<close>

named_theorems gomap_simps \<open>rewriting of Go map operations\<close>
named_theorems wk \<open>operations preserve distinct keys\<close>

section \<open>Go maps\<close>

type_synonym ('k, 'v) gomap = "('k \<times> 'v) list"

abbreviation gget :: "('k, 'v) gomap \<Rightarrow> 'k \<Rightarrow> 'v option" where
  "gget m k \<equiv> map_of m k"

abbreviation gput :: "'k \<Rightarrow> 'v \<Rightarrow> ('k, 'v) gomap \<Rightarrow> ('k, 'v) gomap" where
  "gput k v m \<equiv> AList.update k v m"

abbreviation gdel :: "'k \<Rightarrow> ('k, 'v) gomap \<Rightarrow> ('k, 'v) gomap" where
  "gdel k m \<equiv> AList.delete k m"

abbreviation gkeys :: "('k, 'v) gomap \<Rightarrow> 'k list" where
  "gkeys m \<equiv> map fst m"

definition ghas :: "('k, 'v) gomap \<Rightarrow> 'k \<Rightarrow> bool" where
  "ghas m k = (gget m k \<noteq> None)"

definition well_keyed :: "('k, 'v) gomap \<Rightarrow> bool" where
  "well_keyed m = distinct (gkeys m)"

text \<open>\<open>maps.Copy(dst, src)\<close>: every entry of \<open>src\<close> is stored in \<open>dst\<close>.\<close>

fun gcopy_into :: "('k, 'v) gomap \<Rightarrow> ('k, 'v) gomap \<Rightarrow> ('k, 'v) gomap" where
  "gcopy_into dst [] = dst"
| "gcopy_into dst ((k, v) # src) = gcopy_into (gput k v dst) src"

lemma ghas_iff: "ghas m k \<longleftrightarrow> k \<in> set (gkeys m)"
  by (auto simp: ghas_def map_of_eq_None_iff)

lemma gget_gput [simp, gomap_simps]: "gget (gput k v m) x = (if x = k then Some v else gget m x)"
  by (simp add: update_conv')

lemma gget_gdel [simp, gomap_simps]: "gget (gdel k m) x = (if x = k then None else gget m x)"
  by (simp add: delete_conv')

lemma ghas_gput [simp, gomap_simps]: "ghas (gput k v m) x \<longleftrightarrow> x = k \<or> ghas m x"
  by (auto simp: ghas_def)

lemma ghas_gdel [simp, gomap_simps]: "ghas (gdel k m) x \<longleftrightarrow> x \<noteq> k \<and> ghas m x"
  by (auto simp: ghas_def)

lemma ghas_Nil [simp, gomap_simps]: "\<not> ghas [] k"
  by (simp add: ghas_def)

lemma set_gkeys_gput [simp]: "set (gkeys (gput k v m)) = insert k (set (gkeys m))"
  using ghas_gput[of k v m] by (auto simp only: ghas_iff insert_iff)

lemma set_gkeys_gdel [simp]: "set (gkeys (gdel k m)) = set (gkeys m) - {k}"
  using ghas_gdel[of k m] by (auto simp only: ghas_iff)

definition keyset :: "('k, 'v) gomap \<Rightarrow> 'k set" where
  "keyset m = set (gkeys m)"

lemma keyset_simps [simp]:
  "keyset (gput k v m) = insert k (keyset m)" "keyset (gdel k m) = keyset m - {k}" "keyset [] = {}"
  by (simp_all only: keyset_def set_gkeys_gput set_gkeys_gdel) simp

lemma ghas_keyset: "ghas m k \<longleftrightarrow> k \<in> keyset m"
  by (simp only: ghas_iff keyset_def)

lemma keyset_get: "k \<in> keyset m \<longleftrightarrow> gget m k \<noteq> None"
  by (simp only: ghas_keyset[symmetric] ghas_def)

lemma well_keyed_Nil [simp, intro, wk]: "well_keyed []"
  by (simp add: well_keyed_def)

lemma well_keyed_gput [simp, intro, wk]: "well_keyed m \<Longrightarrow> well_keyed (gput k v m)"
  by (simp add: well_keyed_def distinct_update)

lemma well_keyed_gdel [simp, intro, wk]: "well_keyed m \<Longrightarrow> well_keyed (gdel k m)"
  by (simp add: well_keyed_def distinct_delete)

lemma well_keyed_gcopy [simp, intro, wk]: "well_keyed m \<Longrightarrow> well_keyed (gcopy_into m src)"
  by (induction m src rule: gcopy_into.induct) auto

lemma well_keyed_ConsD: "well_keyed ((k, v) # m) \<Longrightarrow> well_keyed m \<and> \<not> ghas m k"
  by (auto simp: well_keyed_def ghas_iff)

lemma well_keyed_filter [simp, intro, wk]: "well_keyed m \<Longrightarrow> well_keyed (filter P m)"
  by (simp add: well_keyed_def distinct_map_filter)

lemma gkeys_gput_in: "ghas m k \<Longrightarrow> gkeys (gput k v m) = gkeys m"
  by (simp add: ghas_iff update_keys)

lemma gkeys_gput_new: "\<not> ghas m k \<Longrightarrow> gkeys (gput k v m) = gkeys m @ [k]"
  by (simp add: ghas_iff update_keys)

lemma length_gput_in: "ghas m k \<Longrightarrow> length (gput k v m) = length m"
  by (metis gkeys_gput_in length_map)

lemma length_gput_new: "\<not> ghas m k \<Longrightarrow> length (gput k v m) = Suc (length m)"
  by (metis gkeys_gput_new length_append_singleton length_map)

lemma gcopy_into_get:
  "well_keyed src \<Longrightarrow>
   gget (gcopy_into dst src) k = (case gget src k of Some v \<Rightarrow> Some v | None \<Rightarrow> gget dst k)"
proof (induction dst src rule: gcopy_into.induct)
  case (2 dst x v src)
  then show ?case
    by (auto dest!: well_keyed_ConsD simp: ghas_def split: option.splits)
qed simp

lemma gput_mem: "x \<in> set (gput k v m) \<Longrightarrow> x = (k, v) \<or> x \<in> set m"
  by (induction m) (auto split: if_splits)

lemma gcopy_mem: "x \<in> set (gcopy_into dst src) \<Longrightarrow> x \<in> set dst \<or> x \<in> set src"
  by (induction dst src rule: gcopy_into.induct) (auto dest: gput_mem)

lemma well_keyed_mem_get: "well_keyed m \<Longrightarrow> (k, v) \<in> set m \<longleftrightarrow> gget m k = Some v"
  by (simp add: well_keyed_def map_of_eq_Some_iff)

lemma well_keyed_lookup_perm:
  assumes "well_keyed m" "well_keyed m'" "\<And>k. gget m k = gget m' k"
  shows "mset m = mset m'"
proof -
  have d: "distinct m" "distinct m'"
    using assms(1,2) by (auto simp: well_keyed_def distinct_map)
  have "set m = set m'"
    using assms by (auto simp: well_keyed_mem_get)
  with d show ?thesis by (simp add: set_eq_iff_mset_eq_distinct)
qed

section \<open>First occurrences\<close>

text \<open>The loop \<open>if seen[x] \<open>then\<close> continue; seen[x] = true; out = append(out, x)\<close>.\<close>

fun dedup_seen :: "'a list \<Rightarrow> 'a list \<Rightarrow> 'a list" where
  "dedup_seen seen [] = []"
| "dedup_seen seen (x # xs) =
     (if x \<in> set seen then dedup_seen seen xs else x # dedup_seen (x # seen) xs)"

lemma set_dedup_seen [simp]: "set (dedup_seen seen xs) = set xs - set seen"
  by (induction seen xs rule: dedup_seen.induct) auto

lemma distinct_dedup_seen [simp, intro]: "distinct (dedup_seen seen xs)"
  by (induction seen xs rule: dedup_seen.induct) auto

lemma dedup_seen_distinct: "distinct xs \<Longrightarrow> set xs \<inter> set seen = {} \<Longrightarrow> dedup_seen seen xs = xs"
  by (induction seen xs rule: dedup_seen.induct) auto

lemma sort_eq_if_same_set:
  fixes xs ys :: "'a::linorder list"
  assumes "distinct xs" "distinct ys" "set xs = set ys"
  shows "sort xs = sort ys"
  using assms by (intro sorted_distinct_set_unique) auto

section \<open>Decimal integers\<close>

text \<open>\<open>%d\<close> of \<open>fmt.Sprintf\<close>.\<close>

fun show_nat :: "nat \<Rightarrow> string" where
  "show_nat n =
     (if n < 10 then [char_of (48 + n)] else show_nat (n div 10) @ [char_of (48 + n mod 10)])"

declare show_nat.simps [simp del]

definition show_int :: "int \<Rightarrow> string" where
  "show_int i = (if i < 0 then ''-'' @ show_nat (nat (- i)) else show_nat (nat i))"

definition digit_val :: "char \<Rightarrow> nat" where
  "digit_val c = of_char c - 48"

definition read_digits :: "string \<Rightarrow> nat" where
  "read_digits s = foldl (\<lambda>n c. 10 * n + digit_val c) 0 s"

lemma digit_val_char_of: "d < 10 \<Longrightarrow> digit_val (char_of (48 + d)) = d"
  by (simp add: digit_val_def)

lemma read_show_nat: "read_digits (show_nat n) = n"
proof (induction n rule: show_nat.induct)
  case (1 n)
  show ?case
  proof (cases "n < 10")
    case True
    then show ?thesis
      by (subst show_nat.simps) (simp add: read_digits_def digit_val_char_of)
  next
    case False
    with 1 have "read_digits (show_nat (n div 10)) = n div 10" by simp
    with False show ?thesis
      by (subst show_nat.simps) (simp add: read_digits_def digit_val_char_of)
  qed
qed

lemma show_nat_inj: "show_nat a = show_nat b \<longleftrightarrow> a = b"
  by (metis read_show_nat)

lemma show_nat_digits: "c \<in> set (show_nat n) \<Longrightarrow> 48 \<le> (of_char c :: nat) \<and> (of_char c :: nat) < 58"
proof (induction n rule: show_nat.induct)
  case (1 n)
  then show ?case
    by (subst (asm) (2) show_nat.simps) (auto split: if_splits)
qed

lemma show_nat_no_dash: "CHR ''-'' \<notin> set (show_nat n)"
  using show_nat_digits[of "CHR ''-''" n] by auto

lemma show_nat_nonempty [simp]: "show_nat n \<noteq> []"
  by (subst show_nat.simps) simp

lemma show_int_inj: "show_int a = show_int b \<longleftrightarrow> a = b"
proof -
  have "show_nat x \<noteq> CHR ''-'' # s" for x s
    using show_nat_no_dash[of x] by auto
  then show ?thesis
    by (auto simp: show_int_def show_nat_inj split: if_splits dest: sym)
qed

section \<open>JSON documents\<close>

text \<open>
  The values \<open>encoding/json\<close> reads and writes.  Numbers are the integers (the fractional literals
  of \<open>float64\<close> values are outside the model).
\<close>

datatype gojson =
    JNull
  | JBool bool
  | JNum int
  | JStr string
  | JArr "gojson list"
  | JObj "(string \<times> gojson) list"

section \<open>Runs that may panic\<close>

text \<open>A nil-pointer dereference ends the goroutine: it is a result of its own.\<close>

datatype 'a run = Panic | Return 'a

fun run_bind :: "'a run \<Rightarrow> ('a \<Rightarrow> 'b run) \<Rightarrow> 'b run" where
  "run_bind Panic f = Panic"
| "run_bind (Return x) f = f x"

lemma run_bind_Return_iff: "run_bind r f = Return y \<longleftrightarrow> (\<exists>x. r = Return x \<and> f x = Return y)"
  by (cases r) auto

section \<open>Lists\<close>

lemma takeWhile_not_last: "xs \<noteq> [] \<Longrightarrow> \<not> P (last xs) \<Longrightarrow> dropWhile P (rev xs) = rev xs"
  by (cases xs rule: rev_cases) auto

lemma subseq_filter_intro [intro]: "subseq (filter P xs) xs"
  by (rule subseq_filter_left)

lemma subseq_take [intro]: "subseq (take n xs) xs"
  by (metis append_take_drop_id list_emb_append2 subseq_order.refl subseq_rev_drop_many
      prefix_imp_subseq take_is_prefix)

lemma subseq_drop [intro]: "subseq (drop n xs) xs"
  by (simp add: suffix_drop suffix_imp_subseq)

end
