(* ===== verification/Model_Message.thy ===== *)
theory Model_Message
  imports Go_Prelude
begin

text \<open>
  The chat message of \<open>model/request.go\<close>: roles, the multimodal content parts, the tool calls and
  the message itself, field by field, and the rune count of \<open>unicode/utf8\<close> that the token
  estimation uses.  A role is a plain string (\<open>type Role string\<close>), so messages with invalid roles
  exist and the validator has to remove them.
\<close>

section \<open>Roles\<close>

type_synonym role = string

definition RoleSystem :: role where "RoleSystem = ''system''"

definition RoleUser :: role where "RoleUser = ''user''"

definition RoleAssistant :: role where "RoleAssistant = ''assistant''"

definition RoleTool :: role where "RoleTool = ''tool''"

lemmas role_defs = RoleSystem_def RoleUser_def RoleAssistant_def RoleTool_def

definition role_is_valid :: "role \<Rightarrow> bool" where
  "role_is_valid r \<longleftrightarrow> r = RoleSystem \<or> r = RoleUser \<or> r = RoleAssistant \<or> r = RoleTool"

lemma roles_distinct [simp]:
  "RoleSystem \<noteq> RoleUser" "RoleUser \<noteq> RoleSystem"
  "RoleSystem \<noteq> RoleAssistant" "RoleAssistant \<noteq> RoleSystem"
  "RoleSystem \<noteq> RoleTool" "RoleTool \<noteq> RoleSystem"
  "RoleUser \<noteq> RoleAssistant" "RoleAssistant \<noteq> RoleUser"
  "RoleUser \<noteq> RoleTool" "RoleTool \<noteq> RoleUser"
  "RoleAssistant \<noteq> RoleTool" "RoleTool \<noteq> RoleAssistant"
  by (simp_all add: role_defs)

lemma roles_valid [simp]:
  "role_is_valid RoleSystem" "role_is_valid RoleUser"
  "role_is_valid RoleAssistant" "role_is_valid RoleTool"
  by (simp_all add: role_is_valid_def)

section \<open>Content parts and tool calls\<close>

text \<open>Byte slices (\<open>[]byte\<close>) are byte strings.\<close>

record file_part =
  file_name :: string
  file_data :: string
  file_id :: string
  file_mime_type :: string

record image_part =
  image_url :: string
  image_data :: string
  image_detail :: string
  image_format :: string

record audio_part =
  audio_data :: string
  audio_format :: string

record content_part =
  cp_type :: string
  cp_text :: "string option"
  cp_image :: "image_part option"
  cp_audio :: "audio_part option"
  cp_file :: "file_part option"

record function_definition_param =
  fn_name :: string
  fn_strict :: bool
  fn_description :: string
  fn_arguments :: string

record tool_call =
  tc_type :: string
  tc_function :: function_definition_param
  tc_id :: string
  tc_index :: "int option"
  tc_extra_fields :: "(string, gojson) gomap option"

section \<open>Messages\<close>

record message =
  m_role :: role
  m_content :: string
  m_content_parts :: "content_part list"
  m_tool_id :: string
  m_tool_name :: string
  m_tool_calls :: "tool_call list"
  m_reasoning_content :: string

definition plain_message :: "role \<Rightarrow> string \<Rightarrow> message" where
  "plain_message r c =
     \<lparr>m_role = r, m_content = c, m_content_parts = [], m_tool_id = [], m_tool_name = [],
      m_tool_calls = [], m_reasoning_content = []\<rparr>"

definition NewSystemMessage :: "string \<Rightarrow> message" where
  "NewSystemMessage c = plain_message RoleSystem c"

definition NewUserMessage :: "string \<Rightarrow> message" where
  "NewUserMessage c = plain_message RoleUser c"

abbreviation is_role :: "role \<Rightarrow> message \<Rightarrow> bool" where
  "is_role r m \<equiv> m_role m = r"

section \<open>Rune counting\<close>

text \<open>
  \<open>utf8.RuneCountInString\<close> of the standard library on the bytes of a string: a well-formed
  multi-byte sequence counts once, every byte of an ill-formed one counts by itself.
\<close>

definition is_cont :: "nat \<Rightarrow> nat \<Rightarrow> nat \<Rightarrow> bool" where
  "is_cont lo hi b \<longleftrightarrow> lo \<le> b \<and> b \<le> hi"

fun rune_width :: "nat list \<Rightarrow> nat" where
  "rune_width (b # c # d # e # _) =
     (if 194 \<le> b \<and> b \<le> 223 \<and> is_cont 128 191 c then 2
      else if b = 224 \<and> is_cont 160 191 c \<and> is_cont 128 191 d then 3
      else if b = 237 \<and> is_cont 128 159 c \<and> is_cont 128 191 d then 3
      else if 225 \<le> b \<and> b \<le> 239 \<and> b \<noteq> 237 \<and> is_cont 128 191 c \<and> is_cont 128 191 d then 3
      else if b = 240 \<and> is_cont 144 191 c \<and> is_cont 128 191 d \<and> is_cont 128 191 e then 4
      else if b = 244 \<and> is_cont 128 143 c \<and> is_cont 128 191 d \<and> is_cont 128 191 e then 4
      else if 241 \<le> b \<and> b \<le> 243 \<and> is_cont 128 191 c \<and> is_cont 128 191 d \<and> is_cont 128 191 e then 4
      else 1)"
| "rune_width [b, c, d] =
     (if 194 \<le> b \<and> b \<le> 223 \<and> is_cont 128 191 c then 2
      else if b = 224 \<and> is_cont 160 191 c \<and> is_cont 128 191 d then 3
      else if b = 237 \<and> is_cont 128 159 c \<and> is_cont 128 191 d then 3
      else if 225 \<le> b \<and> b \<le> 239 \<and> b \<noteq> 237 \<and> is_cont 128 191 c \<and> is_cont 128 191 d then 3
      else 1)"
| "rune_width [b, c] = (if 194 \<le> b \<and> b \<le> 223 \<and> is_cont 128 191 c then 2 else 1)"
| "rune_width _ = 1"

lemma rune_width_pos [simp]: "0 < rune_width bs"
  by (induction bs rule: rune_width.induct) auto

function rune_count_bytes :: "nat list \<Rightarrow> nat" where
  "rune_count_bytes [] = 0"
| "rune_count_bytes (b # bs) = Suc (rune_count_bytes (drop (rune_width (b # bs)) (b # bs)))"
  by pat_completeness auto
termination
  by (relation "measure length") (auto simp del: rune_width.simps)

definition rune_count :: "string \<Rightarrow> nat" where
  "rune_count s = rune_count_bytes (map of_char s)"

lemma rune_count_bytes_le: "rune_count_bytes bs \<le> length bs"
proof (induction bs rule: rune_count_bytes.induct)
  case (2 b bs)
  obtain k where "rune_width (b # bs) = Suc k"
    using rune_width_pos[of "b # bs"] by (cases "rune_width (b # bs)") auto
  with 2 show ?case by (simp del: rune_width.simps)
qed simp

lemma rune_count_bytes_zero: "rune_count_bytes bs = 0 \<longleftrightarrow> bs = []"
  by (cases bs) auto

lemma rune_count_zero [simp]: "rune_count s = 0 \<longleftrightarrow> s = []"
  by (simp add: rune_count_def rune_count_bytes_zero)

lemma rune_count_le: "rune_count s \<le> length s"
  using rune_count_bytes_le[of "map of_char s"] by (simp add: rune_count_def)

end
