(* ===== verification/Message_Validator.thy ===== *)
theory Message_Validator
  imports Model_Message
begin

text \<open>
  \<open>model/message_validator.go\<close>: the pass that makes a message sequence acceptable to strict chat
  APIs.  It drops messages with an invalid role or no payload, cuts the sequence into rounds that
  start at a user message, drops whole invalid rounds and trims the end to a user or tool message.
  The loops are folds over an explicit loop state; the lemmas relate the whole pass to a closed
  form (\<open>take/drop at the first user message\<close>), from which its promises follow.
\<close>

section \<open>The pass\<close>

definition HasPayload :: "message \<Rightarrow> bool" where
  "HasPayload msg \<longleftrightarrow>
     m_content msg \<noteq> [] \<or> m_content_parts msg \<noteq> [] \<or> m_reasoning_content msg \<noteq> []"

datatype roleGroupKind = roleGroupUnknown | roleGroupUserTool | roleGroupAssistant

definition roleGroupOf :: "role \<Rightarrow> roleGroupKind" where
  "roleGroupOf r =
     (if r = RoleUser \<or> r = RoleTool then roleGroupUserTool
      else if r = RoleAssistant then roleGroupAssistant
      else roleGroupUnknown)"

definition removeInvalidRoleMessages :: "message list \<Rightarrow> message list" where
  "removeInvalidRoleMessages = filter (\<lambda>m. role_is_valid (m_role m))"

definition nonEmptyContentPlaceholder :: string where
  "nonEmptyContentPlaceholder = '' ''"

fun ensureNonEmptyContent :: "message list \<Rightarrow> message list" where
  "ensureNonEmptyContent [] = []"
| "ensureNonEmptyContent (msg # msgs) =
     (if m_content msg \<noteq> [] then msg # ensureNonEmptyContent msgs
      else if \<not> (m_content_parts msg \<noteq> [] \<or> m_tool_calls msg \<noteq> [] \<or> m_reasoning_content msg \<noteq> [])
      then ensureNonEmptyContent msgs
      else msg\<lparr>m_content := nonEmptyContentPlaceholder\<rparr> # ensureNonEmptyContent msgs)"

text \<open>The locals of the loop of \<open>splitIntoUserAnchoredRounds\<close>.\<close>

record split_state =
  ss_prefix :: "message list"
  ss_rounds :: "message list list"
  ss_curr :: "message list"
  ss_in_round :: bool
  ss_last :: role
  ss_any :: bool

definition flushRound :: "split_state \<Rightarrow> split_state" where
  "flushRound s =
     (if ss_curr s = [] then s
      else s\<lparr>ss_rounds := ss_rounds s @ [ss_curr s], ss_curr := []\<rparr>)"

definition split_step :: "message \<Rightarrow> split_state \<Rightarrow> split_state" where
  "split_step msg s =
     (if m_role msg = RoleSystem
      then (if ss_in_round s then s\<lparr>ss_curr := ss_curr s @ [msg]\<rparr>
            else s\<lparr>ss_prefix := ss_prefix s @ [msg]\<rparr>)
      else
        let s = s\<lparr>ss_any := True\<rparr>;
            s = (if m_role msg = RoleUser \<and> ss_last s \<noteq> RoleUser
                 then (if ss_in_round s then flushRound s else s)\<lparr>ss_in_round := True, ss_curr := []\<rparr>
                 else s)
        in if \<not> ss_in_round s then s\<lparr>ss_last := m_role msg\<rparr>
           else s\<lparr>ss_curr := ss_curr s @ [msg], ss_last := m_role msg\<rparr>)"

definition split_init :: split_state where
  "split_init =
     \<lparr>ss_prefix = [], ss_rounds = [], ss_curr = [], ss_in_round = False, ss_last = [], ss_any = False\<rparr>"

definition splitIntoUserAnchoredRounds :: "message list \<Rightarrow> message list \<times> message list list" where
  "splitIntoUserAnchoredRounds msgs =
     (let s = fold split_step msgs split_init;
          s = (if ss_any s then flushRound s else s)
      in (ss_prefix s, ss_rounds s))"

text \<open>\<open>isRoundValid\<close>: the first loop finds the first non-system role, the second checks groups.\<close>

fun first_non_system_role :: "message list \<Rightarrow> role" where
  "first_non_system_role [] = []"
| "first_non_system_role (m # ms) =
     (if m_role m = RoleSystem then first_non_system_role ms else m_role m)"

fun round_groups_ok :: "roleGroupKind option \<Rightarrow> message list \<Rightarrow> bool" where
  "round_groups_ok prev [] = True"
| "round_groups_ok prev (m # ms) =
     (if m_role m = RoleSystem then round_groups_ok prev ms
      else let g = roleGroupOf (m_role m) in
        if g = roleGroupUnknown then False
        else (case prev of
            None \<Rightarrow> if g \<noteq> roleGroupUserTool then False else round_groups_ok (Some g) ms
          | Some p \<Rightarrow> if g = p then round_groups_ok (Some p) ms else round_groups_ok (Some g) ms))"

definition isRoundValid :: "message list \<Rightarrow> bool" where
  "isRoundValid r =
     (if first_non_system_role r \<noteq> RoleUser then False else round_groups_ok None r)"

fun filterValidRounds :: "message list list \<Rightarrow> message list list" where
  "filterValidRounds [] = []"
| "filterValidRounds (r # rs) =
     (if r = [] then filterValidRounds rs
      else if \<not> isRoundValid r then filterValidRounds rs
      else r # filterValidRounds rs)"

text \<open>The index loops from the end are \<open>dropWhile\<close> on the reversed list.\<close>

definition trim_end :: "(message \<Rightarrow> bool) \<Rightarrow> message list \<Rightarrow> message list" where
  "trim_end P ms = rev (dropWhile P (rev ms))"

abbreviation user_or_tool :: "message \<Rightarrow> bool" where
  "user_or_tool m \<equiv> m_role m = RoleUser \<or> m_role m = RoleTool"

definition ensureLastMessageIsUserOrTool :: "message list \<Rightarrow> message list" where
  "ensureLastMessageIsUserOrTool ms =
     (if ms = [] then ms
      else let ms1 = trim_end (is_role RoleSystem) ms in
        if ms1 = [] then []
        else if user_or_tool (last ms1) then ms1
        else let ms2 = trim_end (is_role RoleAssistant) ms1 in
          if ms2 = [] then []
          else if user_or_tool (last ms2) then ms2
          else [])"

definition validateAndFixMessageSequence :: "message list \<Rightarrow> message list" where
  "validateAndFixMessageSequence ms0 =
     (if ms0 = [] then ms0
      else let ms1 = removeInvalidRoleMessages ms0 in
        if ms1 = [] then ms1
        else let ms2 = ensureNonEmptyContent ms1 in
          if ms2 = [] then ms2
          else let (prefix, rounds) = splitIntoUserAnchoredRounds ms2
               in ensureLastMessageIsUserOrTool (prefix @ concat (filterValidRounds rounds)))"


section \<open>Closed form of the round splitting\<close>

abbreviation not_user :: "message \<Rightarrow> bool" where
  "not_user m \<equiv> m_role m \<noteq> RoleUser"

text \<open>What the loop has collected: the finished rounds followed by the current one.\<close>

definition collected :: "split_state \<Rightarrow> message list" where
  "collected s = concat (ss_rounds s) @ ss_curr s"

definition rounds_anchored :: "split_state \<Rightarrow> bool" where
  "rounds_anchored s \<longleftrightarrow>
     (\<forall>r \<in> set (ss_rounds s). r \<noteq> [] \<and> is_role RoleUser (hd r)) \<and>
     (ss_curr s \<noteq> [] \<longrightarrow> is_role RoleUser (hd (ss_curr s)))"

lemma flushRound_simps [simp]:
  "collected (flushRound s) = collected s"
  "ss_in_round (flushRound s) = ss_in_round s"
  "ss_prefix (flushRound s) = ss_prefix s"
  "ss_last (flushRound s) = ss_last s"
  "ss_any (flushRound s) = ss_any s"
  "ss_curr (flushRound s) = []"
  by (auto simp: flushRound_def collected_def)

lemma flushRound_anchored: "rounds_anchored s \<Longrightarrow> rounds_anchored (flushRound s)"
  by (auto simp: flushRound_def rounds_anchored_def)

lemma concat_rounds_flush: "concat (ss_rounds (flushRound s)) = collected s"
  by (simp add: flushRound_def collected_def)

lemma split_step_in_round:
  assumes "ss_in_round s" "ss_curr s \<noteq> []"
  shows "ss_in_round (split_step m s)" "ss_curr (split_step m s) \<noteq> []"
    "ss_prefix (split_step m s) = ss_prefix s" "collected (split_step m s) = collected s @ [m]"
    "ss_any s \<Longrightarrow> ss_any (split_step m s)"
    "rounds_anchored s \<Longrightarrow> rounds_anchored (split_step m s)"
  using assms by (auto simp: split_step_def Let_def flushRound_def collected_def rounds_anchored_def)

lemma fold_split_in_round:
  assumes "ss_in_round s" "ss_curr s \<noteq> []" "ss_any s" "rounds_anchored s"
  shows "ss_prefix (fold split_step ms s) = ss_prefix s
     \<and> collected (fold split_step ms s) = collected s @ ms
     \<and> ss_any (fold split_step ms s) \<and> rounds_anchored (fold split_step ms s)"
  using assms by (induction ms arbitrary: s) (auto simp: split_step_in_round)

lemma split_step_before:
  assumes "\<not> ss_in_round s" "ss_last s \<noteq> RoleUser" "not_user m"
  shows "\<not> ss_in_round (split_step m s)" "ss_last (split_step m s) \<noteq> RoleUser"
    "collected (split_step m s) = collected s"
    "ss_prefix (split_step m s) = ss_prefix s @ filter (is_role RoleSystem) [m]"
    "rounds_anchored s \<Longrightarrow> rounds_anchored (split_step m s)"
  using assms by (auto simp: split_step_def Let_def collected_def rounds_anchored_def)

lemma split_step_first_user:
  assumes "\<not> ss_in_round s" "ss_last s \<noteq> RoleUser" "is_role RoleUser m"
    "ss_rounds s = []"
  shows "ss_in_round (split_step m s)" "ss_curr (split_step m s) = [m]"
    "ss_any (split_step m s)" "ss_prefix (split_step m s) = ss_prefix s"
    "collected (split_step m s) = [m]" "rounds_anchored (split_step m s)"
  using assms by (auto simp: split_step_def Let_def collected_def rounds_anchored_def)

lemma split_step_before_rounds:
  assumes "\<not> ss_in_round s" "not_user m"
  shows "ss_rounds (split_step m s) = ss_rounds s" "ss_curr (split_step m s) = ss_curr s"
  using assms by (auto simp: split_step_def Let_def)

lemma fold_split_from_start:
  assumes "\<not> ss_in_round s" "ss_last s \<noteq> RoleUser" "ss_rounds s = []" "ss_curr s = []"
    "s' = fold split_step ms s"
  shows "ss_prefix s' = ss_prefix s @ filter (is_role RoleSystem) (takeWhile not_user ms)
     \<and> collected s' = dropWhile not_user ms
     \<and> (collected s' \<noteq> [] \<longrightarrow> ss_any s') \<and> rounds_anchored s'"
  using assms
proof (induction ms arbitrary: s)
  case Nil
  then show ?case by (simp add: collected_def rounds_anchored_def)
next
  case (Cons m ms)
  show ?case
  proof (cases "is_role RoleUser m")
    case True
    with Cons.prems fold_split_in_round[of "split_step m s" ms] show ?thesis
      by (simp add: split_step_first_user)
  next
    case False
    with Cons.prems Cons.IH[of "split_step m s"] show ?thesis
      by (simp add: split_step_before split_step_before_rounds)
  qed
qed

lemma splitIntoUserAnchoredRounds_closed:
  assumes "splitIntoUserAnchoredRounds ms = (pre, rounds)"
  shows "pre = filter (is_role RoleSystem) (takeWhile not_user ms)"
    and "concat rounds = dropWhile not_user ms"
    and "\<forall>r \<in> set rounds. r \<noteq> [] \<and> is_role RoleUser (hd r)"
proof -
  let ?s = "fold split_step ms split_init"
  have *: "ss_prefix ?s = filter (is_role RoleSystem) (takeWhile not_user ms)
     \<and> collected ?s = dropWhile not_user ms \<and> (collected ?s \<noteq> [] \<longrightarrow> ss_any ?s)
     \<and> rounds_anchored ?s"
    using fold_split_from_start[of split_init ?s ms]
    by (simp add: split_init_def role_defs)
  show "pre = filter (is_role RoleSystem) (takeWhile not_user ms)"
    using assms * by (auto simp: splitIntoUserAnchoredRounds_def Let_def split: if_splits)
  show "concat rounds = dropWhile not_user ms"
    using assms * by (auto simp: splitIntoUserAnchoredRounds_def Let_def concat_rounds_flush
        collected_def split: if_splits)
  show "\<forall>r \<in> set rounds. r \<noteq> [] \<and> is_role RoleUser (hd r)"
    using assms * flushRound_anchored[of ?s]
    by (auto simp: splitIntoUserAnchoredRounds_def Let_def rounds_anchored_def split: if_splits)
qed

section \<open>The round filter removes nothing\<close>

lemma group_of_valid_role: "role_is_valid r \<Longrightarrow> r \<noteq> RoleSystem \<Longrightarrow> roleGroupOf r \<noteq> roleGroupUnknown"
  by (auto simp: role_is_valid_def roleGroupOf_def)

lemma round_groups_ok_Some:
  "\<forall>m \<in> set ms. role_is_valid (m_role m) \<Longrightarrow> round_groups_ok (Some g) ms"
  by (induction ms arbitrary: g) (auto simp: Let_def group_of_valid_role)

lemma isRoundValid_anchored:
  assumes "r \<noteq> []" "is_role RoleUser (hd r)" "\<forall>m \<in> set r. role_is_valid (m_role m)"
  shows "isRoundValid r"
  using assms
  by (cases r) (auto simp: isRoundValid_def Let_def roleGroupOf_def round_groups_ok_Some)

lemma filterValidRounds_id:
  "\<forall>r \<in> set rs. r \<noteq> [] \<and> isRoundValid r \<Longrightarrow> filterValidRounds rs = rs"
  by (induction rs) auto

section \<open>Closed form of the whole pass\<close>

definition cleaned :: "message list \<Rightarrow> message list" where
  "cleaned ms = ensureNonEmptyContent (removeInvalidRoleMessages ms)"

lemma ensureNonEmptyContent_props:
  "m \<in> set (ensureNonEmptyContent ms) \<Longrightarrow>
     m_content m \<noteq> [] \<and> (\<exists>m' \<in> set ms. m_role m = m_role m')"
  by (induction ms) (auto simp: nonEmptyContentPlaceholder_def split: if_splits)

lemma cleaned_valid: "m \<in> set (cleaned ms) \<Longrightarrow> role_is_valid (m_role m) \<and> m_content m \<noteq> []"
  by (auto simp: cleaned_def removeInvalidRoleMessages_def dest!: ensureNonEmptyContent_props)

lemma ensureNonEmptyContent_id:
  "\<forall>m \<in> set ms. m_content m \<noteq> [] \<Longrightarrow> ensureNonEmptyContent ms = ms"
  by (induction ms) auto

lemma cleaned_id:
  "\<forall>m \<in> set ms. role_is_valid (m_role m) \<and> m_content m \<noteq> [] \<Longrightarrow> cleaned ms = ms"
  by (simp add: cleaned_def removeInvalidRoleMessages_def ensureNonEmptyContent_id)

definition anchored_body :: "message list \<Rightarrow> message list" where
  "anchored_body ms = filter (is_role RoleSystem) (takeWhile not_user ms) @ dropWhile not_user ms"

lemma filterValidRounds_split:
  assumes "splitIntoUserAnchoredRounds (cleaned ms) = (pre, rounds)"
  shows "filterValidRounds rounds = rounds"
proof (rule filterValidRounds_id, intro ballI conjI)
  note closed = splitIntoUserAnchoredRounds_closed[OF assms]
  fix r
  assume r: "r \<in> set rounds"
  then show ne: "r \<noteq> []" using closed(3) by auto
  have "set r \<subseteq> set (concat rounds)" using r by auto
  also have "\<dots> \<subseteq> set (cleaned ms)" using closed(2) set_dropWhileD by fastforce
  finally have "\<forall>m \<in> set r. role_is_valid (m_role m)" using cleaned_valid by blast
  with ne r closed(3) show "isRoundValid r" by (auto intro: isRoundValid_anchored)
qed

lemma validateAndFix_closed:
  "validateAndFixMessageSequence ms = ensureLastMessageIsUserOrTool (anchored_body (cleaned ms))"
proof (cases "cleaned ms = []")
  case True
  then show ?thesis
    by (auto simp: validateAndFixMessageSequence_def cleaned_def anchored_body_def Let_def
        ensureLastMessageIsUserOrTool_def removeInvalidRoleMessages_def)
next
  case False
  obtain pre rounds where sp: "splitIntoUserAnchoredRounds (cleaned ms) = (pre, rounds)"
    by (cases "splitIntoUserAnchoredRounds (cleaned ms)")
  note closed = splitIntoUserAnchoredRounds_closed[OF sp]
  note filterValidRounds_split[OF sp]
  with sp closed False show ?thesis
    by (auto simp: validateAndFixMessageSequence_def cleaned_def anchored_body_def Let_def
        removeInvalidRoleMessages_def)
qed


section \<open>What the pass promises\<close>

lemma trim_end_prefix: "Sublist.prefix (trim_end P ms) ms"
proof -
  have "ms = rev (dropWhile P (rev ms)) @ rev (takeWhile P (rev ms))"
    by (metis rev_append rev_rev_ident takeWhile_dropWhile_id)
  then show ?thesis by (metis prefixI trim_end_def)
qed

lemma trim_end_last: "trim_end P ms \<noteq> [] \<Longrightarrow> \<not> P (last (trim_end P ms))"
  by (auto simp: trim_end_def last_rev hd_dropWhile)

lemma trim_end_id: "ms = [] \<or> \<not> P (last ms) \<Longrightarrow> trim_end P ms = ms"
  by (cases ms rule: rev_cases) (auto simp: trim_end_def)

lemma ensureLast_prefix: "Sublist.prefix (ensureLastMessageIsUserOrTool ms) ms"
  using trim_end_prefix[of "is_role RoleSystem" ms]
    trim_end_prefix[of "is_role RoleAssistant" "trim_end (is_role RoleSystem) ms"]
  by (auto simp: ensureLastMessageIsUserOrTool_def Let_def intro: prefix_order.trans)

lemma ensureLast_last:
  "ensureLastMessageIsUserOrTool ms = [] \<or> user_or_tool (last (ensureLastMessageIsUserOrTool ms))"
  by (auto simp: ensureLastMessageIsUserOrTool_def Let_def)

lemma ensureLast_id: "ms \<noteq> [] \<Longrightarrow> user_or_tool (last ms) \<Longrightarrow> ensureLastMessageIsUserOrTool ms = ms"
  by (subgoal_tac "trim_end (is_role RoleSystem) ms = ms")
    (auto simp: ensureLastMessageIsUserOrTool_def Let_def intro!: trim_end_id)

lemma set_anchored_body: "set (anchored_body ms) \<subseteq> set ms"
  by (auto simp: anchored_body_def dest: set_takeWhileD set_dropWhileD)

lemma validateAndFix_subset: "set (validateAndFixMessageSequence ms) \<subseteq> set (cleaned ms)"
  using set_mono_prefix[OF ensureLast_prefix] set_anchored_body
  by (fastforce simp: validateAndFix_closed)

lemma anchored_body_prefix_fixed:
  assumes "Sublist.prefix r (anchored_body ms)" "r \<noteq> []" "user_or_tool (last r)"
  shows "anchored_body r = r"
proof -
  let ?S = "filter (is_role RoleSystem) (takeWhile not_user ms)"
  have sys: "is_role RoleSystem m" if "m \<in> set ?S" for m using that by auto
  have "\<not> Sublist.prefix r ?S"
    using assms(2,3) sys[of "last r"] set_mono_prefix by (fastforce dest: last_in_set)
  with assms(1) obtain d where r: "r = ?S @ d" and d: "Sublist.prefix d (dropWhile not_user ms)"
    by (auto simp: anchored_body_def prefix_append)
  with \<open>\<not> Sublist.prefix r ?S\<close> obtain x xs where d': "d = x # xs" by (cases d) auto
  with d obtain zs where "dropWhile not_user ms = x # xs @ zs" by (auto simp: prefix_def)
  then have x: "is_role RoleUser x" by (simp add: dropWhile_eq_Cons_conv)
  have ns: "not_user m" if "m \<in> set ?S" for m using sys[OF that] by simp
  have tw: "takeWhile not_user (?S @ x # xs) = ?S"
    using takeWhile_append2[of ?S not_user "x # xs", OF ns] x by simp
  have dw: "dropWhile not_user (?S @ x # xs) = x # xs"
    using dropWhile_append2[of ?S not_user "x # xs", OF ns] x by simp
  show ?thesis unfolding anchored_body_def r d' tw dw by (simp add: filter_id_conv)
qed

lemma cleaned_validated:
  "cleaned (validateAndFixMessageSequence ms) = validateAndFixMessageSequence ms"
  using validateAndFix_subset[of ms] cleaned_valid by (intro cleaned_id) blast

text \<open>The pass only drops messages and fills empty contents: the order is kept.\<close>

lemma ensureNonEmptyContent_map:
  "ensureNonEmptyContent ms =
     map (\<lambda>m. if m_content m \<noteq> [] then m else m\<lparr>m_content := nonEmptyContentPlaceholder\<rparr>)
       (filter (\<lambda>m. m_content m \<noteq> [] \<or> m_content_parts m \<noteq> [] \<or> m_tool_calls m \<noteq> [] \<or> m_reasoning_content m \<noteq> []) ms)"
  by (induction ms) auto

lemma cleaned_subseq: "subseq xs ys \<Longrightarrow> subseq (cleaned xs) (cleaned ys)"
  by (simp add: cleaned_def removeInvalidRoleMessages_def ensureNonEmptyContent_map)
    (intro subseq_map subseq_filter)

lemma anchored_body_subseq: "subseq (anchored_body ms) ms"
proof -
  have "subseq (filter (is_role RoleSystem) (takeWhile not_user ms) @ dropWhile not_user ms)
      (takeWhile not_user ms @ dropWhile not_user ms)"
    by (intro list_emb_append_mono) auto
  then show ?thesis by (simp add: anchored_body_def)
qed

lemma validateAndFix_subseq: "subseq (validateAndFixMessageSequence ms) (cleaned ms)"
  unfolding validateAndFix_closed
  by (rule subseq_order.trans[OF prefix_imp_subseq[OF ensureLast_prefix] anchored_body_subseq])

text \<open>
  What the validator returns is acceptable to a strict chat API: every message has one of the
  four roles and a non-empty content, and unless nothing is left the last message is a user or a
  tool message.
\<close>

theorem validate_result_acceptable:
  "list_all (\<lambda>m. role_is_valid (m_role m) \<and> m_content m \<noteq> []) (validateAndFixMessageSequence ms)
   \<and> (validateAndFixMessageSequence ms = [] \<or> user_or_tool (last (validateAndFixMessageSequence ms)))"
  using validateAndFix_subset[of ms] cleaned_valid ensureLast_last[of "anchored_body (cleaned ms)"]
  by (auto simp: validateAndFix_closed list_all_iff)

text \<open>
  The validator is idempotent: running it again changes nothing, so the tailoring strategies
  may apply it before and after they cut.
\<close>

theorem validate_idempotent:
  "validateAndFixMessageSequence (validateAndFixMessageSequence ms) = validateAndFixMessageSequence ms"
proof (cases "validateAndFixMessageSequence ms = []")
  case True
  then show ?thesis by (simp add: validateAndFixMessageSequence_def)
next
  case False
  let ?r = "validateAndFixMessageSequence ms"
  have last: "user_or_tool (last ?r)"
    using ensureLast_last[of "anchored_body (cleaned ms)"] False by (simp add: validateAndFix_closed)
  have "cleaned ?r = ?r" by (rule cleaned_validated)
  moreover have "anchored_body ?r = ?r"
    using ensureLast_prefix False last unfolding validateAndFix_closed
    by (intro anchored_body_prefix_fixed) auto
  ultimately show ?thesis
    using False last ensureLast_id[of ?r] by (simp add: validateAndFix_closed[of ?r])
qed

text \<open>
  The documented check that user/tool and assistant messages alternate is not made: on the
  rounds the pass cuts, the round filter never removes anything, and the whole pass is "drop what
  precedes the first user message except the system messages, then trim the end".
\<close>

theorem round_filter_is_identity:
  assumes "splitIntoUserAnchoredRounds (cleaned ms) = (pre, rounds)"
  shows "filterValidRounds rounds = rounds
     \<and> concat rounds = dropWhile not_user (cleaned ms)
     \<and> pre = filter (is_role RoleSystem) (takeWhile not_user (cleaned ms))"
  using splitIntoUserAnchoredRounds_closed[OF assms] filterValidRounds_split[OF assms] by simp

theorem round_filter_is_identity_witness:
  "filterValidRounds [[NewUserMessage ''a'', plain_message RoleAssistant ''b'',
       plain_message RoleAssistant ''c'']]
   = [[NewUserMessage ''a'', plain_message RoleAssistant ''b'', plain_message RoleAssistant ''c'']]"
proof -
  let ?ms = "[NewSystemMessage ''s'', NewUserMessage ''a'', plain_message RoleAssistant ''b'',
       plain_message RoleAssistant ''c'']"
  have "splitIntoUserAnchoredRounds (cleaned ?ms) = ([NewSystemMessage ''s''], [tl ?ms])"
    by code_simp
  from round_filter_is_identity[OF this] show ?thesis by simp
qed

text \<open>
  A sequence of system messages only is emptied, so the tailoring strategies, which pass the
  preserved system head alone through the validator when they find no user round, return nothing
  and lose the system prompt they document as preserved.
\<close>

theorem validate_drops_system_only:
  "validateAndFixMessageSequence (takeWhile (is_role RoleSystem) ms) = []"
proof -
  let ?h = "takeWhile (is_role RoleSystem) ms"
  have "\<forall>m \<in> set (cleaned ?h). is_role RoleSystem m"
    by (auto simp: cleaned_def removeInvalidRoleMessages_def
        dest!: ensureNonEmptyContent_props dest: set_takeWhileD)
  then have "\<forall>m \<in> set (validateAndFixMessageSequence ?h). is_role RoleSystem m"
    using validateAndFix_subset by blast
  then show ?thesis
    using ensureLast_last[of "anchored_body (cleaned ?h)"]
    by (cases "validateAndFixMessageSequence ?h = []") (auto simp: validateAndFix_closed)
qed

end
