(* ===== verification/Token_Tailor.thy ===== *)
theory Token_Tailor
  imports Message_Validator
begin

text \<open>
  \<open>model/token_tailor.go\<close>: the estimating token counter and the three strategies that cut a message
  history to a token budget (middle out, head out, tail out).  Indices are those of the code; a
  message slice \<open>messages[a:b]\<close> is \<open>slice a b\<close>.  \<open>TokenCounter\<close> is an interface, so it is a record of
  its two methods; \<open>None\<close> is an error return, and a nil counter is the option's \<open>None\<close>.
\<close>

section \<open>The simple token counter\<close>

record token_counter =
  CountTokens :: "message \<Rightarrow> int option"
  CountTokensRange :: "message list \<Rightarrow> int \<Rightarrow> int \<Rightarrow> int option"

definition countToolCallRunes :: "tool_call \<Rightarrow> int" where
  "countToolCallRunes tc =
     int (rune_count (tc_type tc)) + int (rune_count (tc_id tc))
     + int (rune_count (fn_name (tc_function tc)))
     + int (rune_count (fn_description (tc_function tc)))
     + int (rune_count (fn_arguments (tc_function tc)))"

definition isMessageNotEmpty :: "message \<Rightarrow> bool" where
  "isMessageNotEmpty msg \<longleftrightarrow>
     m_content msg \<noteq> [] \<or> m_reasoning_content msg \<noteq> [] \<or>
     list_ex (\<lambda>tc. tc_type tc \<noteq> [] \<or> tc_id tc \<noteq> [] \<or> fn_name (tc_function tc) \<noteq> [] \<or>
       fn_description (tc_function tc) \<noteq> [] \<or> fn_arguments (tc_function tc) \<noteq> []) (m_tool_calls msg)"

text \<open>
  \<open>SimpleTokenCounter.CountTokens\<close> with the default \<open>approxRunesPerToken\<close> of 4.0: the division of a
  non-negative \<open>float64\<close> by 4 is exact, so its truncation is the integer division.
\<close>

definition simple_count_tokens :: "message \<Rightarrow> int" where
  "simple_count_tokens msg =
     (let total = int (rune_count (m_content msg));
          total = total + (if m_reasoning_content msg \<noteq> []
                           then int (rune_count (m_reasoning_content msg)) else 0);
          total = total + sum_list (map (\<lambda>p. case cp_text p of Some t \<Rightarrow> int (rune_count t) | None \<Rightarrow> 0)
                                      (m_content_parts msg));
          total = total + sum_list (map countToolCallRunes (m_tool_calls msg));
          total = total div 4
      in if isMessageNotEmpty msg then max total 1 else total)"

definition simple_count_range :: "message list \<Rightarrow> int \<Rightarrow> int \<Rightarrow> int option" where
  "simple_count_range ms start end =
     (if start < 0 \<or> end > int (length ms) \<or> start \<ge> end then None
      else Some (sum_list (map simple_count_tokens (take (nat (end - start)) (drop (nat start) ms)))))"

definition SimpleTokenCounter :: token_counter where
  "SimpleTokenCounter =
     \<lparr>CountTokens = (\<lambda>m. Some (simple_count_tokens m)), CountTokensRange = simple_count_range\<rparr>"

section \<open>User-anchored rounds\<close>

record userAnchoredRound =
  r_start :: nat
  r_end :: nat

definition slice :: "nat \<Rightarrow> nat \<Rightarrow> 'a list \<Rightarrow> 'a list" where
  "slice a b xs = take (b - a) (drop a xs)"

record rounds_state =
  rs_rounds :: "userAnchoredRound list"
  rs_in_round :: bool
  rs_last :: role
  rs_start :: nat
  rs_any :: bool

definition flush_round :: "nat \<Rightarrow> rounds_state \<Rightarrow> rounds_state" where
  "flush_round e s =
     (if \<not> rs_in_round s then s
      else if e \<le> rs_start s then s
      else s\<lparr>rs_rounds := rs_rounds s @ [\<lparr>r_start = rs_start s, r_end = e\<rparr>]\<rparr>)"

definition rounds_step :: "bool \<Rightarrow> message list \<Rightarrow> nat \<Rightarrow> rounds_state \<Rightarrow> rounds_state" where
  "rounds_step hasAssistant ms i s =
     (let msg = ms ! i in
      if m_role msg = RoleSystem then s
      else
        let s = s\<lparr>rs_any := True\<rparr>;
            s = (if m_role msg = RoleUser \<and> (\<not> hasAssistant \<or> rs_last s \<noteq> RoleUser)
                 then (if rs_in_round s then flush_round i s else s)\<lparr>rs_in_round := True, rs_start := i\<rparr>
                 else s)
        in s\<lparr>rs_last := m_role msg\<rparr>)"

definition buildUserAnchoredRounds :: "message list \<Rightarrow> int \<Rightarrow> userAnchoredRound list" where
  "buildUserAnchoredRounds ms preservedHead =
     (let ph = (if preservedHead < 0 then 0 else preservedHead);
          ph = nat (if ph > int (length ms) then int (length ms) else ph);
          hasAssistant = list_ex (\<lambda>i. m_role (ms ! i) = RoleAssistant) [ph..<length ms];
          s = fold (rounds_step hasAssistant ms) [ph..<length ms]
                \<lparr>rs_rounds = [], rs_in_round = False, rs_last = [], rs_start = 0, rs_any = False\<rparr>;
          s = (if rs_any s \<and> rs_in_round s then flush_round (length ms) s else s)
      in rs_rounds s)"

fun kept_slices :: "message list \<Rightarrow> userAnchoredRound list \<Rightarrow> bool list \<Rightarrow> message list" where
  "kept_slices ms (r # rs) (k # ks) =
     (if k then slice (r_start r) (r_end r) ms else []) @ kept_slices ms rs ks"
| "kept_slices ms _ _ = []"

definition buildRoundTailoredResult ::
    "message list \<Rightarrow> nat \<Rightarrow> userAnchoredRound list \<Rightarrow> bool list \<Rightarrow> message list" where
  "buildRoundTailoredResult ms preservedHead rounds keep =
     (if preservedHead > 0 then take preservedHead ms else []) @ kept_slices ms rounds keep"

section \<open>Prefix sums\<close>

definition countTokensWithPrefixSum :: "int list \<Rightarrow> int \<Rightarrow> int \<Rightarrow> int" where
  "countTokensWithPrefixSum prefixSum start end =
     (let start = (if start < 0 then 0 else start);
          end = (if end > int (length prefixSum) - 1 then int (length prefixSum) - 1 else end)
      in if start \<ge> end then 0 else prefixSum ! nat end - prefixSum ! nat start)"

abbreviation round_tokens :: "int list \<Rightarrow> userAnchoredRound \<Rightarrow> int" where
  "round_tokens ps r \<equiv> countTokensWithPrefixSum ps (int (r_start r)) (int (r_end r))"

fun countTokensForRounds :: "int list \<Rightarrow> userAnchoredRound list \<Rightarrow> bool list \<Rightarrow> int" where
  "countTokensForRounds ps (r # rs) (k # ks) =
     (if k then round_tokens ps r else 0) + countTokensForRounds ps rs ks"
| "countTokensForRounds ps _ _ = 0"

definition message_tokens :: "token_counter option \<Rightarrow> message \<Rightarrow> int" where
  "message_tokens tc msg =
     (case CountTokens (case tc of None \<Rightarrow> SimpleTokenCounter | Some c \<Rightarrow> c) msg of
        Some t \<Rightarrow> t
      | None \<Rightarrow> simple_count_tokens msg)"

fun prefix_sums :: "(message \<Rightarrow> int) \<Rightarrow> int \<Rightarrow> message list \<Rightarrow> int list" where
  "prefix_sums cnt acc [] = [acc]"
| "prefix_sums cnt acc (m # ms) = acc # prefix_sums cnt (acc + cnt m) ms"

definition buildPrefixSum :: "token_counter option \<Rightarrow> message list \<Rightarrow> int list" where
  "buildPrefixSum tc ms = prefix_sums (message_tokens tc) 0 ms"

fun calculatePreservedHeadCount :: "message list \<Rightarrow> nat" where
  "calculatePreservedHeadCount [] = 0"
| "calculatePreservedHeadCount (m # ms) =
     (if m_role m \<noteq> RoleSystem then 0 else Suc (calculatePreservedHeadCount ms))"

section \<open>The last resort\<close>

text \<open>\<open>scan_down P ms n\<close> is the loop \<open>for i = n-1; i >= 0 && P(ms[i]); i--\<close>, returning \<open>i\<close>.\<close>

fun scan_down :: "(message \<Rightarrow> bool) \<Rightarrow> message list \<Rightarrow> nat \<Rightarrow> int" where
  "scan_down P ms 0 = -1"
| "scan_down P ms (Suc n) = (if P (ms ! n) then scan_down P ms n else int n)"

definition lastNonSystemIndex :: "message list \<Rightarrow> int" where
  "lastNonSystemIndex ms = scan_down (is_role RoleSystem) ms (length ms)"

definition trimTrailingAssistant :: "message list \<Rightarrow> int \<Rightarrow> int" where
  "trimTrailingAssistant ms lst = scan_down (is_role RoleAssistant) ms (nat (lst + 1))"

definition startOfUserToolGroup :: "message list \<Rightarrow> int \<Rightarrow> int" where
  "startOfUserToolGroup ms lst =
     (if lst < 0 then -1
      else if m_role (ms ! nat lst) \<noteq> RoleTool then lst
      else scan_down not_user ms (nat (lst + 1)))"

definition buildMinimalSuffixCandidates ::
    "message list \<Rightarrow> nat \<Rightarrow> message list \<times> message list" where
  "buildMinimalSuffixCandidates ms preservedHead =
     (let lst = lastNonSystemIndex ms in
      if lst < 0 then ([], [])
      else let lst = trimTrailingAssistant ms lst in
        if lst < 0 then ([], [])
        else let start = startOfUserToolGroup ms lst in
          if start < 0 then ([], [])
          else let suffix = slice (nat start) (nat (lst + 1)) ms in
            (validateAndFixMessageSequence ((if preservedHead > 0 then take preservedHead ms else []) @ suffix),
             validateAndFixMessageSequence suffix))"

definition shouldReturnOriginal ::
    "token_counter option \<Rightarrow> message list \<Rightarrow> int \<Rightarrow> (bool \<times> message list) run" where
  "shouldReturnOriginal tc ms maxTokens =
     (if ms = [] then Return (True, ms)
      else if maxTokens \<le> 0 then Return (True, [])
      else case tc of
          None \<Rightarrow> Panic
        | Some c \<Rightarrow> (case CountTokensRange c ms 0 (int (length ms)) of
              None \<Rightarrow> Return (True, ms)
            | Some tokens \<Rightarrow> Return (if tokens \<le> maxTokens then (True, ms) else (False, []))))"

definition fitsWithinBudget :: "token_counter option \<Rightarrow> message list \<Rightarrow> int \<Rightarrow> bool run" where
  "fitsWithinBudget tc ms maxTokens =
     (if ms = [] then Return False
      else case tc of
          None \<Rightarrow> Panic
        | Some c \<Rightarrow> (case CountTokensRange c ms 0 (int (length ms)) of
              None \<Rightarrow> Return False
            | Some tokens \<Rightarrow> Return (tokens \<le> maxTokens)))"

definition ensureTailoredWithinBudget ::
    "token_counter option \<Rightarrow> message list \<Rightarrow> int \<Rightarrow> message list run" where
  "ensureTailoredWithinBudget tc ms maxTokens =
     run_bind (shouldReturnOriginal tc ms maxTokens) (\<lambda>(done, result).
       if done then Return result
       else let (withSystem, withoutSystem) =
              buildMinimalSuffixCandidates ms (calculatePreservedHeadCount ms)
         in run_bind (fitsWithinBudget tc withSystem maxTokens) (\<lambda>fits.
              if fits then Return withSystem
              else if withoutSystem = [] then Return []
              else run_bind (fitsWithinBudget tc withoutSystem maxTokens) (\<lambda>fits2.
                if fits2 then Return withoutSystem else Return withoutSystem)))"

section \<open>The eviction loops and the strategies\<close>

definition keptNonLast :: "bool list \<Rightarrow> nat list" where
  "keptNonLast keep = filter (\<lambda>i. keep ! i) [0..<length keep - 1]"

lemma keptNonLast_shrinks:
  assumes "i \<in> set (keptNonLast keep)"
  shows "length (keptNonLast (keep[i := False])) < length (keptNonLast keep)"
proof -
  have "length (filter (\<lambda>j. j \<noteq> i) (keptNonLast keep)) < length (keptNonLast keep)"
    using assms by (intro length_filter_less[of i]) auto
  moreover have "keptNonLast (keep[i := False]) = filter (\<lambda>j. j \<noteq> i) (keptNonLast keep)"
  proof -
    have "i < length keep" using assms by (auto simp: keptNonLast_def)
    then show ?thesis by (auto simp: keptNonLast_def nth_list_update intro!: filter_cong split: if_splits)
  qed
  ultimately show ?thesis by simp
qed

function middle_out_loop ::
    "int list \<Rightarrow> userAnchoredRound list \<Rightarrow> int \<Rightarrow> bool list \<Rightarrow> int \<Rightarrow> bool list \<times> int" where
  "middle_out_loop ps rounds maxTokens keep cur =
     (if cur \<le> maxTokens then (keep, cur)
      else let kn = keptNonLast keep in
        if kn = [] then (keep, cur)
        else let removeIdx = kn ! (length kn div 2)
          in middle_out_loop ps rounds maxTokens (keep[removeIdx := False])
               (cur - round_tokens ps (rounds ! removeIdx)))"
  by pat_completeness auto
termination
  by (relation "measure (\<lambda>(ps, rounds, maxTokens, keep, cur). length (keptNonLast keep))")
    (auto intro!: keptNonLast_shrinks nth_mem)

declare middle_out_loop.simps [simp del]

function head_out_loop ::
    "int list \<Rightarrow> userAnchoredRound list \<Rightarrow> int \<Rightarrow> nat \<Rightarrow> nat \<Rightarrow> bool list \<Rightarrow> int \<Rightarrow> bool list \<times> int" where
  "head_out_loop ps rounds maxTokens lastRoundIdx dropIdx keep cur =
     (if cur \<le> maxTokens then (keep, cur)
      else if dropIdx \<ge> lastRoundIdx then (keep, cur)
      else head_out_loop ps rounds maxTokens lastRoundIdx (Suc dropIdx) (keep[dropIdx := False])
             (cur - round_tokens ps (rounds ! dropIdx)))"
  by pat_completeness auto
termination
  by (relation "measure (\<lambda>(ps, rounds, maxTokens, l, d, keep, cur). l - d)") auto

declare head_out_loop.simps [simp del]

text \<open>The argument is \<open>dropIdx + 1\<close>: the loop ends when \<open>dropIdx\<close> falls below zero.\<close>

fun tail_out_loop ::
    "int list \<Rightarrow> userAnchoredRound list \<Rightarrow> int \<Rightarrow> nat \<Rightarrow> bool list \<Rightarrow> int \<Rightarrow> bool list \<times> int" where
  "tail_out_loop ps rounds maxTokens 0 keep cur = (keep, cur)"
| "tail_out_loop ps rounds maxTokens (Suc dropIdx) keep cur =
     (if cur \<le> maxTokens then (keep, cur)
      else tail_out_loop ps rounds maxTokens dropIdx (keep[dropIdx := False])
             (cur - round_tokens ps (rounds ! dropIdx)))"

type_synonym eviction = "int list \<Rightarrow> userAnchoredRound list \<Rightarrow> int \<Rightarrow> bool list \<Rightarrow> int \<Rightarrow> bool list \<times> int"

definition middle_out :: eviction where
  "middle_out ps rounds maxTokens keep cur = middle_out_loop ps rounds maxTokens keep cur"

definition head_out :: eviction where
  "head_out ps rounds maxTokens keep cur =
     head_out_loop ps rounds maxTokens (length rounds - 1) 0 keep cur"

definition tail_out :: eviction where
  "tail_out ps rounds maxTokens keep cur =
     tail_out_loop ps rounds maxTokens (length rounds - 1) keep cur"

text \<open>The three \<open>TailorMessages\<close> methods are one text but for the loop.\<close>

definition TailorMessages_with ::
    "eviction \<Rightarrow> token_counter option \<Rightarrow> message list \<Rightarrow> int \<Rightarrow> message list run" where
  "TailorMessages_with evict tc ms maxTokens =
     (if ms = [] then Return []
      else let prefixSum = buildPrefixSum tc ms in
        if prefixSum ! length ms \<le> maxTokens then Return (validateAndFixMessageSequence ms)
        else let preservedHead = calculatePreservedHeadCount ms;
                 rounds = buildUserAnchoredRounds ms (int preservedHead)
          in if rounds = []
             then Return (validateAndFixMessageSequence (take preservedHead ms))
             else let keep = replicate (length rounds) True;
                      currentTotal = prefixSum ! preservedHead + countTokensForRounds prefixSum rounds keep;
                      keep' = fst (evict prefixSum rounds maxTokens keep currentTotal);
                      result = buildRoundTailoredResult ms preservedHead rounds keep'
               in ensureTailoredWithinBudget tc (validateAndFixMessageSequence result) maxTokens)"

definition MiddleOut_TailorMessages :: "token_counter option \<Rightarrow> message list \<Rightarrow> int \<Rightarrow> message list run" where
  "MiddleOut_TailorMessages = TailorMessages_with middle_out"

definition HeadOut_TailorMessages :: "token_counter option \<Rightarrow> message list \<Rightarrow> int \<Rightarrow> message list run" where
  "HeadOut_TailorMessages = TailorMessages_with head_out"

definition TailOut_TailorMessages :: "token_counter option \<Rightarrow> message list \<Rightarrow> int \<Rightarrow> message list run" where
  "TailOut_TailorMessages = TailorMessages_with tail_out"

section \<open>The contract of an eviction loop\<close>

text \<open>
  What \<open>TailorMessages\<close> relies on: started with every round kept and with the total of the head and
  of all rounds, the loop keeps the last round, its running total stays the recomputed total of what
  is kept, and it stops only within the budget or when nothing but the last round is left.
\<close>

locale eviction_strategy =
  fixes evict :: eviction
  assumes evict_length:
    "rounds \<noteq> [] \<Longrightarrow> evict ps rounds mx (replicate (length rounds) True) cur = (k, c) \<Longrightarrow>
       length k = length rounds"
    and evict_last:
    "rounds \<noteq> [] \<Longrightarrow> evict ps rounds mx (replicate (length rounds) True) cur = (k, c) \<Longrightarrow> last k"
    and evict_total:
    "rounds \<noteq> [] \<Longrightarrow>
     evict ps rounds mx (replicate (length rounds) True)
       (base + countTokensForRounds ps rounds (replicate (length rounds) True)) = (k, c) \<Longrightarrow>
       c = base + countTokensForRounds ps rounds k"
    and evict_ends:
    "rounds \<noteq> [] \<Longrightarrow> evict ps rounds mx (replicate (length rounds) True) cur = (k, c) \<Longrightarrow>
       c \<le> mx \<or> k = replicate (length rounds - 1) False @ [True]"

lemma countTokensForRounds_update:
  assumes "length keep = length rounds" "i < length keep" "keep ! i"
  shows "countTokensForRounds ps rounds (keep[i := False])
       = countTokensForRounds ps rounds keep - round_tokens ps (rounds ! i)"
  using assms
proof (induction ps rounds keep arbitrary: i rule: countTokensForRounds.induct)
  case (1 ps r rs k ks)
  then show ?case by (cases i) auto
qed auto

lemma all_but_last_false:
  assumes "length k = n" "n > 0" "last k" "\<And>i. i < n - 1 \<Longrightarrow> \<not> k ! i"
  shows "k = replicate (n - 1) False @ [True]"
proof (rule nth_equalityI)
  show "length k = length (replicate (n - 1) False @ [True])" using assms by simp
  fix i
  assume "i < length k"
  then show "k ! i = (replicate (n - 1) False @ [True]) ! i"
  proof (cases "i < n - 1")
    case True
    then show ?thesis using assms by (simp add: nth_append)
  next
    case False
    then have "i = n - 1" using \<open>i < length k\<close> assms(1) by simp
    then show ?thesis using assms by (auto simp: nth_append last_conv_nth)
  qed
qed

text \<open>The invariant all three loops share.\<close>

definition evict_inv :: "int list \<Rightarrow> userAnchoredRound list \<Rightarrow> int \<Rightarrow> bool list \<Rightarrow> int \<Rightarrow> bool" where
  "evict_inv ps rounds base keep cur \<longleftrightarrow>
     length keep = length rounds \<and> keep \<noteq> [] \<and> last keep \<and>
     cur = base + countTokensForRounds ps rounds keep"

lemma evict_inv_drop:
  assumes "evict_inv ps rounds base keep cur" "i < length keep - 1" "keep ! i"
  shows "evict_inv ps rounds base (keep[i := False]) (cur - round_tokens ps (rounds ! i))"
  using assms by (auto simp: evict_inv_def countTokensForRounds_update last_conv_nth)

lemma evict_inv_init:
  "rounds \<noteq> [] \<Longrightarrow> evict_inv ps rounds
     (cur - countTokensForRounds ps rounds (replicate (length rounds) True)) (replicate (length rounds) True) cur"
  by (simp add: evict_inv_def)

lemma middle_out_loop_inv:
  assumes "middle_out_loop ps rounds mx keep cur = (k, c)" "evict_inv ps rounds base keep cur"
  shows "evict_inv ps rounds base k c
     \<and> (c \<le> mx \<or> k = replicate (length rounds - 1) False @ [True])"
  using assms
proof (induction ps rounds mx keep cur rule: middle_out_loop.induct)
  case (1 ps rounds mx keep cur)
  show ?case
  proof (cases "cur \<le> mx \<or> keptNonLast keep = []")
    case True
    then have k: "k = keep" "c = cur"
      using 1(2) by (auto simp: middle_out_loop.simps[of ps rounds mx keep cur] split: if_splits)
    have "keep = replicate (length rounds - 1) False @ [True]" if "keptNonLast keep = []"
      using that 1(3) by (intro all_but_last_false) (auto simp: evict_inv_def keptNonLast_def filter_empty_conv)
    with True k 1(3) show ?thesis by auto
  next
    case False
    let ?i = "keptNonLast keep ! (length (keptNonLast keep) div 2)"
    have "?i \<in> set (keptNonLast keep)" using False by (intro nth_mem) (simp add: div_less_dividend)
    then have "?i < length keep - 1" "keep ! ?i" by (auto simp: keptNonLast_def)
    note inv = evict_inv_drop[OF 1(3) this]
    with 1 False show ?thesis
      by (simp add: middle_out_loop.simps[of ps rounds mx keep cur] Let_def)
  qed
qed

definition head_kept :: "nat \<Rightarrow> nat \<Rightarrow> bool list" where
  "head_kept n d = map (\<lambda>i. d \<le> i) [0..<n]"

lemma head_kept_drop: "d < n \<Longrightarrow> (head_kept n d)[d := False] = head_kept n (Suc d)"
  by (rule nth_equalityI) (auto simp: head_kept_def nth_list_update)

lemma head_kept_0: "head_kept n 0 = replicate n True"
  by (rule nth_equalityI) (auto simp: head_kept_def)

lemma head_kept_last: "n > 0 \<Longrightarrow> head_kept n (n - 1) = replicate (n - 1) False @ [True]"
  by (rule all_but_last_false) (auto simp: head_kept_def last_map)

lemma head_out_loop_stop:
  "cur \<le> mx \<or> l \<le> d \<Longrightarrow> head_out_loop ps rounds mx l d keep cur = (keep, cur)"
  by (subst head_out_loop.simps) auto

lemma head_out_loop_inv:
  assumes "head_out_loop ps rounds mx (length rounds - 1) d (head_kept (length rounds) d) cur = (k, c)"
    "evict_inv ps rounds base (head_kept (length rounds) d) cur" "d < length rounds"
  shows "evict_inv ps rounds base k c
     \<and> (\<exists>d' \<ge> d. d' < length rounds \<and> k = head_kept (length rounds) d'
          \<and> (c \<le> mx \<or> d' = length rounds - 1)
          \<and> (\<forall>e. d \<le> e \<longrightarrow> e < d' \<longrightarrow>
               mx < base + countTokensForRounds ps rounds (head_kept (length rounds) e)))"
  using assms
proof (induction "length rounds - 1 - d" arbitrary: d cur)
  case 0
  then have d: "d = length rounds - 1" by simp
  then have "k = head_kept (length rounds) d" "c = cur"
    using 0(2) by (simp_all add: head_out_loop_stop)
  with 0 d show ?case by auto
next
  case (Suc n)
  show ?case
  proof (cases "cur \<le> mx")
    case True
    then have "k = head_kept (length rounds) d" "c = cur"
      using Suc.prems(1) by (auto simp: head_out_loop.simps[of ps rounds mx _ d])
    with True Suc.prems show ?thesis by auto
  next
    case False
    have lt: "d < length rounds - 1" using Suc.hyps by simp
    let ?cur = "cur - round_tokens ps (rounds ! d)"
    have inv: "evict_inv ps rounds base (head_kept (length rounds) (Suc d)) ?cur"
      using evict_inv_drop[OF Suc.prems(2), of d] lt
      by (simp add: head_kept_drop) (simp add: head_kept_def)
    have run: "head_out_loop ps rounds mx (length rounds - 1) (Suc d)
       (head_kept (length rounds) (Suc d)) ?cur = (k, c)"
      using Suc.prems(1) False lt by (simp add: head_out_loop.simps[of ps rounds mx _ d] head_kept_drop)
    have "n = length rounds - 1 - Suc d" using Suc.hyps(2) by simp
    moreover have "Suc d < length rounds" using lt by simp
    ultimately obtain d' where
      inv': "evict_inv ps rounds base k c" and d': "d' \<ge> Suc d" "d' < length rounds"
      "k = head_kept (length rounds) d'" "c \<le> mx \<or> d' = length rounds - 1"
      and mn: "\<And>e. Suc d \<le> e \<Longrightarrow> e < d' \<Longrightarrow>
               mx < base + countTokensForRounds ps rounds (head_kept (length rounds) e)"
      using Suc.hyps(1)[OF _ run inv] by blast
    have "mx < base + countTokensForRounds ps rounds (head_kept (length rounds) d)"
      using Suc.prems(2) False by (simp add: evict_inv_def)
    then have "mx < base + countTokensForRounds ps rounds (head_kept (length rounds) e)"
      if "d \<le> e" "e < d'" for e using mn[of e] that by (cases "e = d") auto
    with inv' d' show ?thesis by (intro conjI exI[of _ d']) auto
  qed
qed

definition tail_kept :: "nat \<Rightarrow> nat \<Rightarrow> bool list" where
  "tail_kept n d = map (\<lambda>i. i < d \<or> i = n - 1) [0..<n]"

lemma tail_kept_drop: "Suc d < n \<Longrightarrow> (tail_kept n (Suc d))[d := False] = tail_kept n d"
  by (rule nth_equalityI) (auto simp: tail_kept_def nth_list_update)

lemma tail_kept_all: "tail_kept n (n - 1) = replicate n True"
  by (rule nth_equalityI) (auto simp: tail_kept_def)

lemma tail_kept_0: "n > 0 \<Longrightarrow> tail_kept n 0 = replicate (n - 1) False @ [True]"
  by (rule all_but_last_false) (auto simp: tail_kept_def last_map)

lemma tail_out_loop_inv:
  assumes "tail_out_loop ps rounds mx d (tail_kept (length rounds) d) cur = (k, c)"
    "evict_inv ps rounds base (tail_kept (length rounds) d) cur" "d < length rounds"
  shows "evict_inv ps rounds base k c
     \<and> (\<exists>d' \<le> d. k = tail_kept (length rounds) d'
          \<and> (c \<le> mx \<or> d' = 0)
          \<and> (\<forall>e. d' < e \<longrightarrow> e \<le> d \<longrightarrow>
               mx < base + countTokensForRounds ps rounds (tail_kept (length rounds) e)))"
  using assms
proof (induction d arbitrary: cur)
  case 0
  then show ?case by auto
next
  case (Suc d)
  show ?case
  proof (cases "cur \<le> mx")
    case True
    with Suc.prems show ?thesis by auto
  next
    case False
    let ?cur = "cur - round_tokens ps (rounds ! d)"
    have lt: "Suc d < length rounds" using Suc.prems(3) by simp
    have inv: "evict_inv ps rounds base (tail_kept (length rounds) d) ?cur"
      using evict_inv_drop[OF Suc.prems(2), of d] lt
      by (simp add: tail_kept_drop) (simp add: tail_kept_def)
    have run: "tail_out_loop ps rounds mx d (tail_kept (length rounds) d) ?cur = (k, c)"
      using Suc.prems(1) False lt by (simp add: tail_kept_drop)
    from Suc.IH[OF run inv] lt obtain d' where
      inv': "evict_inv ps rounds base k c" and d': "d' \<le> d"
      "k = tail_kept (length rounds) d'" "c \<le> mx \<or> d' = 0"
      and mn: "\<And>e. d' < e \<Longrightarrow> e \<le> d \<Longrightarrow>
               mx < base + countTokensForRounds ps rounds (tail_kept (length rounds) e)"
      by auto
    have "mx < base + countTokensForRounds ps rounds (tail_kept (length rounds) (Suc d))"
      using Suc.prems(2) False by (simp add: evict_inv_def)
    then have "mx < base + countTokensForRounds ps rounds (tail_kept (length rounds) e)"
      if "d' < e" "e \<le> Suc d" for e using mn[of e] that by (cases "e = Suc d") auto
    with inv' d' show ?thesis by (intro conjI exI[of _ d']) auto
  qed
qed

lemma middle_out_spec:
  assumes "rounds \<noteq> []" "middle_out ps rounds mx (replicate (length rounds) True) cur = (k, c)"
    "cur = base + countTokensForRounds ps rounds (replicate (length rounds) True)"
  shows "evict_inv ps rounds base k c \<and> (c \<le> mx \<or> k = replicate (length rounds - 1) False @ [True])"
proof (rule middle_out_loop_inv)
  show "middle_out_loop ps rounds mx (replicate (length rounds) True) cur = (k, c)"
    using assms(2) by (simp add: middle_out_def)
  show "evict_inv ps rounds base (replicate (length rounds) True) cur"
    using assms(1,3) by (simp add: evict_inv_def)
qed

lemma head_out_spec:
  assumes "rounds \<noteq> []" "head_out ps rounds mx (replicate (length rounds) True) cur = (k, c)"
    "cur = base + countTokensForRounds ps rounds (replicate (length rounds) True)"
  shows "evict_inv ps rounds base k c
     \<and> (\<exists>d' < length rounds. k = head_kept (length rounds) d'
          \<and> (c \<le> mx \<or> d' = length rounds - 1)
          \<and> (\<forall>e < d'. mx < base + countTokensForRounds ps rounds (head_kept (length rounds) e)))"
proof -
  have "head_out_loop ps rounds mx (length rounds - 1) 0 (head_kept (length rounds) 0) cur = (k, c)"
    using assms(2) by (simp add: head_out_def head_kept_0)
  moreover have "evict_inv ps rounds base (head_kept (length rounds) 0) cur"
    using assms(1,3) by (simp add: evict_inv_def head_kept_0)
  ultimately show ?thesis using head_out_loop_inv[of ps rounds mx 0 cur k c base] assms(1) by auto
qed

lemma tail_out_spec:
  assumes "rounds \<noteq> []" "tail_out ps rounds mx (replicate (length rounds) True) cur = (k, c)"
    "cur = base + countTokensForRounds ps rounds (replicate (length rounds) True)"
  shows "evict_inv ps rounds base k c
     \<and> (\<exists>d' < length rounds. k = tail_kept (length rounds) d'
          \<and> (c \<le> mx \<or> d' = 0)
          \<and> (\<forall>e. d' < e \<longrightarrow> e < length rounds \<longrightarrow>
               mx < base + countTokensForRounds ps rounds (tail_kept (length rounds) e)))"
proof -
  let ?n = "length rounds - 1"
  have n: "?n < length rounds" using assms(1) by simp
  have "tail_out_loop ps rounds mx ?n (tail_kept (length rounds) ?n) cur = (k, c)"
    using assms(2) by (simp only: tail_out_def tail_kept_all)
  moreover have "evict_inv ps rounds base (tail_kept (length rounds) ?n) cur"
    unfolding tail_kept_all using assms(1,3) by (simp add: evict_inv_def)
  ultimately obtain d' where "evict_inv ps rounds base k c" "d' \<le> ?n"
    "k = tail_kept (length rounds) d'" "c \<le> mx \<or> d' = 0"
    "\<And>e. d' < e \<Longrightarrow> e \<le> ?n \<Longrightarrow>
       mx < base + countTokensForRounds ps rounds (tail_kept (length rounds) e)"
    using tail_out_loop_inv[OF _ _ n] by blast
  with n show ?thesis by (intro conjI exI[of _ d']) auto
qed

lemma eviction_strategyI:
  assumes spec: "\<And>ps rounds mx cur base k c. rounds \<noteq> [] \<Longrightarrow>
      f ps rounds mx (replicate (length rounds) True) cur = (k, c) \<Longrightarrow>
      cur = base + countTokensForRounds ps rounds (replicate (length rounds) True) \<Longrightarrow>
      evict_inv ps rounds base k c \<and> (c \<le> mx \<or> k = replicate (length rounds - 1) False @ [True])"
  shows "eviction_strategy f"
proof
  fix rounds :: "userAnchoredRound list" and ps mx cur k c
  assume ne: "rounds \<noteq> []" and run: "f ps rounds mx (replicate (length rounds) True) cur = (k, c)"
  have "cur = (cur - countTokensForRounds ps rounds (replicate (length rounds) True))
      + countTokensForRounds ps rounds (replicate (length rounds) True)" by simp
  note * = spec[OF ne run this]
  show "length k = length rounds" "last k" "c \<le> mx \<or> k = replicate (length rounds - 1) False @ [True]"
    using * by (auto simp: evict_inv_def)
next
  fix rounds :: "userAnchoredRound list" and ps mx base k c
  assume ne: "rounds \<noteq> []" and run: "f ps rounds mx (replicate (length rounds) True)
       (base + countTokensForRounds ps rounds (replicate (length rounds) True)) = (k, c)"
  show "c = base + countTokensForRounds ps rounds k"
    using spec[OF ne run refl] by (simp add: evict_inv_def)
qed

interpretation mo: eviction_strategy middle_out
  by (rule eviction_strategyI) (rule middle_out_spec)

interpretation ho: eviction_strategy head_out
proof (rule eviction_strategyI)
  fix ps rounds mx cur base k c
  assume a: "rounds \<noteq> []" "head_out ps rounds mx (replicate (length rounds) True) cur = (k, c)"
    "cur = base + countTokensForRounds ps rounds (replicate (length rounds) True)"
  show "evict_inv ps rounds base k c \<and> (c \<le> mx \<or> k = replicate (length rounds - 1) False @ [True])"
    using head_out_spec[OF a] head_kept_last[of "length rounds"] a(1) by auto
qed

interpretation tlo: eviction_strategy tail_out
proof (rule eviction_strategyI)
  fix ps rounds mx cur base k c
  assume a: "rounds \<noteq> []" "tail_out ps rounds mx (replicate (length rounds) True) cur = (k, c)"
    "cur = base + countTokensForRounds ps rounds (replicate (length rounds) True)"
  show "evict_inv ps rounds base k c \<and> (c \<le> mx \<or> k = replicate (length rounds - 1) False @ [True])"
    using tail_out_spec[OF a] tail_kept_0[of "length rounds"] a(1) by auto
qed


section \<open>The rounds partition the history\<close>

text \<open>\<open>rounds_chain a b rs\<close>: the rounds are non-empty, adjacent, start at \<open>a\<close> and end at \<open>b\<close>.\<close>

fun rounds_chain :: "nat \<Rightarrow> nat \<Rightarrow> userAnchoredRound list \<Rightarrow> bool" where
  "rounds_chain a b [] \<longleftrightarrow> a = b"
| "rounds_chain a b (r # rs) \<longleftrightarrow> r_start r = a \<and> a < r_end r \<and> rounds_chain (r_end r) b rs"

lemma rounds_chain_snoc:
  "rounds_chain a b rs \<Longrightarrow> b < c \<Longrightarrow> rounds_chain a c (rs @ [\<lparr>r_start = b, r_end = c\<rparr>])"
  by (induction a b rs rule: rounds_chain.induct) auto

lemma rounds_chain_le: "rounds_chain a b rs \<Longrightarrow> a \<le> b"
  by (induction a b rs rule: rounds_chain.induct) auto

text \<open>\<open>u\<close> is the index of the first user message (or the end): nothing is collected before it.\<close>

definition rounds_inv :: "nat \<Rightarrow> nat \<Rightarrow> rounds_state \<Rightarrow> bool" where
  "rounds_inv u i s \<longleftrightarrow>
     (if i \<le> u then \<not> rs_in_round s \<and> rs_rounds s = [] \<and> rs_last s \<noteq> RoleUser
      else rs_in_round s \<and> rs_any s \<and> rs_start s < i \<and> rounds_chain u (rs_start s) (rs_rounds s))"

lemma rounds_inv_step:
  assumes "rounds_inv u i s" "i < u \<Longrightarrow> not_user (ms ! i)" "i = u \<Longrightarrow> is_role RoleUser (ms ! i)"
  shows "rounds_inv u (Suc i) (rounds_step ha ms i s)"
proof (cases "i \<le> u")
  case True
  with assms show ?thesis
    by (cases "i = u") (auto simp: rounds_inv_def rounds_step_def Let_def)
next
  case False
  with assms(1) show ?thesis
    by (auto simp: rounds_inv_def rounds_step_def Let_def flush_round_def rounds_chain_snoc less_Suc_eq)
qed

lemma rounds_inv_fold:
  assumes "rounds_inv u i s" "i \<le> j" "\<And>x. i \<le> x \<Longrightarrow> x < j \<Longrightarrow> x < u \<Longrightarrow> not_user (ms ! x)"
    "i \<le> u \<Longrightarrow> u < j \<Longrightarrow> is_role RoleUser (ms ! u)"
  shows "rounds_inv u j (fold (rounds_step ha ms) [i..<j] s)"
  using assms
proof (induction "j - i" arbitrary: i s)
  case 0
  then show ?case by simp
next
  case (Suc n)
  have "rounds_inv u (Suc i) (rounds_step ha ms i s)"
    using Suc.prems Suc.hyps(2) by (intro rounds_inv_step) auto
  with Suc.hyps(1)[of "Suc i"] Suc.prems Suc.hyps(2) show ?case
    by (simp add: upt_conv_Cons)
qed

definition first_user_from :: "message list \<Rightarrow> nat \<Rightarrow> nat" where
  "first_user_from ms ph = ph + length (takeWhile not_user (drop ph ms))"

lemma first_user_from_props:
  assumes "ph \<le> length ms"
  shows "ph \<le> first_user_from ms ph" "first_user_from ms ph \<le> length ms"
    "ph \<le> x \<Longrightarrow> x < first_user_from ms ph \<Longrightarrow> not_user (ms ! x)"
    "first_user_from ms ph < length ms \<Longrightarrow> is_role RoleUser (ms ! first_user_from ms ph)"
proof -
  let ?d = "drop ph ms"
  let ?t = "length (takeWhile not_user ?d)"
  show "ph \<le> first_user_from ms ph" by (simp add: first_user_from_def)
  have "?t \<le> length ?d" by (rule length_takeWhile_le)
  with assms show "first_user_from ms ph \<le> length ms" by (simp add: first_user_from_def)
  show "not_user (ms ! x)" if "ph \<le> x" "x < first_user_from ms ph"
  proof -
    from that obtain y where x: "x = ph + y" and y: "y < ?t"
      by (auto simp: first_user_from_def dest!: le_Suc_ex)
    have "takeWhile not_user ?d ! y = ?d ! y" using y by (rule takeWhile_nth)
    moreover have "not_user (takeWhile not_user ?d ! y)"
      using nth_mem[OF y] by (rule set_takeWhileD[THEN conjunct2])
    ultimately show ?thesis using assms x by simp
  qed
  show "is_role RoleUser (ms ! first_user_from ms ph)" if "first_user_from ms ph < length ms"
    using that nth_length_takeWhile[of not_user ?d] assms by (simp add: first_user_from_def)
qed

lemma rounds_chain_build:
  assumes "ph \<le> length ms"
  shows "rounds_chain (first_user_from ms ph) (length ms) (buildUserAnchoredRounds ms (int ph))"
proof -
  note fu = first_user_from_props[OF assms]
  let ?ha = "list_ex (\<lambda>i. m_role (ms ! i) = RoleAssistant) [ph..<length ms]"
  let ?init = "\<lparr>rs_rounds = [], rs_in_round = False, rs_last = [], rs_start = 0, rs_any = False\<rparr>"
  let ?s = "fold (rounds_step ?ha ms) [ph..<length ms] ?init"
  have "rounds_inv (first_user_from ms ph) ph ?init"
    using fu(1) by (simp add: rounds_inv_def role_defs)
  then have "rounds_inv (first_user_from ms ph) (length ms) ?s"
    using assms fu by (intro rounds_inv_fold) auto
  moreover have "buildUserAnchoredRounds ms (int ph)
     = rs_rounds (if rs_any ?s \<and> rs_in_round ?s then flush_round (length ms) ?s else ?s)"
    using assms by (simp add: buildUserAnchoredRounds_def Let_def)
  ultimately show ?thesis
    using fu(2) by (auto simp: rounds_inv_def flush_round_def rounds_chain_snoc split: if_splits)
qed

lemma preserved_head_le: "calculatePreservedHeadCount ms \<le> length ms"
  by (induction ms) auto

lemma kept_slices_all:
  "rounds_chain a b rs \<Longrightarrow> b \<le> length ms \<Longrightarrow>
     kept_slices ms rs (replicate (length rs) True) = slice a b ms"
proof (induction a b rs rule: rounds_chain.induct)
  case (2 a b r rs)
  then have "r_end r \<le> b" using rounds_chain_le[of "r_end r" b rs] by simp
  then obtain d where d: "b = r_end r + d" using le_Suc_ex by blast
  from 2 obtain e where e: "r_end r = a + e" by (auto dest!: less_imp_le le_Suc_ex)
  have "take (e + d) (drop a ms) = take e (drop a ms) @ take d (drop (a + e) ms)"
    by (subst take_add) (simp add: add.commute)
  with 2 d e show ?case by (simp add: slice_def)
qed (simp add: slice_def)

lemma kept_slices_subseq:
  "rounds_chain a b rs \<Longrightarrow> subseq (kept_slices ms rs ks) (drop a ms)"
proof (induction a b rs arbitrary: ks rule: rounds_chain.induct)
  case (2 a b r rs)
  from 2 obtain e where e: "r_end r = a + e" by (auto dest!: less_imp_le le_Suc_ex)
  have "drop a ms = take e (drop a ms) @ drop (r_end r) ms"
    by (metis append_take_drop_id drop_drop add.commute e)
  moreover have "subseq ((if k then slice (r_start r) (r_end r) ms else []) @ kept_slices ms rs ks')
      (take e (drop a ms) @ drop (r_end r) ms)" for k ks'
    using 2 e by (intro list_emb_append_mono) (auto simp: slice_def)
  ultimately show ?case by (cases ks) auto
qed simp

text \<open>
  The rounds the tailoring strategies work on partition the history: they are non-empty and
  adjacent, the first starts at the first user message after the preserved system head and the last
  ends at the end of the history; so keeping all of them rebuilds everything from that message on.
\<close>

theorem rounds_partition_history:
  "rounds_chain (first_user_from ms (calculatePreservedHeadCount ms)) (length ms)
       (buildUserAnchoredRounds ms (int (calculatePreservedHeadCount ms)))
   \<and> buildRoundTailoredResult ms (calculatePreservedHeadCount ms)
        (buildUserAnchoredRounds ms (int (calculatePreservedHeadCount ms)))
        (replicate (length (buildUserAnchoredRounds ms (int (calculatePreservedHeadCount ms)))) True)
     = take (calculatePreservedHeadCount ms) ms
       @ drop (first_user_from ms (calculatePreservedHeadCount ms)) ms"
  using kept_slices_all[OF rounds_chain_build[OF preserved_head_le, of ms] order_refl]
    rounds_chain_build[OF preserved_head_le, of ms]
  by (simp add: buildRoundTailoredResult_def slice_def)


section \<open>The running total is the token count of the result\<close>

text \<open>What the strategies need of a token counter: the range count is the sum of the single counts.\<close>

locale token_counter_laws =
  fixes counter :: token_counter and w :: "message \<Rightarrow> int"
  assumes count_one: "CountTokens counter m = Some (w m)"
    and count_range: "ms \<noteq> [] \<Longrightarrow>
      CountTokensRange counter ms 0 (int (length ms)) = Some (sum_list (map w ms))"

lemma prefix_sums_nth: "i \<le> length ms \<Longrightarrow> prefix_sums cnt acc ms ! i = acc + sum_list (map cnt (take i ms))"
proof (induction ms arbitrary: i acc)
  case (Cons m ms)
  then show ?case by (cases i) auto
qed simp

lemma length_prefix_sums [simp]: "length (prefix_sums cnt acc ms) = Suc (length ms)"
  by (induction ms arbitrary: acc) auto

context token_counter_laws
begin

lemma message_tokens_eq: "message_tokens (Some counter) = w"
  by (rule ext) (simp add: message_tokens_def count_one)

lemma buildPrefixSum_nth:
  "i \<le> length ms \<Longrightarrow> buildPrefixSum (Some counter) ms ! i = sum_list (map w (take i ms))"
  by (simp add: buildPrefixSum_def prefix_sums_nth message_tokens_eq)

lemma round_tokens_sum:
  assumes "r_start r < r_end r" "r_end r \<le> length ms"
  shows "round_tokens (buildPrefixSum (Some counter) ms) r = sum_list (map w (slice (r_start r) (r_end r) ms))"
proof -
  from assms(1) obtain d where d: "r_end r = r_start r + d" by (auto dest!: less_imp_le le_Suc_ex)
  have "sum_list (map w (take (r_end r) ms))
      = sum_list (map w (take (r_start r) ms)) + sum_list (map w (slice (r_start r) (r_end r) ms))"
    unfolding d by (simp add: take_add slice_def)
  with assms show ?thesis
    by (simp add: countTokensWithPrefixSum_def buildPrefixSum_nth)
      (simp add: buildPrefixSum_def)
qed

lemma countTokensForRounds_sum:
  assumes "rounds_chain a b rs" "b \<le> length ms"
  shows "countTokensForRounds (buildPrefixSum (Some counter) ms) rs ks
       = sum_list (map w (kept_slices ms rs ks))"
  using assms
proof (induction a b rs arbitrary: ks rule: rounds_chain.induct)
  case (2 a b r rs)
  then have "r_end r \<le> length ms" using rounds_chain_le[of "r_end r" b rs] by simp
  with 2 round_tokens_sum[of r ms] show ?case by (cases ks) auto
qed simp

lemma estimate_exact:
  assumes "rounds_chain a (length ms) rs" "h \<le> length ms"
  shows "buildPrefixSum (Some counter) ms ! h + countTokensForRounds (buildPrefixSum (Some counter) ms) rs ks
       = sum_list (map w (buildRoundTailoredResult ms h rs ks))"
  using countTokensForRounds_sum[OF assms(1) order_refl] buildPrefixSum_nth[OF assms(2)]
  by (simp add: buildRoundTailoredResult_def)

text \<open>After the budget check, what is left of the result is within the budget or the last resort.\<close>

lemma ensureTailored_budget:
  assumes "ensureTailoredWithinBudget (Some counter) ms mx = Return out"
  shows "out = [] \<or> sum_list (map w out) \<le> mx
     \<or> out = snd (buildMinimalSuffixCandidates ms (calculatePreservedHeadCount ms))"
  using assms
  by (auto simp: ensureTailoredWithinBudget_def shouldReturnOriginal_def fitsWithinBudget_def
      run_bind_Return_iff count_range split: prod.splits if_splits)

end

interpretation simple: token_counter_laws SimpleTokenCounter simple_count_tokens
  by unfold_locales (auto simp: SimpleTokenCounter_def simple_count_range_def)

lemma built_result_subseq:
  assumes "h \<le> length ms"
  shows "subseq (buildRoundTailoredResult ms h (buildUserAnchoredRounds ms (int h)) k) ms"
proof -
  let ?rs = "buildUserAnchoredRounds ms (int h)"
  note ch = rounds_chain_build[OF assms]
  have "drop (first_user_from ms h) ms = drop (first_user_from ms h - h) (drop h ms)"
    using first_user_from_props(1)[OF assms] by simp
  with kept_slices_subseq[OF ch, of ms k] have "subseq (kept_slices ms ?rs k) (drop h ms)"
    using subseq_drop by (metis subseq_order.trans)
  then have "subseq (take h ms @ kept_slices ms ?rs k) (take h ms @ drop h ms)"
    by (rule list_emb_append_mono[OF subseq_order.refl])
  then show ?thesis
    by (cases "h = 0") (simp_all only: append_take_drop_id buildRoundTailoredResult_def, simp_all)
qed

text \<open>The arguments \<open>TailorMessages\<close> gives the loop, and the list it builds from the answer.\<close>

abbreviation tokens :: "message list \<Rightarrow> int" where
  "tokens ms \<equiv> sum_list (map simple_count_tokens ms)"

abbreviation user_rounds :: "message list \<Rightarrow> userAnchoredRound list" where
  "user_rounds ms \<equiv> buildUserAnchoredRounds ms (int (calculatePreservedHeadCount ms))"

abbreviation start_total :: "message list \<Rightarrow> int" where
  "start_total ms \<equiv>
     buildPrefixSum (Some SimpleTokenCounter) ms ! calculatePreservedHeadCount ms
     + countTokensForRounds (buildPrefixSum (Some SimpleTokenCounter) ms) (user_rounds ms)
         (replicate (length (user_rounds ms)) True)"

abbreviation evicted :: "eviction \<Rightarrow> message list \<Rightarrow> int \<Rightarrow> bool list \<times> int" where
  "evicted evict ms mx \<equiv>
     evict (buildPrefixSum (Some SimpleTokenCounter) ms) (user_rounds ms) mx
       (replicate (length (user_rounds ms)) True) (start_total ms)"

abbreviation built :: "message list \<Rightarrow> bool list \<Rightarrow> message list" where
  "built ms keep \<equiv> buildRoundTailoredResult ms (calculatePreservedHeadCount ms) (user_rounds ms) keep"

lemma built_tokens:
  "buildPrefixSum (Some SimpleTokenCounter) ms ! calculatePreservedHeadCount ms
   + countTokensForRounds (buildPrefixSum (Some SimpleTokenCounter) ms) (user_rounds ms) keep
   = tokens (built ms keep)"
  by (rule simple.estimate_exact[OF rounds_chain_build[OF preserved_head_le] preserved_head_le])

context eviction_strategy
begin

lemma contract:
  assumes "user_rounds ms \<noteq> []" "evicted evict ms mx = (keep, c)"
  shows "length keep = length (user_rounds ms) \<and> last keep \<and> c = tokens (built ms keep)
     \<and> (c \<le> mx \<or> keep = replicate (length (user_rounds ms) - 1) False @ [True])"
proof -
  have "c = tokens (built ms keep)"
    using evict_total[OF assms] built_tokens by simp
  then show ?thesis
    using evict_last[OF assms] evict_ends[OF assms] evict_length[OF assms] by simp
qed

end

text \<open>
  C40. Each of the three eviction loops, run on the full set of rounds, keeps the newest round, and
  stops only when the message list it is about to build fits the budget (its running total is
  exactly that list's token count) or when nothing but the newest round is left.
\<close>

theorem eviction_contract:
  assumes "evict \<in> {middle_out, head_out, tail_out}"
    "user_rounds ms \<noteq> []" "evicted evict ms mx = (keep, c)"
  shows "length keep = length (user_rounds ms) \<and> last keep \<and> c = tokens (built ms keep)
     \<and> (c \<le> mx \<or> keep = replicate (length (user_rounds ms) - 1) False @ [True])"
proof -
  from assms(1) consider "evict = middle_out" | "evict = head_out" | "evict = tail_out" by blast
  then show ?thesis
  proof cases
    case 1
    show ?thesis by (rule mo.contract[OF assms(2) assms(3)[unfolded 1]])
  next
    case 2
    show ?thesis by (rule ho.contract[OF assms(2) assms(3)[unfolded 2]])
  next
    case 3
    show ?thesis by (rule tlo.contract[OF assms(2) assms(3)[unfolded 3]])
  qed
qed

text \<open>\<open>lots n\<close>: \<open>n\<close> tokens of text.\<close>

abbreviation lots :: "nat \<Rightarrow> string" where
  "lots n \<equiv> replicate (4 * n) CHR ''x''"

abbreviation sample_history :: "message list" where
  "sample_history \<equiv>
     [NewSystemMessage ''s'', NewUserMessage (lots 3), plain_message RoleAssistant (lots 2),
      NewUserMessage (lots 4), plain_message RoleAssistant (lots 1), NewUserMessage (lots 5)]"

theorem eviction_contract_witness:
  "last [True, False, True] \<and> (11 :: int) = tokens (built sample_history [True, False, True])"
proof -
  have "user_rounds sample_history \<noteq> []" by code_simp
  moreover have "evicted middle_out sample_history 11 = ([True, False, True], 11)" by code_simp
  ultimately show ?thesis
    using eviction_contract[of middle_out sample_history 11 "[True, False, True]" 11] by blast
qed

text \<open>
  Head-out drops whole rounds from the oldest on and never more than needed: what it keeps is a
  suffix of the rounds, and keeping one round more would have exceeded the budget.
\<close>

theorem head_out_drops_fewest:
  assumes "user_rounds ms \<noteq> []" "evicted head_out ms mx = (keep, c)"
  shows "\<exists>d < length (user_rounds ms). keep = head_kept (length (user_rounds ms)) d \<and>
     (d = 0 \<or> mx < tokens (built ms (head_kept (length (user_rounds ms)) (d - 1))))"
proof -
  from head_out_spec[OF assms refl] obtain d where d: "d < length (user_rounds ms)"
    "keep = head_kept (length (user_rounds ms)) d" and
    e: "\<And>e. e < d \<Longrightarrow> mx < buildPrefixSum (Some SimpleTokenCounter) ms ! calculatePreservedHeadCount ms
        + countTokensForRounds (buildPrefixSum (Some SimpleTokenCounter) ms) (user_rounds ms)
            (head_kept (length (user_rounds ms)) e)"
    by blast
  have "mx < tokens (built ms (head_kept (length (user_rounds ms)) (d - 1)))" if "d \<noteq> 0"
    using e[of "d - 1"] that unfolding built_tokens by simp
  with d show ?thesis by auto
qed

theorem head_out_drops_fewest_witness:
  "\<exists>d < length (user_rounds sample_history).
     [False, False, True] = head_kept (length (user_rounds sample_history)) d \<and>
     (d = 0 \<or> 8 < tokens (built sample_history (head_kept (length (user_rounds sample_history)) (d - 1))))"
proof -
  have "user_rounds sample_history \<noteq> []" by code_simp
  moreover have "evicted head_out sample_history 8 = ([False, False, True], 6)" by code_simp
  ultimately show ?thesis by (rule head_out_drops_fewest)
qed

section \<open>What a strategy returns\<close>

lemma scan_down_props:
  "scan_down P ms n = int i \<Longrightarrow> i < n \<and> \<not> P (ms ! i) \<and> (\<forall>j. i < j \<longrightarrow> j < n \<longrightarrow> P (ms ! j))"
  by (induction n) (auto simp: less_Suc_eq split: if_splits)

lemma one_user_slice:
  assumes "\<forall>j. a < j \<longrightarrow> j < b \<longrightarrow> not_user (ms ! j)" "b \<le> length ms"
  shows "length (filter (is_role RoleUser) (slice a b ms)) \<le> 1"
proof (cases "a < b")
  case True
  then have "slice a b ms = ms ! a # slice (Suc a) b ms"
    using assms(2) by (simp add: slice_def Cons_nth_drop_Suc[symmetric] Suc_diff_Suc[symmetric] del: Suc_diff_Suc)
  moreover have "filter (is_role RoleUser) (slice (Suc a) b ms) = []"
    using assms by (auto simp: slice_def filter_empty_conv in_set_conv_nth)
  ultimately show ?thesis by simp
qed (simp add: slice_def)


lemma head_role: "i < calculatePreservedHeadCount ms \<Longrightarrow> is_role RoleSystem (ms ! i)"
proof (induction ms arbitrary: i)
  case (Cons m ms)
  then show ?case by (cases i) (auto split: if_splits)
qed simp

lemma scan_down_not: "n > 0 \<Longrightarrow> \<not> P (ms ! (n - 1)) \<Longrightarrow> scan_down P ms n = int n - 1"
  by (cases n) auto

text \<open>
  On a history that ends in a user or tool message (every validated one does) the last resort is the
  messages from the last user message on, with or without the system head.
\<close>

lemma minimal_suffix_validated:
  assumes "ms \<noteq> []" "user_or_tool (last ms)"
  shows "buildMinimalSuffixCandidates ms (calculatePreservedHeadCount ms) = ([], []) \<or>
    (\<exists>a \<ge> calculatePreservedHeadCount ms.
       buildMinimalSuffixCandidates ms (calculatePreservedHeadCount ms)
       = (validateAndFixMessageSequence (take (calculatePreservedHeadCount ms) ms @ drop a ms),
          validateAndFixMessageSequence (drop a ms))
     \<and> length (filter (is_role RoleUser) (drop a ms)) \<le> 1)"
proof -
  let ?n = "length ms" and ?h = "calculatePreservedHeadCount ms"
  have n: "?n > 0" and l: "ms ! (?n - 1) = last ms" using assms(1) by (auto simp: last_conv_nth)
  have "\<not> is_role RoleSystem (last ms)" "\<not> is_role RoleAssistant (last ms)"
    using assms(2) by auto
  with n l have lst: "trimTrailingAssistant ms (int ?n - 1) = int ?n - 1" "lastNonSystemIndex ms = int ?n - 1"
    by (simp_all add: trimTrailingAssistant_def lastNonSystemIndex_def scan_down_not del: One_nat_def)
  define start where "start = startOfUserToolGroup ms (int ?n - 1)"
  show ?thesis
  proof (cases "start < 0")
    case True
    then show ?thesis
      by (simp add: buildMinimalSuffixCandidates_def Let_def lst start_def)
  next
    case False
    have nl: "ms ! nat (int ?n - 1) = last ms" using l n by (simp add: nat_diff_distrib')
    have group: "nat start < ?n \<and> \<not> is_role RoleSystem (ms ! nat start)
       \<and> (\<forall>j. nat start < j \<longrightarrow> j < ?n \<longrightarrow> not_user (ms ! j))"
    proof (cases "is_role RoleTool (last ms)")
      case True
      then have "scan_down not_user ms ?n = int (nat start)"
        using False n nl by (simp add: start_def startOfUserToolGroup_def del: One_nat_def)
      from scan_down_props[OF this] show ?thesis by auto
    next
      case notool: False
      then have "start = int ?n - 1"
        using n nl by (simp add: start_def startOfUserToolGroup_def del: One_nat_def)
      moreover have "nat (int ?n - 1) < ?n" using n by linarith
      moreover have "j < ?n \<Longrightarrow> \<not> nat (int ?n - 1) < j" for j by linarith
      ultimately show ?thesis using nl assms(2) by auto
    qed
    then have "?h \<le> nat start" using head_role[of "nat start" ms] by (metis not_le)
    moreover have "slice (nat start) ?n ms = drop (nat start) ms" by (simp add: slice_def)
    moreover have "length (filter (is_role RoleUser) (drop (nat start) ms)) \<le> 1"
      using one_user_slice[of "nat start" ?n ms] group calculation(2) by simp
    ultimately show ?thesis using False n
      by (intro disjI2 exI[of _ "nat start"])
        (simp add: buildMinimalSuffixCandidates_def Let_def lst start_def[symmetric])
  qed
qed

lemma head_and_tail_subseq: "h \<le> a \<Longrightarrow> subseq (take h ms @ drop a ms) ms"
proof -
  assume "h \<le> a"
  then have "drop a ms = drop (a - h) (drop h ms)" by simp
  then have "subseq (drop a ms) (drop h ms)" using subseq_drop by metis
  then have "subseq (take h ms @ drop a ms) (take h ms @ drop h ms)"
    by (rule list_emb_append_mono[OF subseq_order.refl])
  then show ?thesis by simp
qed

lemma ensureTailored_result:
  assumes "ensureTailoredWithinBudget tc ms mx = Return out"
    "ms = [] \<or> user_or_tool (last ms)"
  shows "out = ms \<or> (\<exists>v. out = validateAndFixMessageSequence v \<and> subseq v ms)"
proof (cases "ms = []")
  case True
  then show ?thesis using assms by (simp add: ensureTailoredWithinBudget_def shouldReturnOriginal_def)
next
  case False
  let ?c = "buildMinimalSuffixCandidates ms (calculatePreservedHeadCount ms)"
  have nil: "\<exists>v. [] = validateAndFixMessageSequence v \<and> subseq v ms"
    by (rule exI[of _ "[]"]) (simp add: validateAndFixMessageSequence_def)
  have "\<exists>v. x = validateAndFixMessageSequence v \<and> subseq v ms" if "x = fst ?c \<or> x = snd ?c" for x
  proof -
    from minimal_suffix_validated[OF False] assms(2) False consider
        "?c = ([], [])"
      | a where "calculatePreservedHeadCount ms \<le> a"
          "?c = (validateAndFixMessageSequence (take (calculatePreservedHeadCount ms) ms @ drop a ms),
                 validateAndFixMessageSequence (drop a ms))" by blast
    then show ?thesis
    proof cases
      case 1
      with that nil show ?thesis by auto
    next
      case 2
      with that head_and_tail_subseq subseq_drop show ?thesis by (metis fst_conv snd_conv)
    qed
  qed
  note cand = this
  from assms(1) have "out \<in> {ms, [], fst ?c, snd ?c}"
    by (auto simp: ensureTailoredWithinBudget_def shouldReturnOriginal_def
      run_bind_Return_iff split: if_splits option.splits prod.splits)
  with cand[of out] nil show ?thesis by blast
qed

lemma validated_ends: "validateAndFixMessageSequence ms = [] \<or> user_or_tool (last (validateAndFixMessageSequence ms))"
  using ensureLast_last unfolding validateAndFix_closed .

lemma ensureTailored_validated:
  assumes "ensureTailoredWithinBudget tc (validateAndFixMessageSequence u) mx = Return out"
  shows "\<exists>v. out = validateAndFixMessageSequence v \<and> subseq out (cleaned u)"
proof -
  have u: "subseq (validateAndFixMessageSequence u) (cleaned u)" by (rule validateAndFix_subseq)
  from ensureTailored_result[OF assms validated_ends] consider
      "out = validateAndFixMessageSequence u"
    | v where "out = validateAndFixMessageSequence v" "subseq v (validateAndFixMessageSequence u)" by blast
  then show ?thesis
  proof cases
    case 1
    with u show ?thesis by auto
  next
    case 2
    then have "subseq (cleaned v) (validateAndFixMessageSequence u)"
      using cleaned_subseq[OF 2(2)] by (simp add: cleaned_validated)
    with u 2(1) validateAndFix_subseq[of v] show ?thesis by (metis subseq_order.trans)
  qed
qed

lemma tailored_result:
  assumes "TailorMessages_with evict tc ms mx = Return out"
  shows "\<exists>v. out = validateAndFixMessageSequence v \<and> subseq out (cleaned ms)"
proof -
  let ?h = "calculatePreservedHeadCount ms"
  have nil: "[] = validateAndFixMessageSequence []" by (simp add: validateAndFixMessageSequence_def)
  have tk: "subseq (validateAndFixMessageSequence (take ?h ms)) (cleaned ms)"
    by (rule subseq_order.trans[OF validateAndFix_subseq cleaned_subseq[OF subseq_take]])
  have en: "\<exists>v. out = validateAndFixMessageSequence v \<and> subseq out (cleaned ms)"
    if "ensureTailoredWithinBudget tc (validateAndFixMessageSequence (built ms k)) mx = Return out" for k
    using ensureTailored_validated[OF that] cleaned_subseq[OF built_result_subseq[OF preserved_head_le, of ms k]]
      subseq_order.trans by blast
  show ?thesis using assms nil tk validateAndFix_subseq[of ms] en
    by (auto simp: TailorMessages_with_def Let_def split: if_splits)
qed

text \<open>
  Whatever the strategy, the counter and the budget, the tailored history is an order-preserving
  selection of the cleaned history (no message is invented, reordered or duplicated), every message
  of it has a valid role and a content, and unless it is empty it ends in a user or tool message.
\<close>

theorem tailored_is_selection:
  assumes "strategy \<in> {MiddleOut_TailorMessages, HeadOut_TailorMessages, TailOut_TailorMessages}"
    "strategy tc ms mx = Return out"
  shows "subseq out (cleaned ms)
     \<and> list_all (\<lambda>m. role_is_valid (m_role m) \<and> m_content m \<noteq> []) out
     \<and> (out = [] \<or> user_or_tool (last out))"
proof -
  from assms obtain e where "TailorMessages_with e tc ms mx = Return out"
    by (auto simp: MiddleOut_TailorMessages_def HeadOut_TailorMessages_def TailOut_TailorMessages_def)
  then obtain v where "out = validateAndFixMessageSequence v" "subseq out (cleaned ms)"
    using tailored_result by blast
  then show ?thesis
    using validateAndFix_subset[of v] cleaned_valid validated_ends[of v] by (auto simp: list_all_iff)
qed

abbreviation sample_cut :: "message list" where
  "sample_cut \<equiv> [NewSystemMessage ''s'', NewUserMessage (lots 3), plain_message RoleAssistant (lots 2),
      NewUserMessage (lots 5)]"

theorem tailored_is_selection_witness:
  "subseq sample_cut (cleaned sample_history)"
proof -
  have "MiddleOut_TailorMessages (Some SimpleTokenCounter) sample_history 11 = Return sample_cut"
    by code_simp
  then show ?thesis
    using tailored_is_selection[of MiddleOut_TailorMessages "Some SimpleTokenCounter" sample_history 11 sample_cut]
    by blast
qed

lemma cleaned_roles: "length (filter (is_role r) (cleaned ms)) \<le> length (filter (is_role r) ms)"
  by (induction ms) (auto simp: cleaned_def removeInvalidRoleMessages_def)

lemma validateAndFix_users:
  "length (filter (is_role r) (validateAndFixMessageSequence ms)) \<le> length (filter (is_role r) ms)"
proof -
  have "length (filter (is_role r) (validateAndFixMessageSequence ms)) \<le> length (filter (is_role r) (cleaned ms))"
    by (rule list_emb_length[OF subseq_filter[OF validateAndFix_subseq]])
  also have "\<dots> \<le> length (filter (is_role r) ms)" by (rule cleaned_roles)
  finally show ?thesis .
qed

text \<open>A list of user messages at most one long is what the last resort leaves.\<close>

lemma last_resort_one_user:
  assumes "ms = [] \<or> user_or_tool (last ms)"
  shows "length (filter (is_role RoleUser) (snd (buildMinimalSuffixCandidates ms (calculatePreservedHeadCount ms)))) \<le> 1"
proof (cases "ms = []")
  case True
  then show ?thesis by (simp add: buildMinimalSuffixCandidates_def lastNonSystemIndex_def)
next
  case False
  then have "user_or_tool (last ms)" using assms by blast
  from minimal_suffix_validated[OF False this] show ?thesis
  proof (elim disjE exE conjE)
    fix a
    assume c: "buildMinimalSuffixCandidates ms (calculatePreservedHeadCount ms)
       = (validateAndFixMessageSequence (take (calculatePreservedHeadCount ms) ms @ drop a ms),
          validateAndFixMessageSequence (drop a ms))"
      and one: "length (filter (is_role RoleUser) (drop a ms)) \<le> 1"
    show ?thesis unfolding c snd_conv by (rule order.trans[OF validateAndFix_users one])
  qed simp
qed

lemma head_tailored_empty: "validateAndFixMessageSequence (take (calculatePreservedHeadCount ms) ms) = []"
proof -
  let ?h = "take (calculatePreservedHeadCount ms) ms"
  have "\<forall>m \<in> set ?h. is_role RoleSystem m"
    using head_role[of _ ms] preserved_head_le[of ms] by (auto simp: in_set_conv_nth)
  then have "\<forall>m \<in> set (validateAndFixMessageSequence ?h). is_role RoleSystem m"
    using validateAndFix_subset[of ?h]
    by (fastforce simp: cleaned_def removeInvalidRoleMessages_def dest!: ensureNonEmptyContent_props)
  then show ?thesis
    using validated_ends[of ?h] by (cases "validateAndFixMessageSequence ?h = []") auto
qed



text \<open>
  The constructors accept a nil counter and the prefix sums fall back to the simple one, but
  the final budget check does not: on a history over the budget it dereferences the nil counter
  whenever there is something left to check and a budget to check it against.
\<close>

theorem nil_counter_panics:
  "ensureTailoredWithinBudget None ms mx = Panic \<longleftrightarrow> ms \<noteq> [] \<and> mx > 0"
  by (auto simp: ensureTailoredWithinBudget_def shouldReturnOriginal_def)

end
