(* ===== verification/Message_Json.thy ===== *)
theory Message_Json
  imports Model_Message
begin

text \<open>
  The JSON form of chat messages: the struct tags of \<open>model/request.go\<close> and the custom codec of
  \<open>FunctionDefinitionParam\<close>, over the documents of \<open>gojson\<close>.  A \<open>[]byte\<close> field is written in base64,
  as \<open>encoding/json\<close> does.  Decoding folds over the members of an object in document order and
  matches names without regard to (ASCII) case; a member that is \<open>null\<close> leaves its field alone.
  Strings are taken to be valid UTF-8, which \<open>encoding/json\<close> writes and reads unchanged.  A
  mismatch of types stops the decoding (\<open>DErr\<close>); the real decoder goes on to the end before it
  returns that error.
\<close>

section \<open>Base64\<close>

definition b64_alphabet :: string where
  "b64_alphabet = ''ABCDEFGHIJKLMNOPQRSTUVWXYZabcdefghijklmnopqrstuvwxyz0123456789+/''"

definition b64_char :: "nat \<Rightarrow> char" where
  "b64_char n = b64_alphabet ! n"

fun index_of :: "'a \<Rightarrow> 'a list \<Rightarrow> nat option" where
  "index_of x [] = None"
| "index_of x (y # ys) = (if x = y then Some 0 else map_option Suc (index_of x ys))"

definition b64_val :: "char \<Rightarrow> nat option" where
  "b64_val c = index_of c b64_alphabet"

fun b64_encode :: "string \<Rightarrow> string" where
  "b64_encode [] = []"
| "b64_encode [a] =
     [b64_char (of_char a div 4), b64_char (of_char a mod 4 * 16), CHR ''='', CHR ''='']"
| "b64_encode [a, b] =
     [b64_char (of_char a div 4), b64_char (of_char a mod 4 * 16 + of_char b div 16),
      b64_char (of_char b mod 16 * 4), CHR ''='']"
| "b64_encode (a # b # c # rest) =
     b64_char (of_char a div 4) # b64_char (of_char a mod 4 * 16 + of_char b div 16)
     # b64_char (of_char b mod 16 * 4 + of_char c div 64) # b64_char (of_char c mod 64)
     # b64_encode rest"

text \<open>The standard decoder skips carriage returns and newlines; padding ends the text.\<close>

fun b64_groups :: "string \<Rightarrow> string option" where
  "b64_groups [] = Some []"
| "b64_groups (p # q # r # s # rest) =
     (case (b64_val p, b64_val q) of
        (Some x, Some y) \<Rightarrow>
          (if r = CHR ''='' then
             (if s = CHR ''='' \<and> rest = [] then Some [char_of (x * 4 + y div 16)] else None)
           else (case b64_val r of
               None \<Rightarrow> None
             | Some z \<Rightarrow>
                 (if s = CHR ''='' then
                    (if rest = [] then Some [char_of (x * 4 + y div 16), char_of (y mod 16 * 16 + z div 4)]
                     else None)
                  else (case b64_val s of
                      None \<Rightarrow> None
                    | Some w \<Rightarrow>
                        map_option (\<lambda>out. char_of (x * 4 + y div 16) # char_of (y mod 16 * 16 + z div 4)
                                      # char_of (z mod 4 * 64 + w) # out) (b64_groups rest)))))
      | _ \<Rightarrow> None)"
| "b64_groups _ = None"

definition b64_decode :: "string \<Rightarrow> string option" where
  "b64_decode s = b64_groups (filter (\<lambda>c. c \<noteq> CHR 0x0A \<and> c \<noteq> CHR 0x0D) s)"

lemma index_of_nth: "distinct xs \<Longrightarrow> i < length xs \<Longrightarrow> index_of (xs ! i) xs = Some i"
proof (induction xs arbitrary: i)
  case (Cons x xs)
  then show ?case by (cases i) auto
qed simp

lemma b64_alphabet_props:
  "distinct b64_alphabet" "length b64_alphabet = 64" "CHR ''='' \<notin> set b64_alphabet"
  "CHR 0x0A \<notin> set b64_alphabet" "CHR 0x0D \<notin> set b64_alphabet"
  unfolding b64_alphabet_def by simp_all

lemma b64_val_char [simp]: "n < 64 \<Longrightarrow> b64_val (b64_char n) = Some n"
  by (simp add: b64_val_def b64_char_def index_of_nth b64_alphabet_props)

lemma b64_char_neq [simp]:
  assumes "n < 64"
  shows "b64_char n \<noteq> CHR ''=''" "b64_char n \<noteq> CHR 0x0A" "b64_char n \<noteq> CHR 0x0D"
proof -
  have "b64_char n \<in> set b64_alphabet" using assms by (simp add: b64_char_def b64_alphabet_props(2))
  then show "b64_char n \<noteq> CHR ''=''" "b64_char n \<noteq> CHR 0x0A" "b64_char n \<noteq> CHR 0x0D"
    using b64_alphabet_props(3-5) by metis+
qed

lemma b64_pack [simp]:
  fixes b c :: char
  shows "(of_char b div 16 div 16 :: nat) = 0" "(of_char b div 16 mod 16 :: nat) = of_char b div 16"
    "(of_char c div 64 div 4 :: nat) = 0" "(of_char c div 64 mod 4 :: nat) = of_char c div 64"
proof -
  have "(of_char b :: nat) < 256" "(of_char c :: nat) < 256" by simp_all
  then have "(of_char b div 16 :: nat) < 16" "(of_char c div 64 :: nat) < 4"
    by (simp_all add: less_mult_imp_div_less)
  then show "(of_char b div 16 div 16 :: nat) = 0" "(of_char b div 16 mod 16 :: nat) = of_char b div 16"
    "(of_char c div 64 div 4 :: nat) = 0" "(of_char c div 64 mod 4 :: nat) = of_char c div 64"
    by simp_all
qed

lemma b64_ranges [simp]:
  fixes a b c :: char
  shows "(of_char a div 4 :: nat) < 64" "(of_char a mod 4 * 16 :: nat) < 64"
    "(of_char a mod 4 * 16 + of_char b div 16 :: nat) < 64" "(of_char b mod 16 * 4 :: nat) < 64"
    "(of_char b mod 16 * 4 + of_char c div 64 :: nat) < 64"
proof -
  have lt: "(of_char a :: nat) < 256" "(of_char b :: nat) < 256" "(of_char c :: nat) < 256" by simp_all
  then have "(of_char b div 16 :: nat) < 16" "(of_char c div 64 :: nat) < 4" "(of_char a div 4 :: nat) < 64"
    by (simp_all add: less_mult_imp_div_less)
  moreover have "(of_char a mod 4 :: nat) < 4" "(of_char b mod 16 :: nat) < 16" by simp_all
  ultimately show "(of_char a div 4 :: nat) < 64" "(of_char a mod 4 * 16 :: nat) < 64"
    "(of_char a mod 4 * 16 + of_char b div 16 :: nat) < 64" "(of_char b mod 16 * 4 :: nat) < 64"
    "(of_char b mod 16 * 4 + of_char c div 64 :: nat) < 64"
    by linarith+
qed

lemma b64_encode_no_newline: "filter (\<lambda>c. c \<noteq> CHR 0x0A \<and> c \<noteq> CHR 0x0D) (b64_encode s) = b64_encode s"
  by (induction s rule: b64_encode.induct) simp_all

lemma b64_groups_encode: "b64_groups (b64_encode s) = Some s"
  by (induction s rule: b64_encode.induct) simp_all

lemma b64_roundtrip [simp]: "b64_decode (b64_encode s) = Some s"
  by (simp add: b64_decode_def b64_encode_no_newline b64_groups_encode)


section \<open>Encoding\<close>

definition omit_str :: "string \<Rightarrow> string \<Rightarrow> (string \<times> gojson) list" where
  "omit_str k s = (if s = [] then [] else [(k, JStr s)])"

definition omit_nil :: "string \<Rightarrow> ('a \<Rightarrow> gojson) \<Rightarrow> 'a option \<Rightarrow> (string \<times> gojson) list" where
  "omit_nil k enc x = (case x of None \<Rightarrow> [] | Some y \<Rightarrow> [(k, enc y)])"

definition omit_list :: "string \<Rightarrow> ('a \<Rightarrow> gojson) \<Rightarrow> 'a list \<Rightarrow> (string \<times> gojson) list" where
  "omit_list k enc xs = (if xs = [] then [] else [(k, JArr (map enc xs))])"

definition enc_file :: "file_part \<Rightarrow> gojson" where
  "enc_file f = JObj ([(''filename'', JStr (file_name f)), (''data'', JStr (b64_encode (file_data f))),
     (''file_id'', JStr (file_id f))] @ omit_str ''format'' (file_mime_type f))"

definition enc_image :: "image_part \<Rightarrow> gojson" where
  "enc_image i = JObj ([(''url'', JStr (image_url i)), (''data'', JStr (b64_encode (image_data i)))]
     @ omit_str ''detail'' (image_detail i) @ omit_str ''format'' (image_format i))"

definition enc_audio :: "audio_part \<Rightarrow> gojson" where
  "enc_audio a = JObj [(''data'', JStr (b64_encode (audio_data a))), (''format'', JStr (audio_format a))]"

definition enc_part :: "content_part \<Rightarrow> gojson" where
  "enc_part p = JObj ([(''type'', JStr (cp_type p))] @ omit_nil ''text'' JStr (cp_text p)
     @ omit_nil ''image'' enc_image (cp_image p) @ omit_nil ''audio'' enc_audio (cp_audio p)
     @ omit_nil ''file'' enc_file (cp_file p))"

text \<open>\<open>FunctionDefinitionParam.MarshalJSON\<close>: the outer \<open>arguments\<close> string hides the embedded bytes.\<close>

definition enc_function :: "function_definition_param \<Rightarrow> gojson" where
  "enc_function f = JObj (omit_str ''arguments'' (fn_arguments f) @ [(''name'', JStr (fn_name f))]
     @ (if fn_strict f then [(''strict'', JBool True)] else [])
     @ omit_str ''description'' (fn_description f))"

definition enc_map :: "(string, gojson) gomap \<Rightarrow> gojson" where
  "enc_map m = JObj (sort_key fst m)"

definition enc_tool_call :: "tool_call \<Rightarrow> gojson" where
  "enc_tool_call c = JObj ([(''type'', JStr (tc_type c)), (''function'', enc_function (tc_function c))]
     @ omit_str ''id'' (tc_id c) @ omit_nil ''index'' JNum (tc_index c)
     @ (case tc_extra_fields c of None \<Rightarrow> [] | Some m \<Rightarrow> if m = [] then [] else [(''extra_fields'', enc_map m)]))"

definition enc_message :: "message \<Rightarrow> gojson" where
  "enc_message m = JObj ([(''role'', JStr (m_role m))] @ omit_str ''content'' (m_content m)
     @ omit_list ''content_parts'' enc_part (m_content_parts m)
     @ omit_str ''tool_id'' (m_tool_id m) @ omit_str ''tool_name'' (m_tool_name m)
     @ omit_list ''tool_calls'' enc_tool_call (m_tool_calls m)
     @ omit_str ''reasoning_content'' (m_reasoning_content m))"

section \<open>Decoding\<close>

datatype 'a dec = DErr | DPanic | DOk 'a

fun dec_bind :: "'a dec \<Rightarrow> ('a \<Rightarrow> 'b dec) \<Rightarrow> 'b dec" where
  "dec_bind DErr f = DErr"
| "dec_bind DPanic f = DPanic"
| "dec_bind (DOk x) f = f x"

fun dec_map :: "('a \<Rightarrow> 'b) \<Rightarrow> 'a dec \<Rightarrow> 'b dec" where
  "dec_map f DErr = DErr"
| "dec_map f DPanic = DPanic"
| "dec_map f (DOk x) = DOk (f x)"

definition lower_char :: "char \<Rightarrow> char" where
  "lower_char c = (if 65 \<le> (of_char c :: nat) \<and> (of_char c :: nat) \<le> 90 then char_of ((of_char c :: nat) + 32) else c)"

definition names :: "string \<Rightarrow> string \<Rightarrow> bool" where
  "names k field \<longleftrightarrow> map lower_char k = field"

fun dec_members :: "(string \<Rightarrow> gojson \<Rightarrow> 'a \<Rightarrow> 'a dec) \<Rightarrow> (string \<times> gojson) list \<Rightarrow> 'a \<Rightarrow> 'a dec" where
  "dec_members step [] x = DOk x"
| "dec_members step ((k, v) # ms) x = dec_bind (step k v x) (dec_members step ms)"

fun dec_object :: "(string \<Rightarrow> gojson \<Rightarrow> 'a \<Rightarrow> 'a dec) \<Rightarrow> gojson \<Rightarrow> 'a \<Rightarrow> 'a dec" where
  "dec_object step (JObj ms) x = dec_members step ms x"
| "dec_object step JNull x = DOk x"
| "dec_object step _ x = DErr"

fun dec_string :: "gojson \<Rightarrow> string \<Rightarrow> string dec" where
  "dec_string (JStr s) x = DOk s"
| "dec_string JNull x = DOk x"
| "dec_string _ x = DErr"

fun dec_bool :: "gojson \<Rightarrow> bool \<Rightarrow> bool dec" where
  "dec_bool (JBool b) x = DOk b"
| "dec_bool JNull x = DOk x"
| "dec_bool _ x = DErr"

fun dec_bytes :: "gojson \<Rightarrow> string dec" where
  "dec_bytes (JStr s) = (case b64_decode s of None \<Rightarrow> DErr | Some t \<Rightarrow> DOk t)"
| "dec_bytes JNull = DOk []"
| "dec_bytes (JArr vs) =
     (if list_all (\<lambda>v. case v of JNum n \<Rightarrow> 0 \<le> n \<and> n < 256 | JNull \<Rightarrow> True | _ \<Rightarrow> False) vs
      then DOk (map (\<lambda>v. case v of JNum n \<Rightarrow> char_of (nat n) | _ \<Rightarrow> char_of (0::nat)) vs) else DErr)"
| "dec_bytes _ = DErr"

text \<open>A pointer field: \<open>null\<close> makes it nil, anything else is decoded into the pointed-to value.\<close>

fun dec_ptr :: "(gojson \<Rightarrow> 'a \<Rightarrow> 'a dec) \<Rightarrow> 'a \<Rightarrow> gojson \<Rightarrow> 'a option \<Rightarrow> 'a option dec" where
  "dec_ptr d zero JNull x = DOk None"
| "dec_ptr d zero v x = dec_map Some (d v (case x of None \<Rightarrow> zero | Some y \<Rightarrow> y))"

fun dec_elems :: "(gojson \<Rightarrow> 'a dec) \<Rightarrow> gojson list \<Rightarrow> 'a list dec" where
  "dec_elems d [] = DOk []"
| "dec_elems d (v # vs) = dec_bind (d v) (\<lambda>x. dec_map ((#) x) (dec_elems d vs))"

fun dec_list :: "(gojson \<Rightarrow> 'a dec) \<Rightarrow> gojson \<Rightarrow> 'a list dec" where
  "dec_list d (JArr vs) = dec_elems d vs"
| "dec_list d JNull = DOk []"
| "dec_list d _ = DErr"

fun dec_int :: "gojson \<Rightarrow> int \<Rightarrow> int dec" where
  "dec_int (JNum n) x = DOk n"
| "dec_int JNull x = DOk x"
| "dec_int _ x = DErr"

fun dec_map_any :: "gojson \<Rightarrow> (string, gojson) gomap option \<Rightarrow> (string, gojson) gomap option dec" where
  "dec_map_any (JObj ms) x = DOk (Some (gcopy_into (case x of None \<Rightarrow> [] | Some m \<Rightarrow> m) ms))"
| "dec_map_any JNull x = DOk None"
| "dec_map_any _ x = DErr"

definition file_step :: "string \<Rightarrow> gojson \<Rightarrow> file_part \<Rightarrow> file_part dec" where
  "file_step k v x =
     (if names k ''filename'' then dec_map (\<lambda>s. x\<lparr>file_name := s\<rparr>) (dec_string v (file_name x))
      else if names k ''data'' then dec_map (\<lambda>s. x\<lparr>file_data := s\<rparr>) (dec_bytes v)
      else if names k ''file_id'' then dec_map (\<lambda>s. x\<lparr>file_id := s\<rparr>) (dec_string v (file_id x))
      else if names k ''format'' then dec_map (\<lambda>s. x\<lparr>file_mime_type := s\<rparr>) (dec_string v (file_mime_type x))
      else DOk x)"

definition image_step :: "string \<Rightarrow> gojson \<Rightarrow> image_part \<Rightarrow> image_part dec" where
  "image_step k v x =
     (if names k ''url'' then dec_map (\<lambda>s. x\<lparr>image_url := s\<rparr>) (dec_string v (image_url x))
      else if names k ''data'' then dec_map (\<lambda>s. x\<lparr>image_data := s\<rparr>) (dec_bytes v)
      else if names k ''detail'' then dec_map (\<lambda>s. x\<lparr>image_detail := s\<rparr>) (dec_string v (image_detail x))
      else if names k ''format'' then dec_map (\<lambda>s. x\<lparr>image_format := s\<rparr>) (dec_string v (image_format x))
      else DOk x)"

definition audio_step :: "string \<Rightarrow> gojson \<Rightarrow> audio_part \<Rightarrow> audio_part dec" where
  "audio_step k v x =
     (if names k ''data'' then dec_map (\<lambda>s. x\<lparr>audio_data := s\<rparr>) (dec_bytes v)
      else if names k ''format'' then dec_map (\<lambda>s. x\<lparr>audio_format := s\<rparr>) (dec_string v (audio_format x))
      else DOk x)"

definition zero_file :: file_part where
  "zero_file = \<lparr>file_name = [], file_data = [], file_id = [], file_mime_type = []\<rparr>"

definition zero_image :: image_part where
  "zero_image = \<lparr>image_url = [], image_data = [], image_detail = [], image_format = []\<rparr>"

definition zero_audio :: audio_part where
  "zero_audio = \<lparr>audio_data = [], audio_format = []\<rparr>"

definition part_step :: "string \<Rightarrow> gojson \<Rightarrow> content_part \<Rightarrow> content_part dec" where
  "part_step k v x =
     (if names k ''type'' then dec_map (\<lambda>s. x\<lparr>cp_type := s\<rparr>) (dec_string v (cp_type x))
      else if names k ''text'' then dec_map (\<lambda>s. x\<lparr>cp_text := s\<rparr>) (dec_ptr dec_string [] v (cp_text x))
      else if names k ''image''
        then dec_map (\<lambda>s. x\<lparr>cp_image := s\<rparr>) (dec_ptr (dec_object image_step) zero_image v (cp_image x))
      else if names k ''audio''
        then dec_map (\<lambda>s. x\<lparr>cp_audio := s\<rparr>) (dec_ptr (dec_object audio_step) zero_audio v (cp_audio x))
      else if names k ''file''
        then dec_map (\<lambda>s. x\<lparr>cp_file := s\<rparr>) (dec_ptr (dec_object file_step) zero_file v (cp_file x))
      else DOk x)"

definition function_step ::
    "string \<Rightarrow> gojson \<Rightarrow> function_definition_param \<Rightarrow> function_definition_param dec" where
  "function_step k v x =
     (if names k ''arguments'' then dec_map (\<lambda>s. x\<lparr>fn_arguments := s\<rparr>) (dec_string v (fn_arguments x))
      else if names k ''name'' then dec_map (\<lambda>s. x\<lparr>fn_name := s\<rparr>) (dec_string v (fn_name x))
      else if names k ''strict'' then dec_map (\<lambda>s. x\<lparr>fn_strict := s\<rparr>) (dec_bool v (fn_strict x))
      else if names k ''description'' then dec_map (\<lambda>s. x\<lparr>fn_description := s\<rparr>) (dec_string v (fn_description x))
      else DOk x)"

text \<open>
  \<open>FunctionDefinitionParam.UnmarshalJSON\<close> decodes into a pointer to its auxiliary struct: \<open>null\<close>
  makes that pointer nil, and the assignment after it dereferences it.
\<close>

definition dec_function ::
    "gojson \<Rightarrow> function_definition_param \<Rightarrow> function_definition_param dec" where
  "dec_function v x =
     (if v = JNull then DPanic else dec_object function_step v (x\<lparr>fn_arguments := []\<rparr>))"

definition tool_call_step :: "string \<Rightarrow> gojson \<Rightarrow> tool_call \<Rightarrow> tool_call dec" where
  "tool_call_step k v x =
     (if names k ''type'' then dec_map (\<lambda>s. x\<lparr>tc_type := s\<rparr>) (dec_string v (tc_type x))
      else if names k ''function'' then dec_map (\<lambda>s. x\<lparr>tc_function := s\<rparr>) (dec_function v (tc_function x))
      else if names k ''id'' then dec_map (\<lambda>s. x\<lparr>tc_id := s\<rparr>) (dec_string v (tc_id x))
      else if names k ''index'' then dec_map (\<lambda>s. x\<lparr>tc_index := s\<rparr>) (dec_ptr dec_int 0 v (tc_index x))
      else if names k ''extra_fields''
        then dec_map (\<lambda>s. x\<lparr>tc_extra_fields := s\<rparr>) (dec_map_any v (tc_extra_fields x))
      else DOk x)"

definition zero_part :: content_part where
  "zero_part = \<lparr>cp_type = [], cp_text = None, cp_image = None, cp_audio = None, cp_file = None\<rparr>"

definition zero_tool_call :: tool_call where
  "zero_tool_call = \<lparr>tc_type = [],
     tc_function = \<lparr>fn_name = [], fn_strict = False, fn_description = [], fn_arguments = []\<rparr>,
     tc_id = [], tc_index = None, tc_extra_fields = None\<rparr>"

definition message_step :: "string \<Rightarrow> gojson \<Rightarrow> message \<Rightarrow> message dec" where
  "message_step k v x =
     (if names k ''role'' then dec_map (\<lambda>s. x\<lparr>m_role := s\<rparr>) (dec_string v (m_role x))
      else if names k ''content'' then dec_map (\<lambda>s. x\<lparr>m_content := s\<rparr>) (dec_string v (m_content x))
      else if names k ''content_parts''
        then dec_map (\<lambda>s. x\<lparr>m_content_parts := s\<rparr>) (dec_list (\<lambda>v. dec_object part_step v zero_part) v)
      else if names k ''tool_id'' then dec_map (\<lambda>s. x\<lparr>m_tool_id := s\<rparr>) (dec_string v (m_tool_id x))
      else if names k ''tool_name'' then dec_map (\<lambda>s. x\<lparr>m_tool_name := s\<rparr>) (dec_string v (m_tool_name x))
      else if names k ''tool_calls''
        then dec_map (\<lambda>s. x\<lparr>m_tool_calls := s\<rparr>) (dec_list (\<lambda>v. dec_object tool_call_step v zero_tool_call) v)
      else if names k ''reasoning_content''
        then dec_map (\<lambda>s. x\<lparr>m_reasoning_content := s\<rparr>) (dec_string v (m_reasoning_content x))
      else DOk x)"

definition zero_message :: message where
  "zero_message = plain_message [] []"

definition dec_message :: "gojson \<Rightarrow> message dec" where
  "dec_message v = dec_object message_step v zero_message"

definition dec_messages :: "gojson \<Rightarrow> message list dec" where
  "dec_messages v = dec_list dec_message v"

section \<open>The round trip\<close>

text \<open>
  What a trip through JSON leaves of a message: an empty map of extra fields comes back as nil, and
  a non-empty one with its keys in order.
\<close>

definition canonical_call :: "tool_call \<Rightarrow> tool_call" where
  "canonical_call c = c\<lparr>tc_extra_fields :=
     (case tc_extra_fields c of None \<Rightarrow> None
      | Some m \<Rightarrow> if m = [] then None else Some (gcopy_into [] (sort_key fst m)))\<rparr>"

definition canonical_message :: "message \<Rightarrow> message" where
  "canonical_message m = m\<lparr>m_tool_calls := map canonical_call (m_tool_calls m)\<rparr>"

lemmas json_enc_defs = omit_str_def omit_nil_def omit_list_def names_def lower_char_def

lemma dec_elems_enc:
  "(\<And>x. x \<in> set xs \<Longrightarrow> d (enc x) = DOk (f x)) \<Longrightarrow> dec_elems d (map enc xs) = DOk (map f xs)"
  by (induction xs) auto

lemma dec_members_append:
  "dec_members step (xs @ ys) x = dec_bind (dec_members step xs x) (dec_members step ys)"
proof (induction xs arbitrary: x)
  case (Cons kv xs)
  show ?case
  proof (cases kv)
    case (Pair k v)
    then show ?thesis using Cons by (cases "step k v x") auto
  qed
qed simp

lemma file_roundtrip: "dec_object file_step (enc_file f) zero_file = DOk f"
  by (cases f) (simp add: enc_file_def file_step_def zero_file_def json_enc_defs dec_members_append)

lemma image_roundtrip: "dec_object image_step (enc_image i) zero_image = DOk i"
  by (cases i) (simp add: enc_image_def image_step_def zero_image_def json_enc_defs dec_members_append)

lemma audio_roundtrip: "dec_object audio_step (enc_audio a) zero_audio = DOk a"
  by (cases a) (simp add: enc_audio_def audio_step_def zero_audio_def json_enc_defs)


lemma dec_ptr_enc:
  "enc y \<noteq> JNull \<Longrightarrow> dec_ptr d zero (enc y) x = dec_map Some (d (enc y) (case x of None \<Rightarrow> zero | Some z \<Rightarrow> z))"
  by (cases "enc y") auto

lemma enc_not_null [simp]:
  "enc_file f \<noteq> JNull" "enc_image i \<noteq> JNull" "enc_audio a \<noteq> JNull" "enc_function g \<noteq> JNull"
  by (simp_all add: enc_file_def enc_image_def enc_audio_def enc_function_def)

lemma part_roundtrip: "dec_object part_step (enc_part p) zero_part = DOk p"
  by (cases p)
    (simp add: enc_part_def part_step_def zero_part_def json_enc_defs dec_members_append dec_ptr_enc
      file_roundtrip image_roundtrip audio_roundtrip split: option.split)

lemma function_roundtrip:
  "dec_function (enc_function f) \<lparr>fn_name = [], fn_strict = False, fn_description = [], fn_arguments = []\<rparr> = DOk f"
  by (cases f)
    (simp add: dec_function_def enc_function_def function_step_def json_enc_defs dec_members_append)

lemma tool_call_roundtrip: "dec_object tool_call_step (enc_tool_call c) zero_tool_call = DOk (canonical_call c)"
  by (cases c)
    (simp add: enc_tool_call_def tool_call_step_def zero_tool_call_def json_enc_defs dec_members_append
      function_roundtrip canonical_call_def enc_map_def split: option.split)

lemma parts_roundtrip:
  "dec_elems (\<lambda>v. dec_object part_step v zero_part) (map enc_part ps) = DOk ps"
  using dec_elems_enc[of ps "\<lambda>v. dec_object part_step v zero_part" enc_part id] part_roundtrip by simp

lemma calls_roundtrip:
  "dec_elems (\<lambda>v. dec_object tool_call_step v zero_tool_call) (map enc_tool_call cs)
   = DOk (map canonical_call cs)"
  by (intro dec_elems_enc tool_call_roundtrip)

lemma message_roundtrip: "dec_message (enc_message m) = DOk (canonical_message m)"
  by (cases m)
    (simp add: dec_message_def enc_message_def message_step_def zero_message_def plain_message_def
      json_enc_defs dec_members_append parts_roundtrip calls_roundtrip canonical_message_def)


text \<open>
  \<open>FunctionDefinitionParam.UnmarshalJSON\<close> does not survive a JSON \<open>null\<close>: a tool call whose
  \<open>function\<close> member is \<open>null\<close> panics the decoder, where the convention of \<open>json.Unmarshaler\<close> is to
  ignore \<open>null\<close>; without that member the same tool call decodes.
\<close>

theorem null_function_panics:
  "dec_object tool_call_step (JObj [(''type'', JStr t), (''function'', JNull)]) zero_tool_call = DPanic
   \<and> dec_object tool_call_step (JObj [(''type'', JStr t)]) zero_tool_call = DOk (zero_tool_call\<lparr>tc_type := t\<rparr>)"
  by (simp add: tool_call_step_def dec_function_def names_def lower_char_def)

end
