(* ===== verification/Go_Values.thy ===== *)
theory Go_Values
  imports Message_Json
begin

text \<open>
  The dynamic values (\<open>any\<close>) that flow through the graph: the JSON-like values, the message types
  and their operations (\<open>graph/message_ops.go\<close>), and function values.  A constructor carries the
  dynamic type, and an \<open>option\<close> inside it tells a nil slice or map from an empty one.  Two copies
  are made of such values: \<open>deepCopyAny\<close> (\<open>graph/utils.go\<close>), which keeps the dynamic type, and the
  JSON copy \<open>deepCopy\<close> (\<open>graph/checkpoint.go\<close>), which does not.  Values are finite trees, so the
  \<open>visited\<close> maps of the code, which cut cycles and shared pointers, have no counterpart.
\<close>

section \<open>Values\<close>

datatype message_op =
    AppendMessages "message list option"
  | ReplaceLastUser string
  | RemoveAllMessages

datatype gval =
    VNil
  | VBool bool
  | VInt int
  | VNum int
  | VStr string
  | VStrs "string list option"
  | VAnys "gval list option"
  | VMap "(string \<times> gval) list option"
  | VBoolMap "(string \<times> bool) list option"
  | VMsg message
  | VMsgs "message list option"
  | VMsgMap "(string \<times> message list option) list option"
  | VOp message_op
  | VOps "message_op list option"
  | VFunc "string option"

type_synonym state = "(string, gval) gomap"

text \<open>The dynamic types, as \<open>reflect.TypeOf\<close> tells them, and the interface types of schema fields.\<close>

datatype gotype =
    TBool | TInt | TNumber | TString | TStrings | TAnys | TMapAny | TMapBool | TMessage | TMessages
  | TMapMessages | TAppendMessages | TReplaceLastUser | TRemoveAllMessages | TMessageOps | TFunc
  | TAny | TMessageOp

fun op_type :: "message_op \<Rightarrow> gotype" where
  "op_type (AppendMessages _) = TAppendMessages"
| "op_type (ReplaceLastUser _) = TReplaceLastUser"
| "op_type RemoveAllMessages = TRemoveAllMessages"

fun type_of :: "gval \<Rightarrow> gotype option" where
  "type_of VNil = None"
| "type_of (VBool _) = Some TBool"
| "type_of (VInt _) = Some TInt"
| "type_of (VNum _) = Some TNumber"
| "type_of (VStr _) = Some TString"
| "type_of (VStrs _) = Some TStrings"
| "type_of (VAnys _) = Some TAnys"
| "type_of (VMap _) = Some TMapAny"
| "type_of (VBoolMap _) = Some TMapBool"
| "type_of (VMsg _) = Some TMessage"
| "type_of (VMsgs _) = Some TMessages"
| "type_of (VMsgMap _) = Some TMapMessages"
| "type_of (VOp x) = Some (op_type x)"
| "type_of (VOps _) = Some TMessageOps"
| "type_of (VFunc _) = Some TFunc"

definition AssignableTo :: "gotype \<Rightarrow> gotype \<Rightarrow> bool" where
  "AssignableTo t T \<longleftrightarrow> t = T \<or> T = TAny
     \<or> (T = TMessageOp \<and> t \<in> {TAppendMessages, TReplaceLastUser, TRemoveAllMessages})"

text \<open>The kinds \<open>reflect\<close> admits for a nil value.\<close>

definition nilable_kind :: "gotype \<Rightarrow> bool" where
  "nilable_kind T \<longleftrightarrow> T \<in> {TStrings, TAnys, TMapAny, TMapBool, TMessages, TMapMessages, TMessageOps,
     TFunc, TAny, TMessageOp}"

section \<open>Deep copies\<close>

fun deepCopyAny :: "gval \<Rightarrow> gval" where
  "deepCopyAny (VMap None) = VMap (Some [])"
| "deepCopyAny (VMap (Some m)) = VMap (Some (map (\<lambda>(k, v). (k, deepCopyAny v)) m))"
| "deepCopyAny (VAnys None) = VAnys (Some [])"
| "deepCopyAny (VAnys (Some xs)) = VAnys (Some (map deepCopyAny xs))"
| "deepCopyAny (VStrs None) = VStrs (Some [])"
| "deepCopyAny (VFunc _) = VFunc None"
| "deepCopyAny v = v"

lemma deepCopyAny_simps [simp]:
  "deepCopyAny (VMap m) = VMap (Some (map (\<lambda>(k, v). (k, deepCopyAny v)) (case m of None \<Rightarrow> [] | Some x \<Rightarrow> x)))"
  "deepCopyAny (VAnys xs) = VAnys (Some (map deepCopyAny (case xs of None \<Rightarrow> [] | Some x \<Rightarrow> x)))"
  "deepCopyAny (VStrs ss) = VStrs (Some (case ss of None \<Rightarrow> [] | Some x \<Rightarrow> x))"
    apply (cases m; simp)
   apply (cases xs; simp)
  apply (cases ss; simp)
  done

lemma deepCopyAny_idem [simp]: "deepCopyAny (deepCopyAny v) = deepCopyAny v"
  by (induction v rule: deepCopyAny.induct) (auto split: prod.splits option.splits)

lemma deepCopyAny_type: "type_of (deepCopyAny v) = type_of v"
  by (cases v rule: deepCopyAny.cases) auto

section \<open>JSON\<close>

fun enc_op :: "message_op \<Rightarrow> gojson" where
  "enc_op (AppendMessages None) = JObj [(''Items'', JNull)]"
| "enc_op (AppendMessages (Some ms)) = JObj [(''Items'', JArr (map enc_message ms))]"
| "enc_op (ReplaceLastUser c) = JObj [(''Content'', JStr c)]"
| "enc_op RemoveAllMessages = JObj []"

definition enc_opt_list :: "('a \<Rightarrow> gojson) \<Rightarrow> 'a list option \<Rightarrow> gojson" where
  "enc_opt_list enc xs = (case xs of None \<Rightarrow> JNull | Some ys \<Rightarrow> JArr (map enc ys))"

definition sorted_obj :: "(string \<times> gojson) list \<Rightarrow> gojson" where
  "sorted_obj m = JObj (sort_key fst m)"

text \<open>\<open>json.Marshal\<close>: \<open>None\<close> is the error for function values.\<close>

fun all_some :: "'a option list \<Rightarrow> 'a list option" where
  "all_some [] = Some []"
| "all_some (None # xs) = None"
| "all_some (Some x # xs) = map_option ((#) x) (all_some xs)"

fun marshal :: "gval \<Rightarrow> gojson option" where
  "marshal VNil = Some JNull"
| "marshal (VBool b) = Some (JBool b)"
| "marshal (VInt n) = Some (JNum n)"
| "marshal (VNum n) = Some (JNum n)"
| "marshal (VStr s) = Some (JStr s)"
| "marshal (VStrs xs) = Some (enc_opt_list JStr xs)"
| "marshal (VAnys None) = Some JNull"
| "marshal (VAnys (Some xs)) = map_option JArr (all_some (map marshal xs))"
| "marshal (VMap None) = Some JNull"
| "marshal (VMap (Some m)) =
     map_option sorted_obj (all_some (map (\<lambda>(k, v). map_option (Pair k) (marshal v)) m))"
| "marshal (VBoolMap None) = Some JNull"
| "marshal (VBoolMap (Some m)) = Some (sorted_obj (map (\<lambda>(k, b). (k, JBool b)) m))"
| "marshal (VMsg m) = Some (enc_message m)"
| "marshal (VMsgs ms) = Some (enc_opt_list enc_message ms)"
| "marshal (VMsgMap None) = Some JNull"
| "marshal (VMsgMap (Some m)) = Some (sorted_obj (map (\<lambda>(k, ms). (k, enc_opt_list enc_message ms)) m))"
| "marshal (VOp x) = Some (enc_op x)"
| "marshal (VOps xs) = Some (enc_opt_list enc_op xs)"
| "marshal (VFunc _) = None"

text \<open>
  Decoding into an \<open>any\<close>: numbers come back as \<open>json.Number\<close> (or \<open>float64\<close>), \<open>VNum\<close>.  The decoded
  map has no order of its own; it is listed by key.
\<close>

fun unmarshal_any :: "gojson \<Rightarrow> gval" where
  "unmarshal_any JNull = VNil"
| "unmarshal_any (JBool b) = VBool b"
| "unmarshal_any (JNum n) = VNum n"
| "unmarshal_any (JStr s) = VStr s"
| "unmarshal_any (JArr xs) = VAnys (Some (map unmarshal_any xs))"
| "unmarshal_any (JObj m) = VMap (Some (sort_key fst (gcopy_into [] (map (\<lambda>(k, v). (k, unmarshal_any v)) m))))"

text \<open>\<open>deepCopy\<close> and \<open>deepCopyMap\<close> of \<open>graph/checkpoint.go\<close>.\<close>

definition deepCopy :: "gval \<Rightarrow> gval" where
  "deepCopy src =
     (if src = VNil then VNil
      else case marshal src of None \<Rightarrow> src | Some j \<Rightarrow> unmarshal_any j)"

definition deepCopyMap :: "state option \<Rightarrow> state option" where
  "deepCopyMap src =
     (case src of
        None \<Rightarrow> None
      | Some m \<Rightarrow>
          (case deepCopy (VMap (Some m)) of
             VMap r \<Rightarrow> r
           | _ \<Rightarrow> Some (map (\<lambda>(k, v). (k, deepCopy v)) m)))"

lemma deepCopy_map: "\<exists>r. deepCopy (VMap (Some m)) = VMap (Some r)"
  by (auto simp: deepCopy_def sorted_obj_def split: option.splits)

lemma deepCopyMap_cases:
  "deepCopyMap (Some m) =
     (case marshal (VMap (Some m)) of None \<Rightarrow> Some m
      | Some j \<Rightarrow> (case unmarshal_any j of VMap r \<Rightarrow> r | _ \<Rightarrow> None))"
  by (auto simp: deepCopyMap_def deepCopy_def sorted_obj_def split: option.splits)

section \<open>What the JSON copy keeps\<close>

text \<open>Values that are their own JSON image: no typed slices, no integers, keys in order.\<close>

fun json_shaped :: "gval \<Rightarrow> bool" where
  "json_shaped VNil = True"
| "json_shaped (VBool b) = True"
| "json_shaped (VNum n) = True"
| "json_shaped (VStr s) = True"
| "json_shaped (VAnys (Some xs)) = list_all json_shaped xs"
| "json_shaped (VMap (Some m)) = (sorted (map fst m) \<and> distinct (map fst m) \<and> list_all (\<lambda>(k, v). json_shaped v) m)"
| "json_shaped _ = False"

lemma all_some_map: "(\<And>x. x \<in> set xs \<Longrightarrow> f x = Some (g x)) \<Longrightarrow> all_some (map f xs) = Some (map g xs)"
  by (induction xs) auto

lemma gput_new: "k \<notin> set (gkeys m) \<Longrightarrow> gput k v m = m @ [(k, v)]"
  by (induction m) auto

lemma gcopy_into_distinct:
  "distinct (map fst dst @ map fst src) \<Longrightarrow> gcopy_into dst src = dst @ src"
proof (induction dst src rule: gcopy_into.induct)
  case (2 dst k v src)
  then have "gput k v dst = dst @ [(k, v)]" by (intro gput_new) auto
  with 2 show ?case by simp
qed simp

lemma distinct_gcopy: "distinct (map fst dst) \<Longrightarrow> distinct (map fst (gcopy_into dst src))"
  using well_keyed_gcopy by (simp add: well_keyed_def)

lemma distinct_map_sort [simp]: "distinct (map f (sort_key g xs)) \<longleftrightarrow> distinct (map f xs)"
proof -
  have "mset (map f (sort_key g xs)) = mset (map f xs)" by simp
  then show ?thesis by (rule mset_eq_imp_distinct_iff)
qed

lemma unmarshal_shaped: "json_shaped (unmarshal_any j)"
proof (induction j rule: unmarshal_any.induct)
  case (6 m)
  have "json_shaped v" if "(k, v) \<in> set (gcopy_into [] (map (\<lambda>(k, v). (k, unmarshal_any v)) m))" for k v
    using gcopy_mem[OF that] 6 by auto
  then show ?case by (auto simp: list_all_iff distinct_gcopy)
qed (auto simp: list_all_iff)

lemma all_some_pairs:
  "(\<And>k v. (k, v) \<in> set m \<Longrightarrow> f v = Some (g v)) \<Longrightarrow>
     all_some (map (\<lambda>(k, v). map_option (Pair k) (f v)) m) = Some (map (\<lambda>(k, v). (k, g v)) m)"
proof (induction m)
  case (Cons kv m)
  obtain k v where kv: "kv = (k, v)" by (cases kv)
  have "all_some (map (\<lambda>(k, v). map_option (Pair k) (f v)) m) = Some (map (\<lambda>(k, v). (k, g v)) m)"
  proof (rule Cons.IH)
    fix k v
    assume "(k, v) \<in> set m"
    then show "f v = Some (g v)" by (intro Cons.prems[of k v]) simp
  qed
  with kv Cons.prems[of k v] show ?case by simp
qed simp

lemma shaped_is_image: "json_shaped v \<Longrightarrow> \<exists>j. marshal v = Some j \<and> unmarshal_any j = v"
proof (induction v rule: json_shaped.induct)
  case (5 xs)
  define g where "g v = the (marshal v)" for v
  have g: "marshal v = Some (g v) \<and> unmarshal_any (g v) = v" if v: "v \<in> set xs" for v
  proof -
    obtain j where "marshal v = Some j" "unmarshal_any j = v"
      using 5(1)[OF v] 5(2) v by (metis json_shaped.simps(5) list_all_iff)
    then show ?thesis by (simp add: g_def)
  qed
  then have "map (\<lambda>v. unmarshal_any (g v)) xs = xs" by (simp add: map_idI)
  with g show ?case by (simp add: all_some_map[of xs marshal g] comp_def)
next
  case (6 m)
  define g where "g v = the (marshal v)" for v
  have g: "marshal v = Some (g v) \<and> unmarshal_any (g v) = v" if v: "(k, v) \<in> set m" for k v
  proof -
    obtain j where "marshal v = Some j" "unmarshal_any j = v"
      using 6(1)[OF v refl] 6(2) v by (auto simp: list_all_iff)
    then show ?thesis by (simp add: g_def)
  qed
  let ?gm = "map (\<lambda>(k, v). (k, g v)) m"
  have keys: "map fst ?gm = map fst m" by (simp add: case_prod_beta comp_def)
  have "sort_key fst ?gm = ?gm" using 6(2) keys
    by (intro sort_key_id_if_sorted) (simp only: json_shaped.simps)
  moreover have "map (\<lambda>(k, v). (k, unmarshal_any v)) ?gm = m"
    using g by (auto simp: comp_def case_prod_beta intro!: map_idI)
  moreover have "sort_key fst m = m" using 6(2) by (intro sort_key_id_if_sorted) simp
  ultimately have "unmarshal_any (sorted_obj ?gm) = VMap (Some m)"
    using 6(2) gcopy_into_distinct[of "[]" m] by (simp add: sorted_obj_def del: map_map)
  with g show ?case by (simp add: all_some_pairs[of m marshal g])
qed auto

lemma deepCopy_shaped: "json_shaped v \<Longrightarrow> deepCopy v = v"
  using shaped_is_image[of v] by (auto simp: deepCopy_def)

lemma deepCopy_idem: "deepCopy (deepCopy v) = deepCopy v"
proof (cases "v = VNil \<or> marshal v = None")
  case True
  then show ?thesis by (auto simp: deepCopy_def)
next
  case False
  then obtain j where "deepCopy v = unmarshal_any j" by (auto simp: deepCopy_def)
  then show ?thesis by (simp add: deepCopy_shaped unmarshal_shaped)
qed

lemma deepCopyMap_idem: "deepCopyMap (deepCopyMap m) = deepCopyMap m"
proof (cases m)
  case (Some x)
  obtain r where r: "deepCopy (VMap (Some x)) = VMap (Some r)" using deepCopy_map by blast
  then have "deepCopy (VMap (Some r)) = VMap (Some r)" by (metis deepCopy_idem)
  with Some r show ?thesis by (simp add: deepCopyMap_def)
qed (simp add: deepCopyMap_def)

text \<open>
  The copy a checkpoint makes of a value is a normal form: copying it again changes nothing, so
  a value that has been through one checkpoint survives all later ones exactly.
\<close>

theorem checkpoint_copy_idempotent:
  "deepCopy (deepCopy v) = deepCopy v \<and> deepCopyMap (deepCopyMap m) = deepCopyMap m"
  by (simp add: deepCopy_idem deepCopyMap_idem)

lemma marshal_func_entry:
  "(k, VFunc f) \<in> set m \<Longrightarrow> marshal (VMap (Some m)) = None"
proof -
  have "None \<in> set xs \<Longrightarrow> all_some xs = None" for xs :: "(string \<times> gojson) option list"
    by (induction xs rule: all_some.induct) auto
  then show "(k, VFunc f) \<in> set m \<Longrightarrow> ?thesis" by force
qed

text \<open>
  The copy is not a "true" deep copy: it changes dynamic types (an \<open>int\<close> becomes a
  \<open>json.Number\<close>, a message history a list of maps, a \<open>[]string\<close> a \<open>[]any\<close>), so a type assertion
  that held before a resume fails after it.
\<close>

theorem checkpoint_copy_changes_types:
  "deepCopy (VInt n) = VNum n
   \<and> type_of (deepCopy (VMsgs (Some ms))) = Some TAnys
   \<and> type_of (deepCopy (VStrs (Some ss))) = Some TAnys
   \<and> type_of (deepCopy (VMsg m)) = Some TMapAny"
  by (simp add: deepCopy_def enc_opt_list_def enc_message_def)

text \<open>
  A map that holds a function cannot be marshalled, and then the copy is the source map itself,
  not the entry-by-entry copy of the fallback loop, which is unreachable.
\<close>

theorem deepCopyMap_shares_on_error:
  assumes "(k, VFunc f) \<in> set m"
  shows "deepCopyMap (Some m) = Some m"
  using marshal_func_entry[OF assms] by (simp add: deepCopyMap_cases)

theorem deepCopyMap_shares_on_error_witness:
  "deepCopyMap (Some [(''n'', VInt 1), (''f'', VFunc (Some ''g''))])
   = Some [(''n'', VInt 1), (''f'', VFunc (Some ''g''))]"
  by (rule deepCopyMap_shares_on_error[of "''f''" "Some ''g''"]) simp

end
