(* ===== verification/Graph_Channel.thy ===== *)
theory Graph_Channel
  imports Go_Values
begin

text \<open>
  \<open>graph/internal/channel/channel.go\<close>: the channels of the Pregel engine and their manager.  Every
  method takes the channel's lock for its whole body, so each is one atomic function from the
  channel to the channel and its answer.  A \<open>Behavior\<close> outside the four constants does not occur.
\<close>

section \<open>Channels\<close>

datatype Behavior = BehaviorLastValue | BehaviorTopic | BehaviorEphemeral | BehaviorBarrier

definition StepUnmarked :: int where
  "StepUnmarked = -1"

record channel =
  ch_name :: string
  ch_behavior :: Behavior
  ch_value :: gval
  ch_values :: "gval list"
  ch_subscribers :: "string list"
  ch_barrier_set :: "(string, bool) gomap"
  ch_barrier_expected :: "string list"
  ch_version :: int
  ch_available :: bool
  ch_last_updated_step :: int

definition NewChannel :: "string \<Rightarrow> Behavior \<Rightarrow> channel" where
  "NewChannel name behavior =
     \<lparr>ch_name = name, ch_behavior = behavior, ch_value = VNil, ch_values = [], ch_subscribers = [], ch_barrier_set = [],
      ch_barrier_expected = [], ch_version = 0, ch_available = False,
      ch_last_updated_step = StepUnmarked\<rparr>"

text \<open>The loop compares each string with the last one kept; the first is always kept.\<close>

fun dedupe_from :: "string \<Rightarrow> string list \<Rightarrow> string list" where
  "dedupe_from prev [] = []"
| "dedupe_from prev (s # ss) = (if s \<noteq> prev then s # dedupe_from s ss else dedupe_from prev ss)"

fun dedupeSortedStrings :: "string list \<Rightarrow> string list" where
  "dedupeSortedStrings [] = []"
| "dedupeSortedStrings (s # ss) = s # dedupe_from s ss"

definition SetBarrierExpected :: "string list \<Rightarrow> channel \<Rightarrow> channel" where
  "SetBarrierExpected expected c = c\<lparr>ch_barrier_expected := dedupeSortedStrings (sort expected)\<rparr>"

definition isBarrierSatisfied :: "channel \<Rightarrow> bool" where
  "isBarrierSatisfied c =
     (if ch_barrier_expected c = [] then True
      else list_all (\<lambda>name. gget (ch_barrier_set c) name = Some True) (ch_barrier_expected c))"

definition SetBarrierSeen :: "string list \<Rightarrow> channel \<Rightarrow> channel" where
  "SetBarrierSeen seen c =
     (let c = c\<lparr>ch_barrier_set :=
            fold (\<lambda>name m. if name = [] then m else gput name True m) seen []\<rparr>
      in c\<lparr>ch_available := isBarrierSatisfied c\<rparr>)"

definition BarrierSeenSnapshot :: "channel \<Rightarrow> string list" where
  "BarrierSeenSnapshot c = sort (gkeys (ch_barrier_set c))"

text \<open>\<open>Update\<close>, whose answer tells whether the channel took the values.\<close>

definition mark_updated :: "int \<Rightarrow> channel \<Rightarrow> channel" where
  "mark_updated step c =
     c\<lparr>ch_version := ch_version c + 1, ch_available := True, ch_last_updated_step := step\<rparr>"

definition add_sender :: "gval \<Rightarrow> (string, bool) gomap \<Rightarrow> (string, bool) gomap" where
  "add_sender v m = (case v of VStr sender \<Rightarrow> gput sender True m | _ \<Rightarrow> m)"

definition Update :: "gval list \<Rightarrow> int \<Rightarrow> channel \<Rightarrow> channel \<times> bool" where
  "Update values step c =
     (case ch_behavior c of
        BehaviorLastValue \<Rightarrow>
          (if values \<noteq> [] then (mark_updated step (c\<lparr>ch_value := last values\<rparr>), True) else (c, False))
      | BehaviorTopic \<Rightarrow> (mark_updated step (c\<lparr>ch_values := ch_values c @ values\<rparr>), True)
      | BehaviorEphemeral \<Rightarrow>
          (if values \<noteq> [] then (mark_updated step (c\<lparr>ch_value := hd values\<rparr>), True) else (c, False))
      | BehaviorBarrier \<Rightarrow>
          (let c = c\<lparr>ch_barrier_set := fold add_sender values (ch_barrier_set c),
                     ch_version := ch_version c + 1\<rparr>
           in (c\<lparr>ch_available := isBarrierSatisfied c, ch_last_updated_step := step\<rparr>, True)))"

definition channel_Get :: "channel \<Rightarrow> gval" where
  "channel_Get c =
     (case ch_behavior c of
        BehaviorLastValue \<Rightarrow> ch_value c
      | BehaviorEphemeral \<Rightarrow> ch_value c
      | BehaviorTopic \<Rightarrow> VAnys (Some (ch_values c))
      | BehaviorBarrier \<Rightarrow> VBoolMap (Some (ch_barrier_set c)))"

definition Consume :: "channel \<Rightarrow> channel \<times> bool" where
  "Consume c =
     (if ch_behavior c = BehaviorEphemeral then (c\<lparr>ch_value := VNil, ch_available := False\<rparr>, True)
      else (c, False))"

definition IsAvailable :: "channel \<Rightarrow> bool" where
  "IsAvailable c = ch_available c"

definition IsUpdatedInStep :: "int \<Rightarrow> channel \<Rightarrow> bool" where
  "IsUpdatedInStep step c \<longleftrightarrow> ch_last_updated_step c = step"

definition ClearStepMark :: "channel \<Rightarrow> channel" where
  "ClearStepMark c = c\<lparr>ch_last_updated_step := StepUnmarked\<rparr>"

definition Finish :: "channel \<Rightarrow> channel \<times> bool" where
  "Finish c = (c\<lparr>ch_available := False\<rparr>, True)"

definition Acknowledge :: "channel \<Rightarrow> channel" where
  "Acknowledge c =
     (let c = c\<lparr>ch_available := False\<rparr>
      in if ch_behavior c = BehaviorBarrier then c\<lparr>ch_barrier_set := []\<rparr> else c)"

definition ConsumeIfAvailable :: "channel \<Rightarrow> channel \<times> bool" where
  "ConsumeIfAvailable c =
     (if \<not> ch_available c then (c, False)
      else let c = c\<lparr>ch_available := False\<rparr>
        in (if ch_behavior c = BehaviorBarrier then c\<lparr>ch_barrier_set := []\<rparr> else c, True))"

section \<open>The manager\<close>

type_synonym channels = "(string, channel) gomap"

definition NewChannelManager :: channels where
  "NewChannelManager = []"

definition AddChannel :: "string \<Rightarrow> Behavior \<Rightarrow> channels \<Rightarrow> channels" where
  "AddChannel name behavior m = (if ghas m name then m else gput name (NewChannel name behavior) m)"

definition GetChannel :: "channels \<Rightarrow> string \<Rightarrow> channel option" where
  "GetChannel m name = gget m name"

definition GetAllChannels :: "channels \<Rightarrow> channels" where
  "GetAllChannels m = m"

section \<open>Barriers\<close>

lemma dedupe_from_sorted:
  "sorted (s # ss) \<Longrightarrow>
     set (dedupe_from s ss) = set ss - {s} \<and> sorted (s # dedupe_from s ss)
     \<and> distinct (s # dedupe_from s ss)"
  by (induction s ss rule: dedupe_from.induct) auto

lemma dedupeSortedStrings_props:
  "sorted ss \<Longrightarrow> set (dedupeSortedStrings ss) = set ss \<and> sorted (dedupeSortedStrings ss)
     \<and> distinct (dedupeSortedStrings ss)"
proof (cases ss)
  case (Cons x xs)
  assume "sorted ss"
  with Cons dedupe_from_sorted[of x xs] show ?thesis by auto
qed simp

lemma dedupeSorted_canonical: "dedupeSortedStrings (sort xs) = sorted_list_of_set (set xs)"
proof (rule sorted_distinct_set_unique)
  have "sorted (sort xs)" by simp
  note * = dedupeSortedStrings_props[OF this]
  show "sorted (dedupeSortedStrings (sort xs))" "distinct (dedupeSortedStrings (sort xs))"
    "set (dedupeSortedStrings (sort xs)) = set (sorted_list_of_set (set xs))"
    using * by auto
qed simp_all

text \<open>The senders a barrier has seen, and those a list of updates names.\<close>

definition barrier_seen :: "channel \<Rightarrow> string set" where
  "barrier_seen c = {n. gget (ch_barrier_set c) n = Some True}"

fun senders :: "(gval list \<times> int) list \<Rightarrow> string set" where
  "senders [] = {}"
| "senders ((vs, step) # ups) = {n. VStr n \<in> set vs} \<union> senders ups"

fun apply_updates :: "(gval list \<times> int) list \<Rightarrow> channel \<Rightarrow> channel" where
  "apply_updates [] c = c"
| "apply_updates ((vs, step) # ups) c = apply_updates ups (fst (Update vs step c))"

lemma add_sender_get:
  "gget (add_sender v m) n = (if v = VStr n then Some True else gget m n)"
  by (cases v) (auto simp: add_sender_def)

lemma fold_add_sender:
  "gget (fold add_sender vs m) n = Some True \<longleftrightarrow> VStr n \<in> set vs \<or> gget m n = Some True"
  by (induction vs arbitrary: m) (auto simp: add_sender_get)

lemma isBarrierSatisfied_iff: "isBarrierSatisfied c \<longleftrightarrow> set (ch_barrier_expected c) \<subseteq> barrier_seen c"
  by (auto simp: isBarrierSatisfied_def barrier_seen_def list_all_iff)

lemma barrier_update:
  assumes "ch_behavior c = BehaviorBarrier"
  shows "barrier_seen (fst (Update vs step c)) = {n. VStr n \<in> set vs} \<union> barrier_seen c"
    "ch_behavior (fst (Update vs step c)) = BehaviorBarrier"
    "ch_barrier_expected (fst (Update vs step c)) = ch_barrier_expected c"
    "IsAvailable (fst (Update vs step c)) \<longleftrightarrow>
       set (ch_barrier_expected c) \<subseteq> {n. VStr n \<in> set vs} \<union> barrier_seen c"
  using assms
  by (auto simp: Update_def Let_def IsAvailable_def isBarrierSatisfied_iff barrier_seen_def fold_add_sender)

lemma barrier_updates:
  assumes "ch_behavior c = BehaviorBarrier" "ups \<noteq> []"
  shows "IsAvailable (apply_updates ups c) \<longleftrightarrow>
           set (ch_barrier_expected c) \<subseteq> barrier_seen c \<union> senders ups"
  using assms
proof (induction ups arbitrary: c)
  case (Cons u ups)
  obtain vs step where u: "u = (vs, step)" by (cases u)
  show ?case
  proof (cases "ups = []")
    case True
    with Cons.prems u show ?thesis by (auto simp: barrier_update)
  next
    case False
    with Cons u show ?thesis by (simp add: barrier_update Un_ac)
  qed
qed simp

lemma SetBarrierExpected_simps [simp]:
  "set (ch_barrier_expected (SetBarrierExpected E c)) = set E"
  "ch_behavior (SetBarrierExpected E c) = ch_behavior c"
  "barrier_seen (SetBarrierExpected E c) = barrier_seen c"
  "IsAvailable (SetBarrierExpected E c) = IsAvailable c"
  by (simp_all add: SetBarrierExpected_def dedupeSorted_canonical barrier_seen_def IsAvailable_def)

lemma NewChannel_simps [simp]:
  "ch_behavior (NewChannel n b) = b" "barrier_seen (NewChannel n b) = {}"
  "\<not> IsAvailable (NewChannel n b)"
  by (simp_all add: NewChannel_def barrier_seen_def IsAvailable_def)

text \<open>
  C19. A join fires exactly when everybody has arrived: a fresh barrier that expects the senders
  \<open>E\<close> is available after a sequence of updates if and only if there was an update and every
  expected sender occurs in one of them, in whatever order and however the senders were batched.
\<close>

theorem barrier_fires_iff_all_arrived:
  "IsAvailable (apply_updates ups (SetBarrierExpected E (NewChannel name BehaviorBarrier)))
   \<longleftrightarrow> ups \<noteq> [] \<and> set E \<subseteq> senders ups"
  by (cases "ups = []") (simp_all add: barrier_updates)

section \<open>Triggers fire once\<close>

text \<open>
  What the planner needs of a channel: taking the availability marker answers whether there was
  one and leaves none, and taking from an unavailable channel changes nothing.
\<close>

locale trigger =
  fixes avail :: "'c \<Rightarrow> bool" and take :: "'c \<Rightarrow> 'c \<times> bool" and ack :: "'c \<Rightarrow> 'c"
  assumes take_answer: "snd (take c) = avail c"
    and take_leaves_none: "\<not> avail (fst (take c))"
    and take_idle: "\<not> avail c \<Longrightarrow> fst (take c) = c"
    and take_is_ack: "avail c \<Longrightarrow> fst (take c) = ack c"
begin

lemma take_twice: "snd (take (fst (take c))) = False"
  by (simp add: take_answer take_leaves_none)

lemma take_twice_state: "fst (take (fst (take c))) = fst (take c)"
  by (simp add: take_idle take_leaves_none)

end

interpretation channel_trigger: trigger IsAvailable ConsumeIfAvailable Acknowledge
  by unfold_locales (auto simp: ConsumeIfAvailable_def IsAvailable_def Acknowledge_def Let_def)

lemma consumed_barrier_forgets:
  "ch_behavior c = BehaviorBarrier \<Longrightarrow> IsAvailable c \<Longrightarrow>
     barrier_seen (fst (ConsumeIfAvailable c)) = {}
     \<and> ch_behavior (fst (ConsumeIfAvailable c)) = BehaviorBarrier
     \<and> ch_barrier_expected (fst (ConsumeIfAvailable c)) = ch_barrier_expected c"
  by (simp add: ConsumeIfAvailable_def IsAvailable_def barrier_seen_def Let_def)

text \<open>
  A barrier that has fired starts the next round from nothing: after the planner consumed it,
  it fires again only when every expected sender has been seen again.
\<close>

theorem barrier_next_round:
  assumes "ch_behavior c = BehaviorBarrier" "IsAvailable c" "ups \<noteq> []"
  shows "IsAvailable (apply_updates ups (fst (ConsumeIfAvailable c)))
     \<longleftrightarrow> set (ch_barrier_expected c) \<subseteq> senders ups"
  using barrier_updates[OF _ assms(3), of "fst (ConsumeIfAvailable c)"] consumed_barrier_forgets[OF assms(1,2)]
  by simp

theorem barrier_next_round_witness:
  "\<not> IsAvailable (apply_updates [([VStr ''a''], 2)]
      (fst (ConsumeIfAvailable (apply_updates [([VStr ''b''], 1), ([VStr ''a''], 1)]
          (SetBarrierExpected [''a'', ''b''] (NewChannel ''j'' BehaviorBarrier))))))"
proof -
  let ?c = "apply_updates [([VStr ''b''], 1), ([VStr ''a''], 1)]
          (SetBarrierExpected [''a'', ''b''] (NewChannel ''j'' BehaviorBarrier))"
  have "ch_behavior ?c = BehaviorBarrier" "IsAvailable ?c" "ch_barrier_expected ?c = [''a'', ''b'']"
    by code_simp+
  then show ?thesis using barrier_next_round[of ?c "[([VStr ''a''], 2)]"] by simp
qed

end
