(* ===== verification/State_Schema.thy ===== *)
theory State_Schema
  imports Go_Values
begin

text \<open>
  \<open>graph/state.go\<close>, \<open>graph/keys.go\<close> and \<open>graph/message_ops.go\<close>: the state map, its schema, the
  reducers that merge a node's update into it, and the one-shot messages addressed to single nodes.
  A nil \<open>State\<close> reads like an empty one and both are \<open>[]\<close>.  A reducer is any function of the
  existing and the new value; it may panic.  \<open>Default\<close> is called for its value only.  Slices and maps
  are values here, so what the code may share between states through a common backing array is not
  expressed.
\<close>

section \<open>Keys\<close>

definition StateKeyOneShotMessagesByNode :: string where
  "StateKeyOneShotMessagesByNode = ''one_shot_messages_by_node''"

definition StateKeySession :: string where "StateKeySession = ''session''"

definition StateKeyMessages :: string where "StateKeyMessages = ''messages''"

definition isUnsafeStateKey :: "string \<Rightarrow> bool" where
  "isUnsafeStateKey key \<longleftrightarrow> key \<in> {''exec_context'', ''parent_agent'', ''node_callbacks'',
     ''tool_callbacks'', ''model_callbacks'', ''agent_callbacks'', ''current_node_id'',
     ''__current_trace_step_id__'', ''session'', ''__graph_interrupt_inputs__''}"

definition isInternalStateKey :: "string \<Rightarrow> bool" where
  "isInternalStateKey key \<longleftrightarrow> isUnsafeStateKey key \<or> key \<in> {''_node_metadata'', ''_pregel_metadata'',
     ''_channel_metadata'', ''_state_metadata'', ''_completion_metadata'', ''_node_custom_metadata'',
     ''_node_emitter''}"

section \<open>Message operations\<close>

text \<open>\<open>append(xs, ys...)\<close>: a nil slice stays nil when nothing is appended.\<close>

fun go_append :: "'a list option \<Rightarrow> 'a list \<Rightarrow> 'a list option" where
  "go_append None [] = None"
| "go_append None ys = Some ys"
| "go_append (Some xs) ys = Some (xs @ ys)"

definition elems :: "'a list option \<Rightarrow> 'a list" where
  "elems xs = (case xs of None \<Rightarrow> [] | Some ys \<Rightarrow> ys)"

text \<open>The loop from the end of \<open>ReplaceLastUser.Apply\<close>, on the reversed list.\<close>

fun replace_first_user :: "string \<Rightarrow> message list \<Rightarrow> message list option" where
  "replace_first_user c [] = None"
| "replace_first_user c (m # ms) =
     (if m_role m = RoleUser then Some (m\<lparr>m_role := RoleUser, m_content := c\<rparr> # ms)
      else map_option ((#) m) (replace_first_user c ms))"

fun op_Apply :: "message_op \<Rightarrow> message list option \<Rightarrow> message list option" where
  "op_Apply (AppendMessages items) dst = go_append dst (elems items)"
| "op_Apply (ReplaceLastUser c) dst =
     (case replace_first_user c (rev (elems dst)) of
        Some ms \<Rightarrow> Some (rev ms)
      | None \<Rightarrow> go_append dst [NewUserMessage c])"
| "op_Apply RemoveAllMessages dst = None"

section \<open>Reducers\<close>

type_synonym reducer = "gval \<Rightarrow> gval \<Rightarrow> gval run"

definition is_composite :: "gval \<Rightarrow> bool" where
  "is_composite v \<longleftrightarrow> type_of v \<in> {Some TMapAny, Some TAnys, Some TStrings}"

definition DefaultReducer :: reducer where
  "DefaultReducer existing update = Return (if is_composite update then deepCopyAny update else update)"

definition CoverReducer :: reducer where
  "CoverReducer existing update = Return update"

definition AppendReducer :: reducer where
  "AppendReducer existing update =
     (let existing = (if existing = VNil then VAnys (Some []) else existing)
      in case (existing, update) of
           (VAnys xs, VAnys ys) \<Rightarrow> Return (VAnys (go_append xs (elems ys)))
         | _ \<Rightarrow> Return update)"

definition StringSliceReducer :: reducer where
  "StringSliceReducer existing update =
     (let existing = (if existing = VNil then VStrs (Some []) else existing)
      in case (existing, update) of
           (VStrs xs, VStrs ys) \<Rightarrow> Return (VStrs (go_append xs (elems ys)))
         | _ \<Rightarrow> Return update)"

definition copy_entries :: "state \<Rightarrow> state" where
  "copy_entries m = map (\<lambda>(k, v). (k, deepCopyAny v)) m"

definition MergeReducer :: reducer where
  "MergeReducer existing update =
     (let existing = (if existing = VNil then VMap (Some []) else existing)
      in case (existing, update) of
           (VMap m, VMap u) \<Rightarrow>
             Return (VMap (Some (gcopy_into (gcopy_into [] (copy_entries (elems m))) (copy_entries (elems u)))))
         | _ \<Rightarrow> Return (deepCopyAny update))"

definition MessageReducer :: reducer where
  "MessageReducer existing update =
     (let existing = (if existing = VNil then VMsgs (Some []) else existing)
      in case existing of
           VMsgs ms \<Rightarrow>
             (case update of
                VNil \<Rightarrow> Return (VMsgs ms)
              | VMsg m \<Rightarrow> Return (VMsgs (go_append ms [m]))
              | VMsgs us \<Rightarrow> Return (VMsgs (go_append ms (elems us)))
              | VOp x \<Rightarrow> Return (VMsgs (op_Apply x ms))
              | VOps xs \<Rightarrow> Return (VMsgs (fold op_Apply (elems xs) ms))
              | _ \<Rightarrow> Return update)
         | _ \<Rightarrow> Return update)"

section \<open>One-shot messages by node\<close>

definition decodeMapStringAny :: "gval \<Rightarrow> state option" where
  "decodeMapStringAny v =
     (case marshal v of
        Some (JObj m) \<Rightarrow> (case unmarshal_any (JObj m) of VMap (Some r) \<Rightarrow> Some r | _ \<Rightarrow> None)
      | Some JNull \<Rightarrow> Some []
      | _ \<Rightarrow> None)"

text \<open>Both a nil and an empty slice are \<open>[]\<close>: the callers ask for the length only.\<close>

definition decodeMessages :: "gval \<Rightarrow> message list dec" where
  "decodeMessages v =
     (case v of
        VNil \<Rightarrow> DOk []
      | VMsgs ms \<Rightarrow> DOk (elems ms)
      | _ \<Rightarrow> (case marshal v of None \<Rightarrow> DErr | Some j \<Rightarrow> dec_messages j))"

type_synonym messages_by_node = "(string, message list) gomap"

text \<open>The entry step of the two \<open>apply...Update\<close> loops: an error or no messages deletes the entry.\<close>

definition put_messages :: "string \<Rightarrow> message list \<Rightarrow> messages_by_node \<Rightarrow> messages_by_node" where
  "put_messages node ms base = (if ms = [] then gdel node base else gput node ms base)"

definition applyOneShotMessagesByNodeUpdate ::
    "messages_by_node \<Rightarrow> (string \<times> message list option) list \<Rightarrow> messages_by_node" where
  "applyOneShotMessagesByNodeUpdate base update = fold (\<lambda>(n, ms). put_messages n (elems ms)) update base"

fun applyOneShotMessagesByNodeAnyUpdate :: "messages_by_node \<Rightarrow> state \<Rightarrow> messages_by_node run" where
  "applyOneShotMessagesByNodeAnyUpdate base [] = Return base"
| "applyOneShotMessagesByNodeAnyUpdate base ((n, raw) # rest) =
     (if raw = VNil then applyOneShotMessagesByNodeAnyUpdate (gdel n base) rest
      else case decodeMessages raw of
          DPanic \<Rightarrow> Panic
        | DErr \<Rightarrow> applyOneShotMessagesByNodeAnyUpdate (gdel n base) rest
        | DOk ms \<Rightarrow> applyOneShotMessagesByNodeAnyUpdate (put_messages n ms base) rest)"

definition normalizeOneShotMessagesByNode :: "messages_by_node \<Rightarrow> gval" where
  "normalizeOneShotMessagesByNode m =
     VMsgMap (if m = [] then None else Some (map (\<lambda>(n, ms). (n, Some ms)) m))"

fun decode_existing_any :: "state \<Rightarrow> messages_by_node \<Rightarrow> messages_by_node run" where
  "decode_existing_any [] out = Return out"
| "decode_existing_any ((n, raw) # rest) out =
     (case decodeMessages raw of
        DPanic \<Rightarrow> Panic
      | DErr \<Rightarrow> decode_existing_any rest out
      | DOk ms \<Rightarrow> decode_existing_any rest (if ms = [] then out else gput n ms out))"

definition decodeOneShotMessagesByNodeExisting :: "gval \<Rightarrow> messages_by_node run" where
  "decodeOneShotMessagesByNodeExisting v =
     (case v of
        VNil \<Rightarrow> Return []
      | VMsgMap m \<Rightarrow>
          Return (fold (\<lambda>(n, ms) out. if elems ms = [] then out else gput n (elems ms) out) (elems m) [])
      | VMap m \<Rightarrow> decode_existing_any (elems m) []
      | _ \<Rightarrow> (case decodeMapStringAny v of
               None \<Rightarrow> Return []
             | Some raw \<Rightarrow> decode_existing_any raw []))"

definition OneShotMessagesByNodeReducer :: reducer where
  "OneShotMessagesByNodeReducer existing update =
     run_bind (decodeOneShotMessagesByNodeExisting existing) (\<lambda>m.
       let base = gcopy_into [] m in
         case update of
           VNil \<Rightarrow> Return (VMsgMap None)
         | VMsgMap u \<Rightarrow> Return (normalizeOneShotMessagesByNode (applyOneShotMessagesByNodeUpdate base (elems u)))
         | VMap u \<Rightarrow> run_bind (applyOneShotMessagesByNodeAnyUpdate base (elems u))
                        (\<lambda>b. Return (normalizeOneShotMessagesByNode b))
         | _ \<Rightarrow> (case decodeMapStringAny update of
                  None \<Rightarrow> Return (deepCopyAny update)
                | Some raw \<Rightarrow> run_bind (applyOneShotMessagesByNodeAnyUpdate base raw)
                                (\<lambda>b. Return (normalizeOneShotMessagesByNode b))))"

definition ClearOneShotMessagesForNode :: "string \<Rightarrow> state" where
  "ClearOneShotMessagesForNode node =
     (if node = [] then [] else [(StateKeyOneShotMessagesByNode, VMsgMap (Some [(node, None)]))])"

definition ClearOneShotMessagesByNode :: state where
  "ClearOneShotMessagesByNode = [(StateKeyOneShotMessagesByNode, VNil)]"

definition SetOneShotMessagesForNode :: "string \<Rightarrow> message list \<Rightarrow> state" where
  "SetOneShotMessagesForNode node ms =
     (if node = [] \<or> ms = [] then ClearOneShotMessagesForNode node
      else [(StateKeyOneShotMessagesByNode, VMsgMap (Some [(node, Some ms)]))])"

definition SetOneShotMessagesByNode :: "(string, message list) gomap \<Rightarrow> state" where
  "SetOneShotMessagesByNode by_node =
     (if by_node = [] then []
      else let update = fold (\<lambda>(n, ms) u. if n = [] then u
               else gput n (if ms = [] then None else Some ms) u) by_node []
        in if update = [] then [] else [(StateKeyOneShotMessagesByNode, VMsgMap (Some update))])"

definition entry_messages :: "gval \<Rightarrow> message list option run" where
  "entry_messages entry =
     (if entry = VNil then Return None
      else case decodeMessages entry of
          DPanic \<Rightarrow> Panic
        | DErr \<Rightarrow> Return None
        | DOk ms \<Rightarrow> Return (if ms = [] then None else Some ms))"

definition GetOneShotMessagesForNode :: "state \<Rightarrow> string \<Rightarrow> message list option run" where
  "GetOneShotMessagesForNode st node =
     (if node = [] then Return None
      else case gget st StateKeyOneShotMessagesByNode of
          None \<Rightarrow> Return None
        | Some raw \<Rightarrow>
            (case raw of
               VNil \<Rightarrow> Return None
             | VMsgMap m \<Rightarrow>
                 Return (case gget (elems m) node of
                           None \<Rightarrow> None
                         | Some ms \<Rightarrow> if elems ms = [] then None else Some (elems ms))
             | VMap m \<Rightarrow> (case gget (elems m) node of None \<Rightarrow> Return None | Some e \<Rightarrow> entry_messages e)
             | _ \<Rightarrow> (case decodeMapStringAny raw of
                      None \<Rightarrow> Return None
                    | Some m \<Rightarrow> (case gget m node of None \<Rightarrow> Return None | Some e \<Rightarrow> entry_messages e))))"


section \<open>Schemas\<close>

record state_field =
  f_type :: "gotype option"
  f_reducer :: "reducer option"
  f_default :: "gval option"
  f_required :: bool
  f_disable_deep_copy :: bool

type_synonym schema = "(string, state_field) gomap"

definition NewStateSchema :: schema where
  "NewStateSchema = []"

definition AddField :: "string \<Rightarrow> state_field \<Rightarrow> schema \<Rightarrow> schema" where
  "AddField name field flds =
     gput name (if f_reducer field = None then field\<lparr>f_reducer := Some DefaultReducer\<rparr> else field) flds"

definition Clone :: "state \<Rightarrow> state" where
  "Clone st = st"

definition state_deepCopy :: "bool \<Rightarrow> schema \<Rightarrow> state \<Rightarrow> state" where
  "state_deepCopy retainUnsafeKey flds st =
     map (\<lambda>(k, v).
            if isUnsafeStateKey k \<or> (case gget flds k of None \<Rightarrow> False | Some f \<Rightarrow> f_disable_deep_copy f)
            then (k, v) else (k, deepCopyAny v))
       (filter (\<lambda>(k, v). retainUnsafeKey \<or> \<not> isUnsafeStateKey k) st)"

text \<open>
  The body of the loop of \<open>ApplyUpdate\<close>: what one update entry makes of the value its key has;
  \<open>None\<close> is the \<open>continue\<close> that leaves the key alone.  A nil reducer panics.
\<close>

definition merge_value :: "schema \<Rightarrow> string \<Rightarrow> gval option \<Rightarrow> gval \<Rightarrow> gval option run" where
  "merge_value flds key current update =
     (case gget flds key of
        None \<Rightarrow>
          (if isInternalStateKey key then Return None
           else if key = StateKeyOneShotMessagesByNode
           then run_bind (OneShotMessagesByNodeReducer (case current of None \<Rightarrow> VNil | Some v \<Rightarrow> v) update)
                  (\<lambda>r. Return (Some r))
           else Return (Some (deepCopyAny update)))
      | Some field \<Rightarrow>
          (let currentValue = (case current of
                 Some v \<Rightarrow> v
               | None \<Rightarrow> (case f_default field of Some d \<Rightarrow> d | None \<Rightarrow> VNil))
           in case f_reducer field of
                None \<Rightarrow> Panic
              | Some reduce \<Rightarrow>
                  (if f_disable_deep_copy field
                   then run_bind (reduce currentValue update) (\<lambda>r. Return (Some r))
                   else run_bind (reduce currentValue (deepCopyAny update)) (\<lambda>merged.
                     Return (Some (if is_composite merged then deepCopyAny merged else merged))))))"

fun apply_entries :: "schema \<Rightarrow> state \<Rightarrow> state \<Rightarrow> state run" where
  "apply_entries flds [] result = Return result"
| "apply_entries flds ((key, upd) # rest) result =
     run_bind (merge_value flds key (gget result key) upd) (\<lambda>r.
       apply_entries flds rest (case r of None \<Rightarrow> result | Some v \<Rightarrow> gput key v result))"

definition ApplyUpdate :: "schema \<Rightarrow> state \<Rightarrow> state \<Rightarrow> state run" where
  "ApplyUpdate flds currentState update = apply_entries flds update (Clone currentState)"

datatype schema_error =
    MissingRequired string
  | WrongType string
  | NilType string
  | NilReducer string
  | BadDefault string

definition field_value_error :: "state \<Rightarrow> string \<Rightarrow> state_field \<Rightarrow> schema_error option run" where
  "field_value_error st name field =
     (case gget st name of
        None \<Rightarrow> Return (if f_required field then Some (MissingRequired name) else None)
      | Some v \<Rightarrow>
          (case type_of v of
             None \<Rightarrow> Return None
           | Some t \<Rightarrow> (case f_type field of
                 None \<Rightarrow> Panic
               | Some T \<Rightarrow> Return (if AssignableTo t T then None else Some (WrongType name)))))"

fun schema_Validate :: "schema \<Rightarrow> state \<Rightarrow> schema_error option run" where
  "schema_Validate [] st = Return None"
| "schema_Validate ((name, field) # flds) st =
     run_bind (field_value_error st name field) (\<lambda>e.
       case e of Some err \<Rightarrow> Return (Some err) | None \<Rightarrow> schema_Validate flds st)"

definition field_error :: "string \<Rightarrow> state_field \<Rightarrow> schema_error option" where
  "field_error name field =
     (case f_type field of
        None \<Rightarrow> Some (NilType name)
      | Some T \<Rightarrow>
          (if f_reducer field = None then Some (NilReducer name)
           else case f_default field of
               None \<Rightarrow> None
             | Some d \<Rightarrow>
                 (case type_of d of
                    None \<Rightarrow> if nilable_kind T then None else Some (BadDefault name)
                  | Some t \<Rightarrow> if AssignableTo t T then None else Some (BadDefault name))))"

fun validateSchema :: "schema \<Rightarrow> schema_error option" where
  "validateSchema [] = None"
| "validateSchema ((name, field) # flds) =
     (case field_error name field of Some e \<Rightarrow> Some e | None \<Rightarrow> validateSchema flds)"

definition plain_field :: "gotype \<Rightarrow> reducer \<Rightarrow> gval option \<Rightarrow> state_field" where
  "plain_field t r d = \<lparr>f_type = Some t, f_reducer = Some r, f_default = d, f_required = False,
     f_disable_deep_copy = False\<rparr>"

definition MessagesStateSchema :: schema where
  "MessagesStateSchema =
     fold (\<lambda>(n, f). AddField n f)
       [(StateKeyMessages, plain_field TMessages MessageReducer (Some (VMsgs (Some [])))),
        (''user_input'', plain_field TString DefaultReducer None),
        (''last_response'', plain_field TString DefaultReducer None),
        (''last_tool_response'', plain_field TString DefaultReducer None),
        (''last_response_id'', plain_field TString DefaultReducer None),
        (''node_responses'', plain_field TMapAny MergeReducer (Some (VMap (Some [])))),
        (''metadata'', plain_field TMapAny MergeReducer (Some (VMap (Some []))))]
       NewStateSchema"

section \<open>Updates are pointwise\<close>

definition pointwise :: "schema \<Rightarrow> state \<Rightarrow> state \<Rightarrow> string \<Rightarrow> gval option" where
  "pointwise flds st update key =
     (case gget update key of
        None \<Rightarrow> gget st key
      | Some u \<Rightarrow> (case merge_value flds key (gget st key) u of
            Return (Some v) \<Rightarrow> Some v
          | _ \<Rightarrow> gget st key))"

lemma apply_entries_pointwise:
  assumes "apply_entries flds update st = Return st'" "well_keyed update"
  shows "gget st' key = pointwise flds st update key"
  using assms
proof (induction update arbitrary: st)
  case (Cons e update)
  obtain k u where e: "e = (k, u)" by (cases e)
  from Cons.prems e obtain r where r: "merge_value flds k (gget st k) u = Return r"
    and rest: "apply_entries flds update (case r of None \<Rightarrow> st | Some v \<Rightarrow> gput k v st) = Return st'"
    by (auto simp: run_bind_Return_iff)
  have wk: "well_keyed update" "gget update k = None"
    using Cons.prems(2) e well_keyed_ConsD[of k u update] by (auto simp: ghas_def)
  from Cons.IH[OF rest wk(1)] r wk(2) e show ?case
    by (auto simp: pointwise_def split: option.splits run.splits)
qed (simp add: pointwise_def)

lemma apply_entries_panic:
  assumes "well_keyed update"
  shows "apply_entries flds update st = Panic \<longleftrightarrow>
     (\<exists>(k, u) \<in> set update. merge_value flds k (gget st k) u = Panic)"
  using assms
proof (induction update arbitrary: st)
  case (Cons e update)
  obtain k u where e: "e = (k, u)" by (cases e)
  have wk: "well_keyed update" and fresh: "\<And>k' u'. (k', u') \<in> set update \<Longrightarrow> k' \<noteq> k"
    using Cons.prems e by (auto simp: well_keyed_def image_iff)
  show ?case
  proof (cases "merge_value flds k (gget st k) u")
    case Panic
    then show ?thesis using e by simp
  next
    case (Return r)
    let ?st = "case r of None \<Rightarrow> st | Some v \<Rightarrow> gput k v st"
    have "gget ?st k' = gget st k'" if "k' \<noteq> k" for k' using that by (cases r) auto
    with fresh have "(\<exists>(k, u) \<in> set update. merge_value flds k (gget ?st k) u = Panic) \<longleftrightarrow>
        (\<exists>(k, u) \<in> set update. merge_value flds k (gget st k) u = Panic)"
      by (intro bex_cong) auto
    with Return Cons.IH[OF wk, of ?st] e show ?thesis by simp
  qed
qed simp

text \<open>
  C21. The result of a state update does not depend on the order in which Go iterates the update
  map: two iteration orders of the same update both panic, or both return states that agree on
  every key; and every key not in the update keeps its value.
\<close>

theorem update_order_irrelevant:
  assumes "well_keyed u1" "well_keyed u2" "\<And>k. gget u1 k = gget u2 k"
  shows "(ApplyUpdate flds st u1 = Panic \<longleftrightarrow> ApplyUpdate flds st u2 = Panic)
     \<and> (ApplyUpdate flds st u1 = Return s1 \<longrightarrow> ApplyUpdate flds st u2 = Return s2 \<longrightarrow>
          gget s1 k = gget s2 k \<and> (gget u1 k = None \<longrightarrow> gget s1 k = gget st k))"
proof -
  have "set u1 = set u2"
    using well_keyed_lookup_perm[OF assms] by (metis set_mset_mset)
  with assms(1,2) have "ApplyUpdate flds st u1 = Panic \<longleftrightarrow> ApplyUpdate flds st u2 = Panic"
    by (simp add: ApplyUpdate_def apply_entries_panic)
  moreover have "gget s1 k = gget s2 k \<and> (gget u1 k = None \<longrightarrow> gget s1 k = gget st k)"
    if "ApplyUpdate flds st u1 = Return s1" "ApplyUpdate flds st u2 = Return s2"
    using that assms
    by (simp add: ApplyUpdate_def Clone_def apply_entries_pointwise pointwise_def)
  ultimately show ?thesis by blast
qed


theorem update_order_irrelevant_witness:
  "gget [(''a'', VInt 1), (''b'', VInt 2)] ''a'' = gget [(''b'', VInt 2), (''a'', VInt 1)] ''a''"
proof -
  let ?u1 = "[(''a'', VInt 1), (''b'', VInt 2)]" and ?u2 = "[(''b'', VInt 2), (''a'', VInt 1)]"
  have "ApplyUpdate [] [] ?u1 = Return ?u1" "ApplyUpdate [] [] ?u2 = Return ?u2" by code_simp+
  moreover have "well_keyed ?u1" "well_keyed ?u2" by (simp_all add: well_keyed_def)
  ultimately show ?thesis
    using update_order_irrelevant[of ?u1 ?u2 "[]" "[]" ?u1 ?u2 "''a''"] by simp
qed

section \<open>Accumulating reducers\<close>

text \<open>
  What the fan-in of parallel tasks needs of a reducer on a list-valued key: starting from nothing it
  takes the first update, and every further update is appended.
\<close>

locale accumulating_reducer =
  fixes red :: reducer and mk :: "'a list \<Rightarrow> gval"
  assumes red_start: "red VNil (mk ys) = Return (mk ys)"
    and red_step: "red (mk xs) (mk ys) = Return (mk (xs @ ys))"
begin

fun accumulate :: "gval \<Rightarrow> gval list \<Rightarrow> gval run" where
  "accumulate v [] = Return v"
| "accumulate v (u # us) = run_bind (red v u) (\<lambda>w. accumulate w us)"

lemma accumulate_all: "accumulate (mk xs) (map mk yss) = Return (mk (xs @ concat yss))"
  by (induction yss arbitrary: xs) (simp_all add: red_step)

lemma accumulate_from_nil: "yss \<noteq> [] \<Longrightarrow> accumulate VNil (map mk yss) = Return (mk (concat yss))"
  by (cases yss) (simp_all add: red_start accumulate_all)

end

interpretation appending: accumulating_reducer AppendReducer "\<lambda>xs. VAnys (Some xs)"
  by unfold_locales (simp_all add: AppendReducer_def elems_def)

interpretation strings: accumulating_reducer StringSliceReducer "\<lambda>xs. VStrs (Some xs)"
  by unfold_locales (simp_all add: StringSliceReducer_def elems_def)

interpretation history: accumulating_reducer MessageReducer "\<lambda>xs. VMsgs (Some xs)"
  by unfold_locales (simp_all add: MessageReducer_def elems_def)

text \<open>The updates a sequence of node results makes to one state, as the executor applies them.\<close>

fun apply_all :: "schema \<Rightarrow> state \<Rightarrow> state list \<Rightarrow> state run" where
  "apply_all flds st [] = Return st"
| "apply_all flds st (u # us) = run_bind (ApplyUpdate flds st u) (\<lambda>st'. apply_all flds st' us)"

lemma merge_messages:
  assumes "gget flds key = Some f" "f_reducer f = Some MessageReducer"
  shows "merge_value flds key (Some (VMsgs (Some xs))) (VMsgs (Some ys)) = Return (Some (VMsgs (Some (xs @ ys))))"
  using assms history.red_step[of xs ys] by (simp add: merge_value_def is_composite_def Let_def)

text \<open>
  Fan-in of message histories: when several node results each carry messages for a key whose
  field has the message reducer, applying them one after the other appends all of them, in the
  order of the results, to what was there; none is lost and none is repeated.
\<close>

theorem messages_fan_in:
  assumes "gget flds key = Some f" "f_reducer f = Some MessageReducer"
    "gget st key = Some (VMsgs (Some xs))"
    "apply_all flds st (map (\<lambda>ys. [(key, VMsgs (Some ys))]) yss) = Return st'"
  shows "gget st' key = Some (VMsgs (Some (xs @ concat yss)))"
  using assms(3,4)
proof (induction yss arbitrary: st xs)
  case (Cons ys yss)
  then show ?case
    using Cons.IH[of "gput key (VMsgs (Some (xs @ ys))) st" "xs @ ys"] merge_messages[OF assms(1,2), of xs ys] by (simp add: ApplyUpdate_def Clone_def)
qed simp

abbreviation hi :: message where "hi \<equiv> NewUserMessage ''hi''"

theorem messages_fan_in_witness:
  "gget [(''messages'', VMsgs (Some [hi, hi]))] ''messages'' = Some (VMsgs (Some ([] @ concat [[hi], [hi]])))"
proof (rule messages_fan_in[of MessagesStateSchema "''messages''"])
  show "gget MessagesStateSchema ''messages'' = Some (plain_field TMessages MessageReducer (Some (VMsgs (Some []))))"
    by (simp add: MessagesStateSchema_def StateKeyMessages_def AddField_def NewStateSchema_def plain_field_def)
  show "f_reducer (plain_field TMessages MessageReducer (Some (VMsgs (Some [])))) = Some MessageReducer"
    by (simp add: plain_field_def)
  show "gget [(''messages'', VMsgs (Some []))] ''messages'' = Some (VMsgs (Some []))" by simp
  show "apply_all MessagesStateSchema [(''messages'', VMsgs (Some []))]
      (map (\<lambda>ys. [(''messages'', VMsgs (Some ys))]) [[hi], [hi]])
     = Return [(''messages'', VMsgs (Some [hi, hi]))]"
    by (simp add: MessagesStateSchema_def StateKeyMessages_def AddField_def NewStateSchema_def plain_field_def
        ApplyUpdate_def Clone_def merge_value_def MessageReducer_def elems_def is_composite_def)
qed

section \<open>Replacing the last user message\<close>

lemma replace_first_user_split:
  "replace_first_user c (pre @ u # post) = Some (pre @ u\<lparr>m_content := c\<rparr> # post)"
  if "\<forall>m \<in> set pre. \<not> is_role RoleUser m" "is_role RoleUser u" for pre
  using that by (induction pre) auto

lemma replace_first_user_none: "\<forall>m \<in> set ms. \<not> is_role RoleUser m \<Longrightarrow> replace_first_user c ms = None"
  by (induction ms) auto

text \<open>
  \<open>ReplaceLastUser\<close> changes the content of the last user message and nothing else: the messages
  before and after it and its other fields stay as they are.
\<close>

theorem replace_last_user_only:
  assumes "is_role RoleUser u" "list_all (\<lambda>m. \<not> is_role RoleUser m) post"
  shows "op_Apply (ReplaceLastUser c) (Some (pre @ u # post)) = Some (pre @ u\<lparr>m_content := c\<rparr> # post)"
proof -
  have "replace_first_user c (rev post @ u # rev pre) = Some (rev post @ u\<lparr>m_content := c\<rparr> # rev pre)"
    using assms by (intro replace_first_user_split) (auto simp: list_all_iff)
  then show ?thesis by (simp add: elems_def)
qed

theorem replace_last_user_only_witness:
  "op_Apply (ReplaceLastUser ''b'') (Some ([NewSystemMessage ''s''] @ NewUserMessage ''a'' # [plain_message RoleAssistant ''x'']))
   = Some ([NewSystemMessage ''s''] @ (NewUserMessage ''a'')\<lparr>m_content := ''b''\<rparr> # [plain_message RoleAssistant ''x''])"
  by (rule replace_last_user_only) code_simp+

section \<open>One-shot messages\<close>

lemma existing_get:
  assumes "well_keyed m"
  shows "gget (fold (\<lambda>(n, ms) out. if elems ms = [] then out else gput n (elems ms) out) m acc) k
     = (case gget m k of
          None \<Rightarrow> gget acc k
        | Some ms \<Rightarrow> if elems ms = [] then gget acc k else Some (elems ms))"
  using assms
proof (induction m arbitrary: acc)
  case (Cons e m)
  obtain n ms where e: "e = (n, ms)" by (cases e)
  with well_keyed_ConsD[of n ms m] Cons.prems have "well_keyed m" "gget m n = None"
    by (auto simp: ghas_def)
  with Cons.IH e show ?case by (auto split: option.split)
qed simp

lemma existing_well_keyed:
  "well_keyed acc \<Longrightarrow>
     well_keyed (fold (\<lambda>(n, ms) out. if elems ms = [] then out else gput n (elems ms) out) m acc)"
  by (induction m arbitrary: acc) (auto split: prod.split)

lemma normalized_get:
  "(case normalizeOneShotMessagesByNode b of
      VMsgMap m \<Rightarrow> (case gget (elems m) k of None \<Rightarrow> None | Some ms \<Rightarrow> if elems ms = [] then None else Some (elems ms))
    | _ \<Rightarrow> None)
   = (case gget b k of None \<Rightarrow> None | Some ms \<Rightarrow> if ms = [] then None else Some ms)"
  by (auto simp: normalizeOneShotMessagesByNode_def elems_def map_of_map option.map_comp split: option.split)

lemma get_one_shot_map:
  assumes "gget st StateKeyOneShotMessagesByNode = Some (VMsgMap m)" "node \<noteq> []"
  shows "GetOneShotMessagesForNode st node = Return (case gget (elems m) node of
     None \<Rightarrow> None | Some ms \<Rightarrow> if elems ms = [] then None else Some (elems ms))"
  using assms by (simp add: GetOneShotMessagesForNode_def)

lemma get_one_shot_normalized:
  assumes "gget st StateKeyOneShotMessagesByNode = Some (normalizeOneShotMessagesByNode b)" "node \<noteq> []"
  shows "GetOneShotMessagesForNode st node
     = Return (case gget b node of None \<Rightarrow> None | Some ms \<Rightarrow> if ms = [] then None else Some ms)"
  using get_one_shot_map[OF assms(1)[unfolded normalizeOneShotMessagesByNode_def] assms(2)]
  by (auto simp: elems_def map_of_map split: option.split if_splits)

lemma key_not_internal: "\<not> isInternalStateKey StateKeyOneShotMessagesByNode"
  by code_simp

lemma set_one_shot_update:
  "target \<noteq> [] \<Longrightarrow> SetOneShotMessagesForNode target ms =
     [(StateKeyOneShotMessagesByNode, VMsgMap (Some [(target, if ms = [] then None else Some ms)]))]"
  by (simp add: SetOneShotMessagesForNode_def ClearOneShotMessagesForNode_def)

text \<open>
  One-shot messages are addressed: after a node set them for a target, that target reads exactly
  them (or nothing, if the list was empty), and every other node reads what it would have read.
\<close>

theorem one_shot_addressed:
  assumes "gget flds StateKeyOneShotMessagesByNode = None"
    "gget st StateKeyOneShotMessagesByNode = Some (VMsgMap (Some m))" "well_keyed m"
    "target \<noteq> []" "ApplyUpdate flds st (SetOneShotMessagesForNode target ms) = Return st'"
  shows "GetOneShotMessagesForNode st' node =
     (if node = target then Return (if ms = [] then None else Some ms)
      else GetOneShotMessagesForNode st node)"
proof (cases "node = []")
  case True
  with assms(4) show ?thesis by (simp add: GetOneShotMessagesForNode_def)
next
  case False
  let ?ex = "fold (\<lambda>(n, ms) out. if elems ms = [] then out else gput n (elems ms) out) m []"
  let ?b = "put_messages target ms (gcopy_into [] ?ex)"
  have "elems (if ms = [] then None else Some ms) = ms" by (simp add: elems_def)
  with assms have st': "st' = gput StateKeyOneShotMessagesByNode (normalizeOneShotMessagesByNode ?b) st"
    by (simp add: ApplyUpdate_def Clone_def set_one_shot_update merge_value_def key_not_internal
        OneShotMessagesByNodeReducer_def decodeOneShotMessagesByNodeExisting_def
        applyOneShotMessagesByNodeUpdate_def elems_def[of "Some _"])
  have wk: "well_keyed ?ex" by (rule existing_well_keyed) simp
  have b: "gget ?b node = (if node = target then (if ms = [] then None else Some ms)
      else (case gget m node of None \<Rightarrow> None | Some x \<Rightarrow> if elems x = [] then None else Some (elems x)))"
    using gcopy_into_get[OF wk, of "[]" node] existing_get[OF assms(3), of "[]" node]
    by (auto simp: put_messages_def split: option.splits)
  have "GetOneShotMessagesForNode st' node
     = Return (case gget ?b node of None \<Rightarrow> None | Some ms \<Rightarrow> if ms = [] then None else Some ms)"
    using st' False by (intro get_one_shot_normalized) simp_all
  then show ?thesis
    using b get_one_shot_map[OF assms(2) False] by (auto simp: elems_def[of "Some m"] split: option.splits)
qed

theorem one_shot_addressed_witness:
  "GetOneShotMessagesForNode [(StateKeyOneShotMessagesByNode,
      VMsgMap (Some [(''a'', Some [hi]), (''b'', Some [hi, hi])]))] ''b'' = Return (Some [hi, hi])"
proof -
  let ?st = "[(StateKeyOneShotMessagesByNode, VMsgMap (Some [(''a'', Some [hi])]))]"
  let ?st' = "[(StateKeyOneShotMessagesByNode, VMsgMap (Some [(''a'', Some [hi]), (''b'', Some [hi, hi])]))]"
  have "ApplyUpdate [] ?st (SetOneShotMessagesForNode ''b'' [hi, hi]) = Return ?st'" by code_simp
  moreover have "well_keyed [(''a'', Some [hi])]" by (simp add: well_keyed_def)
  ultimately show ?thesis
    using one_shot_addressed[of "[]" ?st "[(''a'', Some [hi])]" "''b''" "[hi, hi]" ?st' "''b''"] by simp
qed

section \<open>Validation\<close>

definition value_fits :: "state \<Rightarrow> string \<Rightarrow> state_field \<Rightarrow> bool" where
  "value_fits st name field =
     (case gget st name of
        None \<Rightarrow> \<not> f_required field
      | Some v \<Rightarrow> (case type_of v of None \<Rightarrow> True
                 | Some t \<Rightarrow> (case f_type field of None \<Rightarrow> False | Some T \<Rightarrow> AssignableTo t T)))"

text \<open>
  C22. Validation of a state against a schema whose fields all have a type returns, and reports no
  error exactly when every required field is present and every present non-nil value has a type
  assignable to its field's; the order in which the fields are visited does not matter.
\<close>

theorem validate_iff_all_fit:
  assumes "list_all (\<lambda>(n, f). f_type f \<noteq> None) flds"
  shows "(schema_Validate flds st = Return None \<longleftrightarrow> list_all (\<lambda>(n, f). value_fits st n f) flds)
     \<and> schema_Validate flds st \<noteq> Panic"
  using assms
proof (induction flds st rule: schema_Validate.induct)
  case (2 name field flds st)
  then show ?case
    by (auto simp: field_value_error_def value_fits_def split: option.splits if_splits)
qed simp

theorem validate_iff_all_fit_witness:
  "schema_Validate MessagesStateSchema [(''user_input'', VInt 3)] \<noteq> Return None"
proof -
  have s: "list_all (\<lambda>(n, f). f_type f \<noteq> None) MessagesStateSchema"
    "\<not> list_all (\<lambda>(n, f). value_fits [(''user_input'', VInt 3)] n f) MessagesStateSchema"
    by (simp_all add: MessagesStateSchema_def StateKeyMessages_def AddField_def NewStateSchema_def
        plain_field_def value_fits_def AssignableTo_def)
  from validate_iff_all_fit[OF s(1), of "[(''user_input'', VInt 3)]"] s(2) show ?thesis by simp
qed

end
