(* ===== verification/Graph_Core.thy ===== *)
theory Graph_Core
  imports Graph_Channel State_Schema
begin

text \<open>
  \<open>graph/graph.go\<close>: nodes, edges, conditional edges and the graph they make up, with the channel
  templates and the map from channels to the nodes they trigger.  Node functions and conditions are
  user code, so they are functions of the state; what they may return is \<open>node_result\<close>.  The fields
  that only the LLM, tool and agent nodes read, the callbacks and the cache are left out.
\<close>

section \<open>Commands and results\<close>

definition Start :: string where "Start = ''__start__''"

definition End :: string where "End = ''__end__''"

record command =
  cmd_update :: state
  cmd_goto :: string
  cmd_resume :: gval
  cmd_resume_map :: "state option"

text \<open>
  The error values the engine tells apart: an interrupt (\<open>graph/interrupt.go\<close>), the cancellation of
  the context, an expired deadline, and all others by their text.
\<close>

record interrupt_error =
  ie_value :: gval
  ie_node_id :: string
  ie_task_id :: string
  ie_key :: string
  ie_step :: int
  ie_skip_rerun :: bool
  ie_next_nodes :: "string list"
  ie_path :: "string list"

datatype gerror =
    ErrInterrupt interrupt_error
  | ErrCanceled
  | ErrDeadline
  | ErrText string

text \<open>
  The dynamic values a node function may return: a \<open>State\<close>, a \<open>*Command\<close>, a \<open>[]*Command\<close> (in both the
  pointers may be nil), nil, or anything else.
\<close>

datatype node_result =
    NRNil
  | NRState state
  | NRCommand "command option"
  | NRCommands "command option list"
  | NROther

text \<open>
  A node function is user code.  It may change the state it is given, return a value and an error, or
  panic; what it left in the state is seen by the engine in each case.  Its answer may differ from
  one attempt to the next: the number of the attempt stands for what it depends on besides the state.
\<close>

type_synonym node_func = "nat \<Rightarrow> state \<Rightarrow> state \<times> (node_result \<times> gerror option) run"

record condition_result =
  cr_next_nodes :: "string list"

type_synonym cond_func = "state \<Rightarrow> condition_result + gerror"

text \<open>The three shapes of condition \<open>wrapperCondFunc\<close> accepts; on a nil or another shape it panics.\<close>

datatype any_cond =
    CondNil
  | CondSingle "state \<Rightarrow> string \<times> gerror option"
  | CondMulti "state \<Rightarrow> string list \<times> gerror option"
  | CondUniversal cond_func
  | CondOther

definition wrapperCondFunc :: "any_cond \<Rightarrow> cond_func run" where
  "wrapperCondFunc c =
     (case c of
        CondNil \<Rightarrow> Panic
      | CondSingle f \<Rightarrow> Return (\<lambda>st. case f st of
            (n, None) \<Rightarrow> Inl \<lparr>cr_next_nodes = [n]\<rparr> | (n, Some e) \<Rightarrow> Inr e)
      | CondMulti f \<Rightarrow> Return (\<lambda>st. case f st of
            (ns, None) \<Rightarrow> Inl \<lparr>cr_next_nodes = ns\<rparr> | (ns, Some e) \<Rightarrow> Inr e)
      | CondUniversal f \<Rightarrow> Return f
      | CondOther \<Rightarrow> Panic)"

section \<open>Graphs\<close>

record writer =
  w_channel :: string
  w_value :: gval
  w_skip_none :: bool
  w_mapper :: "(gval \<Rightarrow> gval) option"

record node =
  nd_id :: string
  nd_name :: string
  nd_type :: string
  nd_function :: "node_func option"
  nd_triggers :: "string list"
  nd_channels :: "string list"
  nd_writers :: "writer list"
  nd_destinations :: "(string, string) gomap"
  nd_ends :: "(string, string) gomap"
  nd_interrupt_before :: bool
  nd_interrupt_after :: bool

record edge =
  e_from :: string
  e_to :: string

record cond_edge =
  ce_from :: string
  ce_condition :: "cond_func option"
  ce_path_map :: "(string, string) gomap"

record graph =
  g_schema :: schema
  g_nodes :: "(string, node) gomap"
  g_edges :: "(string, edge list) gomap"
  g_cond :: "(string, cond_edge) gomap"
  g_entry :: string
  g_channels :: channels
  g_triggers :: "(string, string list) gomap"

definition graph_New :: "schema option \<Rightarrow> graph" where
  "graph_New s =
     \<lparr>g_schema = (case s of None \<Rightarrow> NewStateSchema | Some x \<Rightarrow> x), g_nodes = [], g_edges = [],
      g_cond = [], g_entry = [], g_channels = NewChannelManager, g_triggers = []\<rparr>"

definition graph_Node :: "graph \<Rightarrow> string \<Rightarrow> node option" where
  "graph_Node g n = gget (g_nodes g) n"

definition graph_Nodes :: "graph \<Rightarrow> node list" where
  "graph_Nodes g = sort_key nd_id (map snd (g_nodes g))"

definition graph_Edges :: "graph \<Rightarrow> string \<Rightarrow> edge list" where
  "graph_Edges g n = (case gget (g_edges g) n of None \<Rightarrow> [] | Some es \<Rightarrow> es)"

definition graph_ConditionalEdge :: "graph \<Rightarrow> string \<Rightarrow> cond_edge option" where
  "graph_ConditionalEdge g n = gget (g_cond g) n"

definition EntryPoint :: "graph \<Rightarrow> string" where
  "EntryPoint g = g_entry g"

definition EndTargets :: "node \<Rightarrow> string list" where
  "EndTargets n =
     sort (dedup_seen [] (filter (\<lambda>t. \<not> (t = [] \<or> t = End)) (map snd (nd_ends n))))"

text \<open>The errors of the construction methods, by the check that fails.\<close>

datatype graph_error =
    NoEntryPoint
  | EntryMissing string
  | DestinationMissing string string
  | EndTargetMissing string string
  | SchemaError schema_error
  | EmptyNodeID
  | DuplicateNode string
  | EmptyEdgeEnd
  | SourceMissing string
  | TargetMissing string
  | EmptyCondSource
  | NoCondition
  | InterruptNodeMissing string

definition node_declares_error :: "graph \<Rightarrow> node \<Rightarrow> graph_error option" where
  "node_declares_error g n =
     (case find (\<lambda>t. t \<noteq> End \<and> \<not> ghas (g_nodes g) t) (gkeys (nd_destinations n)) of
        Some t \<Rightarrow> Some (DestinationMissing (nd_id n) t)
      | None \<Rightarrow>
          (case find (\<lambda>t. t \<noteq> End \<and> \<not> ghas (g_nodes g) t) (map snd (nd_ends n)) of
             Some t \<Rightarrow> Some (EndTargetMissing (nd_id n) t)
           | None \<Rightarrow> None))"

fun nodes_error :: "graph \<Rightarrow> node list \<Rightarrow> graph_error option" where
  "nodes_error g [] = None"
| "nodes_error g (n # ns) =
     (case node_declares_error g n of Some e \<Rightarrow> Some e | None \<Rightarrow> nodes_error g ns)"

definition validate :: "graph \<Rightarrow> graph_error option" where
  "validate g =
     (if g_entry g = [] then Some NoEntryPoint
      else if \<not> ghas (g_nodes g) (g_entry g) then Some (EntryMissing (g_entry g))
      else case nodes_error g (map snd (g_nodes g)) of
          Some e \<Rightarrow> Some e
        | None \<Rightarrow> map_option SchemaError (validateSchema (g_schema g)))"

text \<open>The construction methods return the error, if any, and the graph, changed or not.\<close>

definition addNode :: "node \<Rightarrow> graph \<Rightarrow> graph \<times> graph_error option" where
  "addNode n g =
     (if nd_id n = [] then (g, Some EmptyNodeID)
      else if ghas (g_nodes g) (nd_id n) then (g, Some (DuplicateNode (nd_id n)))
      else (g\<lparr>g_nodes := gput (nd_id n) n (g_nodes g)\<rparr>, None))"

definition addEdge :: "edge \<Rightarrow> graph \<Rightarrow> graph \<times> graph_error option" where
  "addEdge e g =
     (if e_from e = [] \<or> e_to e = [] then (g, Some EmptyEdgeEnd)
      else if e_from e \<noteq> Start \<and> \<not> ghas (g_nodes g) (e_from e) then (g, Some (SourceMissing (e_from e)))
      else if e_to e \<noteq> End \<and> \<not> ghas (g_nodes g) (e_to e) then (g, Some (TargetMissing (e_to e)))
      else (g\<lparr>g_edges := gput (e_from e) (graph_Edges g (e_from e) @ [e]) (g_edges g)\<rparr>, None))"

definition addConditionalEdge :: "cond_edge \<Rightarrow> graph \<Rightarrow> graph \<times> graph_error option" where
  "addConditionalEdge c g =
     (if ce_from c = [] then (g, Some EmptyCondSource)
      else if ce_condition c = None then (g, Some NoCondition)
      else if ce_from c \<noteq> Start \<and> \<not> ghas (g_nodes g) (ce_from c) then (g, Some (SourceMissing (ce_from c)))
      else case find (\<lambda>t. t \<noteq> End \<and> \<not> ghas (g_nodes g) t) (map snd (ce_path_map c)) of
          Some t \<Rightarrow> (g, Some (TargetMissing t))
        | None \<Rightarrow> (g\<lparr>g_cond := gput (ce_from c) c (g_cond g)\<rparr>, None))"

definition setEntryPoint :: "string \<Rightarrow> graph \<Rightarrow> graph \<times> graph_error option" where
  "setEntryPoint n g =
     (if n \<noteq> [] \<and> \<not> ghas (g_nodes g) n then (g, Some (EntryMissing n))
      else (g\<lparr>g_entry := n\<rparr>, None))"

definition graph_addChannel :: "string \<Rightarrow> Behavior \<Rightarrow> graph \<Rightarrow> graph" where
  "graph_addChannel name b g = g\<lparr>g_channels := AddChannel name b (g_channels g)\<rparr>"

definition getChannel :: "graph \<Rightarrow> string \<Rightarrow> channel option" where
  "getChannel g name = GetChannel (g_channels g) name"

definition getAllChannels :: "graph \<Rightarrow> channels" where
  "getAllChannels g = GetAllChannels (g_channels g)"

definition getTriggerToNodes :: "graph \<Rightarrow> (string, string list) gomap" where
  "getTriggerToNodes g = g_triggers g"

definition addNodeTrigger :: "string \<Rightarrow> string \<Rightarrow> graph \<Rightarrow> graph" where
  "addNodeTrigger ch n g =
     (let existing = (case gget (g_triggers g) ch of None \<Rightarrow> [] | Some ns \<Rightarrow> ns)
      in if n \<in> set existing then g else g\<lparr>g_triggers := gput ch (existing @ [n]) (g_triggers g)\<rparr>)"

definition update_node :: "string \<Rightarrow> (node \<Rightarrow> node) \<Rightarrow> graph \<Rightarrow> graph" where
  "update_node n f g =
     (case gget (g_nodes g) n of
        None \<Rightarrow> g
      | Some nd \<Rightarrow> g\<lparr>g_nodes := gput n (f nd) (g_nodes g)\<rparr>)"

definition addNodeWriter :: "string \<Rightarrow> writer \<Rightarrow> graph \<Rightarrow> graph" where
  "addNodeWriter n w = update_node n (\<lambda>nd. nd\<lparr>nd_writers := nd_writers nd @ [w]\<rparr>)"

definition addNodeTriggerChannel :: "string \<Rightarrow> string \<Rightarrow> graph \<Rightarrow> graph" where
  "addNodeTriggerChannel n ch = update_node n (\<lambda>nd. nd\<lparr>nd_triggers := nd_triggers nd @ [ch]\<rparr>)"

definition addNodeChannel :: "string \<Rightarrow> string \<Rightarrow> graph \<Rightarrow> graph" where
  "addNodeChannel n ch = update_node n (\<lambda>nd. nd\<lparr>nd_channels := nd_channels nd @ [ch]\<rparr>)"

end
