(* ===== verification/Graph_Builder.thy ===== *)
theory Graph_Builder
  imports Graph_Core
begin

text \<open>
  The construction methods of \<open>StateGraph\<close> (\<open>graph/state_graph.go\<close>), which wire the channels of the
  Pregel engine behind every node, edge and join.  A builder is the graph and the errors collected
  so far; \<open>Compile\<close> refuses a builder that has any.  The tracing wrapper \<open>AddNode\<close> puts around the
  node function is left out; the SHA-256 sum of a join's senders is a parameter.
\<close>

section \<open>The builder\<close>

record builder =
  sg_graph :: graph
  sg_errors :: "graph_error list"

definition NewStateGraph :: "schema option \<Rightarrow> builder" where
  "NewStateGraph s = \<lparr>sg_graph = graph_New s, sg_errors = []\<rparr>"

definition addBuildError :: "graph_error \<Rightarrow> builder \<Rightarrow> builder" where
  "addBuildError e sg = sg\<lparr>sg_errors := sg_errors sg @ [e]\<rparr>"

definition NodeTypeFunction :: string where
  "NodeTypeFunction = ''function''"

definition triggerChannel :: "string \<Rightarrow> string" where
  "triggerChannel n = ''trigger:'' @ n"

definition branchChannel :: "string \<Rightarrow> string" where
  "branchChannel n = ''branch:to:'' @ n"

definition channelUpdateMarker :: gval where
  "channelUpdateMarker = VStr ''update''"

definition new_node :: "string \<Rightarrow> node_func \<Rightarrow> node" where
  "new_node n f = \<lparr>nd_id = n, nd_name = n, nd_type = NodeTypeFunction, nd_function = Some f,
     nd_triggers = [], nd_channels = [], nd_writers = [], nd_destinations = [], nd_ends = [],
     nd_interrupt_before = False, nd_interrupt_after = False\<rparr>"

text \<open>The options are applied to the bare node, and the function is set after them.\<close>

definition AddNode :: "string \<Rightarrow> node_func \<Rightarrow> (node \<Rightarrow> node) list \<Rightarrow> builder \<Rightarrow> builder" where
  "AddNode n f opts sg =
     (let nd = (fold (\<lambda>opt nd. opt nd) opts (new_node n f))\<lparr>nd_function := Some f\<rparr>
      in case addNode nd (sg_graph sg) of
           (g, Some e) \<Rightarrow> addBuildError e (sg\<lparr>sg_graph := g\<rparr>)
         | (g, None) \<Rightarrow>
             sg\<lparr>sg_graph := addNodeTriggerChannel n (triggerChannel n)
                              (graph_addChannel (triggerChannel n) BehaviorLastValue g)\<rparr>)"

definition edge_writer :: "string \<Rightarrow> writer" where
  "edge_writer n = \<lparr>w_channel = branchChannel n, w_value = channelUpdateMarker, w_skip_none = False,
     w_mapper = None\<rparr>"

definition AddEdge :: "string \<Rightarrow> string \<Rightarrow> builder \<Rightarrow> builder" where
  "AddEdge a b sg =
     (case addEdge \<lparr>e_from = a, e_to = b\<rparr> (sg_graph sg) of
        (g, Some e) \<Rightarrow> addBuildError e (sg\<lparr>sg_graph := g\<rparr>)
      | (g, None) \<Rightarrow>
          (let g = graph_addChannel (branchChannel b) BehaviorLastValue g;
               g = addNodeTriggerChannel b (branchChannel b) g;
               g = addNodeTrigger (branchChannel b) b g
           in sg\<lparr>sg_graph := addNodeWriter a (edge_writer b) g\<rparr>))"

definition normalizeJoinStarts :: "string list \<Rightarrow> string list" where
  "normalizeJoinStarts ns =
     sort (dedup_seen [] (filter (\<lambda>n. \<not> (n = [] \<or> n = Start \<or> n = End)) ns))"

text \<open>
  \<open>joinKeyForStarts\<close> feeds each sender to the hash with its length as eight big-endian bytes before
  it, and prints the sum in hexadecimal.  The hash is the parameter \<open>sha256_hex\<close>.
\<close>

fun be_bytes :: "nat \<Rightarrow> nat \<Rightarrow> string" where
  "be_bytes 0 n = []"
| "be_bytes (Suc k) n = be_bytes k (n div 256) @ [char_of (n mod 256)]"

definition be64 :: "nat \<Rightarrow> string" where
  "be64 n = be_bytes 8 n"

definition join_preimage :: "string list \<Rightarrow> string" where
  "join_preimage starts = concat (map (\<lambda>s. be64 (length s) @ s) starts)"

definition joinKeyForStarts :: "(string \<Rightarrow> string) \<Rightarrow> string list \<Rightarrow> string" where
  "joinKeyForStarts sha256_hex starts = sha256_hex (join_preimage starts)"

definition joinChannelName :: "(string \<Rightarrow> string) \<Rightarrow> string \<Rightarrow> string list \<Rightarrow> string" where
  "joinChannelName sha256_hex n starts = ''join:to:'' @ n @ '':from:'' @ joinKeyForStarts sha256_hex starts"

fun add_edges :: "string list \<Rightarrow> string \<Rightarrow> graph \<Rightarrow> graph \<times> graph_error option" where
  "add_edges [] b g = (g, None)"
| "add_edges (a # as) b g =
     (case addEdge \<lparr>e_from = a, e_to = b\<rparr> g of
        (g, Some e) \<Rightarrow> (g, Some e)
      | (g, None) \<Rightarrow> add_edges as b g)"

definition join_writer :: "string \<Rightarrow> string \<Rightarrow> writer" where
  "join_writer ch a = \<lparr>w_channel = ch, w_value = VStr a, w_skip_none = False, w_mapper = None\<rparr>"

definition set_expected :: "string \<Rightarrow> string list \<Rightarrow> graph \<Rightarrow> graph" where
  "set_expected ch starts g =
     (case getChannel g ch of
        None \<Rightarrow> g
      | Some c \<Rightarrow> g\<lparr>g_channels := gput ch (SetBarrierExpected starts c) (g_channels g)\<rparr>)"

definition AddJoinEdge :: "(string \<Rightarrow> string) \<Rightarrow> string list \<Rightarrow> string \<Rightarrow> builder \<Rightarrow> builder" where
  "AddJoinEdge sha256_hex fromNodes b sg =
     (let starts = normalizeJoinStarts fromNodes; g = sg_graph sg in
      if b = [] \<or> b = Start \<or> starts = [] then sg
      else if b \<noteq> End \<and> \<not> ghas (g_nodes g) b then addBuildError (TargetMissing b) sg
      else case find (\<lambda>a. \<not> ghas (g_nodes g) a) starts of
          Some a \<Rightarrow> addBuildError (SourceMissing a) sg
        | None \<Rightarrow>
            (case add_edges starts b g of
               (g, Some e) \<Rightarrow> addBuildError e (sg\<lparr>sg_graph := g\<rparr>)
             | (g, None) \<Rightarrow>
                 (let ch = joinChannelName sha256_hex b starts;
                      g = graph_addChannel ch BehaviorBarrier g;
                      g = set_expected ch starts g;
                      g = addNodeTriggerChannel b ch g;
                      g = addNodeTrigger ch b g
                  in sg\<lparr>sg_graph := fold (\<lambda>a. addNodeWriter a (join_writer ch a)) starts g\<rparr>)))"

definition add_cond :: "cond_edge \<Rightarrow> builder \<Rightarrow> builder" where
  "add_cond c sg =
     (case addConditionalEdge c (sg_graph sg) of
        (g, Some e) \<Rightarrow> addBuildError e (sg\<lparr>sg_graph := g\<rparr>)
      | (g, None) \<Rightarrow> sg\<lparr>sg_graph := g\<rparr>)"

definition AddConditionalEdges ::
    "string \<Rightarrow> any_cond \<Rightarrow> (string, string) gomap \<Rightarrow> builder \<Rightarrow> builder run" where
  "AddConditionalEdges a f pm sg =
     run_bind (wrapperCondFunc f) (\<lambda>c.
       Return (add_cond \<lparr>ce_from = a, ce_condition = Some c, ce_path_map = pm\<rparr> sg))"

definition AddMultiConditionalEdges ::
    "string \<Rightarrow> (state \<Rightarrow> string list \<times> gerror option) \<Rightarrow> (string, string) gomap \<Rightarrow> builder \<Rightarrow> builder run" where
  "AddMultiConditionalEdges a f pm sg = AddConditionalEdges a (CondMulti f) pm sg"

definition tools_condition :: "string \<Rightarrow> string \<Rightarrow> cond_func" where
  "tools_condition toTools fallback st =
     Inl \<lparr>cr_next_nodes = (case gget st StateKeyMessages of
            Some (VMsgs (Some ms)) \<Rightarrow>
              if ms \<noteq> [] \<and> m_tool_calls (last ms) \<noteq> [] then [toTools] else [fallback]
          | _ \<Rightarrow> [fallback])\<rparr>"

definition AddToolsConditionalEdges :: "string \<Rightarrow> string \<Rightarrow> string \<Rightarrow> builder \<Rightarrow> builder" where
  "AddToolsConditionalEdges a toTools fallback sg =
     add_cond \<lparr>ce_from = a, ce_condition = Some (tools_condition toTools fallback),
               ce_path_map = gput fallback fallback [(toTools, toTools)]\<rparr> sg"

definition SetEntryPoint :: "string \<Rightarrow> builder \<Rightarrow> builder" where
  "SetEntryPoint n sg =
     (case setEntryPoint n (sg_graph sg) of
        (g, Some e) \<Rightarrow> addBuildError e (sg\<lparr>sg_graph := g\<rparr>)
      | (g, None) \<Rightarrow> AddEdge Start n (sg\<lparr>sg_graph := g\<rparr>))"

definition SetFinishPoint :: "string \<Rightarrow> builder \<Rightarrow> builder" where
  "SetFinishPoint n sg = AddEdge n End sg"

fun setStaticInterruptNodes :: "bool \<Rightarrow> string list \<Rightarrow> builder \<Rightarrow> builder" where
  "setStaticInterruptNodes isBefore [] sg = sg"
| "setStaticInterruptNodes isBefore (n # ns) sg =
     setStaticInterruptNodes isBefore ns
       (if ghas (g_nodes (sg_graph sg)) n
        then sg\<lparr>sg_graph := update_node n
               (\<lambda>nd. if isBefore then nd\<lparr>nd_interrupt_before := True\<rparr> else nd\<lparr>nd_interrupt_after := True\<rparr>)
               (sg_graph sg)\<rparr>
        else addBuildError (InterruptNodeMissing n) sg)"

definition Compile :: "builder \<Rightarrow> graph + graph_error list" where
  "Compile sg =
     (if sg_errors sg \<noteq> [] then Inr (sg_errors sg)
      else case validate (sg_graph sg) of
          Some e \<Rightarrow> Inr [e]
        | None \<Rightarrow> Inl (sg_graph sg))"


section \<open>Node options and construction programs\<close>

definition WithName :: "string \<Rightarrow> node \<Rightarrow> node" where
  "WithName name nd = nd\<lparr>nd_name := name\<rparr>"

definition WithNodeType :: "string \<Rightarrow> node \<Rightarrow> node" where
  "WithNodeType t nd = nd\<lparr>nd_type := t\<rparr>"

definition WithDestinations :: "(string, string) gomap \<Rightarrow> node \<Rightarrow> node" where
  "WithDestinations dests nd = nd\<lparr>nd_destinations := gcopy_into (nd_destinations nd) dests\<rparr>"

definition WithEndsMap :: "(string, string) gomap \<Rightarrow> node \<Rightarrow> node" where
  "WithEndsMap ends nd = nd\<lparr>nd_ends := gcopy_into (nd_ends nd) ends\<rparr>"

definition WithEnds :: "string list \<Rightarrow> node \<Rightarrow> node" where
  "WithEnds ns nd = nd\<lparr>nd_ends := fold (\<lambda>n m. gput n n m) ns (nd_ends nd)\<rparr>"

datatype node_option =
    OptName string
  | OptType string
  | OptDestinations "(string, string) gomap"
  | OptEndsMap "(string, string) gomap"
  | OptEnds "string list"

fun apply_option :: "node_option \<Rightarrow> node \<Rightarrow> node" where
  "apply_option (OptName n) = WithName n"
| "apply_option (OptType t) = WithNodeType t"
| "apply_option (OptDestinations d) = WithDestinations d"
| "apply_option (OptEndsMap m) = WithEndsMap m"
| "apply_option (OptEnds ns) = WithEnds ns"

text \<open>A construction program: the calls a user makes on the builder, in order.\<close>

datatype build_op =
    BNode string node_func "node_option list"
  | BEdge string string
  | BJoin "string list" string
  | BCond cond_edge
  | BTools string string string
  | BEntry string
  | BFinish string
  | BInterrupt bool "string list"

fun run_op :: "(string \<Rightarrow> string) \<Rightarrow> build_op \<Rightarrow> builder \<Rightarrow> builder" where
  "run_op h (BNode n f opts) = AddNode n f (map apply_option opts)"
| "run_op h (BEdge a b) = AddEdge a b"
| "run_op h (BJoin as b) = AddJoinEdge h as b"
| "run_op h (BCond c) = add_cond c"
| "run_op h (BTools a t f) = AddToolsConditionalEdges a t f"
| "run_op h (BEntry n) = SetEntryPoint n"
| "run_op h (BFinish n) = SetFinishPoint n"
| "run_op h (BInterrupt isBefore ns) = setStaticInterruptNodes isBefore ns"

definition run_ops :: "(string \<Rightarrow> string) \<Rightarrow> schema option \<Rightarrow> build_op list \<Rightarrow> builder" where
  "run_ops h s ops = fold (run_op h) ops (NewStateGraph s)"

section \<open>Well-formed graphs\<close>

text \<open>The channels a node writes, the channels that trigger it, and the nodes a channel triggers.\<close>

definition writes :: "graph \<Rightarrow> string \<Rightarrow> string set" where
  "writes g n = (case gget (g_nodes g) n of None \<Rightarrow> {} | Some nd \<Rightarrow> w_channel ` set (nd_writers nd))"

definition listens :: "graph \<Rightarrow> string \<Rightarrow> string set" where
  "listens g n = (case gget (g_nodes g) n of None \<Rightarrow> {} | Some nd \<Rightarrow> set (nd_triggers nd))"

definition triggered_by :: "graph \<Rightarrow> string \<Rightarrow> string set" where
  "triggered_by g ch = (case gget (g_triggers g) ch of None \<Rightarrow> {} | Some ns \<Rightarrow> set ns)"

abbreviation nodes :: "graph \<Rightarrow> string set" where
  "nodes g \<equiv> keyset (g_nodes g)"

abbreviation chans :: "graph \<Rightarrow> string set" where
  "chans g \<equiv> keyset (g_channels g)"

definition ids_ok :: "graph \<Rightarrow> bool" where
  "ids_ok g \<longleftrightarrow> (\<forall>n nd. gget (g_nodes g) n = Some nd \<longrightarrow> nd_id nd = n)"

text \<open>An edge is wired when one channel exists that its source writes and that triggers its target.\<close>

definition edge_wired :: "graph \<Rightarrow> string \<Rightarrow> string \<Rightarrow> bool" where
  "edge_wired g a b \<longleftrightarrow> a \<in> insert Start (nodes g) \<and> b \<in> insert End (nodes g) \<and>
     (\<exists>ch \<in> chans g. (a = Start \<or> ch \<in> writes g a) \<and> (b = End \<or> ch \<in> listens g b) \<and> b \<in> triggered_by g ch)"

definition edges_wired :: "graph \<Rightarrow> bool" where
  "edges_wired g \<longleftrightarrow> (\<forall>a. \<forall>e \<in> set (graph_Edges g a). e_from e = a \<and> edge_wired g a (e_to e))"

definition channels_exist :: "graph \<Rightarrow> bool" where
  "channels_exist g \<longleftrightarrow> (\<forall>n. writes g n \<union> listens g n \<subseteq> chans g)
     \<and> (\<forall>ch. triggered_by g ch \<noteq> {} \<longrightarrow> ch \<in> chans g) \<and> (\<forall>ch. triggered_by g ch \<subseteq> insert End (nodes g))"

definition conds_ok :: "graph \<Rightarrow> bool" where
  "conds_ok g \<longleftrightarrow> (\<forall>a c. gget (g_cond g) a = Some c \<longrightarrow>
     ce_from c = a \<and> ce_condition c \<noteq> None \<and> a \<in> insert Start (nodes g)
     \<and> snd ` set (ce_path_map c) \<subseteq> insert End (nodes g))"

definition graph_wf :: "graph \<Rightarrow> bool" where
  "graph_wf g \<longleftrightarrow> ids_ok g \<and> channels_exist g \<and> edges_wired g \<and> conds_ok g"

text \<open>Construction only adds.\<close>

definition grows :: "graph \<Rightarrow> graph \<Rightarrow> bool" where
  "grows g g' \<longleftrightarrow> nodes g \<subseteq> nodes g' \<and> chans g \<subseteq> chans g' \<and> (\<forall>n. writes g n \<subseteq> writes g' n)
     \<and> (\<forall>n. listens g n \<subseteq> listens g' n) \<and> (\<forall>ch. triggered_by g ch \<subseteq> triggered_by g' ch)"

lemma grows_refl [simp, intro]: "grows g g"
  by (simp add: grows_def)

lemma grows_trans [trans]: "grows g g' \<Longrightarrow> grows g' g'' \<Longrightarrow> grows g g''"
  unfolding grows_def by (meson subset_trans)

lemma grows_edge: "grows g g' \<Longrightarrow> edge_wired g a b \<Longrightarrow> edge_wired g' a b"
  unfolding edge_wired_def grows_def by blast

lemma grows_conds: "grows g g' \<Longrightarrow> g_cond g' = g_cond g \<Longrightarrow> conds_ok g \<Longrightarrow> conds_ok g'"
  unfolding conds_ok_def grows_def by (metis (no_types, lifting) insert_mono subset_iff)

lemma grows_edges: "grows g g' \<Longrightarrow> g_edges g' = g_edges g \<Longrightarrow> edges_wired g \<Longrightarrow> edges_wired g'"
  by (auto simp: edges_wired_def graph_Edges_def grows_edge)

section \<open>The primitive steps\<close>

lemma update_node_rest [simp]:
  "nodes (update_node n f g) = nodes g"
  "g_channels (update_node n f g) = g_channels g" "triggered_by (update_node n f g) = triggered_by g"
  "g_edges (update_node n f g) = g_edges g" "g_cond (update_node n f g) = g_cond g"
  "g_entry (update_node n f g) = g_entry g" "g_schema (update_node n f g) = g_schema g"
  by (auto simp: update_node_def triggered_by_def fun_eq_iff insert_absorb keyset_get
      split: option.splits)

lemma addNodeWriter_simps [simp]:
  "writes (addNodeWriter n w g) x = (if x = n \<and> n \<in> nodes g then insert (w_channel w) (writes g n) else writes g x)"
  "listens (addNodeWriter n w g) = listens g"
  "ids_ok (addNodeWriter n w g) = ids_ok g"
  by (auto simp: addNodeWriter_def update_node_def writes_def listens_def fun_eq_iff ids_ok_def
      keyset_get split: option.splits)

lemma addNodeTriggerChannel_simps [simp]:
  "listens (addNodeTriggerChannel n ch g) x = (if x = n \<and> n \<in> nodes g then insert ch (listens g n) else listens g x)"
  "writes (addNodeTriggerChannel n ch g) = writes g"
  "ids_ok (addNodeTriggerChannel n ch g) = ids_ok g"
  by (auto simp: addNodeTriggerChannel_def update_node_def writes_def listens_def fun_eq_iff ids_ok_def
      keyset_get split: option.splits)

lemma addNode_parts [simp]:
  "nodes (addNodeWriter n w g) = nodes g" "chans (addNodeWriter n w g) = chans g"
  "triggered_by (addNodeWriter n w g) = triggered_by g" "g_edges (addNodeWriter n w g) = g_edges g"
  "g_cond (addNodeWriter n w g) = g_cond g"
  "nodes (addNodeTriggerChannel n ch g) = nodes g" "chans (addNodeTriggerChannel n ch g) = chans g"
  "triggered_by (addNodeTriggerChannel n ch g) = triggered_by g"
  "g_edges (addNodeTriggerChannel n ch g) = g_edges g" "g_cond (addNodeTriggerChannel n ch g) = g_cond g"
  unfolding addNodeWriter_def addNodeTriggerChannel_def by simp_all

lemma same_nodes:
  "g_nodes g' = g_nodes g \<Longrightarrow> writes g' = writes g \<and> listens g' = listens g \<and> ids_ok g' = ids_ok g"
  by (simp add: writes_def listens_def ids_ok_def fun_eq_iff)

lemma addChannel_rest [simp]:
  "g_nodes (graph_addChannel ch b g) = g_nodes g" "triggered_by (graph_addChannel ch b g) = triggered_by g"
  "g_edges (graph_addChannel ch b g) = g_edges g" "g_cond (graph_addChannel ch b g) = g_cond g"
  "chans (graph_addChannel ch b g) = insert ch (chans g)"
  by (auto simp: graph_addChannel_def triggered_by_def AddChannel_def fun_eq_iff insert_absorb
      ghas_keyset)

lemma addNodeTrigger_rest [simp]:
  "g_nodes (addNodeTrigger ch n g) = g_nodes g" "g_channels (addNodeTrigger ch n g) = g_channels g"
  "g_edges (addNodeTrigger ch n g) = g_edges g" "g_cond (addNodeTrigger ch n g) = g_cond g"
  "triggered_by (addNodeTrigger ch n g) x = (if x = ch then insert n (triggered_by g ch) else triggered_by g x)"
  by (auto simp: addNodeTrigger_def triggered_by_def Let_def split: option.splits)

lemma set_expected_rest [simp]:
  "g_nodes (set_expected ch E g) = g_nodes g" "triggered_by (set_expected ch E g) = triggered_by g"
  "g_edges (set_expected ch E g) = g_edges g" "g_cond (set_expected ch E g) = g_cond g"
  "chans (set_expected ch E g) = chans g"
  by (auto simp: set_expected_def triggered_by_def getChannel_def GetChannel_def insert_absorb keyset_get fun_eq_iff
      split: option.splits)

lemmas graph_steps = same_nodes[OF addChannel_rest(1)] same_nodes[OF addNodeTrigger_rest(1)]
  same_nodes[OF set_expected_rest(1)]


lemma edges_upd [simp]:
  "writes (g\<lparr>g_edges := x\<rparr>) = writes g" "listens (g\<lparr>g_edges := x\<rparr>) = listens g"
  "ids_ok (g\<lparr>g_edges := x\<rparr>) = ids_ok g" "triggered_by (g\<lparr>g_edges := x\<rparr>) = triggered_by g"
  by (simp_all add: writes_def listens_def ids_ok_def triggered_by_def fun_eq_iff)

lemma addEdge_cases:
  "addEdge e g = (g', err) \<Longrightarrow>
     (err \<noteq> None \<and> g' = g) \<or>
     (err = None \<and> g' = g\<lparr>g_edges := gput (e_from e) (graph_Edges g (e_from e) @ [e]) (g_edges g)\<rparr>
        \<and> e_from e \<in> insert Start (nodes g) \<and> e_to e \<in> insert End (nodes g))"
  by (auto simp: addEdge_def ghas_keyset split: if_splits)

lemma graph_Edges_upd:
  "graph_Edges (g\<lparr>g_edges := gput a es (g_edges g)\<rparr>) x = (if x = a then es else graph_Edges g x)"
  by (simp add: graph_Edges_def)

text \<open>Wiring the channel \<open>ch\<close> to the node \<open>b\<close>.\<close>

definition subscribe :: "string \<Rightarrow> string \<Rightarrow> graph \<Rightarrow> graph" where
  "subscribe ch b g = addNodeTrigger ch b (addNodeTriggerChannel b ch g)"

lemma subscribe_simps [simp]:
  "nodes (subscribe ch b g) = nodes g" "chans (subscribe ch b g) = chans g"
  "g_edges (subscribe ch b g) = g_edges g" "g_cond (subscribe ch b g) = g_cond g"
  "writes (subscribe ch b g) = writes g" "ids_ok (subscribe ch b g) = ids_ok g"
  "triggered_by (subscribe ch b g) x = (if x = ch then insert b (triggered_by g ch) else triggered_by g x)"
  "listens (subscribe ch b g) x = (if x = b \<and> b \<in> nodes g then insert ch (listens g b) else listens g x)"
  by (simp_all add: subscribe_def graph_steps)

definition add_writers :: "string \<Rightarrow> string list \<Rightarrow> (string \<Rightarrow> writer) \<Rightarrow> graph \<Rightarrow> graph" where
  "add_writers ch as w g = fold (\<lambda>a. addNodeWriter a (w a)) as g"

lemma add_writers_simps [simp]:
  "nodes (add_writers ch as w g) = nodes g" "chans (add_writers ch as w g) = chans g"
  "g_edges (add_writers ch as w g) = g_edges g" "g_cond (add_writers ch as w g) = g_cond g"
  "listens (add_writers ch as w g) = listens g" "ids_ok (add_writers ch as w g) = ids_ok g"
  "triggered_by (add_writers ch as w g) = triggered_by g"
  by (induction as arbitrary: g) (simp_all add: add_writers_def)

lemma add_writers_writes:
  "(\<And>a. w_channel (w a) = ch) \<Longrightarrow>
   writes (add_writers ch as w g) x = (if x \<in> set as \<and> x \<in> nodes g then insert ch (writes g x) else writes g x)"
proof (induction as arbitrary: g)
  case (Cons a as)
  have "add_writers ch (a # as) w g = add_writers ch as w (addNodeWriter a (w a) g)"
    by (simp add: add_writers_def)
  with Cons.IH[OF Cons.prems] Cons.prems show ?case by auto
qed (simp add: add_writers_def)

lemma wire_up:
  assumes "ids_ok g" "channels_exist g" "conds_ok g" "b \<in> insert End (nodes g)" "ch \<in> chans g"
    "\<And>a. w_channel (w a) = ch"
  shows "ids_ok (add_writers ch as w (subscribe ch b g))"
    "channels_exist (add_writers ch as w (subscribe ch b g))"
    "conds_ok (add_writers ch as w (subscribe ch b g))"
    "grows g (add_writers ch as w (subscribe ch b g))"
    "a \<in> set as \<Longrightarrow> a \<in> insert Start (nodes g) \<Longrightarrow> edge_wired (add_writers ch as w (subscribe ch b g)) a b"
proof -
  let ?g = "add_writers ch as w (subscribe ch b g)"
  show "ids_ok ?g" using assms(1) by simp
  show gr: "grows g ?g" by (auto simp: grows_def add_writers_writes[OF assms(6)])
  show "conds_ok ?g" by (rule grows_conds[OF gr _ assms(3)]) simp
  show "channels_exist ?g"
    using assms(2,4,5) by (auto simp: channels_exist_def add_writers_writes[OF assms(6)] split: if_splits)
  show "edge_wired ?g a b" if "a \<in> set as" "a \<in> insert Start (nodes g)"
    using assms(4,5) that by (auto simp: edge_wired_def add_writers_writes[OF assms(6)] intro!: bexI[of _ ch])
qed

lemma add_edge_wf:
  assumes "graph_wf g" "addEdge e g = (g1, None)"
    "grows g g2" "g_edges g2 = g_edges g1" "edge_wired g2 (e_from e) (e_to e)"
    "ids_ok g2" "channels_exist g2" "conds_ok g2"
  shows "graph_wf g2"
proof -
  from addEdge_cases[OF assms(2)] have
    g1: "g1 = g\<lparr>g_edges := gput (e_from e) (graph_Edges g (e_from e) @ [e]) (g_edges g)\<rparr>" by auto
  have "graph_Edges g2 = graph_Edges g1" using assms(4) by (simp add: graph_Edges_def fun_eq_iff)
  then have "edges_wired g2"
    using assms(1,3,5) g1 by (auto simp: edges_wired_def graph_Edges_upd graph_wf_def grows_edge)
  with assms(6-8) show ?thesis by (simp add: graph_wf_def)
qed

lemma AddEdge_wf:
  assumes "graph_wf (sg_graph sg)"
  shows "graph_wf (sg_graph (AddEdge a b sg))"
proof -
  obtain g1 err where e: "addEdge \<lparr>e_from = a, e_to = b\<rparr> (sg_graph sg) = (g1, err)" by fastforce
  show ?thesis
  proof (cases err)
    case (Some x)
    with e addEdge_cases[OF e] assms show ?thesis by (simp add: AddEdge_def addBuildError_def)
  next
    case None
    let ?g = "sg_graph sg" and ?ch = "branchChannel b"
    let ?g2 = "graph_addChannel ?ch BehaviorLastValue g1"
    let ?g3 = "add_writers ?ch [a] (\<lambda>_. edge_writer b) (subscribe ?ch b ?g2)"
    from addEdge_cases[OF e] None have g1: "nodes g1 = nodes ?g" "writes g1 = writes ?g"
      "listens g1 = listens ?g" "triggered_by g1 = triggered_by ?g" "chans g1 = chans ?g"
      "ids_ok g1 = ids_ok ?g" "g_cond g1 = g_cond ?g" "a \<in> insert Start (nodes ?g)" "b \<in> insert End (nodes ?g)"
      by auto
    have same: "writes ?g2 = writes ?g" "listens ?g2 = listens ?g" "ids_ok ?g2 = ids_ok ?g"
      using g1 by (simp_all add: graph_steps)
    have gr: "grows ?g ?g2" using g1 same by (auto simp: grows_def)
    have pre: "ids_ok ?g2" "channels_exist ?g2" "conds_ok ?g2"
      using assms g1 same grows_conds[OF gr]
      by (auto simp: graph_wf_def channels_exist_def)
    have w: "w_channel (edge_writer b) = ?ch" by (simp add: edge_writer_def)
    note wu = wire_up[OF pre, where b = b and ch = ?ch and w = "\<lambda>_. edge_writer b" and as = "[a]"]
    have "graph_wf ?g3"
    proof (rule add_edge_wf[OF assms e[unfolded None]])
      show "grows ?g ?g3" using gr wu(4) g1 w by (auto intro: grows_trans)
      show "edge_wired ?g3 (e_from \<lparr>e_from = a, e_to = b\<rparr>) (e_to \<lparr>e_from = a, e_to = b\<rparr>)"
        using wu(5)[of a] g1 w by simp
    qed (use wu(1-3) g1 w in simp_all)
    moreover have "sg_graph (AddEdge a b sg) = ?g3"
      using e None by (simp add: AddEdge_def Let_def add_writers_def subscribe_def)
    ultimately show ?thesis by simp
  qed
qed


lemma add_edges_ok:
  assumes "b \<noteq> []" "b \<in> insert End (nodes g)" "set as \<subseteq> nodes g" "[] \<notin> set as"
  shows "\<exists>x. add_edges as b g = (g\<lparr>g_edges := x\<rparr>, None)
     \<and> (\<forall>a. \<forall>e \<in> set (graph_Edges (g\<lparr>g_edges := x\<rparr>) a).
          e \<in> set (graph_Edges g a) \<or> (e_from e = a \<and> e_to e = b \<and> a \<in> set as))"
  using assms
proof (induction as arbitrary: g)
  case Nil
  have "g = g\<lparr>g_edges := g_edges g\<rparr>" by simp
  then show ?case by (intro exI[of _ "g_edges g"]) auto
next
  case (Cons a as)
  let ?x = "gput a (graph_Edges g a @ [\<lparr>e_from = a, e_to = b\<rparr>]) (g_edges g)"
  have e: "addEdge \<lparr>e_from = a, e_to = b\<rparr> g = (g\<lparr>g_edges := ?x\<rparr>, None)"
    using Cons.prems by (auto simp: addEdge_def ghas_keyset)
  from Cons.IH[of "g\<lparr>g_edges := ?x\<rparr>"] Cons.prems obtain y where
    y: "add_edges as b (g\<lparr>g_edges := ?x\<rparr>) = (g\<lparr>g_edges := y\<rparr>, None)" and
    ed: "\<And>a' e. e \<in> set (graph_Edges (g\<lparr>g_edges := y\<rparr>) a') \<Longrightarrow>
       e \<in> set (graph_Edges (g\<lparr>g_edges := ?x\<rparr>) a') \<or> (e_from e = a' \<and> e_to e = b \<and> a' \<in> set as)"
    by auto
  show ?case
  proof (intro exI[of _ y] conjI allI ballI)
    show "add_edges (a # as) b g = (g\<lparr>g_edges := y\<rparr>, None)" using e y by simp
    fix a' e
    assume "e \<in> set (graph_Edges (g\<lparr>g_edges := y\<rparr>) a')"
    from ed[OF this] show "e \<in> set (graph_Edges g a') \<or> (e_from e = a' \<and> e_to e = b \<and> a' \<in> set (a # as))"
      by (auto simp: graph_Edges_upd split: if_splits)
  qed
qed

lemma normalizeJoinStarts_props:
  "set (normalizeJoinStarts ns) = set ns - {[], Start, End}" "distinct (normalizeJoinStarts ns)"
  "sorted (normalizeJoinStarts ns)"
  by (auto simp: normalizeJoinStarts_def)

lemma AddJoinEdge_cases:
  assumes "b \<noteq> []" "b \<noteq> Start" "normalizeJoinStarts as \<noteq> []" "b \<in> insert End (nodes (sg_graph sg))"
    "set (normalizeJoinStarts as) \<subseteq> nodes (sg_graph sg)"
    "add_edges (normalizeJoinStarts as) b (sg_graph sg) = (g1, None)"
    "ch = joinChannelName h b (normalizeJoinStarts as)"
  shows "AddJoinEdge h as b sg = sg\<lparr>sg_graph := add_writers ch (normalizeJoinStarts as) (join_writer ch)
     (subscribe ch b (set_expected ch (normalizeJoinStarts as) (graph_addChannel ch BehaviorBarrier g1)))\<rparr>"
proof -
  have "find (\<lambda>a. \<not> ghas (g_nodes (sg_graph sg)) a) (normalizeJoinStarts as) = None"
    using assms(5) by (auto simp: find_None_iff ghas_keyset)
  with assms show ?thesis
    by (auto simp: AddJoinEdge_def Let_def add_writers_def subscribe_def ghas_keyset)
qed

lemma AddJoinEdge_rejects:
  assumes "\<not> (b \<noteq> [] \<and> b \<noteq> Start \<and> normalizeJoinStarts as \<noteq> [] \<and> b \<in> insert End (nodes (sg_graph sg))
    \<and> set (normalizeJoinStarts as) \<subseteq> nodes (sg_graph sg))"
  shows "sg_graph (AddJoinEdge h as b sg) = sg_graph sg"
  using assms
  by (auto simp: AddJoinEdge_def Let_def addBuildError_def ghas_keyset find_None_iff split: option.splits)

lemma AddJoinEdge_wf:
  assumes "graph_wf (sg_graph sg)"
  shows "graph_wf (sg_graph (AddJoinEdge h as b sg))"
proof (cases "b \<noteq> [] \<and> b \<noteq> Start \<and> normalizeJoinStarts as \<noteq> [] \<and> b \<in> insert End (nodes (sg_graph sg))
    \<and> set (normalizeJoinStarts as) \<subseteq> nodes (sg_graph sg)")
  case False
  with AddJoinEdge_rejects[OF this] assms show ?thesis by simp
next
  case True
  let ?g = "sg_graph sg" and ?st = "normalizeJoinStarts as"
  let ?ch = "joinChannelName h b ?st"
  from True add_edges_ok[of b ?g ?st] obtain x where
    e: "add_edges ?st b ?g = (?g\<lparr>g_edges := x\<rparr>, None)" and
    ed: "\<And>a e. e \<in> set (graph_Edges (?g\<lparr>g_edges := x\<rparr>) a) \<Longrightarrow>
       e \<in> set (graph_Edges ?g a) \<or> (e_from e = a \<and> e_to e = b \<and> a \<in> set ?st)"
    by (auto simp: normalizeJoinStarts_props)
  let ?g2 = "set_expected ?ch ?st (graph_addChannel ?ch BehaviorBarrier (?g\<lparr>g_edges := x\<rparr>))"
  let ?g3 = "add_writers ?ch ?st (join_writer ?ch) (subscribe ?ch b ?g2)"
  have same: "writes ?g2 = writes ?g" "listens ?g2 = listens ?g" "ids_ok ?g2 = ids_ok ?g"
    by (simp_all add: graph_steps)
  have gr: "grows ?g ?g2" using same by (auto simp: grows_def)
  have pre: "ids_ok ?g2" "channels_exist ?g2" "conds_ok ?g2"
    using assms same grows_conds[OF gr] by (auto simp: graph_wf_def channels_exist_def)
  have w: "w_channel (join_writer ?ch a) = ?ch" for a by (simp add: join_writer_def)
  note wu = wire_up[OF pre, where b = b and ch = ?ch and w = "join_writer ?ch" and as = "?st"]
  have "edges_wired ?g3"
    unfolding edges_wired_def
  proof (intro allI ballI)
    fix a e
    assume "e \<in> set (graph_Edges ?g3 a)"
    moreover have "graph_Edges ?g3 = graph_Edges (?g\<lparr>g_edges := x\<rparr>)" by (simp add: graph_Edges_def fun_eq_iff)
    ultimately have "e \<in> set (graph_Edges ?g a) \<or> (e_from e = a \<and> e_to e = b \<and> a \<in> set ?st)"
      using ed by simp
    then show "e_from e = a \<and> edge_wired ?g3 a (e_to e)"
    proof
      assume old: "e \<in> set (graph_Edges ?g a)"
      have "grows ?g ?g3" using gr wu(4) True w by (auto intro: grows_trans)
      with old assms show ?thesis by (auto simp: graph_wf_def edges_wired_def grows_edge)
    next
      assume "e_from e = a \<and> e_to e = b \<and> a \<in> set ?st"
      with wu(5)[of a] True w show ?thesis by auto
    qed
  qed
  then have "graph_wf ?g3" using wu(1-3) True w by (simp add: graph_wf_def)
  moreover have "sg_graph (AddJoinEdge h as b sg) = ?g3"
    using AddJoinEdge_cases[OF _ _ _ _ _ e refl, of h] True by simp
  ultimately show ?thesis by simp
qed

lemma node_upd_simps [simp]:
  "nodes (g\<lparr>g_nodes := gput n nd m\<rparr>) = insert n (keyset m)"
  "triggered_by (g\<lparr>g_nodes := m\<rparr>) = triggered_by g"
  "writes (g\<lparr>g_nodes := gput n nd (g_nodes g)\<rparr>) x = (if x = n then w_channel ` set (nd_writers nd) else writes g x)"
  "listens (g\<lparr>g_nodes := gput n nd (g_nodes g)\<rparr>) x = (if x = n then set (nd_triggers nd) else listens g x)"
  by (simp_all add: triggered_by_def writes_def listens_def fun_eq_iff)

lemma options_keep:
  "nd_id (fold (\<lambda>opt nd. opt nd) (map apply_option opts) nd) = nd_id nd
   \<and> nd_writers (fold (\<lambda>opt nd. opt nd) (map apply_option opts) nd) = nd_writers nd
   \<and> nd_triggers (fold (\<lambda>opt nd. opt nd) (map apply_option opts) nd) = nd_triggers nd"
proof (induction opts arbitrary: nd)
  case (Cons opt opts)
  have "nd_id (apply_option opt nd) = nd_id nd" "nd_writers (apply_option opt nd) = nd_writers nd"
    "nd_triggers (apply_option opt nd) = nd_triggers nd"
    by (cases opt; simp add: WithName_def WithNodeType_def WithDestinations_def WithEndsMap_def WithEnds_def)+
  with Cons show ?case by simp
qed simp

lemma AddNode_wf:
  assumes "graph_wf (sg_graph sg)"
  shows "graph_wf (sg_graph (AddNode n f (map apply_option opts) sg))"
proof -
  let ?g = "sg_graph sg"
  let ?nd = "(fold (\<lambda>opt nd. opt nd) (map apply_option opts) (new_node n f))\<lparr>nd_function := Some f\<rparr>"
  have nd: "nd_id ?nd = n" "nd_writers ?nd = []" "nd_triggers ?nd = []"
    using options_keep[of opts "new_node n f"] by (simp_all add: new_node_def)
  show ?thesis
  proof (cases "n = [] \<or> n \<in> nodes ?g")
    case True
    with nd assms show ?thesis by (auto simp: AddNode_def Let_def addNode_def ghas_keyset addBuildError_def)
  next
    case False
    let ?g1 = "?g\<lparr>g_nodes := gput n ?nd (g_nodes ?g)\<rparr>"
    let ?g2 = "addNodeTriggerChannel n (triggerChannel n) (graph_addChannel (triggerChannel n) BehaviorLastValue ?g1)"
    have none: "gget (g_nodes ?g) n = None" using False by (simp add: keyset_get)
    then have empty: "writes ?g n = {}" "listens ?g n = {}" by (simp_all add: writes_def listens_def)
    have same: "writes ?g2 = writes ?g1" "listens ?g2 x = (if x = n then {triggerChannel n} else listens ?g1 x)"
      "ids_ok ?g2 = ids_ok ?g1" for x
      using nd by (auto simp: graph_steps)
    have gr: "grows ?g ?g2" using nd empty same by (auto simp: grows_def)
    have "ids_ok ?g2" using assms same nd by (auto simp: graph_wf_def ids_ok_def)
    moreover have "channels_exist ?g2"
      using assms same nd by (auto simp: graph_wf_def channels_exist_def)
    moreover have "edges_wired ?g2" "conds_ok ?g2"
      using grows_edges[OF gr] grows_conds[OF gr] assms by (simp_all add: graph_wf_def)
    moreover have "sg_graph (AddNode n f (map apply_option opts) sg) = ?g2"
      using nd False by (simp add: AddNode_def Let_def addNode_def ghas_keyset)
    ultimately show ?thesis by (simp add: graph_wf_def)
  qed
qed


lemma cond_upd_simps [simp]:
  "writes (g\<lparr>g_cond := c\<rparr>) = writes g" "listens (g\<lparr>g_cond := c\<rparr>) = listens g"
  "ids_ok (g\<lparr>g_cond := c\<rparr>) = ids_ok g" "triggered_by (g\<lparr>g_cond := c\<rparr>) = triggered_by g"
  "writes (g\<lparr>g_entry := n\<rparr>) = writes g" "listens (g\<lparr>g_entry := n\<rparr>) = listens g"
  "ids_ok (g\<lparr>g_entry := n\<rparr>) = ids_ok g" "triggered_by (g\<lparr>g_entry := n\<rparr>) = triggered_by g"
  "graph_Edges (g\<lparr>g_cond := c\<rparr>) = graph_Edges g" "graph_Edges (g\<lparr>g_entry := n\<rparr>) = graph_Edges g"
  by (simp_all add: writes_def listens_def ids_ok_def triggered_by_def graph_Edges_def fun_eq_iff)

lemma add_cond_wf: "graph_wf (sg_graph sg) \<Longrightarrow> graph_wf (sg_graph (add_cond c sg))"
proof -
  let ?g = "sg_graph sg"
  assume wf: "graph_wf ?g"
  obtain g' err where ae: "addConditionalEdge c ?g = (g', err)" by fastforce
  show ?thesis
  proof (cases err)
    case (Some e)
    with ae have "g' = ?g" by (auto simp: addConditionalEdge_def split: if_splits option.splits)
    with wf Some ae show ?thesis by (simp add: add_cond_def addBuildError_def)
  next
    case None
    with ae have c: "ce_condition c \<noteq> None" "ce_from c \<in> insert Start (nodes ?g)"
      and t: "snd ` set (ce_path_map c) \<subseteq> insert End (nodes ?g)"
      and g': "g' = ?g\<lparr>g_cond := gput (ce_from c) c (g_cond ?g)\<rparr>"
      by (auto simp: addConditionalEdge_def ghas_keyset find_None_iff split: if_splits option.splits)
    let ?g2 = "?g\<lparr>g_cond := gput (ce_from c) c (g_cond ?g)\<rparr>"
    have gr: "grows ?g ?g2" by (simp add: grows_def)
    have "edges_wired ?g2" using wf by (intro grows_edges[OF gr]) (simp_all add: graph_wf_def)
    moreover have "conds_ok ?g2" using wf c t by (auto simp: graph_wf_def conds_ok_def)
    moreover have "ids_ok ?g2" "channels_exist ?g2" using wf by (simp_all add: graph_wf_def channels_exist_def)
    moreover have "sg_graph (add_cond c sg) = ?g2"
      using None g' ae by (simp add: add_cond_def)
    ultimately show ?thesis by (simp add: graph_wf_def)
  qed
qed

lemma entry_wf: "graph_wf g \<Longrightarrow> graph_wf (g\<lparr>g_entry := n\<rparr>)"
proof -
  assume wf: "graph_wf g"
  have gr: "grows g (g\<lparr>g_entry := n\<rparr>)" by (simp add: grows_def)
  show ?thesis
    using wf grows_edges[OF gr] grows_conds[OF gr] by (simp add: graph_wf_def channels_exist_def)
qed

lemma SetEntryPoint_wf: "graph_wf (sg_graph sg) \<Longrightarrow> graph_wf (sg_graph (SetEntryPoint n sg))"
  by (auto simp: SetEntryPoint_def setEntryPoint_def addBuildError_def intro!: AddEdge_wf entry_wf)

lemma interrupt_wf: "graph_wf (sg_graph sg) \<Longrightarrow> graph_wf (sg_graph (setStaticInterruptNodes isBefore ns sg))"
proof (induction ns arbitrary: sg)
  case (Cons n ns)
  let ?f = "\<lambda>nd. if isBefore then nd\<lparr>nd_interrupt_before := True\<rparr> else nd\<lparr>nd_interrupt_after := True\<rparr>"
  let ?g = "sg_graph sg"
  let ?g2 = "update_node n ?f ?g"
  have same: "writes ?g2 = writes ?g" "listens ?g2 = listens ?g" "ids_ok ?g2 = ids_ok ?g"
    by (auto simp: update_node_def writes_def listens_def ids_ok_def fun_eq_iff split: option.splits)
  have gr: "grows ?g ?g2" using same by (simp add: grows_def)
  have "graph_wf ?g2"
    using Cons.prems same grows_edges[OF gr] grows_conds[OF gr] by (simp add: graph_wf_def channels_exist_def)
  with Cons show ?case by (simp add: addBuildError_def)
qed simp

lemma New_wf: "graph_wf (graph_New s)"
  by (simp add: graph_wf_def ids_ok_def channels_exist_def edges_wired_def conds_ok_def graph_New_def
      writes_def listens_def triggered_by_def graph_Edges_def)

lemma run_op_wf: "graph_wf (sg_graph sg) \<Longrightarrow> graph_wf (sg_graph (run_op h x sg))"
  by (cases x)
    (simp_all add: AddNode_wf AddEdge_wf AddJoinEdge_wf add_cond_wf AddToolsConditionalEdges_def
      SetEntryPoint_wf SetFinishPoint_def interrupt_wf)

lemma run_ops_wf: "graph_wf (sg_graph (fold (run_op h) ops sg))" if "graph_wf (sg_graph sg)"
  using that by (induction ops arbitrary: sg) (simp_all add: run_op_wf)

text \<open>
  C18. Whatever the user calls on the builder, in whatever order, the graph \<open>Compile\<close> hands out is
  sound: every edge leads between existing nodes and is backed by an existing channel that its source
  writes and that triggers its target, every conditional edge has a condition and existing targets,
  no node writes or waits for a channel that does not exist, and the entry point exists.
\<close>

theorem compiled_graph_sound:
  assumes "Compile (run_ops h s ops) = Inl g"
  shows "graph_wf g \<and> g_entry g \<in> nodes g"
proof -
  have "g = sg_graph (run_ops h s ops)" "validate g = None"
    using assms by (auto simp: Compile_def split: if_splits option.splits)
  then show ?thesis
    using run_ops_wf[of "NewStateGraph s" h ops] New_wf
    by (auto simp: run_ops_def NewStateGraph_def validate_def ghas_keyset split: if_splits)
qed

definition sample_ops :: "build_op list" where
  "sample_ops = [BNode ''a'' (\<lambda>k st. (st, Return (NRNil, None))) [OptEndsMap [(''ok'', ''c'')]], BNode ''b'' (\<lambda>k st. (st, Return (NRNil, None))) [],
     BNode ''c'' (\<lambda>k st. (st, Return (NRNil, None))) [], BEntry ''a'', BEdge ''a'' ''b'', BJoin [''b'', ''a''] ''c'', BFinish ''c'']"

theorem compiled_graph_sound_witness:
  "g_entry (sg_graph (run_ops (\<lambda>s. ''00'') None sample_ops))
     \<in> nodes (sg_graph (run_ops (\<lambda>s. ''00'') None sample_ops))"
proof -
  let ?sg = "run_ops (\<lambda>s. ''00'') None sample_ops"
  have "sg_errors ?sg = [] \<and> validate (sg_graph ?sg) = None" by code_simp
  then have "Compile ?sg = Inl (sg_graph ?sg)" by (simp add: Compile_def)
  from compiled_graph_sound[OF this] show ?thesis by simp
qed

section \<open>Join channels do not clash\<close>

lemma length_be_bytes [simp]: "length (be_bytes k n) = k"
  by (induction k arbitrary: n) auto

lemma be_bytes_inj: "n < 256 ^ k \<Longrightarrow> m < 256 ^ k \<Longrightarrow> be_bytes k n = be_bytes k m \<Longrightarrow> n = m"
proof (induction k arbitrary: n m)
  case (Suc k)
  have "n div 256 = m div 256"
    using Suc.prems by (intro Suc.IH) (simp_all add: less_mult_imp_div_less mult.commute)
  moreover have "n mod 256 = m mod 256" using Suc.prems(3) by simp
  ultimately show ?case by (metis div_mult_mod_eq)
qed simp

lemma be64_inj: "n < 2 ^ 64 \<Longrightarrow> m < 2 ^ 64 \<Longrightarrow> be64 n = be64 m \<Longrightarrow> n = m"
  using be_bytes_inj[of n 8 m] by (simp add: be64_def)

lemma length_be64 [simp]: "length (be64 n) = 8"
  by (simp add: be64_def)

lemma be64_not_nil [simp]: "be64 n \<noteq> []"
  using length_be64[of n] by force

lemma join_preimage_inj:
  "\<forall>s \<in> set xs. length s < 2 ^ 64 \<Longrightarrow> \<forall>s \<in> set ys. length s < 2 ^ 64 \<Longrightarrow>
     join_preimage xs = join_preimage ys \<Longrightarrow> xs = ys"
proof (induction xs arbitrary: ys)
  case Nil
  then show ?case by (cases ys) (auto simp: join_preimage_def)
next
  case (Cons x xs)
  obtain y ys' where ys: "ys = y # ys'"
    using Cons.prems(3) by (cases ys) (auto simp: join_preimage_def)
  have "be64 (length x) @ x @ join_preimage xs = be64 (length y) @ y @ join_preimage ys'"
    using Cons.prems(3) ys by (simp add: join_preimage_def)
  from iffD1[OF append_eq_append_conv[OF disjI1] this]
  have "be64 (length x) = be64 (length y)" and rest: "x @ join_preimage xs = y @ join_preimage ys'"
    using length_be64 by metis+
  then have "length x = length y" using Cons.prems(1,2) ys by (intro be64_inj) auto
  with rest have "x = y" "join_preimage xs = join_preimage ys'" by simp_all
  moreover have "xs = ys'" using Cons.prems ys calculation(2) by (intro Cons.IH) simp_all
  ultimately show ?case using ys by simp
qed

text \<open>
  Two joins share a channel only when they are the same join: with a hash that has a fixed length
  and does not collide on the two sender lists, equal join channel names mean equal targets and equal
  senders.  (The length prefixes make the hashed text unambiguous.)
\<close>

theorem join_channel_name_injective:
  assumes "\<And>x. length (h x) = 64"
    "h (join_preimage s1) = h (join_preimage s2) \<Longrightarrow> join_preimage s1 = join_preimage s2"
    "list_all (\<lambda>s. length s < 2 ^ 64) (s1 @ s2)"
    "joinChannelName h t1 s1 = joinChannelName h t2 s2"
  shows "t1 = t2 \<and> s1 = s2"
proof -
  have eq: "(t1 @ '':from:'') @ joinKeyForStarts h s1 = (t2 @ '':from:'') @ joinKeyForStarts h s2"
    using assms(4) by (simp add: joinChannelName_def)
  have len: "length (joinKeyForStarts h s1) = length (joinKeyForStarts h s2)"
    by (simp add: joinKeyForStarts_def assms(1))
  note eqs = iffD1[OF append_eq_append_conv[OF disjI2[OF len]] eq]
  have t: "t1 @ '':from:'' = t2 @ '':from:''" by (rule conjunct1[OF eqs])
  have k: "joinKeyForStarts h s1 = joinKeyForStarts h s2" by (rule conjunct2[OF eqs])
  have "t1 = t2" using t by simp
  moreover have "s1 = s2"
  proof (rule join_preimage_inj)
    show "join_preimage s1 = join_preimage s2" by (rule assms(2)[OF k[unfolded joinKeyForStarts_def]])
  qed (use assms(3) in \<open>auto simp: list_all_iff\<close>)
  ultimately show ?thesis by simp
qed

theorem join_channel_name_injective_witness:
  "joinChannelName (\<lambda>x. take 64 (x @ replicate 64 CHR ''0'')) ''c'' [''a'', ''b'']
   \<noteq> joinChannelName (\<lambda>x. take 64 (x @ replicate 64 CHR ''0'')) ''c'' [''ab'']"
proof
  let ?h = "\<lambda>x :: string. take 64 (x @ replicate 64 CHR ''0'')"
  assume eq: "joinChannelName ?h ''c'' [''a'', ''b''] = joinChannelName ?h ''c'' [''ab'']"
  have "join_preimage [''a'', ''b''] = be64 1 @ ''a'' @ be64 1 @ ''b''" "join_preimage [''ab''] = be64 2 @ ''ab''"
    by (simp_all add: join_preimage_def numeral_2_eq_2)
  then have "take 8 (?h (join_preimage [''a'', ''b''])) = be64 1" "take 8 (?h (join_preimage [''ab''])) = be64 2"
    by (simp_all add: min_def)
  moreover have "be64 1 \<noteq> be64 2" using be64_inj[of 1 2] by auto
  ultimately have ne: "?h (join_preimage [''a'', ''b'']) \<noteq> ?h (join_preimage [''ab''])" by metis
  have "''c'' = ''c'' \<and> [''a'', ''b''] = [''ab'']"
  proof (rule join_channel_name_injective[of ?h])
    show "length (?h x) = 64" for x by simp
    show "?h (join_preimage [''a'', ''b'']) = ?h (join_preimage [''ab'']) \<Longrightarrow>
        join_preimage [''a'', ''b''] = join_preimage [''ab'']" using ne by blast
  qed (use eq in simp_all)
  then show False by simp
qed

end
