(* ===== verification/Checkpoint_Data.thy ===== *)
theory Checkpoint_Data
  imports Go_Values Graph_Core
begin

text \<open>
  \<open>graph/checkpoint.go\<close>, the data: checkpoints, their metadata, configurations and filters, the copy
  and the fork, and the interrupt state.  Time stamps are integers, with the zero \<open>time.Time\<close> as 0;
  the clock and the generator of UUIDs are arguments.  Nil and empty string slices are not told
  apart where the code only asks for their length.
\<close>

section \<open>Checkpoints\<close>

definition CheckpointVersion :: int where "CheckpointVersion = 1"
definition DefaultChannelVersion :: int where "DefaultChannelVersion = 1"
definition DefaultMaxCheckpointsPerLineage :: int where "DefaultMaxCheckpointsPerLineage = 100"

definition CheckpointSourceInput :: string where "CheckpointSourceInput = ''input''"
definition CheckpointSourceLoop :: string where "CheckpointSourceLoop = ''loop''"
definition CheckpointSourceUpdate :: string where "CheckpointSourceUpdate = ''update''"
definition CheckpointSourceFork :: string where "CheckpointSourceFork = ''fork''"
definition CheckpointSourceInterrupt :: string where "CheckpointSourceInterrupt = ''interrupt''"

definition InterruptChannel :: string where "InterruptChannel = ''__interrupt__''"
definition ResumeChannel :: string where "ResumeChannel = ''__resume__''"
definition ErrorChannel :: string where "ErrorChannel = ''__error__''"

record interrupt_state =
  is_node_id :: string
  is_task_id :: string
  is_value :: gval
  is_resume_values :: "gval list"
  is_step :: int
  is_path :: "string list"

record pending_send =
  ps_channel :: string
  ps_value :: gval
  ps_task_id :: string

record pending_write =
  pw_task_id :: string
  pw_channel :: string
  pw_value :: gval
  pw_sequence :: int

type_synonym versions = "(string, int) gomap"

record checkpoint =
  ck_version :: int
  ck_id :: string
  ck_timestamp :: int
  ck_channel_values :: "state option"
  ck_channel_versions :: versions
  ck_barrier_sets :: "(string, string list) gomap"
  ck_versions_seen :: "(string, versions) gomap"
  ck_parent :: string
  ck_updated_channels :: "string list"
  ck_pending_sends :: "pending_send list"
  ck_interrupt :: "interrupt_state option"
  ck_next_nodes :: "string list"
  ck_next_channels :: "string list"

record checkpoint_metadata =
  md_source :: string
  md_step :: int
  md_parents :: "(string, string) gomap"
  md_extra :: "state option"
  md_is_resuming :: bool

type_synonym config = state

record checkpoint_tuple =
  tp_config :: config
  tp_checkpoint :: checkpoint
  tp_metadata :: "checkpoint_metadata option"
  tp_parent_config :: "config option"
  tp_pending_writes :: "pending_write list"

record put_request =
  pr_config :: config
  pr_checkpoint :: "checkpoint option"
  pr_metadata :: "checkpoint_metadata option"
  pr_new_versions :: versions

record put_writes_request =
  pwr_config :: config
  pwr_writes :: "pending_write list"
  pwr_task_id :: string
  pwr_task_path :: string

record put_full_request =
  pf_config :: config
  pf_checkpoint :: "checkpoint option"
  pf_metadata :: "checkpoint_metadata option"
  pf_new_versions :: versions
  pf_pending_writes :: "pending_write list"

record checkpoint_filter =
  cf_before :: "config option"
  cf_limit :: int
  cf_metadata :: state

definition NewCheckpoint ::
    "string \<Rightarrow> int \<Rightarrow> state option \<Rightarrow> versions \<Rightarrow> (string, versions) gomap \<Rightarrow> checkpoint" where
  "NewCheckpoint uuid now values vers seen =
     \<lparr>ck_version = CheckpointVersion, ck_id = uuid, ck_timestamp = now,
      ck_channel_values = Some (case values of None \<Rightarrow> [] | Some m \<Rightarrow> m),
      ck_channel_versions = vers, ck_barrier_sets = [], ck_versions_seen = seen, ck_parent = [],
      ck_updated_channels = [], ck_pending_sends = [], ck_interrupt = None, ck_next_nodes = [],
      ck_next_channels = []\<rparr>"

definition NewCheckpointMetadata :: "string \<Rightarrow> int \<Rightarrow> checkpoint_metadata" where
  "NewCheckpointMetadata source step =
     \<lparr>md_source = source, md_step = step, md_parents = [], md_extra = Some [], md_is_resuming = False\<rparr>"

section \<open>Configurations\<close>

definition CfgKeyConfigurable :: string where "CfgKeyConfigurable = ''configurable''"
definition CfgKeyLineageID :: string where "CfgKeyLineageID = ''lineage_id''"
definition CfgKeyCheckpointID :: string where "CfgKeyCheckpointID = ''checkpoint_id''"
definition CfgKeyCheckpointNS :: string where "CfgKeyCheckpointNS = ''checkpoint_ns''"
definition CfgKeyResumeMap :: string where "CfgKeyResumeMap = ''resume_map''"
definition DefaultCheckpointNamespace :: string where "DefaultCheckpointNamespace = []"

lemmas cfg_keys = CfgKeyConfigurable_def CfgKeyLineageID_def CfgKeyCheckpointID_def
  CfgKeyCheckpointNS_def CfgKeyResumeMap_def DefaultCheckpointNamespace_def

record checkpoint_config =
  cc_lineage :: string
  cc_checkpoint :: string
  cc_namespace :: string
  cc_resume_map :: state
  cc_extra :: state

definition NewCheckpointConfig :: "string \<Rightarrow> checkpoint_config run" where
  "NewCheckpointConfig lineage =
     (if lineage = [] then Panic
      else Return \<lparr>cc_lineage = lineage, cc_checkpoint = [], cc_namespace = DefaultCheckpointNamespace,
                   cc_resume_map = [], cc_extra = []\<rparr>)"

definition WithCheckpointID :: "string \<Rightarrow> checkpoint_config \<Rightarrow> checkpoint_config" where
  "WithCheckpointID x c = c\<lparr>cc_checkpoint := x\<rparr>"

definition WithNamespace :: "string \<Rightarrow> checkpoint_config \<Rightarrow> checkpoint_config" where
  "WithNamespace x c = c\<lparr>cc_namespace := x\<rparr>"

definition WithResumeMap :: "state \<Rightarrow> checkpoint_config \<Rightarrow> checkpoint_config" where
  "WithResumeMap x c = c\<lparr>cc_resume_map := x\<rparr>"

definition WithExtra :: "string \<Rightarrow> gval \<Rightarrow> checkpoint_config \<Rightarrow> checkpoint_config" where
  "WithExtra k v c = c\<lparr>cc_extra := gput k v (cc_extra c)\<rparr>"

definition ToMap :: "checkpoint_config \<Rightarrow> config" where
  "ToMap c =
     (let inner = [(CfgKeyLineageID, VStr (cc_lineage c))];
          inner = (if cc_checkpoint c \<noteq> [] then gput CfgKeyCheckpointID (VStr (cc_checkpoint c)) inner else inner);
          inner = gput CfgKeyCheckpointNS (VStr (cc_namespace c)) inner;
          inner = (if cc_resume_map c \<noteq> [] then gput CfgKeyResumeMap (VMap (Some (cc_resume_map c))) inner else inner)
      in gcopy_into [(CfgKeyConfigurable, VMap (Some inner))] (cc_extra c))"

definition NewCheckpointFilter :: checkpoint_filter where
  "NewCheckpointFilter = \<lparr>cf_before = None, cf_limit = 0, cf_metadata = []\<rparr>"

definition WithBefore :: "config option \<Rightarrow> checkpoint_filter \<Rightarrow> checkpoint_filter" where
  "WithBefore b f = f\<lparr>cf_before := b\<rparr>"

definition WithLimit :: "int \<Rightarrow> checkpoint_filter \<Rightarrow> checkpoint_filter" where
  "WithLimit n f = f\<lparr>cf_limit := n\<rparr>"

definition WithMetadata :: "string \<Rightarrow> gval \<Rightarrow> checkpoint_filter \<Rightarrow> checkpoint_filter" where
  "WithMetadata k v f = f\<lparr>cf_metadata := gput k v (cf_metadata f)\<rparr>"

text \<open>\<open>configurable[key].(string)\<close> of \<open>config["configurable"].(map[string]any)\<close>, or \<open>""\<close>.\<close>

definition configurable_string :: "string \<Rightarrow> config \<Rightarrow> string" where
  "configurable_string key config =
     (case gget config CfgKeyConfigurable of
        Some (VMap m) \<Rightarrow> (case gget (elems m) key of Some (VStr s) \<Rightarrow> s | _ \<Rightarrow> [])
      | _ \<Rightarrow> [])"

definition GetCheckpointID :: "config \<Rightarrow> string" where
  "GetCheckpointID config = configurable_string CfgKeyCheckpointID config"

definition GetLineageID :: "config \<Rightarrow> string" where
  "GetLineageID config = configurable_string CfgKeyLineageID config"

definition GetNamespace :: "config \<Rightarrow> string" where
  "GetNamespace config = configurable_string CfgKeyCheckpointNS config"

definition GetResumeMap :: "config \<Rightarrow> state option" where
  "GetResumeMap config =
     (case gget config CfgKeyConfigurable of
        Some (VMap m) \<Rightarrow> (case gget (elems m) CfgKeyResumeMap of Some (VMap r) \<Rightarrow> r | _ \<Rightarrow> None)
      | _ \<Rightarrow> None)"

definition CreateCheckpointConfig :: "string \<Rightarrow> string \<Rightarrow> string \<Rightarrow> config run" where
  "CreateCheckpointConfig lineage checkpointID namespace =
     (if lineage = [] then Panic
      else let namespace = (if namespace = [] then DefaultCheckpointNamespace else namespace)
        in run_bind (NewCheckpointConfig lineage) (\<lambda>c.
             let c = (if checkpointID \<noteq> [] then WithCheckpointID checkpointID c else c)
             in Return (ToMap (WithNamespace namespace c))))"

section \<open>Copies\<close>

definition copy_send :: "pending_send \<Rightarrow> pending_send" where
  "copy_send s = s\<lparr>ps_value := deepCopy (ps_value s)\<rparr>"

definition Copy :: "checkpoint \<Rightarrow> checkpoint" where
  "Copy c =
     \<lparr>ck_version = ck_version c, ck_id = ck_id c, ck_timestamp = ck_timestamp c,
      ck_channel_values = deepCopyMap (ck_channel_values c),
      ck_channel_versions = ck_channel_versions c, ck_barrier_sets = ck_barrier_sets c,
      ck_versions_seen = ck_versions_seen c, ck_parent = ck_parent c,
      ck_updated_channels = ck_updated_channels c,
      ck_pending_sends = map copy_send (ck_pending_sends c),
      ck_interrupt = ck_interrupt c, ck_next_nodes = ck_next_nodes c,
      ck_next_channels = ck_next_channels c\<rparr>"

definition Fork :: "string \<Rightarrow> int \<Rightarrow> checkpoint \<Rightarrow> checkpoint" where
  "Fork uuid now c = (Copy c)\<lparr>ck_parent := ck_id c, ck_id := uuid, ck_timestamp := now\<rparr>"

section \<open>The interrupt state\<close>

definition IsInterrupted :: "checkpoint \<Rightarrow> bool" where
  "IsInterrupted c = (case ck_interrupt c of None \<Rightarrow> False | Some s \<Rightarrow> is_node_id s \<noteq> [])"

definition GetInterruptValue :: "checkpoint \<Rightarrow> gval" where
  "GetInterruptValue c =
     (if IsInterrupted c then (case ck_interrupt c of None \<Rightarrow> VNil | Some s \<Rightarrow> is_value s) else VNil)"

definition GetResumeValues :: "checkpoint \<Rightarrow> gval list" where
  "GetResumeValues c =
     (if IsInterrupted c then (case ck_interrupt c of None \<Rightarrow> [] | Some s \<Rightarrow> is_resume_values s) else [])"

definition zero_interrupt :: interrupt_state where
  "zero_interrupt = \<lparr>is_node_id = [], is_task_id = [], is_value = VNil, is_resume_values = [],
     is_step = 0, is_path = []\<rparr>"

definition AddResumeValue :: "gval \<Rightarrow> checkpoint \<Rightarrow> checkpoint" where
  "AddResumeValue v c =
     (let s = (case ck_interrupt c of None \<Rightarrow> zero_interrupt | Some s \<Rightarrow> s)
      in c\<lparr>ck_interrupt := Some (s\<lparr>is_resume_values := is_resume_values s @ [v]\<rparr>)\<rparr>)"

definition SetInterruptState ::
    "string \<Rightarrow> string \<Rightarrow> gval \<Rightarrow> int \<Rightarrow> string list \<Rightarrow> checkpoint \<Rightarrow> checkpoint" where
  "SetInterruptState nodeID taskID v step path c =
     c\<lparr>ck_interrupt := Some \<lparr>is_node_id = nodeID, is_task_id = taskID, is_value = v,
         is_resume_values = [], is_step = step, is_path = path\<rparr>\<rparr>"

definition ClearInterruptState :: "checkpoint \<Rightarrow> checkpoint" where
  "ClearInterruptState c = c\<lparr>ck_interrupt := None\<rparr>"

section \<open>Laws\<close>

lemma configurable_create:
  assumes "CreateCheckpointConfig l c n = Return cfg"
  shows "GetLineageID cfg = l \<and> GetCheckpointID cfg = c \<and> GetNamespace cfg = n \<and> GetResumeMap cfg = None \<and> l \<noteq> []"
  using assms
  by (auto simp: CreateCheckpointConfig_def NewCheckpointConfig_def Let_def ToMap_def WithCheckpointID_def
      WithNamespace_def GetLineageID_def GetCheckpointID_def GetNamespace_def GetResumeMap_def
      configurable_string_def elems_def cfg_keys split: if_splits)

lemma create_ok: "l \<noteq> [] \<Longrightarrow> \<exists>cfg. CreateCheckpointConfig l c n = Return cfg"
  by (auto simp: CreateCheckpointConfig_def NewCheckpointConfig_def Let_def)

text \<open>
  A configuration built from a lineage, a checkpoint ID and a namespace is read back as exactly
  these three by the accessors every saver uses; it is built if and only if the lineage is not empty
  (otherwise the constructor panics).
\<close>

theorem config_roundtrip:
  "case CreateCheckpointConfig l c n of
     Panic \<Rightarrow> l = []
   | Return cfg \<Rightarrow> l \<noteq> [] \<and> GetLineageID cfg = l \<and> GetCheckpointID cfg = c \<and> GetNamespace cfg = n
       \<and> GetResumeMap cfg = None"
  using configurable_create[of l c n] create_ok[of l c n] by (cases "CreateCheckpointConfig l c n") auto

lemma Copy_idem: "Copy (Copy c) = Copy c"
  by (simp add: Copy_def deepCopyMap_idem copy_send_def deepCopy_idem)

text \<open>
  \<open>Copy\<close> keeps everything of a checkpoint but its channel values and the values of its pending
  sends, which become their JSON images; and a copy of a copy is that copy, so what was read from a
  saver can be stored and read again without further change.
\<close>

theorem copy_keeps_control_data:
  "Copy c = c\<lparr>ck_channel_values := deepCopyMap (ck_channel_values c),
              ck_pending_sends := map copy_send (ck_pending_sends c)\<rparr>
   \<and> Copy (Copy c) = Copy c"
  using Copy_idem by (simp add: Copy_def)

text \<open>
  A resume value added to a checkpoint is read back in the order of the additions exactly when
  the checkpoint is interrupted; on any other checkpoint it is stored but never read.
\<close>

theorem resume_values_need_interrupt:
  "GetResumeValues (AddResumeValue v c) = (if IsInterrupted c then GetResumeValues c @ [v] else [])"
  by (auto simp: GetResumeValues_def AddResumeValue_def IsInterrupted_def zero_interrupt_def Let_def
      split: option.splits)

end
