(* ===== verification/Exec_Context.thy ===== *)
theory Exec_Context
  imports Graph_Builder Checkpoint_Data Message_Json
begin

text \<open>
  The execution context of \<open>graph/executor.go\<close> and \<open>graph/graph.go\<close>: tasks, the per-run channels built
  from the graph's, what a checkpoint restores into them, and the bookkeeping of execution traces.

  A task planned by channels holds the execution state itself, a shared map.  \<open>ec_planned\<close> tells
  what that map is: \<open>None\<close> while it still is the current state (a write to the one is seen by the
  other), \<open>Some st\<close> once a reducer has given the execution a new map and \<open>st\<close> is the old one.
  \<open>PlannedState\<close> is such an input; \<open>OwnState st\<close> is a map of the task's own.  Maps inside the state
  are values.  The locks make each operation below one atomic step; the events it emits are left out.
\<close>

section \<open>Tasks and contexts\<close>

datatype task_input = PlannedState | OwnState state

record task =
  tk_node_id :: string
  tk_input :: task_input
  tk_writes :: "writer list"
  tk_triggers :: "string list"
  tk_task_id :: string
  tk_task_path :: "string list"
  tk_overlay :: "state option"
  tk_predecessors :: "string list"

record exec_context =
  ec_channels :: channels
  ec_state :: state
  ec_planned :: "state option"
  ec_pending_writes :: "pending_write list"
  ec_resumed :: bool
  ec_seq :: int
  ec_pending_tasks :: "task list"
  ec_versions_seen :: "(string, versions) gomap"
  ec_last_checkpoint :: "checkpoint option"
  ec_trace_sources :: "(string, string list) gomap"
  ec_trace_source_steps :: "(string, int) gomap"
  ec_trace_barrier_sources :: "(string, (string, string) gomap) gomap"
  ec_trace_step_ids :: "(string, string) gomap"

definition StateKeyNextNodes :: string where "StateKeyNextNodes = ''__next_nodes__''"
definition StateKeyGraphInterruptInputs :: string where
  "StateKeyGraphInterruptInputs = ''__graph_interrupt_inputs__''"

section \<open>Initial state and channels\<close>

text \<open>\<open>reflect.Zero(t).Interface()\<close>.\<close>

fun zero_value :: "gotype \<Rightarrow> gval" where
  "zero_value TBool = VBool False"
| "zero_value TInt = VInt 0"
| "zero_value TNumber = VNum 0"
| "zero_value TString = VStr []"
| "zero_value TStrings = VStrs None"
| "zero_value TAnys = VAnys None"
| "zero_value TMapAny = VMap None"
| "zero_value TMapBool = VBoolMap None"
| "zero_value TMessage = VMsg zero_message"
| "zero_value TMessages = VMsgs None"
| "zero_value TMapMessages = VMsgMap None"
| "zero_value TAppendMessages = VOp (AppendMessages None)"
| "zero_value TReplaceLastUser = VOp (ReplaceLastUser [])"
| "zero_value TRemoveAllMessages = VOp RemoveAllMessages"
| "zero_value TMessageOps = VOps None"
| "zero_value TFunc = VFunc None"
| "zero_value TAny = VNil"
| "zero_value TMessageOp = VNil"

definition add_default :: "string \<times> state_field \<Rightarrow> state \<Rightarrow> state" where
  "add_default kf st =
     (if ghas st (fst kf) then st
      else case f_default (snd kf) of
          Some d \<Rightarrow> gput (fst kf) d st
        | None \<Rightarrow> (case f_type (snd kf) of None \<Rightarrow> st | Some t \<Rightarrow> gput (fst kf) (zero_value t) st))"

definition initializeState :: "graph \<Rightarrow> state \<Rightarrow> state" where
  "initializeState g initial = fold add_default (g_schema g) (Clone initial)"

definition update_channel :: "string \<Rightarrow> (channel \<Rightarrow> channel) \<Rightarrow> channels \<Rightarrow> channels" where
  "update_channel name f m =
     (case GetChannel m name of None \<Rightarrow> m | Some c \<Rightarrow> gput name (f c) m)"

fun add_run_channels :: "(string \<times> channel) list \<Rightarrow> channels \<Rightarrow> channels" where
  "add_run_channels [] m = m"
| "add_run_channels ((name, c) # rest) m =
     (let m = AddChannel name (ch_behavior c) m
      in add_run_channels rest
           (if ch_behavior c \<noteq> BehaviorBarrier then m
            else update_channel name (SetBarrierExpected (ch_barrier_expected c)) m))"

definition buildChannelManager :: "graph \<Rightarrow> channels" where
  "buildChannelManager g = add_run_channels (getAllChannels g) NewChannelManager"

definition restoreVersionsSeen :: "bool \<Rightarrow> checkpoint option \<Rightarrow> (string, versions) gomap" where
  "restoreVersionsSeen resumed lastCheckpoint =
     (case lastCheckpoint of
        None \<Rightarrow> []
      | Some c \<Rightarrow> if resumed then ck_versions_seen c else [])"

definition restoreChannelVersions :: "bool \<Rightarrow> checkpoint option \<Rightarrow> channels \<Rightarrow> channels" where
  "restoreChannelVersions resumed lastCheckpoint m =
     (case lastCheckpoint of
        None \<Rightarrow> m
      | Some c \<Rightarrow>
          (if \<not> resumed then m
           else fold (\<lambda>(name, v). update_channel name (\<lambda>ch. ch\<lparr>ch_version := v\<rparr>)) (ck_channel_versions c) m))"

definition restoreBarrierSets :: "bool \<Rightarrow> checkpoint option \<Rightarrow> channels \<Rightarrow> channels" where
  "restoreBarrierSets resumed lastCheckpoint m =
     (case lastCheckpoint of
        None \<Rightarrow> m
      | Some c \<Rightarrow>
          (if \<not> resumed then m
           else fold (\<lambda>(name, seen). update_channel name (SetBarrierSeen seen)) (ck_barrier_sets c) m))"

definition buildExecutionContext :: "graph \<Rightarrow> state \<Rightarrow> bool \<Rightarrow> checkpoint option \<Rightarrow> exec_context" where
  "buildExecutionContext g st resumed lastCheckpoint =
     \<lparr>ec_channels = restoreBarrierSets resumed lastCheckpoint (restoreChannelVersions resumed lastCheckpoint (buildChannelManager g)),
      ec_state = st, ec_planned = None, ec_pending_writes = [], ec_resumed = resumed, ec_seq = 0,
      ec_pending_tasks = [], ec_versions_seen = restoreVersionsSeen resumed lastCheckpoint,
      ec_last_checkpoint = lastCheckpoint, ec_trace_sources = [], ec_trace_source_steps = [],
      ec_trace_barrier_sources = [], ec_trace_step_ids = []\<rparr>"

definition ChannelInputPrefix :: string where "ChannelInputPrefix = ''input:''"

definition init_channel :: "bool \<Rightarrow> string \<times> gval \<Rightarrow> channels \<Rightarrow> channels" where
  "init_channel updateChannels kv m =
     (let name = ChannelInputPrefix @ fst kv;
          m = AddChannel name BehaviorLastValue m
      in if updateChannels then update_channel name (\<lambda>c. fst (Update [snd kv] StepUnmarked c)) m else m)"

definition initializeChannels :: "bool \<Rightarrow> state \<Rightarrow> exec_context \<Rightarrow> exec_context" where
  "initializeChannels updateChannels st ec = ec\<lparr>ec_channels := fold (init_channel updateChannels) st (ec_channels ec)\<rparr>"

definition apply_write :: "pending_write \<Rightarrow> channels \<Rightarrow> channels" where
  "apply_write w m = update_channel (pw_channel w) (\<lambda>c. fst (Update [pw_value w] StepUnmarked c)) m"

definition applyPendingWrites :: "pending_write list \<Rightarrow> exec_context \<Rightarrow> exec_context" where
  "applyPendingWrites pws ec =
     (if pws = [] then ec
      else ec\<lparr>ec_channels := fold apply_write (sort_key pw_sequence pws) (ec_channels ec)\<rparr>)"

section \<open>Merging the caller's state into a restored one\<close>

definition mergeInitialStateNonInternal :: "state \<Rightarrow> state \<Rightarrow> string list \<Rightarrow> state" where
  "mergeInitialStateNonInternal restored initial override =
     fold (\<lambda>(key, v) st.
             if take 1 key = ''_'' then st
             else if key \<in> set override then gput key v st
             else if ghas st key then st else gput key v st) initial restored"

definition applyExecutableNextNodes :: "state \<Rightarrow> checkpoint_tuple \<Rightarrow> state" where
  "applyExecutableNextNodes restored t =
     (if tp_pending_writes t \<noteq> [] \<or> ck_next_nodes (tp_checkpoint t) = [] then restored
      else if list_ex (\<lambda>n. n \<noteq> End \<and> n \<noteq> []) (ck_next_nodes (tp_checkpoint t))
      then gput StateKeyNextNodes (VStrs (Some (ck_next_nodes (tp_checkpoint t)))) restored
      else restored)"

section \<open>Saved inputs of interrupted tasks\<close>

text \<open>
  \<open>consumeGraphInterruptInput\<close>.  Of the four map types the code accepts, \<open>map[string]any\<close> holding
  states or slices of states is the one of the value type here; a state in an \<open>any\<close> is a \<open>VMap\<close>.
\<close>

definition stateFromAny :: "gval \<Rightarrow> state option" where
  "stateFromAny v = (case v of VMap (Some st) \<Rightarrow> Some st | _ \<Rightarrow> None)"

definition cleanupGraphInterruptInputs :: "state \<Rightarrow> state \<Rightarrow> state" where
  "cleanupGraphInterruptInputs st inputs =
     (if inputs = [] then gdel StateKeyGraphInterruptInputs st
      else gput StateKeyGraphInterruptInputs (VMap (Some inputs)) st)"

definition consumeGraphInterruptInputAny :: "state \<Rightarrow> state \<Rightarrow> string \<Rightarrow> (state \<times> state) option" where
  "consumeGraphInterruptInputAny st inputs nodeID =
     (case gget inputs nodeID of
        Some (VMap (Some v)) \<Rightarrow> Some (v, cleanupGraphInterruptInputs st (gdel nodeID inputs))
      | Some (VAnys (Some (x # xs))) \<Rightarrow>
          (case stateFromAny x of
             None \<Rightarrow> None
           | Some v \<Rightarrow> Some (v, cleanupGraphInterruptInputs st
                 (if xs = [] then gdel nodeID inputs else gput nodeID (VAnys (Some xs)) inputs)))
      | _ \<Rightarrow> None)"

definition consumeGraphInterruptInput :: "state \<Rightarrow> string \<Rightarrow> (state \<times> state) option" where
  "consumeGraphInterruptInput st nodeID =
     (if nodeID = [] then None
      else case gget st StateKeyGraphInterruptInputs of
          Some (VMap m) \<Rightarrow> consumeGraphInterruptInputAny st (elems m) nodeID
        | _ \<Rightarrow> None)"

section \<open>Execution traces\<close>

definition tracePredecessorsForChannels :: "exec_context \<Rightarrow> string list \<Rightarrow> string list" where
  "tracePredecessorsForChannels ec cns =
     dedup_seen [] (filter (\<lambda>s. s \<noteq> [])
       (concat (map (\<lambda>name.
          (case gget (ec_trace_barrier_sources ec) name of
             Some (b # bs) \<Rightarrow> map (\<lambda>k. case gget (b # bs) k of None \<Rightarrow> [] | Some s \<Rightarrow> s) (sort (gkeys (b # bs)))
           | _ \<Rightarrow> (case gget (ec_trace_sources ec) name of None \<Rightarrow> [] | Some ss \<Rightarrow> ss))) cns)))"

definition clearTraceChannelSources :: "string list \<Rightarrow> exec_context \<Rightarrow> exec_context" where
  "clearTraceChannelSources cns ec =
     ec\<lparr>ec_trace_sources := fold gdel cns (ec_trace_sources ec),
        ec_trace_source_steps := fold gdel cns (ec_trace_source_steps ec),
        ec_trace_barrier_sources := fold gdel cns (ec_trace_barrier_sources ec)\<rparr>"

definition append_source :: "string \<Rightarrow> string \<Rightarrow> exec_context \<Rightarrow> exec_context" where
  "append_source name stepID ec =
     ec\<lparr>ec_trace_sources := gput name ((case gget (ec_trace_sources ec) name of None \<Rightarrow> [] | Some ss \<Rightarrow> ss) @ [stepID])
          (ec_trace_sources ec)\<rparr>"

definition recordTraceChannelSource ::
    "string \<Rightarrow> string \<Rightarrow> string \<Rightarrow> int \<Rightarrow> exec_context \<Rightarrow> exec_context" where
  "recordTraceChannelSource name senderKey stepID step ec =
     (if name = [] \<or> stepID = [] then ec
      else case (case GetChannel (ec_channels ec) name of None \<Rightarrow> BehaviorTopic | Some c \<Rightarrow> ch_behavior c) of
          BehaviorBarrier \<Rightarrow>
            (if senderKey = [] then append_source name stepID ec
             else ec\<lparr>ec_trace_barrier_sources := gput name
                    (gput senderKey stepID (case gget (ec_trace_barrier_sources ec) name of None \<Rightarrow> [] | Some b \<Rightarrow> b))
                    (ec_trace_barrier_sources ec)\<rparr>)
        | BehaviorTopic \<Rightarrow> append_source name stepID ec
        | _ \<Rightarrow>
            (if gget (ec_trace_source_steps ec) name \<noteq> Some step
             then ec\<lparr>ec_trace_source_steps := gput name step (ec_trace_source_steps ec),
                     ec_trace_sources := gput name [stepID] (ec_trace_sources ec)\<rparr>
             else if stepID \<in> set (case gget (ec_trace_sources ec) name of None \<Rightarrow> [] | Some ss \<Rightarrow> ss) then ec
             else append_source name stepID ec))"

definition recordTraceStepID :: "string \<Rightarrow> string \<Rightarrow> exec_context \<Rightarrow> exec_context" where
  "recordTraceStepID taskID stepID ec =
     (if taskID = [] \<or> stepID = [] then ec
      else ec\<lparr>ec_trace_step_ids := gput taskID stepID (ec_trace_step_ids ec)\<rparr>)"

definition traceStepIDForTask :: "exec_context \<Rightarrow> string \<Rightarrow> string" where
  "traceStepIDForTask ec taskID =
     (if taskID = [] then [] else case gget (ec_trace_step_ids ec) taskID of None \<Rightarrow> [] | Some s \<Rightarrow> s)"

definition clearTraceStepID :: "string \<Rightarrow> exec_context \<Rightarrow> exec_context" where
  "clearTraceStepID taskID ec =
     (if taskID = [] then ec else ec\<lparr>ec_trace_step_ids := gdel taskID (ec_trace_step_ids ec)\<rparr>)"

end
