(* ===== verification/Planner.thy ===== *)
theory Planner
  imports Exec_Context
begin

text \<open>
  The planning phase of a step (\<open>graph/executor.go\<close>): which nodes the available channels trigger,
  the acknowledgement of those channels, and the tasks.  A resumed run compares channel versions
  with those each node had seen when the checkpoint was taken.
\<close>

section \<open>Tasks\<close>

definition createTaskWithPredecessors ::
    "graph \<Rightarrow> string \<Rightarrow> int \<Rightarrow> string list \<Rightarrow> exec_context \<Rightarrow> exec_context \<times> task option" where
  "createTaskWithPredecessors g nodeID step preds ec =
     (if nodeID = End then (ec, None)
      else case graph_Node g nodeID of
          None \<Rightarrow> (ec, None)
        | Some nd \<Rightarrow>
            (let (input, ec) = (case consumeGraphInterruptInput (ec_state ec) nodeID of
                   None \<Rightarrow> (PlannedState, ec)
                 | Some (override, st) \<Rightarrow> (OwnState override, ec\<lparr>ec_state := st\<rparr>))
             in (ec, Some \<lparr>tk_node_id = nodeID, tk_input = input, tk_writes = nd_writers nd,
                   tk_triggers = nd_triggers nd, tk_task_id = nodeID @ ''-'' @ show_int step,
                   tk_task_path = [nodeID], tk_overlay = None, tk_predecessors = preds\<rparr>)))"

fun create_tasks ::
    "graph \<Rightarrow> int \<Rightarrow> (string \<times> string list) list \<Rightarrow> exec_context \<Rightarrow> exec_context \<times> task list" where
  "create_tasks g step [] ec = (ec, [])"
| "create_tasks g step ((n, preds) # ns) ec =
     (let (ec, t) = createTaskWithPredecessors g n step preds ec;
          (ec, ts) = create_tasks g step ns ec
      in (ec, case t of None \<Rightarrow> ts | Some t \<Rightarrow> t # ts))"

type_synonym node_triggers = "(string, string list) gomap"

definition add_trigger :: "string \<Rightarrow> string \<Rightarrow> node_triggers \<Rightarrow> node_triggers" where
  "add_trigger ch n nt = gput n ((case gget nt n of None \<Rightarrow> [] | Some xs \<Rightarrow> xs) @ [ch]) nt"

definition createTriggeredTasks ::
    "graph \<Rightarrow> int \<Rightarrow> node_triggers \<Rightarrow> exec_context \<Rightarrow> exec_context \<times> task list" where
  "createTriggeredTasks g step nt ec =
     (if nt = [] then (ec, [])
      else create_tasks g step
             (map (\<lambda>n. (n, tracePredecessorsForChannels ec (case gget nt n of None \<Rightarrow> [] | Some xs \<Rightarrow> xs)))
                  (sort (gkeys nt))) ec)"

definition acknowledge_all :: "string list \<Rightarrow> exec_context \<Rightarrow> exec_context" where
  "acknowledge_all cns ec = ec\<lparr>ec_channels := fold (\<lambda>c. update_channel c Acknowledge) cns (ec_channels ec)\<rparr>"

section \<open>Planning by availability\<close>

definition schedulable :: "graph \<Rightarrow> string \<Rightarrow> bool" where
  "schedulable g n \<longleftrightarrow> n \<noteq> End \<and> graph_Node g n \<noteq> None"

fun scan_availability ::
    "graph \<Rightarrow> channels \<Rightarrow> string list \<Rightarrow> node_triggers \<Rightarrow> string list \<Rightarrow> node_triggers \<times> string list" where
  "scan_availability g chs [] nt av = (nt, av)"
| "scan_availability g chs (c # cs) nt av =
     (case GetChannel chs c of
        None \<Rightarrow> scan_availability g chs cs nt av
      | Some ch \<Rightarrow>
          (if \<not> IsAvailable ch then scan_availability g chs cs nt av
           else scan_availability g chs cs
                  (fold (add_trigger c) (filter (schedulable g)
                     (case gget (getTriggerToNodes g) c of None \<Rightarrow> [] | Some ns \<Rightarrow> ns)) nt)
                  (av @ [c])))"

definition planBasedOnAvailabilityTriggers :: "graph \<Rightarrow> int \<Rightarrow> exec_context \<Rightarrow> exec_context \<times> task list" where
  "planBasedOnAvailabilityTriggers g step ec =
     (let (nt, av) = scan_availability g (GetAllChannels (ec_channels ec)) (sort (gkeys (getTriggerToNodes g))) [] [];
          ec = acknowledge_all av ec;
          (ec, ts) = createTriggeredTasks g step nt ec
      in (clearTraceChannelSources av ec, ts))"

section \<open>Planning by versions\<close>

definition shouldTriggerNode :: "string \<Rightarrow> string \<Rightarrow> int \<Rightarrow> checkpoint \<Rightarrow> bool" where
  "shouldTriggerNode nodeID ch currentVersion c =
     (case gget (ck_versions_seen c) nodeID of
        None \<Rightarrow> True
      | Some vs \<Rightarrow> (case gget vs ch of None \<Rightarrow> True | Some seen \<Rightarrow> currentVersion > seen))"

fun scan_versions ::
    "graph \<Rightarrow> checkpoint \<Rightarrow> channels \<Rightarrow> string list \<Rightarrow> node_triggers \<Rightarrow> string list \<Rightarrow> node_triggers \<times> string list" where
  "scan_versions g ck chs [] nt av = (nt, av)"
| "scan_versions g ck chs (c # cs) nt av =
     (case GetChannel chs c of
        None \<Rightarrow> scan_versions g ck chs cs nt av
      | Some ch \<Rightarrow>
          (if \<not> IsAvailable ch then scan_versions g ck chs cs nt av
           else scan_versions g ck chs cs
                  (fold (add_trigger c)
                     (filter (\<lambda>n. ch_behavior ch = BehaviorBarrier \<or> shouldTriggerNode n c (ch_version ch) ck)
                        (case gget (getTriggerToNodes g) c of None \<Rightarrow> [] | Some ns \<Rightarrow> ns)) nt)
                  (av @ [c])))"

definition planBasedOnVersionTriggers :: "graph \<Rightarrow> checkpoint \<Rightarrow> int \<Rightarrow> exec_context \<Rightarrow> exec_context \<times> task list" where
  "planBasedOnVersionTriggers g ck step ec =
     (let chs = GetAllChannels (ec_channels ec);
          (nt, av) = scan_versions g ck chs (sort (gkeys chs)) [] [];
          ec = acknowledge_all av ec;
          (ec, ts) = createTriggeredTasks g step nt ec
      in (clearTraceChannelSources av ec, ts))"

definition planBasedOnChannelTriggers :: "graph \<Rightarrow> int \<Rightarrow> exec_context \<Rightarrow> exec_context \<times> task list" where
  "planBasedOnChannelTriggers g step ec =
     (case ec_last_checkpoint ec of
        Some ck \<Rightarrow> if ec_resumed ec then planBasedOnVersionTriggers g ck step ec
                   else planBasedOnAvailabilityTriggers g step ec
      | None \<Rightarrow> planBasedOnAvailabilityTriggers g step ec)"

section \<open>The plan of a step\<close>

text \<open>
  Planning hands the current state map to the tasks, so it starts by declaring it shared.  The trace
  predecessors of entry tasks come from the invocation and are an argument.
\<close>

definition planStep ::
    "graph \<Rightarrow> string list \<Rightarrow> int \<Rightarrow> exec_context \<Rightarrow> (exec_context \<times> task list) + graph_error" where
  "planStep g entryPredecessors step ec =
     (let ec = ec\<lparr>ec_planned := None\<rparr> in
      case gget (ec_state ec) StateKeyNextNodes of
        Some (VStrs (Some (n # ns))) \<Rightarrow>
          (let (ec, ts) = create_tasks g step (map (\<lambda>x. (x, entryPredecessors)) (n # ns)) ec
           in Inl (ec\<lparr>ec_state := gdel StateKeyNextNodes (ec_state ec)\<rparr>, ts))
      | _ \<Rightarrow>
          (if ec_pending_tasks ec \<noteq> [] then Inl (ec\<lparr>ec_pending_tasks := []\<rparr>, ec_pending_tasks ec)
           else if step = 0 then
             (if EntryPoint g = [] then Inr NoEntryPoint
              else let (ec, t) = createTaskWithPredecessors g (EntryPoint g) step entryPredecessors ec
                in Inl (ec, case t of None \<Rightarrow> [] | Some t \<Rightarrow> [t]))
           else Inl (planBasedOnChannelTriggers g step ec)))"

definition planTasksForBspStep ::
    "graph \<Rightarrow> string list \<Rightarrow> int \<Rightarrow> int \<Rightarrow> exec_context \<Rightarrow> (exec_context \<times> task list) + graph_error" where
  "planTasksForBspStep g entryPredecessors startStep step ec =
     (if step = 0 \<and> ec_resumed ec \<and> startStep > 0 then Inl (planBasedOnChannelTriggers g step (ec\<lparr>ec_planned := None\<rparr>))
      else planStep g entryPredecessors step ec)"

section \<open>What is planned\<close>

lemma update_channel_get [gomap_simps]:
  "gget (update_channel n f m) c = (if c = n then map_option f (gget m n) else gget m c)"
  by (auto simp: update_channel_def GetChannel_def split: option.splits)

lemma fold_update_channel_get:
  "distinct cs \<Longrightarrow> gget (fold (\<lambda>c. update_channel c f) cs m) c =
     (if c \<in> set cs then map_option f (gget m c) else gget m c)"
  by (induction cs arbitrary: m) (auto simp: update_channel_get)

text \<open>Both scans walk the channels and add what a channel selects; \<open>sel\<close> is that selection.\<close>

fun scan_channels ::
    "(string \<Rightarrow> channel \<Rightarrow> string list) \<Rightarrow> channels \<Rightarrow> string list \<Rightarrow> node_triggers \<Rightarrow> string list \<Rightarrow> node_triggers \<times> string list" where
  "scan_channels sel chs [] nt av = (nt, av)"
| "scan_channels sel chs (c # cs) nt av =
     (case gget chs c of
        None \<Rightarrow> scan_channels sel chs cs nt av
      | Some ch \<Rightarrow> if \<not> IsAvailable ch then scan_channels sel chs cs nt av
                  else scan_channels sel chs cs (fold (add_trigger c) (sel c ch) nt) (av @ [c]))"

definition subscribers :: "graph \<Rightarrow> string \<Rightarrow> string list" where
  "subscribers g c = (case gget (getTriggerToNodes g) c of None \<Rightarrow> [] | Some ns \<Rightarrow> ns)"

lemma scan_availability_eq:
  "scan_availability g chs cs nt av = scan_channels (\<lambda>c ch. filter (schedulable g) (subscribers g c)) chs cs nt av"
  by (induction g chs cs nt av rule: scan_availability.induct)
     (auto simp: subscribers_def GetChannel_def split: option.splits)

lemma scan_versions_eq:
  "scan_versions g ck chs cs nt av = scan_channels (\<lambda>c ch. filter (\<lambda>n. ch_behavior ch = BehaviorBarrier
       \<or> shouldTriggerNode n c (ch_version ch) ck) (subscribers g c)) chs cs nt av"
  by (induction g ck chs cs nt av rule: scan_versions.induct)
     (auto simp: subscribers_def GetChannel_def split: option.splits)

definition available_in :: "channels \<Rightarrow> string \<Rightarrow> bool" where
  "available_in chs c \<longleftrightarrow> (case gget chs c of None \<Rightarrow> False | Some ch \<Rightarrow> IsAvailable ch)"

lemma keyset_add_trigger [simp]: "keyset (add_trigger c n nt) = insert n (keyset nt)"
  by (simp add: add_trigger_def)

lemma keyset_fold_add_trigger [simp]: "keyset (fold (add_trigger c) ns nt) = set ns \<union> keyset nt"
  by (induction ns arbitrary: nt) auto

lemma wk_fold_add_trigger [simp, intro]: "well_keyed nt \<Longrightarrow> well_keyed (fold (add_trigger c) ns nt)"
  by (induction ns arbitrary: nt) (auto simp: add_trigger_def)

lemma scan_channels_props:
  "snd (scan_channels sel chs cs nt av) = av @ filter (available_in chs) cs
   \<and> keyset (fst (scan_channels sel chs cs nt av))
       = keyset nt \<union> {n. \<exists>c ch. c \<in> set cs \<and> gget chs c = Some ch \<and> IsAvailable ch \<and> n \<in> set (sel c ch)}
   \<and> (well_keyed nt \<longrightarrow> well_keyed (fst (scan_channels sel chs cs nt av)))"
proof (induction sel chs cs nt av rule: scan_channels.induct)
  case (2 sel chs c cs nt av)
  show ?case
  proof (cases "gget chs c")
    case None
    with 2(1) show ?thesis by (auto simp: available_in_def)
  next
    case (Some ch)
    show ?thesis
    proof (cases "IsAvailable ch")
      case True
      with 2(3)[OF Some] Some show ?thesis by (auto simp: available_in_def)
    next
      case False
      with 2(2)[OF Some] Some show ?thesis by (auto simp: available_in_def)
    qed
  qed
qed simp

lemma create_task_props:
  assumes "createTaskWithPredecessors g n step preds ec = (ec', t)"
  shows "ec_channels ec' = ec_channels ec" "ec_planned ec' = ec_planned ec" "ec_resumed ec' = ec_resumed ec"
    "ec_last_checkpoint ec' = ec_last_checkpoint ec" "ec_pending_tasks ec' = ec_pending_tasks ec"
    "(t = None) = (\<not> schedulable g n)"
    "t = Some tk \<Longrightarrow> tk_node_id tk = n \<and> tk_task_id tk = n @ ''-'' @ show_int step
       \<and> (\<exists>nd. graph_Node g n = Some nd \<and> tk_writes tk = nd_writers nd \<and> tk_triggers tk = nd_triggers nd)"
  using assms
  by (auto simp: createTaskWithPredecessors_def schedulable_def Let_def split: if_splits option.splits prod.splits)

lemma create_tasks_props:
  assumes "create_tasks g step ns ec = (ec', ts)"
  shows "ec_channels ec' = ec_channels ec \<and> ec_planned ec' = ec_planned ec \<and> ec_resumed ec' = ec_resumed ec
    \<and> ec_last_checkpoint ec' = ec_last_checkpoint ec \<and> ec_pending_tasks ec' = ec_pending_tasks ec
    \<and> map tk_node_id ts = filter (schedulable g) (map fst ns)
    \<and> (\<forall>t \<in> set ts. tk_task_id t = tk_node_id t @ ''-'' @ show_int step
       \<and> (\<exists>nd. graph_Node g (tk_node_id t) = Some nd \<and> tk_writes t = nd_writers nd \<and> tk_triggers t = nd_triggers nd))"
  using assms
proof (induction g step ns ec arbitrary: ec' ts rule: create_tasks.induct)
  case (2 g step n preds ns ec)
  obtain ec1 t where t: "createTaskWithPredecessors g n step preds ec = (ec1, t)" by fastforce
  obtain ec2 us where us: "create_tasks g step ns ec1 = (ec2, us)" by fastforce
  note ct = create_task_props[OF t]
  have IH: "ec_channels ec2 = ec_channels ec1 \<and> ec_planned ec2 = ec_planned ec1 \<and> ec_resumed ec2 = ec_resumed ec1
    \<and> ec_last_checkpoint ec2 = ec_last_checkpoint ec1 \<and> ec_pending_tasks ec2 = ec_pending_tasks ec1
    \<and> map tk_node_id us = filter (schedulable g) (map fst ns)
    \<and> (\<forall>t \<in> set us. tk_task_id t = tk_node_id t @ ''-'' @ show_int step
       \<and> (\<exists>nd. graph_Node g (tk_node_id t) = Some nd \<and> tk_writes t = nd_writers nd \<and> tk_triggers t = nd_triggers nd))"
    using 2(1)[OF t[symmetric] refl us] by simp
  have res: "ec' = ec2" "ts = (case t of None \<Rightarrow> us | Some t \<Rightarrow> t # us)" using 2(2) t us by auto
  show ?case
  proof (cases t)
    case None
    with IH ct res show ?thesis by simp
  next
    case (Some tk)
    with IH ct(1-6) ct(7)[OF Some] res show ?thesis by simp
  qed
qed simp


lemma sort_keys: "well_keyed m \<Longrightarrow> sort (gkeys m) = sorted_list_of_set (keyset m)"
  unfolding well_keyed_def keyset_def
  by (rule sorted_distinct_set_unique) (simp_all del: list.set_map set_map)

lemma filter_sorted_list_of_set:
  "finite A \<Longrightarrow> filter P (sorted_list_of_set A) = sorted_list_of_set {x \<in> A. P x}"
  by (rule sorted_distinct_set_unique) (auto intro: sorted_wrt_filter)

lemma finite_keyset [simp]: "finite (keyset m)"
  by (simp add: keyset_def)

definition same_run :: "exec_context \<Rightarrow> exec_context \<Rightarrow> bool" where
  "same_run ec ec' \<longleftrightarrow> ec_planned ec' = ec_planned ec \<and> ec_resumed ec' = ec_resumed ec
     \<and> ec_last_checkpoint ec' = ec_last_checkpoint ec \<and> ec_pending_tasks ec' = ec_pending_tasks ec"

text \<open>A task carries its node's writers and triggers and an ID made of the node and the step.\<close>

definition task_for :: "graph \<Rightarrow> int \<Rightarrow> task \<Rightarrow> bool" where
  "task_for g step t \<longleftrightarrow> tk_task_id t = tk_node_id t @ ''-'' @ show_int step
     \<and> (\<exists>nd. graph_Node g (tk_node_id t) = Some nd \<and> tk_writes t = nd_writers nd \<and> tk_triggers t = nd_triggers nd)"

lemma createTriggeredTasks_props:
  assumes "createTriggeredTasks g step nt ec = (ec', ts)" "well_keyed nt"
  shows "ec_channels ec' = ec_channels ec \<and> same_run ec ec'
    \<and> map tk_node_id ts = sorted_list_of_set {n \<in> keyset nt. schedulable g n} \<and> list_all (task_for g step) ts"
proof (cases "nt = []")
  case True
  with assms(1) show ?thesis by (auto simp: createTriggeredTasks_def same_run_def)
next
  case False
  let ?ns = "map (\<lambda>n. (n, tracePredecessorsForChannels ec (case gget nt n of None \<Rightarrow> [] | Some xs \<Rightarrow> xs))) (sort (gkeys nt))"
  have "create_tasks g step ?ns ec = (ec', ts)" using assms(1) False by (simp add: createTriggeredTasks_def)
  note p = create_tasks_props[OF this]
  have "map fst ?ns = sorted_list_of_set (keyset nt)" by (simp add: comp_def sort_keys[OF assms(2)])
  then have "filter (schedulable g) (map fst ?ns) = sorted_list_of_set {n \<in> keyset nt. schedulable g n}"
    by (simp add: filter_sorted_list_of_set)
  with p show ?thesis by (simp add: same_run_def task_for_def list_all_iff)
qed

text \<open>The nodes that channels selected by \<open>sel\<close> call for, and a plan made from them.\<close>

definition called :: "graph \<Rightarrow> (string \<Rightarrow> channel \<Rightarrow> string list) \<Rightarrow> string set \<Rightarrow> channels \<Rightarrow> string set" where
  "called g sel cs chs =
     {n. schedulable g n \<and> (\<exists>c ch. c \<in> cs \<and> gget chs c = Some ch \<and> IsAvailable ch \<and> n \<in> set (sel c ch))}"

lemma plan_from_scan:
  assumes "scan_channels sel (ec_channels ec) cs [] [] = (nt, av)" "distinct cs"
    "createTriggeredTasks g step nt (acknowledge_all av ec) = (ec1, ts)" "ec' = clearTraceChannelSources av ec1"
  shows "map tk_node_id ts = sorted_list_of_set (called g sel (set cs) (ec_channels ec))"
    "list_all (task_for g step) ts" "same_run ec ec'"
    "gget (ec_channels ec') c = (if c \<in> set cs \<and> available_in (ec_channels ec) c
        then map_option Acknowledge (gget (ec_channels ec) c) else gget (ec_channels ec) c)"
proof -
  note sc = scan_channels_props[of sel "ec_channels ec" cs "[]" "[]", unfolded assms(1)]
  have av: "av = filter (available_in (ec_channels ec)) cs" using sc by simp
  have wk: "well_keyed nt" using sc by simp
  note ct = createTriggeredTasks_props[OF assms(3) wk]
  have "{n \<in> keyset nt. schedulable g n} = called g sel (set cs) (ec_channels ec)"
    using sc by (auto simp: called_def)
  with ct show "map tk_node_id ts = sorted_list_of_set (called g sel (set cs) (ec_channels ec))" by simp
  show "list_all (task_for g step) ts" using ct by simp
  show "same_run ec ec'" using ct by (simp add: same_run_def assms(4) clearTraceChannelSources_def acknowledge_all_def)
  have "distinct av" using assms(2) av by simp
  then show "gget (ec_channels ec') c = (if c \<in> set cs \<and> available_in (ec_channels ec) c
        then map_option Acknowledge (gget (ec_channels ec) c) else gget (ec_channels ec) c)"
    using ct by (simp add: assms(4) clearTraceChannelSources_def acknowledge_all_def fold_update_channel_get av)
qed

definition triggered :: "graph \<Rightarrow> channels \<Rightarrow> string set" where
  "triggered g chs = {n. schedulable g n \<and>
     (\<exists>c. available_in chs c \<and> n \<in> set (subscribers g c))}"

lemma called_triggered:
  "called g (\<lambda>c ch. filter (schedulable g) (subscribers g c)) (keyset (getTriggerToNodes g)) chs = triggered g chs"
proof -
  have "n \<in> set (subscribers g c) \<Longrightarrow> c \<in> keyset (getTriggerToNodes g)" for n c
    by (cases "gget (getTriggerToNodes g) c") (simp_all add: subscribers_def keyset_get)
  then show ?thesis by (fastforce simp: called_def triggered_def available_in_def split: option.splits)
qed

lemma availability_plan:
  assumes "planBasedOnAvailabilityTriggers g step ec = (ec', ts)" "well_keyed (g_triggers g)"
  shows "map tk_node_id ts = sorted_list_of_set (triggered g (ec_channels ec))"
    "list_all (task_for g step) ts" "same_run ec ec'"
    "gget (ec_channels ec') c = (if c \<in> keyset (g_triggers g) \<and> available_in (ec_channels ec) c
        then map_option Acknowledge (gget (ec_channels ec) c) else gget (ec_channels ec) c)"
proof -
  let ?sel = "\<lambda>c ch. filter (schedulable g) (subscribers g c)" and ?cs = "sort (gkeys (getTriggerToNodes g))"
  obtain nt av where sc: "scan_channels ?sel (ec_channels ec) ?cs [] [] = (nt, av)" by fastforce
  obtain ec1 us where ct: "createTriggeredTasks g step nt (acknowledge_all av ec) = (ec1, us)" by fastforce
  have eq: "ec' = clearTraceChannelSources av ec1" "ts = us"
    using assms(1) sc ct by (simp_all add: planBasedOnAvailabilityTriggers_def scan_availability_eq GetAllChannels_def)
  have set: "set ?cs = keyset (g_triggers g)" by (simp add: keyset_def getTriggerToNodes_def)
  have "distinct ?cs" using assms(2) by (simp add: well_keyed_def getTriggerToNodes_def)
  note pl = plan_from_scan[OF sc this ct eq(1), unfolded set]
  show "map tk_node_id ts = sorted_list_of_set (triggered g (ec_channels ec))"
    using pl(1) called_triggered[of g "ec_channels ec"] by (simp add: eq(2) getTriggerToNodes_def)
  show "list_all (task_for g step) ts" "same_run ec ec'" using pl(2,3) eq(2) by simp_all
  show "gget (ec_channels ec') c = (if c \<in> keyset (g_triggers g) \<and> available_in (ec_channels ec) c
        then map_option Acknowledge (gget (ec_channels ec) c) else gget (ec_channels ec) c)"
    by (rule pl(4))
qed

lemma version_plan:
  assumes "planBasedOnVersionTriggers g ck step ec = (ec', ts)" "well_keyed (ec_channels ec)"
  shows "map tk_node_id ts = sorted_list_of_set {n. schedulable g n \<and> (\<exists>c ch. gget (ec_channels ec) c = Some ch
       \<and> IsAvailable ch \<and> n \<in> set (subscribers g c) \<and> (ch_behavior ch = BehaviorBarrier \<or> shouldTriggerNode n c (ch_version ch) ck))}"
    "list_all (task_for g step) ts" "same_run ec ec'"
    "gget (ec_channels ec') c = (if available_in (ec_channels ec) c
        then map_option Acknowledge (gget (ec_channels ec) c) else gget (ec_channels ec) c)"
proof -
  let ?sel = "\<lambda>c ch. filter (\<lambda>n. ch_behavior ch = BehaviorBarrier \<or> shouldTriggerNode n c (ch_version ch) ck) (subscribers g c)"
    and ?cs = "sort (gkeys (ec_channels ec))"
  obtain nt av where sc: "scan_channels ?sel (ec_channels ec) ?cs [] [] = (nt, av)" by fastforce
  obtain ec1 us where ct: "createTriggeredTasks g step nt (acknowledge_all av ec) = (ec1, us)" by fastforce
  have eq: "ec' = clearTraceChannelSources av ec1" "ts = us"
    using assms(1) sc ct by (simp_all add: planBasedOnVersionTriggers_def scan_versions_eq GetAllChannels_def Let_def)
  have set: "set ?cs = keyset (ec_channels ec)" by (simp add: keyset_def)
  have "distinct ?cs" using assms(2) by (simp add: well_keyed_def)
  note pl = plan_from_scan[OF sc this ct eq(1), unfolded set]
  have "called g ?sel (keyset (ec_channels ec)) (ec_channels ec) = {n. schedulable g n \<and> (\<exists>c ch. gget (ec_channels ec) c = Some ch
       \<and> IsAvailable ch \<and> n \<in> set (subscribers g c) \<and> (ch_behavior ch = BehaviorBarrier \<or> shouldTriggerNode n c (ch_version ch) ck))}"
    by (auto simp: called_def keyset_get)
  with pl(1) eq(2) show "map tk_node_id ts = sorted_list_of_set {n. schedulable g n \<and> (\<exists>c ch. gget (ec_channels ec) c = Some ch
       \<and> IsAvailable ch \<and> n \<in> set (subscribers g c) \<and> (ch_behavior ch = BehaviorBarrier \<or> shouldTriggerNode n c (ch_version ch) ck))}"
    by simp
  show "list_all (task_for g step) ts" "same_run ec ec'" using pl(2,3) eq(2) by simp_all
  have "available_in (ec_channels ec) c \<Longrightarrow> c \<in> keyset (ec_channels ec)"
    by (auto simp: available_in_def keyset_get split: option.splits)
  then show "gget (ec_channels ec') c = (if available_in (ec_channels ec) c
        then map_option Acknowledge (gget (ec_channels ec) c) else gget (ec_channels ec) c)"
    using pl(4)[of c] by auto
qed


text \<open>
  C1. In a run that is not resumed, with no nodes left over from a checkpoint or a fan-out, a step
  after the first runs exactly the existing nodes that listen to an available channel, each once, in
  the order of their names; every task carries its node's writers and triggers and has an ID of its
  own; the available channels with listeners are acknowledged and no other channel changes, so
  planning again finds nothing.
\<close>

theorem plan_exactly_triggered:
  assumes "well_keyed (g_triggers g)" "\<not> ec_resumed ec \<or> ec_last_checkpoint ec = None"
    "gget (ec_state ec) StateKeyNextNodes = None" "ec_pending_tasks ec = []" "step \<noteq> 0"
    "planTasksForBspStep g preds start step ec = Inl (ec', ts)"
  shows "map tk_node_id ts = sorted_list_of_set (triggered g (ec_channels ec))
     \<and> list_all (task_for g step) ts \<and> distinct (map tk_task_id ts)
     \<and> (\<forall>c. gget (ec_channels ec') c = (if c \<in> keyset (g_triggers g) \<and> available_in (ec_channels ec) c
            then map_option Acknowledge (gget (ec_channels ec) c) else gget (ec_channels ec) c))
     \<and> snd (planBasedOnChannelTriggers g step' ec') = []"
proof -
  have avail: "planBasedOnChannelTriggers g k e = planBasedOnAvailabilityTriggers g k e"
    if "\<not> ec_resumed e \<or> ec_last_checkpoint e = None" for k e
    using that by (auto simp: planBasedOnChannelTriggers_def split: option.splits)
  have plan: "planBasedOnAvailabilityTriggers g step (ec\<lparr>ec_planned := None\<rparr>) = (ec', ts)"
    using assms(2-6) avail[of "ec\<lparr>ec_planned := None\<rparr>" step] by (simp add: planTasksForBspStep_def planStep_def)
  note pl = availability_plan[OF plan assms(1), simplified]
  have dist: "distinct (map tk_task_id ts)"
  proof -
    have "map tk_task_id ts = map (\<lambda>n. n @ ''-'' @ show_int step) (map tk_node_id ts)"
      using pl(2) by (simp add: task_for_def list_all_iff)
    moreover have "distinct (map tk_node_id ts)" unfolding pl(1) by simp
    ultimately show ?thesis by (simp add: distinct_map inj_on_def)
  qed
  obtain ec2 ts2 where again: "planBasedOnAvailabilityTriggers g step' ec' = (ec2, ts2)" by fastforce
  have "triggered g (ec_channels ec') = {}"
  proof -
    have "\<not> available_in (ec_channels ec') c" if "n \<in> set (subscribers g c)" for c n
    proof -
      have "c \<in> keyset (g_triggers g)" using that
        by (cases "gget (g_triggers g) c") (simp_all add: subscribers_def keyset_get getTriggerToNodes_def)
      then show ?thesis using pl(4)[of c]
        by (auto simp: available_in_def Acknowledge_def Let_def IsAvailable_def split: option.splits)
    qed
    then show ?thesis by (auto simp: triggered_def)
  qed
  with availability_plan(1)[OF again assms(1)] have "ts2 = []" by simp
  moreover have "\<not> ec_resumed ec' \<or> ec_last_checkpoint ec' = None" using pl(3) assms(2) by (auto simp: same_run_def)
  ultimately have "snd (planBasedOnChannelTriggers g step' ec') = []" using avail again by simp
  with pl dist show ?thesis by simp
qed

text \<open>
  Planning does not depend on the iteration order of the maps of the graph and the context: two
  graphs with the same nodes and subscriptions, and two contexts with the same channels, give the
  same nodes in the same order.
\<close>

theorem plan_order_independent:
  assumes "well_keyed (g_triggers g)" "well_keyed (g_triggers g')"
    "\<And>c. gget (g_triggers g) c = gget (g_triggers g') c" "\<And>n. graph_Node g n = graph_Node g' n"
    "\<And>c. gget (ec_channels ec) c = gget (ec_channels ec') c"
  shows "map tk_node_id (snd (planBasedOnAvailabilityTriggers g step ec))
    = map tk_node_id (snd (planBasedOnAvailabilityTriggers g' step ec'))"
proof -
  have "triggered g (ec_channels ec) = triggered g' (ec_channels ec')"
    using assms(3-5) by (simp add: triggered_def schedulable_def available_in_def subscribers_def getTriggerToNodes_def)
  then show ?thesis using availability_plan(1)[OF prod.collapse[symmetric] assms(1)]
      availability_plan(1)[OF prod.collapse[symmetric] assms(2)] by simp
qed

text \<open>
  A resumed run plans by versions.  A node runs exactly when it listens to an available channel
  that is a barrier or has moved past the version the node had seen at the checkpoint; so as long as
  every available channel has moved past what its listeners had seen, the resumed plan is the plan
  an uninterrupted run would make.
\<close>

lemma resumed_plan_complete:
  assumes "ec_resumed ec" "ec_last_checkpoint ec = Some ck" "well_keyed (ec_channels ec)"
    "\<And>c ch n. gget (ec_channels ec) c = Some ch \<Longrightarrow> IsAvailable ch \<Longrightarrow> n \<in> set (subscribers g c) \<Longrightarrow>
        ch_behavior ch = BehaviorBarrier \<or> shouldTriggerNode n c (ch_version ch) ck"
  shows "map tk_node_id (snd (planBasedOnChannelTriggers g step ec)) = sorted_list_of_set (triggered g (ec_channels ec))"
proof -
  have "snd (planBasedOnChannelTriggers g step ec) = snd (planBasedOnVersionTriggers g ck step ec)"
    using assms(1,2) by (simp add: planBasedOnChannelTriggers_def)
  moreover have "{n. schedulable g n \<and> (\<exists>c ch. gget (ec_channels ec) c = Some ch \<and> IsAvailable ch
        \<and> n \<in> set (subscribers g c) \<and> (ch_behavior ch = BehaviorBarrier \<or> shouldTriggerNode n c (ch_version ch) ck))}
      = triggered g (ec_channels ec)"
    using assms(4) by (fastforce simp: triggered_def available_in_def split: option.splits)
  ultimately show ?thesis using version_plan(1)[OF prod.collapse[symmetric] assms(3)] by simp
qed


section \<open>A small run\<close>

definition demo_graph :: graph where
  "demo_graph = sg_graph (AddEdge ''a'' ''b'' (SetEntryPoint ''a''
     (AddNode ''b'' (\<lambda>k st. (st, Return (NRNil, None))) [] (AddNode ''a'' (\<lambda>k st. (st, Return (NRNil, None))) [] (NewStateGraph None)))))"

definition demo_run :: "bool \<Rightarrow> checkpoint option \<Rightarrow> exec_context" where
  "demo_run resumed ck = applyPendingWrites
     [\<lparr>pw_task_id = ''a-0'', pw_channel = branchChannel ''b'', pw_value = channelUpdateMarker, pw_sequence = 1\<rparr>]
     (buildExecutionContext demo_graph [] resumed ck)"



lemma demo_facts:
  "well_keyed (g_triggers demo_graph)" "\<not> ec_resumed (demo_run False None)"
  "gget (ec_state (demo_run False None)) StateKeyNextNodes = None" "ec_pending_tasks (demo_run False None) = []"
  "well_keyed (ec_channels (demo_run True (Some (NewCheckpoint ''c'' 1 None [] []))))"
  "ec_resumed (demo_run True (Some (NewCheckpoint ''c'' 1 None [] [])))"
  by code_simp+

lemma demo_plan: "case planTasksForBspStep demo_graph [] 0 1 (demo_run False None) of
     Inl (ec, ts) \<Rightarrow> map tk_task_id ts = [''b-1''] | Inr _ \<Rightarrow> False"
  by code_simp

theorem plan_exactly_triggered_witness:
  "\<exists>ec ts. planTasksForBspStep demo_graph [] 0 1 (demo_run False None) = Inl (ec, ts)
     \<and> map tk_task_id ts = [''b-1''] \<and> list_all (task_for demo_graph 1) ts \<and> snd (planBasedOnChannelTriggers demo_graph 2 ec) = []"
proof -
  obtain ec ts where p: "planTasksForBspStep demo_graph [] 0 1 (demo_run False None) = Inl (ec, ts)" and
    ids: "map tk_task_id ts = [''b-1'']"
    using demo_plan by (cases "planTasksForBspStep demo_graph [] 0 1 (demo_run False None)") auto
  have "\<not> ec_resumed (demo_run False None) \<or> ec_last_checkpoint (demo_run False None) = None" using demo_facts(2) by simp
  from plan_exactly_triggered[OF demo_facts(1) this demo_facts(3,4) _ p, of 2] have
    "list_all (task_for demo_graph 1) ts \<and> snd (planBasedOnChannelTriggers demo_graph 2 ec) = []" by simp
  with p ids show ?thesis by (intro exI[of _ ec] exI[of _ ts] conjI) simp_all
qed

theorem plan_order_independent_witness:
  "map tk_node_id (snd (planBasedOnAvailabilityTriggers demo_graph 1 (demo_run False None)))
    = map tk_node_id (snd (planBasedOnAvailabilityTriggers (demo_graph\<lparr>g_triggers := rev (g_triggers demo_graph)\<rparr>) 1 (demo_run False None)))"
proof (rule plan_order_independent)
  show "well_keyed (g_triggers demo_graph)" by (rule demo_facts(1))
  then have d: "distinct (map fst (g_triggers demo_graph))" by (simp add: well_keyed_def)
  then show "well_keyed (g_triggers (demo_graph\<lparr>g_triggers := rev (g_triggers demo_graph)\<rparr>))"
    by (simp add: well_keyed_def rev_map[symmetric])
  show "gget (g_triggers demo_graph) c = gget (g_triggers (demo_graph\<lparr>g_triggers := rev (g_triggers demo_graph)\<rparr>)) c" for c
    using map_of_inject_set[of "g_triggers demo_graph" "rev (g_triggers demo_graph)"] d by (simp add: rev_map[symmetric])
qed (simp_all add: graph_Node_def)

end
