(* ===== verification/Routing.thy ===== *)
theory Routing
  imports Planner
begin

text \<open>
  What a node's result does (\<open>graph/executor.go\<close>): the state update through the schema's reducers,
  the routing by static writers, by \<open>Command.GoTo\<close>, by fan-out and by conditional edges, and the
  versions the node has seen.  Routing adds channels and subscriptions to the graph itself, so the
  functions return the graph.  A reducer, a nil command or a nil condition may panic.
\<close>

section \<open>State updates\<close>

definition StateKeyResumeMap :: string where "StateKeyResumeMap = ''__resume_map__''"
definition StateKeyUsedInterrupts :: string where "StateKeyUsedInterrupts = ''__used_interrupts__''"
definition StateKeySubgraphInterrupt :: string where "StateKeySubgraphInterrupt = ''__subgraph_interrupt__''"

text \<open>The map that tasks planned by channels hold.\<close>

definition planned_view :: "exec_context \<Rightarrow> state" where
  "planned_view ec = (case ec_planned ec of None \<Rightarrow> ec_state ec | Some st \<Rightarrow> st)"

text \<open>The execution moves on to a new map; the planned tasks keep the old one.\<close>

definition replace_state :: "state \<Rightarrow> exec_context \<Rightarrow> exec_context" where
  "replace_state st ec = ec\<lparr>ec_state := st, ec_planned := Some (planned_view ec)\<rparr>"

definition updateStateFromResult :: "graph \<Rightarrow> state \<Rightarrow> exec_context \<Rightarrow> exec_context run" where
  "updateStateFromResult g stateResult ec =
     run_bind (ApplyUpdate (g_schema g) (ec_state ec) (filter (\<lambda>(k, v). \<not> isInternalStateKey k) stateResult))
       (\<lambda>st. Return (replace_state st ec))"

definition syncResumeKey :: "state \<Rightarrow> string \<Rightarrow> state \<Rightarrow> state" where
  "syncResumeKey source key target =
     (case gget source key of
        None \<Rightarrow> gdel key target
      | Some v \<Rightarrow> if v = VNil then gdel key target else gput key (deepCopyAny v) target)"

definition syncResumeState :: "state \<Rightarrow> exec_context \<Rightarrow> exec_context" where
  "syncResumeState source ec = ec\<lparr>ec_state :=
     syncResumeKey source StateKeySubgraphInterrupt
       (syncResumeKey source StateKeyUsedInterrupts
         (syncResumeKey source StateKeyResumeMap
           (syncResumeKey source ResumeChannel (ec_state ec))))\<rparr>"

section \<open>Writes\<close>

definition add_pending :: "string \<Rightarrow> gval \<Rightarrow> string \<Rightarrow> exec_context \<Rightarrow> exec_context" where
  "add_pending ch v taskID ec =
     ec\<lparr>ec_seq := ec_seq ec + 1,
        ec_pending_writes := ec_pending_writes ec @
          [\<lparr>pw_task_id = taskID, pw_channel = ch, pw_value = v, pw_sequence = ec_seq ec + 1\<rparr>]\<rparr>"

text \<open>A write to an existing channel of the run, recorded for the next checkpoint and the trace.\<close>

definition write_channel :: "string \<Rightarrow> gval \<Rightarrow> string \<Rightarrow> string \<Rightarrow> string \<Rightarrow> int \<Rightarrow> exec_context \<Rightarrow> exec_context" where
  "write_channel ch v taskID senderKey stepID step ec =
     (case GetChannel (ec_channels ec) ch of
        None \<Rightarrow> ec
      | Some _ \<Rightarrow>
          recordTraceChannelSource ch senderKey stepID step
            (add_pending ch v taskID
              (ec\<lparr>ec_channels := update_channel ch (\<lambda>c. fst (Update [v] step c)) (ec_channels ec)\<rparr>)))"

definition sender_key :: "channels \<Rightarrow> writer \<Rightarrow> string" where
  "sender_key chs w =
     (case GetChannel chs (w_channel w) of
        None \<Rightarrow> []
      | Some c \<Rightarrow> if ch_behavior c = BehaviorBarrier then (case w_value w of VStr s \<Rightarrow> s | _ \<Rightarrow> []) else [])"

fun processChannelWrites :: "string \<Rightarrow> string \<Rightarrow> writer list \<Rightarrow> int \<Rightarrow> exec_context \<Rightarrow> exec_context" where
  "processChannelWrites taskID stepID [] step ec = ec"
| "processChannelWrites taskID stepID (w # ws) step ec =
     processChannelWrites taskID stepID ws step
       (write_channel (w_channel w) (w_value w) taskID (sender_key (ec_channels ec) w) stepID step ec)"

section \<open>Commands\<close>

definition resolveTargetByEnds :: "graph \<Rightarrow> string \<Rightarrow> string \<Rightarrow> string" where
  "resolveTargetByEnds g src target =
     (if target = [] then []
      else case graph_Node g src of
          None \<Rightarrow> []
        | Some nd \<Rightarrow> (case gget (nd_ends nd) target of None \<Rightarrow> [] | Some x \<Rightarrow> x))"

definition resolve_goto :: "graph \<Rightarrow> string \<Rightarrow> string \<Rightarrow> string" where
  "resolve_goto g src target =
     (if target \<noteq> [] \<and> resolveTargetByEnds g src target \<noteq> [] then resolveTargetByEnds g src target else target)"

text \<open>A channel made at run time, in the graph and in the run, and its subscription, then the write.\<close>

definition route_to :: "string \<Rightarrow> string \<Rightarrow> string \<Rightarrow> string \<Rightarrow> int \<Rightarrow> graph \<times> exec_context \<Rightarrow> graph \<times> exec_context" where
  "route_to ch target taskID stepID step = (\<lambda>(g, ec).
     (addNodeTrigger ch target (graph_addChannel ch BehaviorLastValue g),
      write_channel ch channelUpdateMarker taskID [] stepID step
        (ec\<lparr>ec_channels := AddChannel ch BehaviorLastValue (ec_channels ec)\<rparr>)))"

definition handleCommandRouting :: "string \<Rightarrow> string \<Rightarrow> string \<Rightarrow> int \<Rightarrow> graph \<times> exec_context \<Rightarrow> graph \<times> exec_context" where
  "handleCommandRouting taskID stepID target step = route_to (triggerChannel target) target taskID stepID step"

definition handleCommandResult :: "command \<Rightarrow> int \<Rightarrow> string \<Rightarrow> graph \<times> exec_context \<Rightarrow> (graph \<times> exec_context) run" where
  "handleCommandResult c step taskID = (\<lambda>(g, ec).
     run_bind (if cmd_update c \<noteq> [] then updateStateFromResult g (cmd_update c) ec else Return ec)
       (\<lambda>ec. Return (if cmd_goto c \<noteq> []
                     then handleCommandRouting taskID (traceStepIDForTask ec taskID) (cmd_goto c) step (g, ec)
                     else (g, ec))))"

definition fan_out_task :: "graph \<Rightarrow> state \<Rightarrow> task \<Rightarrow> int \<Rightarrow> string list \<Rightarrow> nat \<Rightarrow> command \<Rightarrow> task" where
  "fan_out_task g globalState t step preds idx c =
     (let target = (if cmd_goto c = [] then tk_node_id t else cmd_goto c);
          source = (if tk_task_id t = []
                    then (if tk_task_path t \<noteq> [] then concat (hd (tk_task_path t) # map ((@) ''/'') (tl (tk_task_path t)))
                          else tk_node_id t)
                    else tk_task_id t)
      in \<lparr>tk_node_id = target, tk_input = OwnState (gcopy_into (gcopy_into [] globalState) (cmd_update c)),
          tk_writes = (case graph_Node g target of None \<Rightarrow> [] | Some nd \<Rightarrow> nd_writers nd),
          tk_triggers = (case graph_Node g target of None \<Rightarrow> [] | Some nd \<Rightarrow> nd_triggers nd),
          tk_task_id = target @ ''-'' @ show_int (step + 1) @ ''-'' @ source @ ''-'' @ show_nat idx,
          tk_task_path = tk_task_path t, tk_overlay = None, tk_predecessors = preds\<rparr>)"

fun fan_out_tasks ::
    "graph \<Rightarrow> state \<Rightarrow> task \<Rightarrow> int \<Rightarrow> string list \<Rightarrow> nat \<Rightarrow> command option list \<Rightarrow> task list run" where
  "fan_out_tasks g st t step preds idx [] = Return []"
| "fan_out_tasks g st t step preds idx (None # cs) = Panic"
| "fan_out_tasks g st t step preds idx (Some c # cs) =
     run_bind (fan_out_tasks g st t step preds (Suc idx) cs)
       (\<lambda>ts. Return (fan_out_task g st t step preds idx c # ts))"

definition enqueueCommands ::
    "graph \<Rightarrow> task \<Rightarrow> command option list \<Rightarrow> int \<Rightarrow> string list \<Rightarrow> exec_context \<Rightarrow> exec_context run" where
  "enqueueCommands g t cmds step preds ec =
     (if cmds = [] then Return ec
      else run_bind (fan_out_tasks g (ec_state ec) t step preds 0 cmds)
             (\<lambda>ts. Return (ec\<lparr>ec_pending_tasks := ec_pending_tasks ec @ ts\<rparr>)))"

section \<open>The result of a node\<close>

definition static_writes :: "task \<Rightarrow> int \<Rightarrow> exec_context \<Rightarrow> exec_context" where
  "static_writes t step ec =
     processChannelWrites (tk_task_id t) (traceStepIDForTask ec (tk_task_id t)) (tk_writes t) step ec"

definition handleNodeResult ::
    "task \<Rightarrow> node_result \<Rightarrow> int \<Rightarrow> graph \<times> exec_context \<Rightarrow> ((graph \<times> exec_context) \<times> bool) run" where
  "handleNodeResult t result step = (\<lambda>(g, ec).
     case result of
       NRState st \<Rightarrow> run_bind (updateStateFromResult g st ec) (\<lambda>ec. Return ((g, static_writes t step ec), False))
     | NRCommand (Some c) \<Rightarrow>
         (let c = c\<lparr>cmd_goto := resolve_goto g (tk_node_id t) (cmd_goto c)\<rparr> in
          run_bind (handleCommandResult c step (tk_task_id t) (g, ec)) (\<lambda>(g, ec).
            Return (if cmd_goto c \<noteq> [] then ((g, ec), True) else ((g, static_writes t step ec), False))))
     | NRCommands cs \<Rightarrow>
         (let cs = map (map_option (\<lambda>c. c\<lparr>cmd_goto := resolve_goto g (tk_node_id t) (cmd_goto c)\<rparr>)) cs in
          run_bind (enqueueCommands g t cs step [traceStepIDForTask ec (tk_task_id t)] ec)
            (\<lambda>ec. Return ((g, ec), True)))
     | _ \<Rightarrow> Return ((g, static_writes t step ec), False))"

definition updateVersionsSeen :: "string \<Rightarrow> string list \<Rightarrow> exec_context \<Rightarrow> exec_context" where
  "updateVersionsSeen nodeID triggers ec =
     ec\<lparr>ec_versions_seen := gput nodeID
          (fold (\<lambda>tr vs. case gget (ec_channels ec) tr of None \<Rightarrow> vs | Some c \<Rightarrow> gput tr (ch_version c) vs) triggers
             (case gget (ec_versions_seen ec) nodeID of None \<Rightarrow> [] | Some vs \<Rightarrow> vs)) (ec_versions_seen ec)\<rparr>"

section \<open>Conditional edges\<close>

datatype route_error =
    CondFailed string gerror
  | CondTarget string string string

definition cond_target :: "graph \<Rightarrow> cond_edge \<Rightarrow> string \<Rightarrow> string" where
  "cond_target g ce result =
     (case gget (ce_path_map ce) result of
        Some t \<Rightarrow> t
      | None \<Rightarrow> (if resolveTargetByEnds g (ce_from ce) result \<noteq> []
                 then resolveTargetByEnds g (ce_from ce) result else result))"

definition processConditionalResult ::
    "cond_edge \<Rightarrow> string \<Rightarrow> int \<Rightarrow> string \<Rightarrow> graph \<times> exec_context \<Rightarrow> (graph \<times> exec_context) \<times> route_error option" where
  "processConditionalResult ce result step taskID = (\<lambda>(g, ec).
     (let target = cond_target g ce result in
      if target \<noteq> End \<and> graph_Node g target = None then ((g, ec), Some (CondTarget (ce_from ce) result target))
      else (route_to (branchChannel target) target taskID (traceStepIDForTask ec taskID) step (g, ec), None)))"

fun process_results ::
    "cond_edge \<Rightarrow> string list \<Rightarrow> int \<Rightarrow> string \<Rightarrow> graph \<times> exec_context \<Rightarrow> (graph \<times> exec_context) \<times> route_error option" where
  "process_results ce [] step taskID s = (s, None)"
| "process_results ce (r # rs) step taskID s =
     (case processConditionalResult ce r step taskID s of
        (s', Some e) \<Rightarrow> (s', Some e)
      | (s', None) \<Rightarrow> process_results ce rs step taskID s')"

definition processConditionalEdges ::
    "task \<Rightarrow> int \<Rightarrow> graph \<times> exec_context \<Rightarrow> ((graph \<times> exec_context) \<times> route_error option) run" where
  "processConditionalEdges t step = (\<lambda>(g, ec).
     case graph_ConditionalEdge g (tk_node_id t) of
       None \<Rightarrow> Return ((g, ec), None)
     | Some ce \<Rightarrow>
         (case ce_condition ce of
            None \<Rightarrow> Panic
          | Some f \<Rightarrow>
              (case f (ec_state ec) of
                 Inr e \<Rightarrow> Return ((g, ec), Some (CondFailed (tk_node_id t) e))
               | Inl r \<Rightarrow> Return (process_results ce (dedup_seen [] (filter (\<lambda>x. x \<noteq> []) (cr_next_nodes r)))
                                   step (tk_task_id t) (g, ec)))))"

section \<open>Completing a task\<close>

datatype task_error =
    TaskPanic
  | RouteFailed route_error
  | NodeMissing string
  | NodePanic string
  | NodeError string gerror
  | TaskInterrupt interrupt_error
  | AttemptsExhausted string int gerror
  | BudgetElapsed string gerror
  | DeadlineBeforeRetry string gerror
  | CanceledBeforeRetry string gerror

text \<open>
  What both \<open>finalizeSuccessfulExecution\<close> and \<open>finalizeRecoveredExecution\<close> do with a result (without
  callbacks, cache and events): the result, the versions seen, and the conditional edges unless the
  result routed.  A panic is recovered by the worker; what was done before it stays.
\<close>

definition finalize_result ::
    "task \<Rightarrow> node_result \<Rightarrow> int \<Rightarrow> graph \<times> exec_context \<Rightarrow> (graph \<times> exec_context) \<times> task_error option" where
  "finalize_result t result step s =
     (case handleNodeResult t result step s of
        Panic \<Rightarrow> (s, Some TaskPanic)
      | Return ((g, ec), routed) \<Rightarrow>
          (let ec = updateVersionsSeen (tk_node_id t) (tk_triggers t) ec in
           if routed then ((g, ec), None)
           else case processConditionalEdges t step (g, ec) of
               Panic \<Rightarrow> ((g, ec), Some TaskPanic)
             | Return (s', e) \<Rightarrow> (s', map_option RouteFailed e)))"

end
