(* ===== verification/Task_Exec.thy ===== *)
theory Task_Exec
  imports Routing
begin

text \<open>
  The execution of one task (\<open>graph/executor.go\<close>, \<open>graph/retry.go\<close>): the isolated copy of its input
  state, the attempts and the retry policy, and the workers of a step.  Callbacks, the node cache, the
  events and their barrier are left out.  Clock, deadline and cancellation as seen after an attempt
  are arguments (\<open>attempt_env\<close>), as is the ID of the trace step.
\<close>

section \<open>Retry policies\<close>

record retry_policy =
  rp_max_attempts :: int
  rp_retry_on :: "(gerror \<Rightarrow> bool) option list"
  rp_max_elapsed :: int

definition ShouldRetry :: "retry_policy \<Rightarrow> gerror \<Rightarrow> bool" where
  "ShouldRetry p err = list_ex (\<lambda>c. case c of None \<Rightarrow> False | Some match \<Rightarrow> match err) (rp_retry_on p)"

definition max_attempts :: "retry_policy \<Rightarrow> int" where
  "max_attempts p = (if rp_max_attempts p \<le> 0 then 1 else rp_max_attempts p)"

definition selectRetryPolicy :: "gerror \<Rightarrow> retry_policy list \<Rightarrow> (retry_policy \<times> int) option" where
  "selectRetryPolicy err policies =
     map_option (\<lambda>p. (p, max_attempts p)) (find (\<lambda>p. ShouldRetry p err) policies)"

record attempt_env =
  ae_elapsed :: int
  ae_deadline_passed :: bool
  ae_canceled :: "gerror option"

text \<open>\<open>None\<close>: try again.\<close>

definition checkRetryBudget :: "string \<Rightarrow> int \<Rightarrow> attempt_env \<Rightarrow> gerror \<Rightarrow> retry_policy \<Rightarrow> int \<Rightarrow> task_error option" where
  "checkRetryBudget nodeID attempt env err pol maxAttempts =
     (if attempt \<ge> maxAttempts then Some (AttemptsExhausted nodeID attempt err)
      else if rp_max_elapsed pol > 0 \<and> ae_elapsed env \<ge> rp_max_elapsed pol then Some (BudgetElapsed nodeID err)
      else None)"

definition waitBeforeRetry :: "string \<Rightarrow> attempt_env \<Rightarrow> gerror \<Rightarrow> task_error option" where
  "waitBeforeRetry nodeID env err =
     (if ae_deadline_passed env then Some (DeadlineBeforeRetry nodeID err)
      else map_option (CanceledBeforeRetry nodeID) (ae_canceled env))"

definition mark_interrupt :: "string \<Rightarrow> int \<Rightarrow> interrupt_error \<Rightarrow> interrupt_error" where
  "mark_interrupt nodeID step ie =
     ie\<lparr>ie_node_id := nodeID, ie_task_id := (if ie_task_id ie = [] then nodeID else ie_task_id ie), ie_step := step\<rparr>"

definition evaluateRetryDecision ::
    "retry_policy list \<Rightarrow> string \<Rightarrow> int \<Rightarrow> int \<Rightarrow> attempt_env \<Rightarrow> gerror \<Rightarrow> task_error option" where
  "evaluateRetryDecision policies nodeID step attempt env err =
     (case err of
        ErrInterrupt ie \<Rightarrow> Some (TaskInterrupt (mark_interrupt nodeID step ie))
      | _ \<Rightarrow>
          (case selectRetryPolicy err policies of
             None \<Rightarrow> Some (NodeError nodeID err)
           | Some (pol, m) \<Rightarrow>
               (case checkRetryBudget nodeID attempt env err pol m of
                  Some e \<Rightarrow> Some e
                | None \<Rightarrow> waitBeforeRetry nodeID env err)))"

section \<open>One attempt\<close>

definition StateKeyCurrentNodeID :: string where "StateKeyCurrentNodeID = ''current_node_id''"
definition currentTraceStepIDStateKey :: string where "currentTraceStepIDStateKey = ''__current_trace_step_id__''"

text \<open>
  The copy a task works on.  The entry for the execution context itself, a pointer the node reads
  back, is not a state value and left out.
\<close>

definition buildTaskStateCopy :: "graph \<Rightarrow> exec_context \<Rightarrow> task \<Rightarrow> state run" where
  "buildTaskStateCopy g ec t =
     (let base = (case tk_input t of OwnState st \<Rightarrow> st | PlannedState \<Rightarrow> planned_view ec);
          stateCopy = state_deepCopy True (g_schema g) base
      in run_bind (case tk_overlay t of None \<Rightarrow> Return stateCopy | Some o' \<Rightarrow> ApplyUpdate (g_schema g) stateCopy o')
           (\<lambda>st. Return (gput StateKeyCurrentNodeID (VStr (tk_node_id t)) st)))"

text \<open>A panic of the node function is recovered as an error, without a result.\<close>

definition executeNodeFunction ::
    "graph \<Rightarrow> string \<Rightarrow> nat \<Rightarrow> state \<Rightarrow> state \<times> (node_result \<times> gerror option)" where
  "executeNodeFunction g nodeID attempt input =
     (case graph_Node g nodeID of
        None \<Rightarrow> (input, (NRNil, Some (ErrText (''node '' @ nodeID @ '' not found''))))
      | Some nd \<Rightarrow>
          (case nd_function nd of
             None \<Rightarrow> (input, (NRNil, Some (ErrText (''node '' @ nodeID @ '' panic''))))
           | Some f \<Rightarrow>
               (case f attempt input of
                  (st, Panic) \<Rightarrow> (st, (NRNil, Some (ErrText (''node '' @ nodeID @ '' panic''))))
                | (st, Return r) \<Rightarrow> (st, r))))"

section \<open>The attempts\<close>

text \<open>
  The loop of \<open>executeTaskWithRetry\<close> up to the final result: the state copy after the last attempt,
  the execution context, the number of attempts made and the result or the error.
\<close>

definition attempts_bound :: "retry_policy list \<Rightarrow> int" where
  "attempts_bound policies = Max (insert 1 (max_attempts ` set policies))"

lemma select_bound:
  assumes "selectRetryPolicy err policies = Some (pol, m)"
  shows "m \<le> attempts_bound policies" "1 \<le> m"
proof -
  from assms have "pol \<in> set policies" "m = max_attempts pol"
    by (auto simp: selectRetryPolicy_def find_Some_iff)
  then show "m \<le> attempts_bound policies" "1 \<le> m"
    by (auto simp: attempts_bound_def max_attempts_def intro!: Max_ge)
qed

lemma retry_below_bound:
  assumes "evaluateRetryDecision policies nodeID step attempt env err = None"
  shows "attempt < attempts_bound policies"
  using assms select_bound(1)[of err policies]
  by (fastforce simp: evaluateRetryDecision_def checkRetryBudget_def split: gerror.splits option.splits if_splits)

function execute_attempts ::
    "graph \<Rightarrow> retry_policy list \<Rightarrow> (int \<Rightarrow> attempt_env) \<Rightarrow> string \<Rightarrow> int \<Rightarrow> nat \<Rightarrow> state \<Rightarrow> exec_context
     \<Rightarrow> state \<times> exec_context \<times> nat \<times> (node_result + task_error)" where
  "execute_attempts g policies env nodeID step attempt st ec =
     (let (st', (result, err)) = executeNodeFunction g nodeID attempt st;
          ec' = syncResumeState st' ec
      in case err of
           None \<Rightarrow> (st', ec', attempt, Inl result)
         | Some e \<Rightarrow>
             (case evaluateRetryDecision policies nodeID step (int attempt) (env (int attempt)) e of
                Some te \<Rightarrow> (st', ec', attempt, Inr te)
              | None \<Rightarrow> execute_attempts g policies env nodeID step (Suc attempt) st' ec'))"
  by pat_completeness auto
termination
  by (relation "measure (\<lambda>(g, policies, env, nodeID, step, attempt, st, ec). nat (attempts_bound policies - int attempt))")
     (auto dest: retry_below_bound)

declare execute_attempts.simps [simp del]

definition executeSingleTask ::
    "retry_policy list \<Rightarrow> (int \<Rightarrow> attempt_env) \<Rightarrow> string \<Rightarrow> task \<Rightarrow> int \<Rightarrow> graph \<times> exec_context
     \<Rightarrow> (graph \<times> exec_context) \<times> task_error option" where
  "executeSingleTask policies env traceStepID t step = (\<lambda>(g, ec).
     (case buildTaskStateCopy g ec t of
        Panic \<Rightarrow> ((g, ec), Some TaskPanic)
      | Return copy \<Rightarrow>
          (let ec = recordTraceStepID (tk_task_id t) traceStepID ec;
               copy = (if traceStepID \<noteq> [] then gput currentTraceStepIDStateKey (VStr traceStepID) copy else copy);
               (st, ec, n, r) = execute_attempts g policies env (tk_node_id t) step 1 copy ec;
               ((g, ec), e) = (case r of
                   Inr te \<Rightarrow> ((g, ec), Some te)
                 | Inl result \<Rightarrow> finalize_result t result step (g, syncResumeState st ec))
           in ((g, clearTraceStepID (tk_task_id t) ec), e))))"

section \<open>The tasks of a step\<close>

text \<open>
  The workers take the tasks in any order; every task runs, and the error the step returns is the
  first that was reported.  \<open>executeStep\<close> runs them in the order of the list.
\<close>

definition workerCount :: "int \<Rightarrow> int \<Rightarrow> int" where
  "workerCount maxConcurrency taskCount =
     (if taskCount \<le> 0 then 0
      else if maxConcurrency \<le> 0 then taskCount
      else if taskCount < maxConcurrency then taskCount else maxConcurrency)"

record step_env =
  se_policies :: "string \<Rightarrow> retry_policy list"
  se_attempts :: "string \<Rightarrow> int \<Rightarrow> attempt_env"
  se_trace :: "string \<Rightarrow> string"

definition run_task :: "step_env \<Rightarrow> int \<Rightarrow> task \<Rightarrow> graph \<times> exec_context \<Rightarrow> (graph \<times> exec_context) \<times> task_error option" where
  "run_task env step t =
     executeSingleTask (se_policies env (tk_node_id t)) (se_attempts env (tk_task_id t)) (se_trace env (tk_task_id t)) t step"

fun executeStep :: "step_env \<Rightarrow> int \<Rightarrow> task list \<Rightarrow> graph \<times> exec_context \<Rightarrow> (graph \<times> exec_context) \<times> task_error option" where
  "executeStep env step [] s = (s, None)"
| "executeStep env step (t # ts) s =
     (let (s1, e) = run_task env step t s;
          (s2, e') = executeStep env step ts s1
      in (s2, case e of Some x \<Rightarrow> Some x | None \<Rightarrow> e'))"

section \<open>Retries\<close>

lemma execute_attempts_inv:
  "execute_attempts g policies env nodeID step a st ec = (st', ec', n, r) \<Longrightarrow>
     a \<le> n \<and> (int a \<le> attempts_bound policies \<longrightarrow> int n \<le> attempts_bound policies)
     \<and> (\<forall>k. a \<le> k \<and> k < n \<longrightarrow> (\<exists>s x s' e. executeNodeFunction g nodeID k s = (s', x, Some e)
            \<and> evaluateRetryDecision policies nodeID step (int k) (env (int k)) e = None))
     \<and> (case r of
          Inl x \<Rightarrow> \<exists>s. executeNodeFunction g nodeID n s = (st', x, None)
        | Inr te \<Rightarrow> \<exists>s x e. executeNodeFunction g nodeID n s = (st', x, Some e)
            \<and> evaluateRetryDecision policies nodeID step (int n) (env (int n)) e = Some te)"
proof (induction g policies env nodeID step a st ec rule: execute_attempts.induct)
  case (1 g policies env nodeID step a st ec)
  obtain s1 x err where f: "executeNodeFunction g nodeID a st = (s1, (x, err))" by (metis surj_pair)
  let ?dec = "\<lambda>e. evaluateRetryDecision policies nodeID step (int a) (env (int a)) e"
  show ?case
  proof (cases err)
    case None
    with 1(2) f show ?thesis by (subst (asm) execute_attempts.simps) auto
  next
    case (Some e)
    show ?thesis
    proof (cases "?dec e")
      case (Some te)
      then have "st' = s1 \<and> n = a \<and> r = Inr te"
        using 1(2) f \<open>err = Some e\<close> by (subst (asm) execute_attempts.simps) simp
      moreover have "\<exists>s x e. executeNodeFunction g nodeID a s = (s1, x, Some e) \<and> ?dec e = Some te"
        using f \<open>err = Some e\<close> Some by blast
      ultimately show ?thesis by (simp, auto)
    next
      case None
      have rec: "execute_attempts g policies env nodeID step (Suc a) s1 (syncResumeState s1 ec) = (st', ec', n, r)"
        using 1(2) f \<open>err = Some e\<close> None by (subst (asm) execute_attempts.simps) simp
      note IH = 1(1)[OF refl f[symmetric] refl refl \<open>err = Some e\<close> None rec]
      have "int a < attempts_bound policies" using retry_below_bound[OF None] .
      moreover have "\<exists>s x s' e. executeNodeFunction g nodeID k s = (s', x, Some e)
            \<and> evaluateRetryDecision policies nodeID step (int k) (env (int k)) e = None" if k: "a \<le> k" "k < n" for k
      proof (cases "k = a")
        case True
        with f None \<open>err = Some e\<close> show ?thesis by metis
      next
        case False
        with k IH show ?thesis by (metis Suc_leI le_neq_implies_less)
      qed
      ultimately show ?thesis using IH by auto
    qed
  qed
qed

text \<open>
  C17. Retrying ends after at most the largest number of attempts any policy allows (one without
  policies).  Every attempt but the last failed with an error some policy retries, within its budget;
  the last one either succeeded, and its value is the result, or failed with an error for which the
  policy says to stop.  An interrupt is such an error: it is never retried.
\<close>

theorem retry_contract:
  "case execute_attempts g policies env nodeID step 1 st ec of (st', ec', n, r) \<Rightarrow>
     1 \<le> n \<and> int n \<le> attempts_bound policies
     \<and> (\<forall>k. 1 \<le> k \<and> k < n \<longrightarrow> (\<exists>s x s' e. executeNodeFunction g nodeID k s = (s', x, Some e)
            \<and> evaluateRetryDecision policies nodeID step (int k) (env (int k)) e = None
            \<and> (\<forall>ie. e \<noteq> ErrInterrupt ie)))
     \<and> (case r of
          Inl x \<Rightarrow> \<exists>s. executeNodeFunction g nodeID n s = (st', x, None)
        | Inr te \<Rightarrow> \<exists>s x e. executeNodeFunction g nodeID n s = (st', x, Some e)
            \<and> evaluateRetryDecision policies nodeID step (int n) (env (int n)) e = Some te)"
proof -
  obtain st' ec' n r where e: "execute_attempts g policies env nodeID step 1 st ec = (st', ec', n, r)"
    by (metis prod_cases4)
  have b: "int 1 \<le> attempts_bound policies" by (simp add: attempts_bound_def)
  have ni: "evaluateRetryDecision policies nodeID step k en er = None \<Longrightarrow> er \<noteq> ErrInterrupt ie" for k en er ie
    by (auto simp: evaluateRetryDecision_def)
  from execute_attempts_inv[OF e] b ni show ?thesis unfolding e by simp blast
qed

text \<open>A node that fails once and a policy that allows three attempts.\<close>

definition flaky_graph :: graph where
  "flaky_graph = sg_graph (AddNode ''f''
     (\<lambda>k st. (st, Return (if k = 1 then (NRNil, Some (ErrText ''busy'')) else (NRState [], None)))) [] (NewStateGraph None))"

definition flaky_policy :: retry_policy where
  "flaky_policy = \<lparr>rp_max_attempts = 3, rp_retry_on = [Some (\<lambda>_. True)], rp_max_elapsed = 0\<rparr>"

definition calm_env :: "int \<Rightarrow> attempt_env" where
  "calm_env _ = \<lparr>ae_elapsed = 0, ae_deadline_passed = False, ae_canceled = None\<rparr>"

lemma flaky_attempts:
  "case execute_attempts flaky_graph [flaky_policy] calm_env ''f'' 0 1 [] (buildExecutionContext flaky_graph [] False None) of
     (st, ec, n, r) \<Rightarrow> n = 2 \<and> r = Inl (NRState [])"
  by code_simp

theorem retry_contract_witness:
  "\<exists>st ec. execute_attempts flaky_graph [flaky_policy] calm_env ''f'' 0 1 []
        (buildExecutionContext flaky_graph [] False None) = (st, ec, 2, Inl (NRState []))
     \<and> (\<exists>s x s' e. executeNodeFunction flaky_graph ''f'' 1 s = (s', x, Some e)
          \<and> evaluateRetryDecision [flaky_policy] ''f'' 0 1 (calm_env 1) e = None)
     \<and> (\<exists>s. executeNodeFunction flaky_graph ''f'' 2 s = (st, NRState [], None))"
proof -
  let ?ec = "buildExecutionContext flaky_graph [] False None"
  obtain st ec where e: "execute_attempts flaky_graph [flaky_policy] calm_env ''f'' 0 1 [] ?ec = (st, ec, 2, Inl (NRState []))"
    using flaky_attempts
    by (cases "execute_attempts flaky_graph [flaky_policy] calm_env ''f'' 0 1 [] ?ec") auto
  have "\<forall>k. 1 \<le> k \<and> k < 2 \<longrightarrow> (\<exists>s x s' e. executeNodeFunction flaky_graph ''f'' k s = (s', x, Some e)
          \<and> evaluateRetryDecision [flaky_policy] ''f'' 0 (int k) (calm_env (int k)) e = None)"
    and l: "\<exists>s. executeNodeFunction flaky_graph ''f'' 2 s = (st, NRState [], None)"
    using retry_contract[where g = flaky_graph and policies = "[flaky_policy]" and env = calm_env and nodeID = "''f''"
        and step = 0 and st = "[]" and ec = ?ec] unfolding e by (simp_all, blast)
  from this(1)[rule_format, of 1] l e show ?thesis by (intro exI[of _ st] exI[of _ ec]) simp
qed

end
