(* ===== verification/Step_Frame.thy ===== *)
theory Step_Frame
  imports Task_Exec
begin

text \<open>
  How a step changes the graph and the context, as a locale: a relation that survives every primitive
  change survives a whole step.  Its first instance is the isolation of the tasks of a step.
\<close>

section \<open>What the tasks see\<close>

definition resume_keys :: "string set" where
  "resume_keys = {ResumeChannel, StateKeyResumeMap, StateKeyUsedInterrupts, StateKeySubgraphInterrupt}"

text \<open>Two contexts in which planned tasks see the same state, up to the resume keys.\<close>

definition same_view :: "exec_context \<Rightarrow> exec_context \<Rightarrow> bool" where
  "same_view ec ec' \<longleftrightarrow> (\<forall>k. k \<notin> resume_keys \<longrightarrow> gget (planned_view ec') k = gget (planned_view ec) k)"

lemma same_view_refl [simp, intro]: "same_view ec ec"
  by (simp add: same_view_def)

lemma same_view_trans: "same_view a b \<Longrightarrow> same_view b c \<Longrightarrow> same_view a c"
  by (simp add: same_view_def)

lemma same_view_eq: "planned_view ec' = planned_view ec \<Longrightarrow> same_view ec ec'"
  by (simp add: same_view_def)

lemma syncResumeKey_get: "k \<noteq> key \<Longrightarrow> gget (syncResumeKey source key target) k = gget target k"
  by (auto simp: syncResumeKey_def split: option.splits)

lemma same_view_sync: "same_view ec (syncResumeState source ec)"
  by (auto simp: same_view_def syncResumeState_def planned_view_def resume_keys_def syncResumeKey_get split: option.splits)

lemma planned_view_replace [simp]: "planned_view (replace_state st ec) = planned_view ec"
  by (simp add: replace_state_def planned_view_def)

lemma planned_view_update: "updateStateFromResult g st ec = Return ec' \<Longrightarrow> planned_view ec' = planned_view ec"
  by (auto simp: updateStateFromResult_def run_bind_Return_iff)

lemma planned_view_cong:
  "ec_state ec' = ec_state ec \<Longrightarrow> ec_planned ec' = ec_planned ec \<Longrightarrow> planned_view ec' = planned_view ec"
  by (cases "ec_planned ec") (simp_all add: planned_view_def)

lemma record_frame [simp]:
  "ec_state (recordTraceChannelSource ch k s step ec) = ec_state ec"
  "ec_planned (recordTraceChannelSource ch k s step ec) = ec_planned ec"
  "ec_channels (recordTraceChannelSource ch k s step ec) = ec_channels ec"
  "ec_versions_seen (recordTraceChannelSource ch k s step ec) = ec_versions_seen ec"
  "ec_pending_writes (recordTraceChannelSource ch k s step ec) = ec_pending_writes ec"
  "ec_pending_tasks (recordTraceChannelSource ch k s step ec) = ec_pending_tasks ec"
  by (simp_all add: recordTraceChannelSource_def append_source_def split: Behavior.splits)

lemma write_frame [simp]:
  "ec_state (write_channel ch v tid k s step ec) = ec_state ec"
  "ec_planned (write_channel ch v tid k s step ec) = ec_planned ec"
  "ec_versions_seen (write_channel ch v tid k s step ec) = ec_versions_seen ec"
  "ec_pending_tasks (write_channel ch v tid k s step ec) = ec_pending_tasks ec"
  "ec_channels (write_channel ch v tid k s step ec) = update_channel ch (\<lambda>c. fst (Update [v] step c)) (ec_channels ec)"
  by (simp_all add: write_channel_def add_pending_def update_channel_def split: option.splits)

lemma writes_frame [simp]:
  "ec_state (processChannelWrites tid s ws step ec) = ec_state ec"
  "ec_planned (processChannelWrites tid s ws step ec) = ec_planned ec"
  "ec_versions_seen (processChannelWrites tid s ws step ec) = ec_versions_seen ec"
  "ec_pending_tasks (processChannelWrites tid s ws step ec) = ec_pending_tasks ec"
  by (induction tid s ws step ec rule: processChannelWrites.induct) simp_all

definition same_graph :: "graph \<Rightarrow> graph \<Rightarrow> bool" where
  "same_graph g g' \<longleftrightarrow> g_schema g' = g_schema g \<and> g_nodes g' = g_nodes g \<and> g_edges g' = g_edges g
     \<and> g_cond g' = g_cond g \<and> g_entry g' = g_entry g"

lemma same_graph_refl [simp, intro]: "same_graph g g"
  by (simp add: same_graph_def)

lemma same_graph_trans: "same_graph a b \<Longrightarrow> same_graph b c \<Longrightarrow> same_graph a c"
  by (simp add: same_graph_def)

section \<open>A step as a chain of primitive changes\<close>

text \<open>
  What tasks do to the graph and the context is a chain of few primitive changes.  A relation that is
  reflexive and transitive and holds across each of them holds across every task and every step, whatever
  the nodes, their errors and panics, and the order of the tasks.
\<close>

locale step_frame =
  fixes R :: "graph \<times> exec_context \<Rightarrow> graph \<times> exec_context \<Rightarrow> bool" and step :: int
  assumes R_refl: "\<And>s. R s s"
    and R_trans: "\<And>a b c. R a b \<Longrightarrow> R b c \<Longrightarrow> R a c"
    and R_state: "\<And>g ec st. R (g, ec) (g, replace_state st ec)"
    and R_sync: "\<And>g ec st. R (g, ec) (g, syncResumeState st ec)"
    and R_write: "\<And>g ec ch v tid key sid. R (g, ec) (g, write_channel ch v tid key sid step ec)"
    and R_link: "\<And>g ec ch n. R (g, ec) (addNodeTrigger ch n (graph_addChannel ch BehaviorLastValue g),
        ec\<lparr>ec_channels := AddChannel ch BehaviorLastValue (ec_channels ec)\<rparr>)"
    and R_enqueue: "\<And>g ec ts. R (g, ec) (g, ec\<lparr>ec_pending_tasks := ec_pending_tasks ec @ ts\<rparr>)"
    and R_seen: "\<And>g ec n trs. R (g, ec) (g, updateVersionsSeen n trs ec)"
    and R_trace: "\<And>g ec tid sid. R (g, ec) (g, recordTraceStepID tid sid ec)"
    and R_untrace: "\<And>g ec tid. R (g, ec) (g, clearTraceStepID tid ec)"
begin

lemma R_update: "updateStateFromResult g st ec = Return ec' \<Longrightarrow> R (g, ec) (g, ec')"
  using R_state by (auto simp: updateStateFromResult_def run_bind_Return_iff)

lemma R_writes: "R (g, ec) (g, processChannelWrites tid sid ws step ec)"
proof (induction ws arbitrary: ec)
  case (Cons w ws)
  then show ?case using R_write R_trans by (simp, blast)
qed (simp add: R_refl)

lemma R_static: "R (g, ec) (g, static_writes t step ec)"
  by (simp add: static_writes_def R_writes)

lemma R_route: "R (g, ec) (route_to ch tgt tid sid step (g, ec))"
  using R_trans[OF R_link R_write] by (simp add: route_to_def)

lemma R_command:
  assumes "handleCommandResult c step tid (g, ec) = Return s'"
  shows "R (g, ec) s'"
proof -
  obtain ec1 where u: "(if cmd_update c \<noteq> [] then updateStateFromResult g (cmd_update c) ec else Return ec) = Return ec1"
    and r: "s' = (if cmd_goto c \<noteq> [] then handleCommandRouting tid (traceStepIDForTask ec1 tid) (cmd_goto c) step (g, ec1)
                     else (g, ec1))"
    using assms by (auto simp: handleCommandResult_def run_bind_Return_iff)
  have "R (g, ec) (g, ec1)" using u R_update R_refl by (cases "cmd_update c = []") auto
  moreover have "R (g, ec1) s'" using r R_refl R_route by (simp add: handleCommandRouting_def)
  ultimately show ?thesis by (rule R_trans)
qed

lemma R_result:
  assumes "handleNodeResult t result step (g, ec) = Return (s', routed)"
  shows "R (g, ec) s'"
proof (cases result)
  case (NRState st)
  with assms R_trans[OF R_update R_static] show ?thesis by (auto simp: handleNodeResult_def run_bind_Return_iff)
next
  case (NRCommand oc)
  show ?thesis
  proof (cases oc)
    case None
    with NRCommand assms R_static show ?thesis by (auto simp: handleNodeResult_def)
  next
    case (Some c)
    define d where "d = c\<lparr>cmd_goto := resolve_goto g (tk_node_id t) (cmd_goto c)\<rparr>"
    have "handleNodeResult t result step (g, ec) = run_bind (handleCommandResult d step (tk_task_id t) (g, ec))
        (\<lambda>(g, ec). Return (if cmd_goto d \<noteq> [] then ((g, ec), True) else ((g, static_writes t step ec), False)))"
      by (simp add: handleNodeResult_def NRCommand Some d_def)
    with assms obtain g1 ec1 where c: "handleCommandResult d step (tk_task_id t) (g, ec) = Return (g1, ec1)"
      and r: "(if cmd_goto d \<noteq> [] then ((g1, ec1), True) else ((g1, static_writes t step ec1), False)) = (s', routed)"
      by (auto simp: run_bind_Return_iff)
    have "s' = (g1, ec1) \<or> s' = (g1, static_writes t step ec1)" using r by (cases "cmd_goto d = []") auto
    with R_command[OF c] R_trans[OF R_command[OF c] R_static] show ?thesis by blast
  qed
next
  case (NRCommands cs)
  with assms R_refl R_enqueue show ?thesis
    by (auto simp: handleNodeResult_def Let_def enqueueCommands_def run_bind_Return_iff split: if_splits)
qed (use assms R_static in \<open>auto simp: handleNodeResult_def\<close>)

lemma R_branches: "R s (fst (process_results ce rs step tid s))"
proof (induction rs arbitrary: s)
  case (Cons r rs)
  obtain g ec where s: "s = (g, ec)" by (cases s)
  obtain s1 e1 where p: "processConditionalResult ce r step tid (g, ec) = (s1, e1)" by (metis surj_pair)
  have "R s s1" using p R_refl R_route by (auto simp: s processConditionalResult_def Let_def split: if_splits)
  with Cons[of s1] p s R_trans show ?case by (auto split: option.splits)
qed (simp add: R_refl)

lemma R_finalize: "R s (fst (finalize_result t result step s))"
proof -
  obtain g ec where s: "s = (g, ec)" by (cases s)
  show ?thesis
  proof (cases "handleNodeResult t result step (g, ec)")
    case Panic
    then show ?thesis by (simp add: finalize_result_def s R_refl)
  next
    case (Return r)
    obtain g1 ec1 routed where r: "r = ((g1, ec1), routed)" by (metis surj_pair)
    let ?s2 = "(g1, updateVersionsSeen (tk_node_id t) (tk_triggers t) ec1)"
    have "R s ?s2" using R_trans[OF R_result[OF Return[unfolded r]] R_seen] s by simp
    moreover have "R ?s2 (fst (finalize_result t result step s))"
    proof (cases "routed \<or> processConditionalEdges t step ?s2 = Panic")
      case True
      then have "fst (finalize_result t result step s) = ?s2"
        using Return r s by (auto simp: finalize_result_def Let_def)
      then show ?thesis by (simp add: R_refl)
    next
      case False
      then obtain s3 e3 where c: "processConditionalEdges t step ?s2 = Return (s3, e3)"
        by (cases "processConditionalEdges t step ?s2") auto
      then have "s3 = ?s2 \<or> (\<exists>ce rs. process_results ce rs step (tk_task_id t) ?s2 = (s3, e3))"
        by (auto simp: processConditionalEdges_def split: option.splits sum.splits)
      then have "R ?s2 s3" using R_refl R_branches by (metis fst_conv)
      moreover have "fst (finalize_result t result step s) = s3"
        using False c Return r s by (simp add: finalize_result_def)
      ultimately show ?thesis by simp
    qed
    ultimately show ?thesis by (rule R_trans)
  qed
qed

lemma R_attempts:
  "execute_attempts g policies env nodeID k a st ec = (st', ec', n, r) \<Longrightarrow> R (g, ec) (g, ec')"
proof (induction g policies env nodeID k a st ec rule: execute_attempts.induct)
  case (1 g policies env nodeID k a st ec)
  obtain s1 x err where f: "executeNodeFunction g nodeID a st = (s1, (x, err))" by (metis surj_pair)
  show ?case
  proof (cases "\<exists>e. err = Some e \<and> evaluateRetryDecision policies nodeID k (int a) (env (int a)) e = None")
    case True
    then obtain e where e: "err = Some e" "evaluateRetryDecision policies nodeID k (int a) (env (int a)) e = None" by blast
    have "execute_attempts g policies env nodeID k (Suc a) s1 (syncResumeState s1 ec) = (st', ec', n, r)"
      using 1(2) f e by (subst (asm) execute_attempts.simps) simp
    from R_trans[OF R_sync 1(1)[OF refl f[symmetric] refl refl e this]] show ?thesis .
  next
    case False
    with 1(2) f have "ec' = syncResumeState s1 ec"
      by (subst (asm) execute_attempts.simps) (auto simp: Let_def split: option.splits)
    with R_sync show ?thesis by simp
  qed
qed

lemma R_task: "R s (fst (executeSingleTask policies env tr t step s))"
proof -
  obtain g ec where s: "s = (g, ec)" by (cases s)
  show ?thesis
  proof (cases "buildTaskStateCopy g ec t")
    case Panic
    then show ?thesis by (simp add: executeSingleTask_def s R_refl)
  next
    case (Return copy)
    let ?ec1 = "recordTraceStepID (tk_task_id t) tr ec"
    let ?copy = "if tr \<noteq> [] then gput currentTraceStepIDStateKey (VStr tr) copy else copy"
    obtain st ec2 n r where at: "execute_attempts g policies env (tk_node_id t) step 1 ?copy ?ec1 = (st, ec2, n, r)"
      by (metis prod_cases4)
    obtain g3 ec3 e3 where fin: "(case r of Inr te \<Rightarrow> ((g, ec2), Some te)
        | Inl result \<Rightarrow> finalize_result t result step (g, syncResumeState st ec2)) = ((g3, ec3), e3)"
      by (metis surj_pair)
    have res: "fst (executeSingleTask policies env tr t step s) = (g3, clearTraceStepID (tk_task_id t) ec3)"
      using at fin by (simp add: executeSingleTask_def Return Let_def s)
    have "R s (g, ec2)" using R_trans[OF R_trace R_attempts[OF at]] s by simp
    moreover have "R (g, ec2) (g3, ec3)"
    proof (cases r)
      case (Inl x)
      with fin have "(g3, ec3) = fst (finalize_result t x step (g, syncResumeState st ec2))" by simp
      with R_trans[OF R_sync R_finalize] show ?thesis by simp
    qed (use fin R_refl in auto)
    ultimately show ?thesis using R_untrace R_trans unfolding res by blast
  qed
qed

lemma R_step: "R s (fst (executeStep env step ts s))"
proof (induction ts arbitrary: s)
  case (Cons t ts)
  obtain s1 e1 where t: "run_task env step t s = (s1, e1)" by (metis surj_pair)
  have "R s s1" using R_task t by (metis fst_conv run_task_def)
  moreover have "fst (executeStep env step (t # ts) s) = fst (executeStep env step ts s1)"
    using t by (simp add: Let_def case_prod_beta)
  ultimately show ?case using Cons[of s1] R_trans by metis
qed (simp add: R_refl)

end

section \<open>Isolation of the tasks of a step\<close>

definition view_kept :: "graph \<times> exec_context \<Rightarrow> graph \<times> exec_context \<Rightarrow> bool" where
  "view_kept s s' \<longleftrightarrow> same_view (snd s) (snd s') \<and> same_graph (fst s) (fst s')"

lemma same_view_fields:
  "ec_state ec' = ec_state ec \<Longrightarrow> ec_planned ec' = ec_planned ec \<Longrightarrow> same_view ec ec'"
  by (rule same_view_eq) (rule planned_view_cong)

lemma view_kept_trans: "view_kept a b \<Longrightarrow> view_kept b c \<Longrightarrow> view_kept a c"
  unfolding view_kept_def using same_view_trans same_graph_trans by blast

interpretation view: step_frame view_kept step for step
proof (unfold_locales, goal_cases)
  case (2 a b c)
  then show ?case by (rule view_kept_trans)
qed (auto simp: view_kept_def same_view_sync same_view_eq updateVersionsSeen_def recordTraceStepID_def
      clearTraceStepID_def same_graph_def addNodeTrigger_def graph_addChannel_def Let_def intro!: same_view_fields)

definition copy_of :: "schema \<Rightarrow> string \<Rightarrow> gval \<Rightarrow> gval" where
  "copy_of flds k v =
     (if isUnsafeStateKey k \<or> (case gget flds k of None \<Rightarrow> False | Some f \<Rightarrow> f_disable_deep_copy f) then v else deepCopyAny v)"

lemma gget_map_key: "gget (map (\<lambda>(k, v). (k, f k v)) m) k = map_option (f k) (gget m k)"
  by (induction m) auto

lemma state_deepCopy_get: "gget (state_deepCopy True flds st) k = map_option (copy_of flds k) (gget st k)"
proof -
  have "state_deepCopy True flds st = map (\<lambda>(k, v). (k, copy_of flds k v)) st"
    by (auto simp: state_deepCopy_def copy_of_def)
  then show ?thesis by (simp add: gget_map_key)
qed



definition demo_env :: step_env where
  "demo_env = \<lparr>se_policies = (\<lambda>_. []),
     se_attempts = (\<lambda>_ _. \<lparr>ae_elapsed = 0, ae_deadline_passed = False, ae_canceled = None\<rparr>), se_trace = (\<lambda>_. [])\<rparr>"

definition demo_task :: "string \<Rightarrow> task" where
  "demo_task n = \<lparr>tk_node_id = n, tk_input = PlannedState, tk_writes = [edge_writer ''b''], tk_triggers = [],
     tk_task_id = n, tk_task_path = [n], tk_overlay = None, tk_predecessors = []\<rparr>"


end
