(* ===== verification/Interrupts.thy ===== *)
theory Interrupts
  imports Step_Frame
begin

text \<open>
  Interrupts (\<open>graph/interrupt.go\<close>, \<open>graph/resume.go\<close>, \<open>graph/static_interrupt.go\<close>): what a node calls to
  stop and to read the answer it is resumed with, and the break points the executor checks before and
  after a step.  The maps a state holds are changed in place by the code, which here stores the new
  map back.  The payload of a static interrupt is the map its JSON tags give.
\<close>

section \<open>Interrupt errors and resume commands\<close>

definition NewInterruptError :: "gval \<Rightarrow> interrupt_error" where
  "NewInterruptError v =
     \<lparr>ie_value = v, ie_node_id = [], ie_task_id = [], ie_key = [], ie_step = 0, ie_skip_rerun = False,
      ie_next_nodes = [], ie_path = []\<rparr>"

definition GetInterruptError :: "task_error \<Rightarrow> interrupt_error option" where
  "GetInterruptError e = (case e of TaskInterrupt ie \<Rightarrow> Some ie | _ \<Rightarrow> None)"

record resume_command =
  rc_resume :: gval
  rc_resume_map :: "state option"

definition NewResumeCommand :: resume_command where
  "NewResumeCommand = \<lparr>rc_resume = VNil, rc_resume_map = Some []\<rparr>"

definition WithResume :: "gval \<Rightarrow> resume_command \<Rightarrow> resume_command" where
  "WithResume v c = c\<lparr>rc_resume := v\<rparr>"

definition command_WithResumeMap :: "state option \<Rightarrow> resume_command \<Rightarrow> resume_command" where
  "command_WithResumeMap m c = c\<lparr>rc_resume_map := m\<rparr>"

definition command_AddResumeValue :: "string \<Rightarrow> gval \<Rightarrow> resume_command \<Rightarrow> resume_command" where
  "command_AddResumeValue taskID v c = c\<lparr>rc_resume_map := Some (gput taskID v (elems (rc_resume_map c)))\<rparr>"

section \<open>Interrupting and reading the answer\<close>

text \<open>\<open>state[key].(map[string]any)\<close>: a map that is there and not nil.\<close>

definition map_entry :: "string \<Rightarrow> state \<Rightarrow> state option" where
  "map_entry key st = (case gget st key of Some (VMap (Some m)) \<Rightarrow> Some m | _ \<Rightarrow> None)"

definition use_value :: "string \<Rightarrow> gval \<Rightarrow> state \<Rightarrow> state" where
  "use_value key v st =
     gput StateKeyUsedInterrupts (VMap (Some (gput key v (elems (map_entry StateKeyUsedInterrupts st))))) st"

definition Interrupt :: "string \<Rightarrow> gval \<Rightarrow> state \<Rightarrow> state \<times> (gval + interrupt_error)" where
  "Interrupt key prompt st =
     (let used = elems (map_entry StateKeyUsedInterrupts st);
          st = (if map_entry StateKeyUsedInterrupts st = None then gput StateKeyUsedInterrupts (VMap (Some [])) st else st)
      in case gget used key of
           Some v \<Rightarrow> (st, Inl v)
         | None \<Rightarrow>
             (case gget st ResumeChannel of
                Some v \<Rightarrow> (gdel ResumeChannel (use_value key v st), Inl v)
              | None \<Rightarrow>
                  (case map_entry StateKeyResumeMap st of
                     Some rm \<Rightarrow>
                       (case gget rm key of
                          Some v \<Rightarrow> (gput StateKeyResumeMap (VMap (Some (gdel key rm))) (use_value key v st), Inl v)
                        | None \<Rightarrow> (st, Inr ((NewInterruptError prompt)\<lparr>ie_key := key, ie_task_id := key\<rparr>)))
                   | None \<Rightarrow> (st, Inr ((NewInterruptError prompt)\<lparr>ie_key := key, ie_task_id := key\<rparr>)))))"

text \<open>The type parameter of \<open>ResumeValue\<close> is the test its assertion makes.\<close>

definition ResumeValue :: "(gval \<Rightarrow> bool) \<Rightarrow> string \<Rightarrow> state \<Rightarrow> state \<times> gval option" where
  "ResumeValue fits key st =
     (case gget st ResumeChannel of
        Some v \<Rightarrow> if fits v then (gdel ResumeChannel st, Some v) else
          (case map_entry StateKeyResumeMap st of
             None \<Rightarrow> (st, None)
           | Some rm \<Rightarrow> (case gget rm key of
               Some v \<Rightarrow> if fits v then (gput StateKeyResumeMap (VMap (Some (gdel key rm))) st, Some v) else (st, None)
             | None \<Rightarrow> (st, None)))
      | None \<Rightarrow>
          (case map_entry StateKeyResumeMap st of
             None \<Rightarrow> (st, None)
           | Some rm \<Rightarrow> (case gget rm key of
               Some v \<Rightarrow> if fits v then (gput StateKeyResumeMap (VMap (Some (gdel key rm))) st, Some v) else (st, None)
             | None \<Rightarrow> (st, None))))"

definition ResumeValueOrDefault :: "(gval \<Rightarrow> bool) \<Rightarrow> string \<Rightarrow> gval \<Rightarrow> state \<Rightarrow> state \<times> gval" where
  "ResumeValueOrDefault fits key d st =
     (case ResumeValue fits key st of (st', Some v) \<Rightarrow> (st', v) | (st', None) \<Rightarrow> (st', d))"

definition HasResumeValue :: "state \<Rightarrow> string \<Rightarrow> bool" where
  "HasResumeValue st key \<longleftrightarrow> ghas st ResumeChannel
     \<or> (case map_entry StateKeyResumeMap st of None \<Rightarrow> False | Some rm \<Rightarrow> ghas rm key)"

definition ClearResumeValue :: "string \<Rightarrow> state \<Rightarrow> state" where
  "ClearResumeValue key st =
     (case map_entry StateKeyResumeMap st of
        None \<Rightarrow> st
      | Some rm \<Rightarrow> gput StateKeyResumeMap (VMap (Some (gdel key rm))) st)"

definition ClearAllResumeValues :: "state \<Rightarrow> state" where
  "ClearAllResumeValues st = gdel StateKeyResumeMap (gdel ResumeChannel st)"

section \<open>Static interrupts\<close>

definition StateKeyStaticInterruptSkips :: string where
  "StateKeyStaticInterruptSkips = ''__static_interrupt_skips__''"

definition StaticInterruptKeyPrefixBefore :: string where
  "StaticInterruptKeyPrefixBefore = ''static_interrupt_before:''"

definition StaticInterruptKeyPrefixAfter :: string where
  "StaticInterruptKeyPrefixAfter = ''static_interrupt_after:''"

text \<open>\<open>keysOfSet\<close> of the set built from a list.\<close>

definition keysOfSet :: "string list \<Rightarrow> string list" where
  "keysOfSet ns = sort (dedup_seen [] ns)"

definition uniqueSortedTaskNodes :: "task list \<Rightarrow> string list" where
  "uniqueSortedTaskNodes ts = keysOfSet (filter (\<lambda>n. n \<noteq> []) (map tk_node_id ts))"

definition staticInterruptHits :: "graph \<Rightarrow> task list \<Rightarrow> bool \<Rightarrow> string list" where
  "staticInterruptHits g ts isBefore =
     keysOfSet (filter (\<lambda>n. n \<noteq> [] \<and> (case graph_Node g n of None \<Rightarrow> False
        | Some nd \<Rightarrow> if isBefore then nd_interrupt_before nd else nd_interrupt_after nd)) (map tk_node_id ts))"

definition static_payload :: "string \<Rightarrow> string list \<Rightarrow> string list \<Rightarrow> gval" where
  "static_payload phase hits active =
     VMap (Some ([(''phase'', VStr phase), (''nodes'', VStrs (Some hits))]
                 @ (if active = [] then [] else [(''activeNodes'', VStrs (Some active))])))"

definition newStaticInterruptError :: "bool \<Rightarrow> string list \<Rightarrow> string list \<Rightarrow> int \<Rightarrow> interrupt_error" where
  "newStaticInterruptError isBefore hits active step =
     (let nodeID = (case hits of [] \<Rightarrow> [] | n # _ \<Rightarrow> n) in
      (NewInterruptError (static_payload (if isBefore then ''before'' else ''after'') hits active))
        \<lparr>ie_node_id := nodeID, ie_task_id := nodeID,
         ie_key := (if isBefore then StaticInterruptKeyPrefixBefore else StaticInterruptKeyPrefixAfter) @ nodeID,
         ie_skip_rerun := \<not> isBefore, ie_step := step\<rparr>)"

text \<open>A typed nil map is returned as it is; the code then panics when it stores into it.\<close>

definition getStaticInterruptSkips :: "state \<Rightarrow> state \<times> state option" where
  "getStaticInterruptSkips st =
     (case gget st StateKeyStaticInterruptSkips of
        Some (VMap m) \<Rightarrow> (st, m)
      | _ \<Rightarrow> (gput StateKeyStaticInterruptSkips (VMap (Some [])) st, Some []))"

definition hasSkipsForAll :: "state \<Rightarrow> string list \<Rightarrow> bool" where
  "hasSkipsForAll skips ns \<longleftrightarrow> ns \<noteq> [] \<and> list_all (ghas skips) ns"

definition setSkips :: "state \<Rightarrow> string list \<Rightarrow> state" where
  "setSkips skips ns = fold (\<lambda>n. gput n (VBool True)) ns skips"

definition clearSkips :: "state \<Rightarrow> state \<Rightarrow> string list \<Rightarrow> state" where
  "clearSkips st skips ns =
     (let skips = fold gdel ns skips
      in if skips = [] then gdel StateKeyStaticInterruptSkips st
         else gput StateKeyStaticInterruptSkips (VMap (Some skips)) st)"

text \<open>
  The check before a step, on the execution state.  Called right after planning, when that state
  still is the map the tasks hold.
\<close>

definition maybeStaticInterruptBefore ::
    "graph \<Rightarrow> task list \<Rightarrow> int \<Rightarrow> state \<Rightarrow> (state \<times> interrupt_error option) run" where
  "maybeStaticInterruptBefore g ts step st =
     (let hits = staticInterruptHits g ts True in
      if hits = [] then Return (st, None)
      else let (st, found) = getStaticInterruptSkips st; skips = elems found in
        if hasSkipsForAll skips hits then Return (clearSkips st skips hits, None)
        else if found = None then Panic
        else Return (gput StateKeyStaticInterruptSkips (VMap (Some (setSkips skips hits))) st,
              Some ((newStaticInterruptError True hits (uniqueSortedTaskNodes ts) step)
                      \<lparr>ie_next_nodes := uniqueSortedTaskNodes ts\<rparr>)))"

definition maybeStaticInterruptAfter :: "graph \<Rightarrow> task list \<Rightarrow> int \<Rightarrow> interrupt_error option" where
  "maybeStaticInterruptAfter g ts step =
     (let hits = staticInterruptHits g ts False in
      if hits = [] then None
      else Some (newStaticInterruptError False hits (uniqueSortedTaskNodes ts) step))"

section \<open>Answers accumulate\<close>

text \<open>The interrupts a node runs through in order, up to the first that stops it.\<close>

fun run_interrupts :: "(string \<times> gval) list \<Rightarrow> state \<Rightarrow> state \<times> gval list \<times> interrupt_error option" where
  "run_interrupts [] st = (st, [], None)"
| "run_interrupts ((k, p) # ks) st =
     (case Interrupt k p st of
        (st', Inr e) \<Rightarrow> (st', [], Some e)
      | (st', Inl v) \<Rightarrow> (case run_interrupts ks st' of (st2, vs, e) \<Rightarrow> (st2, v # vs, e)))"

definition used_answers :: "state \<Rightarrow> state" where
  "used_answers st = elems (map_entry StateKeyUsedInterrupts st)"

lemmas resume_key_defs = ResumeChannel_def StateKeyUsedInterrupts_def StateKeyResumeMap_def

lemma map_entry_gput [simp]:
  "map_entry k (gput k' v st) = (if k = k' then (case v of VMap m \<Rightarrow> m | _ \<Rightarrow> None) else map_entry k st)"
  by (auto simp: map_entry_def split: gval.splits option.splits)

lemma map_entry_gdel [simp]: "map_entry k (gdel k' st) = (if k = k' then None else map_entry k st)"
  by (simp add: map_entry_def)

lemma Interrupt_answered:
  assumes "map_entry StateKeyUsedInterrupts st = Some u" "gget u k = Some v"
  shows "Interrupt k p st = (st, Inl v)"
  using assms by (simp add: Interrupt_def elems_def)

lemma Interrupt_records:
  assumes "Interrupt k p st = (st', r)"
  shows "map_entry StateKeyUsedInterrupts st' \<noteq> None"
    "\<And>k' w. gget (used_answers st) k' = Some w \<Longrightarrow> gget (used_answers st') k' = Some w"
    "\<And>v. r = Inl v \<Longrightarrow> gget (used_answers st') k = Some v"
    "\<And>e. r = Inr e \<Longrightarrow> gget st' ResumeChannel = None \<and> gget (used_answers st') k = None"
  using assms
  by (auto simp: Interrupt_def Let_def used_answers_def use_value_def elems_def resume_key_defs
      split: option.splits if_splits)

lemma run_interrupts_records:
  assumes "run_interrupts ks st = (st', vs, e)"
  shows "length vs \<le> length ks \<and> (ks \<noteq> [] \<longrightarrow> map_entry StateKeyUsedInterrupts st' \<noteq> None)
     \<and> (\<forall>k w. gget (used_answers st) k = Some w \<longrightarrow> gget (used_answers st') k = Some w)
     \<and> (\<forall>i < length vs. gget (used_answers st') (fst (ks ! i)) = Some (vs ! i))
     \<and> (\<forall>x. e = Some x \<longrightarrow> length vs < length ks \<and> gget st' ResumeChannel = None
            \<and> gget (used_answers st') (fst (ks ! length vs)) = None)"
  using assms
proof (induction ks st arbitrary: st' vs e rule: run_interrupts.induct)
  case (2 k p ks st)
  obtain st1 r where i: "Interrupt k p st = (st1, r)" by (metis surj_pair)
  note rec = Interrupt_records[OF i]
  show ?case
  proof (cases r)
    case (Inr x)
    with 2(2) i rec show ?thesis by auto
  next
    case (Inl v)
    obtain st2 ws e2 where n: "run_interrupts ks st1 = (st2, ws, e2)" by (metis prod_cases3)
    with 2(2) i Inl have eq: "st' = st2" "vs = v # ws" "e = e2" by auto
    note IH = 2(1)[OF i[symmetric] Inl n]
    from n have "ks = [] \<Longrightarrow> st2 = st1 \<and> ws = []" by auto
    with IH eq rec Inl show ?thesis by (fastforce simp: nth_Cons split: nat.splits)
  qed
qed auto

lemma run_interrupts_replay:
  assumes "map_entry StateKeyUsedInterrupts st = Some u" "length vs \<le> length ks"
    "\<forall>i < length vs. gget u (fst (ks ! i)) = Some (vs ! i)"
  shows "run_interrupts ks st = (case run_interrupts (drop (length vs) ks) st of (st', ws, e) \<Rightarrow> (st', vs @ ws, e))"
  using assms(2,3)
proof (induction vs arbitrary: ks)
  case (Cons v vs)
  then obtain k p ks' where ks: "ks = (k, p) # ks'" by (cases ks) auto
  have "Interrupt k p st = (st, Inl v)" using Cons.prems(2) ks by (intro Interrupt_answered[OF assms(1)]) auto
  moreover have "run_interrupts ks' st = (case run_interrupts (drop (length vs) ks') st of (st', ws, e) \<Rightarrow> (st', vs @ ws, e))"
    using Cons.prems ks by (intro Cons.IH) auto
  ultimately show ?case by (simp add: ks split: prod.splits)
qed (simp split: prod.splits)

lemma no_new_answer:
  "gget st ResumeChannel = None \<Longrightarrow> run_interrupts qs st = (st', vs, e) \<Longrightarrow> gget st' ResumeChannel = None"
proof (induction qs st arbitrary: st' vs e rule: run_interrupts.induct)
  case (2 k p ks st)
  have "gget (fst (Interrupt k p st)) ResumeChannel = None" using 2(2)
    by (auto simp: Interrupt_def Let_def use_value_def resume_key_defs split: option.splits)
  with 2 show ?case by (auto split: prod.splits sum.splits)
qed simp



section \<open>Break points\<close>

lemma fold_gdel_set: "gget (fold gdel ns m) k = (if k \<in> set ns then None else gget m k)"
  by (induction ns arbitrary: m) auto

lemma setSkips_get: "gget (setSkips m ns) k = (if k \<in> set ns then Some (VBool True) else gget m k)"
  unfolding setSkips_def by (induction ns arbitrary: m) auto

text \<open>
  A break point stops the run once per visit.  When the tasks of a step include nodes with a break
  point before them and the state carries no mark, the check stops and asks for exactly the planned
  nodes to be run again; checked again on the state it left, it lets them pass, and the state is what
  it was, so the next visit stops again.
\<close>

theorem break_point_stops_once:
  assumes "staticInterruptHits g ts True \<noteq> []" "gget st StateKeyStaticInterruptSkips = None"
  shows "\<exists>st1 ie st2. maybeStaticInterruptBefore g ts step st = Return (st1, Some ie)
     \<and> ie_next_nodes ie = uniqueSortedTaskNodes ts \<and> ie_node_id ie \<in> set (staticInterruptHits g ts True)
     \<and> maybeStaticInterruptBefore g ts step' st1 = Return (st2, None) \<and> (\<forall>k. gget st2 k = gget st k)"
proof -
  let ?h = "staticInterruptHits g ts True"
  let ?st1 = "gput StateKeyStaticInterruptSkips (VMap (Some (setSkips [] ?h)))
      (gput StateKeyStaticInterruptSkips (VMap (Some [])) st)"
  have n: "\<not> hasSkipsForAll [] ?h" using assms(1) by (cases ?h) (auto simp: hasSkipsForAll_def)
  have all: "hasSkipsForAll (setSkips [] ?h) ?h"
    using assms(1) by (auto simp: hasSkipsForAll_def list_all_iff ghas_def setSkips_get)
  have e: "fold gdel ?h (setSkips [] ?h) = []"
  proof -
    have "keyset (fold gdel ?h (setSkips [] ?h)) = {}" by (auto simp: keyset_get fold_gdel_set setSkips_get split: if_splits)
    then show ?thesis by (simp add: keyset_def)
  qed
  have h: "?h = hd ?h # tl ?h" using assms(1) by simp
  have one: "maybeStaticInterruptBefore g ts step st = Return (?st1,
      Some ((newStaticInterruptError True ?h (uniqueSortedTaskNodes ts) step)\<lparr>ie_next_nodes := uniqueSortedTaskNodes ts\<rparr>))"
    using assms n by (simp add: maybeStaticInterruptBefore_def getStaticInterruptSkips_def elems_def Let_def)
  have two: "maybeStaticInterruptBefore g ts step' ?st1 = Return (gdel StateKeyStaticInterruptSkips ?st1, None)"
    using assms(1) all e by (simp add: maybeStaticInterruptBefore_def getStaticInterruptSkips_def elems_def Let_def clearSkips_def)
  have "hd ?h \<in> set ?h" using assms(1) by simp
  then have "ie_node_id (newStaticInterruptError True ?h (uniqueSortedTaskNodes ts) step) \<in> set ?h"
    by (subst h) (simp add: newStaticInterruptError_def Let_def)
  with one two assms(2) show ?thesis by auto
qed

definition break_graph :: graph where
  "break_graph = sg_graph (setStaticInterruptNodes True [''a'']
     (AddNode ''a'' (\<lambda>k st. (st, Return (NRNil, None))) [] (NewStateGraph None)))"

definition break_task :: task where
  "break_task = \<lparr>tk_node_id = ''a'', tk_input = PlannedState, tk_writes = [], tk_triggers = [],
     tk_task_id = ''a-0'', tk_task_path = [], tk_overlay = None, tk_predecessors = []\<rparr>"

theorem break_point_stops_once_witness:
  "\<exists>st1 ie st2. maybeStaticInterruptBefore break_graph [break_task] 0 [(''x'', VInt 1)] = Return (st1, Some ie)
     \<and> ie_next_nodes ie = [''a'']
     \<and> maybeStaticInterruptBefore break_graph [break_task] 0 st1 = Return (st2, None)
     \<and> (\<forall>k. gget st2 k = gget [(''x'', VInt 1)] k)"
proof -
  have "staticInterruptHits break_graph [break_task] True \<noteq> []" "uniqueSortedTaskNodes [break_task] = [''a'']"
    "gget [(''x'', VInt 1)] StateKeyStaticInterruptSkips = None" by code_simp+
  with break_point_stops_once[of break_graph "[break_task]" "[(''x'', VInt 1)]" 0 0] show ?thesis by auto
qed

end
