(* ===== verification/Saver_InMemory.thy ===== *)
theory Saver_InMemory
  imports Checkpoint_Data
begin

text \<open>
  \<open>graph/checkpoint/inmemory/inmemory.go\<close>: the in-memory checkpoint saver.  Storage is a map from
  lineage to namespace to checkpoint ID; the writes have a map of the same shape.  \<open>Put\<close> and \<open>PutFull\<close>
  refuse a nil checkpoint, so the checkpoint of a stored tuple is never nil and the code's checks
  for that are left out.  \<open>sort.Slice\<close> is the stable sort: which order it gives equal time stamps
  depends, as in the code, on the iteration order of the maps.
\<close>

section \<open>Nested maps\<close>

type_synonym 'v nested = "(string, (string, (string, 'v) gomap) gomap) gomap"

definition sub :: "('k, ('k2, 'v) gomap) gomap \<Rightarrow> 'k \<Rightarrow> ('k2, 'v) gomap" where
  "sub m k = (case gget m k of None \<Rightarrow> [] | Some x \<Rightarrow> x)"

definition nget :: "'v nested \<Rightarrow> string \<Rightarrow> string \<Rightarrow> string \<Rightarrow> 'v option" where
  "nget m l n c = gget (sub (sub m l) n) c"

definition nset :: "string \<Rightarrow> string \<Rightarrow> (string, 'v) gomap \<Rightarrow> 'v nested \<Rightarrow> 'v nested" where
  "nset l n x m = gput l (gput n x (sub m l)) m"

lemma sub_gput [simp]: "sub (gput k x m) k' = (if k' = k then x else sub m k')"
  by (simp add: sub_def)

lemma sub_gdel [simp]: "sub (gdel k m) k' = (if k' = k then [] else sub m k')"
  by (simp add: sub_def)

lemma nget_nset: "nget (nset l n x m) l' n' c = (if l' = l \<and> n' = n then gget x c else nget m l' n' c)"
  by (simp add: nget_def nset_def)

lemma sub_nset: "sub (sub (nset l n x m) l') n' = (if l' = l \<and> n' = n then x else sub (sub m l') n')"
  by (simp add: nset_def)

section \<open>The saver\<close>

record saver =
  sv_storage :: "checkpoint_tuple nested"
  sv_writes :: "pending_write list nested"
  sv_max :: int

definition NewSaver :: saver where
  "NewSaver = \<lparr>sv_storage = [], sv_writes = [], sv_max = DefaultMaxCheckpointsPerLineage\<rparr>"

definition WithMaxCheckpointsPerLineage :: "int \<Rightarrow> saver \<Rightarrow> saver" where
  "WithMaxCheckpointsPerLineage n s = s\<lparr>sv_max := n\<rparr>"

datatype saver_error = LineageRequired | CheckpointNil | LineageAndIDRequired

abbreviation tuple_time :: "checkpoint_tuple \<Rightarrow> int" where
  "tuple_time t \<equiv> ck_timestamp (tp_checkpoint t)"

text \<open>The loop of \<open>findLatestInMap\<close>, from the zero time: a later time stamp replaces the find.\<close>

fun findLatestInMap :: "(string \<times> checkpoint_tuple) list \<Rightarrow> int \<Rightarrow> checkpoint_tuple option \<Rightarrow> checkpoint_tuple option" where
  "findLatestInMap [] latestTime latest = latest"
| "findLatestInMap ((c, t) # rest) latestTime latest =
     (if tuple_time t > latestTime then findLatestInMap rest (tuple_time t) (Some t)
      else findLatestInMap rest latestTime latest)"

definition findLatestTuple :: "(string, (string, checkpoint_tuple) gomap) gomap \<Rightarrow> string \<Rightarrow> checkpoint_tuple option" where
  "findLatestTuple namespaces n =
     (case gget namespaces n of None \<Rightarrow> None | Some cps \<Rightarrow> findLatestInMap cps 0 None)"

definition createResultTuple :: "saver \<Rightarrow> checkpoint_tuple \<Rightarrow> string \<Rightarrow> string \<Rightarrow> string \<Rightarrow> checkpoint_tuple" where
  "createResultTuple s t l n c =
     \<lparr>tp_config = tp_config t, tp_checkpoint = Copy (tp_checkpoint t), tp_metadata = tp_metadata t,
      tp_parent_config = tp_parent_config t,
      tp_pending_writes = (case nget (sv_writes s) l n c of None \<Rightarrow> [] | Some ws \<Rightarrow> ws)\<rparr>"

text \<open>A lookup without an ID writes the ID it finds into the caller's configuration.\<close>

definition pin_config :: "string \<Rightarrow> config \<Rightarrow> config" where
  "pin_config c config =
     (case gget config CfgKeyConfigurable of
        Some (VMap (Some m)) \<Rightarrow> gput CfgKeyConfigurable (VMap (Some (gput CfgKeyCheckpointID (VStr c) m))) config
      | _ \<Rightarrow> config)"

definition getLatestCheckpoint :: "saver \<Rightarrow> string \<Rightarrow> string \<Rightarrow> config \<Rightarrow> checkpoint_tuple option \<times> config" where
  "getLatestCheckpoint s l n config =
     (case gget (sv_storage s) l of
        None \<Rightarrow> (None, config)
      | Some namespaces \<Rightarrow>
          (case findLatestTuple namespaces n of
             None \<Rightarrow> (None, config)
           | Some t \<Rightarrow> (let c = ck_id (tp_checkpoint t)
                       in (Some (createResultTuple s t l n c), pin_config c config))))"

definition findCheckpointByID ::
    "(string, (string, checkpoint_tuple) gomap) gomap \<Rightarrow> string \<Rightarrow> string \<Rightarrow> checkpoint_tuple option" where
  "findCheckpointByID namespaces n c =
     (case gget namespaces n of None \<Rightarrow> None | Some cps \<Rightarrow> gget cps c)"

definition getSpecificCheckpoint :: "saver \<Rightarrow> string \<Rightarrow> string \<Rightarrow> string \<Rightarrow> checkpoint_tuple option" where
  "getSpecificCheckpoint s l n c =
     (case gget (sv_storage s) l of
        None \<Rightarrow> None
      | Some namespaces \<Rightarrow>
          (case findCheckpointByID namespaces n c of
             None \<Rightarrow> None
           | Some t \<Rightarrow> Some (createResultTuple s t l n c)))"

definition GetTuple :: "config \<Rightarrow> saver \<Rightarrow> (checkpoint_tuple option \<times> config) + saver_error" where
  "GetTuple config s =
     (let l = GetLineageID config; n = GetNamespace config; c = GetCheckpointID config in
      if l = [] then Inr LineageRequired
      else if c = [] then Inl (getLatestCheckpoint s l n config)
      else Inl (getSpecificCheckpoint s l n c, config))"

definition saver_Get :: "config \<Rightarrow> saver \<Rightarrow> (checkpoint option \<times> config) + saver_error" where
  "saver_Get config s =
     (case GetTuple config s of
        Inr e \<Rightarrow> Inr e
      | Inl (t, config') \<Rightarrow> Inl (map_option tp_checkpoint t, config'))"

section \<open>Listing\<close>

text \<open>\<open>a == b\<close> on interface values: equal dynamic types that cannot be compared panic.\<close>

definition uncomparable :: "gotype set" where
  "uncomparable = {TStrings, TAnys, TMapAny, TMapBool, TMessage, TMessages, TMapMessages,
     TAppendMessages, TMessageOps, TFunc}"

definition iface_eq :: "gval \<Rightarrow> gval \<Rightarrow> bool run" where
  "iface_eq a b =
     (if type_of a \<noteq> type_of b then Return False
      else case type_of a of
          None \<Rightarrow> Return True
        | Some t \<Rightarrow> if t \<in> uncomparable then Panic else Return (a = b))"

definition passesBeforeFilter :: "checkpoint_tuple \<Rightarrow> (string, checkpoint_tuple) gomap \<Rightarrow> config option \<Rightarrow> bool" where
  "passesBeforeFilter t cps bfr =
     (case bfr of
        None \<Rightarrow> True
      | Some b \<Rightarrow>
          (if GetCheckpointID b = [] then True
           else case gget cps (GetCheckpointID b) of
               None \<Rightarrow> False
             | Some bt \<Rightarrow> tuple_time t < tuple_time bt))"

fun metadata_matches :: "state \<Rightarrow> state \<Rightarrow> bool run" where
  "metadata_matches extra [] = Return True"
| "metadata_matches extra ((k, v) # rest) =
     run_bind (iface_eq (case gget extra k of None \<Rightarrow> VNil | Some x \<Rightarrow> x) v)
       (\<lambda>same. if \<not> same then Return False else metadata_matches extra rest)"

definition passesMetadataFilter :: "checkpoint_tuple \<Rightarrow> state \<Rightarrow> bool run" where
  "passesMetadataFilter t md =
     (if md = [] then Return True
      else case tp_metadata t of
          None \<Rightarrow> Return False
        | Some m \<Rightarrow> (case md_extra m of
              None \<Rightarrow> Return False
            | Some extra \<Rightarrow> metadata_matches extra md))"

definition passesFilters ::
    "checkpoint_tuple \<Rightarrow> (string, checkpoint_tuple) gomap \<Rightarrow> checkpoint_filter option \<Rightarrow> bool run" where
  "passesFilters t cps flt =
     (case flt of
        None \<Rightarrow> Return True
      | Some f \<Rightarrow>
          (if \<not> passesBeforeFilter t cps (cf_before f) then Return False
           else passesMetadataFilter t (cf_metadata f)))"

fun collect :: "saver \<Rightarrow> string \<Rightarrow> string \<Rightarrow> (string, checkpoint_tuple) gomap \<Rightarrow> checkpoint_filter option
    \<Rightarrow> (string \<times> checkpoint_tuple) list \<Rightarrow> checkpoint_tuple list run" where
  "collect s l n cps flt [] = Return []"
| "collect s l n cps flt ((c, t) # rest) =
     run_bind (passesFilters t cps flt) (\<lambda>ok.
       run_bind (collect s l n cps flt rest) (\<lambda>ts.
         Return (if ok then createResultTuple s t l n c # ts else ts)))"

fun collect_all :: "saver \<Rightarrow> string \<Rightarrow> checkpoint_filter option
    \<Rightarrow> (string \<times> (string, checkpoint_tuple) gomap) list \<Rightarrow> checkpoint_tuple list run" where
  "collect_all s l flt [] = Return []"
| "collect_all s l flt ((n, cps) # rest) =
     run_bind (collect s l n cps flt cps) (\<lambda>ts.
       run_bind (collect_all s l flt rest) (\<lambda>us. Return (ts @ us)))"

definition apply_limit :: "checkpoint_filter option \<Rightarrow> 'a list \<Rightarrow> 'a list" where
  "apply_limit flt xs =
     (case flt of
        None \<Rightarrow> xs
      | Some f \<Rightarrow> if cf_limit f > 0 \<and> int (length xs) > cf_limit f then take (nat (cf_limit f)) xs else xs)"

definition saver_List ::
    "config \<Rightarrow> checkpoint_filter option \<Rightarrow> saver \<Rightarrow> (checkpoint_tuple list + saver_error) run" where
  "saver_List config flt s =
     (let l = GetLineageID config; n = GetNamespace config in
      if l = [] then Return (Inr LineageRequired)
      else case gget (sv_storage s) l of
          None \<Rightarrow> Return (Inl [])
        | Some namespaces \<Rightarrow>
            (if n \<noteq> [] \<and> gget namespaces n = None then Return (Inl [])
             else run_bind (if n = [] then collect_all s l flt namespaces
                            else collect s l n (sub namespaces n) flt (sub namespaces n))
               (\<lambda>results. Return (Inl (apply_limit flt (sort_key (\<lambda>t. - tuple_time t) results))))))"

section \<open>Eviction\<close>

text \<open>
  The double loop of \<open>cleanupOldCheckpoints\<close>, which swaps an element with every later one that is
  older: \<open>exchange_pass\<close> is the inner loop, returning the element left in front and the rest.
\<close>

fun exchange_pass :: "(string \<times> int) \<Rightarrow> (string \<times> int) list \<Rightarrow> (string \<times> int) \<times> (string \<times> int) list" where
  "exchange_pass x [] = (x, [])"
| "exchange_pass x (y # ys) =
     (if snd x > snd y then (let (m, r) = exchange_pass y ys in (m, x # r))
      else (let (m, r) = exchange_pass x ys in (m, y # r)))"

lemma exchange_pass_length [simp]: "length (snd (exchange_pass x ys)) = length ys"
  by (induction x ys rule: exchange_pass.induct) (auto simp: Let_def case_prod_beta)

function exchange_sort :: "(string \<times> int) list \<Rightarrow> (string \<times> int) list" where
  "exchange_sort [] = []"
| "exchange_sort (x # xs) = fst (exchange_pass x xs) # exchange_sort (snd (exchange_pass x xs))"
  by pat_completeness auto
termination by (relation "measure length") auto

definition evicted_ids :: "int \<Rightarrow> (string, checkpoint_tuple) gomap \<Rightarrow> string list run" where
  "evicted_ids mx cps =
     (if int (length cps) \<le> mx then Return []
      else let infos = exchange_sort (map (\<lambda>(c, t). (c, tuple_time t)) cps);
               toRemove = int (length infos) - mx
        in if toRemove > int (length infos) then Panic
           else Return (map fst (take (nat toRemove) infos)))"

definition cleanupOldCheckpoints :: "string \<Rightarrow> string \<Rightarrow> saver \<Rightarrow> saver run" where
  "cleanupOldCheckpoints l n s =
     run_bind (evicted_ids (sv_max s) (sub (sub (sv_storage s) l) n)) (\<lambda>ids.
       Return (if ids = [] then s
               else s\<lparr>sv_storage := nset l n (fold gdel ids (sub (sub (sv_storage s) l) n)) (sv_storage s),
                      sv_writes := (if ghas (sv_writes s) l \<and> ghas (sub (sv_writes s) l) n
                                    then nset l n (fold gdel ids (sub (sub (sv_writes s) l) n)) (sv_writes s)
                                    else sv_writes s)\<rparr>))"

section \<open>Storing\<close>

fun first_namespace :: "string \<Rightarrow> (string \<times> (string, checkpoint_tuple) gomap) list \<Rightarrow> string" where
  "first_namespace c [] = []"
| "first_namespace c ((n, cps) # rest) = (if ghas cps c then n else first_namespace c rest)"

definition findParentNamespace :: "saver \<Rightarrow> string \<Rightarrow> string \<Rightarrow> string" where
  "findParentNamespace s l parent =
     (if l = [] \<or> parent = [] then [] else first_namespace parent (sub (sv_storage s) l))"

text \<open>The part \<open>Put\<close> and \<open>PutFull\<close> share: the stored tuple with its own and its parent's configuration.\<close>

definition make_tuple ::
    "saver \<Rightarrow> string \<Rightarrow> string \<Rightarrow> checkpoint \<Rightarrow> checkpoint_metadata option \<Rightarrow> (config \<times> checkpoint_tuple) run" where
  "make_tuple s l n c md =
     run_bind (CreateCheckpointConfig l (ck_id c) n) (\<lambda>updated.
       run_bind (if ck_parent c = [] then Return None
                 else run_bind (CreateCheckpointConfig l (ck_parent c) (findParentNamespace s l (ck_parent c)))
                        (\<lambda>p. Return (Some p)))
         (\<lambda>parent. Return (updated,
            \<lparr>tp_config = updated, tp_checkpoint = Copy c, tp_metadata = md,
             tp_parent_config = parent, tp_pending_writes = []\<rparr>)))"

definition store :: "string \<Rightarrow> string \<Rightarrow> string \<Rightarrow> 'v \<Rightarrow> 'v nested \<Rightarrow> 'v nested" where
  "store l n c v m = nset l n (gput c v (sub (sub m l) n)) m"

definition Put :: "put_request \<Rightarrow> saver \<Rightarrow> (saver \<times> (config + saver_error)) run" where
  "Put req s =
     (let l = GetLineageID (pr_config req); n = GetNamespace (pr_config req) in
      if l = [] then Return (s, Inr LineageRequired)
      else case pr_checkpoint req of
          None \<Rightarrow> Return (s, Inr CheckpointNil)
        | Some c \<Rightarrow>
            run_bind (make_tuple s l n c (pr_metadata req)) (\<lambda>(updated, t).
            run_bind (cleanupOldCheckpoints l n (s\<lparr>sv_storage := store l n (ck_id c) t (sv_storage s)\<rparr>))
              (\<lambda>s'. Return (s', Inl updated))))"

definition PutWrites :: "put_writes_request \<Rightarrow> saver \<Rightarrow> saver \<times> saver_error option" where
  "PutWrites req s =
     (let l = GetLineageID (pwr_config req); n = GetNamespace (pwr_config req);
          c = GetCheckpointID (pwr_config req) in
      if l = [] \<or> c = [] then (s, Some LineageAndIDRequired)
      else (s\<lparr>sv_writes := store l n c (pwr_writes req) (sv_writes s)\<rparr>, None))"

definition PutFull :: "put_full_request \<Rightarrow> saver \<Rightarrow> (saver \<times> (config + saver_error)) run" where
  "PutFull req s =
     (let l = GetLineageID (pf_config req); n = GetNamespace (pf_config req) in
      if l = [] then Return (s, Inr LineageRequired)
      else case pf_checkpoint req of
          None \<Rightarrow> Return (s, Inr CheckpointNil)
        | Some c \<Rightarrow>
            let s = s\<lparr>sv_writes := nset l n (sub (sub (sv_writes s) l) n) (sv_writes s)\<rparr> in
            run_bind (make_tuple s l n c (pf_metadata req)) (\<lambda>(updated, t).
            let s = s\<lparr>sv_storage := store l n (ck_id c) t (sv_storage s)\<rparr>;
                s = (if pf_pending_writes req \<noteq> []
                     then s\<lparr>sv_writes := store l n (ck_id c) (pf_pending_writes req) (sv_writes s)\<rparr> else s)
            in run_bind (cleanupOldCheckpoints l n s) (\<lambda>s'. Return (s', Inl updated))))"

definition DeleteLineage :: "string \<Rightarrow> saver \<Rightarrow> saver" where
  "DeleteLineage l s = s\<lparr>sv_storage := gdel l (sv_storage s), sv_writes := gdel l (sv_writes s)\<rparr>"

definition saver_Close :: "saver \<Rightarrow> saver" where
  "saver_Close s = s\<lparr>sv_storage := [], sv_writes := []\<rparr>"


section \<open>The eviction removes the oldest\<close>

lemma exchange_pass_props:
  "mset (fst (exchange_pass x ys) # snd (exchange_pass x ys)) = mset (x # ys)
   \<and> (\<forall>y \<in> set (x # ys). snd (fst (exchange_pass x ys)) \<le> snd y)"
proof (induction x ys rule: exchange_pass.induct)
  case (2 x y ys)
  show ?case
  proof (cases "snd x > snd y")
    case True
    with 2 show ?thesis by (fastforce simp: Let_def case_prod_beta)
  next
    case False
    with 2 show ?thesis by (fastforce simp: Let_def case_prod_beta)
  qed
qed simp

lemma mset_exchange_sort [simp]: "mset (exchange_sort xs) = mset xs"
proof (induction xs rule: exchange_sort.induct)
  case (2 x xs)
  then show ?case using exchange_pass_props[of x xs] by simp
qed simp

lemma sorted_exchange_sort: "sorted (map snd (exchange_sort xs))"
proof (induction xs rule: exchange_sort.induct)
  case (2 x xs)
  let ?m = "fst (exchange_pass x xs)" and ?r = "snd (exchange_pass x xs)"
  have mem: "set (exchange_sort ?r) = set ?r" using mset_exchange_sort by (metis set_mset_mset)
  have "set (?m # ?r) = set (x # xs)" using exchange_pass_props[of x xs] by (metis set_mset_mset)
  then have "\<forall>y \<in> set ?r. snd ?m \<le> snd y" using exchange_pass_props[of x xs] by auto
  with 2 mem show ?case by simp
qed simp

lemma length_exchange_sort [simp]: "length (exchange_sort xs) = length xs"
  by (metis mset_exchange_sort size_mset)

lemma sorted_take_drop:
  "sorted (map f xs) \<Longrightarrow> x \<in> set (take k xs) \<Longrightarrow> y \<in> set (drop k xs) \<Longrightarrow> f x \<le> f y"
  by (metis (mono_tags, lifting) append_take_drop_id image_eqI list.set_map map_append sorted_append)

definition stamps :: "(string, checkpoint_tuple) gomap \<Rightarrow> (string \<times> int) list" where
  "stamps cps = map (\<lambda>(c, t). (c, tuple_time t)) cps"

lemma map_fst_stamps [simp]: "map fst (stamps cps) = gkeys cps"
  by (simp add: stamps_def case_prod_beta comp_def)

lemma stamps_mem: "well_keyed cps \<Longrightarrow> (c, x) \<in> set (stamps cps) \<longleftrightarrow> (\<exists>t. gget cps c = Some t \<and> tuple_time t = x)"
  by (auto simp: stamps_def well_keyed_mem_get[symmetric])

lemma evicted_props:
  assumes "evicted_ids mx cps = Return ids" "well_keyed cps"
  shows "distinct ids" "set ids \<subseteq> keyset cps"
    "int (length ids) = (if int (length cps) \<le> mx then 0 else int (length cps) - mx)"
    "c \<in> set ids \<Longrightarrow> gget cps c = Some t \<Longrightarrow> d \<notin> set ids \<Longrightarrow> gget cps d = Some u \<Longrightarrow> tuple_time t \<le> tuple_time u"
proof -
  let ?infos = "exchange_sort (stamps cps)"
  let ?k = "nat (int (length cps) - mx)"
  have ms: "mset (map fst ?infos) = mset (gkeys cps)" by (metis map_fst_stamps mset_exchange_sort mset_map)
  then have dist: "distinct (map fst ?infos)"
    using assms(2) by (metis mset_eq_imp_distinct_iff well_keyed_def)
  have len: "length ?infos = length cps" by (simp add: stamps_def)
  have cases: "ids = [] \<and> int (length cps) \<le> mx \<or>
      ids = map fst (take ?k ?infos) \<and> \<not> int (length cps) \<le> mx \<and> 0 \<le> mx"
    using assms(1) len by (auto simp: evicted_ids_def Let_def stamps_def[symmetric] split: if_splits)
  have mem: "set ?infos = set (stamps cps)" by (metis mset_exchange_sort set_mset_mset)
  show "distinct ids" using cases dist by (auto simp: take_map[symmetric])
  show "set ids \<subseteq> keyset cps"
  proof -
    have "set ids \<subseteq> set (map fst ?infos)" using cases set_take_subset by (fastforce simp: take_map[symmetric])
    also have "\<dots> = set (gkeys cps)" using ms by (metis set_mset_mset)
    finally show ?thesis by (simp only: keyset_def)
  qed
  show "int (length ids) = (if int (length cps) \<le> mx then 0 else int (length cps) - mx)"
    using cases len by (auto simp: min_def)
  show "tuple_time t \<le> tuple_time u"
    if c: "c \<in> set ids" "gget cps c = Some t" and d: "d \<notin> set ids" "gget cps d = Some u"
  proof -
    from cases c(1) have ids: "ids = map fst (take ?k ?infos)" by auto
    have "c \<in> fst ` set (take ?k ?infos)" using c(1) unfolding ids set_map .
    then obtain x where x: "(c, x) \<in> set (take ?k ?infos)" by (metis imageE prod.collapse)
    have "(c, x) \<in> set (stamps cps)" using in_set_takeD[OF x] unfolding mem .
    with c(2) assms(2) have xt: "x = tuple_time t" by (simp add: stamps_mem)
    have "(d, tuple_time u) \<in> set ?infos" using d(2) assms(2) mem by (simp add: stamps_mem)
    moreover have "(d, tuple_time u) \<notin> set (take ?k ?infos)" using d(1) unfolding ids set_map by (metis fst_conv image_eqI)
    ultimately have "(d, tuple_time u) \<in> set (drop ?k ?infos)"
      by (metis Un_iff append_take_drop_id set_append)
    from sorted_take_drop[OF sorted_exchange_sort x this] xt show ?thesis by simp
  qed
qed

lemma fold_gdel_get: "gget (fold gdel ids m) c = (if c \<in> set ids then None else gget m c)"
  by (induction ids arbitrary: m) auto

lemma fold_gdel_wk: "well_keyed m \<Longrightarrow> well_keyed (fold gdel ids m)"
  by (induction ids arbitrary: m) auto

lemma fold_gdel_length:
  "well_keyed m \<Longrightarrow> distinct ids \<Longrightarrow> set ids \<subseteq> keyset m \<Longrightarrow>
     length (fold gdel ids m) = length m - length ids"
proof (induction ids arbitrary: m)
  case (Cons i ids)
  have "length (gdel i m) = length m - 1"
  proof -
    have "distinct (gkeys m)" "i \<in> set (gkeys m)"
      using Cons.prems by (simp_all only: well_keyed_def keyset_def) auto
    moreover have "gkeys (gdel i m) = removeAll i (gkeys m)"
      by (auto simp: delete_keys removeAll_filter_not_eq intro!: filter_cong)
    ultimately have "length (gkeys (gdel i m)) = length (gkeys m) - 1"
      by (simp add: distinct_remove1_removeAll[symmetric] length_remove1)
    then show ?thesis by simp
  qed
  with Cons.IH[of "gdel i m"] Cons.prems show ?case by auto
qed simp


section \<open>The invariant of the saver\<close>

abbreviation cell :: "saver \<Rightarrow> string \<Rightarrow> string \<Rightarrow> (string, checkpoint_tuple) gomap" where
  "cell s l n \<equiv> sub (sub (sv_storage s) l) n"

definition cell_ok :: "int \<Rightarrow> (string, checkpoint_tuple) gomap \<Rightarrow> bool" where
  "cell_ok mx cps \<longleftrightarrow> well_keyed cps
     \<and> (\<forall>c t. gget cps c = Some t \<longrightarrow> ck_id (tp_checkpoint t) = c \<and> Copy (tp_checkpoint t) = tp_checkpoint t)
     \<and> (cps = [] \<or> int (length cps) \<le> mx)"

definition saver_wf :: "saver \<Rightarrow> bool" where
  "saver_wf s \<longleftrightarrow> well_keyed (sv_storage s) \<and> (\<forall>l. well_keyed (sub (sv_storage s) l))
     \<and> (\<forall>l n. cell_ok (sv_max s) (cell s l n))"

lemma well_keyed_nset [intro]:
  "well_keyed m \<Longrightarrow> well_keyed (nset l n x m)"
  by (simp add: nset_def)

lemma well_keyed_sub_nset:
  "(\<And>l. well_keyed (sub m l)) \<Longrightarrow> well_keyed (sub (nset l n x m) l')"
  by (simp add: nset_def)

lemma cleanup_spec:
  assumes "cleanupOldCheckpoints l n s = Return s'"
  shows "\<exists>ids. evicted_ids (sv_max s) (cell s l n) = Return ids
     \<and> (\<forall>l' n'. cell s' l' n' = (if l' = l \<and> n' = n then fold gdel ids (cell s l n) else cell s l' n'))
     \<and> sv_max s' = sv_max s
     \<and> (well_keyed (sv_storage s) \<longrightarrow> well_keyed (sv_storage s'))
     \<and> ((\<forall>l. well_keyed (sub (sv_storage s) l)) \<longrightarrow> (\<forall>l. well_keyed (sub (sv_storage s') l)))
     \<and> (\<forall>l' n' c. nget (sv_writes s') l' n' c =
           (if l' = l \<and> n' = n \<and> c \<in> set ids then None else nget (sv_writes s) l' n' c))"
proof -
  from assms obtain ids where ids: "evicted_ids (sv_max s) (cell s l n) = Return ids"
    by (auto simp: cleanupOldCheckpoints_def run_bind_Return_iff)
  have none: "nget (sv_writes s) l n c = None" if "\<not> (ghas (sv_writes s) l \<and> ghas (sub (sv_writes s) l) n)" for c
    using that by (auto simp: nget_def sub_def ghas_def split: option.splits)
  from assms ids have s': "s' = (if ids = [] then s
               else s\<lparr>sv_storage := nset l n (fold gdel ids (cell s l n)) (sv_storage s),
                      sv_writes := (if ghas (sv_writes s) l \<and> ghas (sub (sv_writes s) l) n
                                    then nset l n (fold gdel ids (sub (sub (sv_writes s) l) n)) (sv_writes s)
                                    else sv_writes s)\<rparr>)"
    by (simp add: cleanupOldCheckpoints_def)
  show ?thesis
  proof (intro exI[of _ ids] conjI)
    show "\<forall>l' n' c. nget (sv_writes s') l' n' c =
           (if l' = l \<and> n' = n \<and> c \<in> set ids then None else nget (sv_writes s) l' n' c)"
      using none by (auto simp: s' nget_nset fold_gdel_get nget_def[symmetric])
  qed (auto simp: s' ids sub_nset well_keyed_sub_nset)
qed

lemma cell_ok_put:
  assumes "cell_ok mx cps" "ck_id (tp_checkpoint t) = c" "Copy (tp_checkpoint t) = tp_checkpoint t"
    "evicted_ids mx (gput c t cps) = Return ids"
  shows "cell_ok mx (fold gdel ids (gput c t cps))"
proof -
  let ?cps = "gput c t cps"
  have wk: "well_keyed ?cps" using assms(1) by (simp add: cell_ok_def)
  note ev = evicted_props[OF assms(4) wk]
  have len: "length (fold gdel ids ?cps) = length ?cps - length ids"
    using wk ev(1,2) by (rule fold_gdel_length)
  have "length ?cps > 0" by (cases cps) auto
  have nn: "0 \<le> mx" if "\<not> int (length ?cps) \<le> mx"
    using assms(4) that by (auto simp: evicted_ids_def Let_def split: if_splits)
  have "int (length (fold gdel ids ?cps)) \<le> mx"
    using ev(3) len nn by (auto split: if_splits)
  then show ?thesis
    using assms(1-3) wk by (auto simp: cell_ok_def fold_gdel_wk fold_gdel_get)
qed

text \<open>What \<open>Put\<close> and \<open>PutFull\<close> do to the cells: one entry is stored, the oldest are evicted.\<close>

definition put_effect ::
    "saver \<Rightarrow> string \<Rightarrow> string \<Rightarrow> string \<Rightarrow> checkpoint_tuple \<Rightarrow> string list \<Rightarrow> saver \<Rightarrow> bool" where
  "put_effect s l n c t ids s' \<longleftrightarrow>
     evicted_ids (sv_max s) (gput c t (cell s l n)) = Return ids \<and> sv_max s' = sv_max s
     \<and> (\<forall>l' n'. cell s' l' n' = (if l' = l \<and> n' = n then fold gdel ids (gput c t (cell s l n)) else cell s l' n'))"

lemma store_clean:
  assumes "saver_wf s" "ck_id (tp_checkpoint t) = c" "Copy (tp_checkpoint t) = tp_checkpoint t"
    "cleanupOldCheckpoints l n (s\<lparr>sv_storage := store l n c t (sv_storage s), sv_writes := w\<rparr>) = Return s'"
  shows "saver_wf s'" "\<exists>ids. put_effect s l n c t ids s'
     \<and> (\<forall>l' n' d. nget (sv_writes s') l' n' d = (if l' = l \<and> n' = n \<and> d \<in> set ids then None else nget w l' n' d))"
proof -
  let ?s = "s\<lparr>sv_storage := store l n c t (sv_storage s), sv_writes := w\<rparr>"
  have cells: "cell ?s l' n' = (if l' = l \<and> n' = n then gput c t (cell s l n) else cell s l' n')" for l' n'
    by (simp add: store_def sub_nset)
  have wk: "well_keyed (sv_storage ?s)" "\<forall>l. well_keyed (sub (sv_storage ?s) l)"
    using assms(1) by (auto simp: saver_wf_def store_def well_keyed_sub_nset)
  from cleanup_spec[OF assms(4)] obtain ids where
    ids: "evicted_ids (sv_max s) (gput c t (cell s l n)) = Return ids" and
    cs: "\<And>l' n'. cell s' l' n' = (if l' = l \<and> n' = n then fold gdel ids (gput c t (cell s l n)) else cell s l' n')" and
    mx: "sv_max s' = sv_max s" and
    wk': "well_keyed (sv_storage s')" "\<forall>l. well_keyed (sub (sv_storage s') l)" and
    wr: "\<forall>l' n' d. nget (sv_writes s') l' n' d = (if l' = l \<and> n' = n \<and> d \<in> set ids then None else nget w l' n' d)"
    using wk unfolding cells by auto
  have "cell_ok (sv_max s) (fold gdel ids (gput c t (cell s l n)))"
    using assms(1) by (intro cell_ok_put[OF _ assms(2,3) ids]) (simp add: saver_wf_def)
  then show "saver_wf s'"
    using assms(1) wk' by (auto simp: saver_wf_def mx cs)
  show "\<exists>ids. put_effect s l n c t ids s'
     \<and> (\<forall>l' n' d. nget (sv_writes s') l' n' d = (if l' = l \<and> n' = n \<and> d \<in> set ids then None else nget w l' n' d))"
    using ids cs mx wr by (auto simp: put_effect_def)
qed


lemma make_tuple_props:
  assumes "make_tuple s l n c md = Return (updated, t)"
  shows "tp_config t = updated" "tp_checkpoint t = Copy c" "tp_metadata t = md" "tp_pending_writes t = []"
    "CreateCheckpointConfig l (ck_id c) n = Return updated"
  using assms by (auto simp: make_tuple_def run_bind_Return_iff)

lemma Copy_id [simp]: "ck_id (Copy c) = ck_id c" "ck_timestamp (Copy c) = ck_timestamp c"
  "ck_parent (Copy c) = ck_parent c"
  by (simp_all add: Copy_def)

lemma Put_ok:
  assumes "Put req s = Return (s', Inl cfg)"
  obtains l n c t where "l = GetLineageID (pr_config req)" "n = GetNamespace (pr_config req)" "l \<noteq> []"
    "pr_checkpoint req = Some c" "make_tuple s l n c (pr_metadata req) = Return (cfg, t)"
    "cleanupOldCheckpoints l n (s\<lparr>sv_storage := store l n (ck_id c) t (sv_storage s), sv_writes := sv_writes s\<rparr>) = Return s'"
  using assms by (auto simp: Put_def Let_def run_bind_Return_iff split: if_splits option.splits)

lemma Put_cases:
  assumes "Put req s = Return (s', r)"
  shows "s' = s \<or> (\<exists>cfg. r = Inl cfg)"
  using assms by (auto simp: Put_def Let_def run_bind_Return_iff split: if_splits option.splits)

lemma Put_effect:
  assumes "saver_wf s" "Put req s = Return (s', Inl cfg)" "pr_checkpoint req = Some c"
    "l = GetLineageID (pr_config req)" "n = GetNamespace (pr_config req)"
  shows "saver_wf s'" "\<exists>ids t. put_effect s l n (ck_id c) t ids s' \<and> tp_checkpoint t = Copy c
      \<and> tp_metadata t = pr_metadata req \<and> tp_config t = cfg
      \<and> CreateCheckpointConfig l (ck_id c) n = Return cfg
      \<and> (\<forall>l' n' d. nget (sv_writes s') l' n' d =
           (if l' = l \<and> n' = n \<and> d \<in> set ids then None else nget (sv_writes s) l' n' d))"
proof -
  from Put_ok[OF assms(2)] assms(3-5) obtain t where
    t: "make_tuple s l n c (pr_metadata req) = Return (cfg, t)" and
    cl: "cleanupOldCheckpoints l n (s\<lparr>sv_storage := store l n (ck_id c) t (sv_storage s), sv_writes := sv_writes s\<rparr>) = Return s'"
    by (metis option.inject)
  note mt = make_tuple_props[OF t]
  have id: "ck_id (tp_checkpoint t) = ck_id c" "Copy (tp_checkpoint t) = tp_checkpoint t"
    by (simp_all add: mt(2) Copy_idem)
  note sc = store_clean[OF assms(1) id cl]
  show "saver_wf s'" by (rule sc(1))
  from sc(2) mt show "\<exists>ids t. put_effect s l n (ck_id c) t ids s' \<and> tp_checkpoint t = Copy c
      \<and> tp_metadata t = pr_metadata req \<and> tp_config t = cfg
      \<and> CreateCheckpointConfig l (ck_id c) n = Return cfg
      \<and> (\<forall>l' n' d. nget (sv_writes s') l' n' d =
           (if l' = l \<and> n' = n \<and> d \<in> set ids then None else nget (sv_writes s) l' n' d))"
    by blast
qed

lemma PutFull_cases:
  assumes "PutFull req s = Return (s', r)"
  shows "s' = s \<or> (\<exists>cfg. r = Inl cfg)"
  using assms by (auto simp: PutFull_def Let_def run_bind_Return_iff split: if_splits option.splits)

lemma nget_nset_same: "nget (nset l n (sub (sub m l) n) m) = nget m"
  by (simp add: fun_eq_iff nget_nset) (simp add: nget_def)

lemma nget_store: "nget (store l n c v m) l' n' c' = (if l' = l \<and> n' = n \<and> c' = c then Some v else nget m l' n' c')"
  by (auto simp: store_def nget_nset) (simp_all add: nget_def)

lemma make_tuple_writes: "make_tuple (s\<lparr>sv_writes := w\<rparr>) = make_tuple s"
  by (simp add: make_tuple_def findParentNamespace_def fun_eq_iff)

lemma writes_storage_swap:
  "(s::saver)\<lparr>sv_writes := w, sv_storage := x\<rparr> = s\<lparr>sv_storage := x, sv_writes := w\<rparr>"
  by simp

lemma PutFull_effect:
  assumes "saver_wf s" "PutFull req s = Return (s', Inl cfg)" "pf_checkpoint req = Some c"
    "l = GetLineageID (pf_config req)" "n = GetNamespace (pf_config req)"
  shows "saver_wf s'" "\<exists>ids t. put_effect s l n (ck_id c) t ids s' \<and> tp_checkpoint t = Copy c
      \<and> tp_metadata t = pf_metadata req \<and> tp_config t = cfg
      \<and> CreateCheckpointConfig l (ck_id c) n = Return cfg
      \<and> (\<forall>l' n' d. nget (sv_writes s') l' n' d =
           (if l' = l \<and> n' = n \<and> d \<in> set ids then None
            else if l' = l \<and> n' = n \<and> d = ck_id c \<and> pf_pending_writes req \<noteq> [] then Some (pf_pending_writes req)
            else nget (sv_writes s) l' n' d))"
proof -
  let ?w0 = "nset l n (sub (sub (sv_writes s) l) n) (sv_writes s)"
  let ?w = "if pf_pending_writes req \<noteq> [] then store l n (ck_id c) (pf_pending_writes req) ?w0 else ?w0"
  have "\<exists>t. make_tuple s l n c (pf_metadata req) = Return (cfg, t)
      \<and> cleanupOldCheckpoints l n (s\<lparr>sv_storage := store l n (ck_id c) t (sv_storage s), sv_writes := ?w\<rparr>) = Return s'"
    using assms(2)[unfolded PutFull_def Let_def make_tuple_writes assms(3) assms(4)[symmetric] assms(5)[symmetric]]
    by (cases "l = []"; cases "pf_pending_writes req = []")
       (auto simp: run_bind_Return_iff writes_storage_swap)
  then obtain t where
    t: "make_tuple s l n c (pf_metadata req) = Return (cfg, t)" and
    cl: "cleanupOldCheckpoints l n (s\<lparr>sv_storage := store l n (ck_id c) t (sv_storage s), sv_writes := ?w\<rparr>) = Return s'"
    by blast
  note mt = make_tuple_props[OF t]
  have id: "ck_id (tp_checkpoint t) = ck_id c" "Copy (tp_checkpoint t) = tp_checkpoint t"
    by (simp_all add: mt(2) Copy_idem)
  note sc = store_clean[OF assms(1) id cl]
  show "saver_wf s'" by (rule sc(1))
  have w: "nget ?w l' n' d = (if l' = l \<and> n' = n \<and> d = ck_id c \<and> pf_pending_writes req \<noteq> []
      then Some (pf_pending_writes req) else nget (sv_writes s) l' n' d)" for l' n' d
    by (simp add: nget_store nget_nset_same)
  from sc(2) mt show "\<exists>ids t. put_effect s l n (ck_id c) t ids s' \<and> tp_checkpoint t = Copy c
      \<and> tp_metadata t = pf_metadata req \<and> tp_config t = cfg
      \<and> CreateCheckpointConfig l (ck_id c) n = Return cfg
      \<and> (\<forall>l' n' d. nget (sv_writes s') l' n' d =
           (if l' = l \<and> n' = n \<and> d \<in> set ids then None
            else if l' = l \<and> n' = n \<and> d = ck_id c \<and> pf_pending_writes req \<noteq> [] then Some (pf_pending_writes req)
            else nget (sv_writes s) l' n' d))"
    unfolding w by blast
qed

text \<open>The calls a client makes on a saver, in any order.\<close>

datatype saver_op =
    SPut put_request
  | SPutWrites put_writes_request
  | SPutFull put_full_request
  | SDelete string
  | SClose

fun saver_step :: "saver_op \<Rightarrow> saver \<Rightarrow> saver run" where
  "saver_step (SPut r) s = run_bind (Put r s) (\<lambda>(s', _). Return s')"
| "saver_step (SPutWrites r) s = Return (fst (PutWrites r s))"
| "saver_step (SPutFull r) s = run_bind (PutFull r s) (\<lambda>(s', _). Return s')"
| "saver_step (SDelete l) s = Return (DeleteLineage l s)"
| "saver_step SClose s = Return (saver_Close s)"

fun saver_steps :: "saver_op list \<Rightarrow> saver \<Rightarrow> saver run" where
  "saver_steps [] s = Return s"
| "saver_steps (x # xs) s = run_bind (saver_step x s) (saver_steps xs)"

lemma Put_wf: "saver_wf s \<Longrightarrow> Put req s = Return (s', r) \<Longrightarrow> saver_wf s'"
  using Put_cases[of req s s' r] Put_effect(1)[of s req s'] by (auto elim!: Put_ok)

lemma PutFull_wf: "saver_wf s \<Longrightarrow> PutFull req s = Return (s', r) \<Longrightarrow> saver_wf s'"
proof -
  assume wf: "saver_wf s" and p: "PutFull req s = Return (s', r)"
  show "saver_wf s'"
  proof (cases "s' = s")
    case False
    with PutFull_cases[OF p] obtain cfg where cfg: "r = Inl cfg" by blast
    with p obtain c where "pf_checkpoint req = Some c"
      by (auto simp: PutFull_def Let_def split: if_splits option.splits)
    with PutFull_effect(1)[OF wf p[unfolded cfg]] show ?thesis by blast
  qed (use wf in simp)
qed

lemma PutWrites_wf: "saver_wf s \<Longrightarrow> saver_wf (fst (PutWrites req s))"
  by (simp add: PutWrites_def Let_def saver_wf_def)

lemma cell_ok_Nil [simp]: "cell_ok mx []"
  by (simp add: cell_ok_def)

lemma DeleteLineage_wf: "saver_wf s \<Longrightarrow> saver_wf (DeleteLineage l s)"
  by (simp add: DeleteLineage_def saver_wf_def) (simp add: sub_def)

lemma saver_Close_wf: "saver_wf (saver_Close s)"
  by (simp add: saver_Close_def saver_wf_def sub_def)

lemma saver_step_wf:
  assumes "saver_wf s" "saver_step x s = Return s'"
  shows "saver_wf s'"
proof (cases x)
  case (SPut r)
  with assms obtain y where "Put r s = Return (s', y)" by (auto simp: run_bind_Return_iff)
  then show ?thesis by (rule Put_wf[OF assms(1)])
next
  case (SPutFull r)
  with assms obtain y where "PutFull r s = Return (s', y)" by (auto simp: run_bind_Return_iff)
  then show ?thesis by (rule PutFull_wf[OF assms(1)])
next
  case (SPutWrites r)
  with assms have "s' = fst (PutWrites r s)" by simp
  then show ?thesis using PutWrites_wf[OF assms(1)] by simp
next
  case (SDelete l)
  with assms have "s' = DeleteLineage l s" by simp
  then show ?thesis using DeleteLineage_wf[OF assms(1)] by simp
next
  case SClose
  with assms have "s' = saver_Close s" by simp
  then show ?thesis using saver_Close_wf by simp
qed

lemma NewSaver_wf: "saver_wf (WithMaxCheckpointsPerLineage m NewSaver)"
  by (simp add: saver_wf_def NewSaver_def WithMaxCheckpointsPerLineage_def sub_def cell_ok_def)

lemma saver_steps_wf: "saver_wf s \<Longrightarrow> saver_steps xs s = Return s' \<Longrightarrow> saver_wf s'"
proof (induction xs arbitrary: s)
  case (Cons x xs)
  then obtain s1 where "saver_step x s = Return s1" "saver_steps xs s1 = Return s'"
    by (auto simp: run_bind_Return_iff)
  then show ?case using Cons.IH saver_step_wf[OF Cons.prems(1)] by blast
qed simp


section \<open>Lookups read one cell\<close>

abbreviation latest_in :: "(string, checkpoint_tuple) gomap \<Rightarrow> checkpoint_tuple option" where
  "latest_in cps \<equiv> findLatestInMap cps 0 None"

lemma GetTuple_cell:
  "GetTuple config s =
     (let l = GetLineageID config; n = GetNamespace config; c = GetCheckpointID config in
      if l = [] then Inr LineageRequired
      else if c = [] then
        Inl (case latest_in (cell s l n) of
               None \<Rightarrow> (None, config)
             | Some t \<Rightarrow> (Some (createResultTuple s t l n (ck_id (tp_checkpoint t))),
                          pin_config (ck_id (tp_checkpoint t)) config))
      else Inl (map_option (\<lambda>t. createResultTuple s t l n c) (gget (cell s l n) c), config))"
  by (simp add: GetTuple_def getLatestCheckpoint_def getSpecificCheckpoint_def findLatestTuple_def
      findCheckpointByID_def sub_def Let_def split: option.splits)

lemma findLatestInMap_props:
  "(case findLatestInMap cps lt b of
      None \<Rightarrow> b = None \<and> (\<forall>t \<in> set (map snd cps). tuple_time t \<le> lt)
    | Some t \<Rightarrow> (t \<in> set (map snd cps) \<and> lt < tuple_time t \<and> (\<forall>u \<in> set (map snd cps). tuple_time u \<le> tuple_time t))
              \<or> (b = Some t \<and> (\<forall>u \<in> set (map snd cps). tuple_time u \<le> lt)))"
proof (induction cps lt b rule: findLatestInMap.induct)
  case (2 c t rest lt b)
  show ?case
  proof (cases "lt < tuple_time t")
    case True
    with 2(1) show ?thesis by (auto split: option.splits)
  next
    case False
    with 2(2) show ?thesis by (auto split: option.splits)
  qed
qed (auto split: option.splits)

lemma latest_in_Some:
  assumes "latest_in cps = Some t" "well_keyed cps"
  shows "\<exists>c. gget cps c = Some t" "gget cps d = Some u \<Longrightarrow> tuple_time u \<le> tuple_time t"
proof -
  have p: "t \<in> set (map snd cps) \<and> (\<forall>u \<in> set (map snd cps). tuple_time u \<le> tuple_time t)"
    using findLatestInMap_props[where cps = cps and lt = 0 and b = None] assms(1) by auto
  then show "\<exists>c. gget cps c = Some t" using assms(2) by (force simp: well_keyed_mem_get[symmetric])
  show "tuple_time u \<le> tuple_time t" if "gget cps d = Some u"
  proof -
    from that have "(d, u) \<in> set cps" by (rule map_of_SomeD)
    then have "u \<in> set (map snd cps)" by force
    with p show ?thesis by blast
  qed
qed

lemma latest_in_None: "latest_in cps = None \<Longrightarrow> gget cps d = Some u \<Longrightarrow> tuple_time u \<le> 0"
  using findLatestInMap_props[where cps = cps and lt = 0 and b = None] by (force dest: map_of_SomeD)

lemma saver_wf_cell: "saver_wf s \<Longrightarrow> cell_ok (sv_max s) (cell s l n)"
  by (simp add: saver_wf_def)

lemma cell_ok_get:
  "cell_ok mx cps \<Longrightarrow> gget cps c = Some t \<Longrightarrow> ck_id (tp_checkpoint t) = c \<and> Copy (tp_checkpoint t) = tp_checkpoint t"
  by (simp add: cell_ok_def)

lemma pin_config_get:
  assumes "GetLineageID config \<noteq> []"
  shows "GetLineageID (pin_config c config) = GetLineageID config" "GetNamespace (pin_config c config) = GetNamespace config"
    "GetCheckpointID (pin_config c config) = c"
proof -
  from assms obtain m where "gget config CfgKeyConfigurable = Some (VMap (Some m))"
    by (auto simp: GetLineageID_def configurable_string_def elems_def split: option.splits gval.splits)
  then show "GetLineageID (pin_config c config) = GetLineageID config" "GetNamespace (pin_config c config) = GetNamespace config"
    "GetCheckpointID (pin_config c config) = c"
    by (auto simp: pin_config_def GetLineageID_def GetNamespace_def GetCheckpointID_def configurable_string_def
        elems_def cfg_keys)
qed

section \<open>What clients of the saver rely on\<close>

lemma evicted_ids_total: "0 \<le> mx \<Longrightarrow> \<exists>ids. evicted_ids mx cps = Return ids"
  by (auto simp: evicted_ids_def Let_def)

lemma cleanup_total: "0 \<le> sv_max s \<Longrightarrow> \<exists>s'. cleanupOldCheckpoints l n s = Return s' \<and> sv_max s' = sv_max s"
  using evicted_ids_total[of "sv_max s" "cell s l n"] by (auto simp: cleanupOldCheckpoints_def)

lemma make_tuple_total: "l \<noteq> [] \<Longrightarrow> \<exists>r. make_tuple s l n c md = Return r"
proof -
  assume l: "l \<noteq> []"
  obtain u where "CreateCheckpointConfig l (ck_id c) n = Return u" using create_ok[OF l] by blast
  moreover obtain v where "CreateCheckpointConfig l (ck_parent c) (findParentNamespace s l (ck_parent c)) = Return v"
    using create_ok[OF l] by blast
  ultimately show ?thesis by (simp add: make_tuple_def)
qed

lemma Put_total: "0 \<le> sv_max s \<Longrightarrow> \<exists>s' r. Put req s = Return (s', r) \<and> sv_max s' = sv_max s"
proof -
  assume mx: "0 \<le> sv_max s"
  let ?l = "GetLineageID (pr_config req)" and ?n = "GetNamespace (pr_config req)"
  show ?thesis
  proof (cases "?l = [] \<or> pr_checkpoint req = None")
    case True
    then show ?thesis by (auto simp: Put_def Let_def)
  next
    case False
    then obtain c where c: "?l \<noteq> []" "pr_checkpoint req = Some c" by auto
    obtain u t where t: "make_tuple s ?l ?n c (pr_metadata req) = Return (u, t)"
      using make_tuple_total[OF c(1)] by (metis surj_pair)
    obtain s' where "cleanupOldCheckpoints ?l ?n (s\<lparr>sv_storage := store ?l ?n (ck_id c) t (sv_storage s)\<rparr>) = Return s'
        \<and> sv_max s' = sv_max s"
      using cleanup_total[of "s\<lparr>sv_storage := store ?l ?n (ck_id c) t (sv_storage s)\<rparr>" ?l ?n] mx by auto
    with c t show ?thesis by (auto simp: Put_def Let_def)
  qed
qed


lemma PutFull_total: "0 \<le> sv_max s \<Longrightarrow> \<exists>s' r. PutFull req s = Return (s', r) \<and> sv_max s' = sv_max s"
proof -
  assume mx: "0 \<le> sv_max s"
  let ?l = "GetLineageID (pf_config req)" and ?n = "GetNamespace (pf_config req)"
  show ?thesis
  proof (cases "?l = [] \<or> pf_checkpoint req = None")
    case True
    then show ?thesis by (auto simp: PutFull_def Let_def)
  next
    case False
    then obtain c where c: "?l \<noteq> []" "pf_checkpoint req = Some c" by auto
    obtain u t where t: "make_tuple s ?l ?n c (pf_metadata req) = Return (u, t)"
      using make_tuple_total[OF c(1)] by (metis surj_pair)
    let ?s1 = "s\<lparr>sv_writes := nset ?l ?n (sub (sub (sv_writes s) ?l) ?n) (sv_writes s),
       sv_storage := store ?l ?n (ck_id c) t (sv_storage s)\<rparr>"
    let ?s2 = "if pf_pending_writes req \<noteq> []
       then ?s1\<lparr>sv_writes := store ?l ?n (ck_id c) (pf_pending_writes req) (sv_writes ?s1)\<rparr> else ?s1"
    have "sv_max ?s2 = sv_max s" by simp
    then obtain s' where s': "cleanupOldCheckpoints ?l ?n ?s2 = Return s'" "sv_max s' = sv_max s"
      using cleanup_total[of ?s2 ?l ?n] mx by metis
    have "PutFull req s = run_bind (cleanupOldCheckpoints ?l ?n ?s2) (\<lambda>s'. Return (s', Inl u))"
      using c t by (simp add: PutFull_def Let_def make_tuple_writes)
    with s' show ?thesis by simp
  qed
qed

lemma saver_step_total: "0 \<le> sv_max s \<Longrightarrow> \<exists>s'. saver_step x s = Return s' \<and> sv_max s' = sv_max s"
proof (cases x)
  case (SPut r)
  assume "0 \<le> sv_max s"
  with SPut Put_total[of s r] show ?thesis by auto
next
  case (SPutFull r)
  assume "0 \<le> sv_max s"
  with SPutFull PutFull_total[of s r] show ?thesis by auto
qed (auto simp: PutWrites_def DeleteLineage_def saver_Close_def Let_def)

lemma saver_steps_total: "0 \<le> sv_max s \<Longrightarrow> \<exists>s'. saver_steps xs s = Return s' \<and> sv_max s' = sv_max s"
proof (induction xs arbitrary: s)
  case (Cons x xs)
  then obtain s1 where "saver_step x s = Return s1" "sv_max s1 = sv_max s"
    using saver_step_total by blast
  with Cons.IH[of s1] Cons.prems show ?case by auto
qed simp

lemma evict_at_most_one:
  assumes "cell_ok mx cps" "1 \<le> mx" "evicted_ids mx (gput c t cps) = Return ids"
  shows "length ids \<le> 1" "int (length cps) < mx \<or> ghas cps c \<Longrightarrow> ids = []"
proof -
  have wk: "well_keyed (gput c t cps)" and le: "int (length cps) \<le> mx"
    using assms(1,2) by (auto simp: cell_ok_def)
  have len: "length (gput c t cps) = (if ghas cps c then length cps else Suc (length cps))"
    by (simp add: length_gput_in length_gput_new)
  note ev = evicted_props(3)[OF assms(3) wk]
  show "length ids \<le> 1" using ev le unfolding len by (auto split: if_splits)
  have "int (length ids) = 0" if "int (length cps) < mx \<or> ghas cps c"
    using ev le that unfolding len by (auto split: if_splits)
  then show "int (length cps) < mx \<or> ghas cps c \<Longrightarrow> ids = []" by simp
qed

lemma put_effect_readable:
  assumes "put_effect s l n c t ids s'" "saver_wf s" "1 \<le> sv_max s"
    "int (length (cell s l n)) < sv_max s \<or> (\<exists>d u. gget (cell s l n) d = Some u \<and> tuple_time u < tuple_time t)"
  shows "c \<notin> set ids"
proof
  assume c: "c \<in> set ids"
  have ids: "evicted_ids (sv_max s) (gput c t (cell s l n)) = Return ids"
    using assms(1) by (simp add: put_effect_def)
  note cok = saver_wf_cell[OF assms(2), of l n]
  note one = evict_at_most_one[OF cok assms(3) ids]
  have ne: "\<not> int (length (cell s l n)) < sv_max s" "\<not> ghas (cell s l n) c" using one(2) c by auto
  then obtain d u where d: "gget (cell s l n) d = Some u" "tuple_time u < tuple_time t" using assms(4) by blast
  have dc: "d \<noteq> c" using d(1) ne(2) by (auto simp: ghas_def)
  have wk: "well_keyed (gput c t (cell s l n))" using cok by (simp add: cell_ok_def)
  have "d \<notin> set ids"
  proof
    assume "d \<in> set ids"
    then have "card {c, d} \<le> card (set ids)" using c by (intro card_mono) auto
    with dc one(1) card_length[of ids] show False by simp
  qed
  from evicted_props(4)[OF ids wk c _ this, of t u] d dc show False by simp
qed


text \<open>
  C27. After a successful store of a checkpoint with an ID, looking it up with the returned
  configuration gives back exactly its copy, with the metadata given, provided the capacity is at
  least one and the namespace had room or held an older checkpoint; otherwise the store itself may
  evict it.
\<close>

theorem put_then_get:
  assumes "saver_wf s" "1 \<le> sv_max s" "Put req s = Return (s', Inl cfg)" "pr_checkpoint req = Some c"
    "ck_id c \<noteq> []"
    "int (length (cell s (GetLineageID (pr_config req)) (GetNamespace (pr_config req)))) < sv_max s
     \<or> (\<exists>d u. gget (cell s (GetLineageID (pr_config req)) (GetNamespace (pr_config req))) d = Some u
             \<and> tuple_time u < ck_timestamp c)"
  shows "\<exists>t. GetTuple cfg s' = Inl (Some t, cfg) \<and> tp_checkpoint t = Copy c
     \<and> tp_metadata t = pr_metadata req \<and> tp_config t = cfg"
proof -
  let ?l = "GetLineageID (pr_config req)" and ?n = "GetNamespace (pr_config req)"
  from Put_effect(2)[OF assms(1,3,4) refl refl] obtain ids t where
    eff: "put_effect s ?l ?n (ck_id c) t ids s'" and t: "tp_checkpoint t = Copy c"
      "tp_metadata t = pr_metadata req" "tp_config t = cfg"
      "CreateCheckpointConfig ?l (ck_id c) ?n = Return cfg" by blast
  have "ck_id c \<notin> set ids"
    using put_effect_readable[OF eff assms(1,2)] assms(6) t(1) by simp
  then have get: "gget (cell s' ?l ?n) (ck_id c) = Some t"
    using eff by (simp add: put_effect_def fold_gdel_get)
  with configurable_create[OF t(4)] assms(5) t show ?thesis
    by (auto simp: GetTuple_cell Let_def createResultTuple_def Copy_idem)
qed


definition sample_checkpoint :: "string \<Rightarrow> int \<Rightarrow> string \<Rightarrow> checkpoint" where
  "sample_checkpoint c time parent =
     (NewCheckpoint c time (Some [(''x'', VInt time)]) [(''x'', 1)] [])\<lparr>ck_parent := parent\<rparr>"

definition sample_put :: "string \<Rightarrow> string \<Rightarrow> string \<Rightarrow> int \<Rightarrow> put_request" where
  "sample_put l n c time =
     \<lparr>pr_config = [(CfgKeyConfigurable, VMap (Some [(CfgKeyLineageID, VStr l), (CfgKeyCheckpointNS, VStr n)]))],
      pr_checkpoint = Some (sample_checkpoint c time []), pr_metadata = Some (NewCheckpointMetadata CheckpointSourceLoop 0),
      pr_new_versions = []\<rparr>"

definition sample_full :: "string \<Rightarrow> string \<Rightarrow> string \<Rightarrow> int \<Rightarrow> put_full_request" where
  "sample_full l n c time =
     \<lparr>pf_config = pr_config (sample_put l n c time), pf_checkpoint = Some (sample_checkpoint c time []),
      pf_metadata = None, pf_new_versions = [],
      pf_pending_writes = [\<lparr>pw_task_id = ''t'', pw_channel = ''x'', pw_value = VInt 1, pw_sequence = 1\<rparr>]\<rparr>"


lemma saver_wf_New: "saver_wf NewSaver"
  by (simp add: saver_wf_def NewSaver_def sub_def)

theorem put_then_get_witness:
  "\<exists>cfg s' t. Put (sample_put ''l'' ''n'' ''a'' 7) NewSaver = Return (s', Inl cfg) \<and> GetTuple cfg s' = Inl (Some t, cfg)
     \<and> tp_checkpoint t = Copy (sample_checkpoint ''a'' 7 [])"
proof -
  let ?r = "sample_put ''l'' ''n'' ''a'' 7"
  have l: "GetLineageID (pr_config ?r) = ''l''" "pr_checkpoint ?r = Some (sample_checkpoint ''a'' 7 [])"
    by (simp_all add: sample_put_def GetLineageID_def configurable_string_def elems_def cfg_keys)
  have mx: "sv_max NewSaver = 100" by (simp add: NewSaver_def DefaultMaxCheckpointsPerLineage_def)
  obtain s' r where p: "Put ?r NewSaver = Return (s', r)" using Put_total[of NewSaver ?r] mx by auto
  then have "\<exists>cfg. r = Inl cfg" using l by (auto simp: Put_def Let_def run_bind_Return_iff)
  then obtain cfg where p': "Put ?r NewSaver = Return (s', Inl cfg)" using p by blast
  have "\<exists>t. GetTuple cfg s' = Inl (Some t, cfg) \<and> tp_checkpoint t = Copy (sample_checkpoint ''a'' 7 [])
     \<and> tp_metadata t = pr_metadata ?r \<and> tp_config t = cfg"
    by (rule put_then_get[OF saver_wf_New _ p' l(2)]) (simp_all add: mx sample_checkpoint_def NewCheckpoint_def NewSaver_def sub_def
        DefaultMaxCheckpointsPerLineage_def)
  with p' show ?thesis by blast
qed

text \<open>A lookup reads one cell and its writes: equal cells, equal answers.\<close>

lemma GetTuple_frame:
  assumes "cell s' (GetLineageID config) (GetNamespace config) = cell s (GetLineageID config) (GetNamespace config)"
    "\<And>c. nget (sv_writes s') (GetLineageID config) (GetNamespace config) c
          = nget (sv_writes s) (GetLineageID config) (GetNamespace config) c"
  shows "GetTuple config s' = GetTuple config s"
  using assms by (simp add: GetTuple_cell createResultTuple_def Let_def split: option.splits)

definition op_target :: "saver_op \<Rightarrow> string \<times> string \<Rightarrow> bool" where
  "op_target x cell_key =
     (case x of
        SPut r \<Rightarrow> cell_key = (GetLineageID (pr_config r), GetNamespace (pr_config r))
      | SPutWrites r \<Rightarrow> cell_key = (GetLineageID (pwr_config r), GetNamespace (pwr_config r))
      | SPutFull r \<Rightarrow> cell_key = (GetLineageID (pf_config r), GetNamespace (pf_config r))
      | SDelete l \<Rightarrow> fst cell_key = l
      | SClose \<Rightarrow> True)"

lemma saver_step_frame:
  assumes wf: "saver_wf s" and step: "saver_step x s = Return s'" and off: "\<not> op_target x (l, n)"
  shows "cell s' l n = cell s l n" "nget (sv_writes s') l n d = nget (sv_writes s) l n d"
proof -
  have "cell s' l n = cell s l n \<and> nget (sv_writes s') l n d = nget (sv_writes s) l n d"
  proof (cases x)
    case (SPut r)
    with step obtain y where y: "Put r s = Return (s', y)" by (auto simp: run_bind_Return_iff)
    show ?thesis
    proof (cases "s' = s")
      case False
      with Put_cases[OF y] obtain cfg where cfg: "y = Inl cfg" by blast
      with y obtain c where c: "pr_checkpoint r = Some c"
        by (auto simp: Put_def Let_def split: if_splits option.splits)
      from Put_effect(2)[OF wf y[unfolded cfg] c refl refl] off SPut show ?thesis
        by (auto simp: put_effect_def op_target_def)
    qed simp
  next
    case (SPutFull r)
    with step obtain y where y: "PutFull r s = Return (s', y)" by (auto simp: run_bind_Return_iff)
    show ?thesis
    proof (cases "s' = s")
      case False
      with PutFull_cases[OF y] obtain cfg where cfg: "y = Inl cfg" by blast
      with y obtain c where c: "pf_checkpoint r = Some c"
        by (auto simp: PutFull_def Let_def split: if_splits option.splits)
      from PutFull_effect(2)[OF wf y[unfolded cfg] c refl refl] off SPutFull show ?thesis
        by (auto simp: put_effect_def op_target_def)
    qed simp
  next
    case (SPutWrites r)
    with step off show ?thesis by (auto simp: PutWrites_def Let_def op_target_def nget_store)
  next
    case (SDelete k)
    then have "s' = DeleteLineage k s" "l \<noteq> k" using step off by (auto simp: op_target_def)
    then show ?thesis by (simp add: DeleteLineage_def nget_def)
  next
    case SClose
    with off show ?thesis by (simp add: op_target_def)
  qed
  then show "cell s' l n = cell s l n" "nget (sv_writes s') l n d = nget (sv_writes s) l n d" by simp_all
qed

text \<open>
  C28. An operation on one namespace of a lineage changes the answer of no lookup in any other
  namespace or lineage, the eviction it triggers included; deleting a lineage leaves every other
  lineage's lookups as they were.
\<close>

theorem saver_isolation:
  assumes "saver_wf s" "saver_step x s = Return s'" "\<not> op_target x (GetLineageID config, GetNamespace config)"
  shows "GetTuple config s' = GetTuple config s"
  using saver_step_frame[OF assms] by (intro GetTuple_frame)

theorem saver_isolation_witness:
  "\<exists>s'. saver_step (SPut (sample_put ''l'' ''n'' ''a'' 7)) NewSaver = Return s'
     \<and> GetTuple (pr_config (sample_put ''l'' ''other'' ''a'' 7)) s' = GetTuple (pr_config (sample_put ''l'' ''other'' ''a'' 7)) NewSaver"
proof -
  have "0 \<le> sv_max NewSaver" by (simp add: NewSaver_def DefaultMaxCheckpointsPerLineage_def)
  from saver_step_total[OF this] obtain s' where
    s': "saver_step (SPut (sample_put ''l'' ''n'' ''a'' 7)) NewSaver = Return s'" by blast
  moreover have "GetTuple (pr_config (sample_put ''l'' ''other'' ''a'' 7)) s'
      = GetTuple (pr_config (sample_put ''l'' ''other'' ''a'' 7)) NewSaver"
    by (rule saver_isolation[OF saver_wf_New s']) (simp add: op_target_def sample_put_def GetNamespace_def
        configurable_string_def elems_def cfg_keys)
  ultimately show ?thesis by blast
qed

text \<open>
  A lookup without an ID returns a checkpoint of the namespace that none is newer than, or
  nothing when no checkpoint there has a time stamp after the zero time; the configuration it leaves
  in the caller's hands names that checkpoint, so looking up again returns the same tuple.
\<close>

theorem latest_lookup:
  assumes "saver_wf s" "GetLineageID config \<noteq> []" "GetCheckpointID config = []"
  shows "case GetTuple config s of
     Inr e \<Rightarrow> False
   | Inl (None, config') \<Rightarrow> config' = config
       \<and> (\<forall>c t. gget (cell s (GetLineageID config) (GetNamespace config)) c = Some t \<longrightarrow> tuple_time t \<le> 0)
   | Inl (Some r, config') \<Rightarrow>
       gget (cell s (GetLineageID config) (GetNamespace config)) (ck_id (tp_checkpoint r)) \<noteq> None
       \<and> (\<forall>c t. gget (cell s (GetLineageID config) (GetNamespace config)) c = Some t \<longrightarrow> tuple_time t \<le> tuple_time r)
       \<and> (ck_id (tp_checkpoint r) \<noteq> [] \<longrightarrow> GetTuple config' s = Inl (Some r, config'))"
proof (cases "latest_in (cell s (GetLineageID config) (GetNamespace config))")
  case None
  then show ?thesis using assms(2,3) latest_in_None[OF None] by (auto simp: GetTuple_cell Let_def)
next
  case (Some t)
  let ?cps = "cell s (GetLineageID config) (GetNamespace config)"
  have cok: "cell_ok (sv_max s) ?cps" using assms(1) by (rule saver_wf_cell)
  then have wk: "well_keyed ?cps" by (simp add: cell_ok_def)
  note lt = latest_in_Some[OF Some wk]
  from lt(1) obtain c where c: "gget ?cps c = Some t" by blast
  with cell_ok_get[OF cok] have id: "ck_id (tp_checkpoint t) = c" by blast
  have max: "\<forall>c u. gget ?cps c = Some u \<longrightarrow> tuple_time u \<le> tuple_time t" using lt(2) by blast
  note pin = pin_config_get[OF assms(2)]
  show ?thesis
    using Some c id max assms(2,3) pin[of c] by (simp add: GetTuple_cell Let_def createResultTuple_def)
qed


theorem latest_lookup_witness:
  "case GetTuple (pr_config (sample_put ''l'' ''n'' ''a'' 7)) NewSaver of
     Inr e \<Rightarrow> False
   | Inl (None, config') \<Rightarrow> config' = pr_config (sample_put ''l'' ''n'' ''a'' 7)
   | Inl (Some r, config') \<Rightarrow> True"
proof -
  have l: "GetLineageID (pr_config (sample_put ''l'' ''n'' ''a'' 7)) \<noteq> []"
    "GetCheckpointID (pr_config (sample_put ''l'' ''n'' ''a'' 7)) = []"
    by (simp_all add: sample_put_def GetLineageID_def GetCheckpointID_def configurable_string_def elems_def cfg_keys)
  from latest_lookup[OF saver_wf_New l] show ?thesis by (simp split: sum.splits prod.splits option.splits)
qed

abbreviation tuples_of :: "saver \<Rightarrow> string \<Rightarrow> (string \<times> (string, checkpoint_tuple) gomap) \<Rightarrow> checkpoint_tuple list" where
  "tuples_of s l ncps \<equiv> map (\<lambda>(c, t). createResultTuple s t l (fst ncps) c) (snd ncps)"

lemma passesFilters_limit: "passesFilters t cps (Some (WithLimit k NewCheckpointFilter)) = Return True"
  by (simp add: passesFilters_def WithLimit_def NewCheckpointFilter_def passesBeforeFilter_def passesMetadataFilter_def)

lemma collect_limit:
  "collect s l n cps (Some (WithLimit k NewCheckpointFilter)) xs = Return (tuples_of s l (n, xs))"
  by (induction xs) (auto simp: passesFilters_limit)

lemma collect_all_limit:
  "collect_all s l (Some (WithLimit k NewCheckpointFilter)) xs = Return (concat (map (tuples_of s l) xs))"
  by (induction xs) (auto simp: collect_limit)

text \<open>
  A listing with only a limit returns the stored checkpoints of the namespace, or of every
  namespace of the lineage when none is given, each exactly once, newest first, cut to the limit
  when the limit is positive; it never panics.
\<close>

theorem list_newest_first:
  assumes "GetLineageID config \<noteq> []"
  shows "\<exists>ts. saver_List config (Some (WithLimit k NewCheckpointFilter)) s
        = Return (Inl (if 0 < k then take (nat k) ts else ts))
     \<and> sorted_wrt (\<lambda>t u. tuple_time u \<le> tuple_time t) ts
     \<and> mset ts = mset (concat (map (tuples_of s (GetLineageID config))
          (if GetNamespace config = [] then sub (sv_storage s) (GetLineageID config)
           else [(GetNamespace config, cell s (GetLineageID config) (GetNamespace config))])))"
proof -
  let ?l = "GetLineageID config" and ?n = "GetNamespace config"
  let ?xs = "concat (map (tuples_of s ?l)
          (if ?n = [] then sub (sv_storage s) ?l else [(?n, cell s ?l ?n)]))"
  let ?ts = "sort_key (\<lambda>t. - tuple_time t) ?xs"
  have lim: "apply_limit (Some (WithLimit k NewCheckpointFilter)) ts = (if 0 < k then take (nat k) ts else ts)"
    for ts :: "checkpoint_tuple list"
    by (auto simp: apply_limit_def WithLimit_def NewCheckpointFilter_def)
  have "saver_List config (Some (WithLimit k NewCheckpointFilter)) s
        = Return (Inl (if 0 < k then take (nat k) ?ts else ?ts))"
    using assms lim
    by (auto simp: saver_List_def Let_def collect_limit collect_all_limit sub_def split: option.splits)
  moreover have "sorted_wrt (\<lambda>t u. tuple_time u \<le> tuple_time t) ?ts"
    using sorted_sort_key[of "\<lambda>t. - tuple_time t" ?xs] by (simp add: sorted_map)
  ultimately show ?thesis by (intro exI[of _ ?ts]) simp
qed

theorem list_newest_first_witness:
  "\<exists>ts. saver_List (pr_config (sample_put ''l'' ''n'' ''a'' 7)) (Some (WithLimit 1 NewCheckpointFilter)) NewSaver
     = Return (Inl (take 1 ts)) \<and> mset ts = {#}"
  using list_newest_first[of "pr_config (sample_put ''l'' ''n'' ''a'' 7)" 1 NewSaver]
  by (simp add: sample_put_def GetLineageID_def GetNamespace_def configurable_string_def elems_def cfg_keys
      NewSaver_def sub_def)

text \<open>
  Asking for the latest checkpoint of a lineage without a namespace has two answers: the lookup
  reads the empty namespace only and finds nothing, while the listing searches every namespace and
  finds the checkpoint.
\<close>

theorem empty_namespace_disagreement:
  "case Put (sample_put ''l'' ''n'' ''a'' 7) NewSaver of
     Panic \<Rightarrow> False
   | Return (s, r) \<Rightarrow>
       GetTuple (pr_config (sample_put ''l'' [] ''a'' 7)) s = Inl (None, pr_config (sample_put ''l'' [] ''a'' 7))
       \<and> (case saver_List (pr_config (sample_put ''l'' [] ''a'' 7)) (Some (WithLimit 1 NewCheckpointFilter)) s of
            Return (Inl [t]) \<Rightarrow> ck_id (tp_checkpoint t) = ''a''
          | _ \<Rightarrow> False)"
  by code_simp

text \<open>
  A full store makes the checkpoint and its pending writes readable together.  When it carries
  no writes, the writes stored earlier for the same ID stay and are returned with the new checkpoint.
\<close>

theorem put_full_with_writes:
  assumes "saver_wf s" "1 \<le> sv_max s" "PutFull req s = Return (s', Inl cfg)" "pf_checkpoint req = Some c"
    "ck_id c \<noteq> []"
    "int (length (cell s (GetLineageID (pf_config req)) (GetNamespace (pf_config req)))) < sv_max s
     \<or> (\<exists>d u. gget (cell s (GetLineageID (pf_config req)) (GetNamespace (pf_config req))) d = Some u
             \<and> tuple_time u < ck_timestamp c)"
  shows "\<exists>t. GetTuple cfg s' = Inl (Some t, cfg) \<and> tp_checkpoint t = Copy c \<and> tp_metadata t = pf_metadata req
     \<and> tp_pending_writes t =
         (if pf_pending_writes req \<noteq> [] then pf_pending_writes req
          else case nget (sv_writes s) (GetLineageID (pf_config req)) (GetNamespace (pf_config req)) (ck_id c) of
                 None \<Rightarrow> [] | Some ws \<Rightarrow> ws)"
proof -
  let ?l = "GetLineageID (pf_config req)" and ?n = "GetNamespace (pf_config req)"
  from PutFull_effect(2)[OF assms(1,3,4) refl refl] obtain ids t where
    eff: "put_effect s ?l ?n (ck_id c) t ids s'" and t: "tp_checkpoint t = Copy c"
      "tp_metadata t = pf_metadata req" "CreateCheckpointConfig ?l (ck_id c) ?n = Return cfg" and
    w: "\<And>d. nget (sv_writes s') ?l ?n d = (if d \<in> set ids then None
            else if d = ck_id c \<and> pf_pending_writes req \<noteq> [] then Some (pf_pending_writes req)
            else nget (sv_writes s) ?l ?n d)" by auto
  have ev: "ck_id c \<notin> set ids"
    using put_effect_readable[OF eff assms(1,2)] assms(6) t(1) by simp
  then have get: "gget (cell s' ?l ?n) (ck_id c) = Some t"
    using eff by (simp add: put_effect_def fold_gdel_get)
  with configurable_create[OF t(3)] assms(5) t ev show ?thesis
    by (auto simp: GetTuple_cell Let_def createResultTuple_def Copy_idem w)
qed


theorem put_full_with_writes_witness:
  "\<exists>cfg s' t. PutFull (sample_full ''l'' ''n'' ''a'' 7) NewSaver = Return (s', Inl cfg)
     \<and> GetTuple cfg s' = Inl (Some t, cfg) \<and> tp_pending_writes t = pf_pending_writes (sample_full ''l'' ''n'' ''a'' 7)"
proof -
  let ?r = "sample_full ''l'' ''n'' ''a'' 7"
  have l: "GetLineageID (pf_config ?r) = ''l''" "pf_checkpoint ?r = Some (sample_checkpoint ''a'' 7 [])"
    "pf_pending_writes ?r \<noteq> []"
    by (simp_all add: sample_full_def sample_put_def GetLineageID_def configurable_string_def elems_def cfg_keys)
  have mx: "sv_max NewSaver = 100" by (simp add: NewSaver_def DefaultMaxCheckpointsPerLineage_def)
  obtain s' r where p: "PutFull ?r NewSaver = Return (s', r)" using PutFull_total[of NewSaver ?r] mx by auto
  then have "\<exists>cfg. r = Inl cfg" using l by (auto simp: PutFull_def Let_def run_bind_Return_iff)
  then obtain cfg where p': "PutFull ?r NewSaver = Return (s', Inl cfg)" using p by blast
  have "\<exists>t. GetTuple cfg s' = Inl (Some t, cfg) \<and> tp_checkpoint t = Copy (sample_checkpoint ''a'' 7 [])
     \<and> tp_metadata t = pf_metadata ?r
     \<and> tp_pending_writes t =
         (if pf_pending_writes ?r \<noteq> [] then pf_pending_writes ?r
          else case nget (sv_writes NewSaver) (GetLineageID (pf_config ?r)) (GetNamespace (pf_config ?r)) (ck_id (sample_checkpoint ''a'' 7 [])) of
                 None \<Rightarrow> [] | Some ws \<Rightarrow> ws)"
    by (rule put_full_with_writes[OF saver_wf_New _ p' l(2)]) (simp_all add: mx sample_checkpoint_def NewCheckpoint_def
        NewSaver_def sub_def DefaultMaxCheckpointsPerLineage_def)
  with p' l(3) show ?thesis by auto
qed

end
