(* ===== verification/Checkpoint_Manager.thy ===== *)
theory Checkpoint_Manager
  imports Saver_InMemory
begin

text \<open>
  The checkpoint manager of \<open>graph/checkpoint.go\<close>, over any saver.  The Go interface \<open>CheckpointSaver\<close>
  is a record of functions on the saver's state; the in-memory saver is one instance, and the locale
  \<open>checkpoint_saver\<close> states what the manager's own properties need of it.  Configurations passed
  to a lookup are returned, because the saver may write the ID it found into them.
\<close>

section \<open>The saver interface\<close>

record ('s, 'e) saver_ops =
  so_Get :: "config \<Rightarrow> 's \<Rightarrow> ((checkpoint option \<times> config) + 'e) run"
  so_GetTuple :: "config \<Rightarrow> 's \<Rightarrow> ((checkpoint_tuple option \<times> config) + 'e) run"
  so_List :: "config \<Rightarrow> checkpoint_filter option \<Rightarrow> 's \<Rightarrow> (checkpoint_tuple list + 'e) run"
  so_Put :: "put_request \<Rightarrow> 's \<Rightarrow> ('s \<times> (config + 'e)) run"
  so_PutFull :: "put_full_request \<Rightarrow> 's \<Rightarrow> ('s \<times> (config + 'e)) run"
  so_DeleteLineage :: "string \<Rightarrow> 's \<Rightarrow> 's \<times> 'e option"

definition inmemory_ops :: "(saver, saver_error) saver_ops" where
  "inmemory_ops =
     \<lparr>so_Get = (\<lambda>config s. Return (saver_Get config s)),
      so_GetTuple = (\<lambda>config s. Return (GetTuple config s)),
      so_List = saver_List, so_Put = Put, so_PutFull = PutFull,
      so_DeleteLineage = (\<lambda>l s. (DeleteLineage l s, None))\<rparr>"

type_synonym ('s, 'e) checkpoint_manager = "('s, 'e) saver_ops option"

text \<open>
  Errors: the manager's own, an error of the saver wrapped with \<open>%w\<close> under a message, and one
  returned as it is.
\<close>

datatype 'e manager_error =
    NoSaver
  | Failed string 'e
  | PassedOn 'e
  | NoCheckpoint string

definition NewCheckpointManager :: "('s, 'e) saver_ops option \<Rightarrow> ('s, 'e) checkpoint_manager" where
  "NewCheckpointManager saver = saver"

definition wrap :: "string \<Rightarrow> 'a + 'e \<Rightarrow> 'a + 'e manager_error" where
  "wrap msg r = (case r of Inl x \<Rightarrow> Inl x | Inr e \<Rightarrow> Inr (Failed msg e))"

definition pass :: "'a + 'e \<Rightarrow> 'a + 'e manager_error" where
  "pass r = (case r of Inl x \<Rightarrow> Inl x | Inr e \<Rightarrow> Inr (PassedOn e))"

section \<open>Creating and resuming\<close>

text \<open>The checkpoint \<open>CreateCheckpoint\<close> stores for a state.\<close>

definition checkpoint_of_state :: "string \<Rightarrow> int \<Rightarrow> state \<Rightarrow> checkpoint" where
  "checkpoint_of_state uuid now st =
     NewCheckpoint uuid now (Some (state_deepCopy False [] st))
       (map (\<lambda>(k, v). (k, DefaultChannelVersion)) st) []"

definition CreateCheckpoint ::
    "('s, 'e) checkpoint_manager \<Rightarrow> string \<Rightarrow> int \<Rightarrow> config \<Rightarrow> state \<Rightarrow> string \<Rightarrow> int \<Rightarrow> 's
     \<Rightarrow> ('s \<times> (checkpoint + 'e manager_error)) run" where
  "CreateCheckpoint cm uuid now config st source step s =
     (case cm of
        None \<Rightarrow> Return (s, Inr NoSaver)
      | Some ops \<Rightarrow>
          (let c = checkpoint_of_state uuid now st;
               req = \<lparr>pr_config = config, pr_checkpoint = Some c,
                      pr_metadata = Some (NewCheckpointMetadata source step),
                      pr_new_versions = ck_channel_versions c\<rparr>
           in run_bind (so_Put ops req s) (\<lambda>(s', r). Return (s',
                case r of Inl _ \<Rightarrow> Inl c | Inr e \<Rightarrow> Inr (Failed ''failed to store checkpoint'' e)))))"

definition ResumeFromCheckpoint ::
    "('s, 'e) checkpoint_manager \<Rightarrow> config \<Rightarrow> 's \<Rightarrow> ((state option \<times> config) + 'e manager_error) run" where
  "ResumeFromCheckpoint cm config s =
     (case cm of
        None \<Rightarrow> Return (Inl (None, config))
      | Some ops \<Rightarrow> run_bind (so_GetTuple ops config s) (\<lambda>r. Return
          (case r of
             Inr e \<Rightarrow> Inr (Failed ''failed to retrieve checkpoint'' e)
           | Inl (None, _) \<Rightarrow> Inr (NoCheckpoint ''checkpoint not found'')
           | Inl (Some t, config') \<Rightarrow>
               Inl (Some (gcopy_into [] (elems (ck_channel_values (tp_checkpoint t)))), config'))))"

definition ListCheckpoints ::
    "('s, 'e) checkpoint_manager \<Rightarrow> config \<Rightarrow> checkpoint_filter option \<Rightarrow> 's
     \<Rightarrow> (checkpoint_tuple list + 'e manager_error) run" where
  "ListCheckpoints cm config flt s =
     (case cm of None \<Rightarrow> Return (Inr NoSaver)
      | Some ops \<Rightarrow> run_bind (so_List ops config flt s) (\<lambda>r. Return (pass r)))"

definition manager_DeleteLineage ::
    "('s, 'e) checkpoint_manager \<Rightarrow> string \<Rightarrow> 's \<Rightarrow> 's \<times> 'e manager_error option" where
  "manager_DeleteLineage cm l s =
     (case cm of None \<Rightarrow> (s, Some NoSaver)
      | Some ops \<Rightarrow> (case so_DeleteLineage ops l s of (s', e) \<Rightarrow> (s', map_option PassedOn e)))"

definition Latest ::
    "('s, 'e) checkpoint_manager \<Rightarrow> string \<Rightarrow> string \<Rightarrow> 's \<Rightarrow> (checkpoint_tuple option + 'e manager_error) run" where
  "Latest cm l n s =
     (case cm of None \<Rightarrow> Return (Inr NoSaver)
      | Some ops \<Rightarrow>
          run_bind (CreateCheckpointConfig l [] n) (\<lambda>config.
          run_bind (so_List ops config (Some (WithLimit 1 NewCheckpointFilter)) s) (\<lambda>r. Return
            (case r of
               Inr e \<Rightarrow> Inr (Failed ''failed to list checkpoints'' e)
             | Inl [] \<Rightarrow> Inl None
             | Inl (t # _) \<Rightarrow> Inl (Some t)))))"

definition manager_Get ::
    "('s, 'e) checkpoint_manager \<Rightarrow> config \<Rightarrow> 's \<Rightarrow> ((checkpoint option \<times> config) + 'e manager_error) run" where
  "manager_Get cm config s =
     (case cm of None \<Rightarrow> Return (Inr NoSaver)
      | Some ops \<Rightarrow> run_bind (so_Get ops config s) (\<lambda>r. Return (pass r)))"

definition manager_GetTuple ::
    "('s, 'e) checkpoint_manager \<Rightarrow> config \<Rightarrow> 's \<Rightarrow> ((checkpoint_tuple option \<times> config) + 'e manager_error) run" where
  "manager_GetTuple cm config s =
     (case cm of None \<Rightarrow> Return (Inr NoSaver)
      | Some ops \<Rightarrow> run_bind (so_GetTuple ops config s) (\<lambda>r. Return (pass r)))"

definition Goto ::
    "('s, 'e) checkpoint_manager \<Rightarrow> string \<Rightarrow> string \<Rightarrow> string \<Rightarrow> 's
     \<Rightarrow> (checkpoint_tuple option + 'e manager_error) run" where
  "Goto cm l n c s =
     (case cm of None \<Rightarrow> Return (Inr NoSaver)
      | Some ops \<Rightarrow>
          run_bind (CreateCheckpointConfig l c n) (\<lambda>config.
          run_bind (so_GetTuple ops config s) (\<lambda>r. Return (pass (case r of Inl (t, _) \<Rightarrow> Inl t | Inr e \<Rightarrow> Inr e)))))"

definition manager_Put ::
    "('s, 'e) checkpoint_manager \<Rightarrow> put_request \<Rightarrow> 's \<Rightarrow> ('s \<times> (config + 'e manager_error)) run" where
  "manager_Put cm req s =
     (case cm of None \<Rightarrow> Return (s, Inr NoSaver)
      | Some ops \<Rightarrow> run_bind (so_Put ops req s) (\<lambda>(s', r). Return (s', pass r)))"

text \<open>
  The latest state with the resume command stored under \<open>StateKeyCommand\<close>.  The command is a pointer
  the engine reads back, not data, so it is returned beside the state, whose entry of that name,
  if any, it replaces.
\<close>

definition StateKeyCommand :: string where "StateKeyCommand = ''__command__''"

definition ResumeFromLatest ::
    "('s, 'e) checkpoint_manager \<Rightarrow> string \<Rightarrow> string \<Rightarrow> command option \<Rightarrow> 's
     \<Rightarrow> ((state \<times> command option) + 'e manager_error manager_error) run" where
  "ResumeFromLatest cm l n cmd s =
     (case cm of None \<Rightarrow> Return (Inr NoSaver)
      | Some ops \<Rightarrow> run_bind (Latest cm l n s) (\<lambda>r. Return
          (case r of
             Inr e \<Rightarrow> Inr (Failed ''failed to get latest checkpoint'' e)
           | Inl None \<Rightarrow> Inr (NoCheckpoint (''no checkpoint found for lineage '' @ l @ '' in namespace '' @ n))
           | Inl (Some t) \<Rightarrow>
               (let st = gcopy_into [] (elems (ck_channel_values (tp_checkpoint t)))
                in Inl (if cmd = None then st else gdel StateKeyCommand st, cmd)))))"

section \<open>Branching\<close>

definition fork_metadata :: "checkpoint_tuple \<Rightarrow> checkpoint_metadata" where
  "fork_metadata t = NewCheckpointMetadata CheckpointSourceFork
     (case tp_metadata t of None \<Rightarrow> 0 | Some m \<Rightarrow> md_step m)"

definition branch_tuple :: "config \<Rightarrow> checkpoint \<Rightarrow> checkpoint_metadata \<Rightarrow> checkpoint_tuple" where
  "branch_tuple cfg c md =
     \<lparr>tp_config = cfg, tp_checkpoint = c, tp_metadata = Some md, tp_parent_config = None, tp_pending_writes = []\<rparr>"

definition BranchFrom ::
    "('s, 'e) checkpoint_manager \<Rightarrow> string \<Rightarrow> int \<Rightarrow> int \<Rightarrow> string \<Rightarrow> string \<Rightarrow> string \<Rightarrow> string \<Rightarrow> 's
     \<Rightarrow> ('s \<times> (checkpoint_tuple + 'e manager_error)) run" where
  "BranchFrom cm uuid now1 now2 l n c newNamespace s =
     (case cm of None \<Rightarrow> Return (s, Inr NoSaver)
      | Some ops \<Rightarrow>
          run_bind (CreateCheckpointConfig l c n) (\<lambda>sourceConfig.
          run_bind (so_GetTuple ops sourceConfig s) (\<lambda>src.
            case src of
              Inr e \<Rightarrow> Return (s, Inr (Failed ''failed to get source checkpoint'' e))
            | Inl (None, _) \<Rightarrow> Return (s, Inr (NoCheckpoint ''source checkpoint not found''))
            | Inl (Some t, _) \<Rightarrow>
                run_bind (CreateCheckpointConfig l [] newNamespace) (\<lambda>newConfig.
                let new = (Fork uuid now1 (tp_checkpoint t))\<lparr>ck_timestamp := now2\<rparr>;
                    req = \<lparr>pf_config = newConfig, pf_checkpoint = Some new, pf_metadata = Some (fork_metadata t),
                           pf_new_versions = ck_channel_versions new, pf_pending_writes = []\<rparr>
                in run_bind (so_PutFull ops req s) (\<lambda>(s', r). Return (s',
                     case r of
                       Inr e \<Rightarrow> Inr (Failed ''failed to create branch checkpoint'' e)
                     | Inl cfg \<Rightarrow> Inl (branch_tuple cfg new (fork_metadata t))))))))"

definition search_config :: "string \<Rightarrow> string \<Rightarrow> string \<Rightarrow> config" where
  "search_config l n c =
     (let m = [(CfgKeyLineageID, VStr l)];
          m = (if c \<noteq> [] then gput CfgKeyCheckpointID (VStr c) m else m);
          m = (if n \<noteq> [] then gput CfgKeyCheckpointNS (VStr n) m else m)
      in [(CfgKeyConfigurable, VMap (Some m))])"

definition lineage_metadata :: "checkpoint_tuple \<Rightarrow> string \<Rightarrow> string \<Rightarrow> string \<Rightarrow> checkpoint_metadata" where
  "lineage_metadata t l n c =
     (let md = fork_metadata t
      in md\<lparr>md_extra := Some (gput ''source_namespace'' (VStr n) (gput ''source_checkpoint'' (VStr c)
            (gput ''source_lineage'' (VStr l) (elems (md_extra md)))))\<rparr>)"

definition BranchToNewLineage ::
    "('s, 'e) checkpoint_manager \<Rightarrow> string \<Rightarrow> int \<Rightarrow> int \<Rightarrow> string \<Rightarrow> string \<Rightarrow> string \<Rightarrow> string \<Rightarrow> string \<Rightarrow> 's
     \<Rightarrow> ('s \<times> (checkpoint_tuple + 'e manager_error)) run" where
  "BranchToNewLineage cm uuid now1 now2 l n c newLineage newNamespace s =
     (case cm of None \<Rightarrow> Return (s, Inr NoSaver)
      | Some ops \<Rightarrow>
          run_bind (so_GetTuple ops (search_config l n c) s) (\<lambda>src.
            case src of
              Inr e \<Rightarrow> Return (s, Inr (Failed (if c = [] then ''failed to get latest checkpoint''
                                            else ''failed to get source checkpoint'') e))
            | Inl (None, _) \<Rightarrow> Return (s, Inr (NoCheckpoint (if c = [] then ''no checkpoints found in source lineage''
                                                          else ''source checkpoint not found'')))
            | Inl (Some t, _) \<Rightarrow>
                run_bind (CreateCheckpointConfig newLineage [] newNamespace) (\<lambda>newConfig.
                let new = (Fork uuid now1 (tp_checkpoint t))\<lparr>ck_timestamp := now2\<rparr>;
                    md = lineage_metadata t l n c;
                    req = \<lparr>pr_config = newConfig, pr_checkpoint = Some new, pr_metadata = Some md,
                           pr_new_versions = ck_channel_versions new\<rparr>
                in run_bind (so_Put ops req s) (\<lambda>(s', r). Return (s',
                     case r of
                       Inr e \<Rightarrow> Inr (Failed ''failed to create branch checkpoint in new lineage'' e)
                     | Inl cfg \<Rightarrow> Inl (branch_tuple cfg new md))))))"

section \<open>The tree of a lineage\<close>

text \<open>
  Nodes are shared by pointer and found by checkpoint ID, so a node is named by its ID; a node built
  twice for one ID (from two namespaces) is the later one.
\<close>

record checkpoint_node =
  nd_checkpoint :: checkpoint_tuple
  nd_children :: "string list"
  nd_parent :: "string option"

type_synonym node_map = "(string, checkpoint_node) gomap"

record checkpoint_tree =
  tr_root :: "string option"
  tr_branches :: node_map

abbreviation tuple_id :: "checkpoint_tuple \<Rightarrow> string" where
  "tuple_id t \<equiv> ck_id (tp_checkpoint t)"

abbreviation tuple_parent :: "checkpoint_tuple \<Rightarrow> string" where
  "tuple_parent t \<equiv> ck_parent (tp_checkpoint t)"

fun create_nodes :: "checkpoint_tuple list \<Rightarrow> node_map \<Rightarrow> node_map" where
  "create_nodes [] nodes = nodes"
| "create_nodes (t # ts) nodes =
     create_nodes ts (gput (tuple_id t) \<lparr>nd_checkpoint = t, nd_children = [], nd_parent = None\<rparr> nodes)"

definition link :: "string \<Rightarrow> string \<Rightarrow> node_map \<Rightarrow> node_map" where
  "link child parent nodes =
     (case gget nodes parent of
        None \<Rightarrow> nodes
      | Some p \<Rightarrow>
          (let nodes = gput parent (p\<lparr>nd_children := nd_children p @ [child]\<rparr>) nodes
           in case gget nodes child of
                None \<Rightarrow> nodes
              | Some x \<Rightarrow> gput child (x\<lparr>nd_parent := Some parent\<rparr>) nodes))"

fun link_nodes :: "checkpoint_tuple list \<Rightarrow> node_map \<Rightarrow> string list \<Rightarrow> node_map \<times> string list" where
  "link_nodes [] nodes roots = (nodes, roots)"
| "link_nodes (t # ts) nodes roots =
     (if tuple_parent t \<noteq> [] \<and> ghas nodes (tuple_parent t)
      then link_nodes ts (link (tuple_id t) (tuple_parent t) nodes) roots
      else link_nodes ts nodes (roots @ [tuple_id t]))"

definition node_time :: "node_map \<Rightarrow> string \<Rightarrow> int" where
  "node_time nodes i = (case gget nodes i of None \<Rightarrow> 0 | Some x \<Rightarrow> tuple_time (nd_checkpoint x))"

definition sort_children :: "node_map \<Rightarrow> node_map" where
  "sort_children nodes = map (\<lambda>(i, x). (i, x\<lparr>nd_children := sort_key (node_time nodes) (nd_children x)\<rparr>)) nodes"

fun oldest_root :: "node_map \<Rightarrow> string \<Rightarrow> string list \<Rightarrow> string" where
  "oldest_root nodes r [] = r"
| "oldest_root nodes r (i # is) = oldest_root nodes (if node_time nodes i < node_time nodes r then i else r) is"

definition build_tree :: "checkpoint_tuple list \<Rightarrow> checkpoint_tree" where
  "build_tree ts =
     (let (nodes, roots) = link_nodes ts (create_nodes ts []) [];
          nodes = sort_children nodes
      in \<lparr>tr_root = (case roots of [] \<Rightarrow> None | r # rs \<Rightarrow> Some (oldest_root nodes r rs)), tr_branches = nodes\<rparr>)"

definition GetCheckpointTree ::
    "('s, 'e) checkpoint_manager \<Rightarrow> string \<Rightarrow> 's \<Rightarrow> (checkpoint_tree + 'e manager_error) run" where
  "GetCheckpointTree cm l s =
     (case cm of None \<Rightarrow> Return (Inr NoSaver)
      | Some ops \<Rightarrow>
          run_bind (CreateCheckpointConfig l [] []) (\<lambda>config.
          run_bind (so_List ops config None s) (\<lambda>r. Return
            (case r of
               Inr e \<Rightarrow> Inr (Failed ''failed to list checkpoints'' e)
             | Inl ts \<Rightarrow> Inl (if ts = [] then \<lparr>tr_root = None, tr_branches = []\<rparr> else build_tree ts)))))"

definition ListChildren ::
    "('s, 'e) checkpoint_manager \<Rightarrow> config \<Rightarrow> 's \<Rightarrow> ((checkpoint_tuple list \<times> config) + 'e manager_error) run" where
  "ListChildren cm config s =
     (case cm of None \<Rightarrow> Return (Inr NoSaver)
      | Some ops \<Rightarrow>
          run_bind (so_GetTuple ops config s) (\<lambda>src.
            case src of
              Inr e \<Rightarrow> Return (Inr (Failed ''failed to get parent checkpoint'' e))
            | Inl (None, _) \<Rightarrow> Return (Inr (NoCheckpoint ''parent checkpoint not found''))
            | Inl (Some p, config') \<Rightarrow>
                run_bind (CreateCheckpointConfig (GetLineageID config') [] []) (\<lambda>allConfig.
                run_bind (so_List ops allConfig None s) (\<lambda>r. Return
                  (case r of
                     Inr e \<Rightarrow> Inr (Failed ''failed to list checkpoints'' e)
                   | Inl ts \<Rightarrow> Inl (sort_key tuple_time (filter (\<lambda>t. tuple_parent t = tuple_id p) ts), config'))))))"

text \<open>The last lookup of \<open>GetParent\<close>, in the namespace of the child.\<close>

definition same_namespace_parent ::
    "('s, 'e) saver_ops \<Rightarrow> config \<Rightarrow> string \<Rightarrow> 's \<Rightarrow> ((checkpoint_tuple option \<times> config) + 'e manager_error) run" where
  "same_namespace_parent ops config parentID s =
     run_bind (CreateCheckpointConfig (GetLineageID config) parentID (GetNamespace config)) (\<lambda>parentConfig.
     run_bind (so_GetTuple ops parentConfig s) (\<lambda>r. Return
       (case r of Inl (t, _) \<Rightarrow> Inl (t, config) | Inr e \<Rightarrow> Inr (PassedOn e))))"

definition GetParent ::
    "('s, 'e) checkpoint_manager \<Rightarrow> config \<Rightarrow> 's \<Rightarrow> ((checkpoint_tuple option \<times> config) + 'e manager_error) run" where
  "GetParent cm config s =
     (case cm of None \<Rightarrow> Return (Inr NoSaver)
      | Some ops \<Rightarrow>
          run_bind (so_GetTuple ops config s) (\<lambda>cur.
            case cur of
              Inr e \<Rightarrow> Return (Inr (Failed ''failed to get checkpoint'' e))
            | Inl (None, _) \<Rightarrow> Return (Inr (NoCheckpoint ''checkpoint not found''))
            | Inl (Some t, config') \<Rightarrow>
                (if tuple_parent t = [] then Return (Inl (None, config'))
                 else case tp_parent_config t of
                     None \<Rightarrow> same_namespace_parent ops config' (tuple_parent t) s
                   | Some pc \<Rightarrow>
                       run_bind (so_GetTuple ops pc s) (\<lambda>r.
                         case r of
                           Inr e \<Rightarrow> Return (Inr (Failed ''failed to get parent checkpoint'' e))
                         | Inl (Some p, _) \<Rightarrow> Return (Inl (Some p, config'))
                         | Inl (None, pc') \<Rightarrow>
                             run_bind (CreateCheckpointConfig (GetLineageID pc') (tuple_parent t) []) (\<lambda>cross.
                             run_bind (so_GetTuple ops cross s) (\<lambda>r'.
                               case r' of
                                 Inl (Some p, _) \<Rightarrow> Return (Inl (Some p, config'))
                               | _ \<Rightarrow> same_namespace_parent ops config' (tuple_parent t) s))))))"

section \<open>What the manager needs of a saver\<close>

text \<open>The part of a stored tuple a lookup gives back (the pending writes are kept apart).\<close>

definition durable ::
    "checkpoint_tuple \<Rightarrow> config \<times> checkpoint \<times> checkpoint_metadata option \<times> config option" where
  "durable t = (tp_config t, tp_checkpoint t, tp_metadata t, tp_parent_config t)"

type_synonym 's stored_map = "'s \<Rightarrow> string \<Rightarrow> string \<Rightarrow> string \<Rightarrow> checkpoint_tuple option"

text \<open>The effect every store has on the stored tuples: one is added, some of its namespace may go.\<close>

definition stores :: "'s stored_map \<Rightarrow> 's \<Rightarrow> string \<Rightarrow> string \<Rightarrow> checkpoint \<Rightarrow> checkpoint_metadata option \<Rightarrow> config \<Rightarrow> 's \<Rightarrow> bool" where
  "stores stored s l n c md cfg s' \<longleftrightarrow>
     CreateCheckpointConfig l (ck_id c) n = Return cfg
     \<and> (\<exists>t. stored s' l n (ck_id c) = Some t \<and> tp_checkpoint t = Copy c \<and> tp_metadata t = md)
     \<and> (\<forall>d. d \<noteq> ck_id c \<longrightarrow> stored s' l n d = stored s l n d \<or> stored s' l n d = None)
     \<and> (\<forall>l' n' d. (l', n') \<noteq> (l, n) \<longrightarrow> stored s' l' n' d = stored s l' n' d)"

locale checkpoint_saver =
  fixes ops :: "('s, 'e) saver_ops" and inv :: "'s \<Rightarrow> bool" and stored :: "'s stored_map"
    and room :: "'s \<Rightarrow> string \<Rightarrow> string \<Rightarrow> int \<Rightarrow> bool"
  assumes put_law: "\<And>s req l n c. \<lbrakk>inv s; GetLineageID (pr_config req) = l; l \<noteq> []; GetNamespace (pr_config req) = n;
      pr_checkpoint req = Some c; ck_id c \<noteq> []; room s l n (ck_timestamp c)\<rbrakk>
    \<Longrightarrow> \<exists>s' cfg. so_Put ops req s = Return (s', Inl cfg) \<and> inv s' \<and> stores stored s l n c (pr_metadata req) cfg s'"
    and put_full_law: "\<And>s req l n c. \<lbrakk>inv s; GetLineageID (pf_config req) = l; l \<noteq> []; GetNamespace (pf_config req) = n;
      pf_checkpoint req = Some c; ck_id c \<noteq> []; room s l n (ck_timestamp c)\<rbrakk>
    \<Longrightarrow> \<exists>s' cfg. so_PutFull ops req s = Return (s', Inl cfg) \<and> inv s' \<and> stores stored s l n c (pf_metadata req) cfg s'"
    and get_law: "\<And>s config l n c. \<lbrakk>inv s; GetLineageID config = l; l \<noteq> []; GetNamespace config = n; GetCheckpointID config = c; c \<noteq> []\<rbrakk>
    \<Longrightarrow> \<exists>r. so_GetTuple ops config s = Return (Inl (r, config)) \<and> map_option durable r = map_option durable (stored s l n c)"
    and latest_law: "\<And>s config l n. \<lbrakk>inv s; GetLineageID config = l; l \<noteq> []; GetNamespace config = n; n \<noteq> []\<rbrakk>
    \<Longrightarrow> \<exists>ts. so_List ops config (Some (WithLimit 1 NewCheckpointFilter)) s = Return (Inl ts)
        \<and> (case ts of [] \<Rightarrow> \<forall>d. stored s l n d = None
           | t # us \<Rightarrow> map_option durable (stored s l n (tuple_id t)) = Some (durable t)
               \<and> (\<forall>d u. stored s l n d = Some u \<longrightarrow> tuple_time u \<le> tuple_time t))"
begin

lemma latest_after_store:
  assumes "inv s'" "l \<noteq> []" "n \<noteq> []" "stores stored s l n c md cfg s'"
    "\<And>d u. stored s l n d = Some u \<Longrightarrow> tuple_time u < ck_timestamp c"
  shows "\<exists>t. Latest (Some ops) l n s' = Return (Inl (Some t)) \<and> tp_checkpoint t = Copy c \<and> tp_metadata t = md"
proof -
  obtain config where config: "CreateCheckpointConfig l [] n = Return config" using create_ok[OF assms(2)] by blast
  note cfg = configurable_create[OF config]
  from latest_law[OF assms(1) _ assms(2) _ assms(3), of config] cfg obtain ts where
    ts: "so_List ops config (Some (WithLimit 1 NewCheckpointFilter)) s' = Return (Inl ts)" and
    best: "case ts of [] \<Rightarrow> \<forall>d. stored s' l n d = None
           | t # us \<Rightarrow> map_option durable (stored s' l n (tuple_id t)) = Some (durable t)
               \<and> (\<forall>d u. stored s' l n d = Some u \<longrightarrow> tuple_time u \<le> tuple_time t)" by auto
  from assms(4) obtain t0 where t0: "stored s' l n (ck_id c) = Some t0" "tp_checkpoint t0 = Copy c" "tp_metadata t0 = md"
    by (auto simp: stores_def)
  with best obtain t us where tus: "ts = t # us" by (cases ts) auto
  from best tus obtain v where v: "stored s' l n (tuple_id t) = Some v" "durable v = durable t" by auto
  have le: "tuple_time t0 \<le> tuple_time t" using best tus t0(1) by auto
  have "tuple_id t = ck_id c"
  proof (rule ccontr)
    assume "tuple_id t \<noteq> ck_id c"
    then have "stored s l n (tuple_id t) = Some v" using assms(4) v(1) by (auto simp: stores_def)
    from assms(5)[OF this] v(2) le t0(2) show False by (simp add: durable_def)
  qed
  with v t0 have "durable t = durable t0" by simp
  with t0 config ts tus show ?thesis by (simp add: Latest_def durable_def)
qed

lemma create_then_latest:
  assumes "inv s" "GetLineageID config = l" "l \<noteq> []" "GetNamespace config = n" "n \<noteq> []" "uuid \<noteq> []"
    "room s l n now" "\<And>d u. stored s l n d = Some u \<Longrightarrow> tuple_time u < now"
  shows "\<exists>s' t. CreateCheckpoint (Some ops) uuid now config st source step s
        = Return (s', Inl (checkpoint_of_state uuid now st)) \<and> inv s'
     \<and> Latest (Some ops) l n s' = Return (Inl (Some t)) \<and> tp_checkpoint t = Copy (checkpoint_of_state uuid now st)
     \<and> tp_metadata t = Some (NewCheckpointMetadata source step)"
proof -
  let ?c = "checkpoint_of_state uuid now st"
  let ?req = "\<lparr>pr_config = config, pr_checkpoint = Some ?c, pr_metadata = Some (NewCheckpointMetadata source step),
                pr_new_versions = ck_channel_versions ?c\<rparr>"
  have c: "ck_id ?c = uuid" "ck_timestamp ?c = now" by (simp_all add: checkpoint_of_state_def NewCheckpoint_def)
  have "\<exists>s' cfg. so_Put ops ?req s = Return (s', Inl cfg) \<and> inv s'
      \<and> stores stored s l n ?c (pr_metadata ?req) cfg s'"
    by (rule put_law) (use assms c in simp_all)
  then obtain s' cfg where p: "so_Put ops ?req s = Return (s', Inl cfg)" "inv s'"
    "stores stored s l n ?c (Some (NewCheckpointMetadata source step)) cfg s'" by auto
  have "\<exists>t. Latest (Some ops) l n s' = Return (Inl (Some t)) \<and> tp_checkpoint t = Copy ?c
      \<and> tp_metadata t = Some (NewCheckpointMetadata source step)"
    by (rule latest_after_store[OF p(2) assms(3,5) p(3)]) (use assms(8) c in simp)
  with p show ?thesis by (auto simp: CreateCheckpoint_def Let_def)
qed

lemma goto_stored:
  assumes "inv s" "l \<noteq> []" "c \<noteq> []"
  shows "\<exists>r. Goto (Some ops) l n c s = Return (Inl r) \<and> map_option durable r = map_option durable (stored s l n c)"
proof -
  obtain config where config: "CreateCheckpointConfig l c n = Return config" using create_ok[OF assms(2)] by blast
  note cfg = configurable_create[OF config]
  from get_law[OF assms(1) _ assms(2) _ _ assms(3), of config] cfg obtain r where
    "so_GetTuple ops config s = Return (Inl (r, config))" "map_option durable r = map_option durable (stored s l n c)" by auto
  with config show ?thesis by (simp add: Goto_def pass_def)
qed

lemma branch_from:
  assumes "inv s" "l \<noteq> []" "c \<noteq> []" "stored s l n c = Some t" "uuid \<noteq> []" "room s l n' now2"
  shows "\<exists>s' cfg. BranchFrom (Some ops) uuid now1 now2 l n c n' s
       = Return (s', Inl (branch_tuple cfg ((Fork uuid now1 (tp_checkpoint t))\<lparr>ck_timestamp := now2\<rparr>) (fork_metadata t)))
     \<and> inv s' \<and> stores stored s l n' ((Fork uuid now1 (tp_checkpoint t))\<lparr>ck_timestamp := now2\<rparr>) (Some (fork_metadata t)) cfg s'"
proof -
  let ?new = "(Fork uuid now1 (tp_checkpoint t))\<lparr>ck_timestamp := now2\<rparr>"
  obtain config where config: "CreateCheckpointConfig l c n = Return config" using create_ok[OF assms(2)] by blast
  obtain config' where config': "CreateCheckpointConfig l [] n' = Return config'" using create_ok[OF assms(2)] by blast
  from get_law[OF assms(1) _ assms(2) _ _ assms(3), of config] configurable_create[OF config] assms(4) obtain r where
    r: "so_GetTuple ops config s = Return (Inl (Some r, config))" "durable r = durable t" by auto
  have eq: "tp_checkpoint r = tp_checkpoint t" "fork_metadata r = fork_metadata t"
    using r(2) by (simp_all add: durable_def fork_metadata_def)
  let ?req = "\<lparr>pf_config = config', pf_checkpoint = Some ?new, pf_metadata = Some (fork_metadata t),
                pf_new_versions = ck_channel_versions ?new, pf_pending_writes = []\<rparr>"
  have "\<exists>s' cfg. so_PutFull ops ?req s = Return (s', Inl cfg) \<and> inv s'
      \<and> stores stored s l n' ?new (pf_metadata ?req) cfg s'"
    by (rule put_full_law) (use assms configurable_create[OF config'] in \<open>simp_all add: Fork_def\<close>)
  then obtain s' cfg where p: "so_PutFull ops ?req s = Return (s', Inl cfg)" "inv s'"
    "stores stored s l n' ?new (Some (fork_metadata t)) cfg s'" by auto
  from p config config' r(1) eq show ?thesis
    by (intro exI[of _ s'] exI[of _ cfg]) (simp add: BranchFrom_def Let_def)
qed

end

section \<open>The in-memory saver keeps these laws\<close>

definition inmemory_stored :: "saver stored_map" where
  "inmemory_stored s l n c = gget (cell s l n) c"

definition inmemory_room :: "saver \<Rightarrow> string \<Rightarrow> string \<Rightarrow> int \<Rightarrow> bool" where
  "inmemory_room s l n time \<longleftrightarrow> 1 \<le> sv_max s
     \<and> (int (length (cell s l n)) < sv_max s \<or> list_ex (\<lambda>(c, t). tuple_time t < time) (cell s l n))"

lemma inmemory_roomD:
  assumes "saver_wf s" "inmemory_room s l n time"
  shows "1 \<le> sv_max s"
    "int (length (cell s l n)) < sv_max s \<or> (\<exists>d u. gget (cell s l n) d = Some u \<and> tuple_time u < time)"
proof -
  have "well_keyed (cell s l n)" using saver_wf_cell[OF assms(1)] by (simp add: cell_ok_def)
  then show "1 \<le> sv_max s"
    "int (length (cell s l n)) < sv_max s \<or> (\<exists>d u. gget (cell s l n) d = Some u \<and> tuple_time u < time)"
    using assms(2) by (auto simp: inmemory_room_def list_ex_iff well_keyed_mem_get)
qed

lemma put_effect_stores:
  assumes "put_effect s l n (ck_id c) t ids s'" "ck_id c \<notin> set ids" "tp_checkpoint t = Copy c"
    "tp_metadata t = md" "CreateCheckpointConfig l (ck_id c) n = Return cfg"
  shows "stores inmemory_stored s l n c md cfg s'"
  using assms by (auto simp: stores_def put_effect_def inmemory_stored_def fold_gdel_get)

lemma inmemory_put:
  assumes "saver_wf s" "GetLineageID (pr_config req) = l" "l \<noteq> []" "GetNamespace (pr_config req) = n"
    "pr_checkpoint req = Some c" "inmemory_room s l n (ck_timestamp c)"
  shows "\<exists>s' cfg. so_Put inmemory_ops req s = Return (s', Inl cfg) \<and> saver_wf s'
     \<and> stores inmemory_stored s l n c (pr_metadata req) cfg s'"
proof -
  note room = inmemory_roomD[OF assms(1,6)]
  obtain s' r where p: "Put req s = Return (s', r)" using Put_total[of s req] room(1) by auto
  then have "\<exists>cfg. r = Inl cfg" using assms(2-5) by (auto simp: Put_def Let_def run_bind_Return_iff)
  then obtain cfg where p: "Put req s = Return (s', Inl cfg)" using p by blast
  note eff = Put_effect[OF assms(1) p assms(5) assms(2)[symmetric] assms(4)[symmetric]]
  from eff(2) obtain ids t where e: "put_effect s l n (ck_id c) t ids s'" "tp_checkpoint t = Copy c"
    "tp_metadata t = pr_metadata req" "CreateCheckpointConfig l (ck_id c) n = Return cfg" by blast
  have "ck_id c \<notin> set ids" by (rule put_effect_readable[OF e(1) assms(1) room(1)]) (use room(2) e(2) in simp)
  with e put_effect_stores p eff(1) show ?thesis by (auto simp: inmemory_ops_def)
qed

lemma inmemory_put_full:
  assumes "saver_wf s" "GetLineageID (pf_config req) = l" "l \<noteq> []" "GetNamespace (pf_config req) = n"
    "pf_checkpoint req = Some c" "inmemory_room s l n (ck_timestamp c)"
  shows "\<exists>s' cfg. so_PutFull inmemory_ops req s = Return (s', Inl cfg) \<and> saver_wf s'
     \<and> stores inmemory_stored s l n c (pf_metadata req) cfg s'"
proof -
  note room = inmemory_roomD[OF assms(1,6)]
  obtain s' r where p: "PutFull req s = Return (s', r)" using PutFull_total[of s req] room(1) by auto
  then have "\<exists>cfg. r = Inl cfg" using assms(2-5) by (auto simp: PutFull_def Let_def run_bind_Return_iff)
  then obtain cfg where p: "PutFull req s = Return (s', Inl cfg)" using p by blast
  note eff = PutFull_effect[OF assms(1) p assms(5) assms(2)[symmetric] assms(4)[symmetric]]
  from eff(2) obtain ids t where e: "put_effect s l n (ck_id c) t ids s'" "tp_checkpoint t = Copy c"
    "tp_metadata t = pf_metadata req" "CreateCheckpointConfig l (ck_id c) n = Return cfg" by blast
  have "ck_id c \<notin> set ids" by (rule put_effect_readable[OF e(1) assms(1) room(1)]) (use room(2) e(2) in simp)
  with e put_effect_stores p eff(1) show ?thesis by (auto simp: inmemory_ops_def)
qed

lemma durable_result:
  "Copy (tp_checkpoint t) = tp_checkpoint t \<Longrightarrow> durable (createResultTuple s t l n c) = durable t"
  by (simp add: durable_def createResultTuple_def)

lemma inmemory_get:
  assumes "saver_wf s" "GetLineageID config = l" "l \<noteq> []" "GetNamespace config = n" "GetCheckpointID config = c" "c \<noteq> []"
  shows "\<exists>r. so_GetTuple inmemory_ops config s = Return (Inl (r, config))
     \<and> map_option durable r = map_option durable (inmemory_stored s l n c)"
  using assms cell_ok_get[OF saver_wf_cell[OF assms(1)], of l n c]
  by (auto simp: inmemory_ops_def GetTuple_cell Let_def inmemory_stored_def durable_result option.map_comp
      intro!: option.map_cong)

lemma inmemory_latest:
  assumes "saver_wf s" "GetLineageID config = l" "l \<noteq> []" "GetNamespace config = n" "n \<noteq> []"
  shows "\<exists>ts. so_List inmemory_ops config (Some (WithLimit 1 NewCheckpointFilter)) s = Return (Inl ts)
        \<and> (case ts of [] \<Rightarrow> \<forall>d. inmemory_stored s l n d = None
           | t # us \<Rightarrow> map_option durable (inmemory_stored s l n (tuple_id t)) = Some (durable t)
               \<and> (\<forall>d u. inmemory_stored s l n d = Some u \<longrightarrow> tuple_time u \<le> tuple_time t))"
proof -
  let ?res = "tuples_of s l (n, cell s l n)"
  note cok = saver_wf_cell[OF assms(1), of l n]
  have wk: "well_keyed (cell s l n)" using cok by (simp add: cell_ok_def)
  obtain ts where ts: "saver_List config (Some (WithLimit 1 NewCheckpointFilter)) s = Return (Inl (take 1 ts))"
    "sorted_wrt (\<lambda>t u. tuple_time u \<le> tuple_time t) ts" "mset ts = mset ?res"
    using list_newest_first[of config 1 s] assms by auto
  then have set: "set ts = set ?res" by (metis set_mset_mset)
  have mem: "t \<in> set ?res \<longleftrightarrow> (\<exists>c u. inmemory_stored s l n c = Some u \<and> t = createResultTuple s u l n c)" for t
    using wk by (auto simp: inmemory_stored_def well_keyed_mem_get[symmetric])
  show ?thesis
  proof (cases ts)
    case Nil
    then have "\<forall>d. inmemory_stored s l n d = None" using set by (auto simp: inmemory_stored_def)
    with ts(1) Nil show ?thesis by (auto simp: inmemory_ops_def)
  next
    case (Cons t us)
    then have "t \<in> set ?res" using set by auto
    then obtain c u where u: "inmemory_stored s l n c = Some u" "t = createResultTuple s u l n c" using mem by blast
    note ok = cell_ok_get[OF cok u(1)[unfolded inmemory_stored_def]]
    then have "tuple_id t = c" "durable t = durable u" using u(2) by (simp_all add: createResultTuple_def durable_result) (simp add: durable_def)
    moreover have "tuple_time v \<le> tuple_time t" if "inmemory_stored s l n d = Some v" for d v
    proof -
      have "createResultTuple s v l n d \<in> set ts" using that mem set by blast
      with ts(2) Cons show ?thesis by (auto simp: createResultTuple_def)
    qed
    ultimately show ?thesis using ts(1) u(1) Cons by (auto simp: inmemory_ops_def)
  qed
qed

interpretation inmemory: checkpoint_saver inmemory_ops saver_wf inmemory_stored inmemory_room
proof unfold_locales
  fix s l n c and req :: put_request
  assume "saver_wf s" "GetLineageID (pr_config req) = l" "l \<noteq> []" "GetNamespace (pr_config req) = n"
    "pr_checkpoint req = Some c" "ck_id c \<noteq> []" "inmemory_room s l n (ck_timestamp c)"
  then show "\<exists>s' cfg. so_Put inmemory_ops req s = Return (s', Inl cfg) \<and> saver_wf s'
      \<and> stores inmemory_stored s l n c (pr_metadata req) cfg s'" by (intro inmemory_put)
next
  fix s l n c and req :: put_full_request
  assume "saver_wf s" "GetLineageID (pf_config req) = l" "l \<noteq> []" "GetNamespace (pf_config req) = n"
    "pf_checkpoint req = Some c" "ck_id c \<noteq> []" "inmemory_room s l n (ck_timestamp c)"
  then show "\<exists>s' cfg. so_PutFull inmemory_ops req s = Return (s', Inl cfg) \<and> saver_wf s'
      \<and> stores inmemory_stored s l n c (pf_metadata req) cfg s'" by (intro inmemory_put_full)
qed (use inmemory_get inmemory_latest in blast)+

section \<open>The tree\<close>

lemma distinct_key_filter: "distinct (map f xs) \<Longrightarrow> x \<in> set xs \<Longrightarrow> filter (\<lambda>u. f u = f x) xs = [x]"
proof (induction xs)
  case (Cons a xs)
  show ?case
  proof (cases "x = a")
    case True
    with Cons.prems have "\<forall>u \<in> set xs. f u \<noteq> f x" by (metis distinct.simps(2) image_eqI list.set_map list.simps(9))
    with True show ?thesis by (simp add: filter_empty_conv)
  next
    case False
    with Cons.prems have "f a \<noteq> f x" by (metis distinct.simps(2) image_eqI list.set_map list.simps(9) set_ConsD)
    with Cons False show ?thesis by simp
  qed
qed simp

definition fresh_node :: "checkpoint_tuple \<Rightarrow> checkpoint_node" where
  "fresh_node t = \<lparr>nd_checkpoint = t, nd_children = [], nd_parent = None\<rparr>"

lemma create_nodes_keyset [simp]: "keyset (create_nodes ts nodes) = set (map tuple_id ts) \<union> keyset nodes"
  by (induction ts nodes rule: create_nodes.induct) auto

lemma create_nodes_get:
  "distinct (map tuple_id ts) \<Longrightarrow> t \<in> set ts \<Longrightarrow> gget (create_nodes ts nodes) (tuple_id t) = Some (fresh_node t)"
proof (induction ts nodes rule: create_nodes.induct)
  case (2 u ts nodes)
  have same: "i \<notin> set (map tuple_id us) \<Longrightarrow> gget (create_nodes us m) i = gget m i" for us m i
    by (induction us m rule: create_nodes.induct) auto
  show ?case
  proof (cases "t = u")
    case True
    with 2(2) show ?thesis by (simp add: same fresh_node_def)
  next
    case False
    with 2 show ?thesis by simp
  qed
qed simp

text \<open>The tuples that have their parent among the nodes \<open>K\<close>.\<close>

definition has_parent :: "string set \<Rightarrow> checkpoint_tuple \<Rightarrow> bool" where
  "has_parent K t \<longleftrightarrow> tuple_parent t \<noteq> [] \<and> tuple_parent t \<in> K"

definition linked :: "string set \<Rightarrow> checkpoint_tuple list \<Rightarrow> string \<Rightarrow> checkpoint_node \<Rightarrow> checkpoint_node" where
  "linked K ts i x = x\<lparr>nd_children := nd_children x @ map tuple_id (filter (\<lambda>t. has_parent K t \<and> tuple_parent t = i) ts),
     nd_parent := (case filter (\<lambda>t. has_parent K t \<and> tuple_id t = i) ts of
                     [] \<Rightarrow> nd_parent x | us \<Rightarrow> Some (tuple_parent (last us)))\<rparr>"

lemma link_get:
  assumes "ghas nodes child" "ghas nodes parent"
  shows "gget (link child parent nodes) i = map_option (\<lambda>x. x\<lparr>nd_children := nd_children x @ (if i = parent then [child] else []),
     nd_parent := (if i = child then Some parent else nd_parent x)\<rparr>) (gget nodes i)"
  using assms by (cases "gget nodes i") (auto simp: link_def Let_def ghas_def split: option.splits)

lemma link_keyset [simp]: "keyset (link child parent nodes) = keyset nodes"
  by (auto simp: link_def Let_def keyset_get split: option.splits)

lemma linked_Nil [simp]: "linked K [] i x = x"
  by (simp add: linked_def)

lemma linked_Cons_skip: "\<not> has_parent K t \<Longrightarrow> linked K (t # ts) i x = linked K ts i x"
  by (simp add: linked_def)

lemma linked_Cons_link:
  "has_parent K t \<Longrightarrow> linked K (t # ts) i x = linked K ts i (x\<lparr>nd_children := nd_children x @ (if i = tuple_parent t then [tuple_id t] else []),
     nd_parent := (if i = tuple_id t then Some (tuple_parent t) else nd_parent x)\<rparr>)"
  by (auto simp: linked_def split: list.splits)

lemma link_nodes_props:
  "set (map tuple_id ts) \<subseteq> keyset nodes \<Longrightarrow>
     gget (fst (link_nodes ts nodes roots)) i = map_option (linked (keyset nodes) ts i) (gget nodes i)
   \<and> snd (link_nodes ts nodes roots) = roots @ map tuple_id (filter (\<lambda>t. \<not> has_parent (keyset nodes) t) ts)"
proof (induction ts nodes roots rule: link_nodes.induct)
  case (1 nodes roots)
  then show ?case by (cases "gget nodes i") auto
next
  case (2 t ts nodes roots)
  show ?case
  proof (cases "has_parent (keyset nodes) t")
    case True
    then have c: "tuple_parent t \<noteq> [] \<and> ghas nodes (tuple_parent t)" and h: "ghas nodes (tuple_id t)"
      using 2(3) by (auto simp: has_parent_def ghas_keyset)
    have sub: "set (map tuple_id ts) \<subseteq> keyset (link (tuple_id t) (tuple_parent t) nodes)" using 2(3) by simp
    from 2(1)[OF c sub] True c h show ?thesis
      by (cases "gget nodes i") (simp_all add: link_get linked_Cons_link del: link_keyset, simp_all add: linked_Cons_link)
  next
    case False
    then have c: "\<not> (tuple_parent t \<noteq> [] \<and> ghas nodes (tuple_parent t))" by (simp add: has_parent_def ghas_keyset)
    have sub: "set (map tuple_id ts) \<subseteq> keyset nodes" using 2(3) by simp
    have fn: "map_option (linked (keyset nodes) (t # ts) i) x = map_option (linked (keyset nodes) ts i) x" for x
      using False by (cases x) (simp_all add: linked_Cons_skip)
    have "link_nodes (t # ts) nodes roots = link_nodes ts nodes (roots @ [tuple_id t])"
      unfolding link_nodes.simps if_not_P[OF c] ..
    with 2(2)[OF c sub] False show ?thesis unfolding fn by simp
  qed
qed

lemma oldest_root_props:
  "oldest_root nodes r is \<in> set (r # is) \<and> (\<forall>i \<in> set (r # is). node_time nodes (oldest_root nodes r is) \<le> node_time nodes i)"
proof (induction nodes r "is" rule: oldest_root.induct)
  case (2 nodes r i "is")
  then show ?case by (cases "node_time nodes i < node_time nodes r") auto
qed simp

lemma gget_map_values: "gget (map (\<lambda>(i, x). (i, f x)) m) i = map_option f (gget m i)"
  by (induction m) auto

lemma sort_children_get:
  "gget (sort_children nodes) i = map_option (\<lambda>x. x\<lparr>nd_children := sort_key (node_time nodes) (nd_children x)\<rparr>) (gget nodes i)"
  unfolding sort_children_def by (rule gget_map_values)

text \<open>The branches and the root of a tree, in terms of the listed tuples.\<close>

lemma tree_parts:
  fixes ts :: "checkpoint_tuple list"
  assumes "distinct (map tuple_id ts)"
  defines "K \<equiv> set (map tuple_id ts)" and "bs \<equiv> tr_branches (build_tree ts)"
  shows "keyset bs = K"
    "t \<in> set ts \<Longrightarrow> gget bs (tuple_id t) = Some ((linked K ts (tuple_id t) (fresh_node t))
        \<lparr>nd_children := sort_key (node_time bs) (nd_children (linked K ts (tuple_id t) (fresh_node t)))\<rparr>)"
    "t \<in> set ts \<Longrightarrow> node_time bs (tuple_id t) = tuple_time t"
    "tr_root (build_tree ts) = (case map tuple_id (filter (\<lambda>t. \<not> has_parent K t) ts) of [] \<Rightarrow> None | r # rs \<Rightarrow> Some (oldest_root bs r rs))"
proof -
  let ?n0 = "create_nodes ts []" and ?n1 = "fst (link_nodes ts (create_nodes ts []) [])"
  have K: "keyset ?n0 = K" by (simp add: K_def)
  have lp: "gget ?n1 i = map_option (linked K ts i) (gget ?n0 i)"
    "snd (link_nodes ts ?n0 []) = map tuple_id (filter (\<lambda>t. \<not> has_parent K t) ts)" for i
    using link_nodes_props[of ts ?n0 "[]"] by (simp_all add: K_def)
  have tr: "build_tree ts = \<lparr>tr_root = (case map tuple_id (filter (\<lambda>t. \<not> has_parent K t) ts) of [] \<Rightarrow> None
      | r # rs \<Rightarrow> Some (oldest_root (sort_children ?n1) r rs)), tr_branches = sort_children ?n1\<rparr>"
    using lp(2) by (simp add: build_tree_def Let_def case_prod_beta)
  then have bs: "bs = sort_children ?n1" by (simp add: bs_def)
  show "tr_root (build_tree ts) = (case map tuple_id (filter (\<lambda>t. \<not> has_parent K t) ts) of [] \<Rightarrow> None | r # rs \<Rightarrow> Some (oldest_root bs r rs))"
    unfolding tr bs by simp
  have get: "gget bs i = map_option (\<lambda>x. (linked K ts i x)\<lparr>nd_children := sort_key (node_time ?n1) (nd_children (linked K ts i x))\<rparr>) (gget ?n0 i)" for i
    unfolding bs sort_children_get by (simp add: lp(1) option.map_comp comp_def)
  have time: "node_time bs = node_time ?n1"
    by (rule ext) (simp add: node_time_def bs sort_children_get split: option.splits)
  have node: "gget ?n0 (tuple_id t) = Some (fresh_node t)" if "t \<in> set ts" for t
    using assms(1) that by (rule create_nodes_get)
  show "gget bs (tuple_id t) = Some ((linked K ts (tuple_id t) (fresh_node t))
        \<lparr>nd_children := sort_key (node_time bs) (nd_children (linked K ts (tuple_id t) (fresh_node t)))\<rparr>)" if "t \<in> set ts" for t
    using get[of "tuple_id t"] node[OF that] by (simp add: time)
  then show "node_time bs (tuple_id t) = tuple_time t" if "t \<in> set ts" for t
    using that by (simp add: node_time_def linked_def fresh_node_def)
  have "i \<in> keyset bs \<longleftrightarrow> i \<in> keyset ?n0" for i unfolding keyset_get get by simp
  then show "keyset bs = K" unfolding K by blast
qed

lemma tree_root:
  assumes "distinct (map tuple_id ts)"
  shows "case tr_root (build_tree ts) of
          None \<Rightarrow> \<forall>t \<in> set ts. has_parent (set (map tuple_id ts)) t
        | Some r \<Rightarrow> \<exists>t \<in> set ts. tuple_id t = r \<and> \<not> has_parent (set (map tuple_id ts)) t
            \<and> (\<forall>u \<in> set ts. \<not> has_parent (set (map tuple_id ts)) u \<longrightarrow> tuple_time t \<le> tuple_time u)"
proof (cases "map tuple_id (filter (\<lambda>t. \<not> has_parent (set (map tuple_id ts)) t) ts)")
  case Nil
  with tree_parts(4)[OF assms] show ?thesis by (simp add: filter_empty_conv)
next
  case (Cons r rs)
  let ?K = "set (map tuple_id ts)" and ?bs = "tr_branches (build_tree ts)"
  note old = oldest_root_props[of ?bs r rs]
  have set: "set (r # rs) = tuple_id ` {t \<in> set ts. \<not> has_parent ?K t}" unfolding Cons[symmetric] by simp
  with old obtain t where t: "t \<in> set ts" "\<not> has_parent ?K t" "tuple_id t = oldest_root ?bs r rs" by force
  have "tuple_time t \<le> tuple_time u" if u: "u \<in> set ts" "\<not> has_parent ?K u" for u
  proof -
    have "tuple_id u \<in> set (r # rs)" unfolding set using u by blast
    with old t(3) have "node_time ?bs (tuple_id t) \<le> node_time ?bs (tuple_id u)" by metis
    then show ?thesis using tree_parts(3)[OF assms] t(1) u(1) by simp
  qed
  with t Cons tree_parts(4)[OF assms] show ?thesis by auto
qed

lemma tree_node:
  assumes "distinct (map tuple_id ts)" "t \<in> set ts"
  shows "\<exists>x. gget (tr_branches (build_tree ts)) (tuple_id t) = Some x \<and> nd_checkpoint x = t
          \<and> mset (nd_children x) = mset (map tuple_id (filter (\<lambda>u. tuple_parent u \<noteq> [] \<and> tuple_parent u = tuple_id t) ts))
          \<and> sorted (map (node_time (tr_branches (build_tree ts))) (nd_children x))
          \<and> nd_parent x = (if has_parent (set (map tuple_id ts)) t then Some (tuple_parent t) else None)"
proof -
  let ?K = "set (map tuple_id ts)"
  have "filter (\<lambda>u. tuple_id u = tuple_id t) ts = [t]" using assms by (rule distinct_key_filter)
  then have self: "filter (\<lambda>u. has_parent ?K u \<and> tuple_id u = tuple_id t) ts = (if has_parent ?K t then [t] else [])"
    by (simp flip: filter_filter add: conj_commute)
  have "filter (\<lambda>u. has_parent ?K u \<and> tuple_parent u = tuple_id t) ts
      = filter (\<lambda>u. tuple_parent u \<noteq> [] \<and> tuple_parent u = tuple_id t) ts"
    using assms(2) by (intro filter_cong) (auto simp: has_parent_def)
  then have kids: "mset (map tuple_id (filter (\<lambda>u. has_parent ?K u \<and> tuple_parent u = tuple_id t) ts))
      = mset (map tuple_id (filter (\<lambda>u. tuple_parent u \<noteq> [] \<and> tuple_parent u = tuple_id t) ts))" by simp
  show ?thesis
    using self kids by (simp add: tree_parts(2)[OF assms] linked_def fresh_node_def split: list.splits)
qed

text \<open>
  C25. The tree of a listing whose checkpoints have different IDs: every checkpoint is a node, its
  children are exactly the checkpoints that name it as their parent, oldest first, its parent link is
  set exactly when its parent is listed, and the root is an oldest checkpoint without a listed
  parent, missing only when every checkpoint has one.
\<close>

theorem tree_structure:
  assumes "distinct (map tuple_id ts)"
  shows "keyset (tr_branches (build_tree ts)) = set (map tuple_id ts)
     \<and> (\<forall>t \<in> set ts. \<exists>x. gget (tr_branches (build_tree ts)) (tuple_id t) = Some x \<and> nd_checkpoint x = t
          \<and> mset (nd_children x) = mset (map tuple_id (filter (\<lambda>u. tuple_parent u \<noteq> [] \<and> tuple_parent u = tuple_id t) ts))
          \<and> sorted (map (node_time (tr_branches (build_tree ts))) (nd_children x))
          \<and> nd_parent x = (if has_parent (set (map tuple_id ts)) t then Some (tuple_parent t) else None))
     \<and> (case tr_root (build_tree ts) of
          None \<Rightarrow> \<forall>t \<in> set ts. has_parent (set (map tuple_id ts)) t
        | Some r \<Rightarrow> \<exists>t \<in> set ts. tuple_id t = r \<and> \<not> has_parent (set (map tuple_id ts)) t
            \<and> (\<forall>u \<in> set ts. \<not> has_parent (set (map tuple_id ts)) u \<longrightarrow> tuple_time t \<le> tuple_time u))"
  using tree_parts(1)[OF assms] tree_node[OF assms] tree_root[OF assms] by blast


definition sample_tuple :: "string \<Rightarrow> string \<Rightarrow> int \<Rightarrow> checkpoint_tuple" where
  "sample_tuple c parent time =
     \<lparr>tp_config = [], tp_checkpoint = sample_checkpoint c time parent, tp_metadata = None,
      tp_parent_config = None, tp_pending_writes = []\<rparr>"

theorem tree_structure_witness:
  "keyset (tr_branches (build_tree [sample_tuple ''b'' ''a'' 2, sample_tuple ''a'' [] 1])) = {''b'', ''a''}"
  using tree_structure[of "[sample_tuple ''b'' ''a'' 2, sample_tuple ''a'' [] 1]"]
  by (simp add: sample_tuple_def sample_checkpoint_def NewCheckpoint_def)

section \<open>The manager on the in-memory saver\<close>

text \<open>
  C23. A state saved with \<open>CreateCheckpoint\<close>, with a time stamp later than everything in a named
  namespace, is what \<open>ResumeFromLatest\<close> gives back there: the JSON image of the deep copy of the
  state without its engine-internal entries, together with the resume command.
\<close>

theorem create_then_resume:
  assumes "saver_wf s" "GetLineageID config = l" "l \<noteq> []" "GetNamespace config = n" "n \<noteq> []" "uuid \<noteq> []"
    "inmemory_room s l n now" "\<And>d u. inmemory_stored s l n d = Some u \<Longrightarrow> tuple_time u < now"
    "gget st StateKeyCommand = None"
  shows "\<exists>s'. CreateCheckpoint (Some inmemory_ops) uuid now config st source step s
        = Return (s', Inl (checkpoint_of_state uuid now st)) \<and> saver_wf s'
     \<and> ResumeFromLatest (Some inmemory_ops) l n None s'
        = Return (Inl (gcopy_into [] (elems (deepCopyMap (Some (state_deepCopy False [] st)))), None))"
proof -
  obtain s' t where c: "CreateCheckpoint (Some inmemory_ops) uuid now config st source step s
        = Return (s', Inl (checkpoint_of_state uuid now st))" "saver_wf s'"
    "Latest (Some inmemory_ops) l n s' = Return (Inl (Some t))" "tp_checkpoint t = Copy (checkpoint_of_state uuid now st)"
    using inmemory.create_then_latest[OF assms(1-7), where st = st and source = source and step = step] assms(8) by blast
  have "ck_channel_values (tp_checkpoint t) = deepCopyMap (Some (state_deepCopy False [] st))"
    by (simp add: c(4) Copy_def checkpoint_of_state_def NewCheckpoint_def)
  with c show ?thesis by (simp add: ResumeFromLatest_def Let_def)
qed

text \<open>
  Branching from a stored checkpoint into another namespace: the branch is stored under the
  fresh ID with the source as its parent, the source's step and exactly its channel values, the
  caller finds it there, and the source is still found where it was.
\<close>

theorem branch_keeps_source:
  assumes "saver_wf s" "l \<noteq> []" "c \<noteq> []" "inmemory_stored s l n c = Some t" "uuid \<noteq> []"
    "inmemory_room s l n' now2" "n' \<noteq> n"
  shows "\<exists>s' b r r'. BranchFrom (Some inmemory_ops) uuid now1 now2 l n c n' s = Return (s', Inl b) \<and> saver_wf s'
     \<and> ck_parent (tp_checkpoint b) = c \<and> ck_id (tp_checkpoint b) = uuid
     \<and> ck_channel_values (tp_checkpoint b) = ck_channel_values (tp_checkpoint t)
     \<and> tp_metadata b = Some (fork_metadata t)
     \<and> Goto (Some inmemory_ops) l n' uuid s' = Return (Inl (Some r)) \<and> tp_checkpoint r = tp_checkpoint b
     \<and> Goto (Some inmemory_ops) l n c s' = Return (Inl (Some r')) \<and> tp_checkpoint r' = tp_checkpoint t"
proof -
  let ?new = "(Fork uuid now1 (tp_checkpoint t))\<lparr>ck_timestamp := now2\<rparr>"
  have id: "ck_id (tp_checkpoint t) = c" "Copy (tp_checkpoint t) = tp_checkpoint t"
    using cell_ok_get[OF saver_wf_cell[OF assms(1)] assms(4)[unfolded inmemory_stored_def]] by blast+
  have val: "deepCopyMap (ck_channel_values (tp_checkpoint t)) = ck_channel_values (tp_checkpoint t)"
      "map copy_send (ck_pending_sends (tp_checkpoint t)) = ck_pending_sends (tp_checkpoint t)"
    using arg_cong[OF id(2), of ck_channel_values] arg_cong[OF id(2), of ck_pending_sends] by (simp_all add: Copy_def)
  have new: "Copy ?new = ?new" "ck_id ?new = uuid" "ck_parent ?new = c"
      "ck_channel_values ?new = ck_channel_values (tp_checkpoint t)"
    using id val by (simp_all add: Fork_def) (simp add: Copy_def)
  obtain s' cfg where b: "BranchFrom (Some inmemory_ops) uuid now1 now2 l n c n' s
      = Return (s', Inl (branch_tuple cfg ?new (fork_metadata t)))" "saver_wf s'"
    "stores inmemory_stored s l n' ?new (Some (fork_metadata t)) cfg s'"
    using inmemory.branch_from[OF assms(1-6)] by blast
  from b(3) new obtain t1 where t1: "inmemory_stored s' l n' uuid = Some t1" "tp_checkpoint t1 = ?new"
    by (auto simp: stores_def)
  have src: "inmemory_stored s' l n c = Some t" using b(3) assms(4,7) by (auto simp: stores_def)
  from inmemory.goto_stored[OF b(2) assms(2,5), of n'] t1 obtain r where
    r: "Goto (Some inmemory_ops) l n' uuid s' = Return (Inl (Some r))" "tp_checkpoint r = ?new"
    by (auto simp: durable_def)
  from inmemory.goto_stored[OF b(2) assms(2,3), of n] src obtain r' where
    r': "Goto (Some inmemory_ops) l n c s' = Return (Inl (Some r'))" "tp_checkpoint r' = tp_checkpoint t"
    by (auto simp: durable_def)
  from b r r' new show ?thesis by (auto simp: branch_tuple_def)
qed


theorem create_then_resume_witness:
  "\<exists>s'. CreateCheckpoint (Some inmemory_ops) ''u'' 5 (pr_config (sample_put ''l'' ''n'' [] 0)) [(''x'', VStr ''v'')] CheckpointSourceLoop 1 NewSaver
        = Return (s', Inl (checkpoint_of_state ''u'' 5 [(''x'', VStr ''v'')]))
     \<and> ResumeFromLatest (Some inmemory_ops) ''l'' ''n'' None s'
        = Return (Inl (gcopy_into [] (elems (deepCopyMap (Some (state_deepCopy False [] [(''x'', VStr ''v'')])))), None))"
proof -
  have cfg: "GetLineageID (pr_config (sample_put ''l'' ''n'' [] 0)) = ''l''" "GetNamespace (pr_config (sample_put ''l'' ''n'' [] 0)) = ''n''"
    by (simp_all add: sample_put_def GetLineageID_def GetNamespace_def configurable_string_def elems_def cfg_keys)
  have room: "inmemory_room NewSaver ''l'' ''n'' 5"
    by (simp add: inmemory_room_def NewSaver_def sub_def DefaultMaxCheckpointsPerLineage_def)
  have empty: "inmemory_stored NewSaver ''l'' ''n'' d = None" for d
    by (simp add: inmemory_stored_def NewSaver_def sub_def)
  have key: "gget [(''x'', VStr ''v'')] StateKeyCommand = None" by (simp add: StateKeyCommand_def)
  show ?thesis
    using create_then_resume[OF saver_wf_New cfg(1) _ cfg(2) _ _ room _ key, of "''u''" CheckpointSourceLoop 1] empty
    by auto
qed

definition sample_saver :: saver where
  "sample_saver = NewSaver\<lparr>sv_storage := [(''l'', [(''n'', [(''a'',
     (sample_tuple ''a'' [] 7)\<lparr>tp_checkpoint := Copy (sample_checkpoint ''a'' 7 [])\<rparr>)])])]\<rparr>"

lemma sample_saver_wf: "saver_wf sample_saver"
  by (simp add: saver_wf_def sample_saver_def sub_def cell_ok_def NewSaver_def DefaultMaxCheckpointsPerLineage_def
      Copy_idem well_keyed_def sample_checkpoint_def NewCheckpoint_def)

theorem branch_keeps_source_witness:
  "\<exists>s' b r'. BranchFrom (Some inmemory_ops) ''u'' 8 9 ''l'' ''n'' ''a'' ''m'' sample_saver = Return (s', Inl b)
     \<and> ck_parent (tp_checkpoint b) = ''a'' \<and> Goto (Some inmemory_ops) ''l'' ''n'' ''a'' s' = Return (Inl (Some r'))"
proof -
  have st: "inmemory_stored sample_saver ''l'' ''n'' ''a''
      = Some ((sample_tuple ''a'' [] 7)\<lparr>tp_checkpoint := Copy (sample_checkpoint ''a'' 7 [])\<rparr>)"
    by (simp add: inmemory_stored_def sample_saver_def sub_def)
  have room: "inmemory_room sample_saver ''l'' ''m'' 9"
    by (simp add: inmemory_room_def sample_saver_def NewSaver_def sub_def DefaultMaxCheckpointsPerLineage_def)
  from branch_keeps_source[OF sample_saver_wf _ _ st _ room, of "''u''" 8] show ?thesis by simp blast
qed

end
