(* ===== verification/Engine_Checkpoint.thy ===== *)
theory Engine_Checkpoint
  imports Interrupts Checkpoint_Manager
begin

text \<open>
  The checkpoints of a run (\<open>graph/executor.go\<close>): what is put into one, how it is saved after a step
  and on an interrupt, and \<open>Fork\<close>.  The saver is a record of functions, as for the manager.  A fresh
  identifier and the time are arguments; events are left out.
\<close>

section \<open>The JSON-safe copy of a value\<close>

text \<open>
  \<open>jsonSafeCopy\<close> (\<open>graph/utils.go\<close>): functions are dropped from maps and become nil elsewhere, typed
  slices and maps become \<open>[]any\<close> and \<open>map[string]any\<close>, structs stay.
\<close>

fun is_func :: "gval \<Rightarrow> bool" where
  "is_func (VFunc _) = True"
| "is_func _ = False"

definition any_messages :: "message list option \<Rightarrow> gval" where
  "any_messages ms = (case ms of None \<Rightarrow> VNil | Some xs \<Rightarrow> VAnys (Some (map VMsg xs)))"

fun jsonSafeCopy :: "gval \<Rightarrow> gval" where
  "jsonSafeCopy (VMap None) = VMap (Some [])"
| "jsonSafeCopy (VMap (Some m)) =
     VMap (Some (map (\<lambda>(k, v). (k, jsonSafeCopy v)) (filter (\<lambda>(k, v). \<not> is_func v) m)))"
| "jsonSafeCopy (VAnys None) = VNil"
| "jsonSafeCopy (VAnys (Some xs)) = VAnys (Some (map jsonSafeCopy xs))"
| "jsonSafeCopy (VStrs None) = VStrs (Some [])"
| "jsonSafeCopy (VBoolMap None) = VNil"
| "jsonSafeCopy (VBoolMap (Some m)) = VMap (Some (map (\<lambda>(k, b). (k, VBool b)) m))"
| "jsonSafeCopy (VMsgs ms) = any_messages ms"
| "jsonSafeCopy (VMsgMap None) = VNil"
| "jsonSafeCopy (VMsgMap (Some m)) = VMap (Some (map (\<lambda>(k, ms). (k, any_messages ms)) m))"
| "jsonSafeCopy (VOps None) = VNil"
| "jsonSafeCopy (VOps (Some xs)) = VAnys (Some (map VOp xs))"
| "jsonSafeCopy (VFunc _) = VNil"
| "jsonSafeCopy v = v"

definition safeClone :: "state \<Rightarrow> state" where
  "safeClone st = map (\<lambda>(k, v). (k, jsonSafeCopy v)) (filter (\<lambda>(k, v). \<not> isUnsafeStateKey k) st)"

section \<open>The frontier\<close>

definition collectChannelVersions :: "exec_context \<Rightarrow> versions" where
  "collectChannelVersions ec = map (\<lambda>(name, c). (name, ch_version c)) (GetAllChannels (ec_channels ec))"

definition getNextNodes :: "graph \<Rightarrow> exec_context \<Rightarrow> string list" where
  "getNextNodes g ec =
     dedup_seen [] (concat (map (\<lambda>(name, ns).
        (case gget (GetAllChannels (ec_channels ec)) name of
           None \<Rightarrow> [] | Some c \<Rightarrow> if IsAvailable c then ns else [])) (getTriggerToNodes g)))"

definition getNextChannels :: "exec_context \<Rightarrow> string list" where
  "getNextChannels ec = map fst (filter (\<lambda>(name, c). IsAvailable c) (GetAllChannels (ec_channels ec)))"

definition getNextChannelsInStep :: "exec_context \<Rightarrow> int \<Rightarrow> string list" where
  "getNextChannelsInStep ec step =
     map fst (filter (\<lambda>(name, c). IsUpdatedInStep step c) (GetAllChannels (ec_channels ec)))"

definition clearChannelStepMarks :: "exec_context \<Rightarrow> exec_context" where
  "clearChannelStepMarks ec = ec\<lparr>ec_channels := map (\<lambda>(name, c). (name, ClearStepMark c)) (ec_channels ec)\<rparr>"

definition barrier_sets :: "channels \<Rightarrow> (string, string list) gomap" where
  "barrier_sets chs =
     map (\<lambda>(name, c). (name, BarrierSeenSnapshot c))
       (filter (\<lambda>(name, c). ch_behavior c = BehaviorBarrier \<and> BarrierSeenSnapshot c \<noteq> []) chs)"

definition createCheckpointFromState :: "string \<Rightarrow> int \<Rightarrow> int \<Rightarrow> exec_context \<Rightarrow> checkpoint" where
  "createCheckpointFromState uuid now step ec =
     (NewCheckpoint uuid now (Some (safeClone (ec_state ec))) (collectChannelVersions ec) (ec_versions_seen ec))
       \<lparr>ck_barrier_sets := barrier_sets (GetAllChannels (ec_channels ec)),
        ck_updated_channels := (if 0 \<le> step then getNextChannelsInStep ec step else getNextChannels ec)\<rparr>"

section \<open>Saving after a step\<close>

definition with_parent :: "config \<Rightarrow> checkpoint \<Rightarrow> checkpoint" where
  "with_parent config c = (if GetCheckpointID config \<noteq> [] then c\<lparr>ck_parent := GetCheckpointID config\<rparr> else c)"

text \<open>The checkpoint \<open>createCheckpointAndSave\<close> stores, with the next nodes of its step.\<close>

definition step_checkpoint :: "graph \<Rightarrow> string \<Rightarrow> int \<Rightarrow> config \<Rightarrow> string \<Rightarrow> int \<Rightarrow> exec_context \<Rightarrow> checkpoint" where
  "step_checkpoint g uuid now config source step ec =
     (with_parent config (createCheckpointFromState uuid now step ec))
       \<lparr>ck_channel_versions := collectChannelVersions ec,
        ck_next_nodes := (if source = CheckpointSourceInput \<and> step = -1
                          then (if EntryPoint g \<noteq> [] then [EntryPoint g] else []) else getNextNodes g ec),
        ck_next_channels := getNextChannels ec\<rparr>"

text \<open>
  The result is the context, the configuration to go on with, the saver and the error.  The pending
  writes are gone from the context even when the saver fails.
\<close>

definition createCheckpointAndSave ::
    "('s, 'e) saver_ops option \<Rightarrow> graph \<Rightarrow> string \<Rightarrow> int \<Rightarrow> config \<Rightarrow> string \<Rightarrow> int \<Rightarrow> exec_context \<Rightarrow> 's
     \<Rightarrow> (exec_context \<times> config \<times> 's \<times> 'e option) run" where
  "createCheckpointAndSave saver g uuid now config source step ec s =
     (case saver of
        None \<Rightarrow> Return (ec, config, s, None)
      | Some ops \<Rightarrow>
          (let req = \<lparr>pf_config = config,
                      pf_checkpoint = Some (step_checkpoint g uuid now config source step ec),
                      pf_metadata = Some (NewCheckpointMetadata source step),
                      pf_new_versions = map (\<lambda>(name, c). (name, ch_version c))
                        (filter (\<lambda>(name, c). IsAvailable c) (GetAllChannels (ec_channels ec))),
                      pf_pending_writes = ec_pending_writes ec\<rparr>;
               ec = ec\<lparr>ec_pending_writes := []\<rparr>
           in run_bind (so_PutFull ops req s) (\<lambda>(s, r). Return
                (case r of
                   Inr e \<Rightarrow> (ec, config, s, Some e)
                 | Inl updated \<Rightarrow> (clearChannelStepMarks ec, updated, s, None)))))"

section \<open>Interrupts\<close>

definition rerun_nodes :: "interrupt_error \<Rightarrow> string list \<Rightarrow> string list" where
  "rerun_nodes ie frontier =
     (let nexts = (if ie_next_nodes ie \<noteq> [] then ie_next_nodes ie else frontier)
      in if \<not> ie_skip_rerun ie \<and> ie_node_id ie \<notin> set nexts \<and> ie_node_id ie \<noteq> []
         then ie_node_id ie # nexts else nexts)"

definition interrupt_checkpoint ::
    "graph \<Rightarrow> string \<Rightarrow> int \<Rightarrow> config \<Rightarrow> interrupt_error \<Rightarrow> int \<Rightarrow> exec_context \<Rightarrow> checkpoint" where
  "interrupt_checkpoint g uuid now config ie step ec =
     (SetInterruptState (ie_node_id ie) (ie_task_id ie) (ie_value ie) step (ie_path ie)
       (with_parent config (createCheckpointFromState uuid now step ec)))
       \<lparr>ck_next_nodes := rerun_nodes ie (getNextNodes g ec), ck_next_channels := getNextChannels ec\<rparr>"

definition interrupt_metadata :: "int \<Rightarrow> state \<Rightarrow> checkpoint_metadata" where
  "interrupt_metadata step metaExtra =
     (NewCheckpointMetadata CheckpointSourceInterrupt step)\<lparr>md_extra := Some (gcopy_into [] metaExtra)\<rparr>"

text \<open>The ID the saver gave is written into the caller's configuration.\<close>

definition take_checkpoint_id :: "config \<Rightarrow> config \<Rightarrow> config" where
  "take_checkpoint_id updated config =
     (case (gget config CfgKeyConfigurable, gget updated CfgKeyConfigurable) of
        (Some (VMap (Some m)), Some (VMap u)) \<Rightarrow>
          gput CfgKeyConfigurable (VMap (Some (gput CfgKeyCheckpointID
            (case gget (elems u) CfgKeyCheckpointID of None \<Rightarrow> VNil | Some v \<Rightarrow> v) m))) config
      | _ \<Rightarrow> config)"

text \<open>
  \<open>handleInterrupt\<close>, which always ends the run with the interrupt as its error; a nil configuration
  or saver stores nothing, and an error of the saver is only logged.
\<close>

definition handleInterrupt ::
    "('s, 'e) saver_ops option \<Rightarrow> graph \<Rightarrow> string \<Rightarrow> int \<Rightarrow> interrupt_error \<Rightarrow> int \<Rightarrow> config option \<Rightarrow> state
     \<Rightarrow> exec_context \<Rightarrow> 's \<Rightarrow> (config option \<times> 's) run" where
  "handleInterrupt saver g uuid now ie step config metaExtra ec s =
     (case (saver, config) of
        (Some ops, Some cfg) \<Rightarrow>
          (let c = interrupt_checkpoint g uuid now cfg ie step ec;
               req = \<lparr>pf_config = cfg, pf_checkpoint = Some c,
                      pf_metadata = Some (interrupt_metadata step metaExtra),
                      pf_new_versions = ck_channel_versions c, pf_pending_writes = []\<rparr>
           in run_bind (so_PutFull ops req s) (\<lambda>(s, r). Return
                (case r of Inr _ \<Rightarrow> (config, s) | Inl updated \<Rightarrow> (Some (take_checkpoint_id updated cfg), s))))
      | _ \<Rightarrow> Return (config, s))"

section \<open>Forking\<close>

datatype 'e fork_error = ForkNoSaver | ForkGet 'e | ForkNotFound | ForkSave 'e

text \<open>\<open>Executor.Fork\<close>; a stored tuple without metadata panics.\<close>

definition executor_Fork ::
    "('s, 'e) saver_ops option \<Rightarrow> string \<Rightarrow> int \<Rightarrow> config \<Rightarrow> 's \<Rightarrow> ('s \<times> (config + 'e fork_error)) run" where
  "executor_Fork saver uuid now config s =
     (case saver of
        None \<Rightarrow> Return (s, Inr ForkNoSaver)
      | Some ops \<Rightarrow>
          run_bind (so_GetTuple ops config s) (\<lambda>r.
            case r of
              Inr e \<Rightarrow> Return (s, Inr (ForkGet e))
            | Inl (None, _) \<Rightarrow> Return (s, Inr ForkNotFound)
            | Inl (Some t, config) \<Rightarrow>
                (case tp_metadata t of
                   None \<Rightarrow> Panic
                 | Some md \<Rightarrow>
                     run_bind (CreateCheckpointConfig (GetLineageID config) [] (GetNamespace config)) (\<lambda>newConfig.
                       (let c = Fork uuid now (tp_checkpoint t);
                            req = \<lparr>pf_config = newConfig, pf_checkpoint = Some c,
                                   pf_metadata = Some ((NewCheckpointMetadata CheckpointSourceFork (md_step md))
                                     \<lparr>md_parents := [(GetNamespace config, ck_id (tp_checkpoint t))]\<rparr>),
                                   pf_new_versions = ck_channel_versions c,
                                   pf_pending_writes = tp_pending_writes t\<rparr>
                        in run_bind (so_PutFull ops req s) (\<lambda>(s, r). Return
                             (s, case r of Inl cfg \<Rightarrow> Inl cfg | Inr e \<Rightarrow> Inr (ForkSave e))))))))"

end
