(* ===== verification/Typed_Restore.thy ===== *)
theory Typed_Restore
  imports Engine_Checkpoint
begin

text \<open>
  Giving restored values back their types (\<open>restoreCheckpointValueWithSchema\<close> and
  \<open>restoreStateFromCheckpoint\<close> of \<open>graph/executor.go\<close>): a value that came out of a checkpoint is encoded
  to JSON and decoded into the default value of its field, or into the zero value of the field's type.
  \<open>json.Unmarshal\<close> decodes into what is there: strings and numbers keep their value on \<open>null\<close>, maps gain
  entries, the elements of a slice start from the old ones.
\<close>

section \<open>Decoding into a typed value\<close>

fun dec_onto :: "(gojson \<Rightarrow> 'a \<Rightarrow> 'a dec) \<Rightarrow> 'a \<Rightarrow> gojson list \<Rightarrow> 'a list \<Rightarrow> 'a list dec" where
  "dec_onto d zero [] old = DOk []"
| "dec_onto d zero (v # vs) old =
     dec_bind (d v (case old of [] \<Rightarrow> zero | x # _ \<Rightarrow> x)) (\<lambda>x. dec_map ((#) x) (dec_onto d zero vs (tl old)))"

fun dec_slice :: "(gojson \<Rightarrow> 'a \<Rightarrow> 'a dec) \<Rightarrow> 'a \<Rightarrow> gojson \<Rightarrow> 'a list option \<Rightarrow> 'a list option dec" where
  "dec_slice d zero JNull old = DOk None"
| "dec_slice d zero (JArr vs) old = dec_map Some (dec_onto d zero vs (elems old))"
| "dec_slice d zero _ old = DErr"

fun dec_entries :: "(gojson \<Rightarrow> 'a \<Rightarrow> 'a dec) \<Rightarrow> 'a \<Rightarrow> (string \<times> gojson) list \<Rightarrow> (string \<times> 'a) list dec" where
  "dec_entries d zero [] = DOk []"
| "dec_entries d zero ((k, v) # m) = dec_bind (d v zero) (\<lambda>x. dec_map ((#) (k, x)) (dec_entries d zero m))"

fun dec_gomap :: "(gojson \<Rightarrow> 'a \<Rightarrow> 'a dec) \<Rightarrow> 'a \<Rightarrow> gojson \<Rightarrow> (string, 'a) gomap option \<Rightarrow> (string, 'a) gomap option dec" where
  "dec_gomap d zero JNull old = DOk None"
| "dec_gomap d zero (JObj m) old =
     dec_map (\<lambda>es. Some (sort_key fst (gcopy_into (elems old) es))) (dec_entries d zero m)"
| "dec_gomap d zero _ old = DErr"

definition in_int64 :: "int \<Rightarrow> bool" where
  "in_int64 n \<longleftrightarrow> - (2 ^ 63) \<le> n \<and> n < 2 ^ 63"

definition items_step :: "string \<Rightarrow> gojson \<Rightarrow> message list option \<Rightarrow> message list option dec" where
  "items_step k v x = (if names k ''items'' then dec_slice (dec_object message_step) zero_message v x else DOk x)"

definition content_step :: "string \<Rightarrow> gojson \<Rightarrow> string \<Rightarrow> string dec" where
  "content_step k v x = (if names k ''content'' then dec_string v x else DOk x)"

fun dec_op :: "gojson \<Rightarrow> message_op \<Rightarrow> message_op dec" where
  "dec_op j (AppendMessages ms) = dec_map AppendMessages (dec_object items_step j ms)"
| "dec_op j (ReplaceLastUser c) = dec_map ReplaceLastUser (dec_object content_step j c)"
| "dec_op j RemoveAllMessages = dec_map (\<lambda>_. RemoveAllMessages) (dec_object (\<lambda>k v x. DOk x) j ())"

text \<open>\<open>json.Unmarshal\<close> into a pointer to a typed value.  No element of a list of operations has a type to decode into.\<close>

fun unmarshal_into :: "gval \<Rightarrow> gojson \<Rightarrow> gval dec" where
  "unmarshal_into VNil j = DOk (unmarshal_any j)"
| "unmarshal_into (VBool b) j = dec_map VBool (dec_bool j b)"
| "unmarshal_into (VInt n) j =
     (case j of JNull \<Rightarrow> DOk (VInt n) | JNum k \<Rightarrow> if in_int64 k then DOk (VInt k) else DErr | _ \<Rightarrow> DErr)"
| "unmarshal_into (VNum n) j = dec_map VNum (dec_int j n)"
| "unmarshal_into (VStr s) j = dec_map VStr (dec_string j s)"
| "unmarshal_into (VStrs xs) j = dec_map VStrs (dec_slice dec_string [] j xs)"
| "unmarshal_into (VAnys xs) j = dec_map VAnys (dec_slice (\<lambda>v _. DOk (unmarshal_any v)) VNil j xs)"
| "unmarshal_into (VMap m) j = dec_map VMap (dec_gomap (\<lambda>v _. DOk (unmarshal_any v)) VNil j m)"
| "unmarshal_into (VBoolMap m) j = dec_map VBoolMap (dec_gomap dec_bool False j m)"
| "unmarshal_into (VMsg m) j = dec_map VMsg (dec_object message_step j m)"
| "unmarshal_into (VMsgs ms) j = dec_map VMsgs (dec_slice (dec_object message_step) zero_message j ms)"
| "unmarshal_into (VMsgMap m) j =
     dec_map VMsgMap (dec_gomap (dec_slice (dec_object message_step) zero_message) None j m)"
| "unmarshal_into (VOp x) j = dec_map VOp (dec_op j x)"
| "unmarshal_into (VOps xs) j = dec_map VOps (dec_slice (\<lambda>v x. DErr) RemoveAllMessages j xs)"
| "unmarshal_into (VFunc f) j = (if j = JNull then DOk (VFunc f) else DErr)"

text \<open>Into a new value of a type; the two interface types have no value to start from.\<close>

definition unmarshal_type :: "gotype \<Rightarrow> gojson \<Rightarrow> gval dec" where
  "unmarshal_type T j =
     (if T = TMessageOp then (if j = JNull then DOk VNil else DErr) else unmarshal_into (zero_value T) j)"

section \<open>Restoring\<close>

definition restoreCheckpointValueWithSchema :: "gval \<Rightarrow> state_field \<Rightarrow> gval run" where
  "restoreCheckpointValueWithSchema v f =
     (if type_of v = f_type f then Return v
      else case marshal v of
          None \<Rightarrow> Return v
        | Some j \<Rightarrow>
            (case (case f_default f of None \<Rightarrow> DErr | Some d \<Rightarrow> if d = VNil then DErr else unmarshal_into d j) of
               DPanic \<Rightarrow> Panic
             | DOk x \<Rightarrow> Return x
             | DErr \<Rightarrow>
                 (case f_type f of
                    None \<Rightarrow> Return v
                  | Some T \<Rightarrow>
                      (case unmarshal_type T j of DPanic \<Rightarrow> Panic | DOk x \<Rightarrow> Return x | DErr \<Rightarrow> Return v))))"

text \<open>One entry of the restored state: the converted value replaces the old one when its type differs.\<close>

definition restore_entry :: "schema \<Rightarrow> string \<Rightarrow> gval \<Rightarrow> gval run" where
  "restore_entry flds k v =
     (case gget flds k of
        None \<Rightarrow> Return v
      | Some f \<Rightarrow> run_bind (restoreCheckpointValueWithSchema v f)
                   (\<lambda>x. Return (if type_of x \<noteq> type_of v then x else v)))"

fun restore_entries :: "schema \<Rightarrow> state \<Rightarrow> state run" where
  "restore_entries flds [] = Return []"
| "restore_entries flds ((k, v) # st) =
     run_bind (restore_entry flds k v) (\<lambda>x. run_bind (restore_entries flds st) (\<lambda>st. Return ((k, x) # st)))"

definition StateKeyOneShotMessages :: string where "StateKeyOneShotMessages = ''one_shot_messages''"

text \<open>An empty decoded list of one-shot messages is stored as a nil slice.\<close>

definition restore_one_shot :: "state \<Rightarrow> state run" where
  "restore_one_shot st =
     (case gget st StateKeyOneShotMessages of
        None \<Rightarrow> Return st
      | Some raw \<Rightarrow>
          (case decodeMessages raw of
             DPanic \<Rightarrow> Panic
           | DErr \<Rightarrow> Return st
           | DOk ms \<Rightarrow> Return (gput StateKeyOneShotMessages (VMsgs (if ms = [] then None else Some ms)) st)))"

definition restoreStateFromCheckpoint :: "graph \<Rightarrow> checkpoint_tuple \<Rightarrow> state run" where
  "restoreStateFromCheckpoint g t =
     run_bind (restore_one_shot (gcopy_into [] (elems (ck_channel_values (tp_checkpoint t))))) (\<lambda>st.
     run_bind (restore_entries (g_schema g) st) (\<lambda>st.
       Return (fold add_default (g_schema g) st)))"

end
