(* ===== verification/Engine.thy ===== *)
theory Engine
  imports Typed_Restore
begin

text \<open>
  A whole run of the graph (\<open>graph/executor.go\<close>): preparing a fresh or a resumed state, the loop of
  supersteps with their interrupts and checkpoints, and \<open>executeGraph\<close>.  What the engine does not
  decide itself is an environment: identifiers and times of checkpoints by source and step, what
  every step's tasks meet, and when an external interrupt was requested or forced.  A panic outside the
  workers ends the run, so it is the panic of the function.
\<close>

section \<open>The executor and its environment\<close>

record ('s, 'e) executor =
  ex_saver :: "('s, 'e) saver_ops option"
  ex_max_steps :: int

record run_env =
  re_invocation_id :: string
  re_generated_lineage :: string
  re_override_keys :: "string list"
  re_entry_predecessors :: "string list"
  re_uuid :: "string \<Rightarrow> int \<Rightarrow> string"
  re_now :: "string \<Rightarrow> int \<Rightarrow> int"
  re_steps :: "int \<Rightarrow> step_env"
  re_requested :: "int \<Rightarrow> bool option"
  re_forced :: "int \<Rightarrow> task_error \<Rightarrow> bool"

text \<open>What a run changes: the graph, the context, the configuration and the saver.\<close>

record 's engine =
  en_graph :: graph
  en_ec :: exec_context
  en_config :: "config option"
  en_saver :: 's

datatype 'e run_error =
    CheckpointNotFound
  | GetFailed 'e
  | PlanFailed int graph_error
  | StepFailed int task_error
  | Interrupted interrupt_error

section \<open>Preparing the state\<close>

text \<open>The command of the initial state, whose values are not state values.\<close>

datatype resume_input = NoCommand | ByCommand command | ByResumeCommand resume_command

definition put_resume :: "gval \<Rightarrow> state option \<Rightarrow> state \<Rightarrow> state" where
  "put_resume v m st =
     (let st = (if v \<noteq> VNil then gput ResumeChannel v st else st)
      in case m of None \<Rightarrow> st | Some rm \<Rightarrow> gput StateKeyResumeMap (VMap (Some rm)) st)"

definition processResumeCommand :: "resume_input \<Rightarrow> state \<Rightarrow> state" where
  "processResumeCommand cmd st =
     (case cmd of
        NoCommand \<Rightarrow> st
      | ByCommand c \<Rightarrow> gdel StateKeyCommand (put_resume (cmd_resume c) (cmd_resume_map c) st)
      | ByResumeCommand c \<Rightarrow> gdel StateKeyCommand (put_resume (rc_resume c) (rc_resume_map c) st))"

definition CheckpointMetaKeyGraphInterruptInputs :: string where
  "CheckpointMetaKeyGraphInterruptInputs = ''graph_interrupt_inputs''"

text \<open>Saved inputs are a map from nodes to lists of states here, whatever map type they had.\<close>

definition copyGraphInterruptInputsAny :: "state \<Rightarrow> state" where
  "copyGraphInterruptInputsAny inputs = filter (\<lambda>(n, v). n \<noteq> [] \<and> v \<noteq> VNil) inputs"

definition applyGraphInterruptInputs :: "state \<Rightarrow> checkpoint_tuple \<Rightarrow> state" where
  "applyGraphInterruptInputs restored t =
     (case tp_metadata t of
        None \<Rightarrow> restored
      | Some md \<Rightarrow>
          (case gget (elems (md_extra md)) CheckpointMetaKeyGraphInterruptInputs of
             Some (VMap m) \<Rightarrow>
               (let copied = copyGraphInterruptInputsAny (elems m)
                in if copied = [] then restored
                   else gput StateKeyGraphInterruptInputs (VMap (Some copied)) restored)
           | _ \<Rightarrow> restored))"

record prepared =
  pp_state :: state
  pp_config :: "config option"
  pp_resumed :: bool
  pp_step :: int
  pp_checkpoint :: "checkpoint option"
  pp_pending :: "pending_write list"

definition fresh_start :: "graph \<Rightarrow> state \<Rightarrow> config option \<Rightarrow> prepared" where
  "fresh_start g initial config =
     \<lparr>pp_state = initializeState g initial, pp_config = config, pp_resumed = False, pp_step = 0,
      pp_checkpoint = None, pp_pending = []\<rparr>"

definition string_entry :: "string \<Rightarrow> state \<Rightarrow> string" where
  "string_entry k st = (case gget st k of Some (VStr s) \<Rightarrow> s | _ \<Rightarrow> [])"

definition lineage_of :: "run_env \<Rightarrow> state \<Rightarrow> string" where
  "lineage_of env initial =
     (if string_entry CfgKeyLineageID initial \<noteq> [] then string_entry CfgKeyLineageID initial
      else if re_invocation_id env \<noteq> [] then re_invocation_id env else re_generated_lineage env)"

text \<open>The state a run goes on with from a stored tuple.\<close>

definition resumed_state :: "graph \<Rightarrow> state \<Rightarrow> string list \<Rightarrow> checkpoint_tuple \<Rightarrow> state run" where
  "resumed_state g initial override t =
     run_bind (restoreStateFromCheckpoint g t) (\<lambda>st. Return
       (applyGraphInterruptInputs (applyExecutableNextNodes (mergeInitialStateNonInternal st initial override) t) t))"

definition resumeOrInitWithSaver ::
    "('s, 'e) saver_ops \<Rightarrow> run_env \<Rightarrow> graph \<Rightarrow> state \<Rightarrow> 's \<Rightarrow> (prepared + 'e run_error) run" where
  "resumeOrInitWithSaver ops env g initial s =
     run_bind (CreateCheckpointConfig (lineage_of env initial) (string_entry CfgKeyCheckpointID initial)
                 (string_entry CfgKeyCheckpointNS initial)) (\<lambda>config.
     run_bind (so_GetTuple ops config s) (\<lambda>r.
       case r of
         Inr e \<Rightarrow> Return (if ghas initial CfgKeyCheckpointID then Inr (GetFailed e)
                          else Inl (fresh_start g initial (Some config)))
       | Inl (None, config) \<Rightarrow> Return (if ghas initial CfgKeyCheckpointID then Inr CheckpointNotFound
                          else Inl (fresh_start g initial (Some config)))
       | Inl (Some t, config) \<Rightarrow>
           run_bind (resumed_state g initial (re_override_keys env) t) (\<lambda>st. Return (Inl
             \<lparr>pp_state = st, pp_config = Some (if tp_config t \<noteq> [] then tp_config t else config), pp_resumed = True,
              pp_step = (case tp_metadata t of None \<Rightarrow> 0 | Some md \<Rightarrow> md_step md),
              pp_checkpoint = Some (tp_checkpoint t), pp_pending = tp_pending_writes t\<rparr>))))"

definition prepareCheckpointAndState ::
    "('s, 'e) executor \<Rightarrow> run_env \<Rightarrow> graph \<Rightarrow> state \<Rightarrow> 's \<Rightarrow> (prepared + 'e run_error) run" where
  "prepareCheckpointAndState ex env g initial s =
     (case ex_saver ex of
        None \<Rightarrow> Return (Inl (fresh_start g initial None))
      | Some ops \<Rightarrow> resumeOrInitWithSaver ops env g initial s)"

section \<open>External interrupts\<close>

definition ExternalInterruptKey :: string where "ExternalInterruptKey = ''external_interrupt''"

definition newExternalInterruptError :: "bool \<Rightarrow> interrupt_error" where
  "newExternalInterruptError forced =
     (NewInterruptError (VMap (Some [(''key'', VStr ExternalInterruptKey), (''forced'', VBool forced)])))
       \<lparr>ie_key := ExternalInterruptKey, ie_task_id := ExternalInterruptKey, ie_skip_rerun := True\<rparr>"

definition nextNodesFromTasks :: "task list \<Rightarrow> string list" where
  "nextNodesFromTasks ts = filter (\<lambda>n. n \<noteq> [] \<and> n \<noteq> End) (map tk_node_id ts)"

definition add_input :: "string \<Rightarrow> state \<Rightarrow> state \<Rightarrow> state" where
  "add_input n st m =
     gput n (VAnys (Some ((case gget m n of Some (VAnys xs) \<Rightarrow> elems xs | _ \<Rightarrow> []) @ [VMap (Some st)]))) m"

definition inputs_extra :: "state \<Rightarrow> state" where
  "inputs_extra m = (if m = [] then [] else [(CheckpointMetaKeyGraphInterruptInputs, VMap (Some m))])"

text \<open>The state a task holds, without its unsafe entries.\<close>

definition input_snapshot :: "graph \<Rightarrow> exec_context \<Rightarrow> task \<Rightarrow> state" where
  "input_snapshot g ec t =
     state_deepCopy False (g_schema g) (case tk_input t of OwnState st \<Rightarrow> st | PlannedState \<Rightarrow> planned_view ec)"

definition metaExtraForPlannedExternalInterrupt :: "graph \<Rightarrow> exec_context \<Rightarrow> task list \<Rightarrow> state" where
  "metaExtraForPlannedExternalInterrupt g ec ts =
     inputs_extra (fold (\<lambda>t. add_input (tk_node_id t) (input_snapshot g ec t)) (filter (\<lambda>t. tk_node_id t \<noteq> []) ts) [])"

text \<open>
  The report of a step: for every task whether it ended without an error, and the input it was given,
  unless building the input panicked.
\<close>

fun step_report :: "step_env \<Rightarrow> int \<Rightarrow> task list \<Rightarrow> graph \<times> exec_context \<Rightarrow> (task \<times> bool \<times> state option) list" where
  "step_report env step [] s = []"
| "step_report env step (t # ts) s =
     (case run_task env step t s of (s', e) \<Rightarrow>
        (t, e = None, case buildTaskStateCopy (fst s) (snd s) t of
            Panic \<Rightarrow> None | Return copy \<Rightarrow> Some (state_deepCopy False (g_schema (fst s)) copy))
        # step_report env step ts s')"

definition tasksToRerun :: "(task \<times> bool \<times> state option) list \<Rightarrow> (task \<times> bool \<times> state option) list" where
  "tasksToRerun report = filter (\<lambda>(t, completed, i). tk_node_id t \<noteq> [] \<and> \<not> completed) report"

definition nextNodesForForcedInterrupt :: "graph \<Rightarrow> exec_context \<Rightarrow> task list \<Rightarrow> string list" where
  "nextNodesForForcedInterrupt g ec rerun =
     nextNodesFromTasks rerun
     @ filter (\<lambda>n. n \<noteq> [] \<and> n \<noteq> End \<and> n \<notin> set (nextNodesFromTasks rerun)) (getNextNodes g ec)"

definition metaExtraForForcedInterrupt :: "graph \<Rightarrow> exec_context \<Rightarrow> (task \<times> bool \<times> state option) list \<Rightarrow> state" where
  "metaExtraForForcedInterrupt g ec rerun =
     inputs_extra (fold (\<lambda>(t, c, i). add_input (tk_node_id t)
        (case i of Some st \<Rightarrow> st | None \<Rightarrow> input_snapshot g ec t)) rerun [])"

section \<open>A superstep\<close>

datatype 'e outcome = Stop | Executed | Failure "'e run_error"

definition interrupt_run ::
    "('s, 'e) executor \<Rightarrow> run_env \<Rightarrow> interrupt_error \<Rightarrow> int \<Rightarrow> state \<Rightarrow> 's engine \<Rightarrow> ('s engine \<times> 'e outcome) run" where
  "interrupt_run ex env ie step metaExtra en =
     run_bind (handleInterrupt (ex_saver ex) (en_graph en) (re_uuid env CheckpointSourceInterrupt step)
                 (re_now env CheckpointSourceInterrupt step) ie step (en_config en) metaExtra (en_ec en) (en_saver en))
       (\<lambda>(config, s). Return (en\<lparr>en_config := config, en_saver := s\<rparr>, Failure (Interrupted ie)))"

definition handleExecuteStepError ::
    "('s, 'e) executor \<Rightarrow> run_env \<Rightarrow> int \<Rightarrow> task_error \<Rightarrow> (task \<times> bool \<times> state option) list \<Rightarrow> 's engine
     \<Rightarrow> ('s engine \<times> 'e outcome) run" where
  "handleExecuteStepError ex env step err report en =
     (case GetInterruptError err of
        Some ie \<Rightarrow> interrupt_run ex env ie step [] en
      | None \<Rightarrow>
          (if re_forced env step err
           then (let rerun = tasksToRerun report
                 in interrupt_run ex env
                      ((newExternalInterruptError True)
                         \<lparr>ie_next_nodes := nextNodesForForcedInterrupt (en_graph en) (en_ec en) (map fst rerun)\<rparr>)
                      step (metaExtraForForcedInterrupt (en_graph en) (en_ec en) rerun) en)
           else Return (en, Failure (StepFailed step err))))"

definition maybeCreateLoopCheckpoint :: "('s, 'e) executor \<Rightarrow> run_env \<Rightarrow> int \<Rightarrow> 's engine \<Rightarrow> 's engine run" where
  "maybeCreateLoopCheckpoint ex env step en =
     (case en_config en of
        None \<Rightarrow> Return en
      | Some config \<Rightarrow>
          run_bind (createCheckpointAndSave (ex_saver ex) (en_graph en) (re_uuid env CheckpointSourceLoop step)
                      (re_now env CheckpointSourceLoop step) config CheckpointSourceLoop step (en_ec en) (en_saver en))
            (\<lambda>(ec, config, s, _). Return (en\<lparr>en_ec := ec, en_config := Some config, en_saver := s\<rparr>)))"

definition after_step ::
    "('s, 'e) executor \<Rightarrow> run_env \<Rightarrow> int \<Rightarrow> task list \<Rightarrow> 's engine \<Rightarrow> ('s engine \<times> 'e outcome) run" where
  "after_step ex env step ts en =
     (case maybeStaticInterruptAfter (en_graph en) ts step of
        Some ie \<Rightarrow> interrupt_run ex env ie step [] en
      | None \<Rightarrow> run_bind (maybeCreateLoopCheckpoint ex env step en) (\<lambda>en. Return (en, Executed)))"

definition run_tasks ::
    "('s, 'e) executor \<Rightarrow> run_env \<Rightarrow> int \<Rightarrow> task list \<Rightarrow> 's engine \<Rightarrow> ('s engine \<times> 'e outcome) run" where
  "run_tasks ex env step ts en =
     (case executeStep (re_steps env step) step ts (en_graph en, en_ec en) of
        ((g, ec), e) \<Rightarrow>
          (let report = step_report (re_steps env step) step ts (en_graph en, en_ec en);
               en = en\<lparr>en_graph := g, en_ec := ec\<rparr>
           in case e of
                Some err \<Rightarrow> handleExecuteStepError ex env step err report en
              | None \<Rightarrow> after_step ex env step ts en))"

definition runBspStep ::
    "('s, 'e) executor \<Rightarrow> run_env \<Rightarrow> int \<Rightarrow> int \<Rightarrow> 's engine \<Rightarrow> ('s engine \<times> 'e outcome) run" where
  "runBspStep ex env startStep step en =
     (case planTasksForBspStep (en_graph en) (re_entry_predecessors env) startStep step (en_ec en) of
        Inr e \<Rightarrow> Return (en, Failure (PlanFailed step e))
      | Inl (ec, ts) \<Rightarrow>
          (let en = en\<lparr>en_ec := ec\<rparr> in
           if ts = [] then Return (en, Stop)
           else case re_requested env step of
               Some forced \<Rightarrow>
                 interrupt_run ex env ((newExternalInterruptError forced)\<lparr>ie_next_nodes := nextNodesFromTasks ts\<rparr>)
                   (step - 1) (metaExtraForPlannedExternalInterrupt (en_graph en) ec ts) en
             | None \<Rightarrow>
                 run_bind (maybeStaticInterruptBefore (en_graph en) ts step (ec_state ec)) (\<lambda>(st, stopped).
                   let en = en\<lparr>en_ec := ec\<lparr>ec_state := st\<rparr>\<rparr> in
                   case stopped of
                     Some ie \<Rightarrow> interrupt_run ex env ie step [] en
                   | None \<Rightarrow> run_tasks ex env step ts en)))"

section \<open>The loop\<close>

text \<open>The number of steps run is counted; reaching the largest step ends the run without an error.\<close>

function runBspLoop ::
    "('s, 'e) executor \<Rightarrow> run_env \<Rightarrow> int \<Rightarrow> int \<Rightarrow> nat \<Rightarrow> 's engine \<Rightarrow> ('s engine \<times> nat \<times> 'e run_error option) run" where
  "runBspLoop ex env startStep step n en =
     (if ex_max_steps ex \<le> step then Return (en, n, None)
      else case runBspStep ex env startStep step en of
          Panic \<Rightarrow> Panic
        | Return (en, Stop) \<Rightarrow> Return (en, n, None)
        | Return (en, Failure e) \<Rightarrow> Return (en, n, Some e)
        | Return (en, Executed) \<Rightarrow> runBspLoop ex env startStep (step + 1) (Suc n) en)"
  by pat_completeness auto
termination
  by (relation "measure (\<lambda>(ex, env, startStep, step, n, en). nat (ex_max_steps ex - step))") auto

declare runBspLoop.simps [simp del]

section \<open>The run\<close>

definition start_context :: "graph \<Rightarrow> state \<Rightarrow> prepared \<Rightarrow> exec_context" where
  "start_context g st p =
     (let ec = initializeChannels True st (buildExecutionContext g st (pp_resumed p) (pp_checkpoint p));
          ec = (if pp_pending p \<noteq> [] then ec\<lparr>ec_pending_writes := pp_pending p\<rparr> else ec)
      in if pp_resumed p then applyPendingWrites (ec_pending_writes ec) ec else ec)"

definition first_step :: "prepared \<Rightarrow> int" where
  "first_step p = (if pp_resumed p \<and> 0 \<le> pp_step p then pp_step p + 1 else 0)"

definition input_checkpoint :: "('s, 'e) executor \<Rightarrow> run_env \<Rightarrow> bool \<Rightarrow> 's engine \<Rightarrow> 's engine run" where
  "input_checkpoint ex env resumed en =
     (case en_config en of
        Some config \<Rightarrow>
          (if resumed then Return en
           else run_bind (createCheckpointAndSave (ex_saver ex) (en_graph en) (re_uuid env CheckpointSourceInput (-1))
                            (re_now env CheckpointSourceInput (-1)) config CheckpointSourceInput (-1) (en_ec en) (en_saver en))
                  (\<lambda>(ec, config, s, _). Return (en\<lparr>en_ec := ec, en_config := Some config, en_saver := s\<rparr>)))
      | None \<Rightarrow> Return en)"

text \<open>The engine left behind, the number of steps and the error; no engine when the preparation failed.\<close>

definition executeGraph ::
    "('s, 'e) executor \<Rightarrow> run_env \<Rightarrow> graph \<Rightarrow> state \<Rightarrow> resume_input \<Rightarrow> 's
     \<Rightarrow> (('s engine \<times> nat \<times> 'e run_error option) + 'e run_error) run" where
  "executeGraph ex env g initial cmd s =
     run_bind (prepareCheckpointAndState ex env g initial s) (\<lambda>r.
       case r of
         Inr e \<Rightarrow> Return (Inr e)
       | Inl p \<Rightarrow>
           (let st = processResumeCommand cmd (pp_state p);
                en = \<lparr>en_graph = g, en_ec = start_context g st p, en_config = pp_config p, en_saver = s\<rparr>
            in run_bind (input_checkpoint ex env (pp_resumed p) en) (\<lambda>en.
               run_bind (runBspLoop ex env (first_step p) (first_step p) 0 en) (\<lambda>r. Return (Inl r)))))"

end
