(* ===== verification/Engine_Dag.thy ===== *)
theory Engine_Dag
  imports Engine
begin

text \<open>
  The eager engine (\<open>graph/executor_dag.go\<close>): a loop without supersteps that starts a node as soon as
  one of its channels is available, as many at once as there are workers, and never two tasks of one
  node.  The goroutines of the tasks and the loop are interleaved by a sequence of events: a task copies
  its input, a task finishes, the loop receives a result, the context is cancelled.  Each event is atomic.
  A panic in a goroutine is not recovered here, so it is the panic of the program.
\<close>

section \<open>The loop's state\<close>

text \<open>A task that holds a worker; the copy of its input is there once it has begun.\<close>

record running =
  rn_task :: task
  rn_step :: int
  rn_copy :: "state option"

text \<open>A result on its way to the loop, with the input the report has recorded.\<close>

record dag_result =
  rs_task :: task
  rs_step :: int
  rs_err :: "task_error option"
  rs_input :: "state option"

datatype dag_error =
    NoEntryPointDefined
  | TaskFailed task_error
  | ContextFailed gerror
  | DagInterrupted interrupt_error

record 's dag =
  dg_en :: "'s engine"
  dg_executed :: nat
  dg_next_step :: int
  dg_ready :: "task list"
  dg_in_flight :: "(string, task) gomap"
  dg_waiting :: "(string, task list) gomap"
  dg_running :: "running list"
  dg_done :: "dag_result list"
  dg_draining :: bool
  dg_drain_err :: "dag_error option"
  dg_drain_max :: bool
  dg_pending_intr :: "interrupt_error option"
  dg_pending_step :: int
  dg_pending_extra :: "state option"
  dg_pause :: bool
  dg_rerun :: "string list"

text \<open>The environment: that of a run, the workers, and whether an external interrupt can come.\<close>

record dag_env =
  dv_run :: run_env
  dv_workers :: nat
  dv_watched :: bool

section \<open>Tasks\<close>

definition createDagTask :: "graph \<Rightarrow> string \<Rightarrow> string list \<Rightarrow> exec_context \<Rightarrow> exec_context \<times> task option" where
  "createDagTask g nodeID preds ec =
     (if nodeID = [] \<or> nodeID = End then (ec, None)
      else case graph_Node g nodeID of
          None \<Rightarrow> (ec, None)
        | Some nd \<Rightarrow>
            (let (input, ec) = (case consumeGraphInterruptInput (ec_state ec) nodeID of
                   None \<Rightarrow> (PlannedState, ec)
                 | Some (override, st) \<Rightarrow> (OwnState override, ec\<lparr>ec_state := st\<rparr>))
             in (ec, Some \<lparr>tk_node_id = nodeID, tk_input = input, tk_writes = nd_writers nd,
                   tk_triggers = nd_triggers nd, tk_task_id = [], tk_task_path = [nodeID],
                   tk_overlay = None, tk_predecessors = preds\<rparr>)))"

fun create_dag_tasks ::
    "graph \<Rightarrow> (string \<times> string list) list \<Rightarrow> exec_context \<Rightarrow> exec_context \<times> task list" where
  "create_dag_tasks g [] ec = (ec, [])"
| "create_dag_tasks g ((n, preds) # ns) ec =
     (let (ec, t) = createDagTask g n preds ec;
          (ec, ts) = create_dag_tasks g ns ec
      in (ec, case t of None \<Rightarrow> ts | Some t \<Rightarrow> t # ts))"

text \<open>The first loop of \<open>planDagTasks\<close>, over the channels in any order of the map.\<close>

fun consume_channels ::
    "(string \<times> string list) list \<Rightarrow> channels \<Rightarrow> node_triggers \<Rightarrow> string list \<Rightarrow> channels \<times> node_triggers \<times> string list" where
  "consume_channels [] chs nt consumed = (chs, nt, consumed)"
| "consume_channels ((c, ns) # rest) chs nt consumed =
     (case GetChannel chs c of
        None \<Rightarrow> consume_channels rest chs nt consumed
      | Some ch \<Rightarrow>
          (case ConsumeIfAvailable ch of
             (ch', False) \<Rightarrow> consume_channels rest chs nt consumed
           | (ch', True) \<Rightarrow>
               consume_channels rest (gput c ch' chs) (fold (add_trigger c) ns nt) (consumed @ [c])))"

definition planDagTasks :: "graph \<Rightarrow> exec_context \<Rightarrow> exec_context \<times> task list" where
  "planDagTasks g ec =
     (let pending = ec_pending_tasks ec;
          ec = ec\<lparr>ec_pending_tasks := []\<rparr>;
          (chs, nt, consumed) = consume_channels (getTriggerToNodes g) (ec_channels ec) [] [];
          ec = ec\<lparr>ec_channels := chs\<rparr>;
          (ec, ts) = create_dag_tasks g
            (map (\<lambda>n. (n, tracePredecessorsForChannels ec (case gget nt n of None \<Rightarrow> [] | Some xs \<Rightarrow> xs))) (sort (gkeys nt))) ec
      in (clearTraceChannelSources consumed ec, pending @ ts))"

text \<open>
  A task that was given the state map of the run keeps it when the run moves on to a new map: the map
  is then the task's own.
\<close>

definition hold :: "state \<Rightarrow> task \<Rightarrow> task" where
  "hold st t = (case tk_input t of PlannedState \<Rightarrow> t\<lparr>tk_input := OwnState st\<rparr> | OwnState _ \<Rightarrow> t)"

definition settle :: "'s dag \<Rightarrow> 's dag" where
  "settle dg =
     (let ec = en_ec (dg_en dg) in
      case ec_planned ec of
        None \<Rightarrow> dg
      | Some st \<Rightarrow>
          dg\<lparr>dg_en := (dg_en dg)\<lparr>en_ec := ec\<lparr>ec_planned := None\<rparr>\<rparr>,
             dg_ready := map (hold st) (dg_ready dg),
             dg_waiting := map (\<lambda>(n, ts). (n, map (hold st) ts)) (dg_waiting dg),
             dg_in_flight := map (\<lambda>(n, t). (n, hold st t)) (dg_in_flight dg),
             dg_running := map (\<lambda>r. r\<lparr>rn_task := hold st (rn_task r)\<rparr>) (dg_running dg),
             dg_done := map (\<lambda>r. r\<lparr>rs_task := hold st (rs_task r)\<rparr>) (dg_done dg)\<rparr>)"

section \<open>The goroutine of a task\<close>

text \<open>\<open>executeSingleTask\<close> up to and after the copy of the input.\<close>

definition begin_task :: "step_env \<Rightarrow> task \<Rightarrow> graph \<times> exec_context \<Rightarrow> (state \<times> exec_context) run" where
  "begin_task env t = (\<lambda>(g, ec). run_bind (buildTaskStateCopy g ec t) (\<lambda>copy. Return
     (let traceStepID = se_trace env (tk_task_id t)
      in (if traceStepID \<noteq> [] then gput currentTraceStepIDStateKey (VStr traceStepID) copy else copy,
          recordTraceStepID (tk_task_id t) traceStepID ec))))"

definition finish_task ::
    "step_env \<Rightarrow> task \<Rightarrow> int \<Rightarrow> state \<Rightarrow> graph \<times> exec_context \<Rightarrow> (graph \<times> exec_context) \<times> task_error option" where
  "finish_task env t step copy = (\<lambda>(g, ec).
     (let (st, ec, n, r) = execute_attempts g (se_policies env (tk_node_id t)) (se_attempts env (tk_task_id t))
                             (tk_node_id t) step 1 copy ec;
          ((g, ec), e) = (case r of
              Inr te \<Rightarrow> ((g, ec), Some te)
            | Inl result \<Rightarrow> finalize_result t result step (g, syncResumeState st ec))
      in ((g, clearTraceStepID (tk_task_id t) ec), e)))"

lemma executeSingleTask_phases:
  "run_task env step t s = (case begin_task env t s of
      Panic \<Rightarrow> (s, Some TaskPanic)
    | Return (copy, ec) \<Rightarrow> finish_task env t step copy (fst s, ec))"
  by (cases s; cases "buildTaskStateCopy (fst s) (snd s) t")
    (simp_all add: run_task_def executeSingleTask_def begin_task_def finish_task_def Let_def)

section \<open>Starting tasks\<close>

definition startDraining :: "dag_error \<Rightarrow> 's dag \<Rightarrow> 's dag" where
  "startDraining err dg = (if dg_draining dg then dg else dg\<lparr>dg_draining := True, dg_drain_err := Some err\<rparr>)"

definition startDrainingMaxStep :: "'s dag \<Rightarrow> 's dag" where
  "startDrainingMaxStep dg = (if dg_draining dg then dg else dg\<lparr>dg_draining := True, dg_drain_max := True\<rparr>)"

definition startDrainingInterrupt :: "interrupt_error \<Rightarrow> int \<Rightarrow> state option \<Rightarrow> 's dag \<Rightarrow> 's dag" where
  "startDrainingInterrupt ie step extra dg =
     startDraining (DagInterrupted ie)
       (if dg_pending_intr dg = None
        then dg\<lparr>dg_pending_intr := Some ie, dg_pending_step := step, dg_pending_extra := extra\<rparr> else dg)"

definition queue :: "task list \<Rightarrow> 's dag \<Rightarrow> 's dag" where
  "queue ts dg = dg\<lparr>dg_ready := dg_ready dg @ ts\<rparr>"

definition lastStep :: "'s dag \<Rightarrow> int" where
  "lastStep dg = (if dg_next_step dg \<le> 0 then -1 else dg_next_step dg - 1)"

text \<open>The break point of a task that is about to start; the answer tells whether it stopped the run.\<close>

definition maybeStartStaticInterruptBefore :: "task \<Rightarrow> 's dag \<Rightarrow> ('s dag \<times> bool) run" where
  "maybeStartStaticInterruptBefore t dg =
     (if dg_draining dg \<or> dg_pending_intr dg \<noteq> None then Return (dg, False)
      else run_bind (maybeStaticInterruptBefore (en_graph (dg_en dg)) [t] (dg_next_step dg) (ec_state (en_ec (dg_en dg))))
        (\<lambda>(st, stopped). Return
           (let dg = dg\<lparr>dg_en := (dg_en dg)\<lparr>en_ec := (en_ec (dg_en dg))\<lparr>ec_state := st\<rparr>\<rparr>\<rparr> in
            case stopped of
              None \<Rightarrow> (dg, False)
            | Some ie \<Rightarrow> (startDrainingInterrupt ie (dg_next_step dg) None dg, True))))"

definition launchTask :: "task \<Rightarrow> int \<Rightarrow> 's dag \<Rightarrow> 's dag" where
  "launchTask t step dg =
     (let t = t\<lparr>tk_task_id := tk_node_id t @ ''-'' @ show_int step\<rparr>
      in dg\<lparr>dg_next_step := step + 1, dg_in_flight := gput (tk_node_id t) t (dg_in_flight dg),
            dg_running := dg_running dg @ [\<lparr>rn_task = t, rn_step = step, rn_copy = None\<rparr>]\<rparr>)"

definition startTask :: "('s, 'e) executor \<Rightarrow> dag_env \<Rightarrow> task \<Rightarrow> 's dag \<Rightarrow> ('s dag \<times> bool) run" where
  "startTask ex env t dg =
     (if tk_node_id t = [] then Return (dg, True)
      else if ghas (dg_in_flight dg) (tk_node_id t)
        then Return (dg\<lparr>dg_waiting := gput (tk_node_id t)
               ((case gget (dg_waiting dg) (tk_node_id t) of None \<Rightarrow> [] | Some ts \<Rightarrow> ts) @ [t]) (dg_waiting dg)\<rparr>, True)
      else run_bind (maybeStartStaticInterruptBefore t dg) (\<lambda>(dg, stopped). Return
        (if stopped then (dg, False)
         else if dv_workers env \<le> length (dg_running dg) then (dg, False)
         else if ex_max_steps ex \<le> dg_next_step dg then (startDrainingMaxStep dg, False)
         else (launchTask t (dg_next_step dg) dg, True))))"

text \<open>The queue is taken from its head; a task that cannot start stays at the head.\<close>

fun start_ready :: "('s, 'e) executor \<Rightarrow> dag_env \<Rightarrow> task list \<Rightarrow> 's dag \<Rightarrow> 's dag run" where
  "start_ready ex env [] dg = Return (dg\<lparr>dg_ready := []\<rparr>)"
| "start_ready ex env (t # ts) dg =
     (if dg_draining dg \<or> dg_pause dg then Return (dg\<lparr>dg_ready := t # ts\<rparr>)
      else run_bind (startTask ex env t dg) (\<lambda>(dg, started).
        if started then start_ready ex env ts dg else Return (dg\<lparr>dg_ready := t # ts\<rparr>)))"

definition startReadyTasks :: "('s, 'e) executor \<Rightarrow> dag_env \<Rightarrow> 's dag \<Rightarrow> 's dag run" where
  "startReadyTasks ex env dg = start_ready ex env (dg_ready dg) dg"

definition queuePlannedTasks :: "'s dag \<Rightarrow> 's dag" where
  "queuePlannedTasks dg =
     (let (ec, ts) = planDagTasks (en_graph (dg_en dg)) (en_ec (dg_en dg))
      in queue ts (dg\<lparr>dg_en := (dg_en dg)\<lparr>en_ec := ec\<rparr>\<rparr>))"

definition planIfIdle :: "'s dag \<Rightarrow> 's dag" where
  "planIfIdle dg = (if dg_draining dg \<or> dg_pause dg \<or> dg_ready dg \<noteq> [] then dg else queuePlannedTasks dg)"

section \<open>The end of the run\<close>

definition maybeRequestExternalInterrupt :: "bool \<Rightarrow> 's dag \<Rightarrow> 's dag" where
  "maybeRequestExternalInterrupt requested dg =
     (if dg_draining dg \<or> dg_pause dg \<or> \<not> requested then dg else dg\<lparr>dg_pause := True\<rparr>)"

definition startRequestedExternalInterrupt :: "'s dag \<Rightarrow> 's dag" where
  "startRequestedExternalInterrupt dg =
     (if \<not> dg_pause dg \<or> dg_draining dg \<or> dg_pending_intr dg \<noteq> None then dg
      else startDrainingInterrupt (newExternalInterruptError False) (lastStep dg) None dg)"

text \<open>
  What is left to run: the queue, the tasks that wait for their own node, the tasks to run again, and
  the frontier without the nodes already named.
\<close>

definition snapshotNextNodes :: "'s dag \<Rightarrow> string list" where
  "snapshotNextNodes dg =
     (let named = filter (\<lambda>n. n \<noteq> [] \<and> n \<noteq> End)
            (map tk_node_id (dg_ready dg)
             @ concat (map (\<lambda>n. case gget (dg_waiting dg) n of None \<Rightarrow> [] | Some ts \<Rightarrow> map (\<lambda>_. n) ts)
                 (sort (filter (\<lambda>n. n \<noteq> [] \<and> (case gget (dg_waiting dg) n of None \<Rightarrow> False | Some ts \<Rightarrow> ts \<noteq> [])) (gkeys (dg_waiting dg)))))
             @ dg_rerun dg)
      in named @ filter (\<lambda>n. n \<noteq> [] \<and> n \<noteq> End \<and> n \<notin> set named)
           (getNextNodes (en_graph (dg_en dg)) (en_ec (dg_en dg))))"

definition finalizeInterrupt ::
    "('s, 'e) executor \<Rightarrow> dag_env \<Rightarrow> interrupt_error \<Rightarrow> 's dag \<Rightarrow> ('s dag \<times> interrupt_error) run" where
  "finalizeInterrupt ex env ie dg =
     (let ie = ie\<lparr>ie_next_nodes := snapshotNextNodes dg\<rparr>; step = dg_pending_step dg; en = dg_en dg in
      run_bind (handleInterrupt (ex_saver ex) (en_graph en) (re_uuid (dv_run env) CheckpointSourceInterrupt step)
                  (re_now (dv_run env) CheckpointSourceInterrupt step) ie step (en_config en)
                  (case dg_pending_extra dg of None \<Rightarrow> []
                   | Some m \<Rightarrow> [(CheckpointMetaKeyGraphInterruptInputs, VMap (Some m))]) (en_ec en) (en_saver en))
        (\<lambda>(config, s). Return (dg\<lparr>dg_en := en\<lparr>en_config := config, en_saver := s\<rparr>\<rparr>, ie)))"

definition maybeCreateFinalCheckpoint :: "('s, 'e) executor \<Rightarrow> dag_env \<Rightarrow> 's dag \<Rightarrow> 's dag run" where
  "maybeCreateFinalCheckpoint ex env dg =
     (let en = dg_en dg; step = lastStep dg in
      case en_config en of
        None \<Rightarrow> Return dg
      | Some config \<Rightarrow>
          (if ex_saver ex = None \<or> dg_executed dg = 0 then Return dg
           else run_bind (createCheckpointAndSave (ex_saver ex) (en_graph en) (re_uuid (dv_run env) CheckpointSourceLoop step)
                  (re_now (dv_run env) CheckpointSourceLoop step) config CheckpointSourceLoop step (en_ec en) (en_saver en))
                  (\<lambda>(ec, config, s, _). Return
                     (dg\<lparr>dg_en := en\<lparr>en_ec := ec, en_config := Some config, en_saver := s\<rparr>\<rparr>))))"

text \<open>The inner option is the error the run ends with; the outer one is empty while it goes on.\<close>

definition tryFinalize :: "('s, 'e) executor \<Rightarrow> dag_env \<Rightarrow> 's dag \<Rightarrow> ('s dag \<times> dag_error option option) run" where
  "tryFinalize ex env dg =
     (let idle = (dg_in_flight dg = []);
          dg = (if dg_pause dg \<and> idle then startRequestedExternalInterrupt dg else dg)
      in case (if idle then dg_pending_intr dg else None) of
           Some ie \<Rightarrow> run_bind (finalizeInterrupt ex env ie dg) (\<lambda>(dg, ie). Return (dg, Some (Some (DagInterrupted ie))))
         | None \<Rightarrow>
             (if dg_draining dg \<and> idle then Return (dg, Some (if dg_drain_max dg then None else dg_drain_err dg))
              else if dg_draining dg \<or> dg_pause dg then Return (dg, None)
              else if \<not> idle \<or> dg_ready dg \<noteq> [] then Return (dg, None)
              else run_bind (maybeCreateFinalCheckpoint ex env dg) (\<lambda>dg. Return (dg, Some None))))"

text \<open>One round of the loop, up to the wait.\<close>

definition dag_turn ::
    "('s, 'e) executor \<Rightarrow> dag_env \<Rightarrow> bool \<Rightarrow> 's dag \<Rightarrow> ('s dag \<times> dag_error option option) run" where
  "dag_turn ex env requested dg =
     run_bind (startReadyTasks ex env (maybeRequestExternalInterrupt requested dg)) (\<lambda>dg. tryFinalize ex env (planIfIdle dg))"

section \<open>Results\<close>

definition isForcedExternalInterrupt :: "interrupt_error \<Rightarrow> bool" where
  "isForcedExternalInterrupt ie \<longleftrightarrow> ie_key ie = ExternalInterruptKey \<and> ie_value ie = ie_value (newExternalInterruptError True)"

definition recordGraphInterruptInput :: "dag_result \<Rightarrow> 's dag \<Rightarrow> 's dag" where
  "recordGraphInterruptInput r dg =
     (case (dg_pending_intr dg, dg_pending_extra dg) of
        (Some ie, Some m) \<Rightarrow>
          (if \<not> isForcedExternalInterrupt ie \<or> tk_node_id (rs_task r) = [] then dg
           else dg\<lparr>dg_pending_extra := Some (add_input (tk_node_id (rs_task r))
             (case rs_input r of Some st \<Rightarrow> st
              | None \<Rightarrow> input_snapshot (en_graph (dg_en dg)) (en_ec (dg_en dg)) (rs_task r)) m)\<rparr>)
      | _ \<Rightarrow> dg)"

definition recordRerunNode :: "dag_result \<Rightarrow> 's dag \<Rightarrow> 's dag" where
  "recordRerunNode r dg =
     (let n = tk_node_id (rs_task r) in
      if dg_pending_intr dg = None \<or> n = [] \<or> n = End then dg
      else recordGraphInterruptInput r (dg\<lparr>dg_rerun := dg_rerun dg @ [n]\<rparr>))"

definition handleTaskError :: "bool \<Rightarrow> dag_result \<Rightarrow> task_error \<Rightarrow> 's dag \<Rightarrow> 's dag" where
  "handleTaskError forced r err dg =
     (if dg_draining dg then recordRerunNode r dg
      else if forced then recordRerunNode r (startDrainingInterrupt (newExternalInterruptError True) (lastStep dg) (Some []) dg)
      else case GetInterruptError err of
          Some ie \<Rightarrow> startDrainingInterrupt ie (rs_step r) None dg
        | None \<Rightarrow> startDraining (TaskFailed err) dg)"

definition maybeStartStaticInterruptAfter :: "task \<Rightarrow> int \<Rightarrow> 's dag \<Rightarrow> 's dag \<times> bool" where
  "maybeStartStaticInterruptAfter t step dg =
     (if dg_draining dg \<or> dg_pending_intr dg \<noteq> None then (dg, False)
      else case maybeStaticInterruptAfter (en_graph (dg_en dg)) [t] step of
          None \<Rightarrow> (dg, False)
        | Some ie \<Rightarrow> (startDrainingInterrupt ie step None dg, True))"

text \<open>The node is free again and its waiting tasks are queued, whatever the result.\<close>

definition release_node :: "string \<Rightarrow> 's dag \<Rightarrow> 's dag" where
  "release_node n dg =
     (if n = [] then dg
      else case gget (dg_waiting dg) n of
          Some (t # ts) \<Rightarrow> dg\<lparr>dg_in_flight := gdel n (dg_in_flight dg), dg_ready := dg_ready dg @ t # ts,
                             dg_waiting := gdel n (dg_waiting dg)\<rparr>
        | _ \<Rightarrow> dg\<lparr>dg_in_flight := gdel n (dg_in_flight dg)\<rparr>)"

definition handleTaskResult :: "bool \<Rightarrow> dag_result \<Rightarrow> 's dag \<Rightarrow> 's dag" where
  "handleTaskResult forced r dg =
     (let dg = release_node (tk_node_id (rs_task r)) dg in
      case rs_err r of
        Some err \<Rightarrow> handleTaskError forced r err dg
      | None \<Rightarrow>
          (case maybeStartStaticInterruptAfter (rs_task r) (rs_step r) (dg\<lparr>dg_executed := Suc (dg_executed dg)\<rparr>) of
             (dg, True) \<Rightarrow> dg
           | (dg, False) \<Rightarrow> if \<not> dg_draining dg \<and> \<not> dg_pause dg then queuePlannedTasks dg else dg))"

definition handleContextDone :: "bool \<Rightarrow> gerror \<Rightarrow> 's dag \<Rightarrow> 's dag" where
  "handleContextDone forced err dg =
     (if dg_draining dg then dg
      else if forced then startDrainingInterrupt (newExternalInterruptError True) (lastStep dg) (Some []) dg
      else startDraining (ContextFailed err) dg)"

section \<open>Starting the loop\<close>

definition consumeNextNodesFromState :: "exec_context \<Rightarrow> exec_context \<times> string list" where
  "consumeNextNodesFromState ec =
     (case gget (ec_state ec) StateKeyNextNodes of
        Some (VStrs (Some (n # ns))) \<Rightarrow> (ec\<lparr>ec_state := gdel StateKeyNextNodes (ec_state ec)\<rparr>, n # ns)
      | _ \<Rightarrow> (ec, []))"

definition dag_loop :: "int \<Rightarrow> 's engine \<Rightarrow> 's dag" where
  "dag_loop startStep en =
     \<lparr>dg_en = en, dg_executed = 0, dg_next_step = startStep, dg_ready = [], dg_in_flight = [], dg_waiting = [],
      dg_running = [], dg_done = [], dg_draining = False, dg_drain_err = None, dg_drain_max = False,
      dg_pending_intr = None, dg_pending_step = 0, dg_pending_extra = None, dg_pause = False, dg_rerun = []\<rparr>"

text \<open>\<open>newDagLoop\<close> with \<open>seed\<close>.\<close>

definition newDagLoop :: "dag_env \<Rightarrow> int \<Rightarrow> 's engine \<Rightarrow> 's dag + dag_error" where
  "newDagLoop env startStep en =
     (let g = en_graph en; preds = re_entry_predecessors (dv_run env) in
      if EntryPoint g = [] then Inr NoEntryPointDefined
      else let (ec, nextNodes) = consumeNextNodesFromState (en_ec en);
               (ec, ts) = create_dag_tasks g (map (\<lambda>n. (n, preds))
                 (if nextNodes \<noteq> [] then nextNodes else if ec_resumed ec then [] else [EntryPoint g])) ec
           in Inl (queue ts (dag_loop startStep (en\<lparr>en_ec := ec\<rparr>))))"

section \<open>Events\<close>

datatype dag_event =
    Begins string
  | Finishes string
  | Receives bool bool
  | Cancelled bool gerror bool

definition of_node :: "string \<Rightarrow> running \<Rightarrow> bool" where
  "of_node n r \<longleftrightarrow> tk_node_id (rn_task r) = n"

definition begin_event :: "dag_env \<Rightarrow> string \<Rightarrow> 's dag \<Rightarrow> 's dag run option" where
  "begin_event env n dg =
     (case find (of_node n) (dg_running dg) of
        None \<Rightarrow> None
      | Some r \<Rightarrow>
          (if rn_copy r \<noteq> None then None
           else Some (run_bind (begin_task (re_steps (dv_run env) (rn_step r)) (rn_task r) (en_graph (dg_en dg), en_ec (dg_en dg)))
             (\<lambda>(copy, ec). Return
                (dg\<lparr>dg_en := (dg_en dg)\<lparr>en_ec := ec\<rparr>,
                    dg_running := map (\<lambda>r. if of_node n r then r\<lparr>rn_copy := Some copy\<rparr> else r) (dg_running dg)\<rparr>)))))"

text \<open>The worker is released before the result is sent.\<close>

definition finish_event :: "dag_env \<Rightarrow> string \<Rightarrow> 's dag \<Rightarrow> 's dag run option" where
  "finish_event env n dg =
     (case find (of_node n) (dg_running dg) of
        None \<Rightarrow> None
      | Some r \<Rightarrow>
          (case rn_copy r of
             None \<Rightarrow> None
           | Some copy \<Rightarrow> Some
               (case finish_task (re_steps (dv_run env) (rn_step r)) (rn_task r) (rn_step r) copy
                       (en_graph (dg_en dg), en_ec (dg_en dg)) of
                  ((g, ec), Some TaskPanic) \<Rightarrow> Panic
                | ((g, ec), e) \<Rightarrow> Return
                    (settle (dg\<lparr>dg_en := (dg_en dg)\<lparr>en_graph := g, en_ec := ec\<rparr>,
                       dg_running := filter (\<lambda>r. \<not> of_node n r) (dg_running dg),
                       dg_done := dg_done dg @ [\<lparr>rs_task = rn_task r, rs_step = rn_step r, rs_err = e,
                         rs_input = (if dv_watched env
                                     then Some (state_deepCopy False (g_schema (en_graph (dg_en dg))) copy) else None)\<rparr>]\<rparr>)))))"

text \<open>
  What an event does to a loop that waits; \<open>None\<close> when the event cannot happen.  An interrupt is only
  requested or forced when there is a watcher.
\<close>

definition dag_event_step ::
    "('s, 'e) executor \<Rightarrow> dag_env \<Rightarrow> dag_event \<Rightarrow> 's dag \<Rightarrow> ('s dag \<times> dag_error option option) run option" where
  "dag_event_step ex env ev dg =
     (case ev of
        Begins n \<Rightarrow> map_option (\<lambda>r. run_bind r (\<lambda>dg. Return (dg, None))) (begin_event env n dg)
      | Finishes n \<Rightarrow> map_option (\<lambda>r. run_bind r (\<lambda>dg. Return (dg, None))) (finish_event env n dg)
      | Receives forced requested \<Rightarrow>
          (case dg_done dg of
             [] \<Rightarrow> None
           | r # rs \<Rightarrow>
               if (forced \<or> requested) \<and> \<not> dv_watched env then None
               else Some (dag_turn ex env requested (handleTaskResult forced r (dg\<lparr>dg_done := rs\<rparr>))))
      | Cancelled forced err requested \<Rightarrow>
          (if (forced \<or> requested) \<and> \<not> dv_watched env then None
           else Some (dag_turn ex env requested (handleContextDone forced err dg))))"

text \<open>What the loop has been through whenever it waits.\<close>

inductive dag_trace :: "('s, 'e) executor \<Rightarrow> dag_env \<Rightarrow> 's dag \<Rightarrow> dag_event list \<Rightarrow> 's dag \<Rightarrow> bool" for ex env dg0 where
  first: "requested \<longrightarrow> dv_watched env \<Longrightarrow> dag_turn ex env requested dg0 = Return (dg, None) \<Longrightarrow> dag_trace ex env dg0 [] dg"
| event: "dag_trace ex env dg0 evs dg \<Longrightarrow> dag_event_step ex env ev dg = Some (Return (dg', None))
    \<Longrightarrow> dag_trace ex env dg0 (evs @ [ev]) dg'"

end
