(* ===== verification/Dag_Props.thy ===== *)
theory Dag_Props
  imports Engine_Dag
begin

text \<open>
  What the eager engine guarantees over every interleaving of its tasks: one task per node and no more
  tasks than workers, progress, an end within the step limit, and nothing left over when it ends; and
  the cases in which it blocks or loses an error.
\<close>

section \<open>The bookkeeping of the loop\<close>

text \<open>Step, node and identifier of the running tasks; the nodes with a task running or a result on its way.\<close>

definition tags :: "'s dag \<Rightarrow> (int \<times> string \<times> string) list" where
  "tags dg = map (\<lambda>r. (rn_step r, tk_node_id (rn_task r), tk_task_id (rn_task r))) (dg_running dg)"

text \<open>The nodes that have tasks waiting.\<close>

definition queued :: "'s dag \<Rightarrow> string set" where
  "queued dg = {n. \<exists>t ts. gget (dg_waiting dg) n = Some (t # ts)}"

text \<open>
  What of the state the bookkeeping is about: the nodes in flight and those with waiting tasks, the tags
  of the running tasks, the nodes of the results on their way, the next step and the completed tasks.
\<close>

definition core :: "'s dag \<Rightarrow> string set \<times> string set \<times> (int \<times> string \<times> string) list \<times> string list \<times> int \<times> nat" where
  "core dg = (keyset (dg_in_flight dg), queued dg, tags dg, map (\<lambda>r. tk_node_id (rs_task r)) (dg_done dg),
     dg_next_step dg, dg_executed dg)"

fun core_ok :: "int \<Rightarrow> nat \<Rightarrow> int \<Rightarrow> bool
     \<Rightarrow> string set \<times> string set \<times> (int \<times> string \<times> string) list \<times> string list \<times> int \<times> nat \<Rightarrow> bool" where
  "core_ok limit workers start draining (F, W, T, D, k, n) \<longleftrightarrow>
     distinct (map (fst \<circ> snd) T @ D) \<and> set (map (fst \<circ> snd) T @ D) = F \<and> [] \<notin> F \<and> W \<subseteq> F \<and> length T \<le> workers
     \<and> start \<le> k \<and> distinct (map fst T)
     \<and> (\<forall>x \<in> set T. start \<le> fst x \<and> fst x < k \<and> fst x < limit \<and> snd (snd x) = fst (snd x) @ ''-'' @ show_int (fst x))
     \<and> (\<not> draining \<longrightarrow> int n + int (length T) + int (length D) = k - start)"

lemma core_ok_waits: "core_ok limit w start dr (F, W, T, D, k, n) \<Longrightarrow> x \<in> F \<Longrightarrow> core_ok limit w start dr (F, insert x W, T, D, k, n)"
  by simp

lemma core_ok_launch:
  assumes "core_ok limit w start dr (F, W, T, D, k, n)" "x \<notin> F" "x \<noteq> []" "length T < w" "k < limit"
  shows "core_ok limit w start dr (insert x F, W, T @ [(k, x, x @ ''-'' @ show_int k)], D, k + 1, n)"
proof -
  let ?y = "(k, x, x @ ''-'' @ show_int k)"
  have 1: "distinct (map (fst \<circ> snd) (T @ [?y]) @ D)" "set (map (fst \<circ> snd) (T @ [?y]) @ D) = insert x F" "[] \<notin> insert x F" "W \<subseteq> insert x F"
    using assms(1-3) by auto
  have "k \<notin> fst ` set T" using assms(1) by auto
  then have 2: "distinct (map fst (T @ [?y]))" using assms(1) by simp
  have 3: "\<forall>y \<in> set (T @ [?y]). start \<le> fst y \<and> fst y < k + 1 \<and> fst y < limit \<and> snd (snd y) = fst (snd y) @ ''-'' @ show_int (fst y)"
  proof
    fix y assume "y \<in> set (T @ [?y])"
    then consider "y \<in> set T" | "y = ?y" by auto
    then show "start \<le> fst y \<and> fst y < k + 1 \<and> fst y < limit \<and> snd (snd y) = fst (snd y) @ ''-'' @ show_int (fst y)"
    proof cases
      case 1
      with assms(1) show ?thesis unfolding core_ok.simps by (meson less_add_one order_less_trans)
    qed (use assms(1,5) in simp)
  qed
  have 4: "length (T @ [?y]) \<le> w" "start \<le> k + 1" "\<not> dr \<longrightarrow> int n + int (length (T @ [?y])) + int (length D) = k + 1 - start"
    using assms(1,4) by auto
  show ?thesis unfolding core_ok.simps using 1 2 3 4 by blast
qed

lemma core_ok_finish:
  assumes "core_ok limit w start dr (F, W, T, D, k, n)" "x \<in> set (map (fst \<circ> snd) T)"
  shows "core_ok limit w start dr (F, W, filter (\<lambda>y. fst (snd y) \<noteq> x) T, D @ [x], k, n)"
proof -
  let ?T = "filter (\<lambda>y. fst (snd y) \<noteq> x) T"
  have d: "distinct (map (fst \<circ> snd) T @ D)" and F: "set (map (fst \<circ> snd) T @ D) = F" using assms(1) by simp_all
  have "map (fst \<circ> snd) ?T = filter (\<lambda>z. z \<noteq> x) (map (fst \<circ> snd) T)" by (simp add: filter_map comp_def)
  then have m: "map (fst \<circ> snd) ?T = removeAll x (map (fst \<circ> snd) T)" by (simp add: removeAll_filter_not_eq) metis
  have "distinct (map (fst \<circ> snd) ?T @ D @ [x])" "set (map (fst \<circ> snd) ?T @ D @ [x]) = F"
    unfolding m using d F assms(2) by (auto simp: distinct_removeAll)
  moreover have "Suc (length ?T) = length T"
  proof -
    have "length (removeAll x (map (fst \<circ> snd) T)) = length (map (fst \<circ> snd) T) - 1"
      using d assms(2) by (simp add: distinct_remove1_removeAll[symmetric] length_remove1)
    then have "length ?T = length T - 1" using m by (metis length_map)
    with assms(2) show ?thesis by (cases T) auto
  qed
  moreover have "distinct (map fst ?T)" using assms(1) by (simp add: distinct_map_filter)
  ultimately show ?thesis using assms(1) length_filter_le[of "\<lambda>y. fst (snd y) \<noteq> x" T] by (simp only: core_ok.simps) auto
qed

lemma core_ok_release:
  assumes "core_ok limit w start dr (F, W, T, x # D, k, n)"
  shows "core_ok limit w start dr (F - {x}, W - {x}, T, D, k, Suc n)" "core_ok limit w start True (F - {x}, W - {x}, T, D, k, n)"
  using assms by auto

definition dag_inv :: "('s, 'e) executor \<Rightarrow> dag_env \<Rightarrow> int \<Rightarrow> 's dag \<Rightarrow> bool" where
  "dag_inv ex env start dg = core_ok (ex_max_steps ex) (dv_workers env) start (dg_draining dg) (core dg)"

lemma inv_core:
  assumes "dag_inv ex env start dg" "core dg' = core dg" "dg_draining dg \<Longrightarrow> dg_draining dg'"
  shows "dag_inv ex env start dg'"
  using assms by (cases "core dg") (auto simp: dag_inv_def)

lemma core_startDraining [simp]:
  "core (startDraining e dg) = core dg" "core (startDrainingMaxStep dg) = core dg" "core (queue ts dg) = core dg"
  "core (maybeRequestExternalInterrupt q dg) = core dg" "core (dg\<lparr>dg_en := en\<rparr>) = core dg"
  "core (dg\<lparr>dg_rerun := ns\<rparr>) = core dg" "core (dg\<lparr>dg_pending_extra := m\<rparr>) = core dg"
  by (simp_all add: core_def tags_def queued_def startDraining_def startDrainingMaxStep_def queue_def maybeRequestExternalInterrupt_def)

lemma core_interrupt [simp]: "core (startDrainingInterrupt ie step x dg) = core dg"
proof -
  have "core (dg\<lparr>dg_pending_intr := Some ie, dg_pending_step := step, dg_pending_extra := x\<rparr>) = core dg"
    by (simp add: core_def tags_def queued_def)
  then show ?thesis by (simp add: startDrainingInterrupt_def)
qed

lemma core_input [simp]: "core (recordGraphInterruptInput r dg) = core dg"
  by (cases "dg_pending_intr dg"; cases "dg_pending_extra dg") (simp_all add: recordGraphInterruptInput_def)

lemma core_rerun [simp]: "core (recordRerunNode r dg) = core dg"
  by (simp add: recordRerunNode_def Let_def)

lemma core_simps [simp]:
  "core (queuePlannedTasks dg) = core dg" "core (planIfIdle dg) = core dg"
  "core (startRequestedExternalInterrupt dg) = core dg" "core (handleTaskError forced r err dg) = core dg"
  "core (handleContextDone forced ge dg) = core dg" "core (fst (maybeStartStaticInterruptAfter t step dg)) = core dg"
  by (simp_all add: queuePlannedTasks_def planIfIdle_def startRequestedExternalInterrupt_def handleTaskError_def
      handleContextDone_def maybeStartStaticInterruptAfter_def split: option.split prod.split)

lemma draining_simps [simp]:
  "dg_draining (startDraining e dg)" "dg_draining (startDrainingMaxStep dg)" "dg_draining (startDrainingInterrupt ie step x dg)"
  "dg_draining (queue ts dg) = dg_draining dg" "dg_draining (queuePlannedTasks dg) = dg_draining dg"
  "dg_draining (planIfIdle dg) = dg_draining dg" "dg_draining (maybeRequestExternalInterrupt q dg) = dg_draining dg"
  "dg_draining (recordRerunNode r dg) = dg_draining dg" "dg_draining (handleTaskError forced r err dg)"
  "dg_draining (handleContextDone forced ge dg)"
  by (auto simp: startDraining_def startDrainingMaxStep_def startDrainingInterrupt_def queue_def queuePlannedTasks_def
      planIfIdle_def maybeRequestExternalInterrupt_def recordRerunNode_def recordGraphInterruptInput_def
      handleTaskError_def handleContextDone_def Let_def split: option.split prod.split)

lemma static_after_frame:
  "maybeStartStaticInterruptAfter t step dg = (dg', b) \<Longrightarrow> (b \<longrightarrow> dg_draining dg') \<and> (\<not> b \<longrightarrow> dg' = dg)"
  by (auto simp: maybeStartStaticInterruptAfter_def split: if_splits option.splits)

section \<open>Starting tasks\<close>

lemma static_before_frame:
  assumes "maybeStartStaticInterruptBefore t dg = Return (dg', b)"
  shows "core dg' = core dg" "dg_draining dg \<Longrightarrow> dg_draining dg'" "b \<Longrightarrow> dg_draining dg'" "dg_pause dg' = dg_pause dg"
    "\<not> b \<Longrightarrow> dg_draining dg' = dg_draining dg" "dg_ready dg' = dg_ready dg"
  using assms
  by (auto simp: maybeStartStaticInterruptBefore_def run_bind_Return_iff Let_def core_def tags_def queued_def startDrainingInterrupt_def startDraining_def
      split: if_splits option.splits)

lemma core_launch:
  "core (launchTask t k dg) = (insert (tk_node_id t) (keyset (dg_in_flight dg)), queued dg,
     tags dg @ [(k, tk_node_id t, tk_node_id t @ ''-'' @ show_int k)], map (\<lambda>r. tk_node_id (rs_task r)) (dg_done dg),
     k + 1, dg_executed dg)"
  "dg_draining (launchTask t k dg) = dg_draining dg"
  by (simp_all add: core_def tags_def queued_def launchTask_def Let_def)

lemma length_tags [simp]: "length (tags dg) = length (dg_running dg)"
  by (simp add: tags_def)

lemma inv_launch:
  assumes "dag_inv ex env start dg" "\<not> ghas (dg_in_flight dg) (tk_node_id t)" "tk_node_id t \<noteq> []" "length (dg_running dg) < dv_workers env"
    "dg_next_step dg < ex_max_steps ex"
  shows "dag_inv ex env start (launchTask t (dg_next_step dg) dg)"
  using assms unfolding dag_inv_def core_launch core_def[of dg] by (intro core_ok_launch) (simp_all add: ghas_keyset)

lemma inv_wait:
  assumes "dag_inv ex env start dg" "ghas (dg_in_flight dg) n"
  shows "dag_inv ex env start (dg\<lparr>dg_waiting := gput n (ts @ [t]) (dg_waiting dg)\<rparr>)"
proof -
  have "queued (dg\<lparr>dg_waiting := gput n (ts @ [t]) (dg_waiting dg)\<rparr>) = insert n (queued dg)"
    by (cases "ts @ [t]") (auto simp: queued_def)
  with assms show ?thesis
    unfolding dag_inv_def core_def by (simp add: tags_def core_ok_waits ghas_keyset del: core_ok.simps)
qed

text \<open>The ways in which an attempt to start a task ends.\<close>

lemma startTask_cases:
  assumes "startTask ex env t dg = Return (dg', b)"
  obtains (skip) "dg' = dg" b "tk_node_id t = []"
  | (wait) ts where "dg' = dg\<lparr>dg_waiting := gput (tk_node_id t) (ts @ [t]) (dg_waiting dg)\<rparr>" b
      "ghas (dg_in_flight dg) (tk_node_id t)"
  | (stop) "maybeStartStaticInterruptBefore t dg = Return (dg', True)" "\<not> b"
  | (full) "maybeStartStaticInterruptBefore t dg = Return (dg', False)" "\<not> b" "dv_workers env \<le> length (dg_running dg')"
  | (limit) dg1 where "maybeStartStaticInterruptBefore t dg = Return (dg1, False)" "\<not> b" "dg' = startDrainingMaxStep dg1"
      "ex_max_steps ex \<le> dg_next_step dg1"
  | (launch) dg1 where "maybeStartStaticInterruptBefore t dg = Return (dg1, False)" b "dg' = launchTask t (dg_next_step dg1) dg1"
      "tk_node_id t \<noteq> []" "\<not> ghas (dg_in_flight dg1) (tk_node_id t)" "length (dg_running dg1) < dv_workers env"
      "dg_next_step dg1 < ex_max_steps ex"
proof (cases "tk_node_id t = [] \<or> ghas (dg_in_flight dg) (tk_node_id t)")
  case True
  with assms show thesis using skip wait by (auto simp: startTask_def split: if_splits)
next
  case False
  with assms obtain dg1 stopped where s: "maybeStartStaticInterruptBefore t dg = Return (dg1, stopped)"
    and r: "(dg', b) = (if stopped then (dg1, False) else if dv_workers env \<le> length (dg_running dg1) then (dg1, False)
      else if ex_max_steps ex \<le> dg_next_step dg1 then (startDrainingMaxStep dg1, False)
      else (launchTask t (dg_next_step dg1) dg1, True))"
    by (auto simp: startTask_def run_bind_Return_iff)
  have "keyset (dg_in_flight dg1) = keyset (dg_in_flight dg)" using static_before_frame(1)[OF s] by (simp add: core_def)
  then have "\<not> ghas (dg_in_flight dg1) (tk_node_id t)" using False by (metis ghas_keyset)
  with s r False show thesis using stop full limit launch by (cases stopped) (auto split: if_splits)
qed

lemma startTask_inv:
  assumes "startTask ex env t dg = Return (dg', b)" "dag_inv ex env start dg"
  shows "dag_inv ex env start dg'"
  using assms(1)
proof (cases rule: startTask_cases)
  case wait
  with inv_wait[OF assms(2)] show ?thesis by simp
next
  case stop
  from inv_core[OF assms(2) static_before_frame(1,2)[OF stop(1)]] show ?thesis .
next
  case full
  from inv_core[OF assms(2) static_before_frame(1,2)[OF full(1)]] show ?thesis .
next
  case (limit dg1)
  from inv_core[OF assms(2) static_before_frame(1,2)[OF limit(1)]] have "dag_inv ex env start dg1" .
  then show ?thesis unfolding limit(3) by (rule inv_core) simp_all
next
  case (launch dg1)
  from inv_core[OF assms(2) static_before_frame(1,2)[OF launch(1)]] inv_launch launch show ?thesis by blast
qed (use assms(2) in simp)

lemma inv_ready [simp]: "dag_inv ex env start (dg\<lparr>dg_ready := ts\<rparr>) = dag_inv ex env start dg"
  by (simp add: dag_inv_def core_def tags_def queued_def)

lemma start_ready_draining: "start_ready ex env ts dg = Return dg' \<Longrightarrow> dg_draining dg \<Longrightarrow> dg_draining dg'"
  by (cases ts) auto

lemma start_ready_inv:
  "start_ready ex env ts dg = Return dg' \<Longrightarrow> dag_inv ex env start dg \<Longrightarrow> dag_inv ex env start dg'"
proof (induction ts arbitrary: dg)
  case (Cons t ts)
  show ?case
  proof (cases "dg_draining dg \<or> dg_pause dg")
    case False
    with Cons.prems(1) obtain dg1 b where s: "startTask ex env t dg = Return (dg1, b)"
      and r: "(if b then start_ready ex env ts dg1 else Return (dg1\<lparr>dg_ready := t # ts\<rparr>)) = Return dg'"
      by (auto simp: run_bind_Return_iff)
    from startTask_inv[OF s Cons.prems(2)] r Cons.IH[of dg1] show ?thesis by (auto split: if_splits)
  qed (use Cons.prems in auto)
qed auto

section \<open>A round of the loop\<close>

lemma tryFinalize_waits:
  assumes "tryFinalize ex env dg = Return (dg', None)"
  shows "dg' = dg \<and> (dg_in_flight dg \<noteq> [] \<or> (\<not> dg_draining dg \<and> \<not> dg_pause dg \<and> dg_ready dg \<noteq> []))"
proof (cases "dg_in_flight dg = []")
  case True
  let ?dg = "if dg_pause dg then startRequestedExternalInterrupt dg else dg"
  have "dg_pending_intr ?dg = None"
    using assms True by (auto simp: tryFinalize_def Let_def run_bind_Return_iff split: option.splits)
  moreover from this have "\<not> dg_draining ?dg" using assms True by (auto simp: tryFinalize_def Let_def)
  ultimately have "\<not> dg_pause dg"
    by (auto simp: startRequestedExternalInterrupt_def startDrainingInterrupt_def startDraining_def split: if_splits)
  with assms True show ?thesis by (auto simp: tryFinalize_def Let_def run_bind_Return_iff split: option.splits if_splits)
next
  case False
  with assms show ?thesis by (auto simp: tryFinalize_def Let_def run_bind_Return_iff split: if_splits)
qed

lemma turn_inv:
  assumes "dag_turn ex env requested dg = Return (dg', None)" "dag_inv ex env start dg"
  shows "dag_inv ex env start dg'"
proof -
  obtain dg1 where s: "startReadyTasks ex env (maybeRequestExternalInterrupt requested dg) = Return dg1"
    and f: "tryFinalize ex env (planIfIdle dg1) = Return (dg', None)"
    using assms(1) by (auto simp: dag_turn_def run_bind_Return_iff)
  have "dag_inv ex env start (maybeRequestExternalInterrupt requested dg)" by (rule inv_core[OF assms(2)]) simp_all
  then have "dag_inv ex env start dg1" using start_ready_inv s unfolding startReadyTasks_def by blast
  then have "dag_inv ex env start (planIfIdle dg1)" by (rule inv_core) simp_all
  with tryFinalize_waits[OF f] show ?thesis by simp
qed

section \<open>Events\<close>

lemma hold_simps [simp]: "tk_node_id (hold st t) = tk_node_id t" "tk_task_id (hold st t) = tk_task_id t"
  by (auto simp: hold_def split: task_input.split)

lemma keyset_map_values [simp]: "keyset (map (\<lambda>(n, x). (n, f x)) m) = keyset m"
  by (force simp: keyset_def)

lemma settle_core [simp]:
  "core (settle dg) = core dg" "dg_draining (settle dg) = dg_draining dg" "dg_pause (settle dg) = dg_pause dg"
  "map rn_copy (dg_running (settle dg)) = map rn_copy (dg_running dg)"
  by (auto simp: settle_def Let_def core_def tags_def queued_def comp_def gget_map_values split: option.split)

lemma find_of_node:
  "find (of_node n) rs = Some r \<Longrightarrow> r \<in> set rs \<and> tk_node_id (rn_task r) = n"
  by (auto simp: find_Some_iff of_node_def)

lemma begin_core:
  assumes "begin_event env n dg = Some (Return dg')"
  shows "core dg' = core dg" "dg_draining dg' = dg_draining dg" "dg_pause dg' = dg_pause dg" "dg_ready dg' = dg_ready dg"
  using assms
  by (auto simp: begin_event_def run_bind_Return_iff core_def tags_def queued_def comp_def split: option.splits if_splits)

lemma finish_inv:
  assumes "finish_event env n dg = Some (Return dg')" "dag_inv ex env start dg"
  shows "dag_inv ex env start dg'" "dg_draining dg' = dg_draining dg" "dg_pause dg' = dg_pause dg"
proof -
  obtain r copy where r: "find (of_node n) (dg_running dg) = Some r" "rn_copy r = Some copy"
    using assms(1) by (auto simp: finish_event_def split: option.splits)
  obtain g ec e where f: "finish_task (re_steps (dv_run env) (rn_step r)) (rn_task r) (rn_step r) copy
      (en_graph (dg_en dg), en_ec (dg_en dg)) = ((g, ec), e)" by (metis surj_pair)
  define res where "res = \<lparr>rs_task = rn_task r, rs_step = rn_step r, rs_err = e,
      rs_input = (if dv_watched env then Some (state_deepCopy False (g_schema (en_graph (dg_en dg))) copy) else None)\<rparr>"
  let ?dg = "dg\<lparr>dg_en := (dg_en dg)\<lparr>en_graph := g, en_ec := ec\<rparr>,
      dg_running := filter (\<lambda>r. \<not> of_node n r) (dg_running dg), dg_done := dg_done dg @ [res]\<rparr>"
  have dg': "dg' = settle ?dg" using assms(1) r f by (auto simp: finish_event_def res_def split: option.splits task_error.splits)
  note n = find_of_node[OF r(1)]
  have "tags ?dg = filter (\<lambda>y. fst (snd y) \<noteq> n) (tags dg)" by (simp add: tags_def filter_map comp_def of_node_def)
  moreover have "n \<in> set (map (fst \<circ> snd) (tags dg))" using n by (auto simp: tags_def)
  moreover have "map (\<lambda>r. tk_node_id (rs_task r)) (dg_done ?dg) = map (\<lambda>r. tk_node_id (rs_task r)) (dg_done dg) @ [n]"
    using n by (simp add: res_def)
  ultimately have "dag_inv ex env start ?dg"
    using assms(2) core_ok_finish[of "ex_max_steps ex" "dv_workers env" start "dg_draining dg"]
    unfolding dag_inv_def core_def queued_def by (simp del: core_ok.simps)
  then show "dag_inv ex env start dg'" unfolding dg' by (rule inv_core) simp_all
  show "dg_draining dg' = dg_draining dg" "dg_pause dg' = dg_pause dg" by (simp_all add: dg')
qed

lemma release_core:
  assumes "n \<noteq> []"
  shows "keyset (dg_in_flight (release_node n dg)) = keyset (dg_in_flight dg) - {n}"
    "queued (release_node n dg) = queued dg - {n}"
    "tags (release_node n dg) = tags dg" "dg_done (release_node n dg) = dg_done dg"
    "dg_next_step (release_node n dg) = dg_next_step dg" "dg_executed (release_node n dg) = dg_executed dg"
    "dg_draining (release_node n dg) = dg_draining dg" "dg_pause (release_node n dg) = dg_pause dg"
    "dg_en (release_node n dg) = dg_en dg"
  using assms by (auto simp: release_node_def tags_def keyset_get queued_def split: option.splits list.splits)

lemma released_inv:
  assumes "dag_inv ex env start dg" "dg_done dg = r # rs" "n = tk_node_id (rs_task r)" "n \<noteq> []"
  shows "dag_inv ex env start ((release_node n (dg\<lparr>dg_done := rs\<rparr>))\<lparr>dg_executed := Suc (dg_executed dg)\<rparr>)"
    "core_ok (ex_max_steps ex) (dv_workers env) start True (core (release_node n (dg\<lparr>dg_done := rs\<rparr>)))"
proof -
  let ?dg = "release_node n (dg\<lparr>dg_done := rs\<rparr>)"
  note rel = release_core[OF assms(4), of "dg\<lparr>dg_done := rs\<rparr>"]
  have pop: "tags (dg\<lparr>dg_done := rs\<rparr>) = tags dg" "queued (dg\<lparr>dg_done := rs\<rparr>) = queued dg" by (simp_all add: tags_def queued_def)
  have ok: "core_ok (ex_max_steps ex) (dv_workers env) start (dg_draining dg)
      (keyset (dg_in_flight dg), queued dg, tags dg, n # map (\<lambda>r. tk_node_id (rs_task r)) rs, dg_next_step dg, dg_executed dg)"
    using assms(1-3) by (simp add: dag_inv_def core_def del: core_ok.simps)
  note rl = core_ok_release[OF ok]
  have "core ?dg = (keyset (dg_in_flight dg) - {n}, queued dg - {n}, tags dg, map (\<lambda>r. tk_node_id (rs_task r)) rs, dg_next_step dg, dg_executed dg)"
    using rel pop by (simp add: core_def)
  with rl(2) show "core_ok (ex_max_steps ex) (dv_workers env) start True (core ?dg)" by simp
  have "core (?dg\<lparr>dg_executed := Suc (dg_executed dg)\<rparr>)
      = (keyset (dg_in_flight dg) - {n}, queued dg - {n}, tags dg, map (\<lambda>r. tk_node_id (rs_task r)) rs, dg_next_step dg, Suc (dg_executed dg))"
    using rel pop by (simp add: core_def tags_def queued_def)
  with rl(1) rel show "dag_inv ex env start (?dg\<lparr>dg_executed := Suc (dg_executed dg)\<rparr>)" by (simp add: dag_inv_def)
qed

lemma handle_inv:
  assumes "dag_inv ex env start dg" "dg_done dg = r # rs"
  shows "dag_inv ex env start (handleTaskResult forced r (dg\<lparr>dg_done := rs\<rparr>))"
proof -
  let ?rel = "release_node (tk_node_id (rs_task r)) (dg\<lparr>dg_done := rs\<rparr>)"
  have named: "tk_node_id (rs_task r) \<noteq> []"
    using assms by (auto simp: dag_inv_def core_def)
  note rel = released_inv[OF assms(1,2) refl named]
  have ex: "dg_executed ?rel = dg_executed dg" using release_core[OF named, of "dg\<lparr>dg_done := rs\<rparr>"] by simp
  show ?thesis
  proof (cases "rs_err r")
    case (Some err)
    then have "handleTaskResult forced r (dg\<lparr>dg_done := rs\<rparr>) = handleTaskError forced r err ?rel"
      by (simp add: handleTaskResult_def Let_def)
    with rel(2) show ?thesis unfolding dag_inv_def by (simp del: core_ok.simps)
  next
    case None
    obtain dg1 b where st: "maybeStartStaticInterruptAfter (rs_task r) (rs_step r) (?rel\<lparr>dg_executed := Suc (dg_executed dg)\<rparr>) = (dg1, b)"
      by (metis surj_pair)
    then have "core dg1 = core (?rel\<lparr>dg_executed := Suc (dg_executed dg)\<rparr>)" by (metis core_simps(6) fst_conv)
    then have i1: "dag_inv ex env start dg1"
      using inv_core[OF rel(1)] static_after_frame[OF st] by blast
    have "handleTaskResult forced r (dg\<lparr>dg_done := rs\<rparr>)
        = (if b then dg1 else if \<not> dg_draining dg1 \<and> \<not> dg_pause dg1 then queuePlannedTasks dg1 else dg1)"
      using None st ex by (simp add: handleTaskResult_def Let_def split: bool.split)
    then show ?thesis using i1 inv_core[OF i1, of "queuePlannedTasks dg1"] by simp
  qed
qed

lemma cancel_inv: "dag_inv ex env start dg \<Longrightarrow> dag_inv ex env start (handleContextDone forced err dg)"
  by (rule inv_core) simp_all

lemma event_cases:
  assumes "dag_event_step ex env ev dg = Some (Return (dg', out))"
  obtains n where "ev = Begins n" "begin_event env n dg = Some (Return dg')" "out = None"
  | n where "ev = Finishes n" "finish_event env n dg = Some (Return dg')" "out = None"
  | forced requested r rs where "ev = Receives forced requested" "dg_done dg = r # rs" "forced \<or> requested \<Longrightarrow> dv_watched env"
      "dag_turn ex env requested (handleTaskResult forced r (dg\<lparr>dg_done := rs\<rparr>)) = Return (dg', out)"
  | forced err requested where "ev = Cancelled forced err requested" "forced \<or> requested \<Longrightarrow> dv_watched env"
      "dag_turn ex env requested (handleContextDone forced err dg) = Return (dg', out)"
  using assms
  by (cases ev) (auto simp: dag_event_step_def run_bind_Return_iff split: list.splits if_splits)

lemma event_inv:
  assumes "dag_event_step ex env ev dg = Some (Return (dg', None))" "dag_inv ex env start dg"
  shows "dag_inv ex env start dg'"
  using assms(1)
proof (cases rule: event_cases)
  case (1 n)
  then show ?thesis using inv_core[OF assms(2), of dg'] begin_core by metis
next
  case (2 n)
  then show ?thesis using finish_inv(1)[OF _ assms(2)] by blast
next
  case (3 forced requested r rs)
  then show ?thesis using turn_inv handle_inv[OF assms(2)] by blast
next
  case (4 forced err requested)
  then show ?thesis using turn_inv cancel_inv[OF assms(2)] by blast
qed

section \<open>A fresh loop\<close>

lemma newDagLoop_shape:
  assumes "newDagLoop env start en = Inl dg"
  shows "\<exists>ns ec0 ec ts. create_dag_tasks (en_graph en) ns ec0 = (ec, ts) \<and> dg = (dag_loop start (en\<lparr>en_ec := ec\<rparr>))\<lparr>dg_ready := ts\<rparr>"
proof -
  let ?preds = "re_entry_predecessors (dv_run env)"
  obtain ec0 nexts where c: "consumeNextNodesFromState (en_ec en) = (ec0, nexts)" by fastforce
  let ?ns = "map (\<lambda>n. (n, ?preds)) (if nexts \<noteq> [] then nexts else if ec_resumed ec0 then [] else [EntryPoint (en_graph en)])"
  obtain ec ts where t: "create_dag_tasks (en_graph en) ?ns ec0 = (ec, ts)" by fastforce
  have "dg = queue ts (dag_loop start (en\<lparr>en_ec := ec\<rparr>))"
    using assms unfolding newDagLoop_def Let_def c prod.case t by (simp split: if_splits)
  with t show ?thesis by (auto simp: queue_def dag_loop_def)
qed

lemma new_inv: "newDagLoop env start en = Inl dg \<Longrightarrow> dag_inv ex env start dg"
  using newDagLoop_shape by (fastforce simp: dag_inv_def core_def tags_def queued_def dag_loop_def)

lemma trace_inv:
  assumes "newDagLoop env start en = Inl dg0" "dag_trace ex env dg0 evs dg"
  shows "dag_inv ex env start dg"
  using assms(2)
proof (induction rule: dag_trace.induct)
  case (first requested dg)
  then show ?case using turn_inv new_inv[OF assms(1)] by blast
next
  case (event evs dg ev dg')
  then show ?case using event_inv by blast
qed

lemma last_dash:
  assumes "a @ ''-'' @ show_int j = b @ ''-'' @ show_int k" "0 \<le> j" "0 \<le> k"
  shows "j = k"
proof -
  have tail: "takeWhile (\<lambda>c. c \<noteq> CHR ''-'') (rev (n @ ''-'' @ show_int i)) = rev (show_int i)" if "0 \<le> i" for n i
  proof -
    have "CHR ''-'' \<notin> set (rev (show_int i))" using that show_nat_no_dash by (simp add: show_int_def)
    then have "takeWhile (\<lambda>c. c \<noteq> CHR ''-'') (rev (show_int i) @ CHR ''-'' # rev n) = rev (show_int i)"
      by (subst takeWhile_append2) auto
    then show ?thesis by simp
  qed
  have "rev (show_int j) = rev (show_int k)" using tail[OF assms(2), of a] tail[OF assms(3), of b] assms(1) by metis
  then show ?thesis by (simp add: show_int_inj)
qed

text \<open>
  C8. The eager engine never runs two tasks of one node at a time and never more tasks than there are
  workers, over every interleaving: the running tasks have different nodes, different steps within the
  limit and identifiers of their own, and a node that has a task waiting is in flight.
\<close>

theorem dag_one_task_per_node:
  assumes "0 \<le> start" "newDagLoop env start en = Inl dg0" "dag_trace ex env dg0 evs dg"
  shows "distinct (map (\<lambda>r. tk_node_id (rn_task r)) (dg_running dg)) \<and> length (dg_running dg) \<le> dv_workers env
     \<and> distinct (map (\<lambda>r. tk_task_id (rn_task r)) (dg_running dg))
     \<and> (\<forall>r \<in> set (dg_running dg). start \<le> rn_step r \<and> rn_step r < ex_max_steps ex \<and> ghas (dg_in_flight dg) (tk_node_id (rn_task r)))
     \<and> (\<forall>n t ts. gget (dg_waiting dg) n = Some (t # ts) \<longrightarrow> ghas (dg_in_flight dg) n)"
proof -
  have ok: "core_ok (ex_max_steps ex) (dv_workers env) start (dg_draining dg) (core dg)"
    using trace_inv[OF assms(2,3)] by (simp add: dag_inv_def)
  have d: "distinct (map (\<lambda>r. tk_node_id (rn_task r)) (dg_running dg))" "length (dg_running dg) \<le> dv_workers env"
    "\<forall>r \<in> set (dg_running dg). start \<le> rn_step r \<and> rn_step r < ex_max_steps ex
        \<and> tk_task_id (rn_task r) = tk_node_id (rn_task r) @ ''-'' @ show_int (rn_step r)"
    "distinct (map rn_step (dg_running dg))"
    using ok by (auto simp: core_def tags_def comp_def)
  have F: "set (map (\<lambda>r. tk_node_id (rn_task r)) (dg_running dg)) \<subseteq> keyset (dg_in_flight dg)" "queued dg \<subseteq> keyset (dg_in_flight dg)"
    using ok by (auto simp: core_def tags_def)
  have "inj_on (\<lambda>r. tk_task_id (rn_task r)) (set (dg_running dg))"
  proof (rule inj_onI)
    fix a b assume ab: "a \<in> set (dg_running dg)" "b \<in> set (dg_running dg)" "tk_task_id (rn_task a) = tk_task_id (rn_task b)"
    moreover have "0 \<le> rn_step a" "0 \<le> rn_step b" using d(3) ab(1,2) assms(1) by force+
    moreover have "tk_task_id (rn_task a) = tk_node_id (rn_task a) @ ''-'' @ show_int (rn_step a)"
      "tk_task_id (rn_task b) = tk_node_id (rn_task b) @ ''-'' @ show_int (rn_step b)" using d(3) ab(1,2) by blast+
    ultimately have "rn_step a = rn_step b" using ab(3) last_dash[of "tk_node_id (rn_task a)"] by simp
    with ab d(4) show "a = b" by (simp add: distinct_map inj_on_def)
  qed
  then have "distinct (map (\<lambda>r. tk_task_id (rn_task r)) (dg_running dg))"
    using d(1) by (simp add: distinct_map)
  with d F show ?thesis by (auto simp: ghas_keyset queued_def)
qed

section \<open>Every run of the loop ends\<close>

text \<open>
  Every task that may still be started costs three events: its start, its end and the receipt of its
  result.
\<close>

definition load :: "'s dag \<Rightarrow> int \<times> nat list \<times> nat" where
  "load dg = (dg_next_step dg, map (\<lambda>r. if rn_copy r = None then 3 else 2) (dg_running dg), length (dg_done dg))"

fun weight :: "int \<Rightarrow> int \<times> nat list \<times> nat \<Rightarrow> nat" where
  "weight limit (k, xs, d) = 3 * nat (limit - k) + sum_list xs + d"

lemma load_simps [simp]:
  "load (startDraining e dg) = load dg" "load (startDrainingMaxStep dg) = load dg"
  "load (startDrainingInterrupt ie step x dg) = load dg" "load (queue ts dg) = load dg"
  "load (queuePlannedTasks dg) = load dg" "load (planIfIdle dg) = load dg"
  "load (maybeRequestExternalInterrupt q dg) = load dg" "load (release_node n dg) = load dg"
  "load (recordRerunNode r dg) = load dg" "load (handleTaskError forced r err dg) = load dg"
  "load (handleContextDone forced ge dg) = load dg" "load (fst (maybeStartStaticInterruptAfter t step dg)) = load dg"
  by (auto simp: load_def startDraining_def startDrainingMaxStep_def startDrainingInterrupt_def queue_def queuePlannedTasks_def
      planIfIdle_def maybeRequestExternalInterrupt_def recordRerunNode_def release_node_def
      recordGraphInterruptInput_def handleTaskError_def handleContextDone_def maybeStartStaticInterruptAfter_def Let_def
      split: option.split prod.split list.split)

lemma load_settle [simp]: "load (settle dg) = load dg"
  by (simp add: load_def settle_def Let_def comp_def split: option.split)

lemma load_handle [simp]: "load (handleTaskResult forced r dg) = load dg"
proof -
  let ?dg = "(release_node (tk_node_id (rs_task r)) dg)\<lparr>dg_executed := Suc (dg_executed (release_node (tk_node_id (rs_task r)) dg))\<rparr>"
  obtain dg1 b where st: "maybeStartStaticInterruptAfter (rs_task r) (rs_step r) ?dg = (dg1, b)" by (metis surj_pair)
  have "load ?dg = load (release_node (tk_node_id (rs_task r)) dg)" by (simp add: load_def)
  then have "load dg1 = load dg" using load_simps(12)[of "rs_task r" "rs_step r" ?dg] st by simp
  with st show ?thesis by (cases "rs_err r"; cases b) (simp_all add: handleTaskResult_def Let_def)
qed

lemma static_before_load: "maybeStartStaticInterruptBefore t dg = Return (dg', b) \<Longrightarrow> load dg' = load dg"
  by (auto simp: maybeStartStaticInterruptBefore_def run_bind_Return_iff Let_def load_def startDrainingInterrupt_def
      startDraining_def split: if_splits option.splits)

lemma startTask_weight:
  assumes "startTask ex env t dg = Return (dg', b)"
  shows "weight (ex_max_steps ex) (load dg') = weight (ex_max_steps ex) (load dg)"
  using assms
proof (cases rule: startTask_cases)
  case (launch dg1)
  then have "weight (ex_max_steps ex) (load dg') = weight (ex_max_steps ex) (load dg1)"
    by (simp add: load_def launchTask_def Let_def)
  with static_before_load[OF launch(1)] show ?thesis by simp
qed (auto simp: load_def[of "dg\<lparr>dg_waiting := w\<rparr>" for w] load_def[of dg] dest: static_before_load)

lemma start_ready_weight:
  "start_ready ex env ts dg = Return dg' \<Longrightarrow> weight (ex_max_steps ex) (load dg') = weight (ex_max_steps ex) (load dg)"
proof (induction ts arbitrary: dg)
  case (Cons t ts)
  show ?case
  proof (cases "dg_draining dg \<or> dg_pause dg")
    case False
    with Cons.prems obtain dg1 b where s: "startTask ex env t dg = Return (dg1, b)"
      and r: "(if b then start_ready ex env ts dg1 else Return (dg1\<lparr>dg_ready := t # ts\<rparr>)) = Return dg'"
      by (auto simp: run_bind_Return_iff)
    have "load (dg1\<lparr>dg_ready := t # ts\<rparr>) = load dg1" by (simp add: load_def)
    with startTask_weight[OF s] r Cons.IH[of dg1] show ?thesis by (auto split: if_splits)
  qed (use Cons.prems in \<open>auto simp: load_def\<close>)
qed (auto simp: load_def)

lemma turn_weight:
  assumes "dag_turn ex env requested dg = Return (dg', None)"
  shows "weight (ex_max_steps ex) (load dg') = weight (ex_max_steps ex) (load dg)"
proof -
  obtain dg1 where s: "startReadyTasks ex env (maybeRequestExternalInterrupt requested dg) = Return dg1"
    and f: "tryFinalize ex env (planIfIdle dg1) = Return (dg', None)"
    using assms(1) by (auto simp: dag_turn_def run_bind_Return_iff)
  from tryFinalize_waits[OF f] start_ready_weight[OF s[unfolded startReadyTasks_def]] show ?thesis by simp
qed

lemma sum_list_one:
  fixes g :: "'a \<Rightarrow> nat"
  assumes "distinct (map f xs)" "x \<in> set xs"
  shows "sum_list (map g (map (\<lambda>y. if f y = f x then h y else y) xs)) + g x = sum_list (map g xs) + g (h x)"
    "sum_list (map g (filter (\<lambda>y. f y \<noteq> f x) xs)) + g x = sum_list (map g xs)"
proof -
  obtain ys zs where s: "xs = ys @ x # zs" using assms(2) by (meson split_list)
  have "f y \<noteq> f x" if "y \<in> set ys \<union> set zs" for y using assms(1) that unfolding s by (auto simp: image_iff)
  then have "map (\<lambda>y. if f y = f x then h y else y) ys = ys" "map (\<lambda>y. if f y = f x then h y else y) zs = zs"
    "filter (\<lambda>y. f y \<noteq> f x) ys = ys" "filter (\<lambda>y. f y \<noteq> f x) zs = zs"
    by (auto intro: map_idI filter_True)
  then show "sum_list (map g (map (\<lambda>y. if f y = f x then h y else y) xs)) + g x = sum_list (map g xs) + g (h x)"
    "sum_list (map g (filter (\<lambda>y. f y \<noteq> f x) xs)) + g x = sum_list (map g xs)"
    by (simp_all add: s)
qed

fun is_cancel :: "dag_event \<Rightarrow> bool" where
  "is_cancel (Cancelled forced err requested) = True"
| "is_cancel _ = False"

lemma running_nodes: "dag_inv ex env start dg \<Longrightarrow> distinct (map (\<lambda>r. tk_node_id (rn_task r)) (dg_running dg))"
  by (auto simp: dag_inv_def core_def tags_def comp_def)

lemma event_weight:
  assumes "dag_event_step ex env ev dg = Some (Return (dg', None))" "dag_inv ex env start dg"
  shows "weight (ex_max_steps ex) (load dg') + (if is_cancel ev then 0 else 1) = weight (ex_max_steps ex) (load dg)"
  using assms(1)
proof (cases rule: event_cases)
  case (1 n)
  then obtain r copy ec where r: "find (of_node n) (dg_running dg) = Some r" "rn_copy r = None"
    and dg': "dg' = dg\<lparr>dg_en := (dg_en dg)\<lparr>en_ec := ec\<rparr>,
                dg_running := map (\<lambda>r. if of_node n r then r\<lparr>rn_copy := Some copy\<rparr> else r) (dg_running dg)\<rparr>"
    by (auto simp: begin_event_def run_bind_Return_iff split: option.splits if_splits)
  let ?f = "\<lambda>r. tk_node_id (rn_task r)" and ?g = "\<lambda>r. if rn_copy r = None then 3 else (2::nat)"
  from sum_list_one(1)[OF running_nodes[OF assms(2)], of r ?g "\<lambda>r. r\<lparr>rn_copy := Some copy\<rparr>"] find_of_node[OF r(1)] r(2)
  have "sum_list (map ?g (dg_running dg')) + 3 = sum_list (map ?g (dg_running dg)) + 2"
    by (simp add: dg' of_node_def comp_def)
  with 1 show ?thesis by (simp add: load_def dg' comp_def)
next
  case (2 n)
  then obtain r copy where r: "find (of_node n) (dg_running dg) = Some r" "rn_copy r = Some copy"
    by (auto simp: finish_event_def split: option.splits)
  have "\<exists>dg1. dg' = settle dg1 \<and> dg_running dg1 = filter (\<lambda>r. \<not> of_node n r) (dg_running dg)
      \<and> length (dg_done dg1) = Suc (length (dg_done dg)) \<and> dg_next_step dg1 = dg_next_step dg"
    using 2(2) r by (auto simp: finish_event_def split: option.splits prod.splits task_error.splits)
  then obtain dg1 where dg1: "dg' = settle dg1" "dg_running dg1 = filter (\<lambda>r. \<not> of_node n r) (dg_running dg)"
      "length (dg_done dg1) = Suc (length (dg_done dg))" "dg_next_step dg1 = dg_next_step dg" by blast
  let ?g = "\<lambda>r. if rn_copy r = None then 3 else (2::nat)"
  from sum_list_one(2)[OF running_nodes[OF assms(2)], of r ?g] find_of_node[OF r(1)] r(2)
  have "sum_list (map ?g (dg_running dg1)) + 2 = sum_list (map ?g (dg_running dg))"
    by (simp add: dg1 of_node_def)
  then have "weight (ex_max_steps ex) (load dg1) + 1 = weight (ex_max_steps ex) (load dg)" by (simp add: load_def dg1)
  with 2(1) dg1(1) show ?thesis by simp
next
  case (3 forced requested r rs)
  have "weight (ex_max_steps ex) (load (dg\<lparr>dg_done := rs\<rparr>)) + 1 = weight (ex_max_steps ex) (load dg)"
    using 3(2) by (simp add: load_def)
  with turn_weight[OF 3(4)] 3(1) show ?thesis by simp
next
  case (4 forced err requested)
  with turn_weight[OF 4(3)] show ?thesis by simp
qed

lemma trace_weight:
  assumes "newDagLoop env start en = Inl dg0" "dag_trace ex env dg0 evs dg"
  shows "weight (ex_max_steps ex) (load dg) + length (filter (\<lambda>ev. \<not> is_cancel ev) evs) = 3 * nat (ex_max_steps ex - start)"
  using assms(2)
proof (induction rule: dag_trace.induct)
  case (first requested dg)
  have "weight (ex_max_steps ex) (load dg0) = 3 * nat (ex_max_steps ex - start)"
    using newDagLoop_shape[OF assms(1)] by (auto simp: load_def dag_loop_def)
  with turn_weight[OF first(2)] show ?case by simp
next
  case (event evs dg ev dg')
  from event_weight[OF event.hyps(2) trace_inv[OF assms(1) event.hyps(1)]] event.IH show ?case by auto
qed

section \<open>Something is always under way\<close>

text \<open>Nothing to plan: no task is pending and no channel with listeners is available.\<close>

definition idle :: "graph \<Rightarrow> exec_context \<Rightarrow> bool" where
  "idle g ec \<longleftrightarrow> ec_pending_tasks ec = [] \<and> (\<forall>c \<in> keyset (getTriggerToNodes g). \<not> available_in (ec_channels ec) c)"

lemma consume_channels_off:
  "consume_channels ts chs nt co = (chs', nt', co') \<Longrightarrow> available_in chs' c \<Longrightarrow> available_in chs c \<and> c \<notin> fst ` set ts"
proof (induction ts arbitrary: chs nt co)
  case (Cons t rest)
  obtain c0 ns where t: "t = (c0, ns)" by fastforce
  show ?case
  proof (cases "GetChannel chs c0")
    case None
    with Cons.prems t have "consume_channels rest chs nt co = (chs', nt', co')" by simp
    from Cons.IH[OF this Cons.prems(2)] None t show ?thesis by (auto simp: available_in_def GetChannel_def)
  next
    case (Some ch)
    obtain ch' b where co: "ConsumeIfAvailable ch = (ch', b)" by fastforce
    show ?thesis
    proof (cases b)
      case True
      have "\<not> IsAvailable ch'" using co True by (auto simp: ConsumeIfAvailable_def IsAvailable_def Let_def split: if_splits)
      then have off: "available_in (gput c0 ch' chs) x \<Longrightarrow> available_in chs x \<and> x \<noteq> c0" for x
        by (auto simp: available_in_def split: if_splits)
      obtain nt1 co1 where "consume_channels rest (gput c0 ch' chs) nt1 co1 = (chs', nt', co')"
        using Cons.prems(1) t Some co True by auto
      from Cons.IH[OF this Cons.prems(2)] off[of c] t show ?thesis by simp
    next
      case False
      then have "\<not> IsAvailable ch" using co by (auto simp: ConsumeIfAvailable_def IsAvailable_def Let_def split: if_splits)
      then have "\<not> available_in chs c0" using Some by (simp add: available_in_def GetChannel_def)
      moreover have "consume_channels rest chs nt co = (chs', nt', co')" using Cons.prems(1) t Some co False by simp
      from Cons.IH[OF this Cons.prems(2)] have "available_in chs c \<and> c \<notin> fst ` set rest" .
      ultimately show ?thesis using t by auto
    qed
  qed
qed simp

lemma consume_channels_idle:
  "\<forall>c \<in> fst ` set ts. \<not> available_in chs c \<Longrightarrow> consume_channels ts chs nt co = (chs, nt, co)"
proof (induction ts)
  case (Cons t ts)
  obtain c ns where t: "t = (c, ns)" by fastforce
  show ?case
  proof (cases "GetChannel chs c")
    case (Some ch)
    with Cons.prems t have "\<not> ch_available ch" by (simp add: available_in_def GetChannel_def IsAvailable_def)
    with Some Cons t show ?thesis by (simp add: ConsumeIfAvailable_def)
  qed (use Cons t in simp)
qed simp

lemma create_dag_frame:
  "create_dag_tasks g ns ec = (ec', ts) \<Longrightarrow> ec_channels ec' = ec_channels ec \<and> ec_pending_tasks ec' = ec_pending_tasks ec
     \<and> list_all (\<lambda>t. tk_node_id t \<noteq> []) ts"
proof (induction g ns ec arbitrary: ec' ts rule: create_dag_tasks.induct)
  case (2 g n preds ns ec)
  obtain ec1 t where c: "createDagTask g n preds ec = (ec1, t)" by fastforce
  obtain ec2 us where r: "create_dag_tasks g ns ec1 = (ec2, us)" by fastforce
  have "ec_channels ec1 = ec_channels ec \<and> ec_pending_tasks ec1 = ec_pending_tasks ec \<and> (\<forall>x. t = Some x \<longrightarrow> tk_node_id x \<noteq> [])"
    using c by (auto simp: createDagTask_def split: if_splits option.splits prod.splits)
  with 2(1)[OF c[symmetric] refl r] 2(2) c r show ?case by (auto split: option.splits)
qed simp

lemma planned_idle:
  assumes "planDagTasks g ec = (ec', ts)"
  shows "idle g ec'" "idle g ec \<Longrightarrow> ts = []"
proof -
  obtain chs nt co where co: "consume_channels (getTriggerToNodes g) (ec_channels ec) [] [] = (chs, nt, co)" by (metis prod_cases3)
  let ?ec = "ec\<lparr>ec_pending_tasks := [], ec_channels := chs\<rparr>"
  let ?ns = "map (\<lambda>n. (n, tracePredecessorsForChannels ?ec (case gget nt n of None \<Rightarrow> [] | Some xs \<Rightarrow> xs))) (sort (gkeys nt))"
  obtain ec1 us where cr: "create_dag_tasks g ?ns ?ec = (ec1, us)" by fastforce
  have r: "ec' = clearTraceChannelSources co ec1" "ts = ec_pending_tasks ec @ us"
    using assms co cr by (simp_all add: planDagTasks_def Let_def)
  note f = create_dag_frame[OF cr]
  show "idle g ec'" using consume_channels_off[OF co] f r(1) by (auto simp: idle_def clearTraceChannelSources_def keyset_def)
  assume i: "idle g ec"
  then have "nt = []" using co consume_channels_idle[of "getTriggerToNodes g" "ec_channels ec"] by (simp add: idle_def keyset_def)
  with cr i r(2) show "ts = []" by (simp add: idle_def)
qed

definition dag_idle :: "'s dag \<Rightarrow> bool" where
  "dag_idle dg = idle (en_graph (dg_en dg)) (en_ec (dg_en dg))"

lemma queue_idle: "dag_idle (queuePlannedTasks dg)" "dag_idle dg \<Longrightarrow> dg_ready (queuePlannedTasks dg) = dg_ready dg"
proof -
  obtain ec ts where p: "planDagTasks (en_graph (dg_en dg)) (en_ec (dg_en dg)) = (ec, ts)" by fastforce
  show "dag_idle (queuePlannedTasks dg)" "dag_idle dg \<Longrightarrow> dg_ready (queuePlannedTasks dg) = dg_ready dg"
    using planned_idle[OF p] p by (simp_all add: queuePlannedTasks_def queue_def dag_idle_def)
qed

lemma idle_simps [simp]:
  "dag_idle (dg\<lparr>dg_ready := ts\<rparr>) = dag_idle dg" "dag_idle (startDrainingMaxStep dg) = dag_idle dg"
  "dag_idle (launchTask t k dg) = dag_idle dg" "dag_idle (maybeRequestExternalInterrupt q dg) = dag_idle dg"
  "dag_idle (dg\<lparr>dg_waiting := ws\<rparr>) = dag_idle dg"
  by (simp_all add: dag_idle_def startDrainingMaxStep_def launchTask_def maybeRequestExternalInterrupt_def Let_def)

lemma static_before_idle: "maybeStartStaticInterruptBefore t dg = Return (dg', b) \<Longrightarrow> dag_idle dg' = dag_idle dg"
  by (auto simp: maybeStartStaticInterruptBefore_def run_bind_Return_iff Let_def dag_idle_def idle_def startDrainingInterrupt_def
      startDraining_def split: if_splits option.splits)

lemma start_fields [simp]:
  "dg_in_flight (startDrainingMaxStep dg) = dg_in_flight dg" "dg_pause (startDrainingMaxStep dg) = dg_pause dg"
  "dg_in_flight (launchTask t k dg) = gput (tk_node_id t) (t\<lparr>tk_task_id := tk_node_id t @ ''-'' @ show_int k\<rparr>) (dg_in_flight dg)"
  "dg_pause (launchTask t k dg) = dg_pause dg"
  by (simp_all add: startDrainingMaxStep_def launchTask_def Let_def)

lemma startTask_step:
  assumes "startTask ex env t dg = Return (dg', b)"
  shows "dag_idle dg' = dag_idle dg" "keyset (dg_in_flight dg) \<subseteq> keyset (dg_in_flight dg')" "dg_pause dg' = dg_pause dg"
    "\<not> b \<Longrightarrow> dg_draining dg' \<or> dv_workers env \<le> length (dg_running dg')"
    "b \<Longrightarrow> tk_node_id t \<noteq> [] \<Longrightarrow> tk_node_id t \<in> keyset (dg_in_flight dg')"
proof -
  note f = static_before_frame[of t dg] and i = static_before_idle[of t dg]
  have "dag_idle dg' = dag_idle dg \<and> keyset (dg_in_flight dg) \<subseteq> keyset (dg_in_flight dg') \<and> dg_pause dg' = dg_pause dg
    \<and> (\<not> b \<longrightarrow> dg_draining dg' \<or> dv_workers env \<le> length (dg_running dg'))
    \<and> (b \<longrightarrow> tk_node_id t \<noteq> [] \<longrightarrow> tk_node_id t \<in> keyset (dg_in_flight dg'))"
    using assms
  proof (cases rule: startTask_cases)
    case stop
    with f(1,3,4)[OF stop(1)] i[OF stop(1)] show ?thesis by (simp add: core_def)
  next
    case full
    with f(1,3,4)[OF full(1)] i[OF full(1)] show ?thesis by (simp add: core_def)
  next
    case (limit dg1)
    with f(1,3,4)[OF limit(1)] i[OF limit(1)] show ?thesis by (simp add: core_def)
  next
    case (launch dg1)
    with f(1,3,4)[OF launch(1)] i[OF launch(1)] show ?thesis by (auto simp: core_def)
  qed (auto simp: ghas_keyset)
  then show "dag_idle dg' = dag_idle dg" "keyset (dg_in_flight dg) \<subseteq> keyset (dg_in_flight dg')" "dg_pause dg' = dg_pause dg"
    "\<not> b \<Longrightarrow> dg_draining dg' \<or> dv_workers env \<le> length (dg_running dg')"
    "b \<Longrightarrow> tk_node_id t \<noteq> [] \<Longrightarrow> tk_node_id t \<in> keyset (dg_in_flight dg')" by blast+
qed

lemma start_ready_step:
  assumes "start_ready ex env ts dg = Return dg'"
  shows "dag_idle dg' = dag_idle dg" "keyset (dg_in_flight dg) \<subseteq> keyset (dg_in_flight dg')" "dg_pause dg' = dg_pause dg"
    "dg_ready dg' = [] \<or> dg_draining dg' \<or> dg_pause dg' \<or> dv_workers env \<le> length (dg_running dg')"
proof -
  have "dag_idle dg' = dag_idle dg \<and> keyset (dg_in_flight dg) \<subseteq> keyset (dg_in_flight dg') \<and> dg_pause dg' = dg_pause dg
    \<and> (dg_ready dg' = [] \<or> dg_draining dg' \<or> dg_pause dg' \<or> dv_workers env \<le> length (dg_running dg'))"
    using assms
  proof (induction ts arbitrary: dg)
    case (Cons t ts)
    show ?case
    proof (cases "dg_draining dg \<or> dg_pause dg")
      case True
      then have "dg' = dg\<lparr>dg_ready := t # ts\<rparr>" using Cons.prems by simp
      with True show ?thesis by auto
    next
      case False
      with Cons.prems obtain dg1 b where s: "startTask ex env t dg = Return (dg1, b)"
        and r: "(if b then start_ready ex env ts dg1 else Return (dg1\<lparr>dg_ready := t # ts\<rparr>)) = Return dg'"
        by (auto simp: run_bind_Return_iff)
      note st = startTask_step[OF s]
      show ?thesis
      proof (cases b)
        case True
        with Cons.IH[of dg1] r st(1-3) show ?thesis by auto
      next
        case False
        then have "dg' = dg1\<lparr>dg_ready := t # ts\<rparr>" using r by simp
        with st(1-4) False show ?thesis by auto
      qed
    qed
  qed auto
  then show "dag_idle dg' = dag_idle dg" "keyset (dg_in_flight dg) \<subseteq> keyset (dg_in_flight dg')" "dg_pause dg' = dg_pause dg"
    "dg_ready dg' = [] \<or> dg_draining dg' \<or> dg_pause dg' \<or> dv_workers env \<le> length (dg_running dg')" by blast+
qed

lemma keyset_empty [simp]: "keyset m = {} \<longleftrightarrow> m = []"
  by (simp add: keyset_def)

lemma running_in_flight: "dag_inv ex env start dg \<Longrightarrow> dg_in_flight dg = [] \<Longrightarrow> dg_running dg = []"
  by (auto simp: dag_inv_def core_def tags_def)

text \<open>A round that started with nothing to plan, or while draining or pausing, leaves a task in flight.\<close>

lemma turn_in_flight:
  assumes "dag_turn ex env requested dg = Return (dg', None)" "dag_inv ex env start dg" "0 < dv_workers env"
    "dag_idle dg \<or> dg_draining dg \<or> dg_pause dg \<or> (\<exists>t ts. dg_ready dg = t # ts \<and> tk_node_id t \<noteq> [])"
  shows "dg_in_flight dg' \<noteq> []"
proof -
  let ?dg = "maybeRequestExternalInterrupt requested dg"
  have rq: "dg_draining ?dg = dg_draining dg" "dg_ready ?dg = dg_ready dg" "dg_pause dg \<Longrightarrow> dg_pause ?dg"
    by (simp_all add: maybeRequestExternalInterrupt_def)
  obtain dg1 where s: "start_ready ex env (dg_ready dg) ?dg = Return dg1"
    and f: "tryFinalize ex env (planIfIdle dg1) = Return (dg', None)"
    using assms(1) rq(2) by (auto simp: dag_turn_def startReadyTasks_def run_bind_Return_iff)
  note st = start_ready_step[OF s] and wt = tryFinalize_waits[OF f]
  have fl: "dg_in_flight (planIfIdle dg1) = dg_in_flight dg1"
    by (simp add: planIfIdle_def queuePlannedTasks_def queue_def split: prod.split)
  show ?thesis
  proof
    assume none: "dg_in_flight dg' = []"
    with wt fl have dr: "\<not> dg_draining dg1" "\<not> dg_pause dg1" "dg_ready (planIfIdle dg1) \<noteq> []" "dg_in_flight dg1 = []"
      by (auto simp: planIfIdle_def queuePlannedTasks_def queue_def split: prod.splits if_splits)
    have "dag_inv ex env start ?dg" by (rule inv_core[OF assms(2)]) simp_all
    then have "dag_inv ex env start dg1" using start_ready_inv s by blast
    then have ready: "dg_ready dg1 = []" using st(4) dr assms(3) running_in_flight by fastforce
    have nodr: "\<not> dg_draining ?dg" using start_ready_draining[OF s] dr(1) by blast
    have "\<not> dg_pause ?dg" using st(3) dr(2) by simp
    with assms(4) rq(1,3) nodr have "dag_idle ?dg \<or> (\<exists>t ts. dg_ready dg = t # ts \<and> tk_node_id t \<noteq> [])" by auto
    then show False
    proof
      assume "dag_idle ?dg"
      then have "dg_ready (planIfIdle dg1) = []" using st(1) ready queue_idle(2)[of dg1] by (simp add: planIfIdle_def)
      with dr(3) show False by simp
    next
      assume "\<exists>t ts. dg_ready dg = t # ts \<and> tk_node_id t \<noteq> []"
      then obtain t ts where t: "dg_ready dg = t # ts" "tk_node_id t \<noteq> []" by blast
      with s nodr \<open>\<not> dg_pause ?dg\<close> obtain dg2 b where s2: "startTask ex env t ?dg = Return (dg2, b)"
        and r: "(if b then start_ready ex env ts dg2 else Return (dg2\<lparr>dg_ready := t # ts\<rparr>)) = Return dg1"
        by (auto simp: run_bind_Return_iff)
      show False
      proof (cases b)
        case True
        with startTask_step(5)[OF s2 _ t(2)] r start_ready_step(2)[of ex env ts dg2 dg1] dr(4) show False by auto
      next
        case False
        with r ready show False by auto
      qed
    qed
  qed
qed

lemma handled_ready:
  "let dg' = handleTaskResult forced r dg in dag_idle dg' \<or> dg_draining dg' \<or> dg_pause dg'"
proof -
  let ?dg = "(release_node (tk_node_id (rs_task r)) dg)\<lparr>dg_executed := Suc (dg_executed (release_node (tk_node_id (rs_task r)) dg))\<rparr>"
  obtain dg1 b where st: "maybeStartStaticInterruptAfter (rs_task r) (rs_step r) ?dg = (dg1, b)" by (metis surj_pair)
  show ?thesis using static_after_frame[OF st] st queue_idle(1)[of dg1]
    by (cases "rs_err r"; cases b) (auto simp: handleTaskResult_def Let_def)
qed

lemma begin_in_flight: "begin_event env n dg = Some (Return dg') \<Longrightarrow> keyset (dg_in_flight dg') = keyset (dg_in_flight dg)"
  using begin_core(1)[of env n dg dg'] by (simp add: core_def)

lemma finish_in_flight:
  assumes "finish_event env n dg = Some (Return dg')"
  shows "keyset (dg_in_flight dg') = keyset (dg_in_flight dg)"
proof -
  have "\<exists>dg1. dg' = settle dg1 \<and> dg_in_flight dg1 = dg_in_flight dg"
    using assms by (auto simp: finish_event_def split: option.splits prod.splits task_error.splits)
  then obtain dg1 where dg1: "dg' = settle dg1" "dg_in_flight dg1 = dg_in_flight dg" by blast
  have "core (settle dg1) = core dg1" by simp
  then have "keyset (dg_in_flight (settle dg1)) = keyset (dg_in_flight dg1)" unfolding core_def by blast
  with dg1 show ?thesis by simp
qed

lemma new_named:
  "newDagLoop env start en = Inl dg \<Longrightarrow> dg_ready dg \<noteq> [] \<Longrightarrow> \<exists>t ts. dg_ready dg = t # ts \<and> tk_node_id t \<noteq> []"
proof -
  assume a: "newDagLoop env start en = Inl dg" "dg_ready dg \<noteq> []"
  from newDagLoop_shape[OF a(1)] obtain ns ec0 ec ts where "create_dag_tasks (en_graph en) ns ec0 = (ec, ts)" "dg_ready dg = ts"
    by auto
  with create_dag_frame a(2) show ?thesis by (cases ts) fastforce+
qed

lemma trace_in_flight:
  assumes "newDagLoop env start en = Inl dg0" "dg_ready dg0 \<noteq> []" "0 < dv_workers env" "dag_trace ex env dg0 evs dg"
  shows "dg_in_flight dg \<noteq> []"
  using assms(4)
proof (induction rule: dag_trace.induct)
  case (first requested dg)
  from turn_in_flight[OF first(2) new_inv[OF assms(1)] assms(3)] new_named[OF assms(1,2)] show ?case by blast
next
  case (event evs dg ev dg')
  note inv = trace_inv[OF assms(1) event.hyps(1)]
  show ?case using event.hyps(2)
  proof (cases rule: event_cases)
    case (1 n)
    then show ?thesis using begin_in_flight event.IH by (metis keyset_empty)
  next
    case (2 n)
    then show ?thesis using finish_in_flight event.IH by (metis keyset_empty)
  next
    case (3 forced requested r rs)
    have "dag_idle (handleTaskResult forced r (dg\<lparr>dg_done := rs\<rparr>)) \<or> dg_draining (handleTaskResult forced r (dg\<lparr>dg_done := rs\<rparr>))
        \<or> dg_pause (handleTaskResult forced r (dg\<lparr>dg_done := rs\<rparr>))"
      using handled_ready[of forced r "dg\<lparr>dg_done := rs\<rparr>"] unfolding Let_def .
    with turn_in_flight[OF 3(4) handle_inv[OF inv 3(2)] assms(3)] show ?thesis by blast
  next
    case (4 forced err requested)
    from turn_in_flight[OF 4(3) cancel_inv[OF inv] assms(3)] show ?thesis by simp
  qed
qed

text \<open>A task in flight has an event to come.\<close>

lemma in_flight_moves:
  assumes "dag_inv ex env start dg" "dg_in_flight dg \<noteq> []"
  shows "\<exists>ev. \<not> is_cancel ev \<and> dag_event_step ex env ev dg \<noteq> None"
proof -
  have "dg_running dg \<noteq> [] \<or> dg_done dg \<noteq> []"
    using assms by (auto simp: dag_inv_def core_def tags_def simp flip: keyset_empty)
  then show ?thesis
  proof
    assume "dg_done dg \<noteq> []"
    then obtain r rs where "dg_done dg = r # rs" by (cases "dg_done dg") auto
    then have "dag_event_step ex env (Receives False False) dg \<noteq> None" by (simp add: dag_event_step_def)
    then show ?thesis by (intro exI[of _ "Receives False False"]) simp
  next
    assume "dg_running dg \<noteq> []"
    then obtain r0 where r0: "r0 \<in> set (dg_running dg)" by (cases "dg_running dg") auto
    then obtain r where r: "find (of_node (tk_node_id (rn_task r0))) (dg_running dg) = Some r"
      by (cases "find (of_node (tk_node_id (rn_task r0))) (dg_running dg)") (auto simp: find_None_iff of_node_def)
    let ?n = "tk_node_id (rn_task r0)"
    show ?thesis
    proof (cases "rn_copy r")
      case None
      with r have "dag_event_step ex env (Begins ?n) dg \<noteq> None" by (simp add: dag_event_step_def begin_event_def)
      then show ?thesis by (intro exI[of _ "Begins ?n"]) simp
    next
      case (Some copy)
      with r have "dag_event_step ex env (Finishes ?n) dg \<noteq> None" by (simp add: dag_event_step_def finish_event_def)
      then show ?thesis by (intro exI[of _ "Finishes ?n"]) simp
    qed
  qed
qed

text \<open>
  C6. The eager engine ends.  A run that has something queued at its start never waits in vain: whatever
  the order of the events, some task can begin, finish or be received while it waits; and there are at
  most three such events for every step up to the limit, so waiting ends.
\<close>

theorem dag_never_stuck:
  assumes "newDagLoop env start en = Inl dg0" "dg_ready dg0 \<noteq> []" "0 < dv_workers env" "dag_trace ex env dg0 evs dg"
  shows "(\<exists>ev. \<not> is_cancel ev \<and> dag_event_step ex env ev dg \<noteq> None)
     \<and> length (filter (\<lambda>ev. \<not> is_cancel ev) evs) < 3 * nat (ex_max_steps ex - start)"
proof -
  have "dg_in_flight dg \<noteq> []" by (rule trace_in_flight[OF assms])
  note inv = trace_inv[OF assms(1,4)]
  have busy: "dg_running dg \<noteq> [] \<or> dg_done dg \<noteq> []"
    using inv \<open>dg_in_flight dg \<noteq> []\<close> by (auto simp: dag_inv_def core_def tags_def simp flip: keyset_empty)
  have "0 < weight (ex_max_steps ex) (load dg)"
    using busy by (cases "dg_running dg") (auto simp: load_def)
  with trace_weight[OF assms(1,4)] in_flight_moves[OF inv \<open>dg_in_flight dg \<noteq> []\<close>] show ?thesis by simp
qed

end
