(* ===== verification/Engine_Versions.thy ===== *)
theory Engine_Versions
  imports Engine
begin

text \<open>
  What every reachable state of a run satisfies about channel versions, and what follows for resumed
  runs: their planning by versions never skips a node that the availability of its channels calls for.
\<close>

section \<open>Growth of channels\<close>

text \<open>A channel only moves forward, and becomes available only by moving.\<close>

definition ch_grows :: "channel \<Rightarrow> channel \<Rightarrow> bool" where
  "ch_grows c c' \<longleftrightarrow> ch_version c \<le> ch_version c' \<and> ch_behavior c' = ch_behavior c
     \<and> (IsAvailable c' \<longrightarrow> IsAvailable c \<or> ch_version c < ch_version c')"

definition chans_grow :: "channels \<Rightarrow> channels \<Rightarrow> bool" where
  "chans_grow m m' \<longleftrightarrow> (\<forall>n c. gget m n = Some c \<longrightarrow> (\<exists>c'. gget m' n = Some c' \<and> ch_grows c c'))"

lemma ch_grows_refl [simp, intro]: "ch_grows c c"
  by (simp add: ch_grows_def)

lemma ch_grows_trans: "ch_grows a b \<Longrightarrow> ch_grows b c \<Longrightarrow> ch_grows a c"
  by (auto simp: ch_grows_def)

lemma chans_grow_refl [simp, intro]: "chans_grow m m"
  by (auto simp: chans_grow_def)

lemma chans_grow_trans: "chans_grow a b \<Longrightarrow> chans_grow b c \<Longrightarrow> chans_grow a c"
  unfolding chans_grow_def using ch_grows_trans by metis

lemma Update_grows [simp]: "ch_grows c (fst (Update vs step c))"
  by (auto simp: ch_grows_def Update_def mark_updated_def Let_def split: Behavior.splits)

lemma Acknowledge_grows [simp]: "ch_grows c (Acknowledge c)"
  by (simp add: ch_grows_def Acknowledge_def Let_def IsAvailable_def)

lemma ClearStepMark_grows [simp]: "ch_grows c (ClearStepMark c)"
  by (simp add: ch_grows_def ClearStepMark_def IsAvailable_def)

lemma update_channel_grows [intro]: "(\<And>c. ch_grows c (f c)) \<Longrightarrow> chans_grow m (update_channel n f m)"
  by (auto simp: chans_grow_def update_channel_get)

lemma AddChannel_grows [simp]: "chans_grow m (AddChannel n b m)"
  by (auto simp: chans_grow_def AddChannel_def ghas_def)

lemma fold_ack_grows: "chans_grow m (fold (\<lambda>c. update_channel c Acknowledge) cs m)"
proof (induction cs arbitrary: m)
  case (Cons c cs)
  have "chans_grow m (update_channel c Acknowledge m)" by auto
  from chans_grow_trans[OF this Cons] show ?case by simp
qed simp

lemma wk_update_channel [simp, intro]: "well_keyed m \<Longrightarrow> well_keyed (update_channel n f m)"
  by (auto simp: update_channel_def split: option.splits)

lemma wk_fold_ack: "well_keyed m \<Longrightarrow> well_keyed (fold (\<lambda>c. update_channel c Acknowledge) cs m)"
  by (induction cs arbitrary: m) auto

lemma wk_AddChannel [simp, intro]: "well_keyed m \<Longrightarrow> well_keyed (AddChannel n b m)"
  by (simp add: AddChannel_def)

section \<open>Seen versions\<close>

text \<open>No node has seen more of a channel than the channel's version.\<close>

definition seen_within :: "(string, versions) gomap \<Rightarrow> (string \<Rightarrow> int option) \<Rightarrow> bool" where
  "seen_within seen ver \<longleftrightarrow> (\<forall>n vs c v. gget seen n = Some vs \<longrightarrow> gget vs c = Some v \<longrightarrow> (\<exists>x. ver c = Some x \<and> v \<le> x))"

abbreviation version_in :: "channels \<Rightarrow> string \<Rightarrow> int option" where
  "version_in m c \<equiv> map_option ch_version (gget m c)"

definition seen_le :: "exec_context \<Rightarrow> bool" where
  "seen_le ec \<longleftrightarrow> seen_within (ec_versions_seen ec) (version_in (ec_channels ec))"

lemma seen_within_grow:
  "seen_within seen (version_in m) \<Longrightarrow> chans_grow m m' \<Longrightarrow> seen_within seen (version_in m')"
proof (unfold seen_within_def, intro allI impI)
  fix n vs c v
  assume h: "\<forall>n vs c v. gget seen n = Some vs \<longrightarrow> gget vs c = Some v \<longrightarrow> (\<exists>x. version_in m c = Some x \<and> v \<le> x)"
    and g: "chans_grow m m'" and "gget seen n = Some vs" "gget vs c = Some v"
  then obtain ch where ch: "gget m c = Some ch" "v \<le> ch_version ch" by fastforce
  with g obtain ch' where "gget m' c = Some ch'" "ch_grows ch ch'" unfolding chans_grow_def by blast
  with ch show "\<exists>x. version_in m' c = Some x \<and> v \<le> x" by (auto simp: ch_grows_def)
qed

definition record_seen :: "channels \<Rightarrow> string list \<Rightarrow> versions \<Rightarrow> versions" where
  "record_seen m trs vs = fold (\<lambda>tr vs. case gget m tr of None \<Rightarrow> vs | Some c \<Rightarrow> gput tr (ch_version c) vs) trs vs"

lemma record_seen_get:
  "gget (record_seen m trs vs) c = Some v \<Longrightarrow> gget vs c = Some v \<or> version_in m c = Some v"
  unfolding record_seen_def
proof (induction trs arbitrary: vs)
  case (Cons t trs)
  from Cons.IH[OF Cons.prems[unfolded fold_simps]] show ?case by (auto split: option.splits if_splits)
qed simp

lemma updateVersionsSeen_le: "seen_le ec \<Longrightarrow> seen_le (updateVersionsSeen n trs ec)"
proof -
  assume "seen_le ec"
  then have old: "\<exists>x. version_in (ec_channels ec) c = Some x \<and> v \<le> x"
    if "gget (ec_versions_seen ec) k = Some vs" "gget vs c = Some v" for k vs c v
    using that unfolding seen_le_def seen_within_def by blast
  let ?vs0 = "case gget (ec_versions_seen ec) n of None \<Rightarrow> [] | Some vs \<Rightarrow> vs"
  have new: "\<exists>x. version_in (ec_channels ec) c = Some x \<and> v \<le> x"
    if "gget (record_seen (ec_channels ec) trs ?vs0) c = Some v" for c v
    using record_seen_get[OF that] old[of n _ c v] by (cases "gget (ec_versions_seen ec) n") auto
  show ?thesis
    unfolding seen_le_def seen_within_def
  proof (intro allI impI)
    fix k vs c v
    assume k: "gget (ec_versions_seen (updateVersionsSeen n trs ec)) k = Some vs" "gget vs c = Some v"
    show "\<exists>x. version_in (ec_channels (updateVersionsSeen n trs ec)) c = Some x \<and> v \<le> x"
      using k old[of k vs c v] new[of c v]
      by (auto simp: updateVersionsSeen_def record_seen_def[symmetric] split: if_splits)
  qed
qed

section \<open>Across a step\<close>

text \<open>The part of the state a resumed run plans with, and how a step may change it.\<close>

definition advances :: "graph \<times> exec_context \<Rightarrow> graph \<times> exec_context \<Rightarrow> bool" where
  "advances s s' \<longleftrightarrow> chans_grow (ec_channels (snd s)) (ec_channels (snd s'))
     \<and> (seen_le (snd s) \<longrightarrow> seen_le (snd s'))
     \<and> (well_keyed (ec_channels (snd s)) \<longrightarrow> well_keyed (ec_channels (snd s')))
     \<and> ec_resumed (snd s') = ec_resumed (snd s) \<and> ec_last_checkpoint (snd s') = ec_last_checkpoint (snd s)
     \<and> (well_keyed (g_triggers (fst s)) \<longrightarrow> well_keyed (g_triggers (fst s')))"

lemma advances_refl [simp, intro]: "advances s s"
  by (simp add: advances_def)

lemma advances_trans: "advances a b \<Longrightarrow> advances b c \<Longrightarrow> advances a c"
  unfolding advances_def using chans_grow_trans by (metis (no_types, lifting))

lemma advances_same:
  "ec_channels ec' = ec_channels ec \<Longrightarrow> ec_versions_seen ec' = ec_versions_seen ec \<Longrightarrow> ec_resumed ec' = ec_resumed ec
   \<Longrightarrow> ec_last_checkpoint ec' = ec_last_checkpoint ec \<Longrightarrow> advances (g, ec) (g, ec')"
  by (simp add: advances_def seen_le_def)

lemma advances_channels:
  "chans_grow (ec_channels ec) (ec_channels ec') \<Longrightarrow> (well_keyed (ec_channels ec) \<Longrightarrow> well_keyed (ec_channels ec'))
   \<Longrightarrow> ec_versions_seen ec' = ec_versions_seen ec \<Longrightarrow> ec_resumed ec' = ec_resumed ec
   \<Longrightarrow> ec_last_checkpoint ec' = ec_last_checkpoint ec
   \<Longrightarrow> (well_keyed (g_triggers g) \<longrightarrow> well_keyed (g_triggers g')) \<Longrightarrow> advances (g, ec) (g', ec')"
  by (auto simp: advances_def seen_le_def intro: seen_within_grow)

lemma write_frame2 [simp]:
  "ec_resumed (write_channel ch v tid k s step ec) = ec_resumed ec"
  "ec_last_checkpoint (write_channel ch v tid k s step ec) = ec_last_checkpoint ec"
  by (auto simp: write_channel_def add_pending_def recordTraceChannelSource_def append_source_def
      split: option.splits Behavior.splits)

lemma wk_addNodeTrigger: "well_keyed (g_triggers g) \<Longrightarrow> well_keyed (g_triggers (addNodeTrigger c n g))"
  by (simp add: addNodeTrigger_def Let_def)

interpretation advance: step_frame advances step for step
proof (unfold_locales, goal_cases)
  case (2 a b c)
  then show ?case by (rule advances_trans)
next
  case (5 g ec ch v tid key sid)
  show ?case by (rule advances_channels) (auto intro: update_channel_grows)
next
  case (6 g ec ch n)
  show ?case by (rule advances_channels) (auto simp: graph_addChannel_def intro: wk_addNodeTrigger)
next
  case (8 g ec n trs)
  have "ec_channels (updateVersionsSeen n trs ec) = ec_channels ec" "ec_resumed (updateVersionsSeen n trs ec) = ec_resumed ec"
    "ec_last_checkpoint (updateVersionsSeen n trs ec) = ec_last_checkpoint ec" by (simp_all add: updateVersionsSeen_def)
  with updateVersionsSeen_le[of ec n trs] show ?case by (simp add: advances_def)
qed (auto simp: replace_state_def syncResumeState_def recordTraceStepID_def clearTraceStepID_def intro!: advances_same)

section \<open>Across planning\<close>

text \<open>What planning leaves alone.\<close>

definition plan_frame :: "exec_context \<Rightarrow> exec_context \<Rightarrow> bool" where
  "plan_frame ec ec' \<longleftrightarrow> ec_versions_seen ec' = ec_versions_seen ec \<and> ec_resumed ec' = ec_resumed ec
     \<and> ec_last_checkpoint ec' = ec_last_checkpoint ec \<and> ec_pending_writes ec' = ec_pending_writes ec \<and> ec_seq ec' = ec_seq ec"

lemma plan_frame_refl [simp, intro]: "plan_frame ec ec"
  by (simp add: plan_frame_def)

lemma plan_frame_trans: "plan_frame a b \<Longrightarrow> plan_frame b c \<Longrightarrow> plan_frame a c"
  by (simp add: plan_frame_def)

lemma create_task_frame: "plan_frame ec (fst (createTaskWithPredecessors g n step preds ec))"
  by (auto simp: createTaskWithPredecessors_def plan_frame_def Let_def split: option.splits prod.splits)

lemma create_task_channels [simp]: "ec_channels (fst (createTaskWithPredecessors g n step preds ec)) = ec_channels ec"
  using create_task_props(1) by (metis prod.collapse)

lemma create_tasks_frame: "plan_frame ec (fst (create_tasks g step ns ec)) \<and> ec_channels (fst (create_tasks g step ns ec)) = ec_channels ec"
proof (induction g step ns ec rule: create_tasks.induct)
  case (2 g step n preds ns ec)
  obtain ec1 t where t: "createTaskWithPredecessors g n step preds ec = (ec1, t)" by fastforce
  have "plan_frame ec ec1" "ec_channels ec1 = ec_channels ec"
    using create_task_frame[of ec g n step preds] create_task_channels[of g n step preds ec] t by simp_all
  with 2[OF t[symmetric] refl] t show ?case by (auto simp: case_prod_beta intro: plan_frame_trans)
qed simp

lemma triggered_tasks_frame:
  "plan_frame ec (fst (createTriggeredTasks g step nt ec)) \<and> ec_channels (fst (createTriggeredTasks g step nt ec)) = ec_channels ec"
  by (simp add: createTriggeredTasks_def create_tasks_frame)

lemma acknowledge_frame [simp]: "plan_frame ec (acknowledge_all cs ec)"
  by (simp add: plan_frame_def acknowledge_all_def)

lemma clear_trace_frame [simp]: "plan_frame ec (clearTraceChannelSources cs ec)" "ec_channels (clearTraceChannelSources cs ec) = ec_channels ec"
  by (simp_all add: plan_frame_def clearTraceChannelSources_def)

lemma ack_plan_frame:
  "plan_frame ec (clearTraceChannelSources av (fst (createTriggeredTasks g step nt (acknowledge_all av ec))))
   \<and> ec_channels (clearTraceChannelSources av (fst (createTriggeredTasks g step nt (acknowledge_all av ec))))
      = ec_channels (acknowledge_all av ec)"
proof -
  let ?a = "acknowledge_all av ec"
  let ?b = "fst (createTriggeredTasks g step nt ?a)"
  have "plan_frame ?a ?b" "ec_channels ?b = ec_channels ?a" using triggered_tasks_frame[of ?a g step nt] by simp_all
  then show ?thesis
    using plan_frame_trans[OF acknowledge_frame plan_frame_trans[OF _ clear_trace_frame(1)]] by simp
qed

lemma channel_plan_frame:
  "\<exists>av. plan_frame ec (fst (planBasedOnChannelTriggers g step ec))
      \<and> ec_channels (fst (planBasedOnChannelTriggers g step ec)) = ec_channels (acknowledge_all av ec)"
  using ack_plan_frame
  by (auto simp: planBasedOnChannelTriggers_def planBasedOnVersionTriggers_def planBasedOnAvailabilityTriggers_def
      case_prod_beta Let_def split: option.split)

lemma plan_frame_advances:
  "plan_frame ec ec' \<Longrightarrow> ec_channels ec' = ec_channels (acknowledge_all av ec) \<Longrightarrow> advances (g, ec) (g, ec')"
  by (rule advances_channels) (auto simp: plan_frame_def acknowledge_all_def fold_ack_grows intro: wk_fold_ack)

lemma plan_frame_planned [simp]: "plan_frame (ec\<lparr>ec_planned := x\<rparr>) ec' \<longleftrightarrow> plan_frame ec ec'"
  by (simp add: plan_frame_def)

lemma acknowledge_planned: "ec_channels (acknowledge_all av (ec\<lparr>ec_planned := x\<rparr>)) = ec_channels (acknowledge_all av ec)"
  by (simp add: acknowledge_all_def)

lemma acknowledge_none [simp]: "ec_channels (acknowledge_all [] ec) = ec_channels ec"
  by (simp add: acknowledge_all_def)

lemma plan_tasks_frame:
  assumes "planTasksForBspStep g preds start step ec = Inl (ec', ts)"
  shows "plan_frame ec ec' \<and> (\<exists>av. ec_channels ec' = ec_channels (acknowledge_all av ec))"
proof -
  let ?ec = "ec\<lparr>ec_planned := None\<rparr>"
  have ct: "plan_frame ec (fst (planBasedOnChannelTriggers g step ?ec))
      \<and> (\<exists>av. ec_channels (fst (planBasedOnChannelTriggers g step ?ec)) = ec_channels (acknowledge_all av ec))"
    using channel_plan_frame[of ?ec g step] by (auto simp: acknowledge_planned)
  show ?thesis
  proof (cases "step = 0 \<and> ec_resumed ec \<and> start > 0")
    case True
    with assms ct show ?thesis by (auto simp: planTasksForBspStep_def)
  next
    case False
    then have p: "planStep g preds step ec = Inl (ec', ts)" using assms by (auto simp: planTasksForBspStep_def)
    show ?thesis
    proof (cases "\<exists>n ns. gget (ec_state ec) StateKeyNextNodes = Some (VStrs (Some (n # ns)))")
      case True
      then obtain n ns where nn: "gget (ec_state ec) StateKeyNextNodes = Some (VStrs (Some (n # ns)))" by blast
      let ?c = "create_tasks g step (map (\<lambda>x. (x, preds)) (n # ns)) ?ec"
      have "ec' = (fst ?c)\<lparr>ec_state := gdel StateKeyNextNodes (ec_state (fst ?c))\<rparr>"
        using p nn by (auto simp: planStep_def Let_def case_prod_beta)
      with create_tasks_frame[of ?ec g step "map (\<lambda>x. (x, preds)) (n # ns)"]
      have "plan_frame ec ec'" "ec_channels ec' = ec_channels (acknowledge_all [] ec)"
        by (simp_all add: plan_frame_def)
      then show ?thesis by blast
    next
      case False
      then have "planStep g preds step ec = (if ec_pending_tasks ?ec \<noteq> [] then Inl (?ec\<lparr>ec_pending_tasks := []\<rparr>, ec_pending_tasks ?ec)
           else if step = 0 then
             (if EntryPoint g = [] then Inr NoEntryPoint
              else let (ec, t) = createTaskWithPredecessors g (EntryPoint g) step preds ?ec
                in Inl (ec, case t of None \<Rightarrow> [] | Some t \<Rightarrow> [t]))
           else Inl (planBasedOnChannelTriggers g step ?ec))"
        by (auto simp: planStep_def Let_def split: option.splits gval.splits list.splits)
      with p consider (pending) "ec' = ?ec\<lparr>ec_pending_tasks := []\<rparr>"
        | (entry) "ec' = fst (createTaskWithPredecessors g (EntryPoint g) step preds ?ec)"
        | (channels) "ec' = fst (planBasedOnChannelTriggers g step ?ec)"
        by (auto simp: case_prod_beta Let_def split: if_splits)
      then show ?thesis
      proof cases
        case pending
        then have "plan_frame ec ec'" "ec_channels ec' = ec_channels (acknowledge_all [] ec)" by (simp_all add: plan_frame_def)
        then show ?thesis by blast
      next
        case entry
        then have "plan_frame ec ec'" "ec_channels ec' = ec_channels (acknowledge_all [] ec)"
          using create_task_frame[of ?ec] by simp_all
        then show ?thesis by blast
      qed (use ct in simp)
    qed
  qed
qed

section \<open>Across a superstep\<close>

abbreviation view_of :: "'s engine \<Rightarrow> graph \<times> exec_context" where
  "view_of en \<equiv> (en_graph en, en_ec en)"

lemma clear_marks_advances: "advances (g, ec) (g, clearChannelStepMarks ec)"
proof (rule advances_channels)
  show "chans_grow (ec_channels ec) (ec_channels (clearChannelStepMarks ec))"
    by (auto simp: chans_grow_def clearChannelStepMarks_def gget_map_key)
  show "well_keyed (ec_channels (clearChannelStepMarks ec))" if "well_keyed (ec_channels ec)"
    using that by (simp add: well_keyed_def clearChannelStepMarks_def comp_def case_prod_beta)
qed (simp_all add: clearChannelStepMarks_def)

lemma save_cases:
  assumes save: "createCheckpointAndSave saver g uuid now config source step ec s = Return (ec', r)"
  shows "ec' \<in> {ec, ec\<lparr>ec_pending_writes := []\<rparr>, clearChannelStepMarks (ec\<lparr>ec_pending_writes := []\<rparr>)}"
proof (cases saver)
  case None
  with save show ?thesis by (simp add: createCheckpointAndSave_def)
next
  case (Some ops)
  with save obtain s2 r2 where "(case r2 of Inr e \<Rightarrow> (ec\<lparr>ec_pending_writes := []\<rparr>, config, s2, Some e)
      | Inl updated \<Rightarrow> (clearChannelStepMarks (ec\<lparr>ec_pending_writes := []\<rparr>), updated, s2, None)) = (ec', r)"
    by (auto simp: createCheckpointAndSave_def Let_def run_bind_Return_iff)
  then show ?thesis by (cases r2) auto
qed

lemma save_advances:
  assumes "createCheckpointAndSave saver g uuid now config source step ec s = Return (ec', r)"
  shows "advances (g, ec) (g, ec')"
proof -
  have "advances (g, ec) (g, ec\<lparr>ec_pending_writes := []\<rparr>)" by (rule advances_same) simp_all
  with save_cases[OF assms] show ?thesis using advances_trans[OF _ clear_marks_advances] by auto
qed

lemma loop_checkpoint_advances:
  assumes "maybeCreateLoopCheckpoint ex env step en = Return en'"
  shows "advances (view_of en) (view_of en')"
proof (cases "en_config en")
  case None
  with assms show ?thesis by (simp add: maybeCreateLoopCheckpoint_def)
next
  case (Some config)
  with assms obtain ec config' s e where
    "createCheckpointAndSave (ex_saver ex) (en_graph en) (re_uuid env CheckpointSourceLoop step)
       (re_now env CheckpointSourceLoop step) config CheckpointSourceLoop step (en_ec en) (en_saver en) = Return (ec, config', s, e)"
    "en' = en\<lparr>en_ec := ec, en_config := Some config', en_saver := s\<rparr>"
    by (auto simp: maybeCreateLoopCheckpoint_def run_bind_Return_iff)
  with save_advances show ?thesis by fastforce
qed

text \<open>A step that was executed planned some tasks, ran them without an error and saved a checkpoint.\<close>

lemma executed_step:
  assumes "runBspStep ex env start step en = Return (en', Executed)"
  shows "\<exists>ec ts st ec1. planTasksForBspStep (en_graph en) (re_entry_predecessors env) start step (en_ec en) = Inl (ec, ts)
     \<and> ts \<noteq> [] \<and> maybeStaticInterruptBefore (en_graph en) ts step (ec_state ec) = Return (st, None)
     \<and> executeStep (re_steps env step) step ts (en_graph en, ec\<lparr>ec_state := st\<rparr>) = ((en_graph en', ec1), None)
     \<and> maybeCreateLoopCheckpoint ex env step (en\<lparr>en_graph := en_graph en', en_ec := ec1\<rparr>) = Return en'"
proof -
  obtain ec ts where p: "planTasksForBspStep (en_graph en) (re_entry_predecessors env) start step (en_ec en) = Inl (ec, ts)"
    using assms by (cases "planTasksForBspStep (en_graph en) (re_entry_predecessors env) start step (en_ec en)")
      (auto simp: runBspStep_def)
  have ne: "ts \<noteq> []" and rq: "re_requested env step = None"
    using assms p by (auto simp: runBspStep_def Let_def interrupt_run_def run_bind_Return_iff split: if_splits option.splits)
  obtain st sb where b: "maybeStaticInterruptBefore (en_graph en) ts step (ec_state ec) = Return (st, sb)"
    using assms p ne rq by (auto simp: runBspStep_def Let_def run_bind_Return_iff)
  have sb: "sb = None"
    using assms p ne rq b by (cases sb) (auto simp: runBspStep_def Let_def interrupt_run_def run_bind_Return_iff)
  let ?en = "en\<lparr>en_ec := ec\<lparr>ec_state := st\<rparr>\<rparr>"
  have t: "run_tasks ex env step ts ?en = Return (en', Executed)"
    using assms p ne rq b sb by (simp add: runBspStep_def Let_def)
  obtain g1 ec1 e where x: "executeStep (re_steps env step) step ts (en_graph en, ec\<lparr>ec_state := st\<rparr>) = ((g1, ec1), e)"
    by (metis surj_pair)
  have e: "e = None"
    using t x by (cases e) (auto simp: run_tasks_def Let_def handleExecuteStepError_def interrupt_run_def run_bind_Return_iff
        split: option.splits if_splits)
  have a: "after_step ex env step ts (en\<lparr>en_graph := g1, en_ec := ec1\<rparr>) = Return (en', Executed)"
    using t x e by (simp add: run_tasks_def Let_def)
  have l: "maybeCreateLoopCheckpoint ex env step (en\<lparr>en_graph := g1, en_ec := ec1\<rparr>) = Return en'"
    using a by (auto simp: after_step_def interrupt_run_def run_bind_Return_iff split: option.splits)
  then have "en_graph en' = g1"
    by (auto simp: maybeCreateLoopCheckpoint_def run_bind_Return_iff split: option.splits)
  with p ne b sb x e l show ?thesis by auto
qed

lemma executed_advances:
  assumes "runBspStep ex env start step en = Return (en', Executed)"
  shows "advances (view_of en) (view_of en')"
proof -
  obtain ec ts st ec1 where p: "planTasksForBspStep (en_graph en) (re_entry_predecessors env) start step (en_ec en) = Inl (ec, ts)"
    and x: "executeStep (re_steps env step) step ts (en_graph en, ec\<lparr>ec_state := st\<rparr>) = ((en_graph en', ec1), None)"
    and l: "maybeCreateLoopCheckpoint ex env step (en\<lparr>en_graph := en_graph en', en_ec := ec1\<rparr>) = Return en'"
    using executed_step[OF assms] by blast
  have "advances (view_of en) (en_graph en, ec)"
    using plan_tasks_frame[OF p] plan_frame_advances by blast
  moreover have "advances (en_graph en, ec) (en_graph en, ec\<lparr>ec_state := st\<rparr>)" by (rule advances_same) simp_all
  moreover have "advances (en_graph en, ec\<lparr>ec_state := st\<rparr>) (en_graph en', ec1)"
    using advance.R_step[of "(en_graph en, ec\<lparr>ec_state := st\<rparr>)" "re_steps env step" step ts] x by simp
  moreover have "advances (en_graph en', ec1) (view_of en')"
    using loop_checkpoint_advances[OF l] by simp
  ultimately show ?thesis using advances_trans by blast
qed

text \<open>The engines a run passes through, with the next step to be run.\<close>

inductive reachable :: "('s, 'e) executor \<Rightarrow> run_env \<Rightarrow> int \<Rightarrow> 's engine \<Rightarrow> int \<Rightarrow> 's engine \<Rightarrow> bool"
  for ex env start en0 where
  start: "reachable ex env start en0 start en0"
| step: "reachable ex env start en0 k en \<Longrightarrow> k < ex_max_steps ex
    \<Longrightarrow> runBspStep ex env start k en = Return (en', Executed) \<Longrightarrow> reachable ex env start en0 (k + 1) en'"

lemma reachable_advances: "reachable ex env start en0 k en \<Longrightarrow> advances (view_of en0) (view_of en)"
  by (induction rule: reachable.induct) (auto intro: advances_trans executed_advances)

section \<open>The start of a run\<close>

text \<open>
  A checkpoint a run can resume from: no node has seen more of a channel than the version stored with
  it, the channels nodes have seen are channels of the graph, and the maps have distinct keys.
\<close>

definition consistent_checkpoint :: "graph \<Rightarrow> checkpoint \<Rightarrow> bool" where
  "consistent_checkpoint g ck \<longleftrightarrow> well_keyed (ck_channel_versions ck) \<and> well_keyed (ck_barrier_sets ck)
     \<and> seen_within (ck_versions_seen ck) (gget (ck_channel_versions ck))
     \<and> (\<forall>n vs c. gget (ck_versions_seen ck) n = Some vs \<longrightarrow> c \<in> keyset vs \<longrightarrow> c \<in> keyset (g_channels g))"

lemma fold_update_channels_get:
  "well_keyed xs \<Longrightarrow> gget (fold (\<lambda>(n, x). update_channel n (f x)) xs m) c =
     (case gget xs c of None \<Rightarrow> gget m c | Some x \<Rightarrow> map_option (f x) (gget m c))"
proof (induction xs arbitrary: m)
  case (Cons nx xs)
  obtain n x where nx: "nx = (n, x)" by (cases nx)
  with Cons have "well_keyed xs" "\<not> ghas xs n" by (auto dest: well_keyed_ConsD)
  with Cons.IH[of "update_channel n (f x) m"] nx show ?case
    by (auto simp: update_channel_get ghas_def split: option.split)
qed simp

lemma fold_update_channels_wk: "well_keyed m \<Longrightarrow> well_keyed (fold (\<lambda>(n, x). update_channel n (f x)) xs m)"
  by (induction xs arbitrary: m) auto

text \<open>The channels of a fresh run: those of the graph, new.\<close>

definition run_channel :: "string \<Rightarrow> channel \<Rightarrow> channel" where
  "run_channel n c = (let r = NewChannel n (ch_behavior c)
     in if ch_behavior c = BehaviorBarrier then SetBarrierExpected (ch_barrier_expected c) r else r)"

lemma add_run_channels_get:
  "well_keyed cs \<Longrightarrow> keyset cs \<inter> keyset m = {} \<Longrightarrow> gget (add_run_channels cs m) n =
     (case gget cs n of Some c \<Rightarrow> Some (run_channel n c) | None \<Rightarrow> gget m n)"
proof (induction cs m rule: add_run_channels.induct)
  case (2 name c rest m)
  define m1 where "m1 = (if ch_behavior c \<noteq> BehaviorBarrier then AddChannel name (ch_behavior c) m
            else update_channel name (SetBarrierExpected (ch_barrier_expected c)) (AddChannel name (ch_behavior c) m))"
  have eq: "add_run_channels ((name, c) # rest) m = add_run_channels rest m1" by (simp add: m1_def Let_def)
  have wk: "well_keyed rest" and nr: "\<not> ghas rest name" using well_keyed_ConsD[OF 2(2)] by auto
  have new: "\<not> ghas m name" using 2(3) by (auto simp: ghas_keyset keyset_def)
  have m1: "gget m1 x = (if x = name then Some (run_channel name c) else gget m x)" for x
    using new by (simp add: m1_def run_channel_def update_channel_get AddChannel_def Let_def)
  have "keyset m1 \<subseteq> insert name (keyset m)" using m1 by (auto simp: keyset_get split: if_splits)
  moreover have "keyset ((name, c) # rest) = insert name (keyset rest)" by (simp add: keyset_def)
  moreover have "name \<notin> keyset rest" using nr ghas_keyset by metis
  ultimately have disj: "keyset rest \<inter> keyset m1 = {}" using 2(3) by blast
  have "gget (add_run_channels rest m1) n = (case gget rest n of Some c \<Rightarrow> Some (run_channel n c) | None \<Rightarrow> gget m1 n)"
    by (rule 2(1)[OF refl wk, folded m1_def, OF disj])
  then show ?case unfolding eq using m1 nr by (auto simp: ghas_def split: option.split)
qed simp

lemma add_run_channels_wk: "well_keyed m \<Longrightarrow> well_keyed (add_run_channels cs m)"
  by (induction cs m rule: add_run_channels.induct) (auto simp: Let_def)

lemma run_channels_get:
  "well_keyed (g_channels g) \<Longrightarrow> gget (buildChannelManager g) n = map_option (run_channel n) (gget (g_channels g) n)"
  by (simp add: buildChannelManager_def getAllChannels_def GetAllChannels_def NewChannelManager_def
      add_run_channels_get split: option.split)

lemma run_channel_props [simp]:
  "ch_behavior (run_channel n c) = ch_behavior c" "ch_version (run_channel n c) = 0" "\<not> IsAvailable (run_channel n c)"
  by (simp_all add: run_channel_def NewChannel_def SetBarrierExpected_def IsAvailable_def Let_def)

definition restored_channels :: "graph \<Rightarrow> checkpoint \<Rightarrow> channels" where
  "restored_channels g ck = restoreBarrierSets True (Some ck) (restoreChannelVersions True (Some ck) (buildChannelManager g))"

definition restored_channel :: "checkpoint \<Rightarrow> string \<Rightarrow> channel \<Rightarrow> channel" where
  "restored_channel ck n c =
     (let r = run_channel n c;
          r = (case gget (ck_channel_versions ck) n of None \<Rightarrow> r | Some v \<Rightarrow> r\<lparr>ch_version := v\<rparr>)
      in case gget (ck_barrier_sets ck) n of None \<Rightarrow> r | Some seen \<Rightarrow> SetBarrierSeen seen r)"

lemma restored_channels_get:
  assumes "well_keyed (g_channels g)" "well_keyed (ck_channel_versions ck)" "well_keyed (ck_barrier_sets ck)"
  shows "gget (restored_channels g ck) n = map_option (restored_channel ck n) (gget (g_channels g) n)"
  using assms
  by (simp add: restored_channels_def restoreBarrierSets_def restoreChannelVersions_def fold_update_channels_get
      run_channels_get restored_channel_def[abs_def] Let_def option.map_comp comp_def split: option.split)

lemma restored_channel_props:
  "ch_behavior (restored_channel ck n c) = ch_behavior c"
  "ch_version (restored_channel ck n c) = (case gget (ck_channel_versions ck) n of None \<Rightarrow> 0 | Some v \<Rightarrow> v)"
  "gget (ck_barrier_sets ck) n = None \<Longrightarrow> \<not> IsAvailable (restored_channel ck n c)"
  by (simp_all add: restored_channel_def Let_def SetBarrierSeen_def IsAvailable_def run_channel_def NewChannel_def
      SetBarrierExpected_def split: option.split)

lemma init_channel_grows: "chans_grow m (init_channel up kv m)"
proof -
  have "chans_grow m (update_channel (ChannelInputPrefix @ fst kv) (\<lambda>c. fst (Update [snd kv] StepUnmarked c))
      (AddChannel (ChannelInputPrefix @ fst kv) BehaviorLastValue m))"
    by (rule chans_grow_trans[OF AddChannel_grows update_channel_grows]) simp
  then show ?thesis by (simp add: init_channel_def Let_def)
qed

lemma init_channels_grow: "chans_grow m (fold (init_channel up) st m)"
proof (induction st arbitrary: m)
  case (Cons kv st)
  from chans_grow_trans[OF init_channel_grows Cons] show ?case by simp
qed simp

lemma apply_writes_grow: "chans_grow m (fold apply_write ws m)"
proof (induction ws arbitrary: m)
  case (Cons w ws)
  have "chans_grow m (apply_write w m)" by (auto simp: apply_write_def)
  from chans_grow_trans[OF this Cons] show ?case by simp
qed simp

lemma wk_init_channels: "well_keyed m \<Longrightarrow> well_keyed (fold (init_channel up) st m)"
  by (induction st arbitrary: m) (auto simp: init_channel_def Let_def)

lemma wk_apply_writes: "well_keyed m \<Longrightarrow> well_keyed (fold apply_write ws m)"
  by (induction ws arbitrary: m) (auto simp: apply_write_def)

lemma start_context_channels:
  "ec_channels (start_context g st p) =
     (if pp_resumed p then fold apply_write (sort_key pw_sequence (pp_pending p)) else id)
       (fold (init_channel True) st (ec_channels (buildExecutionContext g st (pp_resumed p) (pp_checkpoint p))))"
  by (cases "pp_pending p = []")
    (simp_all add: start_context_def Let_def applyPendingWrites_def initializeChannels_def buildExecutionContext_def)

lemma start_context_fields:
  "ec_versions_seen (start_context g st p) = restoreVersionsSeen (pp_resumed p) (pp_checkpoint p)"
  "ec_resumed (start_context g st p) = pp_resumed p"
  "ec_last_checkpoint (start_context g st p) = pp_checkpoint p"
  "ec_pending_writes (start_context g st p) = pp_pending p"
  "ec_pending_tasks (start_context g st p) = []"
  "ec_state (start_context g st p) = st"
  by (simp_all add: start_context_def Let_def applyPendingWrites_def initializeChannels_def buildExecutionContext_def)

lemma wk_start_context: "well_keyed (ec_channels (start_context g st p))"
proof -
  have "well_keyed (buildChannelManager g)"
    by (simp add: buildChannelManager_def NewChannelManager_def add_run_channels_wk)
  then have "well_keyed (ec_channels (buildExecutionContext g st (pp_resumed p) (pp_checkpoint p)))"
    by (auto simp: buildExecutionContext_def restoreBarrierSets_def restoreChannelVersions_def fold_update_channels_wk split: option.split)
  from wk_init_channels[OF this] show ?thesis by (cases "pp_resumed p") (simp_all add: start_context_channels wk_apply_writes)
qed

lemma start_context_grows:
  assumes "pp_resumed p" "pp_checkpoint p = Some ck"
  shows "chans_grow (restored_channels g ck) (ec_channels (start_context g st p))"
  unfolding start_context_channels
  using assms chans_grow_trans[OF init_channels_grow apply_writes_grow]
  by (simp add: buildExecutionContext_def restored_channels_def)

section \<open>Versions in every reachable state\<close>

text \<open>Every available channel a node has seen has moved on since, unless it is a barrier.\<close>

definition ahead :: "(string, versions) gomap \<Rightarrow> channels \<Rightarrow> bool" where
  "ahead seen m \<longleftrightarrow> (\<forall>n vs c v. gget seen n = Some vs \<longrightarrow> gget vs c = Some v \<longrightarrow>
     (\<exists>ch. gget m c = Some ch \<and> v \<le> ch_version ch \<and> (IsAvailable ch \<longrightarrow> ch_behavior ch = BehaviorBarrier \<or> v < ch_version ch)))"

lemma ahead_grow:
  assumes "ahead seen m" "chans_grow m m'"
  shows "ahead seen m'"
  unfolding ahead_def
proof (intro allI impI)
  fix n vs c v
  assume "gget seen n = Some vs" "gget vs c = Some v"
  with assms(1) obtain ch where ch: "gget m c = Some ch" "v \<le> ch_version ch"
    "IsAvailable ch \<longrightarrow> ch_behavior ch = BehaviorBarrier \<or> v < ch_version ch" unfolding ahead_def by blast
  with assms(2) obtain ch' where "gget m' c = Some ch'" "ch_grows ch ch'" unfolding chans_grow_def by blast
  with ch show "\<exists>ch. gget m' c = Some ch \<and> v \<le> ch_version ch
      \<and> (IsAvailable ch \<longrightarrow> ch_behavior ch = BehaviorBarrier \<or> v < ch_version ch)"
    by (auto simp: ch_grows_def)
qed

lemma barrier_sets_known:
  "gget (ck_barrier_sets ck) c = None \<or> ch_behavior gc = BehaviorBarrier \<Longrightarrow>
     IsAvailable (restored_channel ck c gc) \<longrightarrow> ch_behavior (restored_channel ck c gc) = BehaviorBarrier"
  using restored_channel_props(1,3)[of ck c gc] by auto

lemma restored_ahead:
  assumes "well_keyed (g_channels g)" "consistent_checkpoint g ck"
    "\<And>c gc. c \<in> keyset (ck_barrier_sets ck) \<Longrightarrow> gget (g_channels g) c = Some gc \<Longrightarrow> ch_behavior gc = BehaviorBarrier"
  shows "ahead (ck_versions_seen ck) (restored_channels g ck)"
  unfolding ahead_def
proof (intro allI impI)
  fix n vs c v
  assume s: "gget (ck_versions_seen ck) n = Some vs" "gget vs c = Some v"
  have ok: "well_keyed (ck_channel_versions ck)" "well_keyed (ck_barrier_sets ck)"
    "seen_within (ck_versions_seen ck) (gget (ck_channel_versions ck))" using assms(2) by (auto simp: consistent_checkpoint_def)
  from ok(3) s obtain x where x: "gget (ck_channel_versions ck) c = Some x" "v \<le> x" unfolding seen_within_def by blast
  have "c \<in> keyset vs" using s(2) by (simp add: keyset_get)
  with assms(2) s(1) have "c \<in> keyset (g_channels g)" unfolding consistent_checkpoint_def by blast
  then obtain gc where gc: "gget (g_channels g) c = Some gc" by (auto simp: keyset_get)
  have "gget (ck_barrier_sets ck) c = None \<or> ch_behavior gc = BehaviorBarrier"
    using assms(3)[OF _ gc] by (cases "gget (ck_barrier_sets ck) c") (auto simp: keyset_get)
  from barrier_sets_known[OF this] restored_channels_get[OF assms(1) ok(1,2), of c] gc x
  show "\<exists>ch. gget (restored_channels g ck) c = Some ch \<and> v \<le> ch_version ch
      \<and> (IsAvailable ch \<longrightarrow> ch_behavior ch = BehaviorBarrier \<or> v < ch_version ch)"
    by (simp add: restored_channel_props)
qed

text \<open>A start of a run: fresh, or resumed from a consistent checkpoint.\<close>

definition good_start :: "graph \<Rightarrow> prepared \<Rightarrow> bool" where
  "good_start g p \<longleftrightarrow> well_keyed (g_channels g) \<and> well_keyed (g_triggers g)
     \<and> (if pp_resumed p
        then (\<exists>ck. pp_checkpoint p = Some ck \<and> consistent_checkpoint g ck
                \<and> (\<forall>c gc. c \<in> keyset (ck_barrier_sets ck) \<longrightarrow> gget (g_channels g) c = Some gc \<longrightarrow> ch_behavior gc = BehaviorBarrier))
        else pp_checkpoint p = None)"

definition start_engine :: "graph \<Rightarrow> state \<Rightarrow> prepared \<Rightarrow> 's \<Rightarrow> 's engine" where
  "start_engine g st p s = \<lparr>en_graph = g, en_ec = start_context g st p, en_config = pp_config p, en_saver = s\<rparr>"

lemma start_seen_le:
  assumes "good_start g p"
  shows "seen_le (start_context g st p)"
proof (cases "pp_resumed p")
  case True
  with assms obtain ck where ck: "pp_checkpoint p = Some ck" "consistent_checkpoint g ck"
    "\<And>c gc. c \<in> keyset (ck_barrier_sets ck) \<Longrightarrow> gget (g_channels g) c = Some gc \<Longrightarrow> ch_behavior gc = BehaviorBarrier"
    by (auto simp: good_start_def)
  have "ahead (ck_versions_seen ck) (ec_channels (start_context g st p))"
    by (rule ahead_grow[OF restored_ahead start_context_grows]) (use assms ck True in \<open>auto simp: good_start_def\<close>)
  then have "seen_within (ck_versions_seen ck) (version_in (ec_channels (start_context g st p)))"
    unfolding ahead_def seen_within_def by fastforce
  with True ck(1) show ?thesis by (simp add: seen_le_def start_context_fields restoreVersionsSeen_def)
next
  case False
  with assms show ?thesis by (simp add: seen_le_def start_context_fields restoreVersionsSeen_def good_start_def seen_within_def)
qed

lemma input_checkpoint_advances:
  assumes "input_checkpoint ex env resumed en = Return en'"
  shows "advances (view_of en) (view_of en')"
proof (cases "en_config en = None \<or> resumed")
  case True
  with assms show ?thesis by (auto simp: input_checkpoint_def split: option.splits)
next
  case False
  then obtain config where "en_config en = Some config" by auto
  with False assms obtain ec config' s e where
    "createCheckpointAndSave (ex_saver ex) (en_graph en) (re_uuid env CheckpointSourceInput (-1))
       (re_now env CheckpointSourceInput (-1)) config CheckpointSourceInput (-1) (en_ec en) (en_saver en) = Return (ec, config', s, e)"
    "en' = en\<lparr>en_ec := ec, en_config := Some config', en_saver := s\<rparr>"
    by (auto simp: input_checkpoint_def run_bind_Return_iff)
  with save_advances show ?thesis by fastforce
qed

lemma run_advances:
  assumes "input_checkpoint ex env (pp_resumed p) (start_engine g st p s) = Return en0"
    "reachable ex env start en0 k en"
  shows "advances (g, start_context g st p) (view_of en)"
  using advances_trans[OF input_checkpoint_advances[OF assms(1)] reachable_advances[OF assms(2)]]
  by (simp add: start_engine_def)


text \<open>The version test of a resumed run passes every available channel.\<close>

lemma run_plans_fully:
  assumes "good_start g p" "input_checkpoint ex env (pp_resumed p) (start_engine g st p s) = Return en0"
    "reachable ex env (first_step p) en0 k en"
    "ec_channels ec = ec_channels (en_ec en)" "ec_resumed ec = ec_resumed (en_ec en)" "ec_last_checkpoint ec = ec_last_checkpoint (en_ec en)"
  shows "map tk_node_id (snd (planBasedOnChannelTriggers (en_graph en) k ec))
     = sorted_list_of_set (triggered (en_graph en) (ec_channels (en_ec en)))"
proof -
  have wkt: "well_keyed (g_triggers (en_graph en))" and wkc: "well_keyed (ec_channels ec)"
    and grow: "chans_grow (ec_channels (start_context g st p)) (ec_channels ec)"
    and keep: "ec_resumed ec = pp_resumed p" "ec_last_checkpoint ec = pp_checkpoint p"
    using run_advances[OF assms(2,3)] assms(1,4-6) wk_start_context
    by (auto simp: advances_def start_context_fields good_start_def)
  have "map tk_node_id (snd (planBasedOnChannelTriggers (en_graph en) k ec)) = sorted_list_of_set (triggered (en_graph en) (ec_channels ec))"
  proof (cases "pp_resumed p")
    case True
    with assms(1) obtain ck where ck: "pp_checkpoint p = Some ck" "consistent_checkpoint g ck"
      "\<And>c gc. c \<in> keyset (ck_barrier_sets ck) \<Longrightarrow> gget (g_channels g) c = Some gc \<Longrightarrow> ch_behavior gc = BehaviorBarrier"
      by (auto simp: good_start_def)
    have "ahead (ck_versions_seen ck) (restored_channels g ck)"
      by (rule restored_ahead) (use assms(1) ck in \<open>auto simp: good_start_def\<close>)
    from ahead_grow[OF ahead_grow[OF this start_context_grows[OF True ck(1)]] grow]
    have ahead: "ahead (ck_versions_seen ck) (ec_channels ec)" .
    show ?thesis
    proof (rule resumed_plan_complete)
      fix c ch n
      assume ch: "gget (ec_channels ec) c = Some ch" "IsAvailable ch" "n \<in> set (subscribers (en_graph en) c)"
      show "ch_behavior ch = BehaviorBarrier \<or> shouldTriggerNode n c (ch_version ch) ck"
      proof (cases "gget (ck_versions_seen ck) n")
        case (Some vs)
        show ?thesis
        proof (cases "gget vs c")
          case (Some v)
          with \<open>gget (ck_versions_seen ck) n = Some vs\<close> ahead ch show ?thesis
            unfolding ahead_def by (fastforce simp: shouldTriggerNode_def)
        qed (simp add: shouldTriggerNode_def \<open>gget (ck_versions_seen ck) n = Some vs\<close>)
      qed (simp add: shouldTriggerNode_def)
    qed (use True ck(1) keep wkc in simp_all)
  next
    case False
    then have "snd (planBasedOnChannelTriggers (en_graph en) k ec) = snd (planBasedOnAvailabilityTriggers (en_graph en) k ec)"
      using keep by (simp add: planBasedOnChannelTriggers_def split: option.split)
    with availability_plan(1)[OF _ wkt, of k ec] show ?thesis by (metis prod.collapse)
  qed
  with assms(4) show ?thesis by simp
qed

text \<open>
  C2. A resumed run loses no work to its version test.  In every state a run reaches, fresh or
  resumed from a consistent checkpoint, planning from the channels picks exactly the existing nodes
  that listen to an available channel, each once and in the order of their names.
\<close>

theorem every_run_plans_fully:
  assumes "good_start g p" "input_checkpoint ex env (pp_resumed p) (start_engine g st p s) = Return en0"
    "reachable ex env (first_step p) en0 k en"
  shows "map tk_node_id (snd (planBasedOnChannelTriggers (en_graph en) k (en_ec en)))
     = sorted_list_of_set (triggered (en_graph en) (ec_channels (en_ec en)))"
  by (rule run_plans_fully[OF assms]) simp_all

section \<open>A resumed run\<close>

text \<open>Two nodes in a row, resumed after the first: its write to the second is still pending.\<close>

definition demo_executor :: "(unit, unit) executor" where
  "demo_executor = \<lparr>ex_saver = None, ex_max_steps = 2\<rparr>"

definition demo_run_env :: run_env where
  "demo_run_env = \<lparr>re_invocation_id = [], re_generated_lineage = ''l'', re_override_keys = [], re_entry_predecessors = [],
     re_uuid = (\<lambda>_ _. ''u''), re_now = (\<lambda>_ _. 0), re_steps = (\<lambda>_. demo_env), re_requested = (\<lambda>_. None),
     re_forced = (\<lambda>_ _. False)\<rparr>"

definition demo_checkpoint :: checkpoint where
  "demo_checkpoint = NewCheckpoint ''c'' 1 None [(branchChannel ''b'', 0)] [(''b'', [(branchChannel ''b'', 0)])]"

definition demo_prepared :: prepared where
  "demo_prepared = \<lparr>pp_state = [], pp_config = None, pp_resumed = True, pp_step = 0, pp_checkpoint = Some demo_checkpoint,
     pp_pending = [\<lparr>pw_task_id = ''a-0'', pw_channel = branchChannel ''b'', pw_value = channelUpdateMarker, pw_sequence = 1\<rparr>]\<rparr>"

abbreviation demo_start :: "unit engine" where
  "demo_start \<equiv> start_engine demo_graph [] demo_prepared ()"

lemma demo_good_start: "good_start demo_graph demo_prepared"
proof -
  have "well_keyed (g_channels demo_graph)" "well_keyed (g_triggers demo_graph)"
    "ghas (g_channels demo_graph) (branchChannel ''b'')" by code_simp+
  then show ?thesis
    by (auto simp: good_start_def demo_prepared_def consistent_checkpoint_def demo_checkpoint_def NewCheckpoint_def
        seen_within_def ghas_keyset well_keyed_def keyset_def split: if_splits)
qed

lemma demo_no_save: "input_checkpoint demo_executor demo_run_env (pp_resumed demo_prepared) demo_start = Return demo_start"
  by (simp add: input_checkpoint_def demo_prepared_def start_engine_def)

text \<open>A task whose node returns nothing and has no conditional edge changes no graph and cannot fail.\<close>

lemma silent_task:
  assumes "\<And>k st. case executeNodeFunction g (tk_node_id t) k st of (st', (NRNil, None)) \<Rightarrow> True | _ \<Rightarrow> False"
    "graph_ConditionalEdge g (tk_node_id t) = None" "tk_overlay t = None"
  shows "\<exists>ec'. executeStep env step [t] (g, ec) = ((g, ec'), None)"
proof -
  have "\<exists>st'. executeNodeFunction g (tk_node_id t) k st = (st', (NRNil, None))" for k st
  proof -
    obtain x a e where x: "executeNodeFunction g (tk_node_id t) k st = (x, a, e)" by (metis surj_pair)
    with assms(1)[of k st] show ?thesis by (cases a; cases e) simp_all
  qed
  then have "\<exists>st'. execute_attempts g ps env (tk_node_id t) step 1 st ec = (st', syncResumeState st' ec, 1, Inl NRNil)" for ps env st ec
    by (subst execute_attempts.simps) (metis (mono_tags, lifting) case_prod_conv option.case(1))
  then obtain f where "\<And>ps env st ec. execute_attempts g ps env (tk_node_id t) step 1 st ec
      = (f ps env st ec, syncResumeState (f ps env st ec) ec, 1, Inl NRNil)" by metis
  with assms(2,3) show ?thesis
    by (simp add: run_task_def executeSingleTask_def buildTaskStateCopy_def Let_def finalize_result_def handleNodeResult_def
        static_writes_def processConditionalEdges_def case_prod_beta)
qed

lemma no_break_points:
  "graph_Node g (tk_node_id t) = None \<or> (\<exists>nd. graph_Node g (tk_node_id t) = Some nd \<and> \<not> nd_interrupt_before nd \<and> \<not> nd_interrupt_after nd)
     \<Longrightarrow> staticInterruptHits g [t] b = []"
  by (auto simp: staticInterruptHits_def keysOfSet_def)

lemma one_task_step:
  assumes "planTasksForBspStep (en_graph en) (re_entry_predecessors env) start k (en_ec en) = Inl (ec, [t])"
    "re_requested env k = None" "\<And>b. staticInterruptHits (en_graph en) [t] b = []"
    "\<And>ec. \<exists>ec'. executeStep (re_steps env k) k [t] (en_graph en, ec) = ((en_graph en, ec'), None)"
    "\<And>ec'. \<exists>en'. maybeCreateLoopCheckpoint ex env k (en\<lparr>en_ec := ec'\<rparr>) = Return en'"
  shows "\<exists>en'. runBspStep ex env start k en = Return (en', Executed)"
proof -
  obtain ec' where x: "executeStep (re_steps env k) k [t] (en_graph en, ec) = ((en_graph en, ec'), None)" using assms(4) by blast
  obtain en' where "maybeCreateLoopCheckpoint ex env k (en\<lparr>en_ec := ec'\<rparr>) = Return en'" using assms(5) by blast
  with assms(1-3) x show ?thesis
    by (simp add: runBspStep_def maybeStaticInterruptBefore_def run_tasks_def Let_def after_step_def maybeStaticInterruptAfter_def
        del: executeStep.simps)
qed

lemma demo_node:
  "case graph_Node demo_graph ''b'' of None \<Rightarrow> False | Some nd \<Rightarrow> \<not> nd_interrupt_before nd \<and> \<not> nd_interrupt_after nd"
  "case executeNodeFunction demo_graph ''b'' k st of (st', (NRNil, None)) \<Rightarrow> True | _ \<Rightarrow> False"
  "graph_ConditionalEdge demo_graph ''b'' = None"
  by code_simp+

lemma demo_planned:
  "case planTasksForBspStep demo_graph [] 1 1 (start_context demo_graph [] demo_prepared) of
     Inl (ec, ts) \<Rightarrow> length ts = 1 \<and> tk_node_id (hd ts) = ''b'' \<and> tk_writes (hd ts) = [] \<and> tk_overlay (hd ts) = None | Inr _ \<Rightarrow> False"
  by code_simp

lemma demo_step:
  assumes "pp_resumed p" "pp_step p = 0" "pp_checkpoint p = Some demo_checkpoint" "pp_pending p = pp_pending demo_prepared"
    "\<And>en. en_config en = pp_config p \<Longrightarrow> en_saver en = s \<Longrightarrow> \<exists>en'. maybeCreateLoopCheckpoint ex demo_run_env 1 en = Return en'"
  shows "\<exists>en. runBspStep ex demo_run_env 1 1 (start_engine demo_graph [] p s) = Return (en, Executed)"
proof -
  have sc: "start_context demo_graph [] p = start_context demo_graph [] demo_prepared"
    using assms(1,3,4) by (simp add: start_context_def demo_prepared_def)
  obtain ec t where p: "planTasksForBspStep demo_graph [] 1 1 (start_context demo_graph [] demo_prepared) = Inl (ec, [t])"
    and t: "tk_node_id t = ''b''" "tk_writes t = []" "tk_overlay t = None"
    using demo_planned
    by (cases "planTasksForBspStep demo_graph [] 1 1 (start_context demo_graph [] demo_prepared)")
      (auto simp: length_Suc_conv)
  show ?thesis
    by (rule one_task_step[of _ _ _ _ ec t])
      (use p sc t demo_node assms(5) silent_task[of demo_graph t] in
        \<open>auto simp: start_engine_def demo_run_env_def no_break_points simp del: executeStep.simps split: option.splits\<close>)
qed

lemma demo_step_plain: "\<exists>en. runBspStep demo_executor demo_run_env 1 1 demo_start = Return (en, Executed)"
  by (rule demo_step) (simp_all add: demo_prepared_def maybeCreateLoopCheckpoint_def)

lemma demo_reachable: "\<exists>en. reachable demo_executor demo_run_env (first_step demo_prepared) demo_start 2 en"
proof -
  obtain en where "runBspStep demo_executor demo_run_env 1 1 demo_start = Return (en, Executed)"
    using demo_step_plain by blast
  moreover have "first_step demo_prepared = 1" by (simp add: first_step_def demo_prepared_def)
  ultimately show ?thesis
    using reachable.step[OF reachable.start, of 1 demo_executor demo_run_env demo_start en]
    by (auto simp: demo_executor_def)
qed


theorem every_run_plans_fully_witness:
  "\<exists>en. reachable demo_executor demo_run_env (first_step demo_prepared) demo_start 1 en
     \<and> map tk_node_id (snd (planBasedOnChannelTriggers (en_graph en) 1 (en_ec en)))
        = sorted_list_of_set (triggered (en_graph en) (ec_channels (en_ec en)))
     \<and> available_in (ec_channels (en_ec en)) (branchChannel ''b'')"
proof -
  have "first_step demo_prepared = 1" by (simp add: first_step_def demo_prepared_def)
  then have r: "reachable demo_executor demo_run_env (first_step demo_prepared) demo_start 1 demo_start"
    using reachable.start by metis
  have "available_in (ec_channels (en_ec demo_start)) (branchChannel ''b'')" by code_simp
  with r every_run_plans_fully[OF demo_good_start demo_no_save r] show ?thesis by blast
qed

end
