(* ===== verification/Engine_Resume.thy ===== *)
theory Engine_Resume
  imports Engine_Versions
begin

text \<open>
  What a resumed run does with the writes of a checkpoint: replaying them makes available what the
  step made available, so the resumed run plans what the uninterrupted run would have planned; and the
  places where the engine's bookkeeping breaks that promise.
\<close>

section \<open>The writes of a step\<close>

text \<open>The effect of a list of writes on the channel \<open>n\<close>.\<close>

definition land :: "int \<Rightarrow> pending_write list \<Rightarrow> string \<Rightarrow> channel \<Rightarrow> channel" where
  "land step ws n ch = fold (\<lambda>w c. if pw_channel w = n then fst (Update [pw_value w] step c) else c) ws ch"

definition written :: "pending_write list \<Rightarrow> string \<Rightarrow> bool" where
  "written ws n \<longleftrightarrow> (\<exists>w \<in> set ws. pw_channel w = n)"

definition sent :: "pending_write list \<Rightarrow> string \<Rightarrow> string set" where
  "sent ws n = {s. \<exists>w \<in> set ws. pw_channel w = n \<and> pw_value w = VStr s}"

lemma written_simps [simp]:
  "\<not> written [] n" "written (w # ws) n \<longleftrightarrow> pw_channel w = n \<or> written ws n" "written (ws @ us) n \<longleftrightarrow> written ws n \<or> written us n"
  by (auto simp: written_def)

lemma sent_simps [simp]:
  "sent [] n = {}" "sent (w # ws) n = (if pw_channel w = n then {s. pw_value w = VStr s} else {}) \<union> sent ws n"
  "\<not> written ws n \<Longrightarrow> sent ws n = {}"
  by (auto simp: sent_def written_def)

lemma land_simps [simp]:
  "land step [] n ch = ch"
  "land step (w # ws) n ch = land step ws n (if pw_channel w = n then fst (Update [pw_value w] step ch) else ch)"
  "land step (ws @ us) n ch = land step us n (land step ws n ch)"
  by (simp_all add: land_def)

lemma land_other: "\<not> written ws n \<Longrightarrow> land step ws n ch = ch"
  by (induction ws arbitrary: ch) auto

lemma Update_kind:
  "ch_behavior (fst (Update vs step c)) = ch_behavior c" "ch_barrier_expected (fst (Update vs step c)) = ch_barrier_expected c"
  by (auto simp: Update_def mark_updated_def Let_def split: Behavior.splits)

lemma Update_one:
  "ch_behavior c \<noteq> BehaviorBarrier \<Longrightarrow> IsAvailable (fst (Update [v] step c))"
  "ch_version (fst (Update [v] step c)) = ch_version c + 1"
  by (cases "ch_behavior c"; simp add: Update_def mark_updated_def Let_def IsAvailable_def)+

lemma land_kind:
  "ch_behavior (land step ws n ch) = ch_behavior ch" "ch_barrier_expected (land step ws n ch) = ch_barrier_expected ch"
  by (induction ws arbitrary: ch) (simp_all add: Update_kind)

lemma land_version: "ch_version ch \<le> ch_version (land step ws n ch) \<and> (written ws n \<longrightarrow> ch_version ch < ch_version (land step ws n ch))"
proof (induction ws arbitrary: ch)
  case (Cons w ws)
  from Cons[of "if pw_channel w = n then fst (Update [pw_value w] step ch) else ch"] show ?case
    by (cases "pw_channel w = n") (simp_all add: Update_one)
qed simp

lemma land_available:
  "ch_behavior ch \<noteq> BehaviorBarrier \<Longrightarrow> IsAvailable (land step ws n ch) \<longleftrightarrow> IsAvailable ch \<or> written ws n"
proof (induction ws arbitrary: ch)
  case (Cons w ws)
  show ?case
  proof (cases "pw_channel w = n")
    case True
    with Cons.prems show ?thesis
      using Cons.IH[of "fst (Update [pw_value w] step ch)"] by (simp add: Update_kind Update_one)
  qed (use Cons in simp)
qed simp

lemma land_barrier:
  "ch_behavior ch = BehaviorBarrier \<Longrightarrow> barrier_seen (land step ws n ch) = barrier_seen ch \<union> sent ws n
     \<and> (IsAvailable (land step ws n ch) \<longleftrightarrow>
          (if written ws n then set (ch_barrier_expected ch) \<subseteq> barrier_seen ch \<union> sent ws n else IsAvailable ch))"
proof (induction ws arbitrary: ch)
  case (Cons w ws)
  have m: "{s. VStr s \<in> set [pw_value w]} = {s. pw_value w = VStr s}" by auto
  note b = barrier_update(1)[OF Cons.prems, of "[pw_value w]" step, unfolded m]
  note a = barrier_update(4)[OF Cons.prems, of "[pw_value w]" step, unfolded m]
  show ?case
  proof (cases "pw_channel w = n")
    case True
    let ?c = "fst (Update [pw_value w] step ch)"
    have IH: "barrier_seen (land step ws n ?c) = barrier_seen ?c \<union> sent ws n
     \<and> (IsAvailable (land step ws n ?c) \<longleftrightarrow>
          (if written ws n then set (ch_barrier_expected ?c) \<subseteq> barrier_seen ?c \<union> sent ws n else IsAvailable ?c))"
      using Cons.prems by (intro Cons.IH) (simp add: Update_kind)
    have "{s. pw_value w = VStr s} \<union> barrier_seen ch \<union> sent ws n = barrier_seen ch \<union> sent (w # ws) n"
      using True by auto
    with IH True show ?thesis unfolding a b Update_kind by (cases "written ws n") (simp_all add: Un_ac)
  next
    case False
    with Cons show ?thesis by simp
  qed
qed simp

section \<open>A step is its writes\<close>

definition born :: "channels \<Rightarrow> string \<Rightarrow> channel" where
  "born m n = (case gget m n of None \<Rightarrow> NewChannel n BehaviorLastValue | Some ch \<Rightarrow> ch)"

text \<open>
  What a step adds to the pending writes is exactly what it did to the channels, and the writes are
  numbered in the order in which they happened.
\<close>

definition wrote :: "int \<Rightarrow> exec_context \<Rightarrow> exec_context \<Rightarrow> pending_write list \<Rightarrow> bool" where
  "wrote step ec ec' ws \<longleftrightarrow> ec_pending_writes ec' = ec_pending_writes ec @ ws \<and> ec_seq ec \<le> ec_seq ec'
     \<and> sorted (map pw_sequence ws) \<and> (\<forall>w \<in> set ws. ec_seq ec < pw_sequence w \<and> pw_sequence w \<le> ec_seq ec')
     \<and> (\<forall>w \<in> set ws. pw_channel w \<in> keyset (ec_channels ec')) \<and> keyset (ec_channels ec) \<subseteq> keyset (ec_channels ec')
     \<and> (\<forall>n ch. gget (ec_channels ec') n = Some ch \<longrightarrow> ch = land step ws n (born (ec_channels ec) n))"

definition replays :: "int \<Rightarrow> graph \<times> exec_context \<Rightarrow> graph \<times> exec_context \<Rightarrow> bool" where
  "replays step s s' \<longleftrightarrow> (\<exists>ws. wrote step (snd s) (snd s') ws)"

lemma wrote_nothing:
  "ec_pending_writes ec' = ec_pending_writes ec \<Longrightarrow> ec_seq ec' = ec_seq ec \<Longrightarrow> ec_channels ec' = ec_channels ec
     \<Longrightarrow> wrote step ec ec' []"
  by (auto simp: wrote_def born_def)

lemma wrote_trans:
  assumes "wrote step a b ws" "wrote step b c us"
  shows "wrote step a c (ws @ us)"
proof -
  have "sorted (map pw_sequence (ws @ us))" using assms by (fastforce simp: wrote_def sorted_append)
  moreover have "ch = land step (ws @ us) n (born (ec_channels a) n)" if "gget (ec_channels c) n = Some ch" for n ch
  proof (cases "gget (ec_channels b) n")
    case None
    then have "\<not> written ws n" "gget (ec_channels a) n = None"
      using assms(1) by (auto simp: wrote_def written_def keyset_get subset_iff)
    moreover have "ch = land step us n (born (ec_channels b) n)" using assms(2) that by (simp add: wrote_def)
    ultimately show ?thesis using None by (simp add: land_other born_def)
  next
    case (Some ch1)
    have "ch = land step us n (born (ec_channels b) n)" using assms(2) that by (simp add: wrote_def)
    moreover have "ch1 = land step ws n (born (ec_channels a) n)" using assms(1) Some by (simp add: wrote_def)
    ultimately show ?thesis by (simp add: born_def[of "ec_channels b"] Some)
  qed
  ultimately show ?thesis using assms unfolding wrote_def by auto
qed

lemma keyset_update_channel [simp]: "keyset (update_channel n f m) = keyset m"
  by (rule set_eqI) (auto simp: keyset_get update_channel_get)

lemma wrote_write:
  "\<exists>ws. wrote step ec (write_channel ch v tid key sid step ec) ws"
proof (cases "gget (ec_channels ec) ch")
  case None
  then have "write_channel ch v tid key sid step ec = ec" by (simp add: write_channel_def GetChannel_def)
  then show ?thesis using wrote_nothing by metis
next
  case (Some c)
  let ?w = "\<lparr>pw_task_id = tid, pw_channel = ch, pw_value = v, pw_sequence = ec_seq ec + 1\<rparr>"
  have "ec_pending_writes (write_channel ch v tid key sid step ec) = ec_pending_writes ec @ [?w]"
    "ec_seq (write_channel ch v tid key sid step ec) = ec_seq ec + 1"
    using Some by (simp_all add: write_channel_def GetChannel_def add_pending_def recordTraceChannelSource_def append_source_def
        split: Behavior.splits)
  then have "wrote step ec (write_channel ch v tid key sid step ec) [?w]"
    using Some by (auto simp: wrote_def born_def update_channel_get keyset_get split: if_splits)
  then show ?thesis ..
qed

interpretation replay: step_frame "replays step" step for step
proof (unfold_locales, goal_cases)
  case (2 a b c)
  then show ?case unfolding replays_def using wrote_trans by blast
next
  case (5 g ec ch v tid key sid)
  then show ?case using wrote_write by (simp add: replays_def)
next
  case (6 g ec ch n)
  have "wrote step ec (ec\<lparr>ec_channels := AddChannel ch BehaviorLastValue (ec_channels ec)\<rparr>) []"
    by (auto simp: wrote_def born_def AddChannel_def keyset_get ghas_def split: option.splits if_splits)
  then show ?case by (auto simp: replays_def)
qed (auto simp: replays_def replace_state_def syncResumeState_def updateVersionsSeen_def recordTraceStepID_def
      clearTraceStepID_def intro!: exI[of _ "[]"] wrote_nothing)

section \<open>The run's channels mirror the graph's\<close>

text \<open>A barrier is available exactly when it is satisfied.\<close>

definition ch_ok :: "channel \<Rightarrow> bool" where
  "ch_ok c \<longleftrightarrow> (ch_behavior c = BehaviorBarrier \<longrightarrow> ch_barrier_expected c \<noteq> [] \<longrightarrow> (IsAvailable c \<longleftrightarrow> isBarrierSatisfied c))
     \<and> (\<forall>n b. gget (ch_barrier_set c) n = Some b \<longrightarrow> b)"

definition same_kind :: "channel \<Rightarrow> channel \<Rightarrow> bool" where
  "same_kind c c' \<longleftrightarrow> ch_behavior c' = ch_behavior c
     \<and> (ch_behavior c = BehaviorBarrier \<longrightarrow> set (ch_barrier_expected c') = set (ch_barrier_expected c))"

definition proper_joins :: "graph \<Rightarrow> bool" where
  "proper_joins g \<longleftrightarrow> (\<forall>n c. gget (g_channels g) n = Some c \<longrightarrow> ch_behavior c = BehaviorBarrier \<longrightarrow>
     ch_barrier_expected c \<noteq> [] \<and> [] \<notin> set (ch_barrier_expected c))"

text \<open>
  A graph whose joins expect somebody and whose subscriptions are to its channels, and a run whose
  channels are of the same kinds, with last-value channels besides.
\<close>

definition graph_ready :: "graph \<Rightarrow> bool" where
  "graph_ready g \<longleftrightarrow> well_keyed (g_channels g) \<and> well_keyed (g_triggers g) \<and> proper_joins g
     \<and> (\<forall>n. subscribers g n \<noteq> [] \<longrightarrow> n \<in> keyset (g_channels g))"

definition mirrored :: "graph \<Rightarrow> channels \<Rightarrow> bool" where
  "mirrored g m \<longleftrightarrow> graph_ready g
     \<and> (\<forall>n gc. gget (g_channels g) n = Some gc \<longrightarrow> (\<exists>ch. gget m n = Some ch \<and> same_kind gc ch))
     \<and> (\<forall>n ch. gget m n = Some ch \<longrightarrow> ch_ok ch \<and> (n \<notin> keyset (g_channels g) \<longrightarrow> ch_behavior ch = BehaviorLastValue))"

lemma same_kind_trans: "same_kind a b \<Longrightarrow> same_kind b c \<Longrightarrow> same_kind a c"
  by (simp add: same_kind_def)

lemma Update_same_kind [simp]: "same_kind c (fst (Update vs step c))"
  by (simp add: same_kind_def Update_kind)

lemma fold_add_sender_True:
  "(\<And>n b. gget m n = Some b \<Longrightarrow> b) \<Longrightarrow> gget (fold add_sender vs m) n = Some b \<Longrightarrow> b"
proof (induction vs arbitrary: m)
  case (Cons v vs)
  show ?case by (rule Cons.IH[OF _ Cons.prems(2)[unfolded fold_simps]]) (use Cons.prems(1) in \<open>auto simp: add_sender_get split: if_splits\<close>)
qed simp

lemma Update_ok [simp]:
  assumes "ch_ok c"
  shows "ch_ok (fst (Update vs step c))"
proof (cases "ch_behavior c = BehaviorBarrier")
  case True
  let ?c = "fst (Update vs step c)"
  have "ch_barrier_set ?c = fold add_sender vs (ch_barrier_set c)" "IsAvailable ?c = isBarrierSatisfied ?c"
    using True by (simp_all add: Update_def Let_def IsAvailable_def isBarrierSatisfied_def)
  with assms show ?thesis using fold_add_sender_True[of "ch_barrier_set c" vs] unfolding ch_ok_def by metis
next
  case False
  have "ch_barrier_set (fst (Update vs step c)) = ch_barrier_set c"
    using False by (cases "ch_behavior c") (simp_all add: Update_def mark_updated_def)
  with False assms show ?thesis by (simp add: ch_ok_def Update_kind)
qed

lemma Acknowledge_ok [simp]: "ch_ok c \<Longrightarrow> ch_ok (Acknowledge c)"
  by (auto simp: ch_ok_def Acknowledge_def Let_def IsAvailable_def isBarrierSatisfied_def list_all_iff neq_Nil_conv)

lemma New_ok [simp]: "ch_ok (NewChannel n b)"
  by (simp add: ch_ok_def NewChannel_def)

lemma mirrored_update:
  assumes "mirrored g m" "\<And>c. ch_ok c \<Longrightarrow> ch_ok (f c)" "\<And>c. same_kind c (f c)"
  shows "mirrored g (update_channel n f m)"
proof -
  have "\<exists>ch. gget (update_channel n f m) k = Some ch \<and> same_kind gc ch" if "gget (g_channels g) k = Some gc" for k gc
  proof -
    from assms(1) that obtain ch where "gget m k = Some ch" "same_kind gc ch" unfolding mirrored_def by blast
    with assms(3) same_kind_trans show ?thesis by (auto simp: update_channel_get)
  qed
  moreover have "ch_ok ch \<and> (k \<notin> keyset (g_channels g) \<longrightarrow> ch_behavior ch = BehaviorLastValue)"
    if k: "gget (update_channel n f m) k = Some ch" for k ch
  proof -
    obtain c0 where "gget m k = Some c0" "ch = c0 \<or> ch = f c0"
      using k by (auto simp: update_channel_get split: if_splits)
    with assms show ?thesis unfolding mirrored_def same_kind_def by metis
  qed
  ultimately show ?thesis using assms(1) unfolding mirrored_def by blast
qed

lemma subscribers_addNodeTrigger:
  "subscribers (addNodeTrigger ch n g) c = (if c = ch \<and> n \<notin> set (subscribers g ch) then subscribers g ch @ [n] else subscribers g c)"
  by (auto simp: subscribers_def addNodeTrigger_def getTriggerToNodes_def Let_def)

lemma mirrored_link:
  assumes "mirrored g m"
  shows "mirrored (addNodeTrigger ch n (graph_addChannel ch BehaviorLastValue g)) (AddChannel ch BehaviorLastValue m)"
proof -
  let ?g = "graph_addChannel ch BehaviorLastValue g"
  have gc: "g_channels (addNodeTrigger ch n ?g) = AddChannel ch BehaviorLastValue (g_channels g)"
    by (simp add: addNodeTrigger_def graph_addChannel_def Let_def)
  have sub: "subscribers ?g = subscribers g" by (simp add: graph_addChannel_def subscribers_def getTriggerToNodes_def fun_eq_iff)
  have key: "keyset (AddChannel ch b x) = insert ch (keyset x)" for b and x :: channels
    by (auto simp: AddChannel_def ghas_keyset)
  have get: "gget (AddChannel ch b x) k = (if k = ch \<and> gget x k = None then Some (NewChannel k b) else gget x k)" for b k and x :: channels
    by (auto simp: AddChannel_def ghas_def)
  have pj: "proper_joins (addNodeTrigger ch n ?g)"
    using assms unfolding mirrored_def graph_ready_def proper_joins_def gc by (auto simp: get split: if_splits)
  have mir: "\<exists>c. gget (AddChannel ch BehaviorLastValue m) k = Some c \<and> same_kind x c"
    if k: "gget (AddChannel ch BehaviorLastValue (g_channels g)) k = Some x" for k x
  proof (cases "gget (g_channels g) k")
    case None
    then have "k = ch" "x = NewChannel ch BehaviorLastValue" using k by (auto simp: get split: if_splits)
    moreover have "ch_behavior c = BehaviorLastValue" if "gget m ch = Some c" for c
      using assms None \<open>k = ch\<close> that unfolding mirrored_def keyset_get by blast
    ultimately show ?thesis by (cases "gget m ch") (auto simp: get same_kind_def)
  next
    case (Some y)
    moreover from Some have "x = y" using k by (simp add: get split: if_splits)
    moreover obtain c where "gget m k = Some c" "same_kind y c" using assms Some unfolding mirrored_def by blast
    ultimately show ?thesis by (simp add: get)
  qed
  have ok: "ch_ok c \<and> (k \<notin> insert ch (keyset (g_channels g)) \<longrightarrow> ch_behavior c = BehaviorLastValue)"
    if "gget (AddChannel ch BehaviorLastValue m) k = Some c" for k c
    using that assms unfolding mirrored_def by (auto simp: get split: if_splits)
  have known: "c \<in> insert ch (keyset (g_channels g))" if "subscribers (addNodeTrigger ch n ?g) c \<noteq> []" for c
    using that assms unfolding mirrored_def graph_ready_def by (auto simp: subscribers_addNodeTrigger sub split: if_splits)
  have "well_keyed (g_triggers (addNodeTrigger ch n ?g))" "well_keyed (g_channels (addNodeTrigger ch n ?g))"
    using assms unfolding mirrored_def graph_ready_def gc by (auto intro!: wk_addNodeTrigger simp: graph_addChannel_def)
  with pj mir ok known show ?thesis unfolding mirrored_def graph_ready_def gc key by blast
qed

definition link_kept :: "graph \<times> exec_context \<Rightarrow> graph \<times> exec_context \<Rightarrow> bool" where
  "link_kept s s' \<longleftrightarrow> (mirrored (fst s) (ec_channels (snd s)) \<longrightarrow> mirrored (fst s') (ec_channels (snd s')))"

interpretation link: step_frame link_kept step for step
  by unfold_locales (auto simp: link_kept_def mirrored_link mirrored_update replace_state_def syncResumeState_def
      updateVersionsSeen_def recordTraceStepID_def clearTraceStepID_def)

lemma mirrored_acknowledge: "mirrored g m \<Longrightarrow> mirrored g (fold (\<lambda>c. update_channel c Acknowledge) cs m)"
proof (induction cs arbitrary: m)
  case (Cons c cs)
  have "mirrored g (update_channel c Acknowledge m)"
    by (rule mirrored_update[OF Cons.prems Acknowledge_ok]) (auto simp: same_kind_def Acknowledge_def Let_def)
  with Cons.IH show ?case by simp
qed simp

lemma mirrored_plan:
  assumes "planTasksForBspStep g preds start step ec = Inl (ec', ts)" "mirrored g (ec_channels ec)"
  shows "mirrored g (ec_channels ec')"
  using plan_tasks_frame[OF assms(1)] assms(2) mirrored_acknowledge by (auto simp: acknowledge_all_def)

section \<open>At the start of a run\<close>

lemma mirrored_templates:
  assumes "graph_ready g" "\<And>n. gget m n = map_option (F n) (gget (g_channels g) n)"
    "\<And>n c. gget (g_channels g) n = Some c \<Longrightarrow> same_kind c (F n c) \<and> ch_ok (F n c)"
  shows "mirrored g m"
  using assms by (auto simp: mirrored_def keyset_get)

lemma run_channel_kind: "same_kind c (run_channel n c)"
  by (simp add: same_kind_def run_channel_def Let_def)

lemma run_channel_ok:
  assumes "ch_behavior c = BehaviorBarrier \<Longrightarrow> ch_barrier_expected c \<noteq> []"
  shows "ch_ok (run_channel n c)"
proof (cases "ch_behavior c = BehaviorBarrier")
  case True
  let ?r = "SetBarrierExpected (ch_barrier_expected c) (NewChannel n BehaviorBarrier)"
  have "set (ch_barrier_expected ?r) \<noteq> {}" using assms True by simp
  then have "\<not> isBarrierSatisfied ?r" by (simp add: isBarrierSatisfied_iff)
  then have "ch_ok ?r" by (auto simp: ch_ok_def SetBarrierExpected_def NewChannel_def IsAvailable_def)
  with True show ?thesis by (simp add: run_channel_def)
qed (simp add: run_channel_def)

lemma SetBarrierSeen_ok: "ch_ok (SetBarrierSeen seen r)"
proof -
  have "gget (fold (\<lambda>name m. if name = [] then m else gput name True m) seen m) n = Some b \<Longrightarrow>
      (\<And>n b. gget m n = Some b \<Longrightarrow> b) \<Longrightarrow> b" for m n b
  proof (induction seen arbitrary: m)
    case (Cons x seen)
    show ?case by (rule Cons.IH[OF Cons.prems(1)[unfolded fold_simps]]) (use Cons.prems(2) in \<open>auto split: if_splits\<close>)
  qed auto
  from this[of "[]"] show ?thesis
    by (auto simp: ch_ok_def SetBarrierSeen_def Let_def IsAvailable_def isBarrierSatisfied_def)
qed

lemma restored_channel_kind: "same_kind c (restored_channel ck n c)"
  using run_channel_kind[of c n]
  by (auto simp: same_kind_def restored_channel_def Let_def SetBarrierSeen_def split: option.splits)

lemma restored_channel_ok:
  assumes "ch_behavior c = BehaviorBarrier \<Longrightarrow> ch_barrier_expected c \<noteq> []"
  shows "ch_ok (restored_channel ck n c)"
proof (cases "gget (ck_barrier_sets ck) n")
  case None
  have "ch_ok (r\<lparr>ch_version := v\<rparr>) = ch_ok r" for r v
    by (simp add: ch_ok_def IsAvailable_def isBarrierSatisfied_def)
  with None run_channel_ok[OF assms, of n] show ?thesis
    by (simp add: restored_channel_def Let_def split: option.split)
qed (simp add: restored_channel_def Let_def SetBarrierSeen_ok)

lemma mirrored_add_channel:
  assumes "mirrored g m"
  shows "mirrored g (AddChannel n BehaviorLastValue m)"
proof -
  have get: "gget (AddChannel n BehaviorLastValue m) k = (if k = n \<and> gget m k = None then Some (NewChannel k BehaviorLastValue) else gget m k)" for k
    by (auto simp: AddChannel_def ghas_def)
  have "\<exists>ch. gget (AddChannel n BehaviorLastValue m) k = Some ch \<and> same_kind gc ch" if "gget (g_channels g) k = Some gc" for k gc
  proof -
    from assms that obtain ch where "gget m k = Some ch" "same_kind gc ch" unfolding mirrored_def by blast
    then show ?thesis by (simp add: get)
  qed
  moreover have "ch_ok ch \<and> (k \<notin> keyset (g_channels g) \<longrightarrow> ch_behavior ch = BehaviorLastValue)"
    if "gget (AddChannel n BehaviorLastValue m) k = Some ch" for k ch
    using that assms unfolding mirrored_def by (auto simp: get split: if_splits)
  ultimately show ?thesis using assms unfolding mirrored_def by blast
qed

lemma mirrored_init: "mirrored g m \<Longrightarrow> mirrored g (fold (init_channel True) st m)"
proof (induction st arbitrary: m)
  case (Cons kv st)
  have "mirrored g (init_channel True kv m)"
    unfolding init_channel_def Let_def by (auto intro!: mirrored_update mirrored_add_channel Cons.prems)
  with Cons.IH show ?case by simp
qed simp

lemma mirrored_apply_writes: "mirrored g m \<Longrightarrow> mirrored g (fold apply_write ws m)"
proof (induction ws arbitrary: m)
  case (Cons w ws)
  have "mirrored g (apply_write w m)" unfolding apply_write_def by (auto intro!: mirrored_update Cons.prems)
  with Cons.IH show ?case by simp
qed simp

text \<open>A checkpoint whose maps have distinct keys.\<close>

definition keyed_checkpoint :: "checkpoint \<Rightarrow> bool" where
  "keyed_checkpoint ck \<longleftrightarrow> well_keyed (ck_channel_versions ck) \<and> well_keyed (ck_barrier_sets ck)"

definition ready_start :: "graph \<Rightarrow> prepared \<Rightarrow> bool" where
  "ready_start g p \<longleftrightarrow> graph_ready g \<and> (pp_resumed p \<longrightarrow> (\<exists>ck. pp_checkpoint p = Some ck \<and> keyed_checkpoint ck))"

lemma mirrored_base:
  assumes "ready_start g p"
  shows "mirrored g (ec_channels (buildExecutionContext g st (pp_resumed p) (pp_checkpoint p)))"
proof (cases "pp_resumed p")
  case True
  with assms obtain ck where ck: "pp_checkpoint p = Some ck" "keyed_checkpoint ck" by (auto simp: ready_start_def)
  have "mirrored g (restored_channels g ck)"
  proof (rule mirrored_templates)
    show "graph_ready g" using assms by (simp add: ready_start_def)
    then show "gget (restored_channels g ck) n = map_option (restored_channel ck n) (gget (g_channels g) n)" for n
      using ck(2) by (intro restored_channels_get) (simp_all add: graph_ready_def keyed_checkpoint_def)
    show "same_kind c (restored_channel ck n c) \<and> ch_ok (restored_channel ck n c)" if "gget (g_channels g) n = Some c" for n c
      using \<open>graph_ready g\<close> that restored_channel_kind restored_channel_ok[of c ck n]
      unfolding graph_ready_def proper_joins_def by blast
  qed
  with True ck(1) show ?thesis by (simp add: buildExecutionContext_def restored_channels_def)
next
  case False
  have "mirrored g (buildChannelManager g)"
  proof (rule mirrored_templates)
    show "graph_ready g" using assms by (simp add: ready_start_def)
    then show "gget (buildChannelManager g) n = map_option (run_channel n) (gget (g_channels g) n)" for n
      by (intro run_channels_get) (simp add: graph_ready_def)
    show "same_kind c (run_channel n c) \<and> ch_ok (run_channel n c)" if "gget (g_channels g) n = Some c" for n c
      using \<open>graph_ready g\<close> that run_channel_kind run_channel_ok[of c n]
      unfolding graph_ready_def proper_joins_def by blast
  qed
  with False show ?thesis
    by (simp add: buildExecutionContext_def restoreBarrierSets_def restoreChannelVersions_def split: option.split)
qed

lemma mirrored_start: "ready_start g p \<Longrightarrow> mirrored g (ec_channels (start_context g st p))"
  unfolding start_context_channels using mirrored_init[OF mirrored_base, of g p st st]
  by (cases "pp_resumed p") (simp_all add: mirrored_apply_writes)

section \<open>Replaying a step\<close>

lemma apply_writes_get: "gget (fold apply_write ws m) n = map_option (land StepUnmarked ws n) (gget m n)"
proof (induction ws arbitrary: m)
  case (Cons w ws)
  show ?case unfolding fold_simps comp_def Cons.IH by (cases "gget m n") (auto simp: apply_write_def update_channel_get)
next
  case Nil
  show ?case by (cases "gget m n") simp_all
qed

text \<open>No node listens to the input channel of a state key.\<close>

definition quiet_inputs :: "graph \<Rightarrow> state \<Rightarrow> bool" where
  "quiet_inputs g st \<longleftrightarrow> (\<forall>kv \<in> set st. subscribers g (ChannelInputPrefix @ fst kv) = [])"

lemma init_channels_get:
  "\<forall>kv \<in> set st. c \<noteq> ChannelInputPrefix @ fst kv \<Longrightarrow> gget (fold (init_channel True) st m) c = gget m c"
proof (induction st arbitrary: m)
  case (Cons kv st)
  then have "gget (init_channel True kv m) c = gget m c"
    by (auto simp: init_channel_def Let_def update_channel_get AddChannel_def)
  with Cons show ?case by simp
qed simp

lemma gget_filter: "well_keyed m \<Longrightarrow> gget (filter P m) k = (case gget m k of None \<Rightarrow> None | Some v \<Rightarrow> if P (k, v) then Some v else None)"
proof (induction m)
  case (Cons x m)
  obtain k' v' where x: "x = (k', v')" by (cases x)
  with Cons have "well_keyed m" "gget m k' = None" by (auto dest: well_keyed_ConsD simp: ghas_def)
  with Cons x show ?case by (auto split: option.splits)
qed simp

lemma snapshot_empty: "BarrierSeenSnapshot c = [] \<longleftrightarrow> ch_barrier_set c = []"
proof -
  have "length (BarrierSeenSnapshot c) = length (ch_barrier_set c)" by (simp add: BarrierSeenSnapshot_def)
  then show ?thesis by auto
qed

lemma barrier_sets_get:
  assumes "well_keyed m"
  shows "gget (barrier_sets m) n = (case gget m n of None \<Rightarrow> None
     | Some c \<Rightarrow> if ch_behavior c = BehaviorBarrier \<and> ch_barrier_set c \<noteq> [] then Some (BarrierSeenSnapshot c) else None)"
  unfolding barrier_sets_def gget_map_key gget_filter[OF assms] snapshot_empty by (cases "gget m n") simp_all

lemma barrier_sets_wk: "well_keyed m \<Longrightarrow> well_keyed (barrier_sets m)"
proof -
  assume "well_keyed m"
  then have "well_keyed (filter P m)" for P by simp
  then show ?thesis by (simp add: barrier_sets_def well_keyed_def comp_def case_prod_beta)
qed

lemma step_checkpoint_fields:
  "ck_barrier_sets (step_checkpoint g uuid now config source step ec) = barrier_sets (ec_channels ec)"
  "gget (ck_channel_versions (step_checkpoint g uuid now config source step ec)) n = version_in (ec_channels ec) n"
  "ck_versions_seen (step_checkpoint g uuid now config source step ec) = ec_versions_seen ec"
  "gkeys (ck_channel_versions (step_checkpoint g uuid now config source step ec)) = gkeys (ec_channels ec)"
  by (auto simp: step_checkpoint_def with_parent_def createCheckpointFromState_def NewCheckpoint_def GetAllChannels_def
      collectChannelVersions_def gget_map_key comp_def case_prod_beta)

lemma step_checkpoint_keyed:
  "well_keyed (ec_channels ec) \<Longrightarrow> keyed_checkpoint (step_checkpoint g uuid now config source step ec)"
  using step_checkpoint_fields(4)[of g uuid now config source step ec] barrier_sets_wk[of "ec_channels ec"]
  by (simp add: keyed_checkpoint_def step_checkpoint_fields(1)) (simp add: well_keyed_def)

lemma restored_barrier:
  assumes "gget (ck_barrier_sets ck) n = Some seen" "ch_behavior c = BehaviorBarrier"
  shows "barrier_seen (restored_channel ck n c) = set seen - {[]}"
    "IsAvailable (restored_channel ck n c) \<longleftrightarrow> set (ch_barrier_expected c) \<subseteq> set seen - {[]}"
proof -
  have "gget (fold (\<lambda>name m. if name = [] then m else gput name True m) xs m) k = Some True \<longleftrightarrow>
      k \<in> set xs - {[]} \<or> gget m k = Some True" for xs k and m :: "(string, bool) gomap"
    by (induction xs arbitrary: m) auto
  then show s: "barrier_seen (restored_channel ck n c) = set seen - {[]}"
    using assms(1) by (auto simp: restored_channel_def Let_def SetBarrierSeen_def barrier_seen_def)
  have "IsAvailable (restored_channel ck n c) \<longleftrightarrow> isBarrierSatisfied (restored_channel ck n c)"
    using assms(1) by (simp add: restored_channel_def Let_def SetBarrierSeen_def IsAvailable_def isBarrierSatisfied_def)
  moreover have "set (ch_barrier_expected (restored_channel ck n c)) = set (ch_barrier_expected c)"
    using restored_channel_kind[of c ck n] assms(2) by (simp add: same_kind_def)
  ultimately show "IsAvailable (restored_channel ck n c) \<longleftrightarrow> set (ch_barrier_expected c) \<subseteq> set seen - {[]}"
    using s by (simp add: isBarrierSatisfied_iff)
qed

lemma ch_ok_seen: "ch_ok c \<Longrightarrow> barrier_seen c = keyset (ch_barrier_set c)"
  by (fastforce simp: ch_ok_def barrier_seen_def keyset_get)

text \<open>
  The context that resumes right after a step was stored: the graph, its writes pending and the
  checkpoint of its channels.
\<close>

definition resumes_from :: "graph \<Rightarrow> exec_context \<Rightarrow> prepared \<Rightarrow> bool" where
  "resumes_from g ec p \<longleftrightarrow> pp_resumed p \<and> pp_pending p = ec_pending_writes ec
     \<and> (\<exists>uuid now config source step. pp_checkpoint p = Some (step_checkpoint g uuid now config source step ec))"

lemma replayed_channel:
  assumes "wrote step ec ec' ws" "ec_pending_writes ec' = ws" "mirrored g (ec_channels ec')" "well_keyed (ec_channels ec')"
    "resumes_from g ec' p" "quiet_inputs g st" "subscribers g c \<noteq> []" "\<not> available_in (ec_channels ec) c"
  shows "available_in (ec_channels (start_context g st p)) c \<longleftrightarrow> available_in (ec_channels ec') c"
    "gget (ec_channels (start_context g st p)) c = Some ch \<Longrightarrow> IsAvailable ch \<Longrightarrow>
       ch_behavior ch = BehaviorBarrier \<or> (\<exists>v. version_in (ec_channels ec') c = Some v \<and> v < ch_version ch)"
proof -
  obtain uuid now config source k where ck0: "pp_checkpoint p = Some (step_checkpoint g uuid now config source k ec')"
    and p: "pp_resumed p" "pp_pending p = ws" using assms(2,5) by (auto simp: resumes_from_def)
  define ck where "ck = step_checkpoint g uuid now config source k ec'"
  have keyed: "keyed_checkpoint ck" unfolding ck_def by (rule step_checkpoint_keyed) (rule assms(4))
  have ready: "graph_ready g" using assms(3) by (simp add: mirrored_def)
  then obtain gc where gc: "gget (g_channels g) c = Some gc" using assms(7) unfolding graph_ready_def keyset_get by blast
  from assms(3) gc obtain ch' where ch': "gget (ec_channels ec') c = Some ch'" "same_kind gc ch'" "ch_ok ch'"
    unfolding mirrored_def by blast
  define b where "b = born (ec_channels ec) c"
  have land: "ch' = land step ws c b" using assms(1) ch'(1) by (simp add: wrote_def b_def)
  have nb: "\<not> IsAvailable b" using assms(8) by (auto simp: b_def born_def available_in_def split: option.splits)
  define r where "r = restored_channel ck c gc"
  have sorted: "sort_key pw_sequence ws = ws"
    using assms(1) by (simp add: wrote_def sort_key_id_if_sorted)
  have quiet: "\<forall>kv \<in> set st. c \<noteq> ChannelInputPrefix @ fst kv" using assms(6,7) by (auto simp: quiet_inputs_def)
  have start: "gget (ec_channels (start_context g st p)) c = Some (land StepUnmarked ws c r)"
  proof -
    have "gget (restored_channels g ck) c = Some r"
      using restored_channels_get[of g ck c] ready keyed gc by (simp add: graph_ready_def keyed_checkpoint_def r_def)
    then show ?thesis using p ck0 quiet sorted
      by (simp add: start_context_channels buildExecutionContext_def restored_channels_def[symmetric] ck_def[symmetric]
          apply_writes_get init_channels_get)
  qed
  have beh: "ch_behavior r = ch_behavior ch'" using ch'(2) restored_channel_kind[of gc ck c] by (simp add: r_def same_kind_def)
  have bs: "gget (ck_barrier_sets ck) c = (if ch_behavior ch' = BehaviorBarrier \<and> ch_barrier_set ch' \<noteq> []
      then Some (BarrierSeenSnapshot ch') else None)"
    using barrier_sets_get[OF assms(4), of c] ch'(1) by (simp add: ck_def step_checkpoint_fields)
  have main: "IsAvailable (land StepUnmarked ws c r) \<longleftrightarrow> IsAvailable ch'"
  proof (cases "ch_behavior ch' = BehaviorBarrier")
    case False
    then have "\<not> IsAvailable r" using restored_channel_props(3)[of ck c gc] bs by (simp add: r_def)
    with False beh nb show ?thesis
      using land_available[of r StepUnmarked ws c] land_available[of b step ws c] land land_kind(1)[of step ws c b] by simp
  next
    case True
    then have bb: "ch_behavior b = BehaviorBarrier" "ch_behavior r = BehaviorBarrier" "ch_behavior gc = BehaviorBarrier"
      using land land_kind(1)[of step ws c b] beh ch'(2) by (simp_all add: same_kind_def)
    have E: "set (ch_barrier_expected r) = set (ch_barrier_expected gc)" "set (ch_barrier_expected ch') = set (ch_barrier_expected gc)"
      using restored_channel_kind[of gc ck c] ch'(2) bb by (simp_all add: r_def same_kind_def)
    have proper: "ch_barrier_expected gc \<noteq> []" "[] \<notin> set (ch_barrier_expected gc)"
      using ready gc bb(3) unfolding graph_ready_def proper_joins_def by blast+
    then have "ch_barrier_expected ch' \<noteq> []" using E(2) by auto
    then have av': "IsAvailable ch' \<longleftrightarrow> set (ch_barrier_expected gc) \<subseteq> barrier_seen ch'"
      using ch'(3) True E(2) by (simp add: ch_ok_def isBarrierSatisfied_iff)
    have sub: "sent ws c \<subseteq> barrier_seen ch'" using land_barrier[OF bb(1), of step ws c] land by auto
    have seen_r: "barrier_seen r = barrier_seen ch' - {[]} \<and> (IsAvailable r \<longleftrightarrow> set (ch_barrier_expected gc) \<subseteq> barrier_seen ch' - {[]})"
    proof (cases "ch_barrier_set ch' = []")
      case True
      then have "barrier_seen ch' = {}" "gget (ck_barrier_sets ck) c = None" using bs by (simp_all add: barrier_seen_def)
      moreover have "barrier_seen r = {}"
        using \<open>gget (ck_barrier_sets ck) c = None\<close> run_channel_kind[of gc c]
        by (auto simp: r_def restored_channel_def Let_def run_channel_def barrier_seen_def NewChannel_def SetBarrierExpected_def split: option.split)
      ultimately show ?thesis using restored_channel_props(3)[of ck c gc] proper(1) by (simp add: r_def)
    next
      case False
      with bs True have "gget (ck_barrier_sets ck) c = Some (BarrierSeenSnapshot ch')" by simp
      from restored_barrier[OF this bb(3)] show ?thesis
        using ch_ok_seen[OF ch'(3)] by (simp add: r_def BarrierSeenSnapshot_def keyset_def)
    qed
    have "IsAvailable (land StepUnmarked ws c r) \<longleftrightarrow> set (ch_barrier_expected gc) \<subseteq> barrier_seen ch'"
      using land_barrier[OF bb(2), of StepUnmarked ws c] seen_r sub proper(2) E(1) by (cases "written ws c") auto
    with av' show ?thesis by simp
  qed
  with start ch'(1) show "available_in (ec_channels (start_context g st p)) c \<longleftrightarrow> available_in (ec_channels ec') c"
    by (simp add: available_in_def)
  assume "gget (ec_channels (start_context g st p)) c = Some ch" "IsAvailable ch"
  with start have ch: "ch = land StepUnmarked ws c r" "IsAvailable (land StepUnmarked ws c r)" by auto
  show "ch_behavior ch = BehaviorBarrier \<or> (\<exists>v. version_in (ec_channels ec') c = Some v \<and> v < ch_version ch)"
  proof (cases "ch_behavior ch' = BehaviorBarrier")
    case True
    with ch(1) beh land_kind(1) show ?thesis by metis
  next
    case False
    then have "\<not> IsAvailable r" using restored_channel_props(3)[of ck c gc] bs by (simp add: r_def)
    with ch(2) False beh have "written ws c" using land_available[of r StepUnmarked ws c] by simp
    then have "ch_version r < ch_version ch" using land_version[of r StepUnmarked ws c] ch(1) by simp
    moreover have "ch_version r = ch_version ch'"
      using ch'(1) by (simp add: r_def restored_channel_props(2) ck_def step_checkpoint_fields)
    ultimately show ?thesis using ch'(1) by simp
  qed
qed

text \<open>Nothing a node listens to is left available.\<close>

definition drained :: "graph \<Rightarrow> exec_context \<Rightarrow> bool" where
  "drained g ec \<longleftrightarrow> (\<forall>c. available_in (ec_channels ec) c \<longrightarrow> subscribers g c = [])"

lemma resumed_plan_of_step:
  assumes "mirrored g (ec_channels ec)" "well_keyed (ec_channels ec)" "seen_le ec" "ec_pending_writes ec = []"
    "executeStep env step ts (g, ec) = ((g', ec'), e)" "drained g' ec" "resumes_from g' ec' p" "quiet_inputs g' st"
  shows "map tk_node_id (snd (planBasedOnChannelTriggers g' k (start_context g' st p)))
     = sorted_list_of_set (triggered g' (ec_channels ec'))"
proof -
  let ?m = "ec_channels (start_context g' st p)"
  obtain ws where w: "wrote step ec ec' ws"
    using replay.R_step[of step "(g, ec)" env ts] assms(5) by (auto simp: replays_def)
  then have pend: "ec_pending_writes ec' = ws" using assms(4) by (simp add: wrote_def)
  have mir: "mirrored g' (ec_channels ec')" using link.R_step[of "(g, ec)" env step ts] assms(1,5) by (simp add: link_kept_def)
  have adv: "seen_le ec'" "well_keyed (ec_channels ec')"
    using advance.R_step[of "(g, ec)" env step ts] assms(2,3,5) by (simp_all add: advances_def)
  have "\<not> available_in (ec_channels ec) c" if "subscribers g' c \<noteq> []" for c using assms(6) that by (auto simp: drained_def)
  note rep = replayed_channel[OF w pend mir adv(2) assms(7,8) _ this]
  have "triggered g' ?m = triggered g' (ec_channels ec')"
  proof -
    have "(available_in ?m c \<and> n \<in> set (subscribers g' c)) = (available_in (ec_channels ec') c \<and> n \<in> set (subscribers g' c))" for c n
      using rep(1)[of c] by (cases "subscribers g' c = []") auto
    then show ?thesis by (simp add: triggered_def)
  qed
  moreover have "map tk_node_id (snd (planBasedOnChannelTriggers g' k (start_context g' st p))) = sorted_list_of_set (triggered g' ?m)"
  proof -
    obtain ck where ck: "pp_checkpoint p = Some ck" "pp_resumed p" "ck_versions_seen ck = ec_versions_seen ec'"
      using assms(7) by (auto simp: resumes_from_def step_checkpoint_fields)
    have "ch_behavior ch = BehaviorBarrier \<or> shouldTriggerNode n c (ch_version ch) ck"
      if h: "gget ?m c = Some ch" "IsAvailable ch" "n \<in> set (subscribers g' c)" for c ch n
    proof -
      from h(3) have "subscribers g' c \<noteq> []" by auto
      from rep(2)[OF this this h(1,2)] show ?thesis
      proof
        assume "\<exists>v. version_in (ec_channels ec') c = Some v \<and> v < ch_version ch"
        then obtain v where v: "version_in (ec_channels ec') c = Some v" "v < ch_version ch" by blast
        have "x < ch_version ch" if "gget (ec_versions_seen ec') n = Some vs" "gget vs c = Some x" for vs x
          using adv(1) that v unfolding seen_le_def seen_within_def by fastforce
        then show ?thesis by (simp add: shouldTriggerNode_def ck(3) split: option.split)
      qed simp
    qed
    then show ?thesis by (intro resumed_plan_complete[of _ ck]) (simp_all add: start_context_fields ck wk_start_context)
  qed
  ultimately show ?thesis by simp
qed

lemma plan_after_first:
  assumes "gget (ec_state ec) StateKeyNextNodes = None" "ec_pending_tasks ec = []" "k \<noteq> 0"
  shows "planTasksForBspStep g preds start k ec = Inl (planBasedOnChannelTriggers g k (ec\<lparr>ec_planned := None\<rparr>))"
  using assms by (simp add: planTasksForBspStep_def planStep_def)

lemma start_context_planned [simp]: "(start_context g st p)\<lparr>ec_planned := None\<rparr> = start_context g st p"
  by (simp add: start_context_def Let_def applyPendingWrites_def initializeChannels_def buildExecutionContext_def)

lemma clear_marks_mirrored: "mirrored g (ec_channels ec) \<Longrightarrow> mirrored g (ec_channels (clearChannelStepMarks ec))"
proof -
  have "same_kind a b = same_kind a (ClearStepMark b)" "ch_ok b = ch_ok (ClearStepMark b)"
    "ch_behavior (ClearStepMark b) = ch_behavior b" for a b
    by (simp_all add: same_kind_def ClearStepMark_def ch_ok_def IsAvailable_def isBarrierSatisfied_def)
  then show "mirrored g (ec_channels ec) \<Longrightarrow> mirrored g (ec_channels (clearChannelStepMarks ec))"
    unfolding mirrored_def clearChannelStepMarks_def by (fastforce simp: gget_map_key)
qed

lemma save_mirrored:
  assumes "createCheckpointAndSave saver g uuid now config source step ec s = Return (ec', r)" "mirrored h (ec_channels ec)"
  shows "mirrored h (ec_channels ec')"
  using save_cases[OF assms(1)] assms(2) clear_marks_mirrored[of h "ec\<lparr>ec_pending_writes := []\<rparr>"] by auto

lemma loop_checkpoint_mirrored:
  assumes "maybeCreateLoopCheckpoint ex env step en = Return en'" "mirrored h (ec_channels (en_ec en))"
  shows "mirrored h (ec_channels (en_ec en'))"
proof (cases "en_config en")
  case None
  with assms show ?thesis by (simp add: maybeCreateLoopCheckpoint_def)
next
  case (Some config)
  with assms(1) obtain ec r where "createCheckpointAndSave (ex_saver ex) (en_graph en) (re_uuid env CheckpointSourceLoop step)
       (re_now env CheckpointSourceLoop step) config CheckpointSourceLoop step (en_ec en) (en_saver en) = Return (ec, r)"
    "en_ec en' = ec"
    by (auto simp: maybeCreateLoopCheckpoint_def run_bind_Return_iff)
  with save_mirrored[OF this(1) assms(2)] show ?thesis by simp
qed

lemma input_checkpoint_mirrored:
  assumes "input_checkpoint ex env resumed en = Return en'" "mirrored h (ec_channels (en_ec en))"
  shows "mirrored h (ec_channels (en_ec en')) \<and> en_graph en' = en_graph en"
proof (cases "en_config en = None \<or> resumed")
  case True
  with assms show ?thesis by (auto simp: input_checkpoint_def split: option.splits)
next
  case False
  then obtain config where "en_config en = Some config" by auto
  with False assms(1) obtain ec r where "createCheckpointAndSave (ex_saver ex) (en_graph en) (re_uuid env CheckpointSourceInput (-1))
       (re_now env CheckpointSourceInput (-1)) config CheckpointSourceInput (-1) (en_ec en) (en_saver en) = Return (ec, r)"
    "en_ec en' = ec" "en_graph en' = en_graph en"
    by (auto simp: input_checkpoint_def run_bind_Return_iff)
  with save_mirrored[OF this(1) assms(2)] show ?thesis by simp
qed

lemma executed_mirrored:
  assumes "runBspStep ex env start step en = Return (en', Executed)" "mirrored (en_graph en) (ec_channels (en_ec en))"
  shows "mirrored (en_graph en') (ec_channels (en_ec en'))"
proof -
  obtain ec ts st ec1 where p: "planTasksForBspStep (en_graph en) (re_entry_predecessors env) start step (en_ec en) = Inl (ec, ts)"
    and x: "executeStep (re_steps env step) step ts (en_graph en, ec\<lparr>ec_state := st\<rparr>) = ((en_graph en', ec1), None)"
    and l: "maybeCreateLoopCheckpoint ex env step (en\<lparr>en_graph := en_graph en', en_ec := ec1\<rparr>) = Return en'"
    using executed_step[OF assms(1)] by blast
  have "mirrored (en_graph en') (ec_channels ec1)"
    using link.R_step[of "(en_graph en, ec\<lparr>ec_state := st\<rparr>)" "re_steps env step" step ts] x mirrored_plan[OF p assms(2)]
    by (simp add: link_kept_def)
  with loop_checkpoint_mirrored[OF l] show ?thesis by simp
qed

lemma reachable_mirrored:
  "reachable ex env start en0 k en \<Longrightarrow> mirrored (en_graph en0) (ec_channels (en_ec en0))
     \<Longrightarrow> mirrored (en_graph en) (ec_channels (en_ec en))"
  by (induction rule: reachable.induct) (auto intro: executed_mirrored)

lemma run_mirrored:
  assumes "ready_start g p" "input_checkpoint ex env (pp_resumed p) (start_engine g st p s) = Return en0"
    "reachable ex env start en0 k en"
  shows "mirrored (en_graph en) (ec_channels (en_ec en))"
  using input_checkpoint_mirrored[OF assms(2), of g] mirrored_start[OF assms(1)] reachable_mirrored[OF assms(3)]
  by (simp add: start_engine_def)


section \<open>Resuming a first step\<close>

definition fresh_prepared :: prepared where
  "fresh_prepared = fresh_start demo_graph [] None"

definition after_first :: "graph \<Rightarrow> exec_context \<Rightarrow> prepared" where
  "after_first g ec = \<lparr>pp_state = [], pp_config = None, pp_resumed = True, pp_step = 0,
     pp_checkpoint = Some (step_checkpoint g ''u'' 0 [] CheckpointSourceLoop 0 ec), pp_pending = ec_pending_writes ec\<rparr>"

lemma fresh_ready: "good_start demo_graph fresh_prepared \<and> ready_start demo_graph fresh_prepared"
proof -
  have "well_keyed (g_channels demo_graph)" "well_keyed (g_triggers demo_graph)" by code_simp+
  moreover have "list_all (\<lambda>(n, c). ch_behavior c \<noteq> BehaviorBarrier) (g_channels demo_graph)"
    "list_all (\<lambda>(n, ns). ghas (g_channels demo_graph) n) (g_triggers demo_graph)" by code_simp+
  then have "proper_joins demo_graph" "subscribers demo_graph n \<noteq> [] \<Longrightarrow> n \<in> keyset (g_channels demo_graph)" for n
    by (auto simp: proper_joins_def list_all_iff subscribers_def getTriggerToNodes_def ghas_keyset
        dest!: map_of_SomeD split: option.splits)
  ultimately show ?thesis
    by (simp add: good_start_def ready_start_def graph_ready_def fresh_prepared_def fresh_start_def)
qed

lemma fresh_plan:
  "case planTasksForBspStep demo_graph [] 0 0 (start_context demo_graph [] fresh_prepared) of
     Inl (ec, ts) \<Rightarrow> map tk_node_id ts = [''a''] \<and> list_all (\<lambda>(n, c). \<not> IsAvailable c) (ec_channels ec) | Inr _ \<Rightarrow> False"
  by code_simp


end
