(* ===== verification/Graph_Ready.thy ===== *)
theory Graph_Ready
  imports Engine_Resume
begin

text \<open>
  Every graph the builder hands out meets what the theorems about runs ask of a graph: distinct keys,
  subscriptions to existing channels only, joins that expect somebody, and no listener on the input
  channels of the state.
\<close>

section \<open>What building keeps\<close>

definition tidy :: "graph \<Rightarrow> bool" where
  "tidy g \<longleftrightarrow> well_keyed (g_channels g) \<and> well_keyed (g_triggers g) \<and> proper_joins g
     \<and> (\<forall>n c. gget (g_channels g) n = Some c \<longrightarrow> ch_behavior c = BehaviorBarrier \<longrightarrow> take 5 n = ''join:'')
     \<and> (\<forall>n \<in> keyset (g_triggers g). take 6 n \<noteq> ''input:'')"

lemma tidy_same: "g_channels g' = g_channels g \<Longrightarrow> g_triggers g' = g_triggers g \<Longrightarrow> tidy g' = tidy g"
  by (simp add: tidy_def proper_joins_def)

lemma update_node_same [simp]:
  "g_channels (update_node n f g) = g_channels g" "g_triggers (update_node n f g) = g_triggers g"
  by (auto simp: update_node_def split: option.splits)

lemma tidy_writer [simp]: "tidy (addNodeWriter n w g) = tidy g"
  by (rule tidy_same) (simp_all add: addNodeWriter_def)

lemma tidy_trigger_channel [simp]: "tidy (addNodeTriggerChannel n ch g) = tidy g"
  by (rule tidy_same) (simp_all add: addNodeTriggerChannel_def)

lemma tidy_add_channel:
  assumes "tidy g"
  shows "tidy (graph_addChannel n BehaviorLastValue g)"
proof -
  have "gget (AddChannel n BehaviorLastValue m) k = (if k = n \<and> gget m k = None then Some (NewChannel k BehaviorLastValue) else gget m k)"
    for k and m :: channels by (auto simp: AddChannel_def ghas_def)
  with assms show ?thesis
    by (auto simp: tidy_def proper_joins_def graph_addChannel_def split: if_splits)
qed

lemma tidy_trigger:
  "tidy g \<Longrightarrow> take 6 ch \<noteq> ''input:'' \<Longrightarrow> tidy (addNodeTrigger ch n g)"
  by (auto simp: tidy_def proper_joins_def addNodeTrigger_def Let_def)

lemma addEdge_tidy: "addEdge e g = (g', r) \<Longrightarrow> tidy g' = tidy g"
  by (auto simp: addEdge_def split: if_splits intro!: tidy_same)

lemma add_edges_tidy: "add_edges as b g = (g', r) \<Longrightarrow> tidy g' = tidy g"
  by (induction as b g rule: add_edges.induct) (auto split: prod.splits option.splits simp: addEdge_tidy)

lemma AddNode_tidy: "tidy (sg_graph sg) \<Longrightarrow> tidy (sg_graph (AddNode n f opts sg))"
proof -
  assume t: "tidy (sg_graph sg)"
  obtain g r where a: "addNode ((fold (\<lambda>opt nd. opt nd) opts (new_node n f))\<lparr>nd_function := Some f\<rparr>) (sg_graph sg) = (g, r)" by fastforce
  then have "tidy g = tidy (sg_graph sg)" by (intro tidy_same) (auto simp: addNode_def split: if_splits)
  with t a show ?thesis by (cases r) (simp_all add: AddNode_def addBuildError_def tidy_add_channel)
qed

lemma AddEdge_tidy: "tidy (sg_graph sg) \<Longrightarrow> tidy (sg_graph (AddEdge a b sg))"
proof -
  assume t: "tidy (sg_graph sg)"
  obtain g r where a: "addEdge \<lparr>e_from = a, e_to = b\<rparr> (sg_graph sg) = (g, r)" by fastforce
  with t have "tidy g" using addEdge_tidy by blast
  moreover have "take 6 (branchChannel b) \<noteq> ''input:''" by (simp add: branchChannel_def)
  ultimately show ?thesis using a
    by (cases r) (simp_all add: AddEdge_def addBuildError_def Let_def tidy_add_channel tidy_trigger)
qed

lemma starts_named: "[] \<notin> set (normalizeJoinStarts ns)"
  by (auto simp: normalizeJoinStarts_def)

lemma join_tidy:
  assumes "tidy g" "starts \<noteq> []" "[] \<notin> set starts"
  shows "tidy (set_expected (joinChannelName h b starts) starts (graph_addChannel (joinChannelName h b starts) BehaviorBarrier g))"
proof -
  let ?n = "joinChannelName h b starts"
  have get: "gget (AddChannel ?n BehaviorBarrier m) k = (if k = ?n \<and> gget m k = None then Some (NewChannel k BehaviorBarrier) else gget m k)"
    for k and m :: channels by (auto simp: AddChannel_def ghas_def)
  obtain c where c: "gget (AddChannel ?n BehaviorBarrier (g_channels g)) ?n = Some c"
    by (cases "gget (g_channels g) ?n") (simp_all add: get)
  have "set (ch_barrier_expected (SetBarrierExpected starts c)) = set starts" by simp
  with assms(2,3) have e: "ch_barrier_expected (SetBarrierExpected starts c) \<noteq> []" "[] \<notin> set (ch_barrier_expected (SetBarrierExpected starts c))"
    by (metis set_empty)+
  have name: "take 5 ?n = ''join:''" by (simp add: joinChannelName_def)
  show ?thesis
    using assms(1) c e name
    by (auto simp: tidy_def proper_joins_def set_expected_def getChannel_def GetChannel_def graph_addChannel_def get split: if_splits)
qed

lemma AddJoinEdge_tidy: "tidy (sg_graph sg) \<Longrightarrow> tidy (sg_graph (AddJoinEdge h ns b sg))"
proof -
  assume t: "tidy (sg_graph sg)"
  let ?s = "normalizeJoinStarts ns"
  let ?ch = "joinChannelName h b ?s"
  obtain g r where a: "add_edges ?s b (sg_graph sg) = (g, r)" by fastforce
  then have tg: "tidy g" using t add_edges_tidy by blast
  have name: "take 6 ?ch \<noteq> ''input:''" by (simp add: joinChannelName_def)
  have fold: "tidy (fold (\<lambda>a. addNodeWriter a (w a)) xs g0) = tidy g0" for w xs g0 by (induction xs arbitrary: g0) simp_all
  show ?thesis
  proof (cases "?s = []")
    case False
    from join_tidy[OF tg False starts_named] name a t tg show ?thesis
      by (auto simp: AddJoinEdge_def Let_def addBuildError_def fold tidy_trigger split: option.splits)
  qed (simp add: AddJoinEdge_def t)
qed

lemma add_cond_tidy: "tidy (sg_graph sg) \<Longrightarrow> tidy (sg_graph (add_cond c sg))"
proof -
  assume t: "tidy (sg_graph sg)"
  obtain g r where a: "addConditionalEdge c (sg_graph sg) = (g, r)" by fastforce
  then have "tidy g = tidy (sg_graph sg)"
    by (intro tidy_same) (auto simp: addConditionalEdge_def split: if_splits option.splits)
  with t a show ?thesis by (cases r) (simp_all add: add_cond_def addBuildError_def)
qed

lemma SetEntryPoint_tidy: "tidy (sg_graph sg) \<Longrightarrow> tidy (sg_graph (SetEntryPoint n sg))"
proof -
  assume t: "tidy (sg_graph sg)"
  obtain g r where a: "setEntryPoint n (sg_graph sg) = (g, r)" by fastforce
  then have "tidy g = tidy (sg_graph sg)" by (intro tidy_same) (auto simp: setEntryPoint_def split: if_splits)
  with t a show ?thesis by (cases r) (simp_all add: SetEntryPoint_def addBuildError_def AddEdge_tidy)
qed

lemma interrupt_tidy: "tidy (sg_graph sg) \<Longrightarrow> tidy (sg_graph (setStaticInterruptNodes isBefore ns sg))"
proof (induction ns arbitrary: sg)
  case (Cons n ns)
  have "tidy (update_node n f (sg_graph sg))" for f using Cons.prems tidy_same[of "update_node n f (sg_graph sg)" "sg_graph sg"] by simp
  with Cons show ?case by (simp add: addBuildError_def)
qed simp

lemma run_op_tidy: "tidy (sg_graph sg) \<Longrightarrow> tidy (sg_graph (run_op h x sg))"
  by (cases x)
    (simp_all add: AddNode_tidy AddEdge_tidy AddJoinEdge_tidy add_cond_tidy AddToolsConditionalEdges_def
      SetEntryPoint_tidy SetFinishPoint_def interrupt_tidy)

lemma run_ops_tidy: "tidy (sg_graph sg) \<Longrightarrow> tidy (sg_graph (fold (run_op h) ops sg))"
  by (induction ops arbitrary: sg) (simp_all add: run_op_tidy)

section \<open>Who writes to a join\<close>

text \<open>A writer to a join channel sends the name of its own node.\<close>

definition signed :: "graph \<Rightarrow> bool" where
  "signed g \<longleftrightarrow> (\<forall>n nd. gget (g_nodes g) n = Some nd \<longrightarrow>
     (\<forall>w \<in> set (nd_writers nd). take 5 (w_channel w) = ''join:'' \<longrightarrow> w_value w = VStr n))"

lemma signed_same: "g_nodes g' = g_nodes g \<Longrightarrow> signed g' = signed g"
  by (simp add: signed_def)

lemma signed_update:
  assumes "signed g" "\<And>nd. nd_writers (f nd) = nd_writers nd @ ws" "\<And>w. w \<in> set ws \<Longrightarrow> take 5 (w_channel w) = ''join:'' \<Longrightarrow> w_value w = VStr n"
  shows "signed (update_node n f g)"
  using assms by (fastforce simp: signed_def update_node_def split: option.splits if_splits)

lemma signed_trigger_channel: "signed g \<Longrightarrow> signed (addNodeTriggerChannel n ch g)"
  unfolding addNodeTriggerChannel_def by (rule signed_update[of _ _ "[]"]) simp_all

lemma signed_writer:
  "signed g \<Longrightarrow> (take 5 (w_channel w) = ''join:'' \<Longrightarrow> w_value w = VStr n) \<Longrightarrow> signed (addNodeWriter n w g)"
  unfolding addNodeWriter_def by (rule signed_update[of _ _ "[w]"]) simp_all

lemma signed_frames [simp]:
  "signed (graph_addChannel ch b g) = signed g" "signed (addNodeTrigger ch n g) = signed g" "signed (set_expected ch ns g) = signed g"
  by (auto simp: graph_addChannel_def addNodeTrigger_def Let_def set_expected_def split: option.splits intro!: signed_same)

lemma addEdge_signed: "addEdge e g = (g', r) \<Longrightarrow> signed g' = signed g"
  by (auto simp: addEdge_def split: if_splits intro!: signed_same)

lemma add_edges_signed: "add_edges as b g = (g', r) \<Longrightarrow> signed g' = signed g"
  by (induction as b g rule: add_edges.induct) (auto split: prod.splits option.splits simp: addEdge_signed)

lemma options_writers: "nd_writers (fold (\<lambda>opt nd. opt nd) (map apply_option opts) nd) = nd_writers nd"
proof (induction opts arbitrary: nd)
  case (Cons opt opts)
  have "nd_writers (apply_option opt nd) = nd_writers nd"
    by (cases opt) (simp_all add: WithName_def WithNodeType_def WithDestinations_def WithEndsMap_def WithEnds_def)
  with Cons show ?case by simp
qed simp

lemma AddNode_signed: "signed (sg_graph sg) \<Longrightarrow> signed (sg_graph (AddNode n f (map apply_option opts) sg))"
proof -
  assume s: "signed (sg_graph sg)"
  let ?nd = "(fold (\<lambda>opt nd. opt nd) (map apply_option opts) (new_node n f))\<lparr>nd_function := Some f\<rparr>"
  obtain g r where a: "addNode ?nd (sg_graph sg) = (g, r)" by fastforce
  moreover have "nd_writers ?nd = []" using options_writers[of opts "new_node n f"] by (simp add: new_node_def)
  ultimately have "signed g" using s by (auto simp: addNode_def signed_def split: if_splits)
  with a show ?thesis by (cases r) (simp_all add: AddNode_def addBuildError_def signed_trigger_channel)
qed

lemma AddEdge_signed: "signed (sg_graph sg) \<Longrightarrow> signed (sg_graph (AddEdge a b sg))"
proof -
  assume s: "signed (sg_graph sg)"
  obtain g r where a: "addEdge \<lparr>e_from = a, e_to = b\<rparr> (sg_graph sg) = (g, r)" by fastforce
  with s have "signed g" using addEdge_signed by blast
  moreover have "take 5 (w_channel (edge_writer b)) \<noteq> ''join:''" by (simp add: edge_writer_def branchChannel_def)
  ultimately show ?thesis using a
    by (cases r) (simp_all add: AddEdge_def addBuildError_def Let_def signed_writer signed_trigger_channel)
qed

lemma AddJoinEdge_signed: "signed (sg_graph sg) \<Longrightarrow> signed (sg_graph (AddJoinEdge h ns b sg))"
proof -
  assume s: "signed (sg_graph sg)"
  let ?s = "normalizeJoinStarts ns"
  obtain g r where a: "add_edges ?s b (sg_graph sg) = (g, r)" by fastforce
  then have "signed g" using s add_edges_signed by blast
  moreover have "signed g0 \<Longrightarrow> signed (fold (\<lambda>a. addNodeWriter a (join_writer ch a)) xs g0)" for ch xs g0
    by (induction xs arbitrary: g0) (simp_all add: signed_writer join_writer_def)
  ultimately show ?thesis using a s
    by (auto simp: AddJoinEdge_def Let_def addBuildError_def signed_trigger_channel split: option.splits)
qed

lemma add_cond_signed: "signed (sg_graph sg) \<Longrightarrow> signed (sg_graph (add_cond c sg))"
proof -
  assume s: "signed (sg_graph sg)"
  obtain g r where a: "addConditionalEdge c (sg_graph sg) = (g, r)" by fastforce
  then have "signed g = signed (sg_graph sg)"
    by (intro signed_same) (auto simp: addConditionalEdge_def split: if_splits option.splits)
  with s a show ?thesis by (cases r) (simp_all add: add_cond_def addBuildError_def)
qed

lemma SetEntryPoint_signed: "signed (sg_graph sg) \<Longrightarrow> signed (sg_graph (SetEntryPoint n sg))"
proof -
  assume s: "signed (sg_graph sg)"
  obtain g r where a: "setEntryPoint n (sg_graph sg) = (g, r)" by fastforce
  then have "signed g = signed (sg_graph sg)" by (intro signed_same) (auto simp: setEntryPoint_def split: if_splits)
  with s a show ?thesis by (cases r) (simp_all add: SetEntryPoint_def addBuildError_def AddEdge_signed)
qed

lemma interrupt_signed: "signed (sg_graph sg) \<Longrightarrow> signed (sg_graph (setStaticInterruptNodes isBefore ns sg))"
proof (induction ns arbitrary: sg)
  case (Cons n ns)
  have "signed (update_node n (\<lambda>nd. if isBefore then nd\<lparr>nd_interrupt_before := True\<rparr> else nd\<lparr>nd_interrupt_after := True\<rparr>) (sg_graph sg))"
    by (rule signed_update[OF Cons.prems, of _ "[]"]) simp_all
  with Cons show ?case by (simp add: addBuildError_def)
qed simp

lemma run_op_signed: "signed (sg_graph sg) \<Longrightarrow> signed (sg_graph (run_op h x sg))"
  by (cases x)
    (simp_all add: AddNode_signed AddEdge_signed AddJoinEdge_signed add_cond_signed AddToolsConditionalEdges_def
      SetEntryPoint_signed SetFinishPoint_def interrupt_signed)

lemma run_ops_signed: "signed (sg_graph sg) \<Longrightarrow> signed (sg_graph (fold (run_op h) ops sg))"
  by (induction ops arbitrary: sg) (simp_all add: run_op_signed)

section \<open>Compiled graphs are ready to run\<close>

lemma triggered_by_subscribers: "triggered_by g c = set (subscribers g c)"
  by (cases "gget (g_triggers g) c") (simp_all add: triggered_by_def subscribers_def getTriggerToNodes_def)

lemma compiled_ready:
  assumes "Compile (run_ops h s ops) = Inl g"
  shows "graph_ready g" "subscribers g (ChannelInputPrefix @ k) = []" "graph_wf g" "tidy g" "signed g"
proof -
  have g: "g = sg_graph (run_ops h s ops)" using assms by (auto simp: Compile_def split: if_splits option.splits)
  show wf: "graph_wf g" using run_ops_wf[of "NewStateGraph s" h ops] New_wf by (simp add: g run_ops_def NewStateGraph_def)
  have "tidy (graph_New s)" by (simp add: tidy_def proper_joins_def graph_New_def NewChannelManager_def)
  then show t: "tidy g" using run_ops_tidy[of "NewStateGraph s" h ops] by (simp add: g run_ops_def NewStateGraph_def)
  have "signed (graph_New s)" by (simp add: signed_def graph_New_def)
  then show "signed g" using run_ops_signed[of "NewStateGraph s" h ops] by (simp add: g run_ops_def NewStateGraph_def)
  show "graph_ready g" using wf t by (simp add: graph_ready_def tidy_def graph_wf_def channels_exist_def triggered_by_subscribers)
  have "ChannelInputPrefix @ k \<notin> keyset (g_triggers g)" using t by (auto simp: tidy_def ChannelInputPrefix_def)
  then show "subscribers g (ChannelInputPrefix @ k) = []"
    by (simp add: subscribers_def getTriggerToNodes_def keyset_get)
qed

end
