(* ===== verification/Engine_Reruns.thy ===== *)
theory Engine_Reruns
  imports Graph_Ready
begin

text \<open>
  The end of a run, and where resuming deviates from going on: routes that a restart forgets, writes that
  are stored and replayed again, joins that run twice after an interrupt.
\<close>

section \<open>What the bookkeeping loses\<close>

text \<open>A channel of the graph in a resumed run.\<close>

lemma resumed_channel:
  assumes "graph_ready g" "keyed_checkpoint ck" "pp_resumed p" "pp_checkpoint p = Some ck"
    "\<forall>kv \<in> set st. c \<noteq> ChannelInputPrefix @ fst kv" "gget (g_channels g) c = Some gc"
  shows "gget (ec_channels (start_context g st p)) c
     = Some (land StepUnmarked (sort_key pw_sequence (pp_pending p)) c (restored_channel ck c gc))"
proof -
  have "gget (restored_channels g ck) c = Some (restored_channel ck c gc)"
    using restored_channels_get[of g ck c] assms by (simp add: graph_ready_def keyed_checkpoint_def)
  with assms(3-5) show ?thesis
    by (simp add: start_context_channels buildExecutionContext_def restored_channels_def[symmetric] apply_writes_get init_channels_get)
qed

lemma written_sort [simp]: "written (sort_key f ws) n = written ws n"
  by (simp add: written_def)

lemma nothing_to_resume:
  assumes "graph_ready g" "keyed_checkpoint ck" "pp_resumed p" "pp_checkpoint p = Some ck" "quiet_inputs g st"
    "ck_barrier_sets ck = []" "\<forall>w \<in> set (pp_pending p). subscribers g (pw_channel w) = []"
  shows "snd (planBasedOnChannelTriggers g k (start_context g st p)) = []"
proof -
  let ?m = "ec_channels (start_context g st p)"
  have no: "\<not> IsAvailable ch" if h: "gget ?m c = Some ch" "subscribers g c \<noteq> []" for c ch
  proof -
    from h(2) assms(1) obtain gc where gc: "gget (g_channels g) c = Some gc" unfolding graph_ready_def keyset_get by blast
    have "\<forall>kv \<in> set st. c \<noteq> ChannelInputPrefix @ fst kv" using assms(5) h(2) by (auto simp: quiet_inputs_def)
    from resumed_channel[OF assms(1-4) this gc] h(1)
    have ch: "ch = land StepUnmarked (sort_key pw_sequence (pp_pending p)) c (restored_channel ck c gc)" by simp
    have "\<not> written (pp_pending p) c" using assms(7) h(2) by (auto simp: written_def)
    then have "ch = restored_channel ck c gc" using ch by (simp add: land_other)
    then show ?thesis using restored_channel_props(3)[of ck c gc] assms(6) by simp
  qed
  have "planBasedOnChannelTriggers g k (start_context g st p) = planBasedOnVersionTriggers g ck k (start_context g st p)"
    using assms(3,4) by (simp add: planBasedOnChannelTriggers_def start_context_fields)
  moreover have none: "{n. schedulable g n \<and> (\<exists>c ch. gget ?m c = Some ch \<and> IsAvailable ch \<and> n \<in> set (subscribers g c)
      \<and> (ch_behavior ch = BehaviorBarrier \<or> shouldTriggerNode n c (ch_version ch) ck))} = {}"
    using no by fastforce
  have "map tk_node_id (snd (planBasedOnVersionTriggers g ck k (start_context g st p))) = sorted_list_of_set {}"
    unfolding none[symmetric] by (rule version_plan(1)[OF prod.collapse[symmetric] wk_start_context])
  ultimately show ?thesis by simp
qed

lemma resume_stops:
  assumes "0 < k" "gget st StateKeyNextNodes = None" "snd (planBasedOnChannelTriggers g k (start_context g st p)) = []"
  shows "\<exists>en'. runBspLoop ex env k k n (start_engine g st p s) = Return (en', n, None)"
proof (cases "ex_max_steps ex \<le> k")
  case True
  then show ?thesis by (subst runBspLoop.simps) simp
next
  case False
  have "planTasksForBspStep g (re_entry_predecessors env) k k (start_context g st p)
      = Inl (planBasedOnChannelTriggers g k (start_context g st p))"
    using plan_after_first[of "start_context g st p" k] assms by (simp add: start_context_fields)
  then obtain en' where "runBspStep ex env k k (start_engine g st p s) = Return (en', Stop)"
    using assms(3) by (cases "planBasedOnChannelTriggers g k (start_context g st p)") (simp add: runBspStep_def start_engine_def)
  with False show ?thesis by (subst runBspLoop.simps) simp
qed

lemma merge_next_nodes:
  "gget (mergeInitialStateNonInternal st initial override) StateKeyNextNodes = gget st StateKeyNextNodes"
proof -
  have "StateKeyNextNodes \<noteq> key" if "take 1 key \<noteq> ''_''" for key using that by (auto simp: StateKeyNextNodes_def)
  then show ?thesis
    unfolding mergeInitialStateNonInternal_def
    by (induction initial arbitrary: st) (auto simp: Let_def split: prod.split)
qed

lemma resume_keeps_next_nodes:
  "gget (processResumeCommand cmd st) StateKeyNextNodes = gget st StateKeyNextNodes"
  by (auto simp: processResumeCommand_def put_resume_def Let_def StateKeyNextNodes_def StateKeyCommand_def ResumeChannel_def
      StateKeyResumeMap_def split: resume_input.split option.split)

lemma inputs_next_nodes: "gget (applyGraphInterruptInputs st t) StateKeyNextNodes = gget st StateKeyNextNodes"
  by (auto simp: applyGraphInterruptInputs_def Let_def StateKeyNextNodes_def StateKeyGraphInterruptInputs_def
      split: option.split gval.split)

text \<open>
  C12. A route that was made at run time does not survive a restart of the process.  When a run resumes with
  a freshly built graph, and no node of that graph listens to the channels of the checkpoint's pending
  writes - as with the branch channels of conditional edges and the targets of commands, whose
  subscriptions are only added while routing - it ends at once without an error and without running
  anything, whatever next nodes the checkpoint names.
\<close>

theorem restart_loses_routes:
  assumes "Compile (run_ops h sch calls) = Inl g" "ex_saver ex = Some ops"
    "CreateCheckpointConfig (lineage_of env initial) (string_entry CfgKeyCheckpointID initial)
       (string_entry CfgKeyCheckpointNS initial) = Return config"
    "so_GetTuple ops config s = Return (Inl (Some t, config'))"
    "restoreStateFromCheckpoint g t = Return st" "gget st StateKeyNextNodes = None"
    "tp_metadata t = Some md" "0 \<le> md_step md" "keyed_checkpoint (tp_checkpoint t)" "ck_barrier_sets (tp_checkpoint t) = []"
    "tp_pending_writes t \<noteq> []" "\<forall>w \<in> set (tp_pending_writes t). subscribers g (pw_channel w) = []"
  shows "\<exists>en. executeGraph ex env g initial cmd s = Return (Inl (en, 0, None))"
proof -
  let ?st = "applyGraphInterruptInputs (applyExecutableNextNodes (mergeInitialStateNonInternal st initial (re_override_keys env)) t) t"
  define p where "p = \<lparr>pp_state = ?st, pp_config = Some (if tp_config t \<noteq> [] then tp_config t else config'), pp_resumed = True,
      pp_step = md_step md, pp_checkpoint = Some (tp_checkpoint t), pp_pending = tp_pending_writes t\<rparr>"
  have prep: "prepareCheckpointAndState ex env g initial s = Return (Inl p)"
    using assms(2-5,7) by (simp add: prepareCheckpointAndState_def resumeOrInitWithSaver_def resumed_state_def p_def)
  let ?st2 = "processResumeCommand cmd (pp_state p)"
  have nn: "gget ?st2 StateKeyNextNodes = None"
    using assms(6,11) by (simp add: resume_keeps_next_nodes p_def inputs_next_nodes applyExecutableNextNodes_def merge_next_nodes)
  have k: "first_step p = md_step md + 1" "0 < first_step p" using assms(8) by (simp_all add: first_step_def p_def)
  have quiet: "quiet_inputs g ?st2" using compiled_ready(2)[OF assms(1)] by (simp add: quiet_inputs_def)
  have "snd (planBasedOnChannelTriggers g (first_step p) (start_context g ?st2 p)) = []"
    by (rule nothing_to_resume[OF compiled_ready(1)[OF assms(1)] assms(9) _ _ quiet assms(10)]) (use assms(12) in \<open>simp_all add: p_def\<close>)
  from resume_stops[OF k(2) nn this, of ex env 0 s]
  obtain en' where "runBspLoop ex env (first_step p) (first_step p) 0 (start_engine g ?st2 p s) = Return (en', 0, None)" by blast
  moreover have "input_checkpoint ex env (pp_resumed p) (start_engine g ?st2 p s) = Return (start_engine g ?st2 p s)"
    by (simp add: input_checkpoint_def p_def split: option.split)
  ultimately show ?thesis
    by (simp add: executeGraph_def prep Let_def start_engine_def[symmetric])
qed

section \<open>What is run twice\<close>

text \<open>A resumed run plans every listener of a channel that a pending write went to.\<close>

lemma resumed_runs_listeners:
  assumes "graph_ready g" "keyed_checkpoint ck" "pp_resumed p" "pp_checkpoint p = Some ck"
    "seen_within (ck_versions_seen ck) (gget (ck_channel_versions ck))" "quiet_inputs g st"
    "gget (g_channels g) c = Some gc" "ch_behavior gc \<noteq> BehaviorBarrier" "written (pp_pending p) c"
    "n \<in> set (subscribers g c)" "schedulable g n"
  shows "n \<in> tk_node_id ` set (snd (planBasedOnChannelTriggers g k (start_context g st p)))"
proof -
  let ?m = "ec_channels (start_context g st p)"
  define r where "r = restored_channel ck c gc"
  define ch where "ch = land StepUnmarked (sort_key pw_sequence (pp_pending p)) c r"
  have "\<forall>kv \<in> set st. c \<noteq> ChannelInputPrefix @ fst kv" using assms(6,10) by (auto simp: quiet_inputs_def)
  from resumed_channel[OF assms(1-4) this assms(7)] have get: "gget ?m c = Some ch" by (simp add: ch_def r_def)
  have "ch_behavior r = ch_behavior gc" by (simp add: r_def restored_channel_props)
  then have av: "IsAvailable ch" using land_available[of r] assms(8,9) by (simp add: ch_def)
  have ver: "ch_version r < ch_version ch" using land_version[of r StepUnmarked "sort_key pw_sequence (pp_pending p)" c] assms(9) by (simp add: ch_def)
  have "shouldTriggerNode n c (ch_version ch) ck"
  proof -
    have "v < ch_version ch" if "gget (ck_versions_seen ck) n = Some vs" "gget vs c = Some v" for vs v
    proof -
      from assms(5) that obtain x where "gget (ck_channel_versions ck) c = Some x" "v \<le> x" unfolding seen_within_def by blast
      with ver show ?thesis by (simp add: r_def restored_channel_props(2))
    qed
    then show ?thesis by (simp add: shouldTriggerNode_def split: option.split)
  qed
  with get av assms(10,11) have "n \<in> {n. schedulable g n \<and> (\<exists>c ch. gget ?m c = Some ch \<and> IsAvailable ch \<and> n \<in> set (subscribers g c)
      \<and> (ch_behavior ch = BehaviorBarrier \<or> shouldTriggerNode n c (ch_version ch) ck))}" (is "n \<in> ?S") by blast
  moreover have "planBasedOnChannelTriggers g k (start_context g st p) = planBasedOnVersionTriggers g ck k (start_context g st p)"
    using assms(3,4) by (simp add: planBasedOnChannelTriggers_def start_context_fields)
  moreover have "map tk_node_id (snd (planBasedOnVersionTriggers g ck k (start_context g st p))) = sorted_list_of_set ?S"
    by (rule version_plan(1)[OF prod.collapse[symmetric] wk_start_context])
  moreover have "finite ?S"
  proof -
    have "?S \<subseteq> keyset (g_nodes g)" by (auto simp: schedulable_def graph_Node_def keyset_get)
    then show ?thesis by (rule finite_subset) simp
  qed
  ultimately show ?thesis by (metis (no_types, lifting) set_map set_sorted_list_of_set)
qed

text \<open>Routing only adds to the graph.\<close>

definition graph_extends :: "graph \<times> exec_context \<Rightarrow> graph \<times> exec_context \<Rightarrow> bool" where
  "graph_extends s s' \<longleftrightarrow> same_graph (fst s) (fst s') \<and> (\<forall>c. set (subscribers (fst s) c) \<subseteq> set (subscribers (fst s') c))
     \<and> (\<forall>n c. gget (g_channels (fst s)) n = Some c \<longrightarrow> gget (g_channels (fst s')) n = Some c)"

lemma subscribers_addChannel [simp]: "subscribers (graph_addChannel ch b g) c = subscribers g c"
  by (simp add: graph_addChannel_def subscribers_def getTriggerToNodes_def)

interpretation extend: step_frame graph_extends step for step
proof (unfold_locales, goal_cases)
  case (2 a b c)
  then show ?case unfolding graph_extends_def using same_graph_trans by (metis subset_trans)
next
  case (6 g ec ch n)
  have "same_graph g (addNodeTrigger ch n (graph_addChannel ch BehaviorLastValue g))"
    "g_channels (addNodeTrigger ch n (graph_addChannel ch BehaviorLastValue g)) = AddChannel ch BehaviorLastValue (g_channels g)"
    by (simp_all add: same_graph_def addNodeTrigger_def graph_addChannel_def Let_def)
  then show ?case
    by (auto simp: graph_extends_def subscribers_addNodeTrigger AddChannel_def ghas_def split: if_splits)
qed (auto simp: graph_extends_def)

lemma same_schedulable: "same_graph g g' \<Longrightarrow> schedulable g' n = schedulable g n"
  by (simp add: same_graph_def schedulable_def graph_Node_def)

text \<open>The request with which an executed step was saved.\<close>

lemma executed_saved:
  assumes "runBspStep ex env start k en = Return (en', Executed)" "ex_saver ex = Some ops" "en_config en = Some config"
  shows "\<exists>ec ts st ec1 req r. planTasksForBspStep (en_graph en) (re_entry_predecessors env) start k (en_ec en) = Inl (ec, ts)
     \<and> executeStep (re_steps env k) k ts (en_graph en, ec\<lparr>ec_state := st\<rparr>) = ((en_graph en', ec1), None)
     \<and> so_PutFull ops req (en_saver en) = Return r \<and> pf_pending_writes req = ec_pending_writes ec1
     \<and> (\<exists>uuid now. pf_checkpoint req = Some (step_checkpoint (en_graph en') uuid now config CheckpointSourceLoop k ec1))"
proof -
  obtain ec ts st ec1 where p: "planTasksForBspStep (en_graph en) (re_entry_predecessors env) start k (en_ec en) = Inl (ec, ts)"
    and x: "executeStep (re_steps env k) k ts (en_graph en, ec\<lparr>ec_state := st\<rparr>) = ((en_graph en', ec1), None)"
    and l: "maybeCreateLoopCheckpoint ex env k (en\<lparr>en_graph := en_graph en', en_ec := ec1\<rparr>) = Return en'"
    using executed_step[OF assms(1)] by blast
  let ?c = "step_checkpoint (en_graph en') (re_uuid env CheckpointSourceLoop k) (re_now env CheckpointSourceLoop k) config CheckpointSourceLoop k ec1"
  obtain r where "so_PutFull ops \<lparr>pf_config = config, pf_checkpoint = Some ?c,
       pf_metadata = Some (NewCheckpointMetadata CheckpointSourceLoop k),
       pf_new_versions = map (\<lambda>(name, c). (name, ch_version c)) (filter (\<lambda>(name, c). IsAvailable c) (GetAllChannels (ec_channels ec1))),
       pf_pending_writes = ec_pending_writes ec1\<rparr> (en_saver en) = Return r"
    using l assms(2,3) by (auto simp: maybeCreateLoopCheckpoint_def createCheckpointAndSave_def run_bind_Return_iff Let_def)
  then have "\<exists>req r. so_PutFull ops req (en_saver en) = Return r \<and> pf_pending_writes req = ec_pending_writes ec1 \<and> pf_checkpoint req = Some ?c"
    by (intro exI conjI) (assumption | simp)+
  with p x show ?thesis by blast
qed

text \<open>What the first step of a resumed run keeps of the pending writes, the versions and the graph.\<close>

lemma replayed_step:
  assumes "good_start g p" "ready_start g p" "pp_resumed p"
    "planTasksForBspStep g preds k0 k (start_context g st p) = Inl (ec, ts)"
    "executeStep senv k ts (g, ec\<lparr>ec_state := st1\<rparr>) = ((g', ec1), None)"
  shows "seen_le ec1" "well_keyed (ec_channels ec1)" "set (pp_pending p) \<subseteq> set (ec_pending_writes ec1)" "graph_ready g'"
    "graph_extends (g, ec\<lparr>ec_state := st1\<rparr>) (g', ec1)"
proof -
  let ?ec = "ec\<lparr>ec_state := st1\<rparr>"
  obtain av where fr: "plan_frame (start_context g st p) ec" "ec_channels ec = ec_channels (acknowledge_all av (start_context g st p))"
    using plan_tasks_frame[OF assms(4)] by blast
  from plan_frame_advances[OF this, of g] have "seen_le ?ec" "well_keyed (ec_channels ?ec)"
    using start_seen_le[OF assms(1), of st] wk_start_context[of g st p] by (auto simp: advances_def seen_le_def)
  then show "seen_le ec1" "well_keyed (ec_channels ec1)"
    using advance.R_step[of "(g, ?ec)" senv k ts] assms(5) by (simp_all add: advances_def)
  show "set (pp_pending p) \<subseteq> set (ec_pending_writes ec1)"
    using replay.R_step[of k "(g, ?ec)" senv ts] assms(5) fr(1)
    by (auto simp: replays_def wrote_def plan_frame_def start_context_fields)
  have "mirrored g (ec_channels ?ec)" using mirrored_plan[OF assms(4) mirrored_start[OF assms(2)]] by simp
  then show "graph_ready g'"
    using link.R_step[of "(g, ?ec)" senv k ts] assms(5) by (simp add: link_kept_def mirrored_def)
  show "graph_extends (g, ?ec) (g', ec1)"
    using extend.R_step[of "(g, ?ec)" senv k ts] assms(5) by simp
qed

text \<open>
  C13. The writes a resumed run replays are stored again.  When a resumed run saves its first step, the request
  carries the replayed writes besides the new ones; so a run that resumes from that checkpoint
  plans the listeners of the replayed writes once more, although the first resumed run has planned them.
\<close>

theorem replayed_writes_run_again:
  assumes "good_start g p" "ready_start g p" "pp_resumed p" "0 \<le> pp_step p" "quiet_inputs g st"
    "ex_saver ex = Some ops" "pp_config p = Some config"
    "runBspStep ex env (first_step p) (first_step p) (start_engine g st p s) = Return (en, Executed)"
    "w \<in> set (pp_pending p)" "gget (g_channels g) (pw_channel w) = Some c" "ch_behavior c \<noteq> BehaviorBarrier"
    "n \<in> set (subscribers g (pw_channel w))" "schedulable g n"
  shows "n \<in> tk_node_id ` set (snd (planBasedOnChannelTriggers g (first_step p) (start_context g st p)))
    \<and> (\<exists>req r. so_PutFull ops req s = Return r \<and> set (pp_pending p) \<subseteq> set (pf_pending_writes req)
         \<and> (\<forall>p2 st2 k. pp_resumed p2 \<longrightarrow> pp_checkpoint p2 = pf_checkpoint req \<longrightarrow> pp_pending p2 = pf_pending_writes req
              \<longrightarrow> quiet_inputs (en_graph en) st2
              \<longrightarrow> n \<in> tk_node_id ` set (snd (planBasedOnChannelTriggers (en_graph en) k (start_context (en_graph en) st2 p2)))))"
proof -
  have wr: "written (pp_pending p) (pw_channel w)" using assms(9) by (auto simp: written_def)
  obtain ck where ck: "pp_checkpoint p = Some ck" "keyed_checkpoint ck" "seen_within (ck_versions_seen ck) (gget (ck_channel_versions ck))"
    and ready: "graph_ready g"
    using assms(1-3) by (auto simp: good_start_def ready_start_def consistent_checkpoint_def)
  have first: "n \<in> tk_node_id ` set (snd (planBasedOnChannelTriggers g (first_step p) (start_context g st p)))"
    by (rule resumed_runs_listeners[OF ready ck(2) assms(3) ck(1,3) assms(5,10,11) wr assms(12,13)])
  have "ex_saver ex = Some ops" "en_config (start_engine g st p s) = Some config" using assms(6,7) by (simp_all add: start_engine_def)
  from executed_saved[OF assms(8) this] obtain ec ts st1 ec1 req r uuid now where
    pl: "planTasksForBspStep g (re_entry_predecessors env) (first_step p) (first_step p) (start_context g st p) = Inl (ec, ts)"
    and x: "executeStep (re_steps env (first_step p)) (first_step p) ts (g, ec\<lparr>ec_state := st1\<rparr>) = ((en_graph en, ec1), None)"
    and put: "so_PutFull ops req s = Return r" "pf_pending_writes req = ec_pending_writes ec1"
      "pf_checkpoint req = Some (step_checkpoint (en_graph en) uuid now config CheckpointSourceLoop (first_step p) ec1)"
    by (auto simp: start_engine_def)
  let ?g = "en_graph en"
  note kept = replayed_step[OF assms(1-3) pl x]
  from kept(5) have g2: "gget (g_channels ?g) (pw_channel w) = Some c" "n \<in> set (subscribers ?g (pw_channel w))" "schedulable ?g n"
    using assms(10,12,13) by (auto simp: graph_extends_def same_schedulable)
  have again: "n \<in> tk_node_id ` set (snd (planBasedOnChannelTriggers ?g k (start_context ?g st2 p2)))"
    if p2: "pp_resumed p2" "pp_checkpoint p2 = pf_checkpoint req" "pp_pending p2 = pf_pending_writes req" "quiet_inputs ?g st2" for p2 st2 k
  proof (rule resumed_runs_listeners[OF kept(4) step_checkpoint_keyed[OF kept(2)] p2(1) _ _ p2(4) g2(1) assms(11) _ g2(2,3)])
    show "pp_checkpoint p2 = Some (step_checkpoint ?g uuid now config CheckpointSourceLoop (first_step p) ec1)" using p2(2) put(3) by simp
    show "written (pp_pending p2) (pw_channel w)" using p2(3) put(2) kept(3) assms(9) by (auto simp: written_def)
    show "seen_within (ck_versions_seen (step_checkpoint ?g uuid now config CheckpointSourceLoop (first_step p) ec1))
        (gget (ck_channel_versions (step_checkpoint ?g uuid now config CheckpointSourceLoop (first_step p) ec1)))"
      using kept(1) by (simp add: seen_le_def seen_within_def step_checkpoint_fields)
  qed
  have "set (pp_pending p) \<subseteq> set (pf_pending_writes req)" using kept(3) put(2) by simp
  with first put(1) again show ?thesis by blast
qed

text \<open>A satisfied barrier stays available through the tasks of a step.\<close>

lemma available_barrier_stays:
  assumes "executeStep env step ts (g, ec) = ((g', ec'), e)" "gget (ec_channels ec) c = Some ch" "ch_behavior ch = BehaviorBarrier"
    "IsAvailable ch" "set (ch_barrier_expected ch) \<subseteq> barrier_seen ch"
  shows "\<exists>ch'. gget (ec_channels ec') c = Some ch' \<and> ch_behavior ch' = BehaviorBarrier \<and> IsAvailable ch'"
proof -
  obtain ws where w: "wrote step ec ec' ws"
    using replay.R_step[of step "(g, ec)" env ts] assms(1) by (auto simp: replays_def)
  then obtain ch' where ch': "gget (ec_channels ec') c = Some ch'"
    using assms(2) by (auto simp: wrote_def keyset_get subset_iff)
  then have "ch' = land step ws c (born (ec_channels ec) c)" using w by (simp add: wrote_def)
  then have "ch' = land step ws c ch" using assms(2) by (simp add: born_def)
  with ch' assms(3-5) land_barrier[of ch step ws c] show ?thesis by (auto simp: land_kind)
qed

lemma interrupt_checkpoint_fields:
  "ck_barrier_sets (interrupt_checkpoint g uuid now config ie step ec) = barrier_sets (ec_channels ec)"
  "ck_channel_versions (interrupt_checkpoint g uuid now config ie step ec) = collectChannelVersions ec"
  "ck_next_nodes (interrupt_checkpoint g uuid now config ie step ec) = rerun_nodes ie (getNextNodes g ec)"
  by (auto simp: interrupt_checkpoint_def with_parent_def createCheckpointFromState_def NewCheckpoint_def SetInterruptState_def
      GetAllChannels_def)

lemma getNextNodes_mem:
  assumes "gget (ec_channels ec) c = Some ch" "IsAvailable ch" "n \<in> set (subscribers g c)"
  shows "n \<in> set (getNextNodes g ec)"
proof -
  obtain ns where "gget (g_triggers g) c = Some ns" "n \<in> set ns"
    using assms(3) by (cases "gget (g_triggers g) c") (simp_all add: subscribers_def getTriggerToNodes_def)
  then have "(c, ns) \<in> set (g_triggers g)" by (simp add: map_of_SomeD)
  with assms \<open>n \<in> set ns\<close> show ?thesis
    by (force simp: getNextNodes_def getTriggerToNodes_def GetAllChannels_def)
qed

lemma loop_checkpoint_channel:
  assumes "maybeCreateLoopCheckpoint ex env step en = Return en'" "gget (ec_channels (en_ec en)) c = Some ch"
  shows "\<exists>ch'. gget (ec_channels (en_ec en')) c = Some ch' \<and> ch_behavior ch' = ch_behavior ch \<and> IsAvailable ch' = IsAvailable ch"
proof (cases "en_config en")
  case None
  with assms show ?thesis by (simp add: maybeCreateLoopCheckpoint_def)
next
  case (Some config)
  with assms(1) obtain ec r where "createCheckpointAndSave (ex_saver ex) (en_graph en) (re_uuid env CheckpointSourceLoop step)
       (re_now env CheckpointSourceLoop step) config CheckpointSourceLoop step (en_ec en) (en_saver en) = Return (ec, r)"
    "en_ec en' = ec"
    by (auto simp: maybeCreateLoopCheckpoint_def run_bind_Return_iff)
  from save_cases[OF this(1)] this(2) assms(2) show ?thesis
    by (auto simp: clearChannelStepMarks_def gget_map_key ClearStepMark_def IsAvailable_def)
qed

lemma finite_schedulable: "finite {n. schedulable g n \<and> P n}"
  by (rule finite_subset[of _ "keyset (g_nodes g)"]) (auto simp: schedulable_def graph_Node_def keyset_get)

lemma version_plan_barrier:
  assumes "ec_resumed ec" "ec_last_checkpoint ec = Some ck" "well_keyed (ec_channels ec)"
    "gget (ec_channels ec) c = Some ch" "ch_behavior ch = BehaviorBarrier" "IsAvailable ch"
    "n \<in> set (subscribers g c)" "schedulable g n"
  shows "n \<in> tk_node_id ` set (snd (planBasedOnChannelTriggers g k ec))"
proof -
  have p: "planBasedOnChannelTriggers g k ec = planBasedOnVersionTriggers g ck k ec"
    using assms(1,2) by (simp add: planBasedOnChannelTriggers_def)
  have "set (map tk_node_id (snd (planBasedOnVersionTriggers g ck k ec))) = {n. schedulable g n \<and> (\<exists>c ch. gget (ec_channels ec) c = Some ch
       \<and> IsAvailable ch \<and> n \<in> set (subscribers g c) \<and> (ch_behavior ch = BehaviorBarrier \<or> shouldTriggerNode n c (ch_version ch) ck))}"
    unfolding version_plan(1)[OF prod.collapse[symmetric] assms(3)] by (rule set_sorted_list_of_set) (rule finite_schedulable)
  with assms(4-8) have "n \<in> set (map tk_node_id (snd (planBasedOnVersionTriggers g ck k ec)))" by blast
  with p show ?thesis by simp
qed

text \<open>Planning from next nodes takes them as they are and acknowledges nothing.\<close>

lemma next_nodes_plan:
  assumes "gget (ec_state ec) StateKeyNextNodes = Some (VStrs (Some ns))" "ns \<noteq> []" "k \<noteq> 0"
    "planTasksForBspStep g preds start k ec = Inl (ec', ts)"
  shows "map tk_node_id ts = filter (schedulable g) ns \<and> ec_channels ec' = ec_channels ec"
proof -
  obtain n ns' where ns: "ns = n # ns'" using assms(2) by (cases ns) auto
  obtain ec1 us where c: "create_tasks g k (map (\<lambda>x. (x, preds)) ns) (ec\<lparr>ec_planned := None\<rparr>) = (ec1, us)" by fastforce
  have "ec' = ec1\<lparr>ec_state := gdel StateKeyNextNodes (ec_state ec1)\<rparr>" "ts = us"
    using assms(1,3,4) c ns by (simp_all add: planTasksForBspStep_def planStep_def Let_def)
  with create_tasks_props[OF c] show ?thesis by (simp add: comp_def)
qed

text \<open>A barrier that is complete is restored complete.\<close>

lemma complete_join_restored:
  assumes "mirrored g (ec_channels ec)" "well_keyed (ec_channels ec)" "gget (ec_channels ec) c = Some ch"
    "ch_behavior ch = BehaviorBarrier" "IsAvailable ch" "n \<in> set (subscribers g c)"
    "ck_barrier_sets ck = barrier_sets (ec_channels ec)"
  shows "\<exists>gc. gget (g_channels g) c = Some gc \<and> ch_behavior (restored_channel ck c gc) = BehaviorBarrier
    \<and> IsAvailable (restored_channel ck c gc)
    \<and> set (ch_barrier_expected (restored_channel ck c gc)) \<subseteq> barrier_seen (restored_channel ck c gc)"
proof -
  have ready: "graph_ready g" using assms(1) by (simp add: mirrored_def)
  moreover have "subscribers g c \<noteq> []" using assms(6) by auto
  ultimately obtain gc where gc: "gget (g_channels g) c = Some gc" unfolding graph_ready_def keyset_get by blast
  with assms(1,3) have kind: "same_kind gc ch" "ch_ok ch" unfolding mirrored_def by fastforce+
  then have gcb: "ch_behavior gc = BehaviorBarrier" using assms(4) by (simp add: same_kind_def)
  then have E: "set (ch_barrier_expected ch) = set (ch_barrier_expected gc)" "ch_barrier_expected gc \<noteq> []" "[] \<notin> set (ch_barrier_expected gc)"
    using kind(1) ready gc unfolding same_kind_def graph_ready_def proper_joins_def by metis+
  then have "ch_barrier_expected ch \<noteq> []" by auto
  then have sat: "set (ch_barrier_expected gc) \<subseteq> barrier_seen ch"
    using kind(2) assms(4,5) E(1) by (simp add: ch_ok_def isBarrierSatisfied_iff)
  then have "barrier_seen ch \<noteq> {}" using E(2) by auto
  then have "ch_barrier_set ch \<noteq> []" by (auto simp: barrier_seen_def)
  then have bs: "gget (ck_barrier_sets ck) c = Some (BarrierSeenSnapshot ch)"
    using barrier_sets_get[OF assms(2), of c] assms(3,4,7) by simp
  have "set (BarrierSeenSnapshot ch) = barrier_seen ch" using ch_ok_seen[OF kind(2)] by (simp add: BarrierSeenSnapshot_def keyset_def)
  with restored_barrier[OF bs gcb] restored_channel_kind[of gc ck c] gcb sat E(3) gc show ?thesis
    by (auto simp: same_kind_def)
qed

text \<open>A join that was complete at an interrupt is complete when the run has resumed.\<close>

lemma complete_join_starts:
  assumes "mirrored g (ec_channels ec0)" "well_keyed (ec_channels ec0)" "gget (ec_channels ec0) c = Some ch"
    "ch_behavior ch = BehaviorBarrier" "IsAvailable ch" "n \<in> set (subscribers g c)"
    "pp_resumed p" "pp_checkpoint p = Some (interrupt_checkpoint g uuid now config ie step0 ec0)" "pp_pending p = []" "quiet_inputs g st"
  obtains r where "gget (ec_channels (start_context g st p)) c = Some r" "ch_behavior r = BehaviorBarrier" "IsAvailable r"
    "set (ch_barrier_expected r) \<subseteq> barrier_seen r"
proof -
  let ?ck = "interrupt_checkpoint g uuid now config ie step0 ec0"
  have ready: "graph_ready g" using assms(1) by (simp add: mirrored_def)
  have keyed: "keyed_checkpoint ?ck"
    using assms(2) barrier_sets_wk[OF assms(2)]
    by (simp add: keyed_checkpoint_def interrupt_checkpoint_fields) (simp add: well_keyed_def collectChannelVersions_def GetAllChannels_def comp_def case_prod_beta)
  obtain gc where gc: "gget (g_channels g) c = Some gc" and r: "ch_behavior (restored_channel ?ck c gc) = BehaviorBarrier"
    "IsAvailable (restored_channel ?ck c gc)"
    "set (ch_barrier_expected (restored_channel ?ck c gc)) \<subseteq> barrier_seen (restored_channel ?ck c gc)"
    using complete_join_restored[OF assms(1-6) interrupt_checkpoint_fields(1)] by blast
  have "\<forall>kv \<in> set st. c \<noteq> ChannelInputPrefix @ fst kv" using assms(6,10) by (auto simp: quiet_inputs_def)
  from resumed_channel[OF ready keyed assms(7,8) this gc] have "gget (ec_channels (start_context g st p)) c = Some (restored_channel ?ck c gc)"
    by (simp add: assms(9))
  with r that show thesis by blast
qed

text \<open>
  C14. A join that is complete when the run is interrupted runs twice after the resume.  The interrupt
  checkpoint names the join's node as a next node and keeps its satisfied barrier; the resumed run's
  first step runs the node because it is named, without acknowledging the barrier, so the
  next step plans it again because the barrier still is available.
\<close>

theorem interrupted_join_runs_twice:
  assumes "mirrored g (ec_channels ec0)" "well_keyed (ec_channels ec0)" "gget (ec_channels ec0) c = Some ch"
    "ch_behavior ch = BehaviorBarrier" "IsAvailable ch" "n \<in> set (subscribers g c)" "schedulable g n"
    "ie_next_nodes ie = []" "pp_resumed p" "pp_checkpoint p = Some (interrupt_checkpoint g uuid now config ie step0 ec0)"
    "pp_pending p = []" "0 \<le> pp_step p" "quiet_inputs g st"
    "gget st StateKeyNextNodes = Some (VStrs (Some (rerun_nodes ie (getNextNodes g ec0))))"
    "runBspStep ex env (first_step p) (first_step p) (start_engine g st p s) = Return (en, Executed)"
  shows "(\<exists>ec ts. planTasksForBspStep g (re_entry_predecessors env) (first_step p) (first_step p) (start_context g st p) = Inl (ec, ts)
       \<and> n \<in> tk_node_id ` set ts)
    \<and> n \<in> tk_node_id ` set (snd (planBasedOnChannelTriggers (en_graph en) (first_step p + 1) (en_ec en)))"
proof -
  let ?k = "first_step p" and ?ck = "interrupt_checkpoint g uuid now config ie step0 ec0" and ?e0 = "start_context g st p"
  let ?ns = "rerun_nodes ie (getNextNodes g ec0)"
  have k: "?k \<noteq> 0" using assms(12) by (simp add: first_step_def assms(9))
  have nns: "n \<in> set ?ns" using getNextNodes_mem[OF assms(3,5,6)] assms(8) by (simp add: rerun_nodes_def Let_def)
  obtain r where start: "gget (ec_channels ?e0) c = Some r" and r: "ch_behavior r = BehaviorBarrier" "IsAvailable r"
    "set (ch_barrier_expected r) \<subseteq> barrier_seen r"
    by (rule complete_join_starts[OF assms(1-6,9-11,13)])
  obtain ec ts st1 ec1 where pl: "planTasksForBspStep g (re_entry_predecessors env) ?k ?k ?e0 = Inl (ec, ts)"
    and x: "executeStep (re_steps env ?k) ?k ts (g, ec\<lparr>ec_state := st1\<rparr>) = ((en_graph en, ec1), None)"
    and l: "maybeCreateLoopCheckpoint ex env ?k ((start_engine g st p s)\<lparr>en_graph := en_graph en, en_ec := ec1\<rparr>) = Return en"
    using executed_step[OF assms(15)] by (auto simp: start_engine_def)
  have "gget (ec_state ?e0) StateKeyNextNodes = Some (VStrs (Some ?ns))" using assms(14) by (simp add: start_context_fields)
  moreover have "?ns \<noteq> []" using nns by auto
  ultimately have np: "map tk_node_id ts = filter (schedulable g) ?ns" "ec_channels ec = ec_channels ?e0"
    using next_nodes_plan[OF _ _ k pl] by blast+
  have "n \<in> set (map tk_node_id ts)" unfolding np(1) using nns assms(7) by simp
  then have first: "n \<in> tk_node_id ` set ts" by simp
  have "gget (ec_channels (ec\<lparr>ec_state := st1\<rparr>)) c = Some r" using np(2) start by simp
  from available_barrier_stays[OF x this r] obtain ch1 where ch1: "gget (ec_channels ec1) c = Some ch1"
    "ch_behavior ch1 = BehaviorBarrier" "IsAvailable ch1" by blast
  from loop_checkpoint_channel[OF l, of c] ch1 obtain ch2 where ch2: "gget (ec_channels (en_ec en)) c = Some ch2"
    "ch_behavior ch2 = BehaviorBarrier" "IsAvailable ch2" by auto
  have adv: "advances (g, ?e0) (view_of en)" using executed_advances[OF assms(15)] by (simp add: start_engine_def)
  then have en: "ec_resumed (en_ec en)" "ec_last_checkpoint (en_ec en) = Some ?ck" "well_keyed (ec_channels (en_ec en))"
    using assms(9,10) wk_start_context by (auto simp: advances_def start_context_fields)
  have "graph_extends (g, ec\<lparr>ec_state := st1\<rparr>) (en_graph en, ec1)"
    using extend.R_step[of "(g, ec\<lparr>ec_state := st1\<rparr>)" "re_steps env ?k" ?k ts] x by simp
  then have g2: "n \<in> set (subscribers (en_graph en) c)" "schedulable (en_graph en) n"
    using assms(6,7) by (auto simp: graph_extends_def same_schedulable)
  have "n \<in> tk_node_id ` set (snd (planBasedOnChannelTriggers (en_graph en) (?k + 1) (en_ec en)))"
    by (rule version_plan_barrier[OF en ch2 g2])
  with pl first show ?thesis by blast
qed

section \<open>How a run ends\<close>

lemma loop_outcome:
  "reachable ex env k0 en0 k en \<Longrightarrow> runBspLoop ex env k0 k n en = Return (en', m, e) \<Longrightarrow>
     n \<le> m \<and> int (m - n) \<le> max 0 (ex_max_steps ex - k)
     \<and> (\<exists>en1. reachable ex env k0 en0 (k + int (m - n)) en1
          \<and> (case e of
               None \<Rightarrow> (ex_max_steps ex \<le> k + int (m - n) \<and> en' = en1) \<or> runBspStep ex env k0 (k + int (m - n)) en1 = Return (en', Stop)
             | Some x \<Rightarrow> runBspStep ex env k0 (k + int (m - n)) en1 = Return (en', Failure x)))"
proof (induction ex env k0 k n en rule: runBspLoop.induct)
  case (1 ex env k0 k n en)
  show ?case
  proof (cases "ex_max_steps ex \<le> k")
    case True
    with 1(3) have "en' = en" "m = n" "e = None" by (simp_all add: runBspLoop.simps)
    with True 1(2) show ?thesis by auto
  next
    case False
    then obtain en2 out where st: "runBspStep ex env k0 k en = Return (en2, out)"
      using 1(3) by (cases "runBspStep ex env k0 k en") (auto simp: runBspLoop.simps)
    show ?thesis
    proof (cases out)
      case Stop
      with 1(3) st False have "en' = en2" "m = n" "e = None" by (simp_all add: runBspLoop.simps)
      with st Stop 1(2) show ?thesis by auto
    next
      case (Failure x)
      with 1(3) st False have "en' = en2" "m = n" "e = Some x" by (simp_all add: runBspLoop.simps)
      with st Failure 1(2) show ?thesis by auto
    next
      case Executed
      with st have st: "runBspStep ex env k0 k en = Return (en2, Executed)" by simp
      have "reachable ex env k0 en0 (k + 1) en2" using reachable.step[OF 1(2) _ st] False by simp
      moreover have "runBspLoop ex env k0 (k + 1) (Suc n) en2 = Return (en', m, e)"
        using 1(3) st False by (subst (asm) runBspLoop.simps) simp
      ultimately have IH: "Suc n \<le> m" "int (m - Suc n) \<le> max 0 (ex_max_steps ex - (k + 1))"
        "\<exists>en1. reachable ex env k0 en0 (k + 1 + int (m - Suc n)) en1
          \<and> (case e of
               None \<Rightarrow> (ex_max_steps ex \<le> k + 1 + int (m - Suc n) \<and> en' = en1) \<or> runBspStep ex env k0 (k + 1 + int (m - Suc n)) en1 = Return (en', Stop)
             | Some x \<Rightarrow> runBspStep ex env k0 (k + 1 + int (m - Suc n)) en1 = Return (en', Failure x))"
        using 1(1)[OF False st refl refl] by blast+
      have eq: "k + 1 + int (m - Suc n) = k + int (m - n)" using IH(1) by simp
      have "n \<le> m" "int (m - n) \<le> max 0 (ex_max_steps ex - k)" using IH(1,2) False by auto
      with IH(3)[unfolded eq] show ?thesis by blast
    qed
  qed
qed

lemma interrupt_run_outcome: "interrupt_run ex env ie step x en = Return (en', out) \<Longrightarrow> out = Failure (Interrupted ie)"
  by (auto simp: interrupt_run_def run_bind_Return_iff)

lemma after_step_outcome: "after_step ex env step ts en = Return (en', out) \<Longrightarrow> out \<noteq> Stop"
  by (auto simp: after_step_def run_bind_Return_iff dest: interrupt_run_outcome split: option.splits)

lemma run_tasks_outcome: "run_tasks ex env step ts en = Return (en', out) \<Longrightarrow> out \<noteq> Stop"
  by (auto simp: run_tasks_def handleExecuteStepError_def Let_def dest: interrupt_run_outcome after_step_outcome
      split: prod.splits option.splits if_splits)

text \<open>A step stops the run exactly when its plan is empty.\<close>

lemma stopped_step:
  assumes "runBspStep ex env start k en = Return (en', Stop)"
  shows "planTasksForBspStep (en_graph en) (re_entry_predecessors env) start k (en_ec en) = Inl (en_ec en', [])"
proof -
  obtain ec ts where p: "planTasksForBspStep (en_graph en) (re_entry_predecessors env) start k (en_ec en) = Inl (ec, ts)"
    using assms by (cases "planTasksForBspStep (en_graph en) (re_entry_predecessors env) start k (en_ec en)") (auto simp: runBspStep_def)
  have "ts = []"
  proof (rule ccontr)
    assume ne: "ts \<noteq> []"
    with assms p have rq: "re_requested env k = None"
      by (cases "re_requested env k") (auto simp: runBspStep_def Let_def dest: interrupt_run_outcome)
    with assms p ne obtain st sb where "maybeStaticInterruptBefore (en_graph en) ts k (ec_state ec) = Return (st, sb)"
      "(case sb of Some ie \<Rightarrow> interrupt_run ex env ie k [] (en\<lparr>en_ec := ec\<lparr>ec_state := st\<rparr>\<rparr>)
        | None \<Rightarrow> run_tasks ex env k ts (en\<lparr>en_ec := ec\<lparr>ec_state := st\<rparr>\<rparr>)) = Return (en', Stop)"
      by (auto simp: runBspStep_def Let_def run_bind_Return_iff)
    then show False by (cases sb) (auto dest: interrupt_run_outcome run_tasks_outcome)
  qed
  with p assms show ?thesis by (auto simp: runBspStep_def Let_def)
qed

text \<open>
  C11. Every run ends, within the step limit, and in one of three ways: the number of steps it counts is
  at most what is left to the largest step, each of them led to the next; a run without an error found
  nothing more to plan or was cut off at the largest step, which its result does not tell apart; and an
  error is the one the next step failed with.
\<close>

theorem run_outcome:
  assumes "runBspLoop ex env k0 k0 0 en0 = Return (en', m, e)"
  shows "int m \<le> max 0 (ex_max_steps ex - k0)
    \<and> (\<exists>en1. reachable ex env k0 en0 (k0 + int m) en1
         \<and> (case e of
              None \<Rightarrow> (ex_max_steps ex \<le> k0 + int m \<and> en' = en1)
                \<or> planTasksForBspStep (en_graph en1) (re_entry_predecessors env) k0 (k0 + int m) (en_ec en1) = Inl (en_ec en', [])
            | Some x \<Rightarrow> runBspStep ex env k0 (k0 + int m) en1 = Return (en', Failure x)))"
  using loop_outcome[OF reachable.start assms] by (auto dest: stopped_step split: option.splits)

section \<open>Examples\<close>

text \<open>A saver that only knows one tuple.\<close>

definition one_tuple_ops :: "(checkpoint_tuple, unit) saver_ops" where
  "one_tuple_ops = \<lparr>so_Get = (\<lambda>config t. Return (Inl (Some (tp_checkpoint t), config))),
     so_GetTuple = (\<lambda>config t. Return (Inl (Some t, config))), so_List = (\<lambda>config f t. Return (Inl [t])),
     so_Put = (\<lambda>req t. Return (t, Inl [])), so_PutFull = (\<lambda>req t. Return (t, Inl [])), so_DeleteLineage = (\<lambda>l t. (t, None))\<rparr>"

text \<open>An agent and its tools, reached over a conditional edge; the run stopped after the agent.\<close>

definition agent_calls :: "build_op list" where
  "agent_calls = [BNode ''agent'' (\<lambda>k st. (st, Return (NRNil, None))) [], BNode ''tools'' (\<lambda>k st. (st, Return (NRNil, None))) [],
     BEntry ''agent'', BEdge ''tools'' ''agent'', BTools ''agent'' ''tools'' End]"

definition agent_graph :: graph where
  "agent_graph = sg_graph (run_ops (\<lambda>s. ''00'') None agent_calls)"

definition agent_tuple :: checkpoint_tuple where
  "agent_tuple = \<lparr>tp_config = [], tp_checkpoint = (NewCheckpoint ''c'' 1 None [] [])\<lparr>ck_next_nodes := [''tools'']\<rparr>,
     tp_metadata = Some (NewCheckpointMetadata CheckpointSourceLoop 0), tp_parent_config = None,
     tp_pending_writes = [\<lparr>pw_task_id = ''agent-0'', pw_channel = branchChannel ''tools'', pw_value = channelUpdateMarker, pw_sequence = 1\<rparr>]\<rparr>"

lemma agent_compiles: "Compile (run_ops (\<lambda>s. ''00'') None agent_calls) = Inl agent_graph"
proof -
  have "sg_errors (run_ops (\<lambda>s. ''00'') None agent_calls) = [] \<and> validate agent_graph = None" unfolding agent_graph_def by code_simp
  then show ?thesis by (simp add: Compile_def agent_graph_def)
qed

theorem restart_loses_routes_witness:
  "ck_next_nodes (tp_checkpoint agent_tuple) = [''tools'']
   \<and> (\<exists>en. executeGraph \<lparr>ex_saver = Some one_tuple_ops, ex_max_steps = 5\<rparr> demo_run_env agent_graph [] NoCommand agent_tuple
        = Return (Inl (en, 0, None)))"
proof
  let ?ex = "\<lparr>ex_saver = Some one_tuple_ops, ex_max_steps = 5\<rparr> :: (checkpoint_tuple, unit) executor"
  obtain config where c: "CreateCheckpointConfig (lineage_of demo_run_env []) (string_entry CfgKeyCheckpointID [])
       (string_entry CfgKeyCheckpointNS []) = Return config"
    by (simp add: lineage_of_def string_entry_def demo_run_env_def CreateCheckpointConfig_def NewCheckpointConfig_def Let_def)
  have sch: "g_schema agent_graph = []" by code_simp
  have r: "restoreStateFromCheckpoint agent_graph agent_tuple = Return []"
    by (simp add: restoreStateFromCheckpoint_def agent_tuple_def NewCheckpoint_def restore_one_shot_def elems_def sch)
  have s: "subscribers agent_graph (branchChannel ''tools'') = []" by code_simp
  have at: "tp_metadata agent_tuple = Some (NewCheckpointMetadata CheckpointSourceLoop 0)" "keyed_checkpoint (tp_checkpoint agent_tuple)"
    "ck_barrier_sets (tp_checkpoint agent_tuple) = []" "tp_pending_writes agent_tuple \<noteq> []"
    "\<forall>w \<in> set (tp_pending_writes agent_tuple). pw_channel w = branchChannel ''tools''"
    by (simp_all add: agent_tuple_def NewCheckpoint_def keyed_checkpoint_def)
  show "\<exists>en. executeGraph ?ex demo_run_env agent_graph [] NoCommand agent_tuple = Return (Inl (en, 0, None))"
    by (rule restart_loses_routes[OF agent_compiles _ c, of _ one_tuple_ops agent_tuple agent_tuple config "[]"
          "NewCheckpointMetadata CheckpointSourceLoop 0"])
      (use at s in \<open>simp_all add: one_tuple_ops_def r NewCheckpointMetadata_def\<close>)
  show "ck_next_nodes (tp_checkpoint agent_tuple) = [''tools'']" by (simp add: agent_tuple_def)
qed

text \<open>The resumed demo run, saved.\<close>

definition demo_saved :: prepared where
  "demo_saved = demo_prepared\<lparr>pp_config := Some []\<rparr>"

definition saving_executor :: "(checkpoint_tuple, unit) executor" where
  "saving_executor = \<lparr>ex_saver = Some one_tuple_ops, ex_max_steps = 5\<rparr>"

theorem replayed_writes_run_again_witness:
  "\<exists>en. runBspStep saving_executor demo_run_env 1 1 (start_engine demo_graph [] demo_saved agent_tuple) = Return (en, Executed)
     \<and> (\<exists>req r. so_PutFull one_tuple_ops req agent_tuple = Return r
          \<and> (\<forall>p2 k. pp_resumed p2 \<longrightarrow> pp_checkpoint p2 = pf_checkpoint req \<longrightarrow> pp_pending p2 = pf_pending_writes req
              \<longrightarrow> ''b'' \<in> tk_node_id ` set (snd (planBasedOnChannelTriggers (en_graph en) k (start_context (en_graph en) [] p2)))))"
proof -
  have same: "pp_resumed demo_saved = pp_resumed demo_prepared" "pp_checkpoint demo_saved = pp_checkpoint demo_prepared"
    by (simp_all add: demo_saved_def)
  have g: "good_start demo_graph demo_saved" using demo_good_start unfolding good_start_def same .
  then have rs: "ready_start demo_graph demo_saved"
    using fresh_ready by (auto simp: ready_start_def good_start_def consistent_checkpoint_def keyed_checkpoint_def)
  obtain en where e: "runBspStep saving_executor demo_run_env 1 1 (start_engine demo_graph [] demo_saved agent_tuple) = Return (en, Executed)"
    using demo_step[of demo_saved agent_tuple saving_executor]
    by (auto simp: demo_saved_def demo_prepared_def maybeCreateLoopCheckpoint_def createCheckpointAndSave_def saving_executor_def
        one_tuple_ops_def Let_def)
  have f: "first_step demo_saved = 1" by (simp add: first_step_def demo_saved_def demo_prepared_def)
  obtain c where c: "gget (g_channels demo_graph) (branchChannel ''b'') = Some c" "ch_behavior c = BehaviorLastValue"
  proof -
    have "case gget (g_channels demo_graph) (branchChannel ''b'') of Some c \<Rightarrow> ch_behavior c = BehaviorLastValue | None \<Rightarrow> False" by code_simp
    then show ?thesis using that by (auto split: option.splits)
  qed
  have sub: "''b'' \<in> set (subscribers demo_graph (branchChannel ''b''))" "schedulable demo_graph ''b''" by code_simp+
  let ?w = "\<lparr>pw_task_id = ''a-0'', pw_channel = branchChannel ''b'', pw_value = channelUpdateMarker, pw_sequence = 1\<rparr>"
  have "\<exists>req r. so_PutFull one_tuple_ops req agent_tuple = Return r
      \<and> (\<forall>p2 st2 k. pp_resumed p2 \<longrightarrow> pp_checkpoint p2 = pf_checkpoint req \<longrightarrow> pp_pending p2 = pf_pending_writes req
         \<longrightarrow> quiet_inputs (en_graph en) st2
         \<longrightarrow> ''b'' \<in> tk_node_id ` set (snd (planBasedOnChannelTriggers (en_graph en) k (start_context (en_graph en) st2 p2))))"
    using replayed_writes_run_again[OF g rs _ _ _ _ _ e[folded f], of one_tuple_ops "[]" ?w c "''b''"] c sub
    by (auto simp: demo_saved_def demo_prepared_def quiet_inputs_def saving_executor_def)
  moreover have "quiet_inputs (en_graph en) []" by (simp add: quiet_inputs_def)
  ultimately show ?thesis using e by blast
qed

text \<open>Two nodes joined by a third; the run was interrupted when both had arrived.\<close>

definition join_calls :: "build_op list" where
  "join_calls = [BNode ''a'' (\<lambda>k st. (st, Return (NRNil, None))) [], BNode ''b'' (\<lambda>k st. (st, Return (NRNil, None))) [],
     BNode ''c'' (\<lambda>k st. (st, Return (NRNil, None))) [], BEntry ''a'', BEdge ''a'' ''b'', BJoin [''a'', ''b''] ''c'']"

definition join_graph :: graph where
  "join_graph = sg_graph (run_ops (\<lambda>s. ''00'') None join_calls)"

definition join_channel :: string where
  "join_channel = joinChannelName (\<lambda>s. ''00'') ''c'' [''a'', ''b'']"

definition join_base :: prepared where
  "join_base = \<lparr>pp_state = [], pp_config = None, pp_resumed = True, pp_step = 0, pp_checkpoint = Some (NewCheckpoint ''c'' 1 None [] []),
     pp_pending = [\<lparr>pw_task_id = ''a'', pw_channel = join_channel, pw_value = VStr ''a'', pw_sequence = 1\<rparr>,
                   \<lparr>pw_task_id = ''b'', pw_channel = join_channel, pw_value = VStr ''b'', pw_sequence = 2\<rparr>]\<rparr>"

definition join_context :: exec_context where
  "join_context = start_context join_graph [] join_base"

definition join_interrupt :: interrupt_error where
  "join_interrupt = (NewInterruptError VNil)\<lparr>ie_skip_rerun := True\<rparr>"

definition join_resume :: prepared where
  "join_resume = \<lparr>pp_state = [], pp_config = None, pp_resumed = True, pp_step = 1,
     pp_checkpoint = Some (interrupt_checkpoint join_graph ''u'' 0 [] join_interrupt 1 join_context), pp_pending = []\<rparr>"

definition join_state :: state where
  "join_state = [(StateKeyNextNodes, VStrs (Some (rerun_nodes join_interrupt (getNextNodes join_graph join_context))))]"

lemma join_compiles: "Compile (run_ops (\<lambda>s. ''00'') None join_calls) = Inl join_graph"
proof -
  have "sg_errors (run_ops (\<lambda>s. ''00'') None join_calls) = [] \<and> validate join_graph = None" unfolding join_graph_def by code_simp
  then show ?thesis by (simp add: Compile_def join_graph_def)
qed

lemma join_facts:
  "case gget (ec_channels join_context) join_channel of Some ch \<Rightarrow> ch_behavior ch = BehaviorBarrier \<and> IsAvailable ch | None \<Rightarrow> False"
  "''c'' \<in> set (subscribers join_graph join_channel)" "schedulable join_graph ''c''"
  "case graph_Node join_graph ''c'' of None \<Rightarrow> False | Some nd \<Rightarrow> \<not> nd_interrupt_before nd \<and> \<not> nd_interrupt_after nd"
  "case executeNodeFunction join_graph ''c'' k st of (st', (NRNil, None)) \<Rightarrow> True | _ \<Rightarrow> False"
  "graph_ConditionalEdge join_graph ''c'' = None"
  by code_simp+

lemma join_planned:
  "case planTasksForBspStep join_graph [] 2 2 (start_context join_graph join_state join_resume) of
     Inl (ec, ts) \<Rightarrow> length ts = 1 \<and> tk_node_id (hd ts) = ''c'' \<and> tk_writes (hd ts) = [] \<and> tk_overlay (hd ts) = None | Inr _ \<Rightarrow> False"
  by code_simp

lemma join_step: "\<exists>en. runBspStep demo_executor demo_run_env 2 2 (start_engine join_graph join_state join_resume ()) = Return (en, Executed)"
proof -
  obtain ec t where p: "planTasksForBspStep join_graph [] 2 2 (start_context join_graph join_state join_resume) = Inl (ec, [t])"
    and t: "tk_node_id t = ''c''" "tk_writes t = []" "tk_overlay t = None"
    using join_planned
    by (cases "planTasksForBspStep join_graph [] 2 2 (start_context join_graph join_state join_resume)")
      (auto simp: length_Suc_conv)
  show ?thesis
    by (rule one_task_step[of _ _ _ _ ec t])
      (use p t join_facts silent_task[of join_graph t] in
        \<open>auto simp: start_engine_def demo_run_env_def no_break_points maybeCreateLoopCheckpoint_def join_resume_def
          simp del: executeStep.simps split: option.splits\<close>)
qed

theorem interrupted_join_runs_twice_witness:
  "\<exists>en. runBspStep demo_executor demo_run_env 2 2 (start_engine join_graph join_state join_resume ()) = Return (en, Executed)
     \<and> ''c'' \<in> tk_node_id ` set (snd (planBasedOnChannelTriggers (en_graph en) 3 (en_ec en)))"
proof -
  note ready = compiled_ready[OF join_compiles]
  have "mirrored join_graph (ec_channels join_context)"
    unfolding join_context_def
    by (rule mirrored_start) (use ready(1) in \<open>auto simp: ready_start_def join_base_def keyed_checkpoint_def NewCheckpoint_def\<close>)
  moreover have "well_keyed (ec_channels join_context)" unfolding join_context_def by (rule wk_start_context)
  moreover obtain ch where "gget (ec_channels join_context) join_channel = Some ch" "ch_behavior ch = BehaviorBarrier" "IsAvailable ch"
    using join_facts(1) by (auto split: option.splits)
  moreover obtain en where e: "runBspStep demo_executor demo_run_env 2 2 (start_engine join_graph join_state join_resume ()) = Return (en, Executed)"
    using join_step by blast
  moreover have f: "first_step join_resume = 2" by (simp add: first_step_def join_resume_def)
  moreover have "quiet_inputs join_graph join_state" using ready(2) by (simp add: quiet_inputs_def)
  ultimately show ?thesis
    using interrupted_join_runs_twice[of join_graph join_context join_channel ch "''c''" join_interrupt join_resume "''u''" 0 "[]" 1 join_state
        demo_executor demo_run_env "()" en] join_facts(2,3)
    by (auto simp: join_resume_def join_interrupt_def NewInterruptError_def join_state_def)
qed

theorem run_outcome_witness:
  "\<exists>en. runBspLoop demo_executor demo_run_env 1 1 0 demo_start = Return (en, 1, None) \<and> reachable demo_executor demo_run_env 1 demo_start 2 en"
proof -
  obtain en where e: "runBspStep demo_executor demo_run_env 1 1 demo_start = Return (en, Executed)" using demo_step_plain by blast
  then have l: "runBspLoop demo_executor demo_run_env 1 1 0 demo_start = Return (en, 1, None)"
    by (simp add: runBspLoop.simps demo_executor_def)
  from run_outcome[OF l] reachable.step[OF reachable.start, of 1 demo_executor demo_run_env demo_start en] e l show ?thesis
    by (auto simp: demo_executor_def)
qed

end
