(* ===== verification/Engine_Net.thy ===== *)
theory Engine_Net
  imports Engine_Reruns
begin

text \<open>
  What a superstep promises, without channels, versions and availability marks: a net of signals and
  joins.  A superstep of a graph whose nodes route by their edges refines one step of the net, and so
  every edge is followed.
\<close>

section \<open>The net\<close>

text \<open>The signals that are up, and who has arrived at which join.\<close>

record marking =
  mk_signals :: "string set"
  mk_arrived :: "(string \<times> string) set"

definition is_join :: "graph \<Rightarrow> string \<Rightarrow> bool" where
  "is_join g c \<longleftrightarrow> (case gget (g_channels g) c of None \<Rightarrow> False | Some ch \<Rightarrow> ch_behavior ch = BehaviorBarrier)"

definition awaited :: "graph \<Rightarrow> string \<Rightarrow> string set" where
  "awaited g c = (case gget (g_channels g) c of None \<Rightarrow> {} | Some ch \<Rightarrow> set (ch_barrier_expected ch))"

definition heard :: "graph \<Rightarrow> string \<Rightarrow> bool" where
  "heard g c \<longleftrightarrow> subscribers g c \<noteq> []"

definition posts :: "graph \<Rightarrow> string \<Rightarrow> (string \<times> gval) set" where
  "posts g n = (case graph_Node g n of None \<Rightarrow> {} | Some nd \<Rightarrow> (\<lambda>w. (w_channel w, w_value w)) ` set (nd_writers nd))"

definition complete :: "graph \<Rightarrow> marking \<Rightarrow> string \<Rightarrow> bool" where
  "complete g mk c \<longleftrightarrow> (\<forall>s \<in> awaited g c. (c, s) \<in> mk_arrived mk)"

definition enabled :: "graph \<Rightarrow> marking \<Rightarrow> string set" where
  "enabled g mk = {n. schedulable g n \<and> (\<exists>c. n \<in> set (subscribers g c)
     \<and> (if is_join g c then complete g mk c else c \<in> mk_signals mk))}"

text \<open>All enabled nodes fire at once: every signal and every complete join is used up, and what they post is new.\<close>

definition net_step :: "graph \<Rightarrow> marking \<Rightarrow> marking" where
  "net_step g mk =
     \<lparr>mk_signals = {c. heard g c \<and> \<not> is_join g c \<and> (\<exists>n \<in> enabled g mk. \<exists>v. (c, v) \<in> posts g n)},
      mk_arrived = {(c, s). (c, s) \<in> mk_arrived mk \<and> \<not> complete g mk c}
        \<union> {(c, s). heard g c \<and> is_join g c \<and> (\<exists>n \<in> enabled g mk. (c, VStr s) \<in> posts g n)}\<rparr>"

definition abs_marking :: "graph \<Rightarrow> channels \<Rightarrow> marking" where
  "abs_marking g m =
     \<lparr>mk_signals = {c. heard g c \<and> \<not> is_join g c \<and> available_in m c},
      mk_arrived = {(c, s). heard g c \<and> is_join g c \<and> (\<exists>ch. gget m c = Some ch \<and> s \<in> barrier_seen ch)}\<rparr>"

section \<open>Nodes that route by their edges\<close>

definition plain_result :: "node_result \<Rightarrow> bool" where
  "plain_result r = (case r of NRCommand (Some c) \<Rightarrow> cmd_goto c = [] | NRCommands _ \<Rightarrow> False | _ \<Rightarrow> True)"

definition routes_by_edges :: "graph \<Rightarrow> string \<Rightarrow> bool" where
  "routes_by_edges g n \<longleftrightarrow> graph_ConditionalEdge g n = None
     \<and> (\<forall>k st st' r. executeNodeFunction g n k st = (st', (r, None)) \<longrightarrow> plain_result r)"

definition posted :: "task \<Rightarrow> pending_write list" where
  "posted t = map (\<lambda>w. \<lparr>pw_task_id = tk_task_id t, pw_channel = w_channel w, pw_value = w_value w, pw_sequence = 0\<rparr>) (tk_writes t)"

text \<open>The channels after some writes to those that exist.\<close>

definition landed :: "int \<Rightarrow> pending_write list \<Rightarrow> exec_context \<Rightarrow> exec_context \<Rightarrow> bool" where
  "landed step ws ec ec' \<longleftrightarrow> (\<forall>c. gget (ec_channels ec') c = map_option (land step ws c) (gget (ec_channels ec) c))"

lemma landed_same: "ec_channels ec' = ec_channels ec \<Longrightarrow> landed step [] ec ec'"
  by (simp add: landed_def option.map_ident comp_def cong: option.map_cong)

lemma landed_trans: "landed step ws a b \<Longrightarrow> landed step us b c \<Longrightarrow> landed step (ws @ us) a c"
  by (simp add: landed_def option.map_comp comp_def cong: option.map_cong)

lemma landed_cong: "ec_channels b = ec_channels c \<Longrightarrow> landed step ws a b \<Longrightarrow> landed step ws a c"
  by (simp add: landed_def)

lemma landed_cong_left: "ec_channels a = ec_channels b \<Longrightarrow> landed step ws a c \<Longrightarrow> landed step ws b c"
  by (simp add: landed_def)

lemma writes_landed:
  "landed step (map (\<lambda>w. \<lparr>pw_task_id = t, pw_channel = w_channel w, pw_value = w_value w, pw_sequence = 0\<rparr>) ws)
     ec (processChannelWrites tid sid ws step ec)"
proof (induction ws arbitrary: ec)
  case (Cons w ws)
  let ?ec = "write_channel (w_channel w) (w_value w) tid (sender_key (ec_channels ec) w) sid step ec"
  let ?p = "\<lambda>w. \<lparr>pw_task_id = t, pw_channel = w_channel w, pw_value = w_value w, pw_sequence = 0\<rparr>"
  have "landed step [?p w] ec ?ec"
    unfolding landed_def
  proof
    fix c
    show "gget (ec_channels ?ec) c = map_option (land step [?p w] c) (gget (ec_channels ec) c)"
      by (cases "gget (ec_channels ec) c") (auto simp: update_channel_get)
  qed
  from landed_trans[OF this Cons[of ?ec]] show ?case by simp
qed (simp add: landed_same)

lemma attempts_channels:
  "execute_attempts g policies env nodeID k a st ec = (st', ec', n, r) \<Longrightarrow> ec_channels ec' = ec_channels ec"
proof (induction g policies env nodeID k a st ec rule: execute_attempts.induct)
  case (1 g policies env nodeID k a st ec)
  obtain s1 x err where f: "executeNodeFunction g nodeID a st = (s1, (x, err))" by (metis surj_pair)
  show ?case
  proof (cases "\<exists>e. err = Some e \<and> evaluateRetryDecision policies nodeID k (int a) (env (int a)) e = None")
    case True
    then obtain e where e: "err = Some e" "evaluateRetryDecision policies nodeID k (int a) (env (int a)) e = None" by blast
    have "execute_attempts g policies env nodeID k (Suc a) s1 (syncResumeState s1 ec) = (st', ec', n, r)"
      using 1(2) f e by (subst (asm) execute_attempts.simps) simp
    from 1(1)[OF refl f[symmetric] refl refl e this] show ?thesis by (simp add: syncResumeState_def)
  next
    case False
    with 1(2) f have "ec' = syncResumeState s1 ec"
      by (subst (asm) execute_attempts.simps) (auto simp: Let_def split: option.splits)
    then show ?thesis by (simp add: syncResumeState_def)
  qed
qed

lemma plain_handled:
  assumes "plain_result r" "handleNodeResult t r step (g, ec) = Return ((g', ec'), routed)"
  shows "g' = g \<and> \<not> routed \<and> landed step (posted t) ec ec'"
proof -
  have st: "landed step (posted t) ec0 (static_writes t step ec0)" for ec0
    unfolding static_writes_def posted_def by (rule writes_landed)
  have up: "ec_channels ec1 = ec_channels ec" if "updateStateFromResult g s ec = Return ec1" for s ec1
    using that by (auto simp: updateStateFromResult_def run_bind_Return_iff replace_state_def)
  show ?thesis
  proof (cases r)
    case (NRState s)
    then obtain ec1 where "updateStateFromResult g s ec = Return ec1" "g' = g" "\<not> routed" "ec' = static_writes t step ec1"
      using assms(2) by (auto simp: handleNodeResult_def run_bind_Return_iff)
    with st[of ec1] up show ?thesis using landed_cong_left by metis
  next
    case (NRCommand oc)
    show ?thesis
    proof (cases oc)
      case None
      with NRCommand assms(2) st show ?thesis by (auto simp: handleNodeResult_def)
    next
      case (Some c)
      have "resolve_goto g (tk_node_id t) (cmd_goto c) = []" using assms(1) NRCommand Some by (simp add: plain_result_def resolve_goto_def)
      then obtain ec1 where u: "(if cmd_update c \<noteq> [] then updateStateFromResult g (cmd_update c) ec else Return ec) = Return ec1"
        and r: "g' = g" "\<not> routed" "ec' = static_writes t step ec1"
        using assms(2) NRCommand Some
        by (auto simp: handleNodeResult_def handleCommandResult_def Let_def run_bind_Return_iff split: if_splits)
      have "ec_channels ec1 = ec_channels ec" using u up by (auto split: if_splits)
      with r st[of ec1] show ?thesis using landed_cong_left by metis
    qed
  qed (use assms st in \<open>auto simp: handleNodeResult_def plain_result_def\<close>)
qed

lemma task_landed:
  assumes "routes_by_edges g (tk_node_id t)" "run_task env step t (g, ec) = ((g', ec'), None)"
  shows "g' = g \<and> landed step (posted t) ec ec'"
proof -
  define tr where "tr = se_trace env (tk_task_id t)"
  obtain copy where copy: "buildTaskStateCopy g ec t = Return copy"
    using assms(2) by (cases "buildTaskStateCopy g ec t") (auto simp: run_task_def executeSingleTask_def)
  let ?ec1 = "recordTraceStepID (tk_task_id t) tr ec"
  let ?copy = "if tr \<noteq> [] then gput currentTraceStepIDStateKey (VStr tr) copy else copy"
  obtain st ec2 n r where at: "execute_attempts g (se_policies env (tk_node_id t)) (se_attempts env (tk_task_id t)) (tk_node_id t) step 1 ?copy ?ec1 = (st, ec2, n, r)"
    by (metis prod_cases4)
  have ch2: "ec_channels (syncResumeState st ec2) = ec_channels ec"
    using attempts_channels[OF at] by (simp add: syncResumeState_def recordTraceStepID_def)
  obtain g3 ec3 e3 where fin: "(case r of Inr te \<Rightarrow> ((g, ec2), Some te)
      | Inl result \<Rightarrow> finalize_result t result step (g, syncResumeState st ec2)) = ((g3, ec3), e3)"
    by (metis surj_pair)
  have res: "run_task env step t (g, ec) = ((g3, clearTraceStepID (tk_task_id t) ec3), e3)"
    using at fin by (simp add: run_task_def executeSingleTask_def copy Let_def flip: tr_def)
  have e: "e3 = None" "g' = g3" "ec' = clearTraceStepID (tk_task_id t) ec3" using res assms(2) by auto
  obtain x where x: "r = Inl x" using fin e(1) by (cases r) auto
  obtain s where "executeNodeFunction g (tk_node_id t) n s = (st, x, None)"
    using execute_attempts_inv[OF at] x by auto
  then have plain: "plain_result x" using assms(1) by (simp add: routes_by_edges_def)
  let ?s0 = "(g, syncResumeState st ec2)"
  have fin: "finalize_result t x step ?s0 = ((g3, ec3), None)" using fin x e(1) by simp
  obtain g4 ec4 routed where h: "handleNodeResult t x step ?s0 = Return ((g4, ec4), routed)"
    using fin by (cases "handleNodeResult t x step ?s0") (auto simp: finalize_result_def)
  from plain_handled[OF plain h] have h4: "g4 = g" "\<not> routed" "landed step (posted t) (syncResumeState st ec2) ec4" by auto
  have cond: "processConditionalEdges t step (g, ec5) = Return ((g, ec5), None)" for ec5
    using assms(1) by (simp add: processConditionalEdges_def routes_by_edges_def)
  have "g3 = g \<and> ec_channels ec3 = ec_channels ec4"
    using fin h h4 by (simp add: finalize_result_def Let_def cond) (auto simp: updateVersionsSeen_def)
  moreover have "ec_channels ec' = ec_channels ec3" using e(3) by (simp add: clearTraceStepID_def)
  ultimately show ?thesis
    using e(2) landed_cong_left[OF ch2 h4(3)] landed_cong[of ec4 ec' step "posted t" ec] by simp
qed

lemma step_landed:
  assumes "\<forall>t \<in> set ts. routes_by_edges g (tk_node_id t)" "executeStep env step ts (g, ec) = ((g', ec'), None)"
  shows "g' = g \<and> landed step (concat (map posted ts)) ec ec'"
  using assms
proof (induction ts arbitrary: ec)
  case (Cons t ts)
  obtain g1 ec1 e1 where t: "run_task env step t (g, ec) = ((g1, ec1), e1)" by (metis surj_pair)
  obtain s2 e2 where r: "executeStep env step ts (g1, ec1) = (s2, e2)" by (metis surj_pair)
  have e: "e1 = None" "e2 = None" "s2 = (g', ec')" using Cons.prems(2) t r by (auto split: option.splits)
  then have 1: "g1 = g" "landed step (posted t) ec ec1" using task_landed[of g t env step ec] Cons.prems(1) t by auto
  then have "g' = g \<and> landed step (concat (map posted ts)) ec1 ec'" using Cons.IH[of ec1] Cons.prems(1) r e by simp
  with landed_trans[OF 1(2)] show ?case by simp
qed (simp add: landed_same)

section \<open>A superstep is a step of the net\<close>

text \<open>What the abstraction reads off a run whose channels mirror the graph's.\<close>

lemma heard_channel:
  assumes "mirrored g m" "heard g c"
  obtains gc ch where "gget (g_channels g) c = Some gc" "gget m c = Some ch" "ch_ok ch" "is_join g c \<longleftrightarrow> ch_behavior ch = BehaviorBarrier"
    "is_join g c \<Longrightarrow> awaited g c = set (ch_barrier_expected ch) \<and> awaited g c \<noteq> {}"
proof -
  obtain gc where gc: "gget (g_channels g) c = Some gc"
    using assms by (auto simp: mirrored_def graph_ready_def heard_def keyset_get)
  then obtain ch where ch: "gget m c = Some ch" "same_kind gc ch" using assms(1) unfolding mirrored_def by blast
  moreover have "ch_ok ch" using assms(1) ch(1) unfolding mirrored_def by blast
  moreover have "ch_barrier_expected gc \<noteq> []" if "ch_behavior gc = BehaviorBarrier"
    using assms(1) gc that unfolding mirrored_def graph_ready_def proper_joins_def by blast
  ultimately show thesis using gc by (intro that[of gc ch]) (auto simp: same_kind_def is_join_def awaited_def)
qed

lemma join_available:
  assumes "mirrored g m" "heard g c" "is_join g c"
  shows "available_in m c \<longleftrightarrow> complete g (abs_marking g m) c"
proof -
  obtain gc ch where c: "gget m c = Some ch" "ch_ok ch" "ch_behavior ch = BehaviorBarrier"
      "awaited g c = set (ch_barrier_expected ch)" "awaited g c \<noteq> {}"
    using heard_channel[OF assms(1,2)] assms(3) by metis
  then have "IsAvailable ch \<longleftrightarrow> awaited g c \<subseteq> barrier_seen ch" by (auto simp: ch_ok_def isBarrierSatisfied_iff)
  with assms(2,3) c(1) show ?thesis by (auto simp: available_in_def complete_def abs_marking_def)
qed

lemma enabled_triggered:
  assumes "mirrored g m"
  shows "triggered g m = enabled g (abs_marking g m)"
proof -
  have "available_in m c \<longleftrightarrow> (if is_join g c then complete g (abs_marking g m) c else c \<in> mk_signals (abs_marking g m))"
    if "n \<in> set (subscribers g c)" for n c
  proof -
    have "heard g c" using that by (auto simp: heard_def)
    with join_available[OF assms] show ?thesis by (simp add: abs_marking_def)
  qed
  then show ?thesis unfolding triggered_def enabled_def by blast
qed

lemma finite_triggered: "finite (triggered g m)"
  by (rule finite_subset[of _ "keyset (g_nodes g)"]) (auto simp: triggered_def schedulable_def graph_Node_def keyset_get)

text \<open>What the tasks of the plan post is what their nodes post.\<close>

lemma posted_of_plan:
  assumes "list_all (task_for g step) ts"
  shows "written (concat (map posted ts)) c \<longleftrightarrow> (\<exists>n \<in> tk_node_id ` set ts. \<exists>v. (c, v) \<in> posts g n)"
    "sent (concat (map posted ts)) c = {s. \<exists>n \<in> tk_node_id ` set ts. (c, VStr s) \<in> posts g n}"
proof -
  have "(c, v) \<in> posts g (tk_node_id t) \<longleftrightarrow> (\<exists>w \<in> set (tk_writes t). w_channel w = c \<and> w_value w = v)" if "t \<in> set ts" for t v
    using assms that by (fastforce simp: list_all_iff task_for_def posts_def)
  then show "written (concat (map posted ts)) c \<longleftrightarrow> (\<exists>n \<in> tk_node_id ` set ts. \<exists>v. (c, v) \<in> posts g n)"
    "sent (concat (map posted ts)) c = {s. \<exists>n \<in> tk_node_id ` set ts. (c, VStr s) \<in> posts g n}"
    by (auto simp: written_def sent_def posted_def)
qed

lemma acknowledged_channel:
  "ch_behavior (Acknowledge c) = ch_behavior c" "\<not> IsAvailable (Acknowledge c)"
  "ch_behavior c = BehaviorBarrier \<Longrightarrow> barrier_seen (Acknowledge c) = {}"
  by (simp_all add: Acknowledge_def IsAvailable_def barrier_seen_def Let_def)

lemma landed_get: "landed step ws a b \<Longrightarrow> gget (ec_channels a) c = Some ch \<Longrightarrow> gget (ec_channels b) c = Some (land step ws c ch)"
  by (simp add: landed_def)

lemma channel_plan:
  assumes "planBasedOnChannelTriggers g k ec = (ec', ts)" "well_keyed (g_triggers g)" "well_keyed (ec_channels ec)"
  shows "list_all (task_for g k) ts"
    "c \<in> keyset (g_triggers g) \<Longrightarrow> gget (ec_channels ec') c =
       (if available_in (ec_channels ec) c then map_option Acknowledge (gget (ec_channels ec) c) else gget (ec_channels ec) c)"
  using assms(1) availability_plan(2,4)[OF _ assms(2), of k ec ec' ts] version_plan(2,4)[OF _ assms(3), of g _ k ec' ts]
  by (auto simp: planBasedOnChannelTriggers_def split: option.splits if_splits)

lemma superstep_net:
  assumes "mirrored g (ec_channels ec)" "well_keyed (ec_channels ec)"
    "tk_node_id ` set (snd (planBasedOnChannelTriggers g k (ec\<lparr>ec_planned := None\<rparr>))) = triggered g (ec_channels ec)"
    "gget (ec_state ec) StateKeyNextNodes = None" "ec_pending_tasks ec = []" "k \<noteq> 0"
    "planTasksForBspStep g preds start k ec = Inl (ec1, ts)"
    "\<forall>n \<in> enabled g (abs_marking g (ec_channels ec)). routes_by_edges g n"
    "executeStep env k ts (g, ec1\<lparr>ec_state := st\<rparr>) = ((g', ec2), None)"
  shows "g' = g \<and> tk_node_id ` set ts = enabled g (abs_marking g (ec_channels ec))
    \<and> abs_marking g (ec_channels ec2) = net_step g (abs_marking g (ec_channels ec))"
proof -
  let ?m = "ec_channels ec" and ?ws = "concat (map posted ts)"
  let ?mk = "abs_marking g ?m"
  have wk: "well_keyed (g_triggers g)" using assms(1) by (simp add: mirrored_def graph_ready_def)
  have plan: "planBasedOnChannelTriggers g k (ec\<lparr>ec_planned := None\<rparr>) = (ec1, ts)"
    using assms(7) plan_after_first[OF assms(4-6), of g preds start] by simp
  note pl = channel_plan[OF plan wk, simplified, OF assms(2)]
  have ran: "tk_node_id ` set ts = enabled g ?mk"
    using assms(3) plan enabled_triggered[OF assms(1)] by simp
  then have by_edges: "\<forall>t \<in> set ts. routes_by_edges g (tk_node_id t)" using assms(8) by auto
  from step_landed[OF this assms(9)] have g': "g' = g" and "landed k ?ws (ec1\<lparr>ec_state := st\<rparr>) ec2" by auto
  then have land: "landed k ?ws ec1 ec2" by (rule_tac landed_cong_left[of "ec1\<lparr>ec_state := st\<rparr>"]) simp_all
  note ws = posted_of_plan[OF pl(1), unfolded ran]
  have mir1: "mirrored g (ec_channels ec1)" by (rule mirrored_plan[OF assms(7,1)])
  have heard_trigger: "c \<in> keyset (g_triggers g)" if "heard g c" for c
    using that by (auto simp: heard_def subscribers_def getTriggerToNodes_def keyset_get split: option.splits)
  have get2: "gget (ec_channels ec2) c = Some (land k ?ws c (if available_in ?m c then Acknowledge ch else ch))"
    if "heard g c" "gget ?m c = Some ch" for c ch
    by (rule landed_get[OF land]) (simp add: pl(2) that heard_trigger)
  have signals: "available_in (ec_channels ec2) c \<longleftrightarrow> written ?ws c" if c: "heard g c" "\<not> is_join g c" for c
  proof -
    obtain gc ch where ch: "gget ?m c = Some ch" "ch_behavior ch \<noteq> BehaviorBarrier"
      using heard_channel[OF assms(1) c(1)] c(2) by metis
    then show ?thesis
      by (simp add: available_in_def[of "ec_channels ec2"] get2[OF c(1)] land_available acknowledged_channel)
        (simp add: available_in_def)
  qed
  have arrived: "(\<exists>ch. gget (ec_channels ec2) c = Some ch \<and> s \<in> barrier_seen ch)
      \<longleftrightarrow> ((c, s) \<in> mk_arrived ?mk \<and> \<not> complete g ?mk c) \<or> s \<in> sent ?ws c" if c: "heard g c" "is_join g c" for c s
  proof -
    obtain gc ch where ch: "gget ?m c = Some ch" "ch_behavior ch = BehaviorBarrier"
      using heard_channel[OF assms(1) c(1)] c(2) by metis
    show ?thesis
    proof (cases "available_in ?m c")
      case True
      with join_available[OF assms(1) c] get2[OF c(1) ch(1)] ch(2) show ?thesis
        by (simp add: land_barrier acknowledged_channel)
    next
      case False
      with join_available[OF assms(1) c] get2[OF c(1) ch(1)] ch c show ?thesis
        by (simp add: land_barrier abs_marking_def)
    qed
  qed
  have "abs_marking g (ec_channels ec2) = net_step g ?mk"
  proof -
    have "{c. heard g c \<and> \<not> is_join g c \<and> available_in (ec_channels ec2) c}
        = {c. heard g c \<and> \<not> is_join g c \<and> (\<exists>n \<in> enabled g ?mk. \<exists>v. (c, v) \<in> posts g n)}"
      using signals ws(1) by auto
    moreover have "(heard g c \<and> is_join g c \<and> (\<exists>ch. gget (ec_channels ec2) c = Some ch \<and> s \<in> barrier_seen ch))
        \<longleftrightarrow> ((c, s) \<in> mk_arrived ?mk \<and> \<not> complete g ?mk c)
          \<or> (heard g c \<and> is_join g c \<and> (\<exists>n \<in> enabled g ?mk. (c, VStr s) \<in> posts g n))" for c s
    proof (cases "heard g c \<and> is_join g c")
      case True
      with arrived[of c s] ws(2)[of c] show ?thesis by simp
    qed (auto simp: abs_marking_def)
    ultimately show ?thesis unfolding abs_marking_def[of g "ec_channels ec2"] net_step_def by auto
  qed
  with g' ran show ?thesis by simp
qed

text \<open>What holds in every state of a run.\<close>

lemma run_net_ready:
  assumes "good_start g0 p" "ready_start g0 p" "input_checkpoint ex env (pp_resumed p) (start_engine g0 st0 p s) = Return en0"
    "reachable ex env (first_step p) en0 k en"
  shows "mirrored (en_graph en) (ec_channels (en_ec en))" "well_keyed (ec_channels (en_ec en))"
    "tk_node_id ` set (snd (planBasedOnChannelTriggers (en_graph en) k ((en_ec en)\<lparr>ec_planned := None\<rparr>)))
      = triggered (en_graph en) (ec_channels (en_ec en))"
proof -
  show "mirrored (en_graph en) (ec_channels (en_ec en))" by (rule run_mirrored[OF assms(2-4)])
  show "well_keyed (ec_channels (en_ec en))"
    using run_advances[OF assms(3,4)] wk_start_context[of g0 st0 p] assms(1) by (auto simp: advances_def good_start_def)
  have "map tk_node_id (snd (planBasedOnChannelTriggers (en_graph en) k ((en_ec en)\<lparr>ec_planned := None\<rparr>)))
      = sorted_list_of_set (triggered (en_graph en) (ec_channels (en_ec en)))"
    by (rule run_plans_fully[OF assms(1,3,4)]) simp_all
  from arg_cong[OF this, of set] finite_triggered[of "en_graph en" "ec_channels (en_ec en)"]
  show "tk_node_id ` set (snd (planBasedOnChannelTriggers (en_graph en) k ((en_ec en)\<lparr>ec_planned := None\<rparr>)))
      = triggered (en_graph en) (ec_channels (en_ec en))" by simp
qed


section \<open>Every edge is followed\<close>

lemma reachable_extends:
  "reachable ex env start en0 k en \<Longrightarrow> graph_extends (view_of en0) (view_of en)"
proof (induction rule: reachable.induct)
  case start
  show ?case by (rule extend.R_refl)
next
  case (step k en en')
  from executed_step[OF step.hyps(3)] obtain ec ts st ec1
    where "executeStep (re_steps env k) k ts (en_graph en, ec\<lparr>ec_state := st\<rparr>) = ((en_graph en', ec1), None)" by blast
  then have "graph_extends (en_graph en, ec\<lparr>ec_state := st\<rparr>) (en_graph en', ec1)"
    using extend.R_step[of "(en_graph en, ec\<lparr>ec_state := st\<rparr>)" "re_steps env k" k ts] by simp
  then have "graph_extends (view_of en) (view_of en')" by (simp add: graph_extends_def)
  with step.IH show ?case using extend.R_trans by blast
qed

lemma edge_channel:
  assumes "Compile (run_ops h sch ops) = Inl g0" "graph_extends (g0, ec0) (g, ec)" "e \<in> set (graph_Edges g0 a)" "e_to e \<noteq> End" "a \<noteq> Start"
  obtains c v where "e_to e \<in> set (subscribers g c)" "schedulable g (e_to e)" "(c, v) \<in> posts g a" "is_join g c \<Longrightarrow> v = VStr a"
proof -
  note wf = compiled_ready[OF assms(1)]
  have "edge_wired g0 a (e_to e)" using wf(3) assms(3) by (auto simp: graph_wf_def edges_wired_def)
  then obtain c where c: "c \<in> chans g0" "c \<in> writes g0 a" "e_to e \<in> nodes g0" "e_to e \<in> triggered_by g0 c"
    using assms(4,5) by (auto simp: edge_wired_def)
  then obtain nd w where w: "gget (g_nodes g0) a = Some nd" "w \<in> set (nd_writers nd)" "w_channel w = c"
    by (auto simp: writes_def split: option.splits)
  have same: "same_graph g0 g" and sub: "set (subscribers g0 c) \<subseteq> set (subscribers g c)"
    and chn: "\<And>n c. gget (g_channels g0) n = Some c \<Longrightarrow> gget (g_channels g) n = Some c"
    using assms(2) by (auto simp: graph_extends_def)
  have "w_value w = VStr a" if "is_join g c"
  proof -
    obtain ch where ch: "gget (g_channels g0) c = Some ch" using c(1) by (auto simp: keyset_get)
    with that chn have "ch_behavior ch = BehaviorBarrier" by (fastforce simp: is_join_def)
    with ch wf(4) have "take 5 c = ''join:''" unfolding tidy_def by blast
    with w wf(5) show ?thesis unfolding signed_def by blast
  qed
  moreover have "(c, w_value w) \<in> posts g a"
    using w same by (auto simp: posts_def graph_Node_def same_graph_def)
  moreover have "schedulable g (e_to e)"
    using c(3) assms(4) same by (auto simp: schedulable_def graph_Node_def same_graph_def keyset_get)
  moreover have "e_to e \<in> set (subscribers g c)" using c(4) sub by (auto simp: triggered_by_subscribers)
  ultimately show thesis by (intro that[of c "w_value w"])
qed

text \<open>A node that was signalled is enabled, and one that listens to a join is enabled or waits for somebody.\<close>

lemma follows_or_waits:
  assumes "mirrored g m" "n \<in> set (subscribers g c)" "schedulable g n"
    "c \<in> mk_signals (abs_marking g m) \<or> (is_join g c \<and> (c, a) \<in> mk_arrived (abs_marking g m))"
  shows "n \<in> enabled g (abs_marking g m)
    \<or> (\<exists>ch other. gget m c = Some ch \<and> ch_behavior ch = BehaviorBarrier \<and> a \<in> barrier_seen ch
         \<and> other \<in> set (ch_barrier_expected ch) \<and> other \<notin> barrier_seen ch)"
proof (cases "is_join g c")
  case False
  with assms(2-4) show ?thesis by (auto simp: enabled_def)
next
  case True
  have heard: "heard g c" using assms(2) by (auto simp: heard_def)
  obtain gc ch where ch: "gget m c = Some ch" "ch_behavior ch = BehaviorBarrier" "awaited g c = set (ch_barrier_expected ch)"
    using heard_channel[OF assms(1) heard] True by metis
  have "a \<in> barrier_seen ch" using assms(4) True ch(1) by (auto simp: abs_marking_def)
  moreover have "n \<in> enabled g (abs_marking g m)" if "set (ch_barrier_expected ch) \<subseteq> barrier_seen ch"
    using that ch True heard assms(2,3) by (auto simp: enabled_def complete_def abs_marking_def)
  ultimately show ?thesis using ch by auto
qed


section \<open>Three nodes in a row\<close>

definition silent :: node_func where
  "silent k st = (st, Return (NRNil, None))"

definition chain_ops :: "build_op list" where
  "chain_ops = [BNode ''a'' silent [], BNode ''b'' silent [], BNode ''c'' silent [], BEntry ''a'', BEdge ''a'' ''b'', BEdge ''b'' ''c'']"

definition chain_graph :: graph where
  "chain_graph = sg_graph (run_ops id None chain_ops)"

text \<open>The run resumes after the first node, whose write to the second is pending.\<close>

abbreviation chain_start :: "unit engine" where
  "chain_start \<equiv> start_engine chain_graph [] demo_prepared ()"

lemma chain_compiled: "Compile (run_ops id None chain_ops) = Inl chain_graph"
proof -
  have "sg_errors (run_ops id None chain_ops) = []" "validate chain_graph = None" by code_simp+
  then show ?thesis by (simp add: Compile_def chain_graph_def)
qed

lemma chain_good: "good_start chain_graph demo_prepared" "ready_start chain_graph demo_prepared"
proof -
  have "well_keyed (g_channels chain_graph)" "well_keyed (g_triggers chain_graph)"
    "ghas (g_channels chain_graph) (branchChannel ''b'')" by code_simp+
  then show "good_start chain_graph demo_prepared"
    by (auto simp: good_start_def demo_prepared_def consistent_checkpoint_def demo_checkpoint_def NewCheckpoint_def
        seen_within_def ghas_keyset well_keyed_def keyset_def split: if_splits)
  show "ready_start chain_graph demo_prepared"
    using compiled_ready(1)[OF chain_compiled]
    by (simp add: ready_start_def demo_prepared_def keyed_checkpoint_def demo_checkpoint_def NewCheckpoint_def well_keyed_def)
qed

lemma chain_reachable:
  "input_checkpoint demo_executor demo_run_env (pp_resumed demo_prepared) chain_start = Return chain_start"
  "reachable demo_executor demo_run_env (first_step demo_prepared) chain_start 1 chain_start"
proof -
  show "input_checkpoint demo_executor demo_run_env (pp_resumed demo_prepared) chain_start = Return chain_start"
    by (simp add: input_checkpoint_def demo_prepared_def start_engine_def)
  have "first_step demo_prepared = 1" by (simp add: first_step_def demo_prepared_def)
  then show "reachable demo_executor demo_run_env (first_step demo_prepared) chain_start 1 chain_start"
    using reachable.start by metis
qed

lemma chain_nodes: "list_all (\<lambda>(n, nd). nd_function nd = Some silent) (g_nodes chain_graph) \<and> g_cond chain_graph = []"
  by (simp add: chain_graph_def chain_ops_def run_ops_def AddNode_def new_node_def addNode_def NewStateGraph_def graph_New_def
      addNodeTriggerChannel_def update_node_def graph_addChannel_def ghas_def AddEdge_def addEdge_def SetEntryPoint_def
      setEntryPoint_def addNodeTrigger_def addNodeWriter_def Let_def branchChannel_def triggerChannel_def Start_def End_def)

lemma chain_routes: "routes_by_edges chain_graph n"
proof -
  have "nd_function nd = Some silent" if "gget (g_nodes chain_graph) n = Some nd" for nd
    using chain_nodes that by (auto simp: list_all_iff dest: map_of_SomeD)
  then have "executeNodeFunction chain_graph n k st = (st', r, None) \<Longrightarrow> r = NRNil" for k st st' r
    by (auto simp: executeNodeFunction_def graph_Node_def silent_def split: option.splits)
  then show ?thesis
    using chain_nodes by (fastforce simp: routes_by_edges_def plain_result_def graph_ConditionalEdge_def)
qed

lemma chain_plan:
  "case planTasksForBspStep chain_graph [] 1 1 (start_context chain_graph [] demo_prepared) of
     Inl (ec, ts) \<Rightarrow> length ts = 1 \<and> tk_node_id (hd ts) = ''b'' \<and> tk_overlay (hd ts) = None | Inr _ \<Rightarrow> False"
  by code_simp

lemma chain_step:
  "\<exists>ec t ec'. planTasksForBspStep (en_graph chain_start) [] 1 1 (en_ec chain_start) = Inl (ec, [t]) \<and> tk_node_id t = ''b''
     \<and> executeStep demo_env 1 [t] (en_graph chain_start, ec\<lparr>ec_state := []\<rparr>) = ((chain_graph, ec'), None)"
proof -
  obtain ec t where p: "planTasksForBspStep chain_graph [] 1 1 (start_context chain_graph [] demo_prepared) = Inl (ec, [t])"
    and t: "tk_node_id t = ''b''" "tk_overlay t = None"
    using chain_plan
    by (cases "planTasksForBspStep chain_graph [] 1 1 (start_context chain_graph [] demo_prepared)")
      (auto simp: length_Suc_conv)
  have "case executeNodeFunction chain_graph ''b'' k st of (st', (NRNil, None)) \<Rightarrow> True | _ \<Rightarrow> False" for k st
    by code_simp
  then have "\<exists>ec'. executeStep demo_env 1 [t] (chain_graph, ec\<lparr>ec_state := []\<rparr>) = ((chain_graph, ec'), None)"
    using silent_task[of chain_graph t] t chain_nodes by (simp add: graph_ConditionalEdge_def del: executeStep.simps)
  with p t show ?thesis by (auto simp: start_engine_def simp del: executeStep.simps)
qed

lemma chain_fields: "gget (ec_state (en_ec chain_start)) StateKeyNextNodes = None" "ec_pending_tasks (en_ec chain_start) = []"
  by (simp_all add: start_engine_def start_context_fields)



end
