(* ===== verification/Dag_Outcomes.thy ===== *)
theory Dag_Outcomes
  imports Dag_Props Engine_Net
begin

text \<open>
  How runs of the eager engine end: what each outcome means for the work of the run, and the cases in
  which a run blocks, loses an error or takes the program with it.
\<close>

section \<open>The end of a run\<close>

text \<open>\<open>run\<close>: the loop ends in its first round or after an event.\<close>

inductive dag_ends ::
    "('s, 'e) executor \<Rightarrow> dag_env \<Rightarrow> 's dag \<Rightarrow> 's dag \<Rightarrow> dag_error option \<Rightarrow> bool" for ex env dg0 where
  at_once: "requested \<longrightarrow> dv_watched env \<Longrightarrow> dag_turn ex env requested dg0 = Return (dg, Some out) \<Longrightarrow> dag_ends ex env dg0 dg out"
| later: "dag_trace ex env dg0 evs dg \<Longrightarrow> dag_event_step ex env ev dg = Some (Return (dg', Some out)) \<Longrightarrow> dag_ends ex env dg0 dg' out"

section \<open>Why the loop drains\<close>

text \<open>
  The loop drains because of the step limit or because of an error, never both, and an interrupt is
  pending only while it drains because of an error.
\<close>

definition drain :: "'s dag \<Rightarrow> bool \<times> bool \<times> dag_error option \<times> interrupt_error option" where
  "drain dg = (dg_draining dg, dg_drain_max dg, dg_drain_err dg, dg_pending_intr dg)"

fun drain_ok :: "bool \<Rightarrow> bool \<times> bool \<times> dag_error option \<times> interrupt_error option \<Rightarrow> bool" where
  "drain_ok full (d, m, e, i) \<longleftrightarrow>
     (m \<longrightarrow> d \<and> e = None \<and> full) \<and> (d \<and> \<not> m \<longrightarrow> e \<noteq> None) \<and> (\<not> d \<longrightarrow> e = None)
     \<and> (i \<noteq> None \<longleftrightarrow> (\<exists>ie. e = Some (DagInterrupted ie)))"

definition drain_inv :: "('s, 'e) executor \<Rightarrow> 's dag \<Rightarrow> bool" where
  "drain_inv ex dg = drain_ok (ex_max_steps ex \<le> dg_next_step dg) (drain dg)"

lemma drain_keeps: "drain_inv ex dg \<Longrightarrow> drain dg' = drain dg \<Longrightarrow> dg_next_step dg' = dg_next_step dg \<Longrightarrow> drain_inv ex dg'"
  by (simp add: drain_inv_def)

lemma drain_simps [simp]:
  "drain (queue ts dg) = drain dg" "drain (queuePlannedTasks dg) = drain dg" "drain (planIfIdle dg) = drain dg"
  "drain (maybeRequestExternalInterrupt q dg) = drain dg" "drain (release_node n dg) = drain dg"
  "drain (recordRerunNode r dg) = drain dg" "drain (settle dg) = drain dg" "drain (launchTask t k dg) = drain dg"
  by (auto simp: drain_def queue_def queuePlannedTasks_def planIfIdle_def maybeRequestExternalInterrupt_def release_node_def
      recordRerunNode_def recordGraphInterruptInput_def settle_def launchTask_def Let_def
      split: option.split prod.split list.split)

lemma next_simps [simp]:
  "dg_next_step (queue ts dg) = dg_next_step dg" "dg_next_step (queuePlannedTasks dg) = dg_next_step dg"
  "dg_next_step (planIfIdle dg) = dg_next_step dg" "dg_next_step (maybeRequestExternalInterrupt q dg) = dg_next_step dg"
  "dg_next_step (release_node n dg) = dg_next_step dg" "dg_next_step (recordRerunNode r dg) = dg_next_step dg"
  "dg_next_step (settle dg) = dg_next_step dg" "dg_next_step (startDraining e dg) = dg_next_step dg"
  "dg_next_step (startDrainingMaxStep dg) = dg_next_step dg" "dg_next_step (startDrainingInterrupt ie step x dg) = dg_next_step dg"
  by (auto simp: startDraining_def startDrainingMaxStep_def startDrainingInterrupt_def queue_def queuePlannedTasks_def
      planIfIdle_def maybeRequestExternalInterrupt_def release_node_def
      recordRerunNode_def recordGraphInterruptInput_def settle_def Let_def
      split: option.split prod.split list.split)

lemma drain_starts:
  assumes "drain_inv ex dg" "\<not> dg_draining dg"
  shows "(\<forall>ie. e \<noteq> DagInterrupted ie) \<Longrightarrow> drain_inv ex (startDraining e dg)" "drain_inv ex (startDrainingInterrupt ie step x dg)"
    "ex_max_steps ex \<le> dg_next_step dg \<Longrightarrow> drain_inv ex (startDrainingMaxStep dg)"
  using assms
  by (auto simp: drain_inv_def drain_def startDraining_def startDrainingMaxStep_def startDrainingInterrupt_def)

lemma static_before_drain:
  assumes "maybeStartStaticInterruptBefore t dg = Return (dg', b)" "drain_inv ex dg"
  shows "drain_inv ex dg'" "\<not> b \<Longrightarrow> drain dg' = drain dg" "dg_next_step dg' = dg_next_step dg"
proof -
  have "dg' = dg \<or> (\<exists>st ie. \<not> dg_draining dg \<and> (dg' = dg\<lparr>dg_en := (dg_en dg)\<lparr>en_ec := (en_ec (dg_en dg))\<lparr>ec_state := st\<rparr>\<rparr>\<rparr> \<and> \<not> b
      \<or> dg' = startDrainingInterrupt ie (dg_next_step dg) None (dg\<lparr>dg_en := (dg_en dg)\<lparr>en_ec := (en_ec (dg_en dg))\<lparr>ec_state := st\<rparr>\<rparr>\<rparr>) \<and> b))"
    using assms(1)
    by (auto simp: maybeStartStaticInterruptBefore_def run_bind_Return_iff Let_def split: if_splits option.splits)
  moreover have "drain_inv ex (dg\<lparr>dg_en := en\<rparr>)" "drain (dg\<lparr>dg_en := en\<rparr>) = drain dg" for en
    using assms(2) by (simp_all add: drain_inv_def drain_def)
  moreover have "\<not> b \<Longrightarrow> drain dg' = drain dg"
    using assms(1) by (auto simp: maybeStartStaticInterruptBefore_def run_bind_Return_iff Let_def drain_def split: if_splits option.splits)
  ultimately show "drain_inv ex dg'" "\<not> b \<Longrightarrow> drain dg' = drain dg" "dg_next_step dg' = dg_next_step dg"
    using drain_starts(2)[of ex "dg\<lparr>dg_en := en\<rparr>" for en] assms(2) by auto
qed

lemma startTask_drain:
  assumes "startTask ex env t dg = Return (dg', b)" "drain_inv ex dg" "\<not> dg_draining dg"
  shows "drain_inv ex dg'"
  using assms(1)
proof (cases rule: startTask_cases)
  case (limit dg1)
  have "\<not> dg_draining dg1" using static_before_frame(5)[OF limit(1)] assms(3) by simp
  then show ?thesis using drain_starts(3) static_before_drain(1)[OF limit(1) assms(2)] limit(3,4) by blast
next
  case (launch dg1)
  have "\<not> dg_draining dg1" using static_before_frame(5)[OF launch(1)] assms(3) by simp
  with static_before_drain(1)[OF launch(1) assms(2)] have "drain_inv ex (launchTask t (dg_next_step dg1) dg1)"
    by (simp add: drain_inv_def) (auto simp: drain_def)
  with launch(3) show ?thesis by simp
next
  case stop
  show ?thesis by (rule static_before_drain(1)[OF stop(1) assms(2)])
next
  case full
  show ?thesis by (rule static_before_drain(1)[OF full(1) assms(2)])
next
  case (wait ts)
  show ?thesis by (rule drain_keeps[OF assms(2)]) (simp_all add: wait(1) drain_def)
qed (use assms(2) in simp)

lemma start_ready_drain:
  "start_ready ex env ts dg = Return dg' \<Longrightarrow> drain_inv ex dg \<Longrightarrow> drain_inv ex dg'"
proof (induction ts arbitrary: dg)
  case (Cons t ts)
  show ?case
  proof (cases "dg_draining dg \<or> dg_pause dg")
    case False
    with Cons.prems(1) obtain dg1 b where s: "startTask ex env t dg = Return (dg1, b)"
      and r: "(if b then start_ready ex env ts dg1 else Return (dg1\<lparr>dg_ready := t # ts\<rparr>)) = Return dg'"
      by (auto simp: run_bind_Return_iff)
    have "drain_inv ex dg1" using startTask_drain[OF s Cons.prems(2)] False by simp
    moreover from this have "drain_inv ex (dg1\<lparr>dg_ready := t # ts\<rparr>)" by (simp add: drain_inv_def drain_def)
    ultimately show ?thesis using r Cons.IH[of dg1] by (auto split: if_splits)
  qed (use Cons.prems in \<open>auto simp: drain_inv_def drain_def\<close>)
qed (auto simp: drain_inv_def drain_def)

section \<open>The last round\<close>

lemma finalizeInterrupt_end:
  assumes "finalizeInterrupt ex env ie dg = Return (dg', ie')"
  shows "ie' = ie\<lparr>ie_next_nodes := snapshotNextNodes dg'\<rparr>" "core dg' = core dg" "drain dg' = drain dg"
    "dg_ready dg' = dg_ready dg" "dg_next_step dg' = dg_next_step dg"
proof -
  obtain config s where dg': "dg' = dg\<lparr>dg_en := (dg_en dg)\<lparr>en_config := config, en_saver := s\<rparr>\<rparr>"
    and ie': "ie' = ie\<lparr>ie_next_nodes := snapshotNextNodes dg\<rparr>"
    using assms by (auto simp: finalizeInterrupt_def run_bind_Return_iff Let_def)
  have "snapshotNextNodes dg' = snapshotNextNodes dg" by (simp add: snapshotNextNodes_def dg')
  with ie' show "ie' = ie\<lparr>ie_next_nodes := snapshotNextNodes dg'\<rparr>" by simp
  show "core dg' = core dg" "drain dg' = drain dg" "dg_ready dg' = dg_ready dg" "dg_next_step dg' = dg_next_step dg"
    by (simp_all add: dg' drain_def)
qed

lemma saved_idle:
  assumes "createCheckpointAndSave saver g uuid now config source step ec s = Return (ec', config', s', e)"
  shows "idle g' ec' = idle g' ec"
proof -
  have "available_in (map (\<lambda>(name, c). (name, ClearStepMark c)) chs) x = available_in chs x" for chs x
    by (simp add: available_in_def gget_map_values ClearStepMark_def IsAvailable_def split: option.split)
  moreover have "ec' \<in> {ec, ec\<lparr>ec_pending_writes := []\<rparr>, clearChannelStepMarks (ec\<lparr>ec_pending_writes := []\<rparr>)}"
  proof (cases saver)
    case (Some ops)
    with assms obtain r where "(ec', config', s', e) = (case r of Inr x \<Rightarrow> (ec\<lparr>ec_pending_writes := []\<rparr>, config, s', Some x)
        | Inl updated \<Rightarrow> (clearChannelStepMarks (ec\<lparr>ec_pending_writes := []\<rparr>), updated, s', None))"
      by (fastforce simp: createCheckpointAndSave_def run_bind_Return_iff Let_def split: sum.split_asm)
    then show ?thesis by (cases r) auto
  qed (use assms in \<open>simp add: createCheckpointAndSave_def\<close>)
  ultimately show ?thesis by (auto simp: idle_def clearChannelStepMarks_def)
qed

lemma maybeCreateFinalCheckpoint_end:
  assumes "maybeCreateFinalCheckpoint ex env dg = Return dg'"
  shows "core dg' = core dg" "drain dg' = drain dg" "dg_ready dg' = dg_ready dg" "dag_idle dg' = dag_idle dg"
proof -
  consider "dg' = dg" | uuid now config ec config' s e where
      "createCheckpointAndSave (ex_saver ex) (en_graph (dg_en dg)) uuid now config CheckpointSourceLoop (lastStep dg)
         (en_ec (dg_en dg)) (en_saver (dg_en dg)) = Return (ec, config', s, e)"
      "dg' = dg\<lparr>dg_en := (dg_en dg)\<lparr>en_ec := ec, en_config := Some config', en_saver := s\<rparr>\<rparr>"
  proof (cases "en_config (dg_en dg) = None \<or> ex_saver ex = None \<or> dg_executed dg = 0")
    case True
    with assms that(1) show thesis by (auto simp: maybeCreateFinalCheckpoint_def Let_def split: option.splits)
  next
    case False
    then obtain config where c: "en_config (dg_en dg) = Some config" by auto
    let ?saved = "createCheckpointAndSave (ex_saver ex) (en_graph (dg_en dg))
         (re_uuid (dv_run env) CheckpointSourceLoop (lastStep dg)) (re_now (dv_run env) CheckpointSourceLoop (lastStep dg)) config
         CheckpointSourceLoop (lastStep dg) (en_ec (dg_en dg)) (en_saver (dg_en dg))"
    have "run_bind ?saved (\<lambda>(ec, config, s, _). Return
        (dg\<lparr>dg_en := (dg_en dg)\<lparr>en_ec := ec, en_config := Some config, en_saver := s\<rparr>\<rparr>)) = Return dg'"
      using assms False c unfolding maybeCreateFinalCheckpoint_def Let_def by (simp del: not_None_eq)
    then obtain v where v: "?saved = Return v" "(case v of (ec, config, s, _) \<Rightarrow> Return
        (dg\<lparr>dg_en := (dg_en dg)\<lparr>en_ec := ec, en_config := Some config, en_saver := s\<rparr>\<rparr>)) = Return dg'"
      unfolding run_bind_Return_iff by blast
    obtain ec config' s e where "v = (ec, config', s, e)" by (metis prod_cases4)
    with v show thesis by (intro that(2)) auto
  qed
  then have "core dg' = core dg \<and> drain dg' = drain dg \<and> dg_ready dg' = dg_ready dg \<and> dag_idle dg' = dag_idle dg"
  proof cases
    case 2
    from saved_idle[OF 2(1)] show ?thesis by (simp add: 2(2) drain_def dag_idle_def)
  qed simp
  then show "core dg' = core dg" "drain dg' = drain dg" "dg_ready dg' = dg_ready dg" "dag_idle dg' = dag_idle dg" by blast+
qed

lemma request_frame [simp]:
  "core (startRequestedExternalInterrupt dg) = core dg" "dg_next_step (startRequestedExternalInterrupt dg) = dg_next_step dg"
  by (simp_all add: startRequestedExternalInterrupt_def)

lemma request_drain: "drain_inv ex dg \<Longrightarrow> drain_inv ex (startRequestedExternalInterrupt dg)"
  by (auto simp: startRequestedExternalInterrupt_def drain_starts)

text \<open>The ways in which a run ends.\<close>

lemma tryFinalize_ends:
  assumes "tryFinalize ex env dg = Return (dg', Some out)" "drain_inv ex dg"
  obtains (interrupted) ie where "out = Some (DagInterrupted ie)" "ie_next_nodes ie = snapshotNextNodes dg'"
      "dg_in_flight dg = []" "core dg' = core dg" "drain_inv ex dg'"
  | (failed) e where "out = Some e" "dg_drain_err dg' = Some e" "dg_in_flight dg = []" "core dg' = core dg" "drain_inv ex dg'"
      "dg_pending_intr dg' = None" "dg_draining dg'"
  | (limit) "out = None" "dg_drain_max dg'" "dg_in_flight dg = []" "core dg' = core dg" "drain_inv ex dg'"
  | (complete) "out = None" "\<not> dg_draining dg" "\<not> dg_pause dg" "dg_ready dg = []" "dg_ready dg' = []"
      "dg_in_flight dg = []" "core dg' = core dg" "drain_inv ex dg'" "drain dg' = drain dg" "dag_idle dg' = dag_idle dg"
proof -
  define dg1 where "dg1 = (if dg_pause dg \<and> dg_in_flight dg = [] then startRequestedExternalInterrupt dg else dg)"
  have inv: "drain_inv ex dg1" "core dg1 = core dg" unfolding dg1_def using assms(2) request_drain by auto
  have idle: "dg_in_flight dg = []"
    using assms(1) by (auto simp: tryFinalize_def Let_def run_bind_Return_iff split: if_splits)
  show thesis
  proof (cases "dg_pending_intr dg1")
    case (Some ie)
    then obtain ie' where f: "finalizeInterrupt ex env ie dg1 = Return (dg', ie')" and out: "out = Some (DagInterrupted ie')"
      using assms(1) idle unfolding tryFinalize_def Let_def dg1_def by (auto simp: run_bind_Return_iff)
    note fe = finalizeInterrupt_end[OF f]
    have "drain_inv ex dg'" using drain_keeps[OF inv(1) fe(3,5)] .
    with fe inv idle out show thesis by (intro interrupted[of ie']) simp_all
  next
    case None
    then have r: "(if dg_draining dg1 then Return (dg1, Some (if dg_drain_max dg1 then None else dg_drain_err dg1))
        else if dg_pause dg1 then Return (dg1, None) else if dg_ready dg1 \<noteq> [] then Return (dg1, None)
        else run_bind (maybeCreateFinalCheckpoint ex env dg1) (\<lambda>dg. Return (dg, Some None))) = Return (dg', Some out)"
      using assms(1) idle unfolding tryFinalize_def Let_def dg1_def by (auto split: if_splits)
    show thesis
    proof (cases "dg_draining dg1")
      case True
      then have dg': "dg' = dg1" and out: "out = (if dg_drain_max dg1 then None else dg_drain_err dg1)" using r by auto
      show thesis
      proof (cases "dg_drain_max dg1")
        case True
        with dg' out inv idle show thesis by (intro limit) simp_all
      next
        case False
        then obtain e where "dg_drain_err dg1 = Some e" using inv(1) \<open>dg_draining dg1\<close> by (auto simp: drain_inv_def drain_def)
        with False True dg' out inv idle None show thesis by (intro failed[of e]) simp_all
      qed
    next
      case False
      then have d: "\<not> dg_pause dg1" "dg_ready dg1 = []" and m: "maybeCreateFinalCheckpoint ex env dg1 = Return dg'" and out: "out = None"
        using r by (auto simp: run_bind_Return_iff split: if_splits)
      have "dg_pause (startRequestedExternalInterrupt dg) = dg_pause dg"
        by (simp add: startRequestedExternalInterrupt_def startDrainingInterrupt_def startDraining_def)
      then have same: "dg1 = dg" using d(1) unfolding dg1_def by (auto split: if_splits)
      note me = maybeCreateFinalCheckpoint_end[OF m]
      have "dg_next_step dg' = dg_next_step dg1" using me(1) by (simp add: core_def)
      then have "drain_inv ex dg'" using drain_keeps[OF inv(1) me(2)] by simp
      with me d False out idle same show thesis by (intro complete) simp_all
    qed
  qed
qed

section \<open>What a run leaves behind\<close>

text \<open>The nodes an interrupt has to name: the queue, the tasks to run again and the listeners of available channels.\<close>

definition left_to_do :: "'s dag \<Rightarrow> string set" where
  "left_to_do dg = (tk_node_id ` set (dg_ready dg) \<union> set (dg_rerun dg)
     \<union> {n. \<exists>c ns. (c, ns) \<in> set (getTriggerToNodes (en_graph (dg_en dg))) \<and> n \<in> set ns
              \<and> available_in (ec_channels (en_ec (dg_en dg))) c}) - {[], End}"

text \<open>
  Nothing runs any more.  A run without an error has done everything, or was cut off by the step limit;
  an interrupt names what is left to do.
\<close>

definition well_ended :: "('s, 'e) executor \<Rightarrow> int \<Rightarrow> 's dag \<Rightarrow> dag_error option \<Rightarrow> bool" where
  "well_ended ex start dg out \<longleftrightarrow> dg_in_flight dg = [] \<and> dg_running dg = [] \<and> dg_done dg = [] \<and> queued dg = {}
     \<and> (case out of
          None \<Rightarrow> if dg_drain_max dg then ex_max_steps ex \<le> dg_next_step dg
                  else dg_ready dg = [] \<and> dag_idle dg \<and> int (dg_executed dg) = dg_next_step dg - start
        | Some (DagInterrupted ie) \<Rightarrow> set (ie_next_nodes ie) = left_to_do dg
        | Some e \<Rightarrow> dg_drain_err dg = Some e)"

lemma set_getNextNodes:
  "set (getNextNodes g ec) = {n. \<exists>c ns. (c, ns) \<in> set (getTriggerToNodes g) \<and> n \<in> set ns \<and> available_in (ec_channels ec) c}"
proof -
  have eq: "(case gget (GetAllChannels (ec_channels ec)) c of None \<Rightarrow> [] | Some ch \<Rightarrow> if IsAvailable ch then ns else [])
      = (if available_in (ec_channels ec) c then ns else [])" for c ns
    by (simp add: GetAllChannels_def available_in_def split: option.split)
  show ?thesis unfolding getNextNodes_def eq by (auto split: if_splits)
qed

lemma snapshot_left_to_do:
  assumes "queued dg = {}"
  shows "set (snapshotNextNodes dg) = left_to_do dg"
proof -
  have "(case gget (dg_waiting dg) n of None \<Rightarrow> [] | Some ts \<Rightarrow> map (\<lambda>_. n) ts) = []" for n
  proof (cases "gget (dg_waiting dg) n")
    case (Some ts)
    with assms show ?thesis by (cases ts) (auto simp: queued_def)
  qed simp
  then have w: "concat (map (\<lambda>n. case gget (dg_waiting dg) n of None \<Rightarrow> [] | Some ts \<Rightarrow> map (\<lambda>_. n) ts) ns) = []" for ns by simp
  show ?thesis unfolding snapshotNextNodes_def Let_def w by (auto simp: left_to_do_def set_getNextNodes)
qed

lemma nothing_in_flight:
  assumes "core_ok l w start d (core dg)" "dg_in_flight dg = []"
  shows "dg_running dg = [] \<and> dg_done dg = [] \<and> queued dg = {} \<and> (\<not> d \<longrightarrow> int (dg_executed dg) = dg_next_step dg - start)"
  using assms by (auto simp: core_def tags_def)

lemma turn_ends:
  assumes "dag_turn ex env requested dg = Return (dg', Some out)" "dag_inv ex env start dg" "drain_inv ex dg"
  shows "well_ended ex start dg' out"
proof -
  obtain dg1 where s: "start_ready ex env (dg_ready (maybeRequestExternalInterrupt requested dg)) (maybeRequestExternalInterrupt requested dg) = Return dg1"
    and f: "tryFinalize ex env (planIfIdle dg1) = Return (dg', Some out)"
    using assms(1) by (auto simp: dag_turn_def startReadyTasks_def run_bind_Return_iff)
  have "dag_inv ex env start (maybeRequestExternalInterrupt requested dg)" by (rule inv_core[OF assms(2)]) simp_all
  then have "dag_inv ex env start dg1" using start_ready_inv s by blast
  then have inv: "dag_inv ex env start (planIfIdle dg1)" by (rule inv_core) simp_all
  have "drain_inv ex (maybeRequestExternalInterrupt requested dg)" by (rule drain_keeps[OF assms(3)]) simp_all
  then have "drain_inv ex dg1" using start_ready_drain s by blast
  then have dr: "drain_inv ex (planIfIdle dg1)" by (rule drain_keeps) simp_all
  have off: "dg_running dg' = [] \<and> dg_done dg' = [] \<and> queued dg' = {} \<and> dg_in_flight dg' = []
      \<and> (\<not> dg_draining (planIfIdle dg1) \<longrightarrow> int (dg_executed dg') = dg_next_step dg' - start)"
    if "dg_in_flight (planIfIdle dg1) = []" "core dg' = core (planIfIdle dg1)"
  proof -
    have "keyset (dg_in_flight dg') = keyset (dg_in_flight (planIfIdle dg1))" using that(2) by (simp only: core_def prod.inject)
    then have e: "dg_in_flight dg' = []" using that(1) by simp
    have "core_ok (ex_max_steps ex) (dv_workers env) start (dg_draining (planIfIdle dg1)) (core dg')"
      using inv that(2) by (simp add: dag_inv_def)
    from nothing_in_flight[OF this e] e show ?thesis by simp
  qed
  show ?thesis using f dr
  proof (cases rule: tryFinalize_ends)
    case (interrupted ie)
    with off show ?thesis by (simp add: well_ended_def snapshot_left_to_do)
  next
    case (failed e)
    then have "\<forall>ie. e \<noteq> DagInterrupted ie" by (auto simp: drain_inv_def drain_def)
    with failed off show ?thesis by (cases e) (simp_all add: well_ended_def)
  next
    case limit
    then have "ex_max_steps ex \<le> dg_next_step dg'" by (auto simp: drain_inv_def drain_def)
    with limit off show ?thesis by (simp add: well_ended_def)
  next
    case complete
    have "\<not> dg_draining dg1" "\<not> dg_pause dg1" "dg_ready dg1 = []"
      using complete(2-4) by (auto simp: planIfIdle_def queuePlannedTasks_def queue_def split: if_splits prod.splits)
    then have "dag_idle (planIfIdle dg1)" by (simp add: planIfIdle_def queue_idle)
    moreover have "\<not> dg_drain_max dg'" using complete(2,8,9) by (auto simp: drain_inv_def drain_def)
    ultimately show ?thesis using complete off by (simp add: well_ended_def)
  qed
qed

lemma turn_drain: "dag_turn ex env requested dg = Return (dg', None) \<Longrightarrow> drain_inv ex dg \<Longrightarrow> drain_inv ex dg'"
proof -
  assume t: "dag_turn ex env requested dg = Return (dg', None)" and d: "drain_inv ex dg"
  from t obtain dg1 where s: "start_ready ex env (dg_ready (maybeRequestExternalInterrupt requested dg)) (maybeRequestExternalInterrupt requested dg) = Return dg1"
    and f: "tryFinalize ex env (planIfIdle dg1) = Return (dg', None)"
    by (auto simp: dag_turn_def startReadyTasks_def run_bind_Return_iff)
  have "drain_inv ex (maybeRequestExternalInterrupt requested dg)" by (rule drain_keeps[OF d]) simp_all
  then have "drain_inv ex dg1" using start_ready_drain s by blast
  then have "drain_inv ex (planIfIdle dg1)" by (rule drain_keeps) simp_all
  with tryFinalize_waits[OF f] show ?thesis by simp
qed

lemma cancel_drain: "drain_inv ex dg \<Longrightarrow> drain_inv ex (handleContextDone forced err dg)"
  by (auto simp: handleContextDone_def drain_starts)

lemma error_drain: "drain_inv ex dg \<Longrightarrow> drain_inv ex (handleTaskError forced r err dg)"
proof -
  assume d: "drain_inv ex dg"
  have r: "drain_inv ex (recordRerunNode r x)" if "drain_inv ex x" for x by (rule drain_keeps[OF that]) simp_all
  show ?thesis using d by (auto simp: handleTaskError_def drain_starts r split: option.split)
qed

lemma handle_drain:
  assumes "drain_inv ex dg"
  shows "drain_inv ex (handleTaskResult forced r dg)"
proof -
  let ?rel = "release_node (tk_node_id (rs_task r)) dg"
  have rel: "drain_inv ex ?rel" by (rule drain_keeps[OF assms]) simp_all
  show ?thesis
  proof (cases "rs_err r")
    case (Some err)
    with error_drain[OF rel] show ?thesis by (simp add: handleTaskResult_def Let_def)
  next
    case None
    let ?ex = "?rel\<lparr>dg_executed := Suc (dg_executed ?rel)\<rparr>"
    have ex: "drain_inv ex ?ex" by (rule drain_keeps[OF rel]) (simp_all add: drain_def)
    obtain dg1 b where st: "maybeStartStaticInterruptAfter (rs_task r) (rs_step r) ?ex = (dg1, b)" by (metis surj_pair)
    have "drain_inv ex dg1"
      using st ex by (auto simp: maybeStartStaticInterruptAfter_def drain_starts split: if_splits option.splits)
    moreover from this have "drain_inv ex (queuePlannedTasks dg1)" by (rule drain_keeps) simp_all
    ultimately show ?thesis using None st by (cases b) (simp_all add: handleTaskResult_def Let_def)
  qed
qed

lemma event_drain:
  assumes "dag_event_step ex env ev dg = Some (Return (dg', None))" "drain_inv ex dg"
  shows "drain_inv ex dg'"
  using assms(1)
proof (cases rule: event_cases)
  case (1 n)
  then have "drain dg' = drain dg" "dg_next_step dg' = dg_next_step dg"
    by (auto simp: begin_event_def run_bind_Return_iff drain_def split: option.splits if_splits)
  then show ?thesis by (rule drain_keeps[OF assms(2)])
next
  case (2 n)
  then have "\<exists>dg1. dg' = settle dg1 \<and> drain dg1 = drain dg \<and> dg_next_step dg1 = dg_next_step dg"
    by (auto simp: finish_event_def drain_def split: option.splits prod.splits task_error.splits)
  then show ?thesis using drain_keeps[OF assms(2)] by auto
next
  case (3 forced requested r rs)
  have "drain_inv ex (dg\<lparr>dg_done := rs\<rparr>)" by (rule drain_keeps[OF assms(2)]) (simp_all add: drain_def)
  with turn_drain[OF 3(4)] handle_drain show ?thesis by blast
next
  case (4 forced err requested)
  with turn_drain[OF 4(3)] cancel_drain[OF assms(2)] show ?thesis by blast
qed

lemma new_drain: "newDagLoop env start en = Inl dg \<Longrightarrow> drain_inv ex dg"
  using newDagLoop_shape by (fastforce simp: drain_inv_def drain_def dag_loop_def)

lemma trace_drain:
  assumes "newDagLoop env start en = Inl dg0" "dag_trace ex env dg0 evs dg"
  shows "drain_inv ex dg"
  using assms(2)
proof (induction rule: dag_trace.induct)
  case (first requested dg)
  from turn_drain[OF first(2) new_drain[OF assms(1)]] show ?case .
next
  case (event evs dg ev dg')
  from event_drain[OF event.hyps(2) event.IH] show ?case .
qed

text \<open>
  C7. Whatever the order of its events, when a run of the eager engine ends nothing of it is running or
  on its way.  Without an error and before the step limit everything it started has completed and nothing
  is left to plan; an interrupt names exactly the nodes of the queue, the tasks to run again and the
  listeners of available channels.
\<close>

theorem dag_ends_clean:
  assumes "newDagLoop env start en = Inl dg0" "dag_ends ex env dg0 dg out"
  shows "well_ended ex start dg out"
  using assms(2)
proof cases
  case (at_once requested)
  from turn_ends[OF at_once(2) new_inv[OF assms(1)] new_drain[OF assms(1)]] show ?thesis .
next
  case (later evs dg1 ev)
  note inv = trace_inv[OF assms(1) later(1)] and dr = trace_drain[OF assms(1) later(1)]
  show ?thesis using later(2)
  proof (cases rule: event_cases)
    case (3 forced requested r rs)
    have "drain_inv ex (dg1\<lparr>dg_done := rs\<rparr>)" by (rule drain_keeps[OF dr]) (simp_all add: drain_def)
    from turn_ends[OF 3(4) handle_inv[OF inv 3(2)] handle_drain[OF this]] show ?thesis .
  next
    case (4 forced err requested)
    from turn_ends[OF 4(3) cancel_inv[OF inv] cancel_drain[OF dr]] show ?thesis .
  qed simp_all
qed

section \<open>A resumed run that waits for nothing\<close>

lemma consumed_triggers:
  "consume_channels ts chs nt co = (chs', nt', co') \<Longrightarrow> distinct (map fst ts) \<Longrightarrow> available_in chs c \<Longrightarrow> (c, ns) \<in> set ts
    \<Longrightarrow> set ns \<subseteq> keyset nt'"
proof (induction ts arbitrary: chs nt co)
  case (Cons t rest)
  obtain d ms where t: "t = (d, ms)" by fastforce
  have grows: "consume_channels rest chs nt co = (chs', nt', co') \<Longrightarrow> keyset nt \<subseteq> keyset nt'" for rest chs nt co
  proof (induction rest arbitrary: chs nt co)
    case (Cons u rest)
    obtain e ls where "u = (e, ls)" by fastforce
    with Cons.prems show ?case by (auto split: option.splits prod.splits bool.splits dest!: Cons.IH)
  qed simp
  show ?case
  proof (cases "d = c")
    case True
    with Cons.prems(3) obtain ch where ch: "GetChannel chs c = Some ch" "IsAvailable ch"
      by (auto simp: available_in_def GetChannel_def split: option.splits)
    moreover obtain ch' where "ConsumeIfAvailable ch = (ch', True)"
      using ch(2) by (auto simp: ConsumeIfAvailable_def IsAvailable_def Let_def split: if_splits)
    ultimately obtain co1 where "consume_channels rest (gput c ch' chs) (fold (add_trigger c) ms nt) co1 = (chs', nt', co')"
      using Cons.prems(1) t True by auto
    moreover have "ms = ns" using Cons.prems(2,4) t True by force
    ultimately show ?thesis using grows by fastforce
  next
    case False
    then have m: "(c, ns) \<in> set rest" using Cons.prems(4) t by auto
    show ?thesis
    proof (cases "GetChannel chs d")
      case None
      with Cons t m show ?thesis by simp
    next
      case (Some ch)
      obtain ch' b where co: "ConsumeIfAvailable ch = (ch', b)" by fastforce
      have "available_in (gput d ch' chs) c" using Cons.prems(3) False by (simp add: available_in_def)
      with Cons.IH[of "gput d ch' chs"] Cons.IH[of chs] Cons.prems t m Some co show ?thesis by (cases b) auto
    qed
  qed
qed simp

lemma created_somewhere:
  "create_dag_tasks g ns ec = (ec', ts) \<Longrightarrow> (n, preds) \<in> set ns \<Longrightarrow> n \<noteq> [] \<Longrightarrow> schedulable g n \<Longrightarrow> ts \<noteq> []"
proof (induction g ns ec arbitrary: ec' ts rule: create_dag_tasks.induct)
  case (2 g m qs ns ec)
  obtain ec1 t where c: "createDagTask g m qs ec = (ec1, t)" by fastforce
  obtain ec2 us where r: "create_dag_tasks g ns ec1 = (ec2, us)" by fastforce
  have "t \<noteq> None" if "n = m"
    using c that 2(4,5) by (auto simp: createDagTask_def schedulable_def split: if_splits option.splits prod.splits)
  with 2(1)[OF c[symmetric] refl r] 2(2-5) c r show ?case by (auto split: option.splits)
qed simp

lemma plans_listener:
  assumes "well_keyed (g_triggers g)" "available_in (ec_channels ec) c" "n \<in> set (subscribers g c)" "n \<noteq> []" "schedulable g n"
  shows "snd (planDagTasks g ec) \<noteq> []"
proof -
  obtain chs nt co where co: "consume_channels (getTriggerToNodes g) (ec_channels ec) [] [] = (chs, nt, co)" by (metis prod_cases3)
  let ?ec = "ec\<lparr>ec_pending_tasks := [], ec_channels := chs\<rparr>"
  let ?ns = "map (\<lambda>n. (n, tracePredecessorsForChannels ?ec (case gget nt n of None \<Rightarrow> [] | Some xs \<Rightarrow> xs))) (sort (gkeys nt))"
  obtain ec1 us where cr: "create_dag_tasks g ?ns ?ec = (ec1, us)" by fastforce
  obtain ns where ns: "gget (g_triggers g) c = Some ns" "n \<in> set ns"
    using assms(3) by (cases "gget (g_triggers g) c") (auto simp: subscribers_def getTriggerToNodes_def)
  then have "(c, ns) \<in> set (getTriggerToNodes g)" by (simp add: getTriggerToNodes_def map_of_SomeD)
  from consumed_triggers[OF co _ assms(2) this] assms(1) ns(2) have "n \<in> set (gkeys nt)"
    by (auto simp: well_keyed_def getTriggerToNodes_def keyset_def)
  then obtain preds where "(n, preds) \<in> set ?ns" by auto
  from created_somewhere[OF cr this assms(4,5)] have "us \<noteq> []" .
  then show ?thesis using co cr by (simp add: planDagTasks_def Let_def)
qed

text \<open>The channel a pending write went to is available when the run has resumed.\<close>

lemma replayed_available:
  assumes "graph_ready g" "keyed_checkpoint ck" "pp_resumed p" "pp_checkpoint p = Some ck" "quiet_inputs g st"
    "gget (g_channels g) c = Some gc" "ch_behavior gc \<noteq> BehaviorBarrier" "written (pp_pending p) c" "n \<in> set (subscribers g c)"
  shows "available_in (ec_channels (start_context g st p)) c"
proof -
  have "\<forall>kv \<in> set st. c \<noteq> ChannelInputPrefix @ fst kv" using assms(5,9) by (auto simp: quiet_inputs_def)
  from resumed_channel[OF assms(1-4) this assms(6)] show ?thesis
    using land_available[of "restored_channel ck c gc"] assms(7,8) by (simp add: available_in_def restored_channel_props)
qed

text \<open>
  C9. A run of the eager engine that resumes from a checkpoint with pending writes - the one it stored when
  it completed, say - never starts a task: the loop plans the listeners of the replayed writes only after
  it has looked for tasks to start, and then waits for the result of a task although none is running.
  Nothing but the cancellation of its context can happen to it any more.
\<close>

theorem dag_resume_blocks:
  assumes "Compile (run_ops h sch calls) = Inl g" "pp_resumed p" "pp_checkpoint p = Some ck" "keyed_checkpoint ck"
    "gget st StateKeyNextNodes = None" "gget (g_channels g) c = Some gc" "ch_behavior gc \<noteq> BehaviorBarrier"
    "written (pp_pending p) c" "n \<in> set (subscribers g c)" "schedulable g n" "n \<noteq> []"
  shows "\<exists>dg0 dg. newDagLoop env start (start_engine g st p s) = Inl dg0 \<and> dag_turn ex env False dg0 = Return (dg, None)
     \<and> dg_ready dg \<noteq> [] \<and> dg_in_flight dg = [] \<and> (\<forall>ev. \<not> is_cancel ev \<longrightarrow> dag_event_step ex env ev dg = None)"
proof -
  note ready = compiled_ready[OF assms(1)]
  have entry: "EntryPoint g \<noteq> []"
    using assms(1) by (auto simp: Compile_def validate_def EntryPoint_def split: if_splits option.splits)
  let ?en = "start_engine g st p s"
  have "consumeNextNodesFromState (en_ec ?en) = (en_ec ?en, [])"
    using assms(5) by (simp add: consumeNextNodesFromState_def start_engine_def start_context_fields)
  then have new: "newDagLoop env start ?en = Inl (dag_loop start ?en)"
    using entry assms(2) by (simp add: newDagLoop_def start_engine_def start_context_fields queue_def dag_loop_def)
  have av: "available_in (ec_channels (en_ec ?en)) c"
    using replayed_available[OF ready(1) assms(4,2,3) _ assms(6-9)] ready(2) by (simp add: quiet_inputs_def start_engine_def)
  have "snd (planDagTasks g (en_ec ?en)) \<noteq> []"
    using plans_listener[OF _ av assms(9,11,10)] ready(1) by (simp add: graph_ready_def)
  then obtain ec ts where p: "planDagTasks g (en_ec ?en) = (ec, ts)" "ts \<noteq> []" by (metis prod.collapse)
  define dg where "dg = queue ts ((dag_loop start ?en)\<lparr>dg_en := ?en\<lparr>en_ec := ec\<rparr>\<rparr>)"
  have st: "startReadyTasks ex env (dag_loop start ?en) = Return (dag_loop start ?en)"
    by (simp add: startReadyTasks_def dag_loop_def)
  have pl: "planIfIdle (dag_loop start ?en) = dg"
    using p(1) by (simp add: planIfIdle_def queuePlannedTasks_def dg_def dag_loop_def start_engine_def)
  have turn: "dag_turn ex env False (dag_loop start ?en) = Return (dg, None)"
    using p(2) by (simp add: dag_turn_def maybeRequestExternalInterrupt_def st pl)
      (simp add: tryFinalize_def dg_def queue_def dag_loop_def)
  have "dag_event_step ex env ev dg = None" if "\<not> is_cancel ev" for ev
    using that by (cases ev) (simp_all add: dag_event_step_def begin_event_def finish_event_def dg_def queue_def dag_loop_def)
  with new turn p(2) show ?thesis by (auto simp: dg_def queue_def dag_loop_def)
qed

theorem dag_resume_blocks_witness:
  "\<exists>dg0 dg. newDagLoop \<lparr>dv_run = demo_run_env, dv_workers = 2, dv_watched = False\<rparr> 1 chain_start = Inl dg0
     \<and> dag_turn demo_executor \<lparr>dv_run = demo_run_env, dv_workers = 2, dv_watched = False\<rparr> False dg0 = Return (dg, None)
     \<and> dg_ready dg \<noteq> [] \<and> dg_in_flight dg = []
     \<and> (\<forall>ev. \<not> is_cancel ev \<longrightarrow> dag_event_step demo_executor \<lparr>dv_run = demo_run_env, dv_workers = 2, dv_watched = False\<rparr> ev dg = None)"
proof -
  have "case gget (g_channels chain_graph) (branchChannel ''b'') of Some c \<Rightarrow> ch_behavior c = BehaviorLastValue | None \<Rightarrow> False" by code_simp
  then obtain c where c: "gget (g_channels chain_graph) (branchChannel ''b'') = Some c" "ch_behavior c = BehaviorLastValue"
    by (auto split: option.splits)
  have "''b'' \<in> set (subscribers chain_graph (branchChannel ''b''))" "schedulable chain_graph ''b''" by code_simp+
  with c show ?thesis
    by (intro dag_resume_blocks[where c = "branchChannel ''b''" and gc = c and n = "''b''", OF chain_compiled, of demo_prepared demo_checkpoint])
      (simp_all add: demo_prepared_def keyed_checkpoint_def demo_checkpoint_def NewCheckpoint_def well_keyed_def)
qed

section \<open>Errors that are lost, and panics that are not caught\<close>

lemma done_alone:
  assumes "dag_inv ex env start dg" "dg_running dg = []" "dg_done dg = [r]"
  shows "dg_in_flight (release_node (tk_node_id (rs_task r)) (dg\<lparr>dg_done := []\<rparr>)) = []"
proof -
  have named: "tk_node_id (rs_task r) \<noteq> []" "keyset (dg_in_flight dg) = {tk_node_id (rs_task r)}"
    using assms by (auto simp: dag_inv_def core_def tags_def)
  then have "keyset (dg_in_flight (release_node (tk_node_id (rs_task r)) (dg\<lparr>dg_done := []\<rparr>))) = {}"
    using release_core(1)[OF named(1), of "dg\<lparr>dg_done := []\<rparr>"] by simp
  then show ?thesis by simp
qed

lemma drained_turn:
  assumes "dg_draining dg" "dg_drain_max dg" "dg_pending_intr dg = None" "dg_in_flight dg = []"
  shows "\<exists>dg'. dag_turn ex env False dg = Return (dg', Some None)"
proof -
  have r: "maybeRequestExternalInterrupt False dg = dg" by (simp add: maybeRequestExternalInterrupt_def)
  have "startReadyTasks ex env dg = Return dg" using assms(1) by (cases "dg_ready dg") (simp_all add: startReadyTasks_def)
  moreover have "planIfIdle dg = dg" "startRequestedExternalInterrupt dg = dg"
    using assms(1) by (simp_all add: planIfIdle_def startRequestedExternalInterrupt_def)
  ultimately show ?thesis using assms by (simp add: dag_turn_def r tryFinalize_def Let_def)
qed

text \<open>
  C10. An error that comes after the step limit is lost.  When the loop met the limit while a task was still
  running and that task fails - or asks the user a question - the run ends without an error, as if it
  had completed.
\<close>

theorem failure_at_limit_is_lost:
  assumes "newDagLoop env start en = Inl dg0" "dag_trace ex env dg0 evs dg" "dg_drain_max dg" "dg_running dg = []"
    "dg_done dg = [r]" "rs_err r = Some e"
  shows "\<exists>dg'. dag_event_step ex env (Receives False False) dg = Some (Return (dg', Some None)) \<and> dag_ends ex env dg0 dg' None"
proof -
  let ?rel = "release_node (tk_node_id (rs_task r)) (dg\<lparr>dg_done := []\<rparr>)"
  have d: "dg_draining dg" "dg_pending_intr dg = None" "dg_drain_err dg = None"
    using trace_drain[OF assms(1,2)] assms(3) by (auto simp: drain_inv_def drain_def)
  have "drain ?rel = drain dg" using drain_simps(5)[of _ "dg\<lparr>dg_done := []\<rparr>"] by (simp add: drain_def)
  then have rel: "dg_draining ?rel" "dg_drain_max ?rel" "dg_pending_intr ?rel = None" using d assms(3) by (simp_all add: drain_def)
  then have "handleTaskResult False r (dg\<lparr>dg_done := []\<rparr>) = ?rel"
    using assms(6) by (simp add: handleTaskResult_def Let_def handleTaskError_def recordRerunNode_def)
  then have "\<exists>dg'. dag_event_step ex env (Receives False False) dg = Some (Return (dg', Some None))"
    using drained_turn[OF rel done_alone[OF trace_inv[OF assms(1,2)] assms(4,5)], of ex env] assms(5) by (simp add: dag_event_step_def)
  then show ?thesis using dag_ends.later[OF assms(2)] by blast
qed

lemma find_map: "(\<And>x. P (f x) = P x) \<Longrightarrow> find P (map f xs) = map_option f (find P xs)"
  by (induction xs) auto

text \<open>
  A panic in a task of the eager engine ends the program.  Whenever the worker of the superstep
  engine would report a task panic as the task's error, the goroutine of the eager engine panics
  instead, while it copies its input or when it finishes.
\<close>

theorem dag_panic_crashes:
  assumes "find (of_node n) (dg_running dg) = Some r" "rn_copy r = None"
    "run_task (re_steps (dv_run env) (rn_step r)) (rn_step r) (rn_task r) (en_graph (dg_en dg), en_ec (dg_en dg)) = (s, Some TaskPanic)"
  shows "begin_event env n dg = Some Panic
    \<or> (\<exists>dg'. begin_event env n dg = Some (Return dg') \<and> finish_event env n dg' = Some Panic)"
proof (cases "begin_task (re_steps (dv_run env) (rn_step r)) (rn_task r) (en_graph (dg_en dg), en_ec (dg_en dg))")
  case Panic
  with assms(1,2) show ?thesis by (simp add: begin_event_def)
next
  case (Return v)
  obtain copy ec where v: "v = (copy, ec)" by fastforce
  define dg' where "dg' = dg\<lparr>dg_en := (dg_en dg)\<lparr>en_ec := ec\<rparr>,
      dg_running := map (\<lambda>r. if of_node n r then r\<lparr>rn_copy := Some copy\<rparr> else r) (dg_running dg)\<rparr>"
  have b: "begin_event env n dg = Some (Return dg')" using assms(1,2) Return v by (simp add: begin_event_def dg'_def)
  have "of_node n r" using find_of_node[OF assms(1)] by (simp add: of_node_def)
  moreover have "find (of_node n) (dg_running dg') = map_option (\<lambda>r. if of_node n r then r\<lparr>rn_copy := Some copy\<rparr> else r) (find (of_node n) (dg_running dg))"
    unfolding dg'_def by simp (rule find_map, simp add: of_node_def)
  ultimately have f: "find (of_node n) (dg_running dg') = Some (r\<lparr>rn_copy := Some copy\<rparr>)" using assms(1) by simp
  have "finish_task (re_steps (dv_run env) (rn_step r)) (rn_task r) (rn_step r) copy (en_graph (dg_en dg), ec) = (s, Some TaskPanic)"
    using assms(3) Return v by (simp add: executeSingleTask_phases)
  then have "finish_event env n dg' = Some Panic"
    using f by (cases s) (simp add: finish_event_def dg'_def)
  with b show ?thesis by blast
qed

text \<open>
  After a cancellation the loop does not wait: the context stays done, and each round leaves everything as
  it is until a task reports.
\<close>

lemma cancelled_loop_spins:
  assumes "dg_draining dg" "dg_in_flight dg \<noteq> []"
  shows "dag_event_step ex env (Cancelled False err False) dg = Some (Return (dg, None))"
proof -
  have "startReadyTasks ex env dg = Return dg" using assms(1) by (cases "dg_ready dg") (simp_all add: startReadyTasks_def)
  moreover have "planIfIdle dg = dg" "handleContextDone False err dg = dg" "maybeRequestExternalInterrupt False dg = dg"
    using assms(1) by (simp_all add: planIfIdle_def handleContextDone_def maybeRequestExternalInterrupt_def)
  ultimately show ?thesis using assms by (simp add: dag_event_step_def dag_turn_def tryFinalize_def Let_def)
qed

end
