(* ===== verification/Dag_Runs.thy ===== *)
theory Dag_Runs
  imports Dag_Outcomes
begin

text \<open>
  Concrete runs of the eager engine, by given sequences of events: that they are runs in the sense of the
  properties, and the properties at work in them.
\<close>

section \<open>Playing a run\<close>

text \<open>A run by a given sequence of events, from the start of the loop.\<close>

fun play :: "('s, 'e) executor \<Rightarrow> dag_env \<Rightarrow> dag_event list \<Rightarrow> 's dag \<Rightarrow> ('s dag \<times> dag_error option option) option" where
  "play ex env [] dg = Some (dg, None)"
| "play ex env (ev # evs) dg =
     (case dag_event_step ex env ev dg of
        Some (Return (dg', None)) \<Rightarrow> play ex env evs dg'
      | Some (Return (dg', Some out)) \<Rightarrow> if evs = [] then Some (dg', Some out) else None
      | _ \<Rightarrow> None)"

definition play_run ::
    "('s, 'e) executor \<Rightarrow> dag_env \<Rightarrow> int \<Rightarrow> 's engine \<Rightarrow> dag_event list \<Rightarrow> ('s dag \<times> dag_error option option) option" where
  "play_run ex env start en evs =
     (case newDagLoop env start en of
        Inr _ \<Rightarrow> None
      | Inl dg0 \<Rightarrow> (case dag_turn ex env False dg0 of Return (dg, None) \<Rightarrow> play ex env evs dg | _ \<Rightarrow> None))"

lemma play_traces:
  "dag_trace ex env dg0 pre dg \<Longrightarrow> play ex env evs dg = Some (dg', out)
     \<Longrightarrow> (out = None \<longrightarrow> dag_trace ex env dg0 (pre @ evs) dg') \<and> (\<forall>e. out = Some e \<longrightarrow> dag_ends ex env dg0 dg' e)"
proof (induction evs arbitrary: pre dg)
  case (Cons ev evs)
  then obtain dg1 o1 where s: "dag_event_step ex env ev dg = Some (Return (dg1, o1))"
    by (auto split: option.splits run.splits)
  show ?case
  proof (cases o1)
    case None
    with Cons.IH[of "pre @ [ev]" dg1] dag_trace.event[OF Cons.prems(1)] s Cons.prems(2) show ?thesis by simp
  next
    case (Some e)
    with s Cons.prems(2) dag_ends.later[OF Cons.prems(1), of ev] show ?thesis by (auto split: if_splits)
  qed
qed simp

lemma play_run_traces:
  assumes "play_run ex env start en evs = Some (dg, out)"
  obtains dg0 where "newDagLoop env start en = Inl dg0" "out = None \<Longrightarrow> dag_trace ex env dg0 evs dg"
    "\<And>e. out = Some e \<Longrightarrow> dag_ends ex env dg0 dg e"
proof -
  obtain dg0 dg1 where "newDagLoop env start en = Inl dg0" "dag_turn ex env False dg0 = Return (dg1, None)" "play ex env evs dg1 = Some (dg, out)"
    using assms by (auto simp: play_run_def split: sum.splits run.splits option.splits)
  with play_traces[OF dag_trace.first[of False env ex dg0 dg1]] that show thesis by auto
qed

section \<open>Four nodes\<close>

text \<open>The first fails, the second returns nothing, the third returns a list with a nil command, and the last has no edge.\<close>

definition pair_ops :: "build_op list" where
  "pair_ops = [BNode ''a'' (\<lambda>k st. (st, Return (NRNil, Some (ErrText ''x'')))) [], BNode ''b'' silent [],
     BNode ''c'' (\<lambda>k st. (st, Return (NRCommands [None], None))) [],
     BNode ''d'' silent [], BEntry ''a'', BEdge ''a'' ''b'', BEdge ''b'' ''c'']"

definition pair_graph :: graph where
  "pair_graph = sg_graph (run_ops id None pair_ops)"

definition pair_prepared :: prepared where
  "pair_prepared = \<lparr>pp_state = [], pp_config = None, pp_resumed = True, pp_step = 0, pp_checkpoint = None, pp_pending = []\<rparr>"

definition pair_start :: "string list \<Rightarrow> unit engine" where
  "pair_start ns = start_engine pair_graph [(StateKeyNextNodes, VStrs (Some ns))] pair_prepared ()"

definition pair_env :: dag_env where
  "pair_env = \<lparr>dv_run = demo_run_env, dv_workers = 2, dv_watched = False\<rparr>"

definition step_limit :: "int \<Rightarrow> (unit, unit) executor" where
  "step_limit k = \<lparr>ex_saver = None, ex_max_steps = k\<rparr>"

lemma two_running:
  "case play_run (step_limit 5) pair_env 0 (pair_start [''a'', ''b'']) [Begins ''b''] of
     Some (dg, None) \<Rightarrow> length (dg_running dg) = 2 | _ \<Rightarrow> False"
  by code_simp

lemma pair_ready: "case newDagLoop pair_env 0 (pair_start [''a'', ''b'']) of Inl dg0 \<Rightarrow> length (dg_ready dg0) = 2 | Inr _ \<Rightarrow> False"
  by code_simp

lemma failed_at_limit:
  "case play_run (step_limit 1) pair_env 0 (pair_start [''a'', ''b'']) [Begins ''a'', Finishes ''a''] of
     Some (dg, None) \<Rightarrow> dg_drain_max dg \<and> length (dg_running dg) = 0 \<and> length (dg_done dg) = 1 \<and> rs_err (hd (dg_done dg)) \<noteq> None
   | _ \<Rightarrow> False"
  by code_simp

lemma ended_alone:
  "case play_run (step_limit 5) pair_env 0 (pair_start [''d'']) [Begins ''d'', Finishes ''d'', Receives False False] of
     Some (dg, Some None) \<Rightarrow> dg_executed dg = 1 \<and> \<not> dg_drain_max dg | _ \<Rightarrow> False"
  by code_simp

lemma panics_next:
  "case play_run (step_limit 5) pair_env 0 (pair_start [''b'']) [Begins ''b'', Finishes ''b'', Receives False False] of
     Some (dg, None) \<Rightarrow> (case find (of_node ''c'') (dg_running dg) of
         Some r \<Rightarrow> rn_copy r = None \<and> (case run_task (re_steps (dv_run pair_env) (rn_step r)) (rn_step r) (rn_task r)
             (en_graph (dg_en dg), en_ec (dg_en dg)) of (_, Some TaskPanic) \<Rightarrow> True | _ \<Rightarrow> False)
       | None \<Rightarrow> False)
   | _ \<Rightarrow> False"
  by code_simp

section \<open>The properties at work\<close>

theorem dag_one_task_per_node_witness:
  "\<exists>dg. play_run (step_limit 5) pair_env 0 (pair_start [''a'', ''b'']) [Begins ''b''] = Some (dg, None) \<and> length (dg_running dg) = 2
     \<and> distinct (map (\<lambda>r. tk_node_id (rn_task r)) (dg_running dg))"
proof -
  obtain dg where p: "play_run (step_limit 5) pair_env 0 (pair_start [''a'', ''b'']) [Begins ''b''] = Some (dg, None)"
    and l: "length (dg_running dg) = 2"
    using two_running by (auto split: option.splits prod.splits)
  from p obtain dg0 where "newDagLoop pair_env 0 (pair_start [''a'', ''b'']) = Inl dg0"
    "dag_trace (step_limit 5) pair_env dg0 [Begins ''b''] dg" by (rule play_run_traces) simp
  from dag_one_task_per_node[OF _ this] p l show ?thesis by simp
qed

theorem dag_never_stuck_witness:
  "\<exists>dg ev. play_run (step_limit 5) pair_env 0 (pair_start [''a'', ''b'']) [Begins ''b''] = Some (dg, None)
     \<and> \<not> is_cancel ev \<and> dag_event_step (step_limit 5) pair_env ev dg \<noteq> None"
proof -
  obtain dg where p: "play_run (step_limit 5) pair_env 0 (pair_start [''a'', ''b'']) [Begins ''b''] = Some (dg, None)"
    using two_running by (auto split: option.splits prod.splits)
  from p obtain dg0 where t: "newDagLoop pair_env 0 (pair_start [''a'', ''b'']) = Inl dg0"
    "dag_trace (step_limit 5) pair_env dg0 [Begins ''b''] dg" by (rule play_run_traces) simp
  have "dg_ready dg0 \<noteq> []" using pair_ready t(1) by auto
  moreover have "0 < dv_workers pair_env" by (simp add: pair_env_def)
  ultimately have "\<exists>ev. \<not> is_cancel ev \<and> dag_event_step (step_limit 5) pair_env ev dg \<noteq> None"
    using dag_never_stuck[OF t(1) _ _ t(2)] by blast
  with p show ?thesis by blast
qed

theorem dag_ends_clean_witness:
  "\<exists>dg. play_run (step_limit 5) pair_env 0 (pair_start [''d'']) [Begins ''d'', Finishes ''d'', Receives False False] = Some (dg, Some None)
     \<and> dg_executed dg = 1 \<and> well_ended (step_limit 5) 0 dg None"
proof -
  obtain dg where p: "play_run (step_limit 5) pair_env 0 (pair_start [''d'']) [Begins ''d'', Finishes ''d'', Receives False False] = Some (dg, Some None)"
    and e: "dg_executed dg = 1" using ended_alone by (auto split: option.splits prod.splits)
  from p obtain dg0 where "newDagLoop pair_env 0 (pair_start [''d'']) = Inl dg0" "dag_ends (step_limit 5) pair_env dg0 dg None"
    by (rule play_run_traces) simp
  from dag_ends_clean[OF this] p e show ?thesis by simp
qed

theorem failure_at_limit_is_lost_witness:
  "\<exists>dg dg'. play_run (step_limit 1) pair_env 0 (pair_start [''a'', ''b'']) [Begins ''a'', Finishes ''a''] = Some (dg, None)
     \<and> rs_err (hd (dg_done dg)) \<noteq> None
     \<and> dag_event_step (step_limit 1) pair_env (Receives False False) dg = Some (Return (dg', Some None))"
proof -
  obtain dg where p: "play_run (step_limit 1) pair_env 0 (pair_start [''a'', ''b'']) [Begins ''a'', Finishes ''a''] = Some (dg, None)"
    and d: "dg_drain_max dg" "dg_running dg = []" "length (dg_done dg) = 1" "rs_err (hd (dg_done dg)) \<noteq> None"
    using failed_at_limit by (auto split: option.splits prod.splits)
  obtain r where r: "dg_done dg = [r]" using d(3) by (auto simp: length_Suc_conv)
  then obtain e where e: "rs_err r = Some e" using d(4) by auto
  from p obtain dg0 where "newDagLoop pair_env 0 (pair_start [''a'', ''b'']) = Inl dg0"
    "dag_trace (step_limit 1) pair_env dg0 [Begins ''a'', Finishes ''a''] dg" by (rule play_run_traces) simp
  from failure_at_limit_is_lost[OF this d(1,2) r e] p d(4) show ?thesis by blast
qed

theorem dag_panic_crashes_witness:
  "\<exists>dg. play_run (step_limit 5) pair_env 0 (pair_start [''b'']) [Begins ''b'', Finishes ''b'', Receives False False] = Some (dg, None)
     \<and> (begin_event pair_env ''c'' dg = Some Panic
        \<or> (\<exists>dg'. begin_event pair_env ''c'' dg = Some (Return dg') \<and> finish_event pair_env ''c'' dg' = Some Panic))"
proof -
  obtain dg where p: "play_run (step_limit 5) pair_env 0 (pair_start [''b'']) [Begins ''b'', Finishes ''b'', Receives False False] = Some (dg, None)"
    using panics_next by (auto split: option.splits prod.splits)
  obtain r s where "find (of_node ''c'') (dg_running dg) = Some r" "rn_copy r = None"
    "run_task (re_steps (dv_run pair_env) (rn_step r)) (rn_step r) (rn_task r) (en_graph (dg_en dg), en_ec (dg_en dg)) = (s, Some TaskPanic)"
    using panics_next p by (auto split: option.splits prod.splits task_error.splits)
  from dag_panic_crashes[OF this] p show ?thesis by blast
qed

end
