(* ===== verification/Time_Travel.thy ===== *)
theory Time_Travel
  imports Typed_Restore
begin

text \<open>
  Reading, listing and editing the stored states of a run (\<open>graph/time_travel.go\<close>).  An edit forks a
  checkpoint with patched values: the original stays, and a run can resume from the copy.
\<close>

section \<open>References\<close>

record checkpoint_ref =
  rf_lineage :: string
  rf_namespace :: string
  rf_checkpoint :: string

datatype 'e travel_error =
    RefWithoutLineage
  | TravelGet 'e
  | TravelList 'e
  | TravelSave 'e
  | TravelNotFound
  | CannotEdit string

definition ref_Validate :: "checkpoint_ref \<Rightarrow> 'e travel_error option" where
  "ref_Validate r = (if rf_lineage r = [] then Some RefWithoutLineage else None)"

definition ToSaverConfig :: "checkpoint_ref \<Rightarrow> (config + 'e travel_error) run" where
  "ToSaverConfig r =
     (case ref_Validate r of
        Some e \<Rightarrow> Return (Inr e)
      | None \<Rightarrow> run_bind (NewCheckpointConfig (rf_lineage r)) (\<lambda>cfg.
          let cfg = WithNamespace (rf_namespace r) cfg;
              cfg = (if rf_checkpoint r \<noteq> [] then WithCheckpointID (rf_checkpoint r) cfg else cfg)
          in Return (Inl (ToMap cfg))))"

text \<open>The checkpoint ID is always there, so that an empty one asks for the latest checkpoint.\<close>

definition ToRuntimeState :: "checkpoint_ref \<Rightarrow> state" where
  "ToRuntimeState r =
     (let st = [(CfgKeyLineageID, VStr (rf_lineage r)), (CfgKeyCheckpointID, VStr (rf_checkpoint r))]
      in if rf_namespace r \<noteq> [] then gput CfgKeyCheckpointNS (VStr (rf_namespace r)) st else st)"

definition checkpointRefFromConfig :: "config \<Rightarrow> string \<Rightarrow> checkpoint_ref" where
  "checkpointRefFromConfig config fallbackID =
     \<lparr>rf_lineage = GetLineageID config, rf_namespace = GetNamespace config,
      rf_checkpoint = (if GetCheckpointID config = [] then fallbackID else GetCheckpointID config)\<rparr>"

section \<open>Snapshots and history\<close>

record checkpoint_info =
  ci_ref :: checkpoint_ref
  ci_parent :: string
  ci_source :: string
  ci_step :: int
  ci_timestamp :: int

record state_snapshot =
  sn_info :: checkpoint_info
  sn_state :: state
  sn_next_nodes :: "string list"
  sn_next_channels :: "string list"

definition infoFromTuple :: "checkpoint_tuple \<Rightarrow> checkpoint_info" where
  "infoFromTuple t =
     \<lparr>ci_ref = checkpointRefFromConfig (tp_config t) (ck_id (tp_checkpoint t)), ci_parent = ck_parent (tp_checkpoint t),
      ci_source = (case tp_metadata t of None \<Rightarrow> [] | Some md \<Rightarrow> md_source md),
      ci_step = (case tp_metadata t of None \<Rightarrow> 0 | Some md \<Rightarrow> md_step md), ci_timestamp = ck_timestamp (tp_checkpoint t)\<rparr>"

definition snapshotFromTuple :: "graph \<Rightarrow> checkpoint_tuple \<Rightarrow> state_snapshot run" where
  "snapshotFromTuple g t =
     run_bind (restoreStateFromCheckpoint g t) (\<lambda>st. Return
       \<lparr>sn_info = infoFromTuple t, sn_state = st, sn_next_nodes = ck_next_nodes (tp_checkpoint t),
        sn_next_channels = ck_next_channels (tp_checkpoint t)\<rparr>)"

definition GetState :: "('s, 'e) saver_ops \<Rightarrow> graph \<Rightarrow> checkpoint_ref \<Rightarrow> 's \<Rightarrow> (state_snapshot + 'e travel_error) run" where
  "GetState ops g ref s =
     run_bind (ToSaverConfig ref) (\<lambda>c. case c of
       Inr e \<Rightarrow> Return (Inr e)
     | Inl cfg \<Rightarrow> run_bind (so_GetTuple ops cfg s) (\<lambda>r. case r of
           Inr e \<Rightarrow> Return (Inr (TravelGet e))
         | Inl (None, _) \<Rightarrow> Return (Inr TravelNotFound)
         | Inl (Some t, _) \<Rightarrow> run_bind (snapshotFromTuple g t) (\<lambda>sn. Return (Inl sn))))"

text \<open>Checkpoints of the same time may come in any order; here they keep the order of the listing.\<close>

definition History ::
    "('s, 'e) saver_ops \<Rightarrow> string \<Rightarrow> string \<Rightarrow> int \<Rightarrow> 's \<Rightarrow> (checkpoint_info list + 'e travel_error) run" where
  "History ops lineage namespace limit s =
     (if lineage = [] then Return (Inr RefWithoutLineage)
      else run_bind (NewCheckpointConfig lineage) (\<lambda>c.
           run_bind (so_List ops (ToMap (WithNamespace namespace c))
                       (if limit \<le> 0 then None else Some (WithLimit limit NewCheckpointFilter)) s) (\<lambda>r. Return
             (case r of
                Inr e \<Rightarrow> Inr (TravelList e)
              | Inl ts \<Rightarrow> Inl (sort_key (\<lambda>i. - ci_timestamp i) (map infoFromTuple ts))))))"

section \<open>Editing\<close>

definition CheckpointMetaKeyBaseCheckpointID :: string where
  "CheckpointMetaKeyBaseCheckpointID = ''base_checkpoint_id''"

definition CheckpointMetaKeyUpdatedKeys :: string where
  "CheckpointMetaKeyUpdatedKeys = ''updated_keys''"

definition isProtectedTimeTravelKey :: "string \<Rightarrow> bool" where
  "isProtectedTimeTravelKey key \<longleftrightarrow>
     key = [] \<or> take 2 key = ''__'' \<or> isUnsafeStateKey key \<or> key \<in> {CfgKeyLineageID, CfgKeyCheckpointID, CfgKeyCheckpointNS}"

definition coerceValue :: "graph \<Rightarrow> string \<Rightarrow> gval \<Rightarrow> gval run" where
  "coerceValue g key value =
     (case gget (g_schema g) key of None \<Rightarrow> Return value | Some field \<Rightarrow> restoreCheckpointValueWithSchema value field)"

text \<open>The loop over the patch, in any order of the map: the values and the keys written, or the key it stops at.\<close>

fun patch_values :: "graph \<Rightarrow> bool \<Rightarrow> state \<Rightarrow> state \<Rightarrow> string list \<Rightarrow> (state \<times> string list + string) run" where
  "patch_values g allow [] vals keys = Return (Inl (vals, keys))"
| "patch_values g allow ((k, v) # patch) vals keys =
     (if \<not> allow \<and> isProtectedTimeTravelKey k then Return (Inr k)
      else run_bind (coerceValue g k v) (\<lambda>x. patch_values g allow patch (gput k (deepCopyAny x) vals) (keys @ [k])))"

definition edit_metadata :: "string \<Rightarrow> checkpoint_tuple \<Rightarrow> string list \<Rightarrow> checkpoint_metadata" where
  "edit_metadata namespace t keys =
     (NewCheckpointMetadata CheckpointSourceUpdate (case tp_metadata t of None \<Rightarrow> 0 | Some md \<Rightarrow> md_step md))
       \<lparr>md_parents := [(namespace, ck_id (tp_checkpoint t))],
        md_extra := Some [(CheckpointMetaKeyBaseCheckpointID, VStr (ck_id (tp_checkpoint t))),
                          (CheckpointMetaKeyUpdatedKeys, VStrs (Some (sort keys)))]\<rparr>"

definition EditState ::
    "('s, 'e) saver_ops \<Rightarrow> graph \<Rightarrow> string \<Rightarrow> int \<Rightarrow> bool \<Rightarrow> checkpoint_ref \<Rightarrow> state \<Rightarrow> 's
     \<Rightarrow> ('s \<times> (checkpoint_ref + 'e travel_error)) run" where
  "EditState ops g uuid now allow base patch s =
     run_bind (ToSaverConfig base) (\<lambda>c. case c of
       Inr e \<Rightarrow> Return (s, Inr e)
     | Inl cfg \<Rightarrow> run_bind (so_GetTuple ops cfg s) (\<lambda>r. case r of
           Inr e \<Rightarrow> Return (s, Inr (TravelGet e))
         | Inl (None, _) \<Rightarrow> Return (s, Inr TravelNotFound)
         | Inl (Some t, cfg) \<Rightarrow>
             (let updated = Fork uuid now (tp_checkpoint t) in
              run_bind (patch_values g allow patch (elems (ck_channel_values updated)) []) (\<lambda>p. case p of
                Inr k \<Rightarrow> Return (s, Inr (CannotEdit k))
              | Inl (vals, keys) \<Rightarrow>
                  (let updated = updated\<lparr>ck_channel_values := Some vals\<rparr> in
                   run_bind (NewCheckpointConfig (GetLineageID cfg)) (\<lambda>put.
                   run_bind (so_PutFull ops
                       \<lparr>pf_config = ToMap (WithNamespace (GetNamespace cfg) put), pf_checkpoint = Some updated,
                        pf_metadata = Some (edit_metadata (GetNamespace cfg) t keys),
                        pf_new_versions = ck_channel_versions updated, pf_pending_writes = tp_pending_writes t\<rparr> s)
                     (\<lambda>(s', r). Return (s', case r of
                        Inr e \<Rightarrow> Inr (TravelSave e)
                      | Inl cfg \<Rightarrow> Inl (checkpointRefFromConfig cfg (ck_id updated))))))))))"

section \<open>What an edit does\<close>

lemma ref_config:
  assumes "rf_lineage r \<noteq> []"
  shows "\<exists>cfg. ToSaverConfig r = Return (Inl cfg) \<and> CreateCheckpointConfig (rf_lineage r) (rf_checkpoint r) (rf_namespace r) = Return cfg"
  using assms
  by (simp add: ToSaverConfig_def ref_Validate_def CreateCheckpointConfig_def NewCheckpointConfig_def Let_def WithNamespace_def
      WithCheckpointID_def DefaultCheckpointNamespace_def)

lemma all_some_the:
  "all_some (map f xs) = Some ys \<Longrightarrow> ys = map (the \<circ> f) xs \<and> (\<forall>x \<in> set xs. f x \<noteq> None)"
proof (induction xs arbitrary: ys)
  case (Cons x xs)
  then show ?case by (cases "f x") auto
qed simp

lemma all_some_ok: "\<forall>x \<in> set xs. f x \<noteq> None \<Longrightarrow> all_some (map f xs) \<noteq> None"
  by (induction xs) auto

text \<open>A checkpoint's copy of a map copies its values one by one when all of them can be encoded.\<close>

lemma deepCopyMap_get:
  assumes "well_keyed m" "\<forall>kv \<in> set m. marshal (snd kv) \<noteq> None"
  shows "gget (elems (deepCopyMap (Some m))) k = map_option deepCopy (gget m k)"
proof -
  let ?f = "\<lambda>(k, v). map_option (Pair k) (marshal v)"
  have "all_some (map ?f m) \<noteq> None" using assms(2) by (intro all_some_ok) auto
  then obtain js where js: "all_some (map ?f m) = Some js" by blast
  then have eq: "js = map (\<lambda>(k, v). (k, the (marshal v))) m"
    using all_some_the[OF js] by (auto simp: comp_def split: prod.split)
  let ?us = "map (\<lambda>(k, v). (k, unmarshal_any v)) (sort_key fst js)"
  have copy: "deepCopy v = unmarshal_any (the (marshal v))" if "marshal v \<noteq> None" for v
    using that by (auto simp: deepCopy_def)
  have keys: "distinct (map fst ?us)" using assms(1) eq by (simp add: well_keyed_def comp_def case_prod_beta')
  have r: "deepCopyMap (Some m) = Some (sort_key fst ?us)"
    using js keys gcopy_into_distinct[of "[]" ?us] by (simp add: deepCopyMap_def deepCopy_def sorted_obj_def)
  have mem: "(k, x) \<in> set (sort_key fst ?us) \<longleftrightarrow> (\<exists>v. (k, v) \<in> set m \<and> x = deepCopy v)" for x
    using assms(2) copy by (force simp: eq)
  have wk: "well_keyed (sort_key fst ?us)" using keys by (simp add: well_keyed_def)
  show ?thesis
  proof (cases "gget m k")
    case None
    then have "\<nexists>v. (k, v) \<in> set m" using assms(1) by (simp add: well_keyed_mem_get)
    with mem have "gget (sort_key fst ?us) k = None"
      using well_keyed_mem_get[OF wk] by (metis option.exhaust)
    with r None show ?thesis by (simp add: elems_def)
  next
    case (Some v)
    then have "(k, deepCopy v) \<in> set (sort_key fst ?us)" using mem assms(1) by (auto simp: well_keyed_mem_get)
    then have "gget (sort_key fst ?us) k = Some (deepCopy v)" using well_keyed_mem_get[OF wk] by blast
    with r Some show ?thesis by (simp add: elems_def)
  qed
qed

text \<open>The value an edit writes.\<close>

definition edited :: "graph \<Rightarrow> string \<Rightarrow> gval \<Rightarrow> gval" where
  "edited g k v = (case coerceValue g k v of Panic \<Rightarrow> VNil | Return x \<Rightarrow> deepCopyAny x)"

definition editable :: "graph \<Rightarrow> bool \<Rightarrow> state \<Rightarrow> bool" where
  "editable g allow patch \<longleftrightarrow> well_keyed patch
     \<and> (\<forall>(k, v) \<in> set patch. (allow \<or> \<not> isProtectedTimeTravelKey k) \<and> coerceValue g k v \<noteq> Panic)"

lemma patch_values_eq:
  "(\<forall>(k, v) \<in> set patch. (allow \<or> \<not> isProtectedTimeTravelKey k) \<and> coerceValue g k v \<noteq> Panic)
   \<Longrightarrow> patch_values g allow patch vals keys
     = Return (Inl (gcopy_into vals (map (\<lambda>(k, v). (k, edited g k v)) patch), keys @ gkeys patch))"
proof (induction patch arbitrary: vals keys)
  case (Cons kv patch)
  obtain k v where kv: "kv = (k, v)" by fastforce
  from Cons.prems kv obtain x where "coerceValue g k v = Return x" by (cases "coerceValue g k v") auto
  with Cons kv show ?case by (auto simp: edited_def)
qed simp

lemma patch_values_stops:
  "patch_values g False patch vals keys = Return (Inl p) \<Longrightarrow> \<forall>k \<in> keyset patch. \<not> isProtectedTimeTravelKey k"
proof (induction patch arbitrary: vals keys)
  case (Cons kv patch)
  obtain k v where "kv = (k, v)" by fastforce
  with Cons show ?case by (auto simp: run_bind_Return_iff keyset_def split: if_splits)
qed (simp add: keyset_def)

text \<open>Without the option for internal keys a patch of a protected key stores nothing.\<close>

lemma protected_not_stored:
  fixes ops :: "('s, 'e) saver_ops"
  assumes "EditState ops g uuid now False base patch s = Return (s', Inl ref)" "k \<in> keyset patch"
  shows "\<not> isProtectedTimeTravelKey k"
proof -
  obtain c where c: "ToSaverConfig base = Return (c :: config + 'e travel_error)"
    using assms(1) by (cases "ToSaverConfig base :: (config + 'e travel_error) run") (simp_all add: EditState_def)
  with assms(1) obtain cfg where cfg: "c = Inl cfg" by (cases c) (auto simp: EditState_def)
  obtain r where r: "so_GetTuple ops cfg s = Return r"
    using assms(1) c cfg by (cases "so_GetTuple ops cfg s") (simp_all add: EditState_def)
  with assms(1) c cfg obtain t cfg' where t: "r = Inl (Some t, cfg')"
    by (cases r) (auto simp: EditState_def split: option.split_asm)
  let ?vals = "elems (ck_channel_values (Fork uuid now (tp_checkpoint t)))"
  obtain x where x: "patch_values g False patch ?vals [] = Return x"
    using assms(1) c cfg r t by (cases "patch_values g False patch ?vals []") (simp_all add: EditState_def Let_def)
  with assms(1) c cfg r t obtain p where "x = Inl p" by (cases x) (auto simp: EditState_def Let_def)
  with x have "patch_values g False patch ?vals [] = Return (Inl p)" by simp
  from patch_values_stops[OF this] assms(2) show ?thesis by blast
qed

context checkpoint_saver
begin

lemma edit_stores:
  assumes "inv s" "l \<noteq> []" "c \<noteq> []" "stored s l n c = Some t" "uuid \<noteq> []" "room s l n now" "editable g allow patch"
  shows "\<exists>s' cfg. EditState ops g uuid now allow \<lparr>rf_lineage = l, rf_namespace = n, rf_checkpoint = c\<rparr> patch s
       = Return (s', Inl \<lparr>rf_lineage = l, rf_namespace = n, rf_checkpoint = uuid\<rparr>) \<and> inv s'
     \<and> stores stored s l n ((Fork uuid now (tp_checkpoint t))\<lparr>ck_channel_values := Some (gcopy_into
           (elems (ck_channel_values (Fork uuid now (tp_checkpoint t)))) (map (\<lambda>(k, v). (k, edited g k v)) patch))\<rparr>)
         (Some (edit_metadata n t (gkeys patch))) cfg s'"
proof -
  let ?ref = "\<lparr>rf_lineage = l, rf_namespace = n, rf_checkpoint = c\<rparr>"
  let ?vals = "gcopy_into (elems (ck_channel_values (Fork uuid now (tp_checkpoint t)))) (map (\<lambda>(k, v). (k, edited g k v)) patch)"
  let ?new = "(Fork uuid now (tp_checkpoint t))\<lparr>ck_channel_values := Some ?vals\<rparr>"
  obtain config where config: "(ToSaverConfig ?ref :: (config + 'e travel_error) run) = Return (Inl config)" "CreateCheckpointConfig l c n = Return config"
    using ref_config[of ?ref] assms(2) by auto
  note cfg = configurable_create[OF config(2)]
  from get_law[OF assms(1) _ assms(2) _ _ assms(3), of config] cfg assms(4) obtain r where
    r: "so_GetTuple ops config s = Return (Inl (Some r, config))" "durable r = durable t" by auto
  have eq: "tp_checkpoint r = tp_checkpoint t" "edit_metadata n r keys = edit_metadata n t keys" for keys
    using r(2) by (simp_all add: durable_def edit_metadata_def)
  have pv: "patch_values g allow patch (elems (ck_channel_values (Fork uuid now (tp_checkpoint t)))) [] = Return (Inl (?vals, gkeys patch))"
    using patch_values_eq[of patch allow g] assms(7) by (simp add: editable_def)
  obtain put where put: "NewCheckpointConfig l = Return put" and pc: "CreateCheckpointConfig l [] n = Return (ToMap (WithNamespace n put))"
    using assms(2) by (simp add: NewCheckpointConfig_def CreateCheckpointConfig_def Let_def DefaultCheckpointNamespace_def)
  let ?req = "\<lparr>pf_config = ToMap (WithNamespace n put), pf_checkpoint = Some ?new, pf_metadata = Some (edit_metadata n t (gkeys patch)),
      pf_new_versions = ck_channel_versions ?new, pf_pending_writes = tp_pending_writes r\<rparr>"
  have "\<exists>s' cfg. so_PutFull ops ?req s = Return (s', Inl cfg) \<and> inv s' \<and> stores stored s l n ?new (pf_metadata ?req) cfg s'"
    by (rule put_full_law) (use assms configurable_create[OF pc] in \<open>simp_all add: Fork_def\<close>)
  then obtain s' cfg where p: "so_PutFull ops ?req s = Return (s', Inl cfg)" "inv s'"
    "stores stored s l n ?new (Some (edit_metadata n t (gkeys patch))) cfg s'" by auto
  have "CreateCheckpointConfig l uuid n = Return cfg" using p(3) by (simp add: stores_def Fork_def)
  from configurable_create[OF this] have ref: "checkpointRefFromConfig cfg x = \<lparr>rf_lineage = l, rf_namespace = n, rf_checkpoint = uuid\<rparr>" for x
    using assms(5) by (simp add: checkpointRefFromConfig_def)
  have "EditState ops g uuid now allow ?ref patch s = Return (s', Inl \<lparr>rf_lineage = l, rf_namespace = n, rf_checkpoint = uuid\<rparr>)"
    using config(1) r(1) pv put p(1) cfg ref by (simp add: EditState_def eq Let_def)
  with p(2,3) show ?thesis by blast
qed

lemma get_state_stored:
  assumes "inv s" "l \<noteq> []" "c \<noteq> []" "stored s l n c = Some t"
  shows "GetState ops g \<lparr>rf_lineage = l, rf_namespace = n, rf_checkpoint = c\<rparr> s = run_bind (snapshotFromTuple g t) (\<lambda>sn. Return (Inl sn))"
proof -
  let ?ref = "\<lparr>rf_lineage = l, rf_namespace = n, rf_checkpoint = c\<rparr>"
  obtain config where config: "(ToSaverConfig ?ref :: (config + 'e travel_error) run) = Return (Inl config)" "CreateCheckpointConfig l c n = Return config"
    using ref_config[of ?ref] assms(2) by auto
  from get_law[OF assms(1) _ assms(2) _ _ assms(3), of config] configurable_create[OF config(2)] assms(4) obtain r where
    r: "so_GetTuple ops config s = Return (Inl (Some r, config))" "durable r = durable t" by auto
  then have "snapshotFromTuple g r = snapshotFromTuple g t"
    by (simp add: durable_def snapshotFromTuple_def infoFromTuple_def restoreStateFromCheckpoint_def)
  with r(1) config(1) show ?thesis by (simp add: GetState_def)
qed

end

lemma copied_values:
  assumes "Copy t = t" "ck_channel_values t = Some m" "well_keyed m" "\<forall>kv \<in> set m. marshal (snd kv) \<noteq> None"
  shows "map_option deepCopy (gget m k) = gget m k"
proof -
  have "deepCopyMap (Some m) = Some m" using arg_cong[OF assms(1), of ck_channel_values] assms(2) by (simp add: Copy_def)
  with deepCopyMap_get[OF assms(3,4), of k] show ?thesis by (simp add: elems_def)
qed



end
