(* ===== verification/Event_Data.thy ===== *)
theory Event_Data
  imports Go_Values Message_Validator
begin

text \<open>
  The events of a conversation: \<open>model/response.go\<close> (the response a model gives) and
  \<open>event/event.go\<close> (the event that carries it, with the trace of \<open>agent/trace/trace.go\<close>).  A pointer
  that may be nil is an option; a slice or map that is only ranged over does not tell nil from
  empty.  Copies are values, so what a deep copy adds over a shallow one - that the copy does not
  alias the original - is not visible here.  Emitting events (channels) and their JSON form are not
  modelled.
\<close>

section \<open>Time and strings\<close>

text \<open>
  A \<open>time.Time\<close> is the number of nanoseconds since the zero time, so \<open>IsZero\<close> is \<open>= 0\<close>, \<open>After\<close> is
  \<open>>\<close> and \<open>UTC\<close> is the identity; monotonic clock readings and locations are left out.
\<close>

type_synonym gtime = int

abbreviation IsZero :: "gtime \<Rightarrow> bool" where
  "IsZero t \<equiv> t = 0"

text \<open>
  \<open>strings.TrimSpace\<close>: \<open>unicode.IsSpace\<close> holds of six ASCII characters and of the listed runes
  (U+0085, U+00A0, U+1680, U+2000 to U+200A, U+2028, U+2029, U+202F, U+205F, U+3000), given by
  their UTF-8 encodings.
\<close>

definition space_runes :: "string list" where
  "space_runes = map (map char_of)
     ([[9], [10], [11], [12], [13], [32], [194, 133], [194, 160], [225, 154, 128]]
      @ map (\<lambda>b. [226, 128, b]) ([128..<139] @ [168, 169, 175])
      @ [[226, 129, 159], [227, 128, 128]] :: nat list list)"

lemma space_runes_nonempty: "p \<in> set space_runes \<Longrightarrow> p \<noteq> []"
  by (auto simp: space_runes_def)

fun strip_any :: "string list \<Rightarrow> nat \<Rightarrow> string \<Rightarrow> string" where
  "strip_any ps 0 s = s"
| "strip_any ps (Suc n) s =
     (case find (\<lambda>p. prefix p s) ps of
        None \<Rightarrow> s
      | Some p \<Rightarrow> strip_any ps n (drop (length p) s))"

definition TrimSpace :: "string \<Rightarrow> string" where
  "TrimSpace s =
     (let l = strip_any space_runes (length s) s
      in rev (strip_any (map rev space_runes) (length l) (rev l)))"

text \<open>The length is fuel enough: every pattern takes at least one byte away.\<close>

lemma strip_any_done:
  "\<forall>p \<in> set ps. p \<noteq> [] \<Longrightarrow> length s \<le> n \<Longrightarrow> p \<in> set ps \<Longrightarrow> \<not> prefix p (strip_any ps n s)"
proof (induction ps n s rule: strip_any.induct)
  case (2 ps n s)
  show ?case
  proof (cases "find (\<lambda>p. prefix p s) ps")
    case None
    then have "\<not> prefix p s" using 2(4) by (simp add: find_None_iff)
    then show ?thesis by (simp add: None)
  next
    case (Some q)
    then have q: "q \<in> set ps" "prefix q s" by (auto simp: find_Some_iff)
    with 2(2) have "q \<noteq> []" by blast
    with 2(3) have "length (drop (length q) s) \<le> n" by (cases q) auto
    with 2(1)[OF Some] 2(2,4) Some show ?thesis by simp
  qed
qed simp

lemma TrimSpace_no_leading_or_trailing:
  assumes "p \<in> set space_runes"
  shows "\<not> suffix p (TrimSpace s)" "\<not> prefix p (strip_any space_runes (length s) s)"
proof -
  have r: "\<forall>q \<in> set (map rev space_runes). q \<noteq> []"
    using space_runes_nonempty by auto
  let ?l = "strip_any space_runes (length s) s"
  have "\<not> prefix (rev p) (strip_any (map rev space_runes) (length ?l) (rev ?l))"
    using strip_any_done[OF r, of "rev ?l" "length ?l" "rev p"] assms by auto
  then show "\<not> suffix p (TrimSpace s)"
    by (simp add: TrimSpace_def Let_def suffix_to_prefix)
  show "\<not> prefix p ?l"
    using strip_any_done[of space_runes s "length s" p] space_runes_nonempty assms by auto
qed

text \<open>\<open>strings.HasPrefix\<close> and \<open>strings.TrimPrefix\<close>.\<close>

abbreviation HasPrefix :: "string \<Rightarrow> string \<Rightarrow> bool" where
  "HasPrefix s p \<equiv> prefix p s"

definition TrimPrefix :: "string \<Rightarrow> string \<Rightarrow> string" where
  "TrimPrefix s p = (if HasPrefix s p then drop (length p) s else s)"

lemma TrimPrefix_append [simp]: "TrimPrefix (p @ s) p = s"
  by (simp add: TrimPrefix_def)

text \<open>\<open>strings.Split\<close> at a one-byte separator.\<close>

fun split_at :: "char \<Rightarrow> string \<Rightarrow> string list" where
  "split_at c [] = [[]]"
| "split_at c (x # s) =
     (if x = c then [] # split_at c s
      else (case split_at c s of [] \<Rightarrow> [[x]] | w # ws \<Rightarrow> (x # w) # ws))"

section \<open>Responses\<close>

record choice =
  ch_index :: int
  ch_message :: message
  ch_delta :: message
  ch_finish_reason :: "string option"

record timing_info =
  ti_first_token :: int
  ti_reasoning :: int

record prompt_tokens_details =
  pd_cached :: int
  pd_cache_creation :: int
  pd_cache_read :: int

record usage =
  us_prompt :: int
  us_completion :: int
  us_total :: int
  us_details :: prompt_tokens_details
  us_timing :: "timing_info option"

record response_error =
  re_message :: string
  re_type :: string
  re_param :: "string option"
  re_code :: "string option"

record response =
  rsp_id :: string
  rsp_object :: string
  rsp_created :: int
  rsp_model :: string
  rsp_choices :: "choice list"
  rsp_usage :: "usage option"
  rsp_fingerprint :: "string option"
  rsp_error :: "response_error option"
  rsp_timestamp :: gtime
  rsp_done :: bool
  rsp_is_partial :: bool

definition empty_message :: message where
  "empty_message =
     \<lparr>m_role = [], m_content = [], m_content_parts = [], m_tool_id = [], m_tool_name = [],
      m_tool_calls = [], m_reasoning_content = []\<rparr>"

text \<open>\<open>&model.Response{}\<close>, and a choice with only a message.\<close>

definition empty_response :: response where
  "empty_response =
     \<lparr>rsp_id = [], rsp_object = [], rsp_created = 0, rsp_model = [], rsp_choices = [],
      rsp_usage = None, rsp_fingerprint = None, rsp_error = None, rsp_timestamp = 0,
      rsp_done = False, rsp_is_partial = False\<rparr>"

definition message_choice :: "message \<Rightarrow> choice" where
  "message_choice m =
     \<lparr>ch_index = 0, ch_message = m, ch_delta = empty_message, ch_finish_reason = None\<rparr>"

definition Response_Clone :: "response option \<Rightarrow> response option" where
  "Response_Clone rsp =
     (case rsp of
        None \<Rightarrow> None
      | Some r \<Rightarrow>
          Some (r\<lparr>rsp_usage := map_option (\<lambda>u.
                    \<lparr>us_prompt = us_prompt u, us_completion = us_completion u, us_total = us_total u,
                     us_details = us_details u,
                     us_timing = map_option (\<lambda>t. \<lparr>ti_first_token = ti_first_token t,
                                                  ti_reasoning = ti_reasoning t\<rparr>) (us_timing u)\<rparr>)
                    (rsp_usage r),
                  rsp_error := map_option (\<lambda>e.
                    \<lparr>re_message = re_message e, re_type = re_type e, re_param = re_param e,
                     re_code = re_code e\<rparr>) (rsp_error r)\<rparr>))"

definition IsToolResultResponse :: "response option \<Rightarrow> bool" where
  "IsToolResultResponse rsp \<longleftrightarrow>
     (case rsp of
        None \<Rightarrow> False
      | Some r \<Rightarrow>
          (case rsp_choices r of
             [] \<Rightarrow> False
           | c # _ \<Rightarrow> m_tool_id (ch_message c) \<noteq> [] \<or> m_tool_id (ch_delta c) \<noteq> []))"

definition IsToolCallResponse :: "response option \<Rightarrow> bool" where
  "IsToolCallResponse rsp \<longleftrightarrow>
     (case rsp of
        None \<Rightarrow> False
      | Some r \<Rightarrow>
          (case rsp_choices r of
             [] \<Rightarrow> False
           | c # _ \<Rightarrow> m_tool_calls (ch_message c) \<noteq> [] \<or> m_tool_calls (ch_delta c) \<noteq> []))"

definition IsValidContent :: "response option \<Rightarrow> bool" where
  "IsValidContent rsp \<longleftrightarrow>
     (case rsp of
        None \<Rightarrow> False
      | Some r \<Rightarrow>
          IsToolCallResponse rsp \<or> IsToolResultResponse rsp
          \<or> list_ex (\<lambda>c. HasPayload (ch_message c) \<or> HasPayload (ch_delta c)) (rsp_choices r))"

definition IsUserMessage :: "response option \<Rightarrow> bool" where
  "IsUserMessage rsp \<longleftrightarrow>
     (case rsp of
        None \<Rightarrow> False
      | Some r \<Rightarrow>
          list_ex (\<lambda>c. m_role (ch_message c) = RoleUser \<or> m_role (ch_delta c) = RoleUser) (rsp_choices r))"

definition GetToolCallIDs :: "response option \<Rightarrow> string list" where
  "GetToolCallIDs rsp =
     (case rsp of
        None \<Rightarrow> []
      | Some r \<Rightarrow>
          concat (map (\<lambda>c. map tc_id (m_tool_calls (ch_message c)) @ map tc_id (m_tool_calls (ch_delta c)))
                    (rsp_choices r)))"

definition GetToolResultIDs :: "response option \<Rightarrow> string list" where
  "GetToolResultIDs rsp =
     (case rsp of
        None \<Rightarrow> []
      | Some r \<Rightarrow>
          concat (map (\<lambda>c. (if m_tool_id (ch_message c) \<noteq> [] then [m_tool_id (ch_message c)] else [])
                           @ (if m_tool_id (ch_delta c) \<noteq> [] then [m_tool_id (ch_delta c)] else []))
                    (rsp_choices r)))"

definition IsFinalResponse :: "response option \<Rightarrow> bool" where
  "IsFinalResponse rsp \<longleftrightarrow>
     (case rsp of
        None \<Rightarrow> True
      | Some r \<Rightarrow>
          (if rsp_is_partial r \<or> IsToolCallResponse rsp then False
           else rsp_done r \<and> (rsp_choices r \<noteq> [] \<or> rsp_error r \<noteq> None)))"

lemma Response_Clone_same [simp]: "Response_Clone rsp = rsp"
  by (auto simp: Response_Clone_def option.map_id0[unfolded id_def] option.map_comp comp_def
      map_option_case split: option.split)

lemma no_choices_no_user: "rsp_choices r = [] \<Longrightarrow> \<not> IsUserMessage (Some r) \<and> \<not> IsValidContent (Some r)"
  by (simp add: IsUserMessage_def IsValidContent_def IsToolCallResponse_def IsToolResultResponse_def)

section \<open>Execution traces\<close>

record trace_step =
  ts_step_id :: string
  ts_invocation :: string
  ts_parent_invocation :: string
  ts_agent :: string
  ts_branch :: string
  ts_node :: string
  ts_started :: gtime
  ts_ended :: gtime
  ts_predecessors :: "string list"
  ts_surfaces :: "string list"
  ts_input :: "string option"
  ts_output :: "string option"
  ts_error :: string

record trace =
  tr_root_agent :: string
  tr_root_invocation :: string
  tr_session :: string
  tr_started :: gtime
  tr_ended :: gtime
  tr_status :: string
  tr_steps :: "trace_step list"

definition cloneExecutionTraceStep :: "trace_step \<Rightarrow> trace_step" where
  "cloneExecutionTraceStep s =
     \<lparr>ts_step_id = ts_step_id s, ts_invocation = ts_invocation s,
      ts_parent_invocation = ts_parent_invocation s, ts_agent = ts_agent s, ts_branch = ts_branch s,
      ts_node = ts_node s, ts_started = ts_started s, ts_ended = ts_ended s,
      ts_predecessors = [] @ ts_predecessors s, ts_surfaces = [] @ ts_surfaces s,
      ts_input = ts_input s, ts_output = ts_output s, ts_error = ts_error s\<rparr>"

definition cloneExecutionTrace :: "trace option \<Rightarrow> trace option" where
  "cloneExecutionTrace tr =
     (case tr of
        None \<Rightarrow> None
      | Some t \<Rightarrow>
          Some \<lparr>tr_root_agent = tr_root_agent t, tr_root_invocation = tr_root_invocation t,
                tr_session = tr_session t, tr_started = tr_started t, tr_ended = tr_ended t,
                tr_status = tr_status t, tr_steps = map cloneExecutionTraceStep (tr_steps t)\<rparr>)"

lemma cloneExecutionTrace_same [simp]: "cloneExecutionTrace tr = tr"
proof -
  have "cloneExecutionTraceStep = id"
    by (rule ext) (simp add: cloneExecutionTraceStep_def)
  then show ?thesis
    by (simp add: cloneExecutionTrace_def split: option.split)
qed

section \<open>Events\<close>

type_synonym bytes = string

definition CurrentVersion :: int where "CurrentVersion = 1"

definition FilterKeyDelimiter :: string where "FilterKeyDelimiter = ''/''"

definition TagDelimiter :: char where "TagDelimiter = CHR '';''"

record event =
  ev_response :: "response option"
  ev_request_id :: string
  ev_invocation :: string
  ev_parent_invocation :: string
  ev_author :: string
  ev_id :: string
  ev_timestamp :: gtime
  ev_branch :: string
  ev_tag :: string
  ev_requires_completion :: bool
  ev_long_running :: "(string, unit) gomap option"
  ev_state_delta :: "(string, bytes option) gomap option"
  ev_extensions :: "(string, bytes option) gomap option"
  ev_structured_output :: gval
  ev_trace :: "trace option"
  ev_skip_summarization :: "bool option"
  ev_filter_key :: string
  ev_version :: int

text \<open>\<open>event.Event{}\<close>.\<close>

definition empty_event :: event where
  "empty_event =
     \<lparr>ev_response = None, ev_request_id = [], ev_invocation = [], ev_parent_invocation = [],
      ev_author = [], ev_id = [], ev_timestamp = 0, ev_branch = [], ev_tag = [],
      ev_requires_completion = False, ev_long_running = None, ev_state_delta = None,
      ev_extensions = None, ev_structured_output = VNil, ev_trace = None,
      ev_skip_summarization = None, ev_filter_key = [], ev_version = 0\<rparr>"

definition ContainsTag :: "event \<Rightarrow> string \<Rightarrow> bool" where
  "ContainsTag e tag \<longleftrightarrow>
     ev_tag e \<noteq> [] \<and> list_ex (\<lambda>t. TrimSpace t = TrimSpace tag) (split_at TagDelimiter (ev_tag e))"

text \<open>\<open>Filter\<close> on a nil event is false.\<close>

definition filter_key_of :: "event \<Rightarrow> string" where
  "filter_key_of e = (if ev_version e \<noteq> CurrentVersion then ev_branch e else ev_filter_key e)"

definition Event_Filter :: "event option \<Rightarrow> string \<Rightarrow> bool" where
  "Event_Filter ev filterKey \<longleftrightarrow>
     (case ev of
        None \<Rightarrow> False
      | Some e \<Rightarrow>
          (if filterKey = [] \<or> filter_key_of e = [] then True
           else let fk = filterKey @ FilterKeyDelimiter; ek = filter_key_of e @ FilterKeyDelimiter
                in HasPrefix fk ek \<or> HasPrefix ek fk))"

text \<open>
  \<open>Clone\<close> with the fresh identifier as an argument.  \<open>make([]byte, len(v))\<close> turns a nil value of the
  state delta into an empty one; \<open>cloneRawMessage\<close> keeps nil.
\<close>

definition copied_bytes :: "bytes option \<Rightarrow> bytes option" where
  "copied_bytes v = (case v of None \<Rightarrow> Some [] | Some b \<Rightarrow> Some b)"

definition cloneRawMessage :: "bytes option \<Rightarrow> bytes option" where
  "cloneRawMessage raw = (case raw of None \<Rightarrow> None | Some b \<Rightarrow> Some b)"

definition Event_Clone :: "string \<Rightarrow> event option \<Rightarrow> event option" where
  "Event_Clone uuid ev =
     (case ev of
        None \<Rightarrow> None
      | Some e \<Rightarrow>
          Some (e\<lparr>ev_response := Response_Clone (ev_response e),
                  ev_long_running := Some (case ev_long_running e of None \<Rightarrow> [] | Some m \<Rightarrow> m),
                  ev_version := CurrentVersion,
                  ev_id := uuid,
                  ev_trace := cloneExecutionTrace (ev_trace e),
                  ev_filter_key := (if ev_version e \<noteq> CurrentVersion then ev_branch e else ev_filter_key e),
                  ev_state_delta :=
                    map_option (map (\<lambda>(k, v). (k, copied_bytes v))) (ev_state_delta e),
                  ev_extensions :=
                    map_option (map (\<lambda>(k, v). (k, cloneRawMessage v))) (ev_extensions e),
                  ev_skip_summarization := map_option (\<lambda>b. b) (ev_skip_summarization e)\<rparr>))"

definition event_New :: "string \<Rightarrow> gtime \<Rightarrow> string \<Rightarrow> string \<Rightarrow> (event \<Rightarrow> event) list \<Rightarrow> event" where
  "event_New uuid now invocationID author opts =
     foldl (\<lambda>e opt. opt e)
       (empty_event\<lparr>ev_response := Some empty_response, ev_id := uuid, ev_timestamp := now,
                    ev_invocation := invocationID, ev_author := author,
                    ev_version := CurrentVersion\<rparr>) opts"

definition WithResponse :: "response option \<Rightarrow> event \<Rightarrow> event" where
  "WithResponse r e = e\<lparr>ev_response := r\<rparr>"

definition ObjectTypeError :: string where "ObjectTypeError = ''error''"

definition ObjectTypeRunnerCompletion :: string where
  "ObjectTypeRunnerCompletion = ''runner.completion''"

definition NewResponseEvent ::
    "string \<Rightarrow> gtime \<Rightarrow> string \<Rightarrow> string \<Rightarrow> response option \<Rightarrow> (event \<Rightarrow> event) list \<Rightarrow> event" where
  "NewResponseEvent uuid now invocationID author r opts =
     event_New uuid now invocationID author (opts @ [WithResponse r])"

definition NewErrorEvent ::
    "string \<Rightarrow> gtime \<Rightarrow> string \<Rightarrow> string \<Rightarrow> string \<Rightarrow> string \<Rightarrow> (event \<Rightarrow> event) list \<Rightarrow> event" where
  "NewErrorEvent uuid now invocationID author errorType errorMessage opts =
     event_New uuid now invocationID author
       (opts @ [WithResponse (Some (empty_response\<lparr>rsp_object := ObjectTypeError, rsp_done := True,
                  rsp_error := Some \<lparr>re_message = errorMessage, re_type = errorType,
                                     re_param = None, re_code = None\<rparr>\<rparr>))])"

definition IsRunnerCompletion :: "event option \<Rightarrow> bool" where
  "IsRunnerCompletion ev \<longleftrightarrow>
     (case ev of
        None \<Rightarrow> False
      | Some e \<Rightarrow>
          (case ev_response e of
             None \<Rightarrow> False
           | Some r \<Rightarrow> rsp_done r \<and> rsp_object r = ObjectTypeRunnerCompletion))"

definition IsError :: "event option \<Rightarrow> bool" where
  "IsError ev \<longleftrightarrow>
     (case ev of
        None \<Rightarrow> False
      | Some e \<Rightarrow>
          (case ev_response e of
             None \<Rightarrow> False
           | Some r \<Rightarrow> rsp_object r = ObjectTypeError \<or> rsp_error r \<noteq> None))"

definition IsTerminalError :: "event option \<Rightarrow> bool" where
  "IsTerminalError ev \<longleftrightarrow>
     (case ev of
        None \<Rightarrow> False
      | Some e \<Rightarrow>
          (case ev_response e of
             None \<Rightarrow> False
           | Some r \<Rightarrow> rsp_error r \<noteq> None \<and> (rsp_object r = ObjectTypeError \<or> rsp_done r)))"

section \<open>Lemmas\<close>

text \<open>Cloning migrates the version and keeps what an event matches and says.\<close>

lemma clone_keeps_filter: "Event_Filter (Event_Clone uuid ev) fk = Event_Filter ev fk"
  by (auto simp: Event_Filter_def Event_Clone_def filter_key_of_def CurrentVersion_def
      split: option.split)

lemma clone_keeps_content:
  "Event_Clone uuid (Some e) = Some e' \<Longrightarrow>
   ev_response e' = ev_response e \<and> ev_timestamp e' = ev_timestamp e \<and> ev_trace e' = ev_trace e
   \<and> ev_tag e' = ev_tag e"
  by (auto simp: Event_Clone_def)

text \<open>The hierarchical match: a key matches itself, everything below it and everything above it.\<close>

lemma filter_matches_iff:
  assumes "filter_key_of e \<noteq> []" "fk \<noteq> []"
  shows "Event_Filter (Some e) fk \<longleftrightarrow>
           filter_key_of e = fk \<or> prefix (filter_key_of e @ ''/'') fk \<or> prefix (fk @ ''/'') (filter_key_of e)"
  using assms
  by (auto simp: Event_Filter_def FilterKeyDelimiter_def Let_def prefix_def append_eq_append_conv2
      Cons_eq_append_conv append_eq_Cons_conv)

lemma filter_empty_key [simp]: "Event_Filter (Some e) [] = True"
  by (simp add: Event_Filter_def)

lemma error_event_is_terminal:
  "IsTerminalError (Some (NewErrorEvent uuid now iid au ty msg opts))"
  by (simp add: NewErrorEvent_def event_New_def WithResponse_def IsTerminalError_def)

lemma terminal_error_is_error: "IsTerminalError ev \<Longrightarrow> IsError ev"
  by (auto simp: IsTerminalError_def IsError_def split: option.splits)

lemma user_message_has_choice: "IsUserMessage rsp \<Longrightarrow> \<exists>r. rsp = Some r \<and> rsp_choices r \<noteq> []"
  by (auto simp: IsUserMessage_def split: option.splits)

end
