(* ===== verification/Session_Data.thy ===== *)
theory Session_Data
  imports Event_Data "HOL-Library.Word"
begin

text \<open>
  \<open>session/session.go\<close>, \<open>session/state.go\<close> and \<open>session/track.go\<close>: the session with its state, events,
  tracks and summaries, its copies and windows, the options and the keys.  One operation reads the
  clock once (\<open>now\<close>).  The receivers are not nil; the maps \<open>Tracks\<close> and \<open>Summaries\<close> hold no nil
  pointer, as no code stores one.  The JSON codec of the track index is a pair of arguments.
\<close>

unbundle bit_operations_syntax

section \<open>State maps\<close>

type_synonym state_map = "(string, bytes option) gomap"

definition StateAppPrefix :: string where "StateAppPrefix = ''app:''"

definition StateUserPrefix :: string where "StateUserPrefix = ''user:''"

definition StateTempPrefix :: string where "StateTempPrefix = ''temp:''"

text \<open>The state of \<open>state.go\<close>: committed values and the pending delta.\<close>

record pending_state =
  pend_value :: state_map
  pend_delta :: state_map

definition NewState :: pending_state where
  "NewState = \<lparr>pend_value = [], pend_delta = []\<rparr>"

definition pending_Set :: "string \<Rightarrow> bytes option \<Rightarrow> pending_state \<Rightarrow> pending_state" where
  "pending_Set key value s = s\<lparr>pend_value := gput key value (pend_value s), pend_delta := gput key value (pend_delta s)\<rparr>"

definition pending_Get :: "string \<Rightarrow> pending_state \<Rightarrow> bytes option option" where
  "pending_Get key s =
     (case gget (pend_delta s) key of
        Some v \<Rightarrow> Some v
      | None \<Rightarrow> (case gget (pend_value s) key of Some v \<Rightarrow> Some v | None \<Rightarrow> None))"

lemma pending_get_set [simp]: "pending_Get k (pending_Set k' v s) = (if k = k' then Some v else pending_Get k s)"
  by (simp add: pending_Get_def pending_Set_def split: option.split)

section \<open>The session\<close>

record track_event =
  te_track :: string
  te_payload :: "bytes option"
  te_timestamp :: gtime

record track_events =
  tes_track :: string
  tes_events :: "track_event list"

record summary =
  sum_text :: string
  sum_topics :: "string list"
  sum_updated_at :: gtime

record session =
  ss_id :: string
  ss_app :: string
  ss_user :: string
  ss_state :: "state_map option"
  ss_events :: "event list"
  ss_tracks :: "(string, track_events) gomap option"
  ss_summaries :: "(string, summary) gomap option"
  ss_updated_at :: gtime
  ss_created_at :: gtime
  ss_hash :: int
  ss_service_meta :: "(string, string) gomap option"

text \<open>The state as a map that ranges and reads see: nil is empty.\<close>

abbreviation state_of :: "session \<Rightarrow> state_map" where
  "state_of sess \<equiv> (case ss_state sess of None \<Rightarrow> [] | Some m \<Rightarrow> m)"

text \<open>FNV-1a on 32 bits (\<open>hash/fnv\<close>), as a non-negative \<open>int\<close> of 64 bits.\<close>

definition fnv32a :: "string \<Rightarrow> 32 word" where
  "fnv32a s = foldl (\<lambda>h c. (h XOR word_of_nat (of_char c)) * 16777619) 2166136261 s"

definition HashString :: "string \<Rightarrow> int" where
  "HashString s = uint (fnv32a s)"

lemma HashString_nonneg: "0 \<le> HashString s \<and> HashString s < 2 ^ 32"
  using uint_lt2p[of "fnv32a s"] by (simp add: HashString_def)

definition NewSession :: "gtime \<Rightarrow> string \<Rightarrow> string \<Rightarrow> string \<Rightarrow> (session \<Rightarrow> session) list \<Rightarrow> session" where
  "NewSession now appName userID sessionID options =
     foldl (\<lambda>s opt. opt s)
       \<lparr>ss_id = sessionID, ss_app = appName, ss_user = userID, ss_state = Some [], ss_events = [],
        ss_tracks = None, ss_summaries = Some [], ss_updated_at = now, ss_created_at = now,
        ss_hash = HashString (appName @ '':'' @ userID @ '':'' @ sessionID), ss_service_meta = None\<rparr>
       options"

definition WithSessionCreatedAt :: "gtime \<Rightarrow> session \<Rightarrow> session" where
  "WithSessionCreatedAt t sess = sess\<lparr>ss_created_at := t\<rparr>"

definition WithSessionUpdatedAt :: "gtime \<Rightarrow> session \<Rightarrow> session" where
  "WithSessionUpdatedAt t sess = sess\<lparr>ss_updated_at := t\<rparr>"

definition WithSessionEvents :: "event list \<Rightarrow> session \<Rightarrow> session" where
  "WithSessionEvents events sess = sess\<lparr>ss_events := events\<rparr>"

definition WithSessionSummaries :: "(string, summary) gomap option \<Rightarrow> session \<Rightarrow> session" where
  "WithSessionSummaries summaries sess = sess\<lparr>ss_summaries := summaries\<rparr>"

definition WithSessionState :: "state_map option \<Rightarrow> session \<Rightarrow> session" where
  "WithSessionState state sess =
     (case state of
        None \<Rightarrow> sess\<lparr>ss_state := None\<rparr>
      | Some m \<Rightarrow> sess\<lparr>ss_state := Some (map (\<lambda>(k, v). (k, v)) m)\<rparr>)"

text \<open>
  \<open>Clone\<close>: the state map is never nil in the copy, an empty map of tracks becomes nil.
\<close>

definition clone_history :: "track_events \<Rightarrow> track_events" where
  "clone_history h = \<lparr>tes_track = tes_track h, tes_events = tes_events h\<rparr>"

definition Session_Clone :: "session \<Rightarrow> session" where
  "Session_Clone sess =
     \<lparr>ss_id = ss_id sess, ss_app = ss_app sess, ss_user = ss_user sess,
      ss_state = Some (state_of sess),
      ss_events = ss_events sess,
      ss_tracks =
        (case ss_tracks sess of
           None \<Rightarrow> None
         | Some m \<Rightarrow> if m = [] then None else Some (map (\<lambda>(t, h). (t, clone_history h)) m)),
      ss_summaries = ss_summaries sess,
      ss_updated_at = ss_updated_at sess, ss_created_at = ss_created_at sess, ss_hash = ss_hash sess,
      ss_service_meta = ss_service_meta sess\<rparr>"

definition session_GetState :: "session \<Rightarrow> string \<Rightarrow> bytes option option" where
  "session_GetState sess key = (case ss_state sess of None \<Rightarrow> None | Some m \<Rightarrow> gget m key)"

definition SetState :: "string \<Rightarrow> bytes option \<Rightarrow> session \<Rightarrow> session" where
  "SetState key value sess = sess\<lparr>ss_state := Some (gput key value (state_of sess))\<rparr>"

definition DeleteState :: "string \<Rightarrow> session \<Rightarrow> session" where
  "DeleteState key sess =
     (case ss_state sess of None \<Rightarrow> sess | Some m \<Rightarrow> sess\<lparr>ss_state := Some (gdel key m)\<rparr>)"

definition SnapshotState :: "session \<Rightarrow> state_map option" where
  "SnapshotState sess = map_option (map (\<lambda>(k, v). (k, v))) (ss_state sess)"

definition HasStateKeyWithPrefix :: "session option \<Rightarrow> string \<Rightarrow> bool" where
  "HasStateKeyWithPrefix so prefix_arg \<longleftrightarrow>
     (case so of
        None \<Rightarrow> False
      | Some sess \<Rightarrow>
          (let p = TrimSpace prefix_arg
           in p \<noteq> [] \<and>
              list_ex (\<lambda>(k, v). HasPrefix k p \<and> (case v of None \<Rightarrow> False | Some b \<Rightarrow> b \<noteq> []))
                (state_of sess)))"

definition tracksStateKey :: string where "tracksStateKey = ''tracks''"

definition SnapshotTracksState :: "session \<Rightarrow> bytes option" where
  "SnapshotTracksState sess =
     (case session_GetState sess tracksStateKey of
        Some (Some b) \<Rightarrow> if b = [] then None else Some b
      | _ \<Rightarrow> None)"

definition GetEvents :: "session \<Rightarrow> event list" where
  "GetEvents sess = ss_events sess"

definition GetEventCount :: "session \<Rightarrow> nat" where
  "GetEventCount sess = length (ss_events sess)"

section \<open>Tracks\<close>

datatype session_error =
    AppNameRequired | UserIDRequired | SessionIDRequired
  | EventPageOnlyForGetSession | EventPageUnsupported | InvalidEventPage
  | EventPageConflictsWithEventFilters
  | TrackEventIsNil | TracksIsEmpty | TrackEventsNotFound string | BadTrackIndex
  | AppNotFound string | UserNotFound string | SessionNotFound string | SessionExpired string
  | StateKeyNotAllowed string
  | SummaryFailed string

text \<open>\<open>TracksFromState\<close>: \<open>dec\<close> decodes the index, \<open>None\<close> for a malformed one.\<close>

definition TracksFromState ::
    "(bytes \<Rightarrow> string list option) \<Rightarrow> state_map \<Rightarrow> session_error + string list" where
  "TracksFromState dec state =
     (case gget state tracksStateKey of
        Some (Some raw) \<Rightarrow>
          (if raw = [] then Inr []
           else (case dec raw of None \<Rightarrow> Inl BadTrackIndex | Some tracks \<Rightarrow> Inr tracks))
      | _ \<Rightarrow> Inr [])"

definition ensureTrackExists ::
    "(string list \<Rightarrow> bytes) \<Rightarrow> (bytes \<Rightarrow> string list option) \<Rightarrow> state_map \<Rightarrow> string
     \<Rightarrow> session_error + state_map" where
  "ensureTrackExists enc dec state track =
     (case TracksFromState dec state of
        Inl e \<Rightarrow> Inl e
      | Inr tracks \<Rightarrow>
          (if track \<in> set tracks then Inr state
           else Inr (gput tracksStateKey (Some (enc (tracks @ [track]))) state)))"

text \<open>
  \<open>AppendTrackEvent\<close>: the session comes back with the error, since its nil state has been replaced
  by an empty one by then.
\<close>

definition AppendTrackEvent ::
    "(string list \<Rightarrow> bytes) \<Rightarrow> (bytes \<Rightarrow> string list option) \<Rightarrow> gtime \<Rightarrow> track_event option \<Rightarrow> session
     \<Rightarrow> session \<times> session_error option" where
  "AppendTrackEvent enc dec now ev sess =
     (case ev of
        None \<Rightarrow> (sess, Some TrackEventIsNil)
      | Some e \<Rightarrow>
          (let sess1 = sess\<lparr>ss_state := Some (state_of sess)\<rparr>
           in (case ensureTrackExists enc dec (state_of sess) (te_track e) of
                 Inl err \<Rightarrow> (sess1, Some err)
               | Inr state \<Rightarrow>
                   (let tracks = (case ss_tracks sess of None \<Rightarrow> [] | Some m \<Rightarrow> m);
                        history = (case gget tracks (te_track e) of
                                     None \<Rightarrow> \<lparr>tes_track = te_track e, tes_events = []\<rparr>
                                   | Some h \<Rightarrow> h)
                    in (sess1\<lparr>ss_state := Some state,
                              ss_tracks := Some (gput (te_track e)
                                (history\<lparr>tes_events := tes_events history @ [e]\<rparr>) tracks),
                              ss_updated_at := now\<rparr>, None)))))"

definition GetTrackEvents :: "session \<Rightarrow> string \<Rightarrow> session_error + track_events" where
  "GetTrackEvents sess track =
     (case ss_tracks sess of
        None \<Rightarrow> Inl TracksIsEmpty
      | Some m \<Rightarrow>
          (case gget m track of
             None \<Rightarrow> Inl (TrackEventsNotFound track)
           | Some h \<Rightarrow> Inr (clone_history h)))"

section \<open>Options and keys\<close>

record event_page =
  ep_offset :: int
  ep_limit :: int

record session_options =
  op_event_num :: int
  op_event_time :: gtime
  op_event_page :: "event_page option"
  op_only_meta :: bool

definition no_options :: session_options where
  "no_options = \<lparr>op_event_num = 0, op_event_time = 0, op_event_page = None, op_only_meta = False\<rparr>"

type_synonym session_option = "session_options \<Rightarrow> session_options"

definition applyOptions :: "session_option list \<Rightarrow> session_options" where
  "applyOptions opts = foldl (\<lambda>o' f. f o') no_options opts"

definition WithEventNum :: "int \<Rightarrow> session_option" where
  "WithEventNum n o' = o'\<lparr>op_event_num := n\<rparr>"

definition WithEventTime :: "gtime \<Rightarrow> session_option" where
  "WithEventTime t o' = o'\<lparr>op_event_time := t\<rparr>"

definition WithListSessionOnlyMeta :: session_option where
  "WithListSessionOnlyMeta o' = o'\<lparr>op_only_meta := True\<rparr>"

definition WithGetSessionEventPage :: "int \<Rightarrow> int \<Rightarrow> session_option" where
  "WithGetSessionEventPage offset limit o' =
     o'\<lparr>op_event_page := Some \<lparr>ep_offset = offset, ep_limit = limit\<rparr>\<rparr>"

definition ValidateGetSessionOptions :: "session_options \<Rightarrow> bool \<Rightarrow> session_error option" where
  "ValidateGetSessionOptions opts supportsEventPage =
     (case op_event_page opts of
        None \<Rightarrow> None
      | Some page \<Rightarrow>
          (if \<not> supportsEventPage then Some EventPageUnsupported
           else if ep_offset page < 0 \<or> ep_limit page \<le> 0 then Some InvalidEventPage
           else if op_event_num opts \<noteq> 0 \<or> \<not> IsZero (op_event_time opts)
           then Some EventPageConflictsWithEventFilters
           else None))"

definition ValidateListSessionsOptions :: "session_options \<Rightarrow> session_error option" where
  "ValidateListSessionsOptions opts =
     (case op_event_page opts of None \<Rightarrow> None | Some _ \<Rightarrow> Some EventPageOnlyForGetSession)"

record session_key =
  k_app :: string
  k_user :: string
  k_session :: string

definition checkUserKey :: "string \<Rightarrow> string \<Rightarrow> session_error option" where
  "checkUserKey appName userID =
     (if appName = [] then Some AppNameRequired
      else if userID = [] then Some UserIDRequired
      else None)"

definition checkSessionKey :: "string \<Rightarrow> string \<Rightarrow> string \<Rightarrow> session_error option" where
  "checkSessionKey appName userID sessionID =
     (if appName = [] then Some AppNameRequired
      else if userID = [] then Some UserIDRequired
      else if sessionID = [] then Some SessionIDRequired
      else None)"

definition key_of :: "session \<Rightarrow> session_key" where
  "key_of sess = \<lparr>k_app = ss_app sess, k_user = ss_user sess, k_session = ss_id sess\<rparr>"

abbreviation CheckSessionKey :: "session_key \<Rightarrow> session_error option" where
  "CheckSessionKey k \<equiv> checkSessionKey (k_app k) (k_user k) (k_session k)"

section \<open>Windows on the events\<close>

abbreviation is_user :: "event \<Rightarrow> bool" where
  "is_user e \<equiv> IsUserMessage (ev_response e)"

definition EnsureEventStartWithUser :: "session \<Rightarrow> session" where
  "EnsureEventStartWithUser sess =
     sess\<lparr>ss_events := dropWhile (\<lambda>e. \<not> (ev_response e \<noteq> None \<and> is_user e)) (ss_events sess)\<rparr>"

text \<open>
  The two windows of \<open>ApplyEventFiltering\<close> - the events from the first one at or after \<open>EventTime\<close>
  on, then the last \<open>EventNum\<close> - and its last step: from the first user message on, or with the
  last user message of all the events in front.
\<close>

definition time_window :: "gtime \<Rightarrow> event list \<Rightarrow> event list" where
  "time_window t evs =
     (if \<not> IsZero t then dropWhile (\<lambda>e. \<not> (ev_timestamp e > t \<or> ev_timestamp e = t)) evs else evs)"

definition num_window :: "int \<Rightarrow> event list \<Rightarrow> event list" where
  "num_window n evs =
     (if 0 < n \<and> n < int (length evs) then drop (length evs - nat n) evs else evs)"

definition keep_user :: "event list \<Rightarrow> event list \<Rightarrow> event list" where
  "keep_user originalEvents evs =
     (case dropWhile (\<lambda>e. \<not> is_user e) evs of
        e # es \<Rightarrow> e # es
      | [] \<Rightarrow>
          (case find is_user (rev originalEvents) of
             Some u \<Rightarrow> u # evs
           | None \<Rightarrow> []))"

definition filter_events :: "int \<Rightarrow> gtime \<Rightarrow> event list \<Rightarrow> event list" where
  "filter_events n t evs = keep_user evs (num_window n (time_window t evs))"

definition ApplyEventFiltering :: "session_options \<Rightarrow> session \<Rightarrow> session" where
  "ApplyEventFiltering opt sess =
     sess\<lparr>ss_events := filter_events (op_event_num opt) (op_event_time opt) (ss_events sess)\<rparr>"

definition apply_delta :: "event \<Rightarrow> state_map \<Rightarrow> state_map" where
  "apply_delta e m =
     foldl (\<lambda>m (k, v). gput k v m) m (case ev_state_delta e of None \<Rightarrow> [] | Some d \<Rightarrow> d)"

definition ApplyEventStateDelta :: "event option \<Rightarrow> session \<Rightarrow> session" where
  "ApplyEventStateDelta ev sess =
     (case ev of
        None \<Rightarrow> sess
      | Some e \<Rightarrow> sess\<lparr>ss_state := Some (apply_delta e (state_of sess))\<rparr>)"

definition ApplyEventStateDeltaMap :: "state_map option \<Rightarrow> event option \<Rightarrow> state_map option" where
  "ApplyEventStateDeltaMap state ev =
     (case (state, ev) of
        (Some m, Some e) \<Rightarrow> Some (apply_delta e m)
      | _ \<Rightarrow> state)"

text \<open>The condition under which an event enters the history.\<close>

definition is_recorded :: "event \<Rightarrow> bool" where
  "is_recorded e \<longleftrightarrow>
     (case ev_response e of
        None \<Rightarrow> False
      | Some r \<Rightarrow> \<not> rsp_is_partial r \<and> IsValidContent (ev_response e))"

definition UpdateUserSession :: "gtime \<Rightarrow> session_options \<Rightarrow> event option \<Rightarrow> session \<Rightarrow> session" where
  "UpdateUserSession now opt ev sess =
     (case ev of
        None \<Rightarrow> sess
      | Some e \<Rightarrow>
          (let sess1 = (if is_recorded e
                        then ApplyEventFiltering opt (sess\<lparr>ss_events := ss_events sess @ [e]\<rparr>)
                        else sess)
           in ApplyEventStateDelta ev (sess1\<lparr>ss_updated_at := now\<rparr>)))"

end
