(* ===== verification/Session_InMemory.thy ===== *)
theory Session_InMemory
  imports Session_Data
begin

text \<open>
  \<open>session/inmemory/service.go\<close> and \<open>options.go\<close>, with the hook chains of \<open>internal/session/hook\<close>:
  the in-memory session service.  An application has its sessions by user and ID, a state per user
  and one state of its own, each with the time at which it expires (0: never).  An operation holds
  the application's lock from its first access to its last, so it is one step, at one reading
  \<open>now\<close> of the clock; \<open>cleanupExpired\<close> is a step of its own that the ticker may take at any time.
  A nil event reaches \<open>updateStoredSession\<close> and is dereferenced there: \<open>Panic\<close>.
\<close>

section \<open>Options\<close>

record service_opts =
  so_event_limit :: int
  so_session_ttl :: int
  so_app_ttl :: int
  so_user_ttl :: int
  so_cleanup_interval :: int
  so_async_num :: int
  so_queue_size :: int
  so_job_timeout :: int

definition second :: int where "second = 1000000000"

definition defaultCleanupInterval :: int where "defaultCleanupInterval = 300 * second"

definition defaultOptions :: service_opts where
  "defaultOptions =
     \<lparr>so_event_limit = 1000, so_session_ttl = 0, so_app_ttl = 0, so_user_ttl = 0,
      so_cleanup_interval = 0, so_async_num = 3, so_queue_size = 100,
      so_job_timeout = 60 * second\<rparr>"

definition WithSessionEventLimit :: "int \<Rightarrow> service_opts \<Rightarrow> service_opts" where
  "WithSessionEventLimit limit opts = opts\<lparr>so_event_limit := limit\<rparr>"

definition WithSessionTTL :: "int \<Rightarrow> service_opts \<Rightarrow> service_opts" where
  "WithSessionTTL ttl opts = opts\<lparr>so_session_ttl := ttl\<rparr>"

definition WithAppStateTTL :: "int \<Rightarrow> service_opts \<Rightarrow> service_opts" where
  "WithAppStateTTL ttl opts = opts\<lparr>so_app_ttl := ttl\<rparr>"

definition WithUserStateTTL :: "int \<Rightarrow> service_opts \<Rightarrow> service_opts" where
  "WithUserStateTTL ttl opts = opts\<lparr>so_user_ttl := ttl\<rparr>"

definition WithCleanupInterval :: "int \<Rightarrow> service_opts \<Rightarrow> service_opts" where
  "WithCleanupInterval interval opts = opts\<lparr>so_cleanup_interval := interval\<rparr>"

definition WithAsyncSummaryNum :: "int \<Rightarrow> service_opts \<Rightarrow> service_opts" where
  "WithAsyncSummaryNum num opts = opts\<lparr>so_async_num := (if num < 1 then 3 else num)\<rparr>"

definition WithSummaryQueueSize :: "int \<Rightarrow> service_opts \<Rightarrow> service_opts" where
  "WithSummaryQueueSize size' opts = opts\<lparr>so_queue_size := (if size' < 1 then 100 else size')\<rparr>"

definition WithSummaryJobTimeout :: "int \<Rightarrow> service_opts \<Rightarrow> service_opts" where
  "WithSummaryJobTimeout timeout opts = (if timeout \<le> 0 then opts else opts\<lparr>so_job_timeout := timeout\<rparr>)"

section \<open>The store\<close>

record state_ttl =
  st_data :: state_map
  st_expired_at :: gtime

record session_ttl =
  sw_session :: session
  sw_expired_at :: gtime

record app_sessions =
  as_sessions :: "(string, (string, session_ttl) gomap) gomap"
  as_user_state :: "(string, state_ttl) gomap"
  as_app_state :: state_ttl

record service =
  sv_apps :: "(string, app_sessions) gomap"
  sv_opts :: service_opts
  sv_ticking :: bool

definition isExpired :: "gtime \<Rightarrow> gtime \<Rightarrow> bool" where
  "isExpired now expiredAt \<longleftrightarrow> \<not> IsZero expiredAt \<and> expiredAt < now"

definition calculateExpiredAt :: "gtime \<Rightarrow> int \<Rightarrow> gtime" where
  "calculateExpiredAt now ttl = (if ttl \<le> 0 then 0 else now + ttl)"

definition getValidState :: "gtime \<Rightarrow> state_ttl option \<Rightarrow> state_map option" where
  "getValidState now s =
     (case s of
        None \<Rightarrow> None
      | Some st \<Rightarrow> if isExpired now (st_expired_at st) then None else Some (st_data st))"

definition getValidSession :: "gtime \<Rightarrow> session_ttl option \<Rightarrow> session option" where
  "getValidSession now s =
     (case s of
        None \<Rightarrow> None
      | Some sw \<Rightarrow> if isExpired now (sw_expired_at sw) then None else Some (sw_session sw))"

definition newAppSessions :: app_sessions where
  "newAppSessions =
     \<lparr>as_sessions = [], as_user_state = [], as_app_state = \<lparr>st_data = [], st_expired_at = 0\<rparr>\<rparr>"

text \<open>The ticker runs exactly when an interval is set, be it the default one.\<close>

definition NewSessionService :: "(service_opts \<Rightarrow> service_opts) list \<Rightarrow> service" where
  "NewSessionService options =
     (let opts = foldl (\<lambda>o' f. f o') defaultOptions options;
          opts = (if so_cleanup_interval opts \<le> 0
                    \<and> (so_session_ttl opts > 0 \<or> so_app_ttl opts > 0 \<or> so_user_ttl opts > 0)
                  then opts\<lparr>so_cleanup_interval := defaultCleanupInterval\<rparr> else opts)
      in \<lparr>sv_apps = [], sv_opts = opts, sv_ticking = so_cleanup_interval opts > 0\<rparr>)"

definition Close :: "service \<Rightarrow> service" where
  "Close s = s\<lparr>sv_ticking := False\<rparr>"

definition getAppSessions :: "string \<Rightarrow> service \<Rightarrow> app_sessions option" where
  "getAppSessions appName s = gget (sv_apps s) appName"

definition getOrCreateAppSessions :: "string \<Rightarrow> service \<Rightarrow> app_sessions" where
  "getOrCreateAppSessions appName s =
     (case gget (sv_apps s) appName of Some app \<Rightarrow> app | None \<Rightarrow> newAppSessions)"

text \<open>Writing through the application's pointer.\<close>

definition set_app :: "string \<Rightarrow> app_sessions \<Rightarrow> service \<Rightarrow> service" where
  "set_app appName app s = s\<lparr>sv_apps := gput appName app (sv_apps s)\<rparr>"

definition user_sessions :: "string \<Rightarrow> app_sessions \<Rightarrow> (string, session_ttl) gomap" where
  "user_sessions user app = (case gget (as_sessions app) user of None \<Rightarrow> [] | Some m \<Rightarrow> m)"

definition put_session :: "string \<Rightarrow> string \<Rightarrow> session_ttl \<Rightarrow> app_sessions \<Rightarrow> app_sessions" where
  "put_session user sid sw app =
     app\<lparr>as_sessions := gput user (gput sid sw (user_sessions user app)) (as_sessions app)\<rparr>"

definition find_session :: "string \<Rightarrow> string \<Rightarrow> app_sessions \<Rightarrow> session_ttl option" where
  "find_session user sid app = gget (user_sessions user app) sid"

text \<open>\<open>mergeState\<close>.\<close>

definition mergeState :: "state_map \<Rightarrow> state_map \<Rightarrow> session \<Rightarrow> session" where
  "mergeState appState userState sess =
     foldl (\<lambda>s (k, v). SetState (StateUserPrefix @ k) v s)
       (foldl (\<lambda>s (k, v). SetState (StateAppPrefix @ k) v s) sess appState) userState"

abbreviation or_empty :: "state_map option \<Rightarrow> state_map" where
  "or_empty s \<equiv> (case s of None \<Rightarrow> [] | Some m \<Rightarrow> m)"

definition merged :: "gtime \<Rightarrow> app_sessions \<Rightarrow> string \<Rightarrow> session \<Rightarrow> session" where
  "merged now app user sess =
     mergeState (or_empty (getValidState now (Some (as_app_state app))))
       (or_empty (getValidState now (gget (as_user_state app) user))) sess"

section \<open>Creating and deleting sessions\<close>

definition CreateSession ::
    "gtime \<Rightarrow> string \<Rightarrow> session_key \<Rightarrow> state_map \<Rightarrow> service \<Rightarrow> service \<times> (session_error + session)" where
  "CreateSession now uuid key state s =
     (case checkUserKey (k_app key) (k_user key) of
        Some err \<Rightarrow> (s, Inl err)
      | None \<Rightarrow>
          (let app = getOrCreateAppSessions (k_app key) s;
               sid = (if k_session key = [] then uuid else k_session key);
               sess = foldl (\<lambda>x (k, v). SetState k v x)
                        (NewSession now (k_app key) (k_user key) sid []) state;
               ust = (case gget (as_user_state app) (k_user key) of
                        None \<Rightarrow> gput (k_user key)
                                 \<lparr>st_data = [],
                                  st_expired_at = calculateExpiredAt now (so_user_ttl (sv_opts s))\<rparr>
                                 (as_user_state app)
                      | Some _ \<Rightarrow> as_user_state app);
               app1 = put_session (k_user key) sid
                        \<lparr>sw_session = sess,
                         sw_expired_at = calculateExpiredAt now (so_session_ttl (sv_opts s))\<rparr>
                        (app\<lparr>as_user_state := ust\<rparr>)
           in (set_app (k_app key) app1 s,
               Inr (merged now app1 (k_user key) (Session_Clone sess)))))"

definition DeleteSession :: "session_key \<Rightarrow> service \<Rightarrow> service \<times> session_error option" where
  "DeleteSession key s =
     (case CheckSessionKey key of
        Some err \<Rightarrow> (s, Some err)
      | None \<Rightarrow>
          (case getAppSessions (k_app key) s of
             None \<Rightarrow> (s, None)
           | Some app \<Rightarrow>
               (case gget (as_sessions app) (k_user key) of
                  None \<Rightarrow> (s, None)
                | Some m \<Rightarrow>
                    (if \<not> ghas m (k_session key) then (s, None)
                     else let m1 = gdel (k_session key) m;
                              ss = (if m1 = [] then gdel (k_user key) (as_sessions app)
                                    else gput (k_user key) m1 (as_sessions app))
                          in (set_app (k_app key) (app\<lparr>as_sessions := ss\<rparr>) s, None)))))"

section \<open>Reading sessions\<close>

definition filterTrackEvents :: "track_event list \<Rightarrow> gtime \<Rightarrow> int \<Rightarrow> track_event list" where
  "filterTrackEvents events after limit =
     (let filtered = (if \<not> IsZero after then filter (\<lambda>e. \<not> te_timestamp e < after) events else events)
      in if 0 < limit \<and> limit < int (length filtered)
         then drop (length filtered - nat limit) filtered else filtered)"

definition applyTrackFiltering :: "session_options \<Rightarrow> session \<Rightarrow> session" where
  "applyTrackFiltering opt sess =
     (case ss_tracks sess of
        None \<Rightarrow> sess
      | Some m \<Rightarrow>
          (if op_event_num opt \<le> 0 \<and> IsZero (op_event_time opt) then sess
           else sess\<lparr>ss_tracks := Some (map (\<lambda>(t, h).
                  (t, h\<lparr>tes_events := filterTrackEvents (tes_events h) (op_event_time opt)
                                       (op_event_num opt)\<rparr>)) m)\<rparr>))"

definition cloneSessionListMetadata :: "gtime \<Rightarrow> session \<Rightarrow> session" where
  "cloneSessionListMetadata now sess =
     (let c = NewSession now (ss_app sess) (ss_user sess) (ss_id sess)
                [WithSessionCreatedAt (ss_created_at sess), WithSessionUpdatedAt (ss_updated_at sess)];
          c = (case SnapshotState sess of Some m \<Rightarrow> c\<lparr>ss_state := Some m\<rparr> | None \<Rightarrow> c);
          c = (case ss_summaries sess of
                 None \<Rightarrow> c
               | Some m \<Rightarrow> if m = [] then c else c\<lparr>ss_summaries := Some m\<rparr>)
      in (case ss_service_meta sess of None \<Rightarrow> c | Some m \<Rightarrow> c\<lparr>ss_service_meta := Some m\<rparr>))"

text \<open>The copy of a session a reader gets.\<close>

definition session_view :: "gtime \<Rightarrow> session_options \<Rightarrow> app_sessions \<Rightarrow> string \<Rightarrow> session \<Rightarrow> session" where
  "session_view now opt app user sess =
     merged now app user (applyTrackFiltering opt (ApplyEventFiltering opt (Session_Clone sess)))"

definition getSession ::
    "gtime \<Rightarrow> session_key \<Rightarrow> session_options \<Rightarrow> service \<Rightarrow> session_error + session option" where
  "getSession now key opt s =
     (case ValidateGetSessionOptions opt False of
        Some err \<Rightarrow> Inl err
      | None \<Rightarrow>
          (case getAppSessions (k_app key) s of
             None \<Rightarrow> Inr None
           | Some app \<Rightarrow>
               (case find_session (k_user key) (k_session key) app of
                  None \<Rightarrow> Inr None
                | Some sw \<Rightarrow>
                    (case getValidSession now (Some sw) of
                       None \<Rightarrow> Inr None
                     | Some sess \<Rightarrow>
                         Inr (Some (session_view now
                           (no_options\<lparr>op_event_num := op_event_num opt,
                                       op_event_time := op_event_time opt\<rparr>) app (k_user key) sess))))))"

text \<open>
  The hook chains: hook \<open>i\<close> gets the continuation that runs the hooks after it.  The mutable
  context of the hooks and the service are the world \<open>'w\<close> they act on.
\<close>

type_synonym ('w, 'r) hook = "('w \<Rightarrow> 'w \<times> 'r) \<Rightarrow> 'w \<Rightarrow> 'w \<times> 'r"

fun run_hooks :: "('w, 'r) hook list \<Rightarrow> 'r \<Rightarrow> 'w \<Rightarrow> 'w \<times> 'r" where
  "run_hooks [] none w = (w, none)"
| "run_hooks (h # hs) none w = h (run_hooks hs none) w"

type_synonym get_world = "service \<times> session_key \<times> session_options"

definition GetSession ::
    "(get_world, session_error + session option) hook list \<Rightarrow> gtime \<Rightarrow> session_key
     \<Rightarrow> session_option list \<Rightarrow> service \<Rightarrow> service \<times> (session_error + session option)" where
  "GetSession hooks now key opts s =
     (case CheckSessionKey key of
        Some err \<Rightarrow> (s, Inl err)
      | None \<Rightarrow>
          (let (w, r) = run_hooks
                 (hooks @ [\<lambda>_ (s', k', opt'). ((s', k', opt'), getSession now k' opt' s')])
                 (Inr None) (s, key, applyOptions opts)
           in (fst w, r)))"

definition ListSessions ::
    "gtime \<Rightarrow> string \<Rightarrow> string \<Rightarrow> session_option list \<Rightarrow> service \<Rightarrow> session_error + session list" where
  "ListSessions now appName userID opts s =
     (case checkUserKey appName userID of
        Some err \<Rightarrow> Inl err
      | None \<Rightarrow>
          (let opt = applyOptions opts
           in (case ValidateListSessionsOptions opt of
                 Some err \<Rightarrow> Inl err
               | None \<Rightarrow>
                   (case getAppSessions appName s of
                      None \<Rightarrow> Inr []
                    | Some app \<Rightarrow>
                        Inr (map (\<lambda>sess.
                               if op_only_meta opt
                               then merged now app userID (cloneSessionListMetadata now sess)
                               else session_view now opt app userID sess)
                             (List.map_filter (\<lambda>(_, sw). getValidSession now (Some sw))
                                (user_sessions userID app)))))))"

section \<open>The states of applications and users\<close>

text \<open>\<open>make([]byte, len(v))\<close> and \<open>copy\<close>, under the key without its prefix.\<close>

definition put_all :: "string \<Rightarrow> state_map \<Rightarrow> state_map \<Rightarrow> state_map" where
  "put_all pre state data =
     foldl (\<lambda>d (k, v). gput (TrimPrefix k pre) (copied_bytes v) d) data state"

definition UpdateAppState :: "gtime \<Rightarrow> string \<Rightarrow> state_map \<Rightarrow> service \<Rightarrow> service \<times> session_error option" where
  "UpdateAppState now appName state s =
     (if appName = [] then (s, Some AppNameRequired)
      else let app = getOrCreateAppSessions appName s
           in (set_app appName (app\<lparr>as_app_state :=
                 \<lparr>st_data = put_all StateAppPrefix state (st_data (as_app_state app)),
                  st_expired_at = calculateExpiredAt now (so_app_ttl (sv_opts s))\<rparr>\<rparr>) s, None))"

definition DeleteAppState :: "string \<Rightarrow> string \<Rightarrow> service \<Rightarrow> service \<times> session_error option" where
  "DeleteAppState appName key s =
     (if appName = [] then (s, Some AppNameRequired)
      else (case getAppSessions appName s of
              None \<Rightarrow> (s, None)
            | Some app \<Rightarrow>
                (set_app appName (app\<lparr>as_app_state := (as_app_state app)
                   \<lparr>st_data := gdel (TrimPrefix key StateAppPrefix) (st_data (as_app_state app))\<rparr>\<rparr>) s,
                 None)))"

definition copied_state :: "state_map option \<Rightarrow> state_map" where
  "copied_state st = (case st of None \<Rightarrow> [] | Some m \<Rightarrow> map (\<lambda>(k, v). (k, copied_bytes v)) m)"

definition ListAppStates :: "gtime \<Rightarrow> string \<Rightarrow> service \<Rightarrow> session_error + state_map" where
  "ListAppStates now appName s =
     (if appName = [] then Inl AppNameRequired
      else (case getAppSessions appName s of
              None \<Rightarrow> Inr []
            | Some app \<Rightarrow> Inr (copied_state (getValidState now (Some (as_app_state app))))))"

text \<open>The user's state is created before the keys are checked, and stays when they are rejected.\<close>

definition UpdateUserState ::
    "gtime \<Rightarrow> string \<Rightarrow> string \<Rightarrow> state_map \<Rightarrow> service \<Rightarrow> service \<times> session_error option" where
  "UpdateUserState now appName userID state s =
     (case checkUserKey appName userID of
        Some err \<Rightarrow> (s, Some err)
      | None \<Rightarrow>
          (let app = getOrCreateAppSessions appName s;
               fresh = \<lparr>st_data = [], st_expired_at = calculateExpiredAt now (so_user_ttl (sv_opts s))\<rparr>;
               st = (case gget (as_user_state app) userID of None \<Rightarrow> fresh | Some x \<Rightarrow> x);
               app1 = app\<lparr>as_user_state := gput userID st (as_user_state app)\<rparr>
           in (case find (\<lambda>(k, _). HasPrefix k StateAppPrefix \<or> HasPrefix k StateTempPrefix) state of
                 Some (k, _) \<Rightarrow> (set_app appName app1 s, Some (StateKeyNotAllowed k))
               | None \<Rightarrow>
                   (set_app appName (app\<lparr>as_user_state := gput userID
                      \<lparr>st_data = put_all StateUserPrefix state (st_data st),
                       st_expired_at = calculateExpiredAt now (so_user_ttl (sv_opts s))\<rparr>
                      (as_user_state app)\<rparr>) s, None))))"

definition DeleteUserState ::
    "string \<Rightarrow> string \<Rightarrow> string \<Rightarrow> service \<Rightarrow> service \<times> session_error option" where
  "DeleteUserState appName userID key s =
     (case checkUserKey appName userID of
        Some err \<Rightarrow> (s, Some err)
      | None \<Rightarrow>
          (case getAppSessions appName s of
             None \<Rightarrow> (s, None)
           | Some app \<Rightarrow>
               (case gget (as_user_state app) userID of
                  None \<Rightarrow> (s, None)
                | Some st \<Rightarrow>
                    (let data = gdel (TrimPrefix key StateUserPrefix) (st_data st);
                         ust = (if data = [] then gdel userID (as_user_state app)
                                else gput userID (st\<lparr>st_data := data\<rparr>) (as_user_state app))
                     in (set_app appName (app\<lparr>as_user_state := ust\<rparr>) s, None)))))"

definition ListUserStates :: "gtime \<Rightarrow> string \<Rightarrow> string \<Rightarrow> service \<Rightarrow> session_error + state_map" where
  "ListUserStates now appName userID s =
     (case checkUserKey appName userID of
        Some err \<Rightarrow> Inl err
      | None \<Rightarrow>
          (case getAppSessions appName s of
             None \<Rightarrow> Inr []
           | Some app \<Rightarrow> Inr (copied_state (getValidState now (gget (as_user_state app) userID)))))"

definition UpdateSessionState ::
    "gtime \<Rightarrow> session_key \<Rightarrow> state_map \<Rightarrow> service \<Rightarrow> service \<times> session_error option" where
  "UpdateSessionState now key state s =
     (case CheckSessionKey key of
        Some err \<Rightarrow> (s, Some err)
      | None \<Rightarrow>
          (let app = getOrCreateAppSessions (k_app key) s;
               s1 = set_app (k_app key) app s
           in (case gget (as_sessions app) (k_user key) of
                 None \<Rightarrow> (s1, Some (UserNotFound (k_user key)))
               | Some m \<Rightarrow>
                   (case gget m (k_session key) of
                      None \<Rightarrow> (s1, Some (SessionNotFound (k_session key)))
                    | Some sw \<Rightarrow>
                        (if isExpired now (sw_expired_at sw)
                         then (s1, Some (SessionExpired (k_session key)))
                         else (case find (\<lambda>(k, _). HasPrefix k StateAppPrefix \<or> HasPrefix k StateUserPrefix)
                                      state of
                                 Some (k, _) \<Rightarrow> (s1, Some (StateKeyNotAllowed k))
                               | None \<Rightarrow>
                                   (let sess = (foldl (\<lambda>x (k, v). SetState k v x) (sw_session sw) state)
                                                 \<lparr>ss_updated_at := now\<rparr>;
                                        ex = (if so_session_ttl (sv_opts s) > 0
                                              then calculateExpiredAt now (so_session_ttl (sv_opts s))
                                              else sw_expired_at sw)
                                    in (set_app (k_app key)
                                          (put_session (k_user key) (k_session key)
                                             \<lparr>sw_session = sess, sw_expired_at = ex\<rparr> app) s, None))))))))"

section \<open>Appending\<close>

definition cloneStoredEvent :: "event \<Rightarrow> event" where
  "cloneStoredEvent e = e\<lparr>ev_trace := None\<rparr>"

definition updateStoredSession :: "gtime \<Rightarrow> int \<Rightarrow> event option \<Rightarrow> session \<Rightarrow> session run" where
  "updateStoredSession now limit ev sess =
     (case ev of
        None \<Rightarrow> Panic
      | Some e \<Rightarrow>
          (let sess1 = (if is_recorded e
                        then let x = sess\<lparr>ss_events := ss_events sess @ [cloneStoredEvent e]\<rparr>
                             in if 0 < limit \<and> limit < int (length (ss_events x))
                                then ApplyEventFiltering (WithEventNum limit no_options) x else x
                        else sess)
           in Return (ApplyEventStateDelta ev (sess1\<lparr>ss_updated_at := now\<rparr>))))"

text \<open>
  The common part of the two appends: the stored session of the caller's key, or the error that
  tells why there is none.
\<close>

definition stored_session ::
    "gtime \<Rightarrow> session_key \<Rightarrow> service \<Rightarrow> session_error + (app_sessions \<times> session)" where
  "stored_session now key s =
     (case getAppSessions (k_app key) s of
        None \<Rightarrow> Inl (AppNotFound (k_app key))
      | Some app \<Rightarrow>
          (case gget (as_sessions app) (k_user key) of
             None \<Rightarrow> Inl (UserNotFound (k_user key))
           | Some m \<Rightarrow>
               (case gget m (k_session key) of
                  None \<Rightarrow> Inl (SessionNotFound (k_session key))
                | Some sw \<Rightarrow>
                    (case getValidSession now (Some sw) of
                       None \<Rightarrow> Inl (SessionExpired (k_session key))
                     | Some stored \<Rightarrow> Inr (app, stored)))))"

definition store_session :: "gtime \<Rightarrow> session_key \<Rightarrow> app_sessions \<Rightarrow> session \<Rightarrow> service \<Rightarrow> service" where
  "store_session now key app sess s =
     set_app (k_app key)
       (put_session (k_user key) (k_session key)
          \<lparr>sw_session = sess, sw_expired_at = calculateExpiredAt now (so_session_ttl (sv_opts s))\<rparr> app) s"

type_synonym append_world = "service \<times> session \<times> event option \<times> session_key"

definition appendEvent ::
    "gtime \<Rightarrow> session_options \<Rightarrow> append_world \<Rightarrow> append_world \<times> session_error option run" where
  "appendEvent now opt w =
     (let (s, sess, ev, key) = w;
          sess1 = UpdateUserSession now opt ev sess
      in (case stored_session now key s of
            Inl err \<Rightarrow> ((s, sess1, ev, key), Return (Some err))
          | Inr (app, stored) \<Rightarrow>
              (case updateStoredSession now (so_event_limit (sv_opts s)) ev stored of
                 Panic \<Rightarrow> ((s, sess1, ev, key), Panic)
               | Return stored1 \<Rightarrow>
                   ((store_session now key app stored1 s, sess1, ev, key), Return None))))"

text \<open>The caller's session is updated too, also when the service rejects the event.\<close>

definition AppendEvent ::
    "(append_world, session_error option run) hook list \<Rightarrow> gtime \<Rightarrow> session_option list \<Rightarrow> event option
     \<Rightarrow> session \<Rightarrow> service \<Rightarrow> (service \<times> session) \<times> session_error option run" where
  "AppendEvent hooks now opts ev sess s =
     (case CheckSessionKey (key_of sess) of
        Some err \<Rightarrow> ((s, sess), Return (Some err))
      | None \<Rightarrow>
          (let (w, r) = run_hooks (hooks @ [\<lambda>_. appendEvent now (applyOptions opts)]) (Return None)
                          (s, sess, ev, key_of sess)
           in ((fst w, fst (snd w)), r)))"

definition AppendTrackEvent_service ::
    "(string list \<Rightarrow> bytes) \<Rightarrow> (bytes \<Rightarrow> string list option) \<Rightarrow> gtime \<Rightarrow> track_event option
     \<Rightarrow> session \<Rightarrow> service \<Rightarrow> (service \<times> session) \<times> session_error option" where
  "AppendTrackEvent_service enc dec now ev sess s =
     (case AppendTrackEvent enc dec now ev sess of
        (sess1, Some err) \<Rightarrow> ((s, sess1), Some err)
      | (sess1, None) \<Rightarrow>
          (case CheckSessionKey (key_of sess1) of
             Some err \<Rightarrow> ((s, sess1), Some err)
           | None \<Rightarrow>
               (case stored_session now (key_of sess1) s of
                  Inl err \<Rightarrow> ((s, sess1), Some err)
                | Inr (app, stored) \<Rightarrow>
                    (case AppendTrackEvent enc dec now ev stored of
                       (stored1, Some err) \<Rightarrow>
                         ((set_app (k_app (key_of sess1))
                             (put_session (ss_user sess1) (ss_id sess1)
                                \<lparr>sw_session = stored1,
                                 sw_expired_at =
                                   (case find_session (ss_user sess1) (ss_id sess1) app of
                                      Some sw \<Rightarrow> sw_expired_at sw | None \<Rightarrow> 0)\<rparr> app) s, sess1), Some err)
                     | (stored1, None) \<Rightarrow>
                         ((store_session now (key_of sess1) app stored1 s, sess1), None)))))"

section \<open>Storing summaries\<close>

text \<open>\<open>writeSummaryUnderLock\<close> of \<open>summary.go\<close>, and its call: the application has to exist.\<close>

definition writeSummaryUnderLock ::
    "gtime \<Rightarrow> app_sessions \<Rightarrow> session_key \<Rightarrow> string \<Rightarrow> summary \<Rightarrow> service
     \<Rightarrow> service \<times> session_error option" where
  "writeSummaryUnderLock now app key filterKey smry s =
     (case find_session (k_user key) (k_session key) app of
        None \<Rightarrow> (s, Some (SessionNotFound (k_session key)))
      | Some swt \<Rightarrow>
          (case getValidSession now (Some swt) of
             None \<Rightarrow> (s, Some (SessionExpired (k_session key)))
           | Some cur \<Rightarrow>
               (store_session now key app
                  (cur\<lparr>ss_summaries := Some (gput filterKey smry
                         (case ss_summaries cur of None \<Rightarrow> [] | Some m \<Rightarrow> m)),
                       ss_updated_at := sum_updated_at smry\<rparr>) s, None)))"

definition persist_summary ::
    "gtime \<Rightarrow> session_key \<Rightarrow> string \<Rightarrow> summary \<Rightarrow> service \<Rightarrow> service \<times> session_error option" where
  "persist_summary now key filterKey smry s =
     (case getAppSessions (k_app key) s of
        None \<Rightarrow> (s, Some (SessionNotFound (k_session key)))
      | Some app \<Rightarrow> writeSummaryUnderLock now app key filterKey smry s)"

section \<open>Cleaning up\<close>

definition cleanup_sessions ::
    "gtime \<Rightarrow> (string, (string, session_ttl) gomap) gomap \<Rightarrow> (string, (string, session_ttl) gomap) gomap" where
  "cleanup_sessions now ss =
     filter (\<lambda>(_, m). m \<noteq> [])
       (map (\<lambda>(u, m). (u, filter (\<lambda>(_, sw). \<not> isExpired now (sw_expired_at sw)) m)) ss)"

definition cleanup_app :: "gtime \<Rightarrow> app_sessions \<Rightarrow> app_sessions" where
  "cleanup_app now app =
     \<lparr>as_sessions = cleanup_sessions now (as_sessions app),
      as_user_state = filter (\<lambda>(_, st). \<not> isExpired now (st_expired_at st)) (as_user_state app),
      as_app_state = (if isExpired now (st_expired_at (as_app_state app))
                      then \<lparr>st_data = [], st_expired_at = 0\<rparr> else as_app_state app)\<rparr>"

definition cleanupExpired :: "gtime \<Rightarrow> service \<Rightarrow> service" where
  "cleanupExpired now s = s\<lparr>sv_apps := map (\<lambda>(a, app). (a, cleanup_app now app)) (sv_apps s)\<rparr>"

end
