(* ===== verification/Session_History.thy ===== *)
theory Session_History
  imports Session_InMemory
begin

text \<open>
  What the in-memory service keeps of a conversation: the windows of \<open>ApplyEventFiltering\<close> and the
  history that \<open>updateStoredSession\<close> builds under an event limit, against the list of all the events
  it was given.
\<close>

section \<open>Windows\<close>

definition no_user :: "event list \<Rightarrow> bool" where
  "no_user evs \<longleftrightarrow> list_all (\<lambda>e. \<not> is_user e) evs"

lemma no_user_simps [simp]:
  "no_user []" "no_user (e # evs) \<longleftrightarrow> \<not> is_user e \<and> no_user evs"
  "no_user (xs @ ys) \<longleftrightarrow> no_user xs \<and> no_user ys"
  by (auto simp: no_user_def)

lemma no_user_drop: "no_user evs \<Longrightarrow> no_user (drop n evs)"
  by (auto simp: no_user_def list_all_iff dest: in_set_dropD)

lemma no_user_subseq: "subseq xs ys \<Longrightarrow> no_user ys \<Longrightarrow> no_user xs"
proof -
  assume s: "subseq xs ys" and n: "no_user ys"
  have "\<not> is_user x" if "x \<in> set xs" for x
    using list_emb_set[OF s that] n by (auto simp: no_user_def list_all_iff)
  then show ?thesis by (simp add: no_user_def list_all_iff)
qed

lemma dropWhile_no_user: "no_user evs \<Longrightarrow> dropWhile (\<lambda>e. \<not> is_user e) evs = []"
  by (auto simp: no_user_def list_all_iff)

lemma find_no_user: "no_user evs \<Longrightarrow> find is_user evs = None"
  by (auto simp: no_user_def list_all_iff find_None_iff)

lemma no_user_rev [simp]: "no_user (rev evs) = no_user evs"
  by (simp add: no_user_def)

lemma last_user_split: "no_user evs \<or> (\<exists>pre u post. evs = pre @ u # post \<and> is_user u \<and> no_user post)"
proof (induction evs rule: rev_induct)
  case (snoc e evs)
  show ?case
  proof (cases "is_user e")
    case True
    then show ?thesis by (intro disjI2 exI[of _ evs] exI[of _ e] exI[of _ "[]"]) simp
  next
    case False
    from snoc show ?thesis
    proof
      assume "no_user evs"
      with False show ?thesis by simp
    next
      assume "\<exists>pre u post. evs = pre @ u # post \<and> is_user u \<and> no_user post"
      then obtain pre u post where "evs = pre @ u # post" "is_user u" "no_user post" by blast
      with False show ?thesis by (intro disjI2 exI[of _ pre] exI[of _ u] exI[of _ "post @ [e]"]) simp
    qed
  qed
qed simp

lemma find_last_user: "is_user u \<Longrightarrow> no_user post \<Longrightarrow> find is_user (rev (pre @ u # post)) = Some u"
proof -
  have "find P (xs @ ys) = (case find P xs of None \<Rightarrow> find P ys | Some y \<Rightarrow> Some y)"
    for P :: "event \<Rightarrow> bool" and xs ys by (induction xs) auto
  then show "is_user u \<Longrightarrow> no_user post \<Longrightarrow> ?thesis" by (simp add: find_no_user)
qed

lemma num_window_suffix: "suffix (num_window n evs) evs"
  by (simp add: num_window_def suffix_drop)

lemma time_window_suffix: "suffix (time_window t evs) evs"
  by (simp add: time_window_def suffix_dropWhile)

lemma window_suffix: "suffix (num_window n (time_window t evs)) evs"
  using num_window_suffix time_window_suffix by (rule suffix_order.trans)

lemma num_window_length: "0 < n \<Longrightarrow> int (length (num_window n evs)) \<le> n"
  by (auto simp: num_window_def)

text \<open>The three outcomes of the last step.\<close>

lemma keep_user_cases:
  assumes "suffix evs orig"
  obtains (start) ys e where "evs = ys @ keep_user orig evs" "hd (keep_user orig evs) = e" "is_user e"
      "keep_user orig evs \<noteq> []"
  | (prepended) pre u post where "no_user evs" "orig = pre @ u # post" "is_user u" "no_user post"
      "suffix evs post" "keep_user orig evs = u # evs"
  | (nothing) "no_user orig" "keep_user orig evs = []"
proof (cases "dropWhile (\<lambda>e. \<not> is_user e) evs")
  case (Cons e es)
  then have "evs = takeWhile (\<lambda>e. \<not> is_user e) evs @ (e # es)"
    by (metis takeWhile_dropWhile_id)
  moreover have "is_user e"
    using Cons by (metis hd_dropWhile list.distinct(1) list.sel(1))
  ultimately show thesis using Cons start by (simp add: keep_user_def)
next
  case Nil
  then have nu: "no_user evs" by (auto simp: no_user_def list_all_iff)
  show thesis
  proof (cases "no_user orig")
    case True
    moreover from True have "keep_user orig evs = []"
      using find_no_user[of "rev orig"] by (simp add: keep_user_def Nil del: dropWhile_eq_Nil_conv)
    ultimately show thesis by (rule nothing)
  next
    case False
    with last_user_split obtain pre u post
      where s: "orig = pre @ u # post" "is_user u" "no_user post" by blast
    have "suffix evs post"
    proof -
      obtain xs where xs: "orig = xs @ evs" using assms by (auto simp: suffix_def)
      show ?thesis
      proof (rule ccontr)
        assume n: "\<not> suffix evs post"
        have "suffix evs post \<or> suffix (u # post) evs"
          using s(1) xs by (metis suffix_Cons suffix_def suffix_same_cases)
        with n nu s(2) show False by (auto simp: suffix_def)
      qed
    qed
    then show thesis
      using prepended[OF nu s(1) s(2) s(3)] Nil s find_last_user[OF s(2,3), of pre]
      by (simp add: keep_user_def)
  qed
qed

lemma keep_user_start:
  "dropWhile (\<lambda>e. \<not> is_user e) evs = zs @ u # w \<Longrightarrow> keep_user orig evs = zs @ u # w"
  by (cases zs) (auto simp: keep_user_def)

lemma keep_user_subseq:
  assumes "suffix evs orig"
  shows "subseq (keep_user orig evs) orig"
  using assms
proof (cases rule: keep_user_cases)
  case (start ys e)
  then have "suffix (keep_user orig evs) evs" by (metis suffix_def)
  with assms show ?thesis by (meson suffix_imp_subseq suffix_order.trans)
next
  case (prepended pre u post)
  then show ?thesis by (simp add: list_emb_append2 suffix_imp_subseq)
qed simp

lemma filter_events_subseq: "subseq (filter_events n t evs) evs"
  unfolding filter_events_def by (rule keep_user_subseq[OF window_suffix])

lemma filter_events_length: "0 < n \<Longrightarrow> int (length (filter_events n t evs)) \<le> n + 1"
proof -
  assume n: "0 < n"
  let ?w = "num_window n (time_window t evs)"
  have "length (keep_user evs ?w) \<le> length ?w + 1"
    by (rule keep_user_cases[OF window_suffix[of n t evs]]) (auto, metis le_add2 length_append le_SucI)
  then show ?thesis
    using num_window_length[OF n, of "time_window t evs"] by (simp add: filter_events_def)
qed

lemma filter_events_start: "filter_events n t evs = [] \<or> is_user (hd (filter_events n t evs))"
  unfolding filter_events_def
  by (rule keep_user_cases[OF window_suffix[of n t evs]]) auto

lemma filter_events_none: "filter_events n t evs = [] \<longleftrightarrow> no_user evs"
  unfolding filter_events_def
  by (rule keep_user_cases[OF window_suffix[of n t evs]])
     (auto, metis append_is_Nil_conv hd_append2 hd_in_set list_all_iff no_user_def no_user_simps(3) suffix_def window_suffix)

text \<open>The newest user message and what follows it, up to the limit, survive.\<close>

lemma filter_events_newest:
  assumes "0 < n" "is_user u" "no_user w"
  shows "\<exists>zs. filter_events n 0 (ys @ u # w) = zs @ u # drop (length w - nat n) w"
proof (cases "n < int (length (ys @ u # w))")
  case False
  then have "num_window n (ys @ u # w) = ys @ u # w" "length w - nat n = 0" by (auto simp: num_window_def)
  moreover have "\<exists>zs. dropWhile (\<lambda>e. \<not> is_user e) (ys @ u # w) = zs @ u # w"
    using assms(2) by (induction ys) auto
  ultimately show ?thesis
    using assms(2) by (auto simp: filter_events_def time_window_def keep_user_def split: list.split)
next
  case True
  let ?k = "length (ys @ u # w) - nat n"
  show ?thesis
  proof (cases "length w < nat n")
    case True
    then have "drop ?k (ys @ u # w) = drop ?k ys @ u # w" by simp
    moreover have "\<exists>zs. dropWhile (\<lambda>e. \<not> is_user e) (xs @ u # w) = zs @ u # w" for xs
      using assms(2) by (induction xs) auto
    ultimately obtain zs where "dropWhile (\<lambda>e. \<not> is_user e) (drop ?k (ys @ u # w)) = zs @ u # w"
      by metis
    then show ?thesis
      using True \<open>n < _\<close> assms(1) keep_user_start[of "drop ?k (ys @ u # w)" zs u w "ys @ u # w"]
      by (simp add: filter_events_def time_window_def num_window_def)
  next
    case False
    then have "drop ?k (ys @ u # w) = drop (length w - nat n) w"
      using assms(1) by (simp add: Suc_diff_le)
    moreover have "keep_user (ys @ u # w) (drop (length w - nat n) w) = u # drop (length w - nat n) w"
      unfolding keep_user_def dropWhile_no_user[OF no_user_drop[OF assms(3)]]
        find_last_user[OF assms(2,3)]
      by simp
    ultimately have "filter_events n 0 (ys @ u # w) = [] @ u # drop (length w - nat n) w"
      using \<open>n < _\<close> assms(1) by (simp add: filter_events_def time_window_def num_window_def)
    then show ?thesis by blast
  qed
qed

section \<open>The stored history\<close>

fun store_all :: "int \<Rightarrow> (gtime \<times> event) list \<Rightarrow> session \<Rightarrow> session run" where
  "store_all limit [] sess = Return sess"
| "store_all limit ((now, e) # es) sess =
     run_bind (updateStoredSession now limit (Some e) sess) (store_all limit es)"

text \<open>The events that are recorded, as they are stored.\<close>

definition recorded :: "(gtime \<times> event) list \<Rightarrow> event list" where
  "recorded es = map cloneStoredEvent (filter is_recorded (map snd es))"

definition next_history :: "int \<Rightarrow> event list \<Rightarrow> event \<Rightarrow> event list" where
  "next_history limit h e =
     (if 0 < limit \<and> limit < int (length (h @ [e])) then filter_events limit 0 (h @ [e]) else h @ [e])"

lemma updateStoredSession_events:
  "updateStoredSession now limit (Some e) sess = Return sess' \<Longrightarrow>
   ss_events sess' =
     (if is_recorded e then next_history limit (ss_events sess) (cloneStoredEvent e) else ss_events sess)"
  by (auto simp: updateStoredSession_def Let_def next_history_def ApplyEventStateDelta_def
      ApplyEventFiltering_def WithEventNum_def no_options_def)

lemma store_all_events:
  "store_all limit es sess = Return sess' \<Longrightarrow>
   ss_events sess' = foldl (next_history limit) (ss_events sess) (recorded es)"
proof (induction limit es sess rule: store_all.induct)
  case (2 limit now e es sess)
  obtain s1 where s1: "updateStoredSession now limit (Some e) sess = Return s1"
    and r: "store_all limit es s1 = Return sess'"
    using 2(2) by (auto simp: run_bind_Return_iff)
  from 2(1)[OF r] show ?case
    using updateStoredSession_events[OF s1] by (simp add: recorded_def)
qed (simp add: recorded_def)

lemma store_all_returns: "\<exists>sess'. store_all limit es sess = Return sess'"
  by (induction limit es sess rule: store_all.induct)
     (auto simp: updateStoredSession_def Let_def)

definition history_ok :: "int \<Rightarrow> event list \<Rightarrow> event list \<Rightarrow> bool" where
  "history_ok limit rec h \<longleftrightarrow>
     int (length h) \<le> limit + 1 \<and> subseq h rec \<and> (int (length rec) \<le> limit \<longrightarrow> h = rec) \<and>
     (\<forall>pre u post. rec = pre @ u # post \<longrightarrow> is_user u \<longrightarrow> no_user post \<longrightarrow>
        (\<exists>ys. h = ys @ u # drop (length post - nat limit) post))"

lemma next_history_length: "0 < limit \<Longrightarrow> int (length (next_history limit h e)) \<le> limit + 1"
  using filter_events_length[of limit 0 "h @ [e]"] by (auto simp: next_history_def)

lemma next_history_subseq: "subseq (next_history limit h e) (h @ [e])"
  by (simp add: next_history_def filter_events_subseq)

lemma next_history_newest:
  assumes "0 < limit" "h @ [e] = ys @ u # w" "is_user u" "no_user w"
  shows "\<exists>zs. next_history limit h e = zs @ u # drop (length w - nat limit) w"
proof (cases "limit < int (length (h @ [e]))")
  case True
  then show ?thesis
    using filter_events_newest[OF assms(1,3,4), of ys] assms(1,2) by (simp add: next_history_def)
next
  case False
  then have "length w - nat limit = 0"
    using arg_cong[OF assms(2), of length] by simp
  then show ?thesis
    using False assms(2) by (auto simp: next_history_def)
qed

lemma history_ok_step:
  assumes l: "0 < limit" and ok: "history_ok limit rec h"
  shows "history_ok limit (rec @ [e]) (next_history limit h e)"
  unfolding history_ok_def
proof (intro conjI allI impI)
  show "int (length (next_history limit h e)) \<le> limit + 1"
    by (rule next_history_length[OF l])
  show "subseq (next_history limit h e) (rec @ [e])"
    using next_history_subseq[of limit h e] ok
    by (meson history_ok_def list_emb_append_mono subseq_order.refl subseq_order.trans)
  show "next_history limit h e = rec @ [e]" if "int (length (rec @ [e])) \<le> limit"
    using ok that by (auto simp: history_ok_def next_history_def)
  fix pre u post
  assume s: "rec @ [e] = pre @ u # post" "is_user u" "no_user post"
  show "\<exists>ys. next_history limit h e = ys @ u # drop (length post - nat limit) post"
  proof (cases post rule: rev_cases)
    case Nil
    then show ?thesis using next_history_newest[OF l, of h e h u "[]"] s by simp
  next
    case (snoc p x)
    with s have r: "rec = pre @ u # p" "e = x" "no_user p" "\<not> is_user e" by auto
    with ok s(2) obtain ys where h: "h = ys @ u # drop (length p - nat limit) p"
      unfolding history_ok_def by blast
    let ?w = "drop (length p - nat limit) p @ [e]"
    have "\<exists>zs. next_history limit h e = zs @ u # drop (length ?w - nat limit) ?w"
      by (rule next_history_newest[OF l _ s(2)]) (use h r no_user_drop in auto)
    moreover have "drop (length ?w - nat limit) ?w = drop (length post - nat limit) post"
      using snoc r(2) l by (cases "length p < nat limit") (auto simp: drop_Cons' Suc_diff_le)
    ultimately show ?thesis by simp
  qed
qed

lemma history_ok_foldl: "0 < limit \<Longrightarrow> history_ok limit rec h \<Longrightarrow>
  history_ok limit (rec @ es) (foldl (next_history limit) h es)"
proof (induction es arbitrary: rec h)
  case (Cons e es)
  from Cons.IH[OF Cons.prems(1) history_ok_step[OF Cons.prems]] show ?case by simp
qed simp

lemma history_ok_Nil: "0 < limit \<Longrightarrow> history_ok limit [] []"
  by (simp add: history_ok_def)

end
