(* ===== verification/Session_Store.thy ===== *)
theory Session_Store
  imports Session_History
begin

text \<open>
  The in-memory session service seen through its three lookups - the stored session of a key, the
  state of a user, the state of an application - and what every operation does to them.
\<close>

section \<open>Lookups\<close>

abbreviation app_of :: "service \<Rightarrow> string \<Rightarrow> app_sessions" where
  "app_of s a \<equiv> getOrCreateAppSessions a s"

definition well_keyed_app :: "app_sessions \<Rightarrow> bool" where
  "well_keyed_app app \<longleftrightarrow>
     well_keyed (as_sessions app) \<and> well_keyed (as_user_state app) \<and>
     (\<forall>u. well_keyed (user_sessions u app))"

definition well_keyed_service :: "service \<Rightarrow> bool" where
  "well_keyed_service s \<longleftrightarrow> (\<forall>a. well_keyed_app (app_of s a))"

lemma app_of_set_app [simp]: "app_of (set_app a app s) b = (if b = a then app else app_of s b)"
  by (simp add: getOrCreateAppSessions_def set_app_def)

lemma set_app_opts [simp]: "sv_opts (set_app a app s) = sv_opts s"
  by (simp add: set_app_def)

lemma getAppSessions_app_of:
  "getAppSessions a s = Some app \<Longrightarrow> app_of s a = app"
  "getAppSessions a s = None \<Longrightarrow> app_of s a = newAppSessions"
  by (simp_all add: getAppSessions_def getOrCreateAppSessions_def)

lemma new_app_lookups [simp]:
  "find_session u i newAppSessions = None" "as_user_state newAppSessions = []"
  "user_sessions u newAppSessions = []" "as_sessions newAppSessions = []"
  "as_app_state newAppSessions = \<lparr>st_data = [], st_expired_at = 0\<rparr>"
  by (simp_all add: find_session_def user_sessions_def newAppSessions_def)

lemma well_keyed_new_app [simp]: "well_keyed_app newAppSessions"
  by (simp add: well_keyed_app_def)

lemma well_keyed_new_service: "well_keyed_service (NewSessionService options)"
  by (simp add: well_keyed_service_def NewSessionService_def Let_def getOrCreateAppSessions_def)

lemma user_sessions_put [simp]:
  "user_sessions u' (put_session u i sw app) =
     (if u' = u then gput i sw (user_sessions u app) else user_sessions u' app)"
  by (simp add: user_sessions_def put_session_def)

lemma find_session_put [simp]:
  "find_session u' i' (put_session u i sw app) =
     (if u' = u \<and> i' = i then Some sw else find_session u' i' app)"
  by (simp add: find_session_def)

lemma put_session_states [simp]:
  "as_user_state (put_session u i sw app) = as_user_state app"
  "as_app_state (put_session u i sw app) = as_app_state app"
  by (simp_all add: put_session_def)

lemma well_keyed_put [simp]: "well_keyed_app app \<Longrightarrow> well_keyed_app (put_session u i sw app)"
  by (auto simp: well_keyed_app_def) (simp add: put_session_def)

lemma user_sessions_update [simp]:
  "user_sessions u (app\<lparr>as_user_state := x\<rparr>) = user_sessions u app"
  "user_sessions u (app\<lparr>as_app_state := y\<rparr>) = user_sessions u app"
  by (simp_all add: user_sessions_def)

lemma find_session_update [simp]:
  "find_session u i (app\<lparr>as_user_state := x\<rparr>) = find_session u i app"
  "find_session u i (app\<lparr>as_app_state := y\<rparr>) = find_session u i app"
  by (simp_all add: find_session_def)

lemma well_keyed_update [simp]:
  "well_keyed_app app \<Longrightarrow> well_keyed_app (app\<lparr>as_app_state := y\<rparr>)"
  "well_keyed_app app \<Longrightarrow> well_keyed x \<Longrightarrow> well_keyed_app (app\<lparr>as_user_state := x\<rparr>)"
  by (simp_all add: well_keyed_app_def)

lemma well_keyed_appD [simp]:
  "well_keyed_app app \<Longrightarrow> well_keyed (as_user_state app)"
  "well_keyed_app app \<Longrightarrow> well_keyed (as_sessions app)"
  "well_keyed_app app \<Longrightarrow> well_keyed (user_sessions u app)"
  by (simp_all add: well_keyed_app_def)

section \<open>Errors that only tell why there is no session\<close>

fun is_gone :: "session_error \<Rightarrow> bool" where
  "is_gone (AppNotFound _) = True"
| "is_gone (UserNotFound _) = True"
| "is_gone (SessionNotFound _) = True"
| "is_gone (SessionExpired _) = True"
| "is_gone _ = False"

lemma find_session_via: "find_session u i app = (case gget (as_sessions app) u of None \<Rightarrow> None | Some m \<Rightarrow> gget m i)"
  by (simp add: find_session_def user_sessions_def split: option.split)

lemma stored_session_live:
  "getValidSession now (find_session (k_user key) (k_session key) (app_of s (k_app key))) = Some x \<Longrightarrow>
   stored_session now key s = Inr (app_of s (k_app key), x)"
  by (cases "getAppSessions (k_app key) s")
     (auto simp: stored_session_def find_session_via getAppSessions_app_of getValidSession_def
       split: option.split option.split_asm)

lemma stored_session_gone:
  "getValidSession now (find_session (k_user key) (k_session key) (app_of s (k_app key))) = None \<Longrightarrow>
   \<exists>e. stored_session now key s = Inl e \<and> is_gone e"
  by (cases "getAppSessions (k_app key) s")
     (auto simp: stored_session_def find_session_via getAppSessions_app_of
       split: option.split option.split_asm)

lemma stored_session_Inr:
  assumes "stored_session now key s = Inr (app, x)"
  shows "app = app_of s (k_app key) \<and>
    getValidSession now (find_session (k_user key) (k_session key) (app_of s (k_app key))) = Some x"
proof (cases "getValidSession now (find_session (k_user key) (k_session key) (app_of s (k_app key)))")
  case None
  from stored_session_gone[OF this] assms show ?thesis by auto
next
  case (Some y)
  with stored_session_live[OF Some] assms show ?thesis by simp
qed

section \<open>Reading\<close>

lemma getSession_lookup:
  "getSession now key opt s =
     (case ValidateGetSessionOptions opt False of
        Some err \<Rightarrow> Inl err
      | None \<Rightarrow>
          Inr (map_option (session_view now
                 (no_options\<lparr>op_event_num := op_event_num opt, op_event_time := op_event_time opt\<rparr>)
                 (app_of s (k_app key)) (k_user key))
               (getValidSession now (find_session (k_user key) (k_session key) (app_of s (k_app key))))))"
  by (cases "getAppSessions (k_app key) s")
     (auto simp: getSession_def getAppSessions_app_of getValidSession_def split: option.split)

lemma GetSession_no_hooks:
  "GetSession [] now key opts s =
     (s, case CheckSessionKey key of
           Some err \<Rightarrow> Inl err
         | None \<Rightarrow> getSession now key (applyOptions opts) s)"
  by (simp add: GetSession_def split: option.split)

lemma AppendEvent_no_hooks:
  "CheckSessionKey (key_of sess) = None \<Longrightarrow>
   AppendEvent [] now opts ev sess s =
     (let (w, r) = appendEvent now (applyOptions opts) (s, sess, ev, key_of sess)
      in ((fst w, fst (snd w)), r))"
  by (simp add: AppendEvent_def)

section \<open>What the appends do\<close>

lemma UpdateUserSession_key [simp]: "key_of (UpdateUserSession now opt ev sess) = key_of sess"
  by (simp add: UpdateUserSession_def key_of_def ApplyEventStateDelta_def ApplyEventFiltering_def Let_def
      split: option.split)

text \<open>A successful append updates the stored session, and nothing else of the store.\<close>

lemma AppendEvent_stores:
  assumes "AppendEvent [] now opts (Some e) sess s = ((s', sess'), Return None)"
  shows "\<exists>sw stored stored'.
    find_session (ss_user sess) (ss_id sess) (app_of s (ss_app sess)) = Some sw \<and>
    getValidSession now (Some sw) = Some stored \<and>
    updateStoredSession now (so_event_limit (sv_opts s)) (Some e) stored = Return stored' \<and>
    s' = set_app (ss_app sess) (put_session (ss_user sess) (ss_id sess)
           \<lparr>sw_session = stored', sw_expired_at = calculateExpiredAt now (so_session_ttl (sv_opts s))\<rparr>
           (app_of s (ss_app sess))) s \<and>
    key_of sess' = key_of sess"
proof -
  have ck: "CheckSessionKey (key_of sess) = None"
    using assms by (auto simp: AppendEvent_def split: option.splits)
  have a: "appendEvent now (applyOptions opts) (s, sess, Some e, key_of sess) =
             ((s', sess', Some e, key_of sess), Return None)"
    using assms unfolding AppendEvent_no_hooks[OF ck]
    by (auto simp: appendEvent_def Let_def split: sum.splits prod.splits run.splits)
  then have k': "key_of sess' = key_of sess"
    by (auto simp: appendEvent_def Let_def split: sum.splits prod.splits run.splits)
  obtain app stored where st: "stored_session now (key_of sess) s = Inr (app, stored)"
    using a by (auto simp: appendEvent_def Let_def split: sum.splits)
  note l = stored_session_Inr[OF st]
  obtain stored' where u: "updateStoredSession now (so_event_limit (sv_opts s)) (Some e) stored = Return stored'"
    using a st by (auto simp: appendEvent_def Let_def split: run.splits)
  from a st u have "s' = store_session now (key_of sess) app stored' s"
    by (simp add: appendEvent_def Let_def)
  moreover obtain sw where
    "find_session (ss_user sess) (ss_id sess) (app_of s (ss_app sess)) = Some sw"
    "getValidSession now (Some sw) = Some stored"
    using l by (cases "find_session (ss_user sess) (ss_id sess) (app_of s (ss_app sess))")
      (auto simp: key_of_def getValidSession_def)
  ultimately show ?thesis
    using l u k' by (auto simp: store_session_def key_of_def)
qed

section \<open>The history of a session\<close>

fun append_all ::
    "session_option list \<Rightarrow> (gtime \<times> event) list \<Rightarrow> session \<Rightarrow> service \<Rightarrow> (session \<times> service) option" where
  "append_all opts [] sess s = Some (sess, s)"
| "append_all opts ((now, e) # es) sess s =
     (case AppendEvent [] now opts (Some e) sess s of
        ((s', sess'), Return None) \<Rightarrow> append_all opts es sess' s'
      | _ \<Rightarrow> None)"

definition stored_events :: "session_key \<Rightarrow> service \<Rightarrow> event list" where
  "stored_events key s =
     (case find_session (k_user key) (k_session key) (app_of s (k_app key)) of
        None \<Rightarrow> []
      | Some sw \<Rightarrow> ss_events (sw_session sw))"

lemma append_all_events:
  "append_all opts es sess s = Some (sess', s') \<Longrightarrow>
   stored_events (key_of sess) s' =
     foldl (next_history (so_event_limit (sv_opts s))) (stored_events (key_of sess) s) (recorded es)"
proof (induction opts es sess s rule: append_all.induct)
  case (2 opts now e es sess s)
  obtain s1 sess1 where a: "AppendEvent [] now opts (Some e) sess s = ((s1, sess1), Return None)"
    and r: "append_all opts es sess1 s1 = Some (sess', s')"
    using 2(2) by (auto split: prod.splits run.splits option.splits)
  from AppendEvent_stores[OF a] obtain sw stored stored' where
    f: "find_session (ss_user sess) (ss_id sess) (app_of s (ss_app sess)) = Some sw"
      "getValidSession now (Some sw) = Some stored"
      "updateStoredSession now (so_event_limit (sv_opts s)) (Some e) stored = Return stored'"
      "s1 = set_app (ss_app sess) (put_session (ss_user sess) (ss_id sess)
           \<lparr>sw_session = stored', sw_expired_at = calculateExpiredAt now (so_session_ttl (sv_opts s))\<rparr>
           (app_of s (ss_app sess))) s"
      "key_of sess1 = key_of sess" by blast
  have "stored = sw_session sw" using f(2) by (simp add: getValidSession_def split: if_splits)
  then have "stored_events (key_of sess) s1 =
      (if is_recorded e then next_history (so_event_limit (sv_opts s)) (stored_events (key_of sess) s) (cloneStoredEvent e)
       else stored_events (key_of sess) s)"
    using updateStoredSession_events[OF f(3)] f(1,4) by (simp add: stored_events_def key_of_def)
  moreover have "sv_opts s1 = sv_opts s" using f(4) by simp
  ultimately show ?case
    using 2(1)[OF a[symmetric] refl refl refl r] f(5) by (simp add: recorded_def)
qed (simp add: recorded_def)

text \<open>
  C30. Whatever is appended to a session that starts empty, the stored history
  exceeds the event limit by at most one, is a subsequence of the recorded events in their order,
  is all of them while they are within the limit, and it ends with the newest user message followed
  by the newest \<open>limit\<close> events after it - so the question being answered is never lost.
\<close>

theorem newest_turn_kept:
  assumes "0 < so_event_limit (sv_opts s)" "stored_events (key_of sess) s = []"
    and "append_all opts es sess s = Some (sess', s')"
  shows "int (length (stored_events (key_of sess) s')) \<le> so_event_limit (sv_opts s) + 1 \<and>
    subseq (stored_events (key_of sess) s') (recorded es) \<and>
    (int (length (recorded es)) \<le> so_event_limit (sv_opts s) \<longrightarrow>
       stored_events (key_of sess) s' = recorded es) \<and>
    (\<forall>pre u post. recorded es = pre @ u # post \<longrightarrow> is_user u \<longrightarrow> no_user post \<longrightarrow>
       (\<exists>older. stored_events (key_of sess) s' =
                 older @ u # drop (length post - nat (so_event_limit (sv_opts s))) post))"
proof -
  have "history_ok (so_event_limit (sv_opts s)) ([] @ recorded es) (stored_events (key_of sess) s')"
    using history_ok_foldl[OF assms(1) history_ok_Nil[OF assms(1)], of "recorded es"]
      append_all_events[OF assms(3)] assms(2) by simp
  then show ?thesis by (simp add: history_ok_def)
qed

text \<open>Two user turns under a limit of two: the first turn's answer and the question survive.\<close>

definition said :: "role \<Rightarrow> string \<Rightarrow> event" where
  "said r txt = empty_event\<lparr>ev_response := Some (empty_response\<lparr>rsp_choices :=
                 [message_choice (plain_message r txt)]\<rparr>)\<rparr>"

definition demo_service :: service where
  "demo_service = fst (CreateSession 1 ''u'' \<lparr>k_app = ''app'', k_user = ''bob'', k_session = ''s''\<rparr> []
     (NewSessionService [WithSessionEventLimit 2]))"

definition demo_session :: session where
  "demo_session = NewSession 1 ''app'' ''bob'' ''s'' []"

definition demo_events :: "(gtime \<times> event) list" where
  "demo_events = [(2, said RoleUser ''q''), (3, said RoleAssistant ''a''), (4, said RoleAssistant ''b''),
                  (5, said RoleAssistant ''c'')]"

definition append_demo :: "session \<times> service" where
  "append_demo = the (append_all [] demo_events demo_session demo_service)"

lemma append_demo_returns: "append_all [] demo_events demo_session demo_service = Some append_demo"
proof -
  have "append_all [] demo_events demo_session demo_service \<noteq> None" by code_simp
  then show ?thesis by (simp add: append_demo_def)
qed

lemma newest_turn_kept_witness:
  "int (length (stored_events (key_of demo_session) (snd append_demo))) \<le> 2 + 1 \<and>
   (\<exists>older. stored_events (key_of demo_session) (snd append_demo) =
      older @ said RoleUser ''q'' # [said RoleAssistant ''b'', said RoleAssistant ''c''])"
proof -
  have l: "so_event_limit (sv_opts demo_service) = 2" "stored_events (key_of demo_session) demo_service = []"
    by code_simp+
  have r: "recorded demo_events = [] @ said RoleUser ''q'' #
      [said RoleAssistant ''a'', said RoleAssistant ''b'', said RoleAssistant ''c'']"
    "is_user (said RoleUser ''q'')"
    "no_user [said RoleAssistant ''a'', said RoleAssistant ''b'', said RoleAssistant ''c'']"
    by code_simp+
  have a: "append_all [] demo_events demo_session demo_service = Some (fst append_demo, snd append_demo)"
    using append_demo_returns by simp
  have "0 < so_event_limit (sv_opts demo_service)" using l(1) by simp
  from newest_turn_kept[OF this l(2) a] have
    n: "int (length (stored_events (key_of demo_session) (snd append_demo))) \<le> 2 + 1"
    "\<forall>pre u post. recorded demo_events = pre @ u # post \<longrightarrow> is_user u \<longrightarrow> no_user post \<longrightarrow>
       (\<exists>older. stored_events (key_of demo_session) (snd append_demo) = older @ u # drop (length post - 2) post)"
    unfolding l(1) by simp_all
  from n(2)[rule_format, OF r] n(1) show ?thesis by (simp add: drop_Cons')
qed

end
