(* ===== verification/Session_Cleanup.thy ===== *)
theory Session_Cleanup
  imports Session_Store
begin

text \<open>
  When the background cleanup runs makes no difference to the callers of the in-memory session
  service - with one exception, which is a defect: a state of an application or user that is updated
  after it expired and before the cleanup saw it comes back to life.  The proof is a simulation
  between a service that is cleaned and the same service that is not.
\<close>

section \<open>Operations and results\<close>

datatype session_op =
    OpCreate string session_key state_map
  | OpDelete session_key
  | OpGet session_key "session_option list"
  | OpList string string "session_option list"
  | OpUpdateApp string state_map
  | OpDeleteApp string string
  | OpListApp string
  | OpUpdateUser string string state_map
  | OpDeleteUser string string string
  | OpListUser string string
  | OpUpdateSession session_key state_map
  | OpAppend "session_option list" "event option" session
  | OpTrack "track_event option" session
  | OpSummary session_key string summary
  | OpCleanup

datatype session_result =
    RSession "session_error + session"
  | RFound "session_error + session option"
  | RListed "session_error + session list"
  | RState "session_error + state_map"
  | RDone "session_error option"
  | RAppended session "session_error option run"
  | RTracked session "session_error option"
  | RCleaned

fun exec ::
    "(string list \<Rightarrow> bytes) \<Rightarrow> (bytes \<Rightarrow> string list option) \<Rightarrow> gtime \<Rightarrow> session_op \<Rightarrow> service
     \<Rightarrow> service \<times> session_result" where
  "exec enc dec now (OpCreate uuid key state) s = (let (s', r) = CreateSession now uuid key state s in (s', RSession r))"
| "exec enc dec now (OpDelete key) s = (let (s', r) = DeleteSession key s in (s', RDone r))"
| "exec enc dec now (OpGet key opts) s = (let (s', r) = GetSession [] now key opts s in (s', RFound r))"
| "exec enc dec now (OpList a u opts) s = (s, RListed (ListSessions now a u opts s))"
| "exec enc dec now (OpUpdateApp a state) s = (let (s', r) = UpdateAppState now a state s in (s', RDone r))"
| "exec enc dec now (OpDeleteApp a k) s = (let (s', r) = DeleteAppState a k s in (s', RDone r))"
| "exec enc dec now (OpListApp a) s = (s, RState (ListAppStates now a s))"
| "exec enc dec now (OpUpdateUser a u state) s = (let (s', r) = UpdateUserState now a u state s in (s', RDone r))"
| "exec enc dec now (OpDeleteUser a u k) s = (let (s', r) = DeleteUserState a u k s in (s', RDone r))"
| "exec enc dec now (OpListUser a u) s = (s, RState (ListUserStates now a u s))"
| "exec enc dec now (OpUpdateSession key state) s =
     (let (s', r) = UpdateSessionState now key state s in (s', RDone r))"
| "exec enc dec now (OpAppend opts ev sess) s =
     (let ((s', sess'), r) = AppendEvent [] now opts ev sess s in (s', RAppended sess' r))"
| "exec enc dec now (OpTrack ev sess) s =
     (let ((s', sess'), r) = AppendTrackEvent_service enc dec now ev sess s in (s', RTracked sess' r))"
| "exec enc dec now (OpSummary key fk smry) s =
     (let (s', r) = persist_summary now key fk smry s in (s', RDone r))"
| "exec enc dec now OpCleanup s = (cleanupExpired now s, RCleaned)"

text \<open>The results of the operations, in order; the cleanup has none.\<close>

fun results ::
    "(string list \<Rightarrow> bytes) \<Rightarrow> (bytes \<Rightarrow> string list option) \<Rightarrow> (gtime \<times> session_op) list \<Rightarrow> service
     \<Rightarrow> session_result list" where
  "results enc dec [] s = []"
| "results enc dec ((now, op) # tr) s =
     (case exec enc dec now op s of
        (s', RCleaned) \<Rightarrow> results enc dec tr s'
      | (s', r) \<Rightarrow> r # results enc dec tr s')"

definition is_cleanup :: "session_op \<Rightarrow> bool" where
  "is_cleanup op \<longleftrightarrow> (case op of OpCleanup \<Rightarrow> True | _ \<Rightarrow> False)"

text \<open>
  Results that a caller takes for the same: the errors that say why a session is not there are not
  told apart (expired, or already cleaned up), and lists have no order.
\<close>

definition same_error :: "session_error \<Rightarrow> session_error \<Rightarrow> bool" where
  "same_error e e' \<longleftrightarrow> e = e' \<or> is_gone e \<and> is_gone e'"

definition same_result :: "session_result \<Rightarrow> session_result \<Rightarrow> bool" where
  "same_result r r' \<longleftrightarrow>
     (case r of
        RListed (Inr l) \<Rightarrow> (case r' of RListed (Inr l') \<Rightarrow> mset l = mset l' | _ \<Rightarrow> False)
      | RDone e \<Rightarrow> (case r' of RDone e' \<Rightarrow> rel_option same_error e e' | _ \<Rightarrow> False)
      | RAppended x (Return e) \<Rightarrow>
          (case r' of RAppended x' (Return e') \<Rightarrow> x = x' \<and> rel_option same_error e e' | _ \<Rightarrow> False)
      | RTracked x e \<Rightarrow> (case r' of RTracked x' e' \<Rightarrow> x = x' \<and> rel_option same_error e e' | _ \<Rightarrow> False)
      | _ \<Rightarrow> r = r')"

text \<open>An update that would revive an expired state.\<close>

definition revives_app :: "gtime \<Rightarrow> string \<Rightarrow> service \<Rightarrow> bool" where
  "revives_app now a s \<longleftrightarrow>
     isExpired now (st_expired_at (as_app_state (app_of s a))) \<and> st_data (as_app_state (app_of s a)) \<noteq> []"

definition revives_user :: "gtime \<Rightarrow> string \<Rightarrow> string \<Rightarrow> service \<Rightarrow> bool" where
  "revives_user now a u s \<longleftrightarrow>
     (case gget (as_user_state (app_of s a)) u of
        None \<Rightarrow> False
      | Some st \<Rightarrow> isExpired now (st_expired_at st) \<and> st_data st \<noteq> [])"

definition revives :: "gtime \<Rightarrow> session_op \<Rightarrow> service \<Rightarrow> bool" where
  "revives now op s \<longleftrightarrow>
     (case op of
        OpUpdateApp a _ \<Rightarrow> revives_app now a s
      | OpUpdateUser a u _ \<Rightarrow> revives_user now a u s
      | _ \<Rightarrow> False)"

fun never_revives ::
    "(string list \<Rightarrow> bytes) \<Rightarrow> (bytes \<Rightarrow> string list option) \<Rightarrow> (gtime \<times> session_op) list \<Rightarrow> service \<Rightarrow> bool" where
  "never_revives enc dec [] s = True"
| "never_revives enc dec ((now, op) # tr) s \<longleftrightarrow>
     \<not> revives now op s \<and> never_revives enc dec tr (fst (exec enc dec now op s))"

section \<open>The simulation\<close>

definition sess_sim :: "gtime \<Rightarrow> session_ttl option \<Rightarrow> session_ttl option \<Rightarrow> bool" where
  "sess_sim now x y \<longleftrightarrow>
     y = x \<or> (case x of None \<Rightarrow> False | Some sw \<Rightarrow> isExpired now (sw_expired_at sw) \<and> y = None)"

text \<open>Where the expired state of a user was cleaned, a session created since has put an empty one.\<close>

definition user_sim :: "gtime \<Rightarrow> state_ttl option \<Rightarrow> state_ttl option \<Rightarrow> bool" where
  "user_sim now x y \<longleftrightarrow>
     y = x \<or>
     (case x of None \<Rightarrow> False | Some st \<Rightarrow> isExpired now (st_expired_at st)) \<and>
     (case y of None \<Rightarrow> True | Some st \<Rightarrow> st_data st = [])"

definition app_sim :: "gtime \<Rightarrow> state_ttl \<Rightarrow> state_ttl \<Rightarrow> bool" where
  "app_sim now x y \<longleftrightarrow>
     y = x \<or> isExpired now (st_expired_at x) \<and> y = \<lparr>st_data = [], st_expired_at = 0\<rparr>"

definition sim_app :: "gtime \<Rightarrow> app_sessions \<Rightarrow> app_sessions \<Rightarrow> bool" where
  "sim_app now A B \<longleftrightarrow>
     well_keyed_app A \<and> well_keyed_app B \<and>
     (\<forall>u i. sess_sim now (find_session u i A) (find_session u i B)) \<and>
     (\<forall>u. user_sim now (gget (as_user_state A) u) (gget (as_user_state B) u)) \<and>
     app_sim now (as_app_state A) (as_app_state B)"

definition sim :: "gtime \<Rightarrow> service \<Rightarrow> service \<Rightarrow> bool" where
  "sim now s t \<longleftrightarrow> sv_opts s = sv_opts t \<and> (\<forall>a. sim_app now (app_of s a) (app_of t a))"

lemma isExpired_later: "isExpired now e \<Longrightarrow> now \<le> now' \<Longrightarrow> isExpired now' e"
  by (auto simp: isExpired_def)

lemma sess_sim_later: "sess_sim now x y \<Longrightarrow> now \<le> now' \<Longrightarrow> sess_sim now' x y"
  by (auto simp: sess_sim_def isExpired_later split: option.splits)

lemma user_sim_later: "user_sim now x y \<Longrightarrow> now \<le> now' \<Longrightarrow> user_sim now' x y"
  using isExpired_later[of now _ now'] by (cases x; cases y) (auto simp: user_sim_def)

lemma app_sim_later: "app_sim now x y \<Longrightarrow> now \<le> now' \<Longrightarrow> app_sim now' x y"
  by (auto simp: app_sim_def isExpired_later)

lemma sim_later: "sim now s t \<Longrightarrow> now \<le> now' \<Longrightarrow> sim now' s t"
  unfolding sim_def sim_app_def using sess_sim_later user_sim_later app_sim_later by blast

lemma sim_refl: "well_keyed_service s \<Longrightarrow> sim now s s"
  by (simp add: sim_def sim_app_def well_keyed_service_def sess_sim_def user_sim_def app_sim_def)

lemma simD: "sim now s t \<Longrightarrow> sv_opts t = sv_opts s" "sim now s t \<Longrightarrow> sim_app now (app_of s a) (app_of t a)"
  by (simp_all add: sim_def)

lemma sim_set_app:
  "sim now s t \<Longrightarrow> sim_app now A B \<Longrightarrow> sim now (set_app a A s) (set_app a B t)"
  by (simp add: sim_def)

text \<open>What readers see is the same.\<close>

lemma sess_sim_valid: "sess_sim now x y \<Longrightarrow> getValidSession now y = getValidSession now x"
  by (auto simp: sess_sim_def getValidSession_def split: option.splits)

lemma user_sim_valid:
  "user_sim now x y \<Longrightarrow> or_empty (getValidState now y) = or_empty (getValidState now x)"
  "user_sim now x y \<Longrightarrow> copied_state (getValidState now y) = copied_state (getValidState now x)"
  by (auto simp: user_sim_def getValidState_def copied_state_def split: option.splits)

lemma app_sim_valid:
  "app_sim now x y \<Longrightarrow> or_empty (getValidState now (Some y)) = or_empty (getValidState now (Some x))"
  "app_sim now x y \<Longrightarrow> copied_state (getValidState now (Some y)) = copied_state (getValidState now (Some x))"
  by (auto simp: app_sim_def getValidState_def copied_state_def split: option.splits)

lemma sim_appD:
  assumes "sim_app now A B"
  shows "getValidSession now (find_session u i B) = getValidSession now (find_session u i A)"
    "merged now B u x = merged now A u x"
    "session_view now opt B u x = session_view now opt A u x"
    "copied_state (getValidState now (gget (as_user_state B) u)) =
     copied_state (getValidState now (gget (as_user_state A) u))"
    "copied_state (getValidState now (Some (as_app_state B))) =
     copied_state (getValidState now (Some (as_app_state A)))"
proof -
  have u: "user_sim now (gget (as_user_state A) u) (gget (as_user_state B) u)"
    and a: "app_sim now (as_app_state A) (as_app_state B)"
    and s: "sess_sim now (find_session u i A) (find_session u i B)"
    using assms by (auto simp: sim_app_def)
  show "getValidSession now (find_session u i B) = getValidSession now (find_session u i A)"
    by (rule sess_sim_valid[OF s])
  show m: "merged now B u x = merged now A u x" for x
    by (simp add: merged_def user_sim_valid(1)[OF u] app_sim_valid(1)[OF a])
  show "session_view now opt B u x = session_view now opt A u x"
    by (simp add: session_view_def m)
  show "copied_state (getValidState now (gget (as_user_state B) u)) =
     copied_state (getValidState now (gget (as_user_state A) u))"
    by (rule user_sim_valid(2)[OF u])
  show "copied_state (getValidState now (Some (as_app_state B))) =
     copied_state (getValidState now (Some (as_app_state A)))"
    by (rule app_sim_valid(2)[OF a])
qed

text \<open>Storing the same session on both sides.\<close>

lemma sim_app_put:
  "sim_app now A B \<Longrightarrow> sim_app now (put_session u i sw A) (put_session u i sw B)"
  by (simp add: sim_app_def sess_sim_def)

lemma sim_app_user:
  assumes "sim_app now A B" "well_keyed x" "well_keyed y" "\<And>u. user_sim now (gget x u) (gget y u)"
  shows "sim_app now (A\<lparr>as_user_state := x\<rparr>) (B\<lparr>as_user_state := y\<rparr>)"
  using assms by (simp add: sim_app_def)

lemma sim_app_app:
  assumes "sim_app now A B" "app_sim now x y"
  shows "sim_app now (A\<lparr>as_app_state := x\<rparr>) (B\<lparr>as_app_state := y\<rparr>)"
  using assms by (simp add: sim_app_def)

lemma sim_store:
  "sim now s t \<Longrightarrow> sim now (store_session now key (app_of s (k_app key)) x s) (store_session now key (app_of t (k_app key)) x t)"
  unfolding store_session_def
  by (rule sim_set_app, assumption) (simp add: simD(1) sim_app_put[OF simD(2)])

section \<open>Each operation keeps the simulation\<close>

definition step_sim :: "gtime \<Rightarrow> service \<times> 'r \<Rightarrow> service \<times> 'r \<Rightarrow> ('r \<Rightarrow> 'r \<Rightarrow> bool) \<Rightarrow> bool" where
  "step_sim now x y same \<longleftrightarrow> sim now (fst x) (fst y) \<and> same (snd x) (snd y)"

lemma user_sim_refl [simp]: "user_sim now x x"
  by (simp add: user_sim_def)

lemma app_sim_refl [simp]: "app_sim now x x"
  by (simp add: app_sim_def)

lemma same_error_refl [simp]: "same_error e e"
  by (simp add: same_error_def)

lemma rel_option_same_error_refl [simp]: "rel_option same_error r r"
  by (cases r) (simp_all add: same_error_def)

lemma sim_CreateSession:
  assumes "sim now s t"
  shows "step_sim now (CreateSession now uuid key state s) (CreateSession now uuid key state t) (=)"
proof (cases "checkUserKey (k_app key) (k_user key)")
  case None
  note o = simD(1)[OF assms] and A = simD(2)[OF assms, of "k_app key"]
  let ?A = "app_of s (k_app key)" and ?B = "app_of t (k_app key)"
  let ?fresh = "\<lparr>st_data = [], st_expired_at = calculateExpiredAt now (so_user_ttl (sv_opts s))\<rparr>"
  define ust where "ust app = (case gget (as_user_state app) (k_user key) of
      None \<Rightarrow> gput (k_user key) ?fresh (as_user_state app) | Some _ \<Rightarrow> as_user_state app)" for app :: app_sessions
  have w: "well_keyed (ust ?A)" "well_keyed (ust ?B)"
    using A by (auto simp: ust_def sim_app_def split: option.split)
  have us: "user_sim now (gget (as_user_state ?A) u) (gget (as_user_state ?B) u)" for u
    using A by (simp add: sim_app_def)
  have u: "user_sim now (gget (ust ?A) u) (gget (ust ?B) u)" for u
    using us[of u] us[of "k_user key"]
    by (cases "u = k_user key") (auto simp: ust_def user_sim_def split: option.splits)
  define sid where "sid = (if k_session key = [] then uuid else k_session key)"
  define sw where "sw = \<lparr>sw_session = foldl (\<lambda>x (k, v). SetState k v x)
      (NewSession now (k_app key) (k_user key) sid []) state,
      sw_expired_at = calculateExpiredAt now (so_session_ttl (sv_opts s))\<rparr>"
  define made where "made app = put_session (k_user key) sid sw (app\<lparr>as_user_state := ust app\<rparr>)"
    for app :: app_sessions
  have P: "sim_app now (made ?A) (made ?B)"
    unfolding made_def by (rule sim_app_put[OF sim_app_user[OF A w u]])
  have f: "CreateSession now uuid key state r =
      (set_app (k_app key) (made (app_of r (k_app key))) r,
       Inr (merged now (made (app_of r (k_app key))) (k_user key) (Session_Clone (sw_session sw))))"
    if "sv_opts r = sv_opts s" for r
    unfolding CreateSession_def None option.case Let_def made_def ust_def sw_def sid_def that
      session_ttl.select_convs by (rule refl)
  show ?thesis
    using sim_set_app[OF assms P] sim_appD(2)[OF P]
    by (simp add: step_sim_def f[OF refl] f[OF o])
qed (use assms in \<open>simp add: step_sim_def CreateSession_def\<close>)

text \<open>The other writes change one application, by a function of it.\<close>

lemma sim_pointwise:
  assumes "sim now s t" "sv_opts s' = sv_opts s" "sv_opts t' = sv_opts t"
    and "\<And>b. app_of s' b = (if b = a then A else app_of s b)"
    and "\<And>b. app_of t' b = (if b = a then B else app_of t b)"
    and "sim_app now A B"
  shows "sim now s' t'"
  using assms by (simp add: sim_def)

definition del_session :: "string \<Rightarrow> string \<Rightarrow> app_sessions \<Rightarrow> app_sessions" where
  "del_session u i app =
     (case gget (as_sessions app) u of
        None \<Rightarrow> app
      | Some m \<Rightarrow>
          (if \<not> ghas m i then app
           else app\<lparr>as_sessions :=
                  (if gdel i m = [] then gdel u (as_sessions app)
                   else gput u (gdel i m) (as_sessions app))\<rparr>))"

lemma del_session_states [simp]:
  "as_user_state (del_session u i app) = as_user_state app"
  "as_app_state (del_session u i app) = as_app_state app"
  by (simp_all add: del_session_def split: option.split)

lemma user_sessions_del:
  "user_sessions u' (del_session u i app) = (if u' = u then gdel i (user_sessions u app) else user_sessions u' app)"
proof (cases "gget (as_sessions app) u")
  case None
  then show ?thesis by (simp add: del_session_def user_sessions_def)
next
  case (Some m)
  have "gdel i m = m" if "\<not> ghas m i"
    using that by (simp add: ghas_iff delete_id)
  then show ?thesis using Some by (auto simp: del_session_def user_sessions_def)
qed

lemma find_session_del:
  "find_session u' i' (del_session u i app) = (if u' = u \<and> i' = i then None else find_session u' i' app)"
  by (simp add: find_session_def user_sessions_del)

lemma well_keyed_del: "well_keyed_app app \<Longrightarrow> well_keyed_app (del_session u i app)"
proof -
  assume w: "well_keyed_app app"
  have "well_keyed (as_sessions (del_session u i app))"
    using w by (simp add: del_session_def split: option.split)
  moreover have "well_keyed (user_sessions u' (del_session u i app))" for u'
    using w by (simp add: user_sessions_del)
  moreover have "well_keyed (as_user_state (del_session u i app))"
    using w by simp
  ultimately show ?thesis unfolding well_keyed_app_def by blast
qed

lemma DeleteSession_app:
  assumes "CheckSessionKey key = None"
  shows "app_of (fst (DeleteSession key s)) b =
      (if b = k_app key then del_session (k_user key) (k_session key) (app_of s (k_app key)) else app_of s b)"
    "sv_opts (fst (DeleteSession key s)) = sv_opts s" "snd (DeleteSession key s) = None"
  using assms
  by (cases "getAppSessions (k_app key) s";
      auto simp: DeleteSession_def del_session_def getAppSessions_app_of Let_def split: option.split)+

lemma sim_DeleteSession:
  assumes "sim now s t"
  shows "step_sim now (DeleteSession key s) (DeleteSession key t) (=)"
proof (cases "CheckSessionKey key")
  case None
  have "sim_app now (del_session (k_user key) (k_session key) (app_of s (k_app key)))
                    (del_session (k_user key) (k_session key) (app_of t (k_app key)))"
    using simD(2)[OF assms, of "k_app key"]
    by (simp add: sim_app_def find_session_del well_keyed_del sess_sim_def)
  then have "sim now (fst (DeleteSession key s)) (fst (DeleteSession key t))"
    by (rule sim_pointwise[OF assms DeleteSession_app(2)[OF None] DeleteSession_app(2)[OF None]
          DeleteSession_app(1)[OF None] DeleteSession_app(1)[OF None]])
  then show ?thesis by (simp add: step_sim_def DeleteSession_app(3)[OF None])
qed (use assms in \<open>simp add: step_sim_def DeleteSession_def\<close>)

lemma sim_UpdateAppState:
  assumes "sim now s t" "\<not> revives_app now a s"
  shows "step_sim now (UpdateAppState now a state s) (UpdateAppState now a state t) (=)"
proof -
  have A: "sim_app now (app_of s a) (app_of t a)" by (rule simD(2)[OF assms(1)])
  then have "st_data (as_app_state (app_of t a)) = st_data (as_app_state (app_of s a))"
    using assms(2) by (auto simp: sim_app_def app_sim_def revives_app_def)
  then show ?thesis
    using sim_set_app[OF assms(1) sim_app_app[OF A app_sim_refl]] assms(1) simD(1)[OF assms(1)]
    by (simp add: step_sim_def UpdateAppState_def Let_def)
qed

lemma DeleteAppState_app:
  assumes "a \<noteq> []"
  shows "app_of (fst (DeleteAppState a k s)) b =
      (if b = a then (app_of s a)\<lparr>as_app_state := (as_app_state (app_of s a))
          \<lparr>st_data := gdel (TrimPrefix k StateAppPrefix) (st_data (as_app_state (app_of s a)))\<rparr>\<rparr>
       else app_of s b)"
    "sv_opts (fst (DeleteAppState a k s)) = sv_opts s" "snd (DeleteAppState a k s) = None"
  using assms
  by (cases "getAppSessions a s";
      auto simp: DeleteAppState_def getAppSessions_app_of newAppSessions_def split: option.split)+

lemma sim_DeleteAppState:
  assumes "sim now s t"
  shows "step_sim now (DeleteAppState a k s) (DeleteAppState a k t) (=)"
proof (cases "a = []")
  case False
  let ?d = "\<lambda>r. (as_app_state (app_of r a))
      \<lparr>st_data := gdel (TrimPrefix k StateAppPrefix) (st_data (as_app_state (app_of r a)))\<rparr>"
  have A: "sim_app now (app_of s a) (app_of t a)" by (rule simD(2)[OF assms])
  then have "app_sim now (?d s) (?d t)"
    by (auto simp: sim_app_def app_sim_def)
  from sim_pointwise[OF assms DeleteAppState_app(2)[OF False] DeleteAppState_app(2)[OF False]
      DeleteAppState_app(1)[OF False] DeleteAppState_app(1)[OF False] sim_app_app[OF A this]]
  show ?thesis by (simp add: step_sim_def DeleteAppState_app(3)[OF False])
qed (use assms in \<open>simp add: step_sim_def DeleteAppState_def\<close>)

lemma sim_app_gput_user:
  assumes "sim_app now A B" "user_sim now (Some x) (Some y)"
  shows "sim_app now (A\<lparr>as_user_state := gput u x (as_user_state A)\<rparr>)
                     (B\<lparr>as_user_state := gput u y (as_user_state B)\<rparr>)"
  using assms by (intro sim_app_user) (auto simp: sim_app_def)

lemma sim_UpdateUserState:
  assumes "sim now s t" "\<not> revives_user now a u s"
  shows "step_sim now (UpdateUserState now a u state s) (UpdateUserState now a u state t) (=)"
proof (cases "checkUserKey a u")
  case None
  note A = simD(2)[OF assms(1), of a] and o = simD(1)[OF assms(1)]
  define fresh where "fresh = \<lparr>st_data = [], st_expired_at = calculateExpiredAt now (so_user_ttl (sv_opts s))\<rparr>"
  define st where "st r = (case gget (as_user_state (app_of r a)) u of None \<Rightarrow> fresh | Some x \<Rightarrow> x)" for r
  have us: "user_sim now (gget (as_user_state (app_of s a)) u) (gget (as_user_state (app_of t a)) u)"
    using A by (simp add: sim_app_def)
  then have x: "user_sim now (Some (st s)) (Some (st t))"
    by (auto simp: user_sim_def st_def fresh_def split: option.splits)
  have d: "st_data (st t) = st_data (st s)"
    using us assms(2) by (auto simp: user_sim_def st_def fresh_def revives_user_def split: option.splits)
  show ?thesis
  proof (cases "find (\<lambda>(k, _). HasPrefix k StateAppPrefix \<or> HasPrefix k StateTempPrefix) state")
    case F: None
    show ?thesis
      using sim_set_app[OF assms(1) sim_app_gput_user[OF A user_sim_refl]] d
      unfolding UpdateUserState_def None option.case Let_def o F st_def fresh_def
      by (simp add: step_sim_def)
  next
    case (Some kv)
    show ?thesis
      using sim_set_app[OF assms(1) sim_app_gput_user[OF A x]]
      unfolding UpdateUserState_def None option.case Let_def o Some st_def fresh_def
      by (simp add: step_sim_def split: prod.split)
  qed
qed (use assms in \<open>simp add: step_sim_def UpdateUserState_def\<close>)

definition del_user_key :: "string \<Rightarrow> string \<Rightarrow> app_sessions \<Rightarrow> app_sessions" where
  "del_user_key u k app =
     (case gget (as_user_state app) u of
        None \<Rightarrow> app
      | Some st \<Rightarrow>
          (let data = gdel (TrimPrefix k StateUserPrefix) (st_data st)
           in app\<lparr>as_user_state := (if data = [] then gdel u (as_user_state app)
                                    else gput u (st\<lparr>st_data := data\<rparr>) (as_user_state app))\<rparr>))"

lemma DeleteUserState_app:
  assumes "checkUserKey a u = None"
  shows "app_of (fst (DeleteUserState a u k s)) b =
      (if b = a then del_user_key u k (app_of s a) else app_of s b)"
    "sv_opts (fst (DeleteUserState a u k s)) = sv_opts s" "snd (DeleteUserState a u k s) = None"
  using assms
  by (cases "getAppSessions a s";
      auto simp: DeleteUserState_def del_user_key_def getAppSessions_app_of Let_def split: option.split)+

lemma sim_del_user_key:
  assumes "sim_app now A B"
  shows "sim_app now (del_user_key u k A) (del_user_key u k B)"
proof -
  define us where "us app = (case gget (as_user_state app) u of
      None \<Rightarrow> as_user_state app
    | Some st \<Rightarrow> (let data = gdel (TrimPrefix k StateUserPrefix) (st_data st)
        in if data = [] then gdel u (as_user_state app)
           else gput u (st\<lparr>st_data := data\<rparr>) (as_user_state app)))" for app :: app_sessions
  have d: "del_user_key u k app = app\<lparr>as_user_state := us app\<rparr>" for app
    by (simp add: del_user_key_def us_def Let_def split: option.split)
  have w: "well_keyed (us A)" "well_keyed (us B)"
    using assms by (auto simp: us_def Let_def sim_app_def split: option.split)
  have r: "user_sim now (gget (as_user_state A) v) (gget (as_user_state B) v)" for v
    using assms by (simp add: sim_app_def)
  have "user_sim now (gget (us A) v) (gget (us B) v)" for v
    using r[of v] r[of u]
    by (cases "v = u") (auto simp: us_def Let_def user_sim_def split: option.splits)
  then show ?thesis unfolding d by (rule sim_app_user[OF assms w])
qed

lemma sim_DeleteUserState:
  assumes "sim now s t"
  shows "step_sim now (DeleteUserState a u k s) (DeleteUserState a u k t) (=)"
proof (cases "checkUserKey a u")
  case None
  from sim_pointwise[OF assms DeleteUserState_app(2)[OF None] DeleteUserState_app(2)[OF None]
      DeleteUserState_app(1)[OF None] DeleteUserState_app(1)[OF None]
      sim_del_user_key[OF simD(2)[OF assms]]]
  show ?thesis by (simp add: step_sim_def DeleteUserState_app(3)[OF None])
qed (use assms in \<open>simp add: step_sim_def DeleteUserState_def\<close>)

text \<open>Operations on a stored session: it is live on both sides and the same, or on neither.\<close>

lemma sess_sim_live: "sess_sim now x y \<Longrightarrow> getValidSession now x = Some z \<Longrightarrow> y = x"
  by (auto simp: sess_sim_def getValidSession_def split: option.splits if_splits)

lemma sim_live:
  assumes "sim now s t" "getValidSession now (find_session u i (app_of s a)) = Some z"
  shows "find_session u i (app_of t a) = find_session u i (app_of s a)"
  using sess_sim_live[OF _ assms(2)] simD(2)[OF assms(1), of a] by (simp add: sim_app_def)

lemma same_error_gone: "is_gone e \<Longrightarrow> is_gone e' \<Longrightarrow> rel_option same_error (Some e) (Some e')"
  by (simp add: same_error_def)

lemma set_app_same: "sim now s t \<Longrightarrow> sim now (set_app a (app_of s a) s) (set_app a (app_of t a) t)"
  by (simp add: sim_def)

lemma UpdateSessionState_gone:
  assumes "CheckSessionKey key = None"
    "getValidSession now (find_session (k_user key) (k_session key) (app_of s (k_app key))) = None"
  shows "\<exists>e. UpdateSessionState now key state s = (set_app (k_app key) (app_of s (k_app key)) s, Some e) \<and> is_gone e"
  using assms
  by (auto simp: UpdateSessionState_def Let_def find_session_via getValidSession_def
      split: option.splits if_splits)

lemma UpdateSessionState_live:
  assumes "CheckSessionKey key = None" "find_session (k_user key) (k_session key) (app_of s (k_app key)) = Some sw"
    "\<not> isExpired now (sw_expired_at sw)"
  shows "UpdateSessionState now key state s =
    (case find (\<lambda>(k, _). HasPrefix k StateAppPrefix \<or> HasPrefix k StateUserPrefix) state of
       Some (k, _) \<Rightarrow> (set_app (k_app key) (app_of s (k_app key)) s, Some (StateKeyNotAllowed k))
     | None \<Rightarrow>
         (set_app (k_app key) (put_session (k_user key) (k_session key)
            \<lparr>sw_session = (foldl (\<lambda>x (k, v). SetState k v x) (sw_session sw) state)\<lparr>ss_updated_at := now\<rparr>,
             sw_expired_at = (if so_session_ttl (sv_opts s) > 0
                              then calculateExpiredAt now (so_session_ttl (sv_opts s)) else sw_expired_at sw)\<rparr>
            (app_of s (k_app key))) s, None))"
  using assms
  by (auto simp: UpdateSessionState_def Let_def find_session_via split: option.splits)

lemma sim_UpdateSessionState:
  assumes "sim now s t"
  shows "step_sim now (UpdateSessionState now key state s) (UpdateSessionState now key state t) (rel_option same_error)"
proof (cases "CheckSessionKey key")
  case ck: None
  let ?f = "\<lambda>r. find_session (k_user key) (k_session key) (app_of r (k_app key))"
  note v = sim_appD(1)[OF simD(2)[OF assms], of "k_user key" "k_session key" "k_app key"]
  show ?thesis
  proof (cases "getValidSession now (?f s)")
    case None
    obtain e e' where "is_gone e" "is_gone e'"
      "UpdateSessionState now key state s = (set_app (k_app key) (app_of s (k_app key)) s, Some e)"
      "UpdateSessionState now key state t = (set_app (k_app key) (app_of t (k_app key)) t, Some e')"
      using UpdateSessionState_gone[OF ck None] UpdateSessionState_gone[OF ck, of now t] v None by metis
    then show ?thesis
      using set_app_same[OF assms] same_error_gone by (simp add: step_sim_def)
  next
    case (Some x)
    then obtain sw where sw: "?f s = Some sw" "\<not> isExpired now (sw_expired_at sw)"
      by (auto simp: getValidSession_def split: option.splits if_splits)
    have sw': "?f t = Some sw" using sim_live[OF assms Some] sw(1) by simp
    show ?thesis
      unfolding step_sim_def UpdateSessionState_live[OF ck sw] UpdateSessionState_live[OF ck sw' sw(2)]
      using set_app_same[OF assms] sim_set_app[OF assms sim_app_put[OF simD(2)[OF assms]]]
      by (auto simp: simD(1)[OF assms] same_error_def split: option.split)
  qed
qed (use assms in \<open>simp add: step_sim_def UpdateSessionState_def\<close>)

fun same_append :: "session_error option run \<Rightarrow> session_error option run \<Rightarrow> bool" where
  "same_append (Return e) (Return e') \<longleftrightarrow> rel_option same_error e e'"
| "same_append r r' \<longleftrightarrow> r = r'"

lemma same_append_refl [simp]: "same_append r r"
  by (cases r) simp_all

definition same_pair :: "('r \<Rightarrow> 'r \<Rightarrow> bool) \<Rightarrow> (session \<times> 'r) \<Rightarrow> (session \<times> 'r) \<Rightarrow> bool" where
  "same_pair same x y \<longleftrightarrow> fst x = fst y \<and> same (snd x) (snd y)"

abbreviation regroup :: "('a \<times> 'b) \<times> 'c \<Rightarrow> 'a \<times> 'b \<times> 'c" where
  "regroup x \<equiv> (fst (fst x), snd (fst x), snd x)"

text \<open>The two services find the same stored session for a key, or none.\<close>

lemma sim_stored_session:
  assumes "sim now s t"
  obtains (gone) e e' where "stored_session now key s = Inl e" "stored_session now key t = Inl e'"
      "is_gone e" "is_gone e'"
  | (live) x where "stored_session now key s = Inr (app_of s (k_app key), x)"
      "stored_session now key t = Inr (app_of t (k_app key), x)"
      "find_session (k_user key) (k_session key) (app_of t (k_app key)) =
       find_session (k_user key) (k_session key) (app_of s (k_app key))"
proof (cases "getValidSession now (find_session (k_user key) (k_session key) (app_of s (k_app key)))")
  case None
  with sim_appD(1)[OF simD(2)[OF assms], of "k_user key" "k_session key" "k_app key"]
  have "getValidSession now (find_session (k_user key) (k_session key) (app_of t (k_app key))) = None"
    by simp
  with stored_session_gone[OF None] stored_session_gone[OF this] gone show thesis by blast
next
  case (Some x)
  with sim_appD(1)[OF simD(2)[OF assms], of "k_user key" "k_session key" "k_app key"]
  have "getValidSession now (find_session (k_user key) (k_session key) (app_of t (k_app key))) = Some x"
    by simp
  from live[OF stored_session_live[OF Some] stored_session_live[OF this] sim_live[OF assms Some]]
  show thesis .
qed

lemma sim_AppendEvent:
  assumes "sim now s t"
  shows "step_sim now (regroup (AppendEvent [] now opts ev sess s))
           (regroup (AppendEvent [] now opts ev sess t)) (same_pair same_append)"
proof (cases "CheckSessionKey (key_of sess)")
  case None
  note f = AppendEvent_no_hooks[OF None] appendEvent_def
  show ?thesis
    using assms
  proof (cases rule: sim_stored_session[of now s t "key_of sess"])
    case (gone e e')
    then show ?thesis
      using assms by (simp add: f step_sim_def same_pair_def same_error_def)
  next
    case (live x)
    show ?thesis
    proof (cases "updateStoredSession now (so_event_limit (sv_opts s)) ev x")
      case Panic
      then show ?thesis
        using live assms by (simp add: f step_sim_def same_pair_def simD(1)[OF assms])
    next
      case (Return y)
      then show ?thesis
        using live sim_store[OF assms] by (simp add: f step_sim_def same_pair_def simD(1)[OF assms])
    qed
  qed
qed (use assms in \<open>simp add: step_sim_def AppendEvent_def same_pair_def\<close>)

lemma sim_AppendTrackEvent:
  assumes "sim now s t"
  shows "step_sim now (regroup (AppendTrackEvent_service enc dec now ev sess s))
           (regroup (AppendTrackEvent_service enc dec now ev sess t)) (same_pair (rel_option same_error))"
proof -
  note d = AppendTrackEvent_service_def
  obtain sess1 err where a: "AppendTrackEvent enc dec now ev sess = (sess1, err)" by fastforce
  show ?thesis
  proof (cases err)
    case (Some e)
    then show ?thesis using a assms by (simp add: d step_sim_def same_pair_def)
  next
    case en: None
    show ?thesis
    proof (cases "CheckSessionKey (key_of sess1)")
      case (Some e)
      then show ?thesis using a en assms by (simp add: d step_sim_def same_pair_def)
    next
      case ck: None
      show ?thesis
        using assms
      proof (cases rule: sim_stored_session[of now s t "key_of sess1"])
        case (gone e e')
        then show ?thesis
          using a en ck assms by (simp add: d step_sim_def same_pair_def same_error_def)
      next
        case (live x)
        obtain x1 err1 where b: "AppendTrackEvent enc dec now ev x = (x1, err1)" by fastforce
        have fs: "find_session (ss_user sess1) (ss_id sess1) (app_of t (ss_app sess1)) =
                  find_session (ss_user sess1) (ss_id sess1) (app_of s (ss_app sess1))"
          using live(3) by (simp add: key_of_def)
        show ?thesis
        proof (cases err1)
          case None
          then show ?thesis
            using a en ck live b sim_store[OF assms] by (simp add: d step_sim_def same_pair_def)
        next
          case (Some e)
          then show ?thesis
            using a en ck live(1,2) b fs sim_set_app[OF assms sim_app_put[OF simD(2)[OF assms]]]
            by (simp add: d step_sim_def same_pair_def key_of_def)
        qed
      qed
    qed
  qed
qed

lemma persist_summary_gone:
  "getValidSession now (find_session (k_user key) (k_session key) (app_of s (k_app key))) = None \<Longrightarrow>
   \<exists>e. persist_summary now key fk smry s = (s, Some e) \<and> is_gone e"
  by (cases "getAppSessions (k_app key) s")
     (auto simp: persist_summary_def writeSummaryUnderLock_def getAppSessions_app_of split: option.split)

lemma persist_summary_live:
  assumes "getValidSession now (find_session (k_user key) (k_session key) (app_of s (k_app key))) = Some x"
  shows "persist_summary now key fk smry s =
    (store_session now key (app_of s (k_app key))
       (x\<lparr>ss_summaries := Some (gput fk smry (case ss_summaries x of None \<Rightarrow> [] | Some m \<Rightarrow> m)),
          ss_updated_at := sum_updated_at smry\<rparr>) s, None)"
proof (cases "getAppSessions (k_app key) s")
  case None
  then show ?thesis using assms by (simp add: getAppSessions_app_of getValidSession_def)
next
  case (Some app)
  then show ?thesis
    using assms
    by (auto simp: persist_summary_def writeSummaryUnderLock_def getAppSessions_app_of getValidSession_def
        split: option.splits if_splits)
qed

lemma sim_persist_summary:
  assumes "sim now s t"
  shows "step_sim now (persist_summary now key fk smry s) (persist_summary now key fk smry t) (rel_option same_error)"
proof (cases "getValidSession now (find_session (k_user key) (k_session key) (app_of s (k_app key)))")
  note v = sim_appD(1)[OF simD(2)[OF assms], of "k_user key" "k_session key" "k_app key"]
  case None
  with v have "getValidSession now (find_session (k_user key) (k_session key) (app_of t (k_app key))) = None"
    by simp
  from persist_summary_gone[OF None, of fk smry] persist_summary_gone[OF this, of fk smry] show ?thesis
    using assms same_error_gone by (auto simp: step_sim_def)
next
  note v = sim_appD(1)[OF simD(2)[OF assms], of "k_user key" "k_session key" "k_app key"]
  case (Some x)
  with v have "getValidSession now (find_session (k_user key) (k_session key) (app_of t (k_app key))) = Some x"
    by simp
  from persist_summary_live[OF Some] persist_summary_live[OF this] show ?thesis
    using sim_store[OF assms] by (simp add: step_sim_def)
qed

section \<open>Reading\<close>

lemma gget_filter_vals:
  "well_keyed m \<Longrightarrow> gget (filter (\<lambda>(_, v). P v) m) k =
     (case gget m k of Some v \<Rightarrow> if P v then Some v else None | None \<Rightarrow> None)"
proof (induction m)
  case (Cons kv m)
  obtain x v where kv: "kv = (x, v)" by fastforce
  have w: "well_keyed m" "\<not> ghas m x"
    using well_keyed_ConsD[of x v m] Cons.prems kv by simp_all
  then have "gget m x = None" by (simp add: ghas_def)
  with Cons.IH[OF w(1)] kv show ?case by auto
qed simp

definition live_entries :: "gtime \<Rightarrow> (string, session_ttl) gomap \<Rightarrow> (string, session_ttl) gomap" where
  "live_entries now m = filter (\<lambda>(_, sw). \<not> isExpired now (sw_expired_at sw)) m"

lemma map_filter_live:
  "List.map_filter (\<lambda>(_, sw). getValidSession now (Some sw)) m = map (\<lambda>(_, sw). sw_session sw) (live_entries now m)"
  by (induction m) (auto simp: live_entries_def getValidSession_def map_filter_simps)

lemma live_entries_sim:
  assumes "sim_app now A B"
  shows "mset (live_entries now (user_sessions u A)) = mset (live_entries now (user_sessions u B))"
proof -
  have w: "well_keyed (user_sessions u A)" "well_keyed (user_sessions u B)"
    using assms by (simp_all add: sim_app_def)
  have "gget (live_entries now (user_sessions u A)) k = gget (live_entries now (user_sessions u B)) k" for k
  proof -
    have "sess_sim now (gget (user_sessions u A) k) (gget (user_sessions u B) k)"
      using assms by (simp add: sim_app_def find_session_def)
    then show ?thesis
      unfolding live_entries_def gget_filter_vals[OF w(1)] gget_filter_vals[OF w(2)]
      by (auto simp: sess_sim_def split: option.splits)
  qed
  then show ?thesis
    using w by (intro well_keyed_lookup_perm) (simp_all add: live_entries_def)
qed

lemma ListSessions_app:
  "ListSessions now a u opts s =
     (case checkUserKey a u of
        Some err \<Rightarrow> Inl err
      | None \<Rightarrow>
          (case ValidateListSessionsOptions (applyOptions opts) of
             Some err \<Rightarrow> Inl err
           | None \<Rightarrow>
               Inr (map (\<lambda>(_, sw). if op_only_meta (applyOptions opts)
                          then merged now (app_of s a) u (cloneSessionListMetadata now (sw_session sw))
                          else session_view now (applyOptions opts) (app_of s a) u (sw_session sw))
                    (live_entries now (user_sessions u (app_of s a))))))"
proof -
  have nil: "live_entries now [] = []" by (simp add: live_entries_def)
  show ?thesis
    by (cases "getAppSessions a s")
       (auto simp: ListSessions_def Let_def map_filter_live getAppSessions_app_of nil split: option.split)
qed

lemma sim_ListSessions:
  assumes "sim now s t"
  shows "same_result (RListed (ListSessions now a u opts s)) (RListed (ListSessions now a u opts t))"
proof -
  note A = simD(2)[OF assms, of a]
  have "mset (map f (live_entries now (user_sessions u (app_of s a)))) =
        mset (map f (live_entries now (user_sessions u (app_of t a))))"
    for f :: "string \<times> session_ttl \<Rightarrow> session"
    by (simp add: live_entries_sim[OF A])
  then show ?thesis
    unfolding ListSessions_app sim_appD(2)[OF A] sim_appD(3)[OF A]
    by (simp add: same_result_def split: option.split)
qed

lemma sim_GetSession:
  assumes "sim now s t"
  shows "step_sim now (GetSession [] now key opts s) (GetSession [] now key opts t) (=)"
proof -
  have "session_view now opt (app_of t a) u = session_view now opt (app_of s a) u" for opt a u
    by (rule ext) (rule sim_appD(3)[OF simD(2)[OF assms]])
  then show ?thesis
    unfolding GetSession_no_hooks getSession_lookup
    using assms sim_appD(1)[OF simD(2)[OF assms]]
    by (simp add: step_sim_def split: option.split)
qed

lemma ListAppStates_app:
  "ListAppStates now a s =
     (if a = [] then Inl AppNameRequired
      else Inr (copied_state (getValidState now (Some (as_app_state (app_of s a))))))"
  by (cases "getAppSessions a s")
     (auto simp: ListAppStates_def getAppSessions_app_of getValidState_def copied_state_def)

lemma sim_ListAppStates: "sim now s t \<Longrightarrow> ListAppStates now a t = ListAppStates now a s"
  unfolding ListAppStates_app using sim_appD(5)[OF simD(2)] by fastforce

lemma sim_ListUserStates: "sim now s t \<Longrightarrow> ListUserStates now a u t = ListUserStates now a u s"
proof -
  assume s: "sim now s t"
  have l: "ListUserStates now a u r =
      (case checkUserKey a u of Some e \<Rightarrow> Inl e
       | None \<Rightarrow> Inr (copied_state (getValidState now (gget (as_user_state (app_of r a)) u))))" for r
    by (cases "getAppSessions a r")
       (auto simp: ListUserStates_def getAppSessions_app_of getValidState_def copied_state_def split: option.split)
  show ?thesis unfolding l sim_appD(4)[OF simD(2)[OF s]] by simp
qed

section \<open>The cleanup\<close>

lemma app_of_cleanup: "app_of (cleanupExpired now s) a = cleanup_app now (app_of s a)"
proof -
  have "cleanup_app now newAppSessions = newAppSessions"
    by (simp add: cleanup_app_def newAppSessions_def cleanup_sessions_def isExpired_def)
  then show ?thesis
    by (simp add: getOrCreateAppSessions_def cleanupExpired_def map_of_map split: option.split)
qed

lemma user_sessions_cleanup:
  assumes "well_keyed_app app"
  shows "user_sessions u (cleanup_app now app) = live_entries now (user_sessions u app)"
proof -
  let ?m = "map (\<lambda>(u, m). (u, live_entries now m)) (as_sessions app)"
  have w: "well_keyed ?m"
    using well_keyed_appD(2)[OF assms] by (simp add: well_keyed_def comp_def case_prod_unfold)
  have g: "gget ?m u = map_option (live_entries now) (gget (as_sessions app) u)"
    by (simp add: map_of_map)
  have n: "live_entries now [] = []" by (simp add: live_entries_def)
  have c: "as_sessions (cleanup_app now app) = filter (\<lambda>(_, m). m \<noteq> []) ?m"
    by (simp add: cleanup_app_def cleanup_sessions_def live_entries_def)
  show ?thesis
    unfolding user_sessions_def c gget_filter_vals[OF w] g by (auto simp: n split: option.split)
qed

lemma well_keyed_cleanup: "well_keyed_app app \<Longrightarrow> well_keyed_app (cleanup_app now app)"
proof -
  assume w: "well_keyed_app app"
  have "well_keyed (as_sessions (cleanup_app now app))"
    using well_keyed_appD(2)[OF w]
    by (auto simp: cleanup_app_def cleanup_sessions_def well_keyed_def comp_def case_prod_unfold
        intro!: distinct_map_filter)
  moreover have "well_keyed (as_user_state (cleanup_app now app))"
    using w by (simp add: cleanup_app_def)
  moreover have "well_keyed (user_sessions u (cleanup_app now app))" for u
    using w by (simp add: user_sessions_cleanup[OF w] live_entries_def)
  ultimately show ?thesis unfolding well_keyed_app_def by blast
qed

lemma sim_app_cleanup:
  assumes "sim_app now A B"
  shows "sim_app now A (cleanup_app now B)"
proof -
  have w: "well_keyed_app A" "well_keyed_app B" using assms by (auto simp: sim_app_def)
  have "sess_sim now (find_session u i A) (find_session u i (cleanup_app now B))" for u i
  proof -
    have "sess_sim now (find_session u i A) (find_session u i B)" using assms by (simp add: sim_app_def)
    moreover have "find_session u i (cleanup_app now B) =
        (case find_session u i B of
           Some sw \<Rightarrow> if \<not> isExpired now (sw_expired_at sw) then Some sw else None | None \<Rightarrow> None)"
      unfolding find_session_def user_sessions_cleanup[OF w(2)] live_entries_def
      by (rule gget_filter_vals) (simp add: w(2))
    ultimately show ?thesis by (auto simp: sess_sim_def split: option.splits)
  qed
  moreover have "user_sim now (gget (as_user_state A) u) (gget (as_user_state (cleanup_app now B)) u)" for u
  proof -
    have "user_sim now (gget (as_user_state A) u) (gget (as_user_state B) u)"
      using assms by (simp add: sim_app_def)
    moreover have "gget (as_user_state (cleanup_app now B)) u =
        (case gget (as_user_state B) u of
           Some st \<Rightarrow> if \<not> isExpired now (st_expired_at st) then Some st else None | None \<Rightarrow> None)"
      unfolding cleanup_app_def app_sessions.select_convs
      by (rule gget_filter_vals) (simp add: w(2))
    ultimately show ?thesis by (auto simp: user_sim_def split: option.splits)
  qed
  moreover have "app_sim now (as_app_state A) (as_app_state (cleanup_app now B))"
    using assms by (auto simp: sim_app_def app_sim_def cleanup_app_def)
  ultimately show ?thesis using w well_keyed_cleanup by (simp add: sim_app_def)
qed

lemma sim_cleanup: "sim now s t \<Longrightarrow> sim now s (cleanupExpired now t)"
  using sim_app_cleanup by (simp add: sim_def app_of_cleanup) (simp add: cleanupExpired_def)

section \<open>The cleanup is invisible\<close>

lemmas sim_defs = step_sim_def same_pair_def same_result_def case_prod_unfold Let_def revives_def

lemma sim_step:
  assumes "sim now s t" "\<not> revives now op s" "\<not> is_cleanup op"
  shows "sim now (fst (exec enc dec now op s)) (fst (exec enc dec now op t)) \<and>
    same_result (snd (exec enc dec now op s)) (snd (exec enc dec now op t)) \<and>
    snd (exec enc dec now op s) \<noteq> RCleaned \<and> snd (exec enc dec now op t) \<noteq> RCleaned"
proof (cases op)
  case (OpCreate uuid key state)
  with sim_CreateSession[OF assms(1), of uuid key state] show ?thesis
    by (simp add: sim_defs)
next
  case (OpDelete key)
  with sim_DeleteSession[OF assms(1), of key] show ?thesis
    by (simp add: sim_defs)
next
  case (OpGet key opts)
  with sim_GetSession[OF assms(1), of key opts] show ?thesis
    by (simp add: sim_defs)
next
  case (OpList a u opts)
  with sim_ListSessions[OF assms(1), of a u opts] assms(1) show ?thesis by simp
next
  case (OpUpdateApp a state)
  with sim_UpdateAppState[OF assms(1), of a state] assms(2) show ?thesis
    by (simp add: sim_defs)
next
  case (OpDeleteApp a k)
  with sim_DeleteAppState[OF assms(1), of a k] show ?thesis
    by (simp add: sim_defs)
next
  case (OpListApp a)
  with sim_ListAppStates[OF assms(1)] assms(1) show ?thesis by (simp add: same_result_def)
next
  case (OpUpdateUser a u state)
  with sim_UpdateUserState[OF assms(1), of a u state] assms(2) show ?thesis
    by (simp add: sim_defs)
next
  case (OpDeleteUser a u k)
  with sim_DeleteUserState[OF assms(1), of a u k] show ?thesis
    by (simp add: sim_defs)
next
  case (OpListUser a u)
  with sim_ListUserStates[OF assms(1)] assms(1) show ?thesis by (simp add: same_result_def)
next
  case (OpUpdateSession key state)
  with sim_UpdateSessionState[OF assms(1), of key state] show ?thesis
    by (simp add: sim_defs)
next
  case (OpAppend opts ev sess)
  with sim_AppendEvent[OF assms(1), of opts ev sess] show ?thesis
    by (cases "snd (AppendEvent [] now opts ev sess s)"; cases "snd (AppendEvent [] now opts ev sess t)")
       (auto simp: sim_defs)
next
  case (OpTrack ev sess)
  with sim_AppendTrackEvent[OF assms(1), of enc dec ev sess] show ?thesis
    by (simp add: sim_defs)
next
  case (OpSummary key fk smry)
  with sim_persist_summary[OF assms(1), of key fk smry] show ?thesis
    by (simp add: sim_defs)
next
  case OpCleanup
  with assms(3) show ?thesis by (simp add: is_cleanup_def)
qed

lemma results_step:
  "snd (exec enc dec now op s) \<noteq> RCleaned \<Longrightarrow>
   results enc dec ((now, op) # tr) s =
     snd (exec enc dec now op s) # results enc dec tr (fst (exec enc dec now op s))"
  by (cases "exec enc dec now op s"; cases "snd (exec enc dec now op s)") auto

lemma results_cleanup: "results enc dec ((now, OpCleanup) # tr) s = results enc dec tr (cleanupExpired now s)"
  by simp

lemma results_sim:
  assumes "sim now0 s t" "sorted (map fst tr)" "\<forall>(now, op) \<in> set tr. now0 \<le> now"
    and "never_revives enc dec (filter (\<lambda>(_, op). \<not> is_cleanup op) tr) s"
  shows "list_all2 same_result (results enc dec (filter (\<lambda>(_, op). \<not> is_cleanup op) tr) s) (results enc dec tr t)"
  using assms
proof (induction tr arbitrary: now0 s t)
  case (Cons no tr)
  obtain now op where no: "no = (now, op)" by fastforce
  have sm: "sim now s t" using Cons.prems(1,3) no by (auto intro: sim_later)
  have srt: "sorted (map fst tr)" "\<forall>(n, op) \<in> set tr. now \<le> n" using Cons.prems(2) no by auto
  show ?case
  proof (cases "is_cleanup op")
    case True
    then have "op = OpCleanup" by (simp add: is_cleanup_def split: session_op.splits)
    with Cons.IH[OF sim_cleanup[OF sm] srt] Cons.prems(4) no True show ?thesis by simp
  next
    case False
    from Cons.prems(4) no False have nr: "\<not> revives now op s"
      "never_revives enc dec (filter (\<lambda>(_, op). \<not> is_cleanup op) tr) (fst (exec enc dec now op s))"
      by simp_all
    note st = sim_step[OF sm nr(1) False, of enc dec]
    from Cons.IH[OF conjunct1[OF st] srt nr(2)] st show ?thesis
      unfolding no by (simp add: False results_step del: results.simps)
  qed
qed simp

text \<open>
  C31. Any sequence of operations on a new service, with cleanups anywhere in
  it, gives the results of the same sequence without them, provided no operation of the uncleaned
  run updates an expired state.  So the uncleaned service, where data lives until it expires, is
  the specification of the cleaned one.
\<close>

theorem cleanup_is_invisible:
  assumes "sorted (map fst tr)"
    and "never_revives enc dec (filter (\<lambda>(_, op). \<not> is_cleanup op) tr) (NewSessionService options)"
  shows "list_all2 same_result
    (results enc dec (filter (\<lambda>(_, op). \<not> is_cleanup op) tr) (NewSessionService options))
    (results enc dec tr (NewSessionService options))"
proof (cases tr)
  case (Cons no tr')
  have "\<forall>(now, op) \<in> set tr. fst no \<le> now" using assms(1) Cons by auto
  from results_sim[OF sim_refl[OF well_keyed_new_service] assms(1) this assms(2)] show ?thesis .
qed simp

text \<open>A session that expires, is cleaned up, and is read and appended to afterwards.\<close>

definition ttl_key :: session_key where
  "ttl_key = \<lparr>k_app = ''app'', k_user = ''bob'', k_session = ''s''\<rparr>"

definition ttl_trace :: "(gtime \<times> session_op) list" where
  "ttl_trace = [(1, OpCreate ''id'' ttl_key []),
     (5, OpAppend [] (Some (said RoleUser ''q'')) demo_session),
     (9, OpCleanup), (14, OpGet ttl_key []), (20, OpCleanup), (21, OpGet ttl_key []),
     (22, OpAppend [] (Some (said RoleUser ''r'')) demo_session)]"

lemma cleanup_is_invisible_witness:
  "list_all2 same_result
     (results concat (\<lambda>b. Some [b]) (filter (\<lambda>(_, op). \<not> is_cleanup op) ttl_trace)
        (NewSessionService [WithSessionTTL 10]))
     (results concat (\<lambda>b. Some [b]) ttl_trace (NewSessionService [WithSessionTTL 10]))"
proof -
  have "sorted (map fst ttl_trace)" by code_simp
  moreover have "never_revives concat (\<lambda>b. Some [b]) (filter (\<lambda>(_, op). \<not> is_cleanup op) ttl_trace)
      (NewSessionService [WithSessionTTL 10])" by code_simp
  ultimately show "list_all2 same_result
     (results concat (\<lambda>b. Some [b]) (filter (\<lambda>(_, op). \<not> is_cleanup op) ttl_trace)
        (NewSessionService [WithSessionTTL 10]))
     (results concat (\<lambda>b. Some [b]) ttl_trace (NewSessionService [WithSessionTTL 10]))"
    by (rule cleanup_is_invisible)
qed

section \<open>An expired state that comes back\<close>

lemma put_all_other:
  "\<forall>(k', v) \<in> set state. TrimPrefix k' pre \<noteq> k \<Longrightarrow> gget (put_all pre state data) k = gget data k"
  unfolding put_all_def by (induction state arbitrary: data) auto

lemma copied_state_get: "gget (copied_state (Some m)) k = map_option copied_bytes (gget m k)"
  by (simp add: copied_state_def map_of_map)

lemma not_expired_yet: "\<not> isExpired now (calculateExpiredAt now ttl)"
  by (simp add: isExpired_def calculateExpiredAt_def)

lemma ListAppStates_updated:
  assumes "a \<noteq> []" "\<forall>(k', v) \<in> set state. TrimPrefix k' StateAppPrefix \<noteq> k"
  shows "\<exists>m. ListAppStates now a (fst (UpdateAppState now a state s)) = Inr m \<and>
    gget m k = map_option copied_bytes (gget (st_data (as_app_state (app_of s a))) k)"
  using assms put_all_other[OF assms(2)]
  by (simp add: ListAppStates_app UpdateAppState_def Let_def getValidState_def not_expired_yet copied_state_get)

text \<open>
  C34. An application's state that has expired reads as empty; an update of
  another key brings every expired value back, unless the cleanup ran in between.
\<close>

theorem expired_state_revived:
  assumes "a \<noteq> []" "isExpired now (st_expired_at (as_app_state (app_of s a)))"
    and "gget (st_data (as_app_state (app_of s a))) k = Some v"
    and "\<forall>(k', v) \<in> set state. TrimPrefix k' StateAppPrefix \<noteq> k"
  shows "ListAppStates now a s = Inr [] \<and>
    (\<exists>m. ListAppStates now a (fst (UpdateAppState now a state s)) = Inr m \<and>
         gget m k = Some (copied_bytes v)) \<and>
    (\<exists>m. ListAppStates now a (fst (UpdateAppState now a state (cleanupExpired now s))) = Inr m \<and>
         gget m k = None)"
proof (intro conjI)
  show "ListAppStates now a s = Inr []"
    using assms(1,2) by (simp add: ListAppStates_app getValidState_def copied_state_def)
  show "\<exists>m. ListAppStates now a (fst (UpdateAppState now a state s)) = Inr m \<and> gget m k = Some (copied_bytes v)"
    using ListAppStates_updated[OF assms(1,4), of now s] assms(3) by simp
  have "st_data (as_app_state (app_of (cleanupExpired now s) a)) = []"
    using assms(2) by (simp add: app_of_cleanup cleanup_app_def)
  then show "\<exists>m. ListAppStates now a (fst (UpdateAppState now a state (cleanupExpired now s))) = Inr m \<and> gget m k = None"
    using ListAppStates_updated[OF assms(1,4), of now "cleanupExpired now s"] by simp
qed

definition stale_service :: service where
  "stale_service = fst (UpdateAppState 1 ''app'' [(''theme'', Some ''dark'')]
     (NewSessionService [WithAppStateTTL 10]))"

lemma expired_state_revived_witness:
  "ListAppStates 20 ''app'' stale_service = Inr [] \<and>
   (\<exists>m. ListAppStates 20 ''app'' (fst (UpdateAppState 20 ''app'' [(''lang'', Some ''en'')] stale_service)) = Inr m \<and>
        gget m ''theme'' = Some (Some ''dark''))"
proof -
  have p: "isExpired 20 (st_expired_at (as_app_state (app_of stale_service ''app'')))"
    "gget (st_data (as_app_state (app_of stale_service ''app''))) ''theme'' = Some (Some ''dark'')"
    by code_simp+
  have "\<forall>(k', v) \<in> set [(''lang'', Some ''en'')]. TrimPrefix k' StateAppPrefix \<noteq> ''theme''"
    by code_simp
  from expired_state_revived[OF _ p this] show ?thesis by (simp add: copied_bytes_def)
qed

end
