(* ===== verification/Session_Summary.thy ===== *)
theory Session_Summary
  imports Session_Store
begin

text \<open>
  \<open>session/internal/summary\<close> and \<open>session/inmemory/summary.go\<close>: summaries of a session per filter
  key, each with the time up to which it covers the events.  The summarizer is an argument: whether
  it wants to summarise a session, and its summary, with the copy of the session it was given, on
  whose state it may leave the time stamp of the last event it included (\<open>parse\<close> is
  \<open>time.Parse\<close> of that value).  The goroutines of the cascade touch different keys; they are run one
  after the other, in either order.
\<close>

section \<open>Summaries of one key\<close>

record summarizer =
  sm_should :: "session \<Rightarrow> bool"
  sm_summarize :: "session \<Rightarrow> session \<times> (string + string)"

definition authorSystem :: string where "authorSystem = ''system''"

text \<open>\<open>SummaryFilterKeyAllContents\<close>: the key of the summary of the full session.\<close>

definition AllContents :: string where "AllContents = []"

definition delta_matches :: "gtime \<Rightarrow> string \<Rightarrow> event \<Rightarrow> bool" where
  "delta_matches since filterKey e \<longleftrightarrow>
     (IsZero since \<or> ev_timestamp e > since) \<and> (filterKey = [] \<or> Event_Filter (Some e) filterKey)"

definition latest_of :: "event list \<Rightarrow> gtime" where
  "latest_of evs = foldl (\<lambda>l e. if ev_timestamp e > l then ev_timestamp e else l) 0 evs"

definition computeDeltaSince :: "session \<Rightarrow> gtime \<Rightarrow> string \<Rightarrow> event list \<times> gtime" where
  "computeDeltaSince sess since filterKey =
     (let out = filter (delta_matches since filterKey) (ss_events sess) in (out, latest_of out))"

definition prependPrevSummary :: "string \<Rightarrow> event list \<Rightarrow> gtime \<Rightarrow> event list" where
  "prependPrevSummary prevSummary delta now =
     (if prevSummary = [] then delta
      else empty_event\<lparr>ev_author := authorSystem,
             ev_response := Some (empty_response\<lparr>rsp_choices :=
               [message_choice (empty_message\<lparr>m_content := prevSummary\<rparr>)]\<rparr>),
             ev_timestamp := now\<rparr> # delta)"

definition buildFilterSession :: "gtime \<Rightarrow> session \<Rightarrow> string \<Rightarrow> event list \<Rightarrow> session" where
  "buildFilterSession now base filterKey evs =
     \<lparr>ss_id = ss_id base @ '':'' @ filterKey, ss_app = ss_app base, ss_user = ss_user base,
      ss_state = None, ss_events = evs, ss_tracks = None, ss_summaries = None,
      ss_updated_at = now, ss_created_at = ss_created_at base, ss_hash = 0, ss_service_meta = None\<rparr>"

definition lastIncludedTsKey :: string where "lastIncludedTsKey = ''summary:last_included_ts''"

definition readLastIncludedTimestamp :: "(bytes \<Rightarrow> gtime option) \<Rightarrow> session \<Rightarrow> gtime" where
  "readLastIncludedTimestamp parse tmp =
     (case session_GetState tmp lastIncludedTsKey of
        Some (Some raw) \<Rightarrow>
          (if raw = [] then 0 else (case parse raw of None \<Rightarrow> 0 | Some t \<Rightarrow> t))
      | _ \<Rightarrow> 0)"

definition selectUpdatedAt :: "(bytes \<Rightarrow> gtime option) \<Rightarrow> session \<Rightarrow> gtime \<Rightarrow> gtime \<Rightarrow> bool \<Rightarrow> gtime" where
  "selectUpdatedAt parse tmp prevAt latestTs hasDelta =
     (if \<not> hasDelta \<or> IsZero latestTs then prevAt
      else let ts = readLastIncludedTimestamp parse tmp
           in if \<not> IsZero ts then ts else latestTs)"

definition summaries_of :: "session \<Rightarrow> (string, summary) gomap" where
  "summaries_of sess = (case ss_summaries sess of None \<Rightarrow> [] | Some m \<Rightarrow> m)"

definition put_summary :: "string \<Rightarrow> summary \<Rightarrow> session \<Rightarrow> session" where
  "put_summary filterKey x sess = sess\<lparr>ss_summaries := Some (gput filterKey x (summaries_of sess))\<rparr>"

text \<open>The previous text and time of a key, empty and zero when there is none.\<close>

definition prev_text :: "session \<Rightarrow> string \<Rightarrow> string" where
  "prev_text sess filterKey = (case gget (summaries_of sess) filterKey of None \<Rightarrow> [] | Some x \<Rightarrow> sum_text x)"

definition prev_at :: "session \<Rightarrow> string \<Rightarrow> gtime" where
  "prev_at sess filterKey = (case gget (summaries_of sess) filterKey of None \<Rightarrow> 0 | Some x \<Rightarrow> sum_updated_at x)"

text \<open>
  \<open>SummarizeSession\<close>: the result says whether there is a summary to store, or is the summarizer's
  error.  A nil base session is not modelled.
\<close>

definition SummarizeSession ::
    "gtime \<Rightarrow> (bytes \<Rightarrow> gtime option) \<Rightarrow> summarizer option \<Rightarrow> session \<Rightarrow> string \<Rightarrow> bool
     \<Rightarrow> session \<times> (string + bool)" where
  "SummarizeSession now parse mo base filterKey force =
     (let prevText = prev_text base filterKey; prevAt = prev_at base filterKey
      in if prevText \<noteq> [] \<and> IsZero prevAt
         then let latestTs = snd (computeDeltaSince base 0 filterKey);
                  at = (if IsZero latestTs then now else latestTs)
              in (case gget (summaries_of base) filterKey of
                    None \<Rightarrow> (base, Inr True)
                  | Some x \<Rightarrow> (put_summary filterKey (x\<lparr>sum_updated_at := at\<rparr>) base, Inr True))
         else (case mo of
                 None \<Rightarrow> (base, Inr False)
               | Some m \<Rightarrow>
                   (let (delta, latestTs) = computeDeltaSince base prevAt filterKey
                    in if \<not> force \<and> delta = [] then (base, Inr False)
                       else let tmp = buildFilterSession now base filterKey
                                        (prependPrevSummary prevText delta now)
                            in if \<not> force \<and> \<not> sm_should m tmp then (base, Inr False)
                               else (case sm_summarize m tmp of
                                       (tmp', Inl err) \<Rightarrow> (base, Inl err)
                                     | (tmp', Inr text) \<Rightarrow>
                                         (if text = [] then (base, Inr False)
                                          else (put_summary filterKey
                                                  \<lparr>sum_text = text, sum_topics = [],
                                                   sum_updated_at = selectUpdatedAt parse tmp' prevAt
                                                     latestTs (delta \<noteq> [])\<rparr> base, Inr True))))))"

section \<open>Reading a summary\<close>

definition meetsTimeCriteria :: "summary option \<Rightarrow> gtime \<Rightarrow> bool" where
  "meetsTimeCriteria so minTime \<longleftrightarrow>
     (case so of
        None \<Rightarrow> False
      | Some x \<Rightarrow> IsZero minTime \<or> \<not> sum_updated_at x < minTime)"

definition usable_text :: "(string, summary) gomap \<Rightarrow> string \<Rightarrow> gtime \<Rightarrow> string option" where
  "usable_text summaries key minTime =
     (case gget summaries key of
        None \<Rightarrow> None
      | Some x \<Rightarrow> if meetsTimeCriteria (Some x) minTime \<and> sum_text x \<noteq> [] then Some (sum_text x) else None)"

definition PickSummaryText :: "(string, summary) gomap option \<Rightarrow> string \<Rightarrow> gtime \<Rightarrow> string option" where
  "PickSummaryText summaries filterKey minTime =
     (case summaries of
        None \<Rightarrow> None
      | Some m \<Rightarrow>
          (case usable_text m filterKey minTime of
             Some t \<Rightarrow> Some t
           | None \<Rightarrow> if filterKey \<noteq> AllContents then usable_text m AllContents minTime else None))"

definition GetSummaryTextFromSession :: "session \<Rightarrow> string \<Rightarrow> string option" where
  "GetSummaryTextFromSession sess filterKey =
     (if summaries_of sess \<noteq> []
      then PickSummaryText (ss_summaries sess) filterKey (ss_created_at sess) else None)"

definition GetSessionSummaryText :: "session \<Rightarrow> string \<Rightarrow> string option" where
  "GetSessionSummaryText sess filterKey =
     (case CheckSessionKey (key_of sess) of
        Some _ \<Rightarrow> None
      | None \<Rightarrow> GetSummaryTextFromSession sess filterKey)"

section \<open>Storing, and the cascade to the full session\<close>

type_synonym summary_world = "service \<times> session"

datatype summary_error =
    SummarizeFailed string
  | KeyCheckFailed session_error
  | PersistFailed session_error

definition CreateSessionSummary ::
    "gtime \<Rightarrow> (bytes \<Rightarrow> gtime option) \<Rightarrow> summarizer option \<Rightarrow> string \<Rightarrow> bool \<Rightarrow> summary_world
     \<Rightarrow> summary_world \<times> summary_error option" where
  "CreateSessionSummary now parse mo filterKey force w =
     (let (s, sess) = w
      in (case mo of
            None \<Rightarrow> (w, None)
          | Some m \<Rightarrow>
              (case CheckSessionKey (key_of sess) of
                 Some err \<Rightarrow> (w, Some (KeyCheckFailed err))
               | None \<Rightarrow>
                   (case SummarizeSession now parse mo sess filterKey force of
                      (sess1, Inl err) \<Rightarrow> ((s, sess1), Some (SummarizeFailed err))
                    | (sess1, Inr updated) \<Rightarrow>
                        (if \<not> updated then ((s, sess1), None)
                         else (case gget (summaries_of sess1) filterKey of
                                 None \<Rightarrow> ((s, sess1), None)
                               | Some x \<Rightarrow>
                                   (let (s1, err) = persist_summary now (key_of sess) filterKey x s
                                    in ((s1, sess1), map_option PersistFailed err))))))))"

definition isSingleFilterKey :: "session \<Rightarrow> string \<Rightarrow> bool" where
  "isSingleFilterKey sess targetKey \<longleftrightarrow>
     targetKey \<noteq> [] \<and> list_all (\<lambda>e. Event_Filter (Some e) targetKey) (ss_events sess)"

definition copySummaryToKey :: "string \<Rightarrow> string \<Rightarrow> session \<Rightarrow> session" where
  "copySummaryToKey srcKey dstKey sess =
     (case gget (summaries_of sess) srcKey of
        None \<Rightarrow> sess
      | Some src \<Rightarrow>
          put_summary dstKey \<lparr>sum_text = sum_text src, sum_topics = sum_topics src, sum_updated_at = 0\<rparr> sess)"

text \<open>\<open>first\<close> tells which goroutine runs first: that of the filter key, or that of the full session.\<close>

definition CreateSessionSummaryWithCascade ::
    "(string \<Rightarrow> bool \<Rightarrow> summary_world \<Rightarrow> summary_world \<times> summary_error option) \<Rightarrow> bool \<Rightarrow> string \<Rightarrow> bool
     \<Rightarrow> summary_world \<Rightarrow> summary_world \<times> summary_error option" where
  "CreateSessionSummaryWithCascade create first filterKey force w =
     (if filterKey = AllContents then create filterKey force w
      else if isSingleFilterKey (snd w) filterKey
      then (case create filterKey force w of
              (w1, Some err) \<Rightarrow> (w1, Some err)
            | (w1, None) \<Rightarrow>
                create AllContents False (fst w1, copySummaryToKey filterKey AllContents (snd w1)))
      else if first
      then (let (w1, r0) = create filterKey force w; (w2, r1) = create AllContents force w1
            in (w2, if r0 \<noteq> None then r0 else r1))
      else (let (w1, r1) = create AllContents force w; (w2, r0) = create filterKey force w1
            in (w2, if r0 \<noteq> None then r0 else r1)))"

section \<open>The queue of the background workers\<close>

text \<open>
  \<open>async.go\<close>: a session's jobs go to the queue its hash selects, so they are done in their order; a
  full queue makes the caller do the job itself.  A job carries the pointer to its session, here
  the identifier \<open>j_session\<close>.
\<close>

record summary_job =
  j_session :: nat
  j_hash :: int
  j_filter_key :: string
  j_force :: bool

record summary_worker =
  w_started :: bool
  w_capacity :: nat
  w_queues :: "summary_job list list"

definition NewAsyncSummaryWorker :: summary_worker where
  "NewAsyncSummaryWorker = \<lparr>w_started = False, w_capacity = 0, w_queues = []\<rparr>"

definition worker_Start :: "bool \<Rightarrow> int \<Rightarrow> int \<Rightarrow> summary_worker \<Rightarrow> summary_worker" where
  "worker_Start hasSummarizer num queueSize w =
     (if w_started w \<or> \<not> hasSummarizer then w
      else \<lparr>w_started = True,
            w_capacity = nat (if queueSize \<le> 0 then 10 else queueSize),
            w_queues = replicate (nat (if num \<le> 0 then 1 else num)) []\<rparr>)"

definition tryEnqueueJob :: "bool \<Rightarrow> summary_job \<Rightarrow> summary_worker \<Rightarrow> summary_worker \<times> bool" where
  "tryEnqueueJob cancelled job w =
     (if cancelled \<or> \<not> w_started w \<or> w_queues w = [] then (w, False)
      else let index = nat (j_hash job mod int (length (w_queues w)));
               q = w_queues w ! index
           in if length q < w_capacity w
              then (w\<lparr>w_queues := (w_queues w)[index := q @ [job]]\<rparr>, True) else (w, False))"

text \<open>A worker takes the oldest job of its queue.\<close>

definition take_job :: "nat \<Rightarrow> summary_worker \<Rightarrow> summary_worker \<times> summary_job option" where
  "take_job i w =
     (if i < length (w_queues w)
      then (case w_queues w ! i of
              [] \<Rightarrow> (w, None)
            | j # q \<Rightarrow> (w\<lparr>w_queues := (w_queues w)[i := q]\<rparr>, Some j))
      else (w, None))"

lemma enqueue_in_range:
  assumes "0 \<le> j_hash job" "w_queues w \<noteq> []"
  shows "nat (j_hash job mod int (length (w_queues w))) < length (w_queues w)"
  using assms by (simp add: nat_less_iff)

lemma enqueue_fifo:
  assumes "tryEnqueueJob c job w = (w', True)"
  shows "\<exists>i. w_queues w' = (w_queues w)[i := w_queues w ! i @ [job]] \<and>
    i = nat (j_hash job mod int (length (w_queues w)))"
  using assms by (auto simp: tryEnqueueJob_def Let_def split: if_splits)

section \<open>Every event is summarised once\<close>

datatype summary_step = Append event | Summarize gtime bool

text \<open>
  A run of one key: events arrive, summaries are asked for.  The log is ghost state: for every
  successful call, the events of its delta up to the time the summary covers.
\<close>

definition summary_step ::
    "(bytes \<Rightarrow> gtime option) \<Rightarrow> summarizer \<Rightarrow> string \<Rightarrow> summary_step \<Rightarrow> session \<times> event list list
     \<Rightarrow> session \<times> event list list" where
  "summary_step parse m key st x =
     (let (sess, log) = x
      in (case st of
            Append e \<Rightarrow> (sess\<lparr>ss_events := ss_events sess @ [e]\<rparr>, log)
          | Summarize now force \<Rightarrow>
              (let (sess', r) = SummarizeSession now parse (Some m) sess key force
               in (case r of
                     Inr True \<Rightarrow>
                       (sess', log @ [filter (\<lambda>e. ev_timestamp e \<le> prev_at sess' key)
                                        (fst (computeDeltaSince sess (prev_at sess key) key))])
                   | _ \<Rightarrow> (sess', log)))))"

definition summary_run ::
    "(bytes \<Rightarrow> gtime option) \<Rightarrow> summarizer \<Rightarrow> string \<Rightarrow> summary_step list \<Rightarrow> session
     \<Rightarrow> session \<times> event list list" where
  "summary_run parse m key sts sess = foldl (\<lambda>x st. summary_step parse m key st x) (sess, []) sts"

definition appended :: "summary_step list \<Rightarrow> event list" where
  "appended sts = List.map_filter (\<lambda>st. case st of Append e \<Rightarrow> Some e | Summarize _ _ \<Rightarrow> None) sts"

text \<open>
  What the code relies on: the time stamp a summarizer leaves is that of an event it was given, and
  it has nothing to say about no events.
\<close>

definition honest :: "(bytes \<Rightarrow> gtime option) \<Rightarrow> summarizer \<Rightarrow> bool" where
  "honest parse m \<longleftrightarrow>
     (\<forall>now base key prev delta tmp text.
        sm_summarize m (buildFilterSession now base key (prependPrevSummary prev delta now)) = (tmp, Inr text) \<longrightarrow>
        text \<noteq> [] \<longrightarrow>
        (prev \<noteq> [] \<or> delta \<noteq> []) \<and>
        (delta \<noteq> [] \<longrightarrow> readLastIncludedTimestamp parse tmp = 0 \<or>
           readLastIncludedTimestamp parse tmp \<in> ev_timestamp ` set delta))"

abbreviation in_key :: "string \<Rightarrow> event \<Rightarrow> bool" where
  "in_key key e \<equiv> key = [] \<or> Event_Filter (Some e) key"

definition ordered :: "event list \<Rightarrow> bool" where
  "ordered evs \<longleftrightarrow> sorted_wrt (<) (map ev_timestamp evs) \<and> (\<forall>e \<in> set evs. 0 < ev_timestamp e)"

definition covers :: "string \<Rightarrow> session \<times> event list list \<Rightarrow> bool" where
  "covers key x \<longleftrightarrow>
     (let (sess, log) = x; u = prev_at sess key
      in concat log = filter (\<lambda>e. in_key key e \<and> ev_timestamp e \<le> u) (ss_events sess) \<and>
         0 \<le> u \<and> (u = 0 \<or> u \<in> ev_timestamp ` set (ss_events sess)) \<and>
         (u = 0 \<longleftrightarrow> prev_text sess key = []))"

lemma summaries_of_put [simp]: "summaries_of (put_summary k x sess) = gput k x (summaries_of sess)"
  by (simp add: put_summary_def summaries_of_def)

lemma put_summary_fields [simp]:
  "ss_events (put_summary k x sess) = ss_events sess"
  "prev_at (put_summary k x sess) k = sum_updated_at x"
  "prev_text (put_summary k x sess) k = sum_text x"
  by (simp add: put_summary_def) (simp_all add: prev_at_def prev_text_def)

lemma latest_foldl:
  "foldl (\<lambda>l e. if ev_timestamp e > l then ev_timestamp e else l) l evs = l \<or>
   foldl (\<lambda>l e. if ev_timestamp e > l then ev_timestamp e else l) l evs \<in> ev_timestamp ` set evs"
  by (induction evs arbitrary: l) (fastforce, auto)

lemma latest_ge:
  "l \<le> foldl (\<lambda>l e. if ev_timestamp e > l then ev_timestamp e else l) l evs \<and>
   (\<forall>e \<in> set evs. ev_timestamp e \<le> foldl (\<lambda>l e. if ev_timestamp e > l then ev_timestamp e else l) l evs)"
proof (induction evs arbitrary: l)
  case (Cons e evs)
  from Cons[of "if ev_timestamp e > l then ev_timestamp e else l"] show ?case by (auto split: if_splits)
qed simp

lemma latest_of_bound: "e \<in> set evs \<Longrightarrow> ev_timestamp e \<le> latest_of evs" "0 \<le> latest_of evs"
  using latest_ge[of 0 evs] by (auto simp: latest_of_def)

lemma latest_of_in: "latest_of evs = 0 \<or> latest_of evs \<in> ev_timestamp ` set evs"
  using latest_foldl[of 0 evs] by (simp add: latest_of_def)

lemma sorted_window:
  assumes "sorted_wrt (<) (map ev_timestamp evs)" "u \<le> u'"
  shows "filter (\<lambda>e. P e \<and> ev_timestamp e \<le> u) evs @ filter (\<lambda>e. (P e \<and> u < ev_timestamp e) \<and> ev_timestamp e \<le> u') evs
         = filter (\<lambda>e. P e \<and> ev_timestamp e \<le> u') evs"
  using assms(1)
proof (induction evs)
  case (Cons e evs)
  have "filter (\<lambda>e. P e \<and> ev_timestamp e \<le> u) evs = []" if "u < ev_timestamp e"
    using Cons.prems that by (auto simp: filter_empty_conv)
  with Cons assms(2) show ?case by auto
qed simp

lemma delta_ordered:
  assumes "ordered (ss_events sess)" "0 \<le> u"
  shows "fst (computeDeltaSince sess u key) = filter (\<lambda>e. in_key key e \<and> u < ev_timestamp e) (ss_events sess)"
proof -
  have "delta_matches u key e = (in_key key e \<and> u < ev_timestamp e)" if "e \<in> set (ss_events sess)" for e
    using assms that by (auto simp: delta_matches_def ordered_def)
  then show ?thesis by (auto simp: computeDeltaSince_def Let_def intro!: filter_cong)
qed

lemma SummarizeSession_unchanged:
  assumes "SummarizeSession now parse mo sess key force = (sess', r)" "r \<noteq> Inr True"
  shows "sess' = sess"
  using assms
  by (auto simp: SummarizeSession_def Let_def split: if_splits option.splits prod.splits sum.splits)

lemma SummarizeSession_success:
  assumes "SummarizeSession now parse (Some m) sess key force = (sess', Inr True)"
    and "\<not> (prev_text sess key \<noteq> [] \<and> prev_at sess key = 0)"
  obtains tmp ans delta where
    "delta = fst (computeDeltaSince sess (prev_at sess key) key)"
    "sm_summarize m (buildFilterSession now sess key (prependPrevSummary (prev_text sess key) delta now)) = (tmp, Inr ans)"
    "ans \<noteq> []"
    "sess' = put_summary key \<lparr>sum_text = ans, sum_topics = [],
       sum_updated_at = selectUpdatedAt parse tmp (prev_at sess key) (latest_of delta) (delta \<noteq> [])\<rparr> sess"
proof -
  obtain delta where d: "computeDeltaSince sess (prev_at sess key) key = (delta, latest_of delta)"
    by (simp add: computeDeltaSince_def Let_def)
  obtain tmp r where t:
    "sm_summarize m (buildFilterSession now sess key (prependPrevSummary (prev_text sess key) delta now)) = (tmp, r)"
    by fastforce
  have n: "(prev_text sess key \<noteq> [] \<and> prev_at sess key = 0) = False" using assms(2) by simp
  have "SummarizeSession now parse (Some m) sess key force =
      (if \<not> force \<and> delta = [] then (sess, Inr False)
       else if \<not> force \<and> \<not> sm_should m (buildFilterSession now sess key (prependPrevSummary (prev_text sess key) delta now))
       then (sess, Inr False)
       else (case r of Inl err \<Rightarrow> (sess, Inl err)
             | Inr ans \<Rightarrow> if ans = [] then (sess, Inr False)
                 else (put_summary key \<lparr>sum_text = ans, sum_topics = [],
                    sum_updated_at = selectUpdatedAt parse tmp (prev_at sess key) (latest_of delta) (delta \<noteq> [])\<rparr> sess, Inr True)))"
    unfolding SummarizeSession_def Let_def n if_False option.case d prod.case t ..
  with assms(1) obtain ans where x: "r = Inr ans" "ans \<noteq> []"
    "sess' = put_summary key \<lparr>sum_text = ans, sum_topics = [],
       sum_updated_at = selectUpdatedAt parse tmp (prev_at sess key) (latest_of delta) (delta \<noteq> [])\<rparr> sess"
    by (auto split: if_splits sum.splits)
  from that[OF _ t[unfolded x(1)] x(2,3)] d show thesis by simp
qed

text \<open>The time a successful call records is that of an event, and not earlier than before.\<close>

lemma recorded_time:
  assumes h: "honest parse m" and o: "ordered (ss_events sess)" and c: "covers key (sess, log)"
    and s: "SummarizeSession now parse (Some m) sess key force = (sess', Inr True)"
  shows "ss_events sess' = ss_events sess \<and> prev_text sess' key \<noteq> [] \<and> prev_at sess key \<le> prev_at sess' key \<and>
    prev_at sess' key \<in> ev_timestamp ` set (ss_events sess)"
proof -
  let ?u = "prev_at sess key"
  have cu: "0 \<le> ?u" "?u = 0 \<or> ?u \<in> ev_timestamp ` set (ss_events sess)" "?u = 0 \<longleftrightarrow> prev_text sess key = []"
    using c by (auto simp: covers_def Let_def)
  then obtain tmp ans delta where f:
    "delta = fst (computeDeltaSince sess ?u key)"
    "sm_summarize m (buildFilterSession now sess key (prependPrevSummary (prev_text sess key) delta now)) = (tmp, Inr ans)"
    "ans \<noteq> []"
    "sess' = put_summary key \<lparr>sum_text = ans, sum_topics = [],
       sum_updated_at = selectUpdatedAt parse tmp ?u (latest_of delta) (delta \<noteq> [])\<rparr> sess"
    using SummarizeSession_success[OF s] by metis
  have d: "delta = filter (\<lambda>e. in_key key e \<and> ?u < ev_timestamp e) (ss_events sess)"
    using f(1) delta_ordered[OF o cu(1)] by simp
  have hn: "prev_text sess key \<noteq> [] \<or> delta \<noteq> []"
    "delta \<noteq> [] \<longrightarrow> readLastIncludedTimestamp parse tmp = 0 \<or>
       readLastIncludedTimestamp parse tmp \<in> ev_timestamp ` set delta"
    using h f(2,3) unfolding honest_def by blast+
  let ?n = "selectUpdatedAt parse tmp ?u (latest_of delta) (delta \<noteq> [])"
  have "?u \<le> ?n \<and> ?n \<in> ev_timestamp ` set (ss_events sess)"
  proof (cases "delta = []")
    case True
    then show ?thesis using hn(1) cu by (auto simp: selectUpdatedAt_def)
  next
    case False
    then obtain e where e: "e \<in> set delta" by (cases delta) auto
    have p: "?u < t" "t \<in> ev_timestamp ` set (ss_events sess)" if "t \<in> ev_timestamp ` set delta" for t
      using that d by auto
    have "0 < ev_timestamp e" using e d o by (auto simp: ordered_def)
    with latest_of_bound(1)[OF e] have "latest_of delta \<noteq> 0" by simp
    with latest_of_in[of delta] have l: "latest_of delta \<in> ev_timestamp ` set delta" by blast
    have "?n \<in> ev_timestamp ` set delta"
      using False \<open>latest_of delta \<noteq> 0\<close> l hn(2) by (auto simp: selectUpdatedAt_def Let_def)
    from p[OF this] show ?thesis by simp
  qed
  then show ?thesis using f(3,4) by simp
qed

lemma covers_append:
  assumes "covers key (sess, log)" "ordered (ss_events sess @ [e])"
  shows "covers key (sess\<lparr>ss_events := ss_events sess @ [e]\<rparr>, log)"
proof -
  have u: "prev_at (sess\<lparr>ss_events := x\<rparr>) key = prev_at sess key"
    "prev_text (sess\<lparr>ss_events := x\<rparr>) key = prev_text sess key" for x
    by (simp_all add: prev_at_def prev_text_def summaries_of_def)
  have "prev_at sess key < ev_timestamp e"
    using assms by (auto simp: covers_def Let_def ordered_def sorted_wrt_append)
  then show ?thesis using assms(1) by (auto simp: covers_def Let_def u)
qed

lemma summary_step_events:
  assumes "covers key (sess, log)" "summary_step parse m key st (sess, log) = (s1, l1)"
  shows "ss_events s1 = ss_events sess @ (case st of Append e \<Rightarrow> [e] | Summarize _ _ \<Rightarrow> [])"
proof (cases st)
  case (Append e)
  then show ?thesis using assms(2) by (auto simp: summary_step_def)
next
  case (Summarize now force)
  obtain x r where sr: "SummarizeSession now parse (Some m) sess key force = (x, r)" by fastforce
  have np: "\<not> (prev_text sess key \<noteq> [] \<and> prev_at sess key = 0)"
    using assms(1) by (auto simp: covers_def Let_def)
  have "ss_events x = ss_events sess"
  proof (cases "r = Inr True")
    case True
    then obtain v where "x = put_summary key v sess"
      using SummarizeSession_success[OF sr[unfolded True] np] by metis
    then show ?thesis by simp
  next
    case False
    with SummarizeSession_unchanged[OF sr] show ?thesis by simp
  qed
  moreover have "s1 = x"
    using assms(2) sr Summarize by (auto simp: summary_step_def split: sum.splits bool.splits)
  ultimately show ?thesis using Summarize by simp
qed

lemma covers_step:
  assumes h: "honest parse m" and c: "covers key (sess, log)"
    and st: "summary_step parse m key st (sess, log) = (sess', log')"
    and o: "ordered (ss_events sess')"
  shows "covers key (sess', log')"
proof (cases st)
  case (Append e)
  with st o c show ?thesis by (auto simp: summary_step_def intro: covers_append)
next
  case (Summarize now force)
  obtain x r where sr: "SummarizeSession now parse (Some m) sess key force = (x, r)" by fastforce
  show ?thesis
  proof (cases "r = Inr True")
    case False
    with SummarizeSession_unchanged[OF sr] have "x = sess" by simp
    with False sr st c Summarize show ?thesis
      by (auto simp: summary_step_def split: sum.splits bool.splits)
  next
    case True
    let ?u = "prev_at sess key" and ?u' = "prev_at x key"
    have s': "sess' = x" "log' = log @ [filter (\<lambda>e. ev_timestamp e \<le> ?u') (fst (computeDeltaSince sess ?u key))]"
      using st Summarize sr True by (auto simp: summary_step_def)
    have ev: "ss_events x = ss_events sess"
      using summary_step_events[OF c st] s'(1) Summarize by simp
    have o': "ordered (ss_events sess)" using o s'(1) ev by simp
    from recorded_time[OF h o' c sr[unfolded True]] have
      t: "prev_text x key \<noteq> []" "?u \<le> ?u'" "?u' \<in> ev_timestamp ` set (ss_events sess)" by auto
    have u0: "0 \<le> ?u" and lg: "concat log = filter (\<lambda>e. in_key key e \<and> ev_timestamp e \<le> ?u) (ss_events sess)"
      using c by (auto simp: covers_def Let_def)
    have "concat log' = filter (\<lambda>e. in_key key e \<and> ev_timestamp e \<le> ?u') (ss_events sess)"
      using sorted_window[of "ss_events sess" ?u ?u' "in_key key"] o' t(2)
      by (simp add: s'(2) lg delta_ordered[OF o' u0] ordered_def conj_commute)
    moreover have "0 < ?u'" using t(3) o' by (auto simp: ordered_def)
    ultimately show ?thesis
      using s'(1) ev t(1,3) Summarize by (simp add: covers_def Let_def)
  qed
qed

lemma sorted_split:
  "sorted_wrt (<) (map ev_timestamp evs) \<Longrightarrow>
   filter (\<lambda>e. P e \<and> ev_timestamp e \<le> u) evs @ filter (\<lambda>e. P e \<and> u < ev_timestamp e) evs = filter P evs"
proof (induction evs)
  case (Cons e evs)
  have "filter (\<lambda>e. P e \<and> ev_timestamp e \<le> u) evs = []" if "u < ev_timestamp e"
    using Cons.prems that by (auto simp: filter_empty_conv)
  with Cons show ?case by auto
qed simp

lemma ordered_prefix: "ordered (xs @ ys) \<Longrightarrow> ordered xs"
  by (simp add: ordered_def sorted_wrt_append)

lemma appended_Cons:
  "appended (st # sts) = (case st of Append e \<Rightarrow> [e] | Summarize _ _ \<Rightarrow> []) @ appended sts"
  by (simp add: appended_def map_filter_simps split: summary_step.split)

lemma covers_run:
  assumes "honest parse m" "covers key (sess, log)" "ordered (ss_events sess @ appended sts)"
    and "foldl (\<lambda>x st. summary_step parse m key st x) (sess, log) sts = (sess', log')"
  shows "covers key (sess', log') \<and> ss_events sess' = ss_events sess @ appended sts"
  using assms(2-)
proof (induction sts arbitrary: sess log)
  case Nil
  then show ?case by (simp add: appended_def map_filter_simps)
next
  case (Cons st sts)
  obtain s1 l1 where s1: "summary_step parse m key st (sess, log) = (s1, l1)" by fastforce
  let ?new = "case st of Append e \<Rightarrow> [e] | Summarize _ _ \<Rightarrow> []"
  have o: "ordered ((ss_events sess @ ?new) @ appended sts)"
    using Cons.prems(2) by (simp add: appended_Cons)
  have ev: "ss_events s1 = ss_events sess @ ?new"
    by (rule summary_step_events[OF Cons.prems(1) s1])
  have "covers key (s1, l1)"
    using covers_step[OF assms(1) Cons.prems(1) s1] ordered_prefix[OF o] ev by simp
  from Cons.IH[OF this] o ev Cons.prems(3) s1 show ?case by (simp add: appended_Cons)
qed


section \<open>A full-session summary that claims too much\<close>

lemma declined_summary:
  assumes "\<forall>x. \<not> sm_should m x" "\<not> (prev_text sess key \<noteq> [] \<and> prev_at sess key = 0)"
  shows "SummarizeSession now parse (Some m) sess key False = (sess, Inr False)"
  unfolding SummarizeSession_def Let_def using assms by (auto split: prod.split)

text \<open>
  C33. When all events belong to one filter key and the summarizer declines,
  the cascade still copies the key's old summary to the full session and marks it as covering the
  newest event, in memory and in the store: an event the old summary does not cover is not in the
  delta of the full session any more, although it was never summarised.
\<close>

theorem full_summary_overclaims:
  assumes "filterKey \<noteq> []" "CheckSessionKey (key_of sess) = None"
    and "\<forall>e \<in> set (ss_events sess). Event_Filter (Some e) filterKey"
    and old: "gget (summaries_of sess) filterKey = Some old" "sum_text old \<noteq> []" "sum_updated_at old \<noteq> 0"
    and "\<forall>x. \<not> sm_should m x"
    and e: "e \<in> set (ss_events sess)" "sum_updated_at old < ev_timestamp e" "0 < ev_timestamp e"
    and "getValidSession now (find_session (ss_user sess) (ss_id sess) (app_of s (ss_app sess))) = Some stored"
  shows "\<exists>s' sess' full sw.
    CreateSessionSummaryWithCascade (CreateSessionSummary now parse (Some m)) first filterKey False (s, sess) =
      ((s', sess'), None) \<and>
    gget (summaries_of sess') AllContents = Some full \<and> sum_text full = sum_text old \<and>
    find_session (ss_user sess) (ss_id sess) (app_of s' (ss_app sess)) = Some sw \<and>
    gget (summaries_of (sw_session sw)) AllContents = Some full \<and>
    gget (summaries_of sess') filterKey = Some old \<and>
    e \<in> set (fst (computeDeltaSince sess' (sum_updated_at old) filterKey)) \<and>
    e \<notin> set (fst (computeDeltaSince sess' (sum_updated_at full) AllContents))"
proof -
  let ?create = "CreateSessionSummary now parse (Some m)"
  have "SummarizeSession now parse (Some m) sess filterKey False = (sess, Inr False)"
    by (rule declined_summary[OF assms(7)]) (simp add: prev_at_def old)
  then have c1: "?create filterKey False (s, sess) = ((s, sess), None)"
    using assms(2) by (simp add: CreateSessionSummary_def)
  define sess1 where "sess1 = copySummaryToKey filterKey AllContents sess"
  define full where "full = \<lparr>sum_text = sum_text old, sum_topics = sum_topics old,
    sum_updated_at = latest_of (ss_events sess)\<rparr>"
  define sess2 where "sess2 = put_summary AllContents full sess1"
  have ne: "AllContents \<noteq> filterKey" using assms(1) by (simp add: AllContents_def)
  have lt: "ev_timestamp e \<le> latest_of (ss_events sess)" by (rule latest_of_bound(1)[OF e(1)])
  have s1: "gget (summaries_of sess1) AllContents = Some (full\<lparr>sum_updated_at := 0\<rparr>)"
    "ss_events sess1 = ss_events sess" "key_of sess1 = key_of sess"
    "gget (summaries_of sess1) filterKey = Some old"
    using old(1) ne
    by (simp_all add: sess1_def copySummaryToKey_def full_def) (simp add: put_summary_def key_of_def)
  have "SummarizeSession now parse (Some m) sess1 AllContents False = (sess2, Inr True)"
    using s1 old(2) lt e(3)
    by (simp add: SummarizeSession_def prev_text_def prev_at_def computeDeltaSince_def delta_matches_def
        AllContents_def full_def sess2_def Let_def)
  moreover have g2: "gget (summaries_of sess2) AllContents = Some full" "key_of sess2 = key_of sess"
    "ss_events sess2 = ss_events sess" "gget (summaries_of sess2) filterKey = Some old"
    using s1 ne by (simp_all add: sess2_def) (simp add: put_summary_def key_of_def)
  ultimately have c2: "?create AllContents False (s, sess1) =
      ((fst (persist_summary now (key_of sess) AllContents full s), sess2),
       map_option PersistFailed (snd (persist_summary now (key_of sess) AllContents full s)))"
    using assms(2) s1(3) by (simp add: CreateSessionSummary_def case_prod_unfold Let_def)
  obtain app where app: "getAppSessions (ss_app sess) s = Some app" "app_of s (ss_app sess) = app"
    using assms(11) by (cases "getAppSessions (ss_app sess) s")
      (auto simp: getAppSessions_app_of getValidSession_def)
  obtain swt where swt: "find_session (ss_user sess) (ss_id sess) app = Some swt"
    "getValidSession now (Some swt) = Some stored"
    using assms(11) app(2) by (cases "find_session (ss_user sess) (ss_id sess) app")
      (auto simp: getValidSession_def)
  define stored' where "stored' = stored\<lparr>ss_summaries := Some (gput AllContents full (summaries_of stored)),
    ss_updated_at := sum_updated_at full\<rparr>"
  have p: "persist_summary now (key_of sess) AllContents full s =
      (store_session now (key_of sess) app stored' s, None)"
    using app swt by (simp add: persist_summary_def writeSummaryUnderLock_def key_of_def stored'_def summaries_of_def)
  have cas: "CreateSessionSummaryWithCascade ?create first filterKey False (s, sess) =
      ((store_session now (key_of sess) app stored' s, sess2), None)"
    using ne assms(1,3) c1 c2 p
    by (auto simp: CreateSessionSummaryWithCascade_def isSingleFilterKey_def list_all_iff sess1_def)
  have d: "e \<in> set (fst (computeDeltaSince sess2 (sum_updated_at old) filterKey))"
    "e \<notin> set (fst (computeDeltaSince sess2 (sum_updated_at full) AllContents))"
    using e assms(3) lt g2(3) by (auto simp: computeDeltaSince_def Let_def delta_matches_def full_def)
  show ?thesis
    by (rule exI[of _ "store_session now (key_of sess) app stored' s"], rule exI[of _ sess2],
        rule exI[of _ full], rule exI[of _ "\<lparr>sw_session = stored',
          sw_expired_at = calculateExpiredAt now (so_session_ttl (sv_opts s))\<rparr>"])
      (use cas g2(1,4) d in \<open>simp add: full_def store_session_def key_of_def stored'_def summaries_of_def\<close>)
qed

section \<open>Witnesses\<close>

text \<open>A summarizer that counts: it marks no time stamp and has nothing to say about no events.\<close>

definition counting :: "bool \<Rightarrow> summarizer" where
  "counting willing =
     \<lparr>sm_should = (\<lambda>_. willing),
      sm_summarize = (\<lambda>x. (x, if ss_events x = [] then Inl ''no events'' else Inr (show_nat (length (ss_events x)))))\<rparr>"

lemma counting_honest: "honest parse (counting willing)"
proof -
  have "readLastIncludedTimestamp parse (buildFilterSession now base key evs) = 0" for now base key evs
    by (simp add: readLastIncludedTimestamp_def buildFilterSession_def session_GetState_def)
  then show ?thesis
    by (auto simp: honest_def counting_def buildFilterSession_def prependPrevSummary_def)
qed

definition stamped :: "gtime \<Rightarrow> string \<Rightarrow> event" where
  "stamped t key = (said RoleUser ''q'')\<lparr>ev_timestamp := t, ev_filter_key := key, ev_version := CurrentVersion\<rparr>"

definition summary_script :: "summary_step list" where
  "summary_script = [Append (stamped 3 ''a''), Append (stamped 4 ''b''), Summarize 5 False,
     Append (stamped 6 ''a/x''), Summarize 7 False, Summarize 8 True, Append (stamped 9 ''a'')]"


definition old_summary :: summary where
  "old_summary = \<lparr>sum_text = ''so far'', sum_topics = [], sum_updated_at = 3\<rparr>"

definition summarised_session :: session where
  "summarised_session = demo_session\<lparr>ss_events := [stamped 3 ''a'', stamped 6 ''a/x''],
     ss_summaries := Some [(''a'', old_summary)]\<rparr>"

lemma full_summary_overclaims_witness:
  "\<exists>s' sess' full.
     CreateSessionSummaryWithCascade (CreateSessionSummary 8 (\<lambda>_. None) (Some (counting False))) True ''a'' False
       (demo_service, summarised_session) = ((s', sess'), None) \<and>
     gget (summaries_of sess') AllContents = Some full \<and> sum_text full = ''so far'' \<and>
     stamped 6 ''a/x'' \<notin> set (fst (computeDeltaSince sess' (sum_updated_at full) AllContents))"
proof -
  have p: "''a'' \<noteq> []" "CheckSessionKey (key_of summarised_session) = None"
    "\<forall>e \<in> set (ss_events summarised_session). Event_Filter (Some e) ''a''"
    "gget (summaries_of summarised_session) ''a'' = Some old_summary"
    "sum_text old_summary \<noteq> []" "sum_updated_at old_summary \<noteq> 0"
    by code_simp+
  have q: "\<forall>x. \<not> sm_should (counting False) x" by (simp add: counting_def)
  have e: "stamped 6 ''a/x'' \<in> set (ss_events summarised_session)"
    "sum_updated_at old_summary < ev_timestamp (stamped 6 ''a/x'')" "0 < ev_timestamp (stamped 6 ''a/x'')"
    by (simp_all add: summarised_session_def old_summary_def stamped_def)
  have "getValidSession 8 (find_session (ss_user summarised_session) (ss_id summarised_session)
      (app_of demo_service (ss_app summarised_session))) \<noteq> None"
    by code_simp
  then obtain stored where "getValidSession 8 (find_session (ss_user summarised_session)
      (ss_id summarised_session) (app_of demo_service (ss_app summarised_session))) = Some stored"
    by blast
  from full_summary_overclaims[OF p q e this, of "\<lambda>_. None" True] show ?thesis
    by (auto simp: old_summary_def)
qed

end
