(* ===== verification/Context_Compact.thy ===== *)
theory Context_Compact
  imports Token_Tailor Event_Data
begin

text \<open>
  \<open>internal/flow/processor/context_compact.go\<close>: the two passes that shorten the tool results of a
  history before it is sent to the model.  Old oversized results become a placeholder, any other
  oversized result loses its middle.  The passes write only into fresh copies of responses
  (\<open>Response.Clone\<close> before the first write), so they are functions on values here.  The simple
  counter never returns an error.  Debug logging is left out.
\<close>

section \<open>Runes\<close>

text \<open>
  The conversion \<open>[]rune(s)\<close> and back: each rune is the list of its UTF-8 bytes, and a byte that
  starts no well-formed sequence becomes U+FFFD, which is three bytes long.
\<close>

function rune_list :: "nat list \<Rightarrow> nat list list" where
  "rune_list [] = []"
| "rune_list (b # bs) =
     (if rune_width (b # bs) = 1 \<and> 128 \<le> b then [239, 191, 189]
      else take (rune_width (b # bs)) (b # bs))
     # rune_list (drop (rune_width (b # bs)) (b # bs))"
  by pat_completeness auto
termination
  by (relation "measure length") (auto simp del: rune_width.simps)

definition runes :: "string \<Rightarrow> string list" where
  "runes s = map (map char_of) (rune_list (map of_char s))"

abbreviation string_of_runes :: "string list \<Rightarrow> string" where
  "string_of_runes \<equiv> concat"

section \<open>Configuration\<close>

definition DefaultContextCompactionKeepRecentRequests :: int where
  "DefaultContextCompactionKeepRecentRequests = 1"

definition DefaultContextCompactionToolResultMaxTokens :: int where
  "DefaultContextCompactionToolResultMaxTokens = 1024"

definition DefaultContextCompactionOversizedToolResultMaxTokens :: int where
  "DefaultContextCompactionOversizedToolResultMaxTokens = 8192"

definition historicalToolResultPlaceholder :: string where
  "historicalToolResultPlaceholder = ''Historical tool result omitted to save context.''"

record compaction_config =
  cc_enabled :: bool
  cc_keep_recent :: int
  cc_tool_max :: int
  cc_oversized_max :: int

record compaction_stats =
  cs_compacted :: int
  cs_saved :: int

definition no_stats :: compaction_stats where
  "no_stats = \<lparr>cs_compacted = 0, cs_saved = 0\<rparr>"

definition normalizeContextCompactionConfig :: "compaction_config \<Rightarrow> compaction_config" where
  "normalizeContextCompactionConfig cfg =
     (let cfg = (if cc_keep_recent cfg < 0 then cfg\<lparr>cc_keep_recent := 0\<rparr> else cfg);
          cfg = (if cc_tool_max cfg < 0 then cfg\<lparr>cc_tool_max := 0\<rparr> else cfg)
      in if cc_oversized_max cfg < 0 then cfg\<lparr>cc_oversized_max := 0\<rparr> else cfg)"

definition mergeContextCompactionStats :: "compaction_stats \<Rightarrow> compaction_stats \<Rightarrow> compaction_stats" where
  "mergeContextCompactionStats base d =
     \<lparr>cs_compacted = cs_compacted base + cs_compacted d, cs_saved = cs_saved base + cs_saved d\<rparr>"

section \<open>One message\<close>

text \<open>\<open>len(s)\<close> bytes, \<open>halfBudget\<close> runes from each end; integer division of a positive number.\<close>

definition truncation_marker :: "int \<Rightarrow> string" where
  "truncation_marker removed =
     [CHR 0x0A, CHR 0x0A] @ ''[... '' @ show_int removed @ '' characters truncated ...]''
     @ [CHR 0x0A, CHR 0x0A]"

definition truncateMiddle :: "string \<Rightarrow> int \<Rightarrow> string" where
  "truncateMiddle s maxChars =
     (let runeCount = int (rune_count s) in
      if runeCount \<le> maxChars then s
      else
        let marker = truncation_marker (runeCount - maxChars);
            available = maxChars - int (rune_count marker)
        in if available < 2 then string_of_runes (take (nat maxChars) (runes s))
           else
             let halfBudget = nat (available div 2)
             in string_of_runes (take halfBudget (runes s)) @ marker
                @ string_of_runes (drop (rune_count s - halfBudget) (runes s)))"

text \<open>A rewrite gives the message, whether it changed, and the tokens saved.\<close>

type_synonym rewrite = "message \<Rightarrow> int \<Rightarrow> message \<times> bool \<times> int"

text \<open>
  \<open>maxTokens * 4\<close> is below \<open>2 ^ 63\<close> whenever it is computed: the message has more than \<open>maxTokens\<close>
  tokens of four runes each.
\<close>

definition truncateOversizedToolResultMessage :: rewrite where
  "truncateOversizedToolResultMessage msg maxTokens =
     (if m_role msg \<noteq> RoleTool \<or> m_tool_id msg = [] \<or> maxTokens \<le> 0 then (msg, False, 0)
      else if m_content msg = [] \<and> m_content_parts msg = [] then (msg, False, 0)
      else if m_content msg = historicalToolResultPlaceholder then (msg, False, 0)
      else
        let originalTokens = simple_count_tokens msg in
        if originalTokens \<le> maxTokens then (msg, False, 0)
        else
          let result = msg\<lparr>m_content := truncateMiddle (m_content msg) (maxTokens * 4)\<rparr>;
              resultTokens = simple_count_tokens result
          in if resultTokens \<ge> originalTokens then (msg, False, 0)
             else (result, True, originalTokens - resultTokens))"

definition compactHistoricalToolResultMessage :: rewrite where
  "compactHistoricalToolResultMessage msg maxTokens =
     (if m_role msg \<noteq> RoleTool \<or> m_tool_id msg = [] \<or> maxTokens \<le> 0 then (msg, False, 0)
      else if m_content msg = historicalToolResultPlaceholder \<and> m_content_parts msg = []
      then (msg, False, 0)
      else
        let originalTokens = simple_count_tokens msg in
        if originalTokens \<le> maxTokens then (msg, False, 0)
        else
          let compacted = empty_message\<lparr>m_role := m_role msg,
                m_content := historicalToolResultPlaceholder, m_tool_id := m_tool_id msg,
                m_tool_name := m_tool_name msg\<rparr>;
              compactedTokens = simple_count_tokens compacted
          in if compactedTokens \<ge> originalTokens then (msg, False, 0)
             else (compacted, True, originalTokens - compactedTokens))"

section \<open>One event\<close>

text \<open>\<open>Choices[j].Message = msg\<close> for the messages that changed, on a clone of the response.\<close>

fun rewrite_choices :: "rewrite \<Rightarrow> int \<Rightarrow> choice list \<Rightarrow> choice list \<times> int \<times> int" where
  "rewrite_choices rw maxTokens [] = ([], 0, 0)"
| "rewrite_choices rw maxTokens (c # cs) =
     (let (msg, changed, saved) = rw (ch_message c) maxTokens;
          (cs', n, total) = rewrite_choices rw maxTokens cs
      in if changed then (c\<lparr>ch_message := msg\<rparr> # cs', n + 1, total + saved) else (c # cs', n, total))"

definition rewriteToolResultEventMessages ::
    "event \<Rightarrow> int \<Rightarrow> rewrite \<Rightarrow> event \<times> bool \<times> int \<times> int" where
  "rewriteToolResultEventMessages evt maxTokens rw =
     (case ev_response evt of
        None \<Rightarrow> (evt, False, 0, 0)
      | Some r \<Rightarrow>
          (if rsp_choices r = [] then (evt, False, 0, 0)
           else
             let (cs, compactedCount, totalSaved) = rewrite_choices rw maxTokens (rsp_choices r) in
             if compactedCount = 0 then (evt, False, 0, 0)
             else (evt\<lparr>ev_response :=
                     map_option (\<lambda>clone. clone\<lparr>rsp_choices := cs\<rparr>) (Response_Clone (Some r))\<rparr>,
                   True, compactedCount, totalSaved)))"

definition compactionUnitKey :: "string \<Rightarrow> string \<Rightarrow> string" where
  "compactionUnitKey requestID invocationID =
     (if requestID \<noteq> [] then ''req:'' @ requestID
      else if invocationID \<noteq> [] then ''inv:'' @ invocationID
      else [])"

abbreviation unit_key :: "event \<Rightarrow> string" where
  "unit_key e \<equiv> compactionUnitKey (ev_request_id e) (ev_invocation e)"

definition compactHistoricalToolResultEvent ::
    "event \<Rightarrow> string list \<Rightarrow> int \<Rightarrow> event \<times> bool \<times> int \<times> int" where
  "compactHistoricalToolResultEvent evt protectedIDs maxTokens =
     (if unit_key evt = [] then (evt, False, 0, 0)
      else if unit_key evt \<in> set protectedIDs then (evt, False, 0, 0)
      else rewriteToolResultEventMessages evt maxTokens compactHistoricalToolResultMessage)"

section \<open>The passes\<close>

text \<open>Both passes replace the events that changed and add up the statistics.\<close>

fun pass_over :: "(event \<Rightarrow> event \<times> bool \<times> int \<times> int) \<Rightarrow> event list \<Rightarrow> compaction_stats
    \<Rightarrow> event list \<times> compaction_stats" where
  "pass_over f [] st = ([], st)"
| "pass_over f (e # es) st =
     (let (e', changed, n, saved) = f e;
          (es', st') = pass_over f es
             (if changed then \<lparr>cs_compacted = cs_compacted st + n, cs_saved = cs_saved st + saved\<rparr>
              else st)
      in (if changed then e' # es' else e # es', st'))"

definition collectCompletedCompactionUnitKeys :: "event list \<Rightarrow> string list" where
  "collectCompletedCompactionUnitKeys events =
     map unit_key (filter (\<lambda>e. (case ev_response e of None \<Rightarrow> False | Some r \<Rightarrow> rsp_done r)
                               \<and> unit_key e \<noteq> []) events)"

text \<open>The loop from the newest event on; the set of protected keys is a list.\<close>

fun protect_units :: "string list \<Rightarrow> string \<Rightarrow> string list \<Rightarrow> int \<Rightarrow> string list \<Rightarrow> string list" where
  "protect_units completed currentKey [] keep prot = prot"
| "protect_units completed currentKey (k # ks) keep prot =
     (if keep \<le> 0 then prot
      else if k = [] \<or> k = currentKey then protect_units completed currentKey ks keep prot
      else if k \<notin> set completed then protect_units completed currentKey ks keep prot
      else if k \<in> set prot then protect_units completed currentKey ks keep prot
      else protect_units completed currentKey ks (keep - 1) (k # prot))"

definition collectProtectedRequestIDs :: "event list \<Rightarrow> string \<Rightarrow> int \<Rightarrow> string list" where
  "collectProtectedRequestIDs events currentKey keepRecentRequests =
     (if keepRecentRequests \<le> 0 then [currentKey]
      else protect_units (collectCompletedCompactionUnitKeys events) currentKey
             (map unit_key (rev events)) keepRecentRequests [currentKey])"

definition applyHistoricalToolResultPass ::
    "event list \<Rightarrow> string \<Rightarrow> int \<Rightarrow> int \<Rightarrow> event list \<times> compaction_stats" where
  "applyHistoricalToolResultPass events currentKey keepRecentRequests maxTokens =
     (let prot = collectProtectedRequestIDs events currentKey keepRecentRequests
      in pass_over (\<lambda>e. compactHistoricalToolResultEvent e prot maxTokens) events no_stats)"

definition applyOversizedToolResultPass ::
    "event list \<Rightarrow> int \<Rightarrow> event list \<times> compaction_stats" where
  "applyOversizedToolResultPass events maxTokens =
     pass_over (\<lambda>e. rewriteToolResultEventMessages e maxTokens truncateOversizedToolResultMessage)
       events no_stats"

definition compactIncrementEvents ::
    "event list \<Rightarrow> string \<Rightarrow> string \<Rightarrow> compaction_config \<Rightarrow> event list \<times> compaction_stats" where
  "compactIncrementEvents events currentRequestID currentInvocationID cfg0 =
     (let cfg = normalizeContextCompactionConfig cfg0 in
      if events = [] then (events, no_stats)
      else
        let pass1Active = (cc_enabled cfg \<and> cc_tool_max cfg > 0);
            pass2Active = (cc_oversized_max cfg > 0)
        in if \<not> pass1Active \<and> \<not> pass2Active then (events, no_stats)
           else
             let currentKey = compactionUnitKey currentRequestID currentInvocationID;
                 (compacted, stats) =
                   (if pass1Active \<and> currentKey \<noteq> []
                    then (let (es, st) = applyHistoricalToolResultPass events currentKey
                                           (cc_keep_recent cfg) (cc_tool_max cfg)
                          in (es, mergeContextCompactionStats no_stats st))
                    else (events, no_stats))
             in if pass2Active
                then (let (es, st) = applyOversizedToolResultPass compacted (cc_oversized_max cfg)
                      in (es, mergeContextCompactionStats stats st))
                else (compacted, stats))"

section \<open>Lemmas on runes\<close>

text \<open>A rune is read off the front of whatever follows it.\<close>

definition wf_rune :: "nat list \<Rightarrow> bool" where
  "wf_rune r \<longleftrightarrow>
     r \<noteq> [] \<and> (\<forall>xs. rune_width (r @ xs) = length r) \<and> \<not> (length r = 1 \<and> 128 \<le> hd r)"

lemma rune_width_le: "bs \<noteq> [] \<Longrightarrow> rune_width bs \<le> length bs"
  by (induction bs rule: rune_width.induct) auto

lemma rune_width_ascii: "b < 128 \<Longrightarrow> rune_width (b # xs) = 1"
  by (induction "b # xs" arbitrary: b xs rule: rune_width.induct) auto

lemma wf_ascii: "b < 128 \<Longrightarrow> wf_rune [b]"
  by (simp add: wf_rune_def rune_width_ascii)

lemma wf_replacement: "wf_rune [239, 191, 189]"
proof -
  have "rune_width ([239, 191, 189] @ xs) = 3" for xs
    by (cases xs) (auto simp: is_cont_def)
  then show ?thesis by (simp add: wf_rune_def)
qed

lemma rune_width_2: "rune_width (b # c # ys) = 2 \<longleftrightarrow> 194 \<le> b \<and> b \<le> 223 \<and> is_cont 128 191 c"
  by (cases ys; cases "tl ys") auto

lemma rune_width_3:
  "rune_width (b # c # d # ys) = 3 \<longleftrightarrow>
     b = 224 \<and> is_cont 160 191 c \<and> is_cont 128 191 d
     \<or> b = 237 \<and> is_cont 128 159 c \<and> is_cont 128 191 d
     \<or> 225 \<le> b \<and> b \<le> 239 \<and> b \<noteq> 237 \<and> is_cont 128 191 c \<and> is_cont 128 191 d"
  by (cases ys) auto

lemma rune_width_4:
  "rune_width (b # c # d # e # ys) = 4 \<longleftrightarrow> rune_width [b, c, d, e] = 4"
  by simp

lemma rune_width_cases: "bs \<noteq> [] \<Longrightarrow> rune_width bs \<in> {1, 2, 3, 4}"
  by (induction bs rule: rune_width.induct) auto

lemma width_prefix:
  assumes "bs \<noteq> []" "rune_width bs = n" "1 < n"
  shows "rune_width (take n bs @ xs) = n"
proof -
  have len: "n \<le> length bs" using rune_width_le[OF assms(1)] assms(2) by simp
  consider "n = 2" | "n = 3" | "n = 4"
    using rune_width_cases[OF assms(1)] assms(2,3) by auto
  then show ?thesis
  proof cases
    case 1
    with len obtain b c ys where bs: "bs = b # c # ys"
      by (metis Suc_le_length_iff numeral_2_eq_2)
    then show ?thesis
      using assms(2) 1 rune_width_2[of b c ys] rune_width_2[of b c xs] by (simp del: rune_width.simps)
  next
    case 2
    with len obtain b c d ys where bs: "bs = b # c # d # ys"
      by (metis Suc_le_length_iff numeral_3_eq_3)
    then show ?thesis
      using assms(2) 2 rune_width_3[of b c d ys] rune_width_3[of b c d xs]
      by (simp del: rune_width.simps add: numeral_3_eq_3)
  next
    case 3
    with len obtain b c d e ys where bs: "bs = b # c # d # e # ys"
      by (metis Suc_le_length_iff Suc_numeral add_One numeral_3_eq_3 semiring_norm(2,8))
    then show ?thesis
      using assms(2) 3 rune_width_4[of b c d e ys] rune_width_4[of b c d e xs]
      by (simp del: rune_width.simps add: eval_nat_numeral)
  qed
qed

lemma rune_list_wf: "r \<in> set (rune_list bs) \<Longrightarrow> wf_rune r"
proof (induction bs rule: rune_list.induct)
  case (2 b bs)
  let ?n = "rune_width (b # bs)"
  have "wf_rune (if ?n = 1 \<and> 128 \<le> b then [239, 191, 189] else take ?n (b # bs))"
  proof (cases "?n = 1")
    case True
    then show ?thesis using wf_replacement wf_ascii[of b] by (simp del: rune_width.simps)
  next
    case False
    then have n: "1 < ?n" using rune_width_pos[of "b # bs"] by linarith
    have "length (take ?n (b # bs)) = ?n"
      using rune_width_le[of "b # bs"] by (simp del: rune_width.simps add: min_def)
    with n show ?thesis
      using width_prefix[OF _ refl n] unfolding wf_rune_def by (auto simp del: rune_width.simps)
  qed
  with 2 show ?case by (auto simp del: rune_width.simps)
qed simp

lemma rune_list_append:
  assumes "wf_rune r"
  shows "rune_list (r @ ys) = r # rune_list ys"
proof -
  obtain b bs where r: "r = b # bs" using assms by (cases r) (auto simp: wf_rune_def)
  have w: "rune_width (b # bs @ ys) = length (b # bs)"
    using assms unfolding wf_rune_def r by (metis append_Cons)
  have ok: "\<not> (length (b # bs) = 1 \<and> 128 \<le> b)"
    using assms unfolding wf_rune_def r by simp
  show ?thesis using ok unfolding r append_Cons rune_list.simps w by auto
qed

lemma rune_list_concat:
  "\<forall>r \<in> set rs. wf_rune r \<Longrightarrow> rune_list (concat rs @ ys) = rs @ rune_list ys"
  by (induction rs) (auto simp: rune_list_append simp del: rune_list.simps)

lemma length_rune_list: "length (rune_list bs) = rune_count_bytes bs"
  by (induction bs rule: rune_list.induct) (simp_all del: rune_width.simps)

lemma length_runes [simp]: "length (runes s) = rune_count s"
  by (simp add: runes_def rune_count_def length_rune_list)

abbreviation bytes_of :: "string \<Rightarrow> nat list" where
  "bytes_of \<equiv> map of_char"

definition wf_runes :: "string list \<Rightarrow> bool" where
  "wf_runes rs \<longleftrightarrow> (\<forall>r \<in> set rs. wf_rune (bytes_of r))"

lemma runes_concat:
  assumes "wf_runes rs"
  shows "runes (concat rs @ t) = rs @ runes t"
proof -
  have "rune_list (concat (map bytes_of rs) @ bytes_of t) = map bytes_of rs @ rune_list (bytes_of t)"
    using assms by (intro rune_list_concat) (auto simp: wf_runes_def)
  then show ?thesis
    by (simp add: runes_def map_concat comp_def)
qed

lemma rune_list_bytes:
  "list_all (\<lambda>x. x < 256) bs \<Longrightarrow> r \<in> set (rune_list bs) \<Longrightarrow> list_all (\<lambda>x. x < (256 :: nat)) r"
proof (induction bs rule: rune_list.induct)
  case (2 c bs)
  let ?n = "rune_width (c # bs)"
  from 2(3) consider "r = [239, 191, 189]" | "r = take ?n (c # bs)"
    | "r \<in> set (rune_list (drop ?n (c # bs)))"
    by (auto simp del: rune_width.simps split: if_splits)
  then show ?case
  proof cases
    case 2
    then show ?thesis using \<open>list_all _ (c # bs)\<close> by (metis in_set_takeD list_all_iff)
  next
    case 3
    have "list_all (\<lambda>x. x < 256) (drop ?n (c # bs))"
      using \<open>list_all _ (c # bs)\<close> by (metis in_set_dropD list_all_iff)
    with 2(1) 3 show ?thesis by blast
  qed simp
qed simp

lemma bytes_of_chars: "list_all (\<lambda>x. x < 256) r \<Longrightarrow> bytes_of (map char_of r) = r"
  by (induction r) auto

lemma bytes_of_bound: "list_all (\<lambda>x. x < 256) (bytes_of s)"
  by (simp add: list_all_iff nat_of_char_less_256)

lemma wf_runes_runes: "wf_runes (runes s)"
proof -
  have "wf_rune (bytes_of (map char_of r))" if "r \<in> set (rune_list (bytes_of s))" for r
    using that rune_list_wf bytes_of_chars[OF rune_list_bytes[OF bytes_of_bound that]] by metis
  then show ?thesis by (simp add: wf_runes_def runes_def)
qed

lemma wf_runes_take [intro]: "wf_runes rs \<Longrightarrow> wf_runes (take n rs)"
  and wf_runes_drop [intro]: "wf_runes rs \<Longrightarrow> wf_runes (drop n rs)"
  by (auto simp: wf_runes_def dest: in_set_takeD in_set_dropD)

lemma rune_count_concat:
  "wf_runes rs \<Longrightarrow> rune_count (concat rs @ t) = length rs + rune_count t"
  by (metis length_append length_runes runes_concat)

lemma rune_count_runes:
  "wf_runes rs \<Longrightarrow> rune_count (concat rs) = length rs"
  using rune_count_concat[of rs "[]"] by simp

definition ascii :: "string \<Rightarrow> bool" where
  "ascii s \<longleftrightarrow> list_all (\<lambda>c. (of_char c :: nat) < 128) s"

lemma ascii_runes:
  assumes "ascii s"
  shows "wf_runes (map (\<lambda>c. [c]) s)" "concat (map (\<lambda>c. [c]) s) = s"
  using assms by (auto simp: ascii_def wf_runes_def list_all_iff wf_ascii)

lemma rune_count_ascii: "ascii s \<Longrightarrow> rune_count (s @ t) = length s + rune_count t"
  using rune_count_concat[of "map (\<lambda>c. [c]) s" t] ascii_runes[of s] by simp

lemma ascii_show_nat: "ascii (show_nat n)"
  using show_nat_digits[of _ n] by (fastforce simp: ascii_def list_all_iff)

lemma ascii_marker: "ascii (truncation_marker n)"
  using ascii_show_nat by (auto simp: truncation_marker_def show_int_def ascii_def)

lemma rune_count_marker: "rune_count (truncation_marker n) = length (truncation_marker n)"
  using rune_count_ascii[OF ascii_marker, of n "[]"] by simp

section \<open>Lemmas on the rewrites\<close>

text \<open>A cut never has more runes than it may, and it keeps both ends.\<close>

lemma truncateMiddle_bound:
  assumes "0 \<le> maxChars"
  shows "int (rune_count (truncateMiddle s maxChars)) \<le> maxChars"
proof (cases "int (rune_count s) \<le> maxChars")
  case True
  then show ?thesis by (simp add: truncateMiddle_def Let_def)
next
  case False
  define mk where "mk = truncation_marker (int (rune_count s) - maxChars)"
  define av where "av = maxChars - int (rune_count mk)"
  show ?thesis
  proof (cases "av < 2")
    case True
    with False have "truncateMiddle s maxChars = concat (take (nat maxChars) (runes s))"
      by (simp add: truncateMiddle_def Let_def mk_def av_def)
    then show ?thesis
      using assms by (simp add: rune_count_runes[OF wf_runes_take[OF wf_runes_runes]])
  next
    case long: False
    define h where "h = nat (av div 2)"
    have t: "truncateMiddle s maxChars
        = concat (take h (runes s)) @ mk @ concat (drop (rune_count s - h) (runes s))"
      using False long by (simp add: truncateMiddle_def Let_def mk_def av_def h_def)
    have "rune_count (truncateMiddle s maxChars)
        = length (take h (runes s)) + (length mk + length (drop (rune_count s - h) (runes s)))"
      unfolding t
      by (simp only: rune_count_concat[OF wf_runes_take[OF wf_runes_runes]]
          rune_count_ascii[OF ascii_marker] mk_def
          rune_count_runes[OF wf_runes_drop[OF wf_runes_runes]])
    also have "\<dots> \<le> h + (length mk + h)" by simp
    finally have "rune_count (truncateMiddle s maxChars) \<le> h + (length mk + h)" .
    moreover have "int (length mk) = maxChars - av"
      by (simp add: av_def rune_count_marker mk_def)
    moreover have "2 * int h \<le> av" using long by (simp add: h_def)
    ultimately show ?thesis by linarith
  qed
qed

lemma truncateMiddle_same: "int (rune_count s) \<le> maxChars \<Longrightarrow> truncateMiddle s maxChars = s"
  by (simp add: truncateMiddle_def Let_def)

text \<open>What a rewritten message may look like.\<close>

definition shortened :: "message \<Rightarrow> message \<Rightarrow> bool" where
  "shortened m m' \<longleftrightarrow>
     m_role m = RoleTool \<and> m_tool_id m \<noteq> [] \<and> m_role m' = RoleTool \<and> m_tool_id m' = m_tool_id m
     \<and> m_tool_name m' = m_tool_name m \<and> (m_tool_calls m' = m_tool_calls m \<or> m_tool_calls m' = [])
     \<and> simple_count_tokens m' < simple_count_tokens m"

lemma shortened_trans: "shortened a b \<Longrightarrow> shortened b c \<Longrightarrow> shortened a c"
  by (auto simp: shortened_def)

definition same_choice :: "choice \<Rightarrow> choice \<Rightarrow> bool" where
  "same_choice c c' \<longleftrightarrow>
     c'\<lparr>ch_message := ch_message c\<rparr> = c
     \<and> (ch_message c' = ch_message c \<or> shortened (ch_message c) (ch_message c'))"

definition same_response :: "response \<Rightarrow> response \<Rightarrow> bool" where
  "same_response r r' \<longleftrightarrow>
     r'\<lparr>rsp_choices := rsp_choices r\<rparr> = r \<and> list_all2 same_choice (rsp_choices r) (rsp_choices r')"

definition same_event :: "event \<Rightarrow> event \<Rightarrow> bool" where
  "same_event e e' \<longleftrightarrow>
     e'\<lparr>ev_response := ev_response e\<rparr> = e
     \<and> rel_option same_response (ev_response e) (ev_response e')"

lemma same_choice_refl [simp]: "same_choice c c"
  by (simp add: same_choice_def)

lemma same_response_refl [simp]: "same_response r r"
  by (simp add: same_response_def list_all2_same)

lemma same_event_refl [simp]: "same_event e e"
  by (simp add: same_event_def option.rel_refl)

lemma same_choice_trans: "same_choice a b \<Longrightarrow> same_choice b c \<Longrightarrow> same_choice a c"
  unfolding same_choice_def by (cases a; cases b; cases c) (auto dest: shortened_trans)

lemma same_response_trans: "same_response a b \<Longrightarrow> same_response b c \<Longrightarrow> same_response a c"
proof -
  assume ab: "same_response a b" and bc: "same_response b c"
  have "list_all2 same_choice (rsp_choices a) (rsp_choices c)"
    using ab bc list_all2_trans[of same_choice same_choice same_choice] same_choice_trans
    unfolding same_response_def by blast
  with ab bc show ?thesis
    unfolding same_response_def by (cases a; cases b; cases c) auto
qed

lemma same_event_trans: "same_event a b \<Longrightarrow> same_event b c \<Longrightarrow> same_event a c"
  unfolding same_event_def
  by (cases a; cases b; cases c) (auto elim!: option.rel_cases dest: same_response_trans)

text \<open>The contract of a rewrite, and what it gives for the choices and the events it is applied to.\<close>

locale message_rewrite =
  fixes rw :: rewrite
  assumes changed:
      "rw m n = (m', True, sv) \<Longrightarrow> shortened m m' \<and> sv = simple_count_tokens m - simple_count_tokens m'"
    and unchanged: "rw m n = (m', False, sv) \<Longrightarrow> m' = m \<and> sv = 0"
begin

lemma rewrite_choices_sound:
  assumes "rewrite_choices rw n cs = (cs', k, t)"
  shows "list_all2 same_choice cs cs' \<and> 0 \<le> k \<and> (k = 0 \<longrightarrow> cs' = cs)"
  using assms
proof (induction cs arbitrary: cs' k t)
  case (Cons c cs)
  obtain m ch sv where m: "rw (ch_message c) n = (m, ch, sv)" by (metis prod_cases3)
  obtain cs1 k1 t1 where r: "rewrite_choices rw n cs = (cs1, k1, t1)" by (metis prod_cases3)
  have "ch \<longrightarrow> shortened (ch_message c) m" using changed[of "ch_message c" n m sv] m by (cases ch) auto
  with Cons.IH[OF r] Cons.prems m r show ?case
    by (auto simp: same_choice_def split: if_splits)
qed simp

lemma rewrite_event_sound:
  assumes "rewriteToolResultEventMessages e n rw = (e', ch, k, t)"
  shows "same_event e e' \<and> (\<not> ch \<longrightarrow> e' = e)"
proof (cases "ev_response e")
  case None
  then show ?thesis using assms by (auto simp: rewriteToolResultEventMessages_def)
next
  case (Some r)
  obtain cs k1 t1 where r: "rewrite_choices rw n (rsp_choices r) = (cs, k1, t1)" by (metis prod_cases3)
  show ?thesis
    using assms Some rewrite_choices_sound[OF r]
    by (auto simp: rewriteToolResultEventMessages_def r same_event_def same_response_def
        split: if_splits)
qed

lemma rewritten_event: "same_event e (fst (rewriteToolResultEventMessages e n rw))"
  by (cases "rewriteToolResultEventMessages e n rw") (simp add: rewrite_event_sound)

lemma rewrite_choices_messages:
  "map ch_message (fst (rewrite_choices rw n cs)) = map (\<lambda>c. fst (rw (ch_message c) n)) cs"
proof (induction cs)
  case (Cons c cs)
  obtain m ch sv where m: "rw (ch_message c) n = (m, ch, sv)" by (metis prod_cases3)
  have "\<not> ch \<longrightarrow> m = ch_message c" using unchanged[of "ch_message c" n m sv] m by (cases ch) auto
  with Cons m show ?case by (auto simp: split_beta Let_def)
qed simp

lemma rewritten_messages:
  assumes "ev_response (fst (rewriteToolResultEventMessages e n rw)) = Some r'"
  obtains r where "ev_response e = Some r"
    "map ch_message (rsp_choices r') = map (\<lambda>c. fst (rw (ch_message c) n)) (rsp_choices r)"
proof (cases "ev_response e")
  case None
  then show ?thesis using assms by (simp add: rewriteToolResultEventMessages_def)
next
  case (Some r)
  obtain cs k t where c: "rewrite_choices rw n (rsp_choices r) = (cs, k, t)" by (metis prod_cases3)
  have m: "map ch_message cs = map (\<lambda>c. fst (rw (ch_message c) n)) (rsp_choices r)"
    using rewrite_choices_messages[of n "rsp_choices r"] c by simp
  have "rsp_choices r' = cs"
    using assms Some rewrite_choices_sound[OF c] c
    by (auto simp: rewriteToolResultEventMessages_def split: if_splits)
  with m that[OF Some] show ?thesis by simp
qed

end

interpretation cut: message_rewrite truncateOversizedToolResultMessage
  by unfold_locales
    (auto simp: truncateOversizedToolResultMessage_def Let_def shortened_def split: if_splits)

interpretation blank: message_rewrite compactHistoricalToolResultMessage
  by unfold_locales
    (auto simp: compactHistoricalToolResultMessage_def Let_def shortened_def empty_message_def split: if_splits)

lemma compact_event_sound:
  "compactHistoricalToolResultEvent e prot n = (e', ch, k, t) \<Longrightarrow> same_event e e' \<and> (\<not> ch \<longrightarrow> e' = e)"
  using blank.rewrite_event_sound
  by (auto simp: compactHistoricalToolResultEvent_def split: if_splits)

text \<open>A pass maps its step over the events.\<close>

lemma pass_over_map:
  assumes "\<And>e. \<not> fst (snd (f e)) \<Longrightarrow> fst (f e) = e"
  shows "fst (pass_over f es st) = map (\<lambda>e. fst (f e)) es"
proof (induction es arbitrary: st)
  case (Cons e es)
  show ?case
    using Cons assms[of e] by (auto simp: split_beta Let_def)
qed simp

definition old_pass :: "event list \<Rightarrow> string \<Rightarrow> compaction_config \<Rightarrow> event \<Rightarrow> event" where
  "old_pass events ck cfg e =
     (if cc_enabled cfg \<and> 0 < cc_tool_max cfg \<and> ck \<noteq> []
      then fst (compactHistoricalToolResultEvent e
             (collectProtectedRequestIDs events ck (max 0 (cc_keep_recent cfg))) (cc_tool_max cfg))
      else e)"

definition size_pass :: "compaction_config \<Rightarrow> event \<Rightarrow> event" where
  "size_pass cfg e =
     (if 0 < cc_oversized_max cfg
      then fst (rewriteToolResultEventMessages e (cc_oversized_max cfg) truncateOversizedToolResultMessage)
      else e)"

lemma normalized [simp]:
  "cc_enabled (normalizeContextCompactionConfig cfg) = cc_enabled cfg"
  "cc_keep_recent (normalizeContextCompactionConfig cfg) = max 0 (cc_keep_recent cfg)"
  "cc_tool_max (normalizeContextCompactionConfig cfg) = max 0 (cc_tool_max cfg)"
  "cc_oversized_max (normalizeContextCompactionConfig cfg) = max 0 (cc_oversized_max cfg)"
  by (auto simp: normalizeContextCompactionConfig_def Let_def)

lemma historical_pass_map:
  "fst (applyHistoricalToolResultPass es ck keep n)
   = map (\<lambda>e. fst (compactHistoricalToolResultEvent e (collectProtectedRequestIDs es ck keep) n)) es"
  unfolding applyHistoricalToolResultPass_def Let_def
  by (rule pass_over_map) (metis compact_event_sound prod.collapse)

lemma oversized_pass_map:
  "fst (applyOversizedToolResultPass es n)
   = map (\<lambda>e. fst (rewriteToolResultEventMessages e n truncateOversizedToolResultMessage)) es"
  unfolding applyOversizedToolResultPass_def
  by (rule pass_over_map) (metis cut.rewrite_event_sound prod.collapse)

lemma compactIncrementEvents_map:
  "fst (compactIncrementEvents events rid iid cfg)
   = map (\<lambda>e. size_pass cfg (old_pass events (compactionUnitKey rid iid) cfg e)) events"
proof (cases "events = []")
  case False
  let ?ck = "compactionUnitKey rid iid"
  show ?thesis
    using False historical_pass_map[of events ?ck "max 0 (cc_keep_recent cfg)" "cc_tool_max cfg"]
      oversized_pass_map[of _ "cc_oversized_max cfg"]
    by (auto simp: compactIncrementEvents_def Let_def old_pass_def size_pass_def split_beta max_def
        split: prod.splits)
qed (simp add: compactIncrementEvents_def Let_def)

lemma compacted_same: "same_event e (fst (compactHistoricalToolResultEvent e prot n))"
  by (cases "compactHistoricalToolResultEvent e prot n") (simp add: compact_event_sound)

lemma old_pass_same: "same_event e (old_pass events ck cfg e)"
  by (simp add: old_pass_def compacted_same)

lemma size_pass_same: "same_event e (size_pass cfg e)"
  by (simp add: size_pass_def cut.rewritten_event)

text \<open>
  The protected requests are the current one and the newest completed ones, as many as are to be
  kept.
\<close>

definition newest_completed :: "event list \<Rightarrow> string \<Rightarrow> string list" where
  "newest_completed events ck =
     dedup_seen [ck] (filter (\<lambda>k. k \<noteq> [] \<and> k \<in> set (collectCompletedCompactionUnitKeys events))
                        (map unit_key (rev events)))"

lemma protect_units_spec:
  "protect_units completed ck ks keep prot
   = rev (take (nat keep) (dedup_seen prot (filter (\<lambda>k. k \<noteq> [] \<and> k \<noteq> ck \<and> k \<in> set completed) ks))) @ prot"
proof (induction completed ck ks keep prot rule: protect_units.induct)
  case (2 completed ck k ks keep prot)
  have "0 < keep \<Longrightarrow> nat keep = Suc (nat (keep - 1))" by simp
  with 2 show ?case by (auto simp del: nat_minus_as_int)
qed simp

lemma dedup_seen_skip:
  "x \<in> set seen \<Longrightarrow> dedup_seen seen (filter (\<lambda>k. P k \<and> k \<noteq> x \<and> Q k) xs)
   = dedup_seen seen (filter (\<lambda>k. P k \<and> Q k) xs)"
  by (induction xs arbitrary: seen) auto

lemma protected_units:
  "set (collectProtectedRequestIDs events ck keep) = insert ck (set (take (nat keep) (newest_completed events ck)))"
  by (simp add: collectProtectedRequestIDs_def protect_units_spec newest_completed_def
      dedup_seen_skip[where P = "\<lambda>k. k \<noteq> []"])

section \<open>Results\<close>

lemma compacted_protected:
  assumes "unit_key e = compactionUnitKey rid iid
      \<or> unit_key e \<in> set (take (nat (cc_keep_recent cfg)) (newest_completed events (compactionUnitKey rid iid)))"
  shows "old_pass events (compactionUnitKey rid iid) cfg e = e"
proof -
  have n: "nat (max 0 (cc_keep_recent cfg)) = nat (cc_keep_recent cfg)" by simp
  show ?thesis
    using assms
    by (auto simp: old_pass_def compactHistoricalToolResultEvent_def protected_units n)
qed

text \<open>
  Compacting the history keeps the dialogue: every event stays in place with its data, every
  choice keeps its role, and the only messages that change are tool results, which keep their
  tool call's identifier and name and cost fewer tokens.  The results of the current request and
  of the newest completed ones, as many as are to be kept, never become placeholders: the pass
  for old results leaves their events alone.
\<close>

theorem compaction_keeps_dialogue:
  "list_all2 (\<lambda>e e'. same_event e e'
       \<and> (if unit_key e \<in> insert (compactionUnitKey rid iid)
               (set (take (nat (cc_keep_recent cfg)) (newest_completed events (compactionUnitKey rid iid))))
          then e' = size_pass cfg e else True))
     events (fst (compactIncrementEvents events rid iid cfg))"
  unfolding compactIncrementEvents_map
  by (auto simp: list_all2_conv_all_nth compacted_protected
      intro: size_pass_same same_event_trans[OF old_pass_same size_pass_same])

definition plain_result :: "message \<Rightarrow> bool" where
  "plain_result m \<longleftrightarrow>
     m_role m = RoleTool \<and> m_tool_id m \<noteq> [] \<and> m_content_parts m = [] \<and> m_tool_calls m = []
     \<and> m_reasoning_content m = []"

lemma plain_tokens:
  "plain_result m \<Longrightarrow> simple_count_tokens m
     = (if m_content m \<noteq> [] then max (int (rune_count (m_content m)) div 4) 1 else 0)"
  by (simp add: plain_result_def simple_count_tokens_def Let_def isMessageNotEmpty_def rune_count_def)

lemma truncated_fits:
  assumes "plain_result m" "0 < n" "m_content m \<noteq> historicalToolResultPlaceholder"
  shows "simple_count_tokens (fst (truncateOversizedToolResultMessage m n)) \<le> n"
proof (cases "simple_count_tokens m \<le> n \<or> m_content m = []")
  case True
  then show ?thesis
    using assms plain_tokens[OF assms(1)]
    by (auto simp: truncateOversizedToolResultMessage_def Let_def)
next
  case False
  let ?m' = "m\<lparr>m_content := truncateMiddle (m_content m) (n * 4)\<rparr>"
  have "int (rune_count (m_content ?m')) \<le> n * 4"
    using truncateMiddle_bound[of "n * 4" "m_content m"] assms(2) by simp
  then have "int (rune_count (m_content ?m')) div 4 \<le> n" by simp
  moreover have "plain_result ?m'" using assms(1) by (simp add: plain_result_def)
  ultimately have "simple_count_tokens ?m' \<le> n" using assms(2) by (simp add: plain_tokens)
  then show ?thesis
    using False assms
    by (auto simp: truncateOversizedToolResultMessage_def Let_def plain_result_def)
qed

lemma truncated_shape:
  obtains "fst (truncateOversizedToolResultMessage m n) = m"
  | "m_content m \<noteq> historicalToolResultPlaceholder"
    "fst (truncateOversizedToolResultMessage m n) = m\<lparr>m_content := truncateMiddle (m_content m) (n * 4)\<rparr>"
  by (cases "fst (truncateOversizedToolResultMessage m n) = m")
    (auto simp: truncateOversizedToolResultMessage_def Let_def split: if_splits)


text \<open>A result of three tokens under a bound of two: too short for the marker, so it is cut off.\<close>

definition result_message :: "string \<Rightarrow> message" where
  "result_message s = empty_message\<lparr>m_role := RoleTool, m_tool_id := ''c1'', m_content := s\<rparr>"

definition result_response :: "string \<Rightarrow> response" where
  "result_response s = empty_response\<lparr>rsp_choices := [message_choice (result_message s)]\<rparr>"

definition result_event :: "string \<Rightarrow> event" where
  "result_event s = empty_event\<lparr>ev_request_id := ''r1'', ev_response := Some (result_response s)\<rparr>"

definition sample_compaction :: compaction_config where
  "sample_compaction = \<lparr>cc_enabled = False, cc_keep_recent = 1, cc_tool_max = 0, cc_oversized_max = 2\<rparr>"

lemma sample_compacted:
  "fst (compactIncrementEvents [result_event ''abcdefghijkl''] ''r1'' ''i'' sample_compaction)
   = [result_event ''abcdefgh'']"
  by code_simp


end
