(* ===== verification/Content_Data.thy ===== *)
theory Content_Data
  imports Context_Compact Session_Data Message_Json
begin

text \<open>
  The data of the content processor (\<open>internal/flow/processor/content.go\<close>): its options, what it
  reads of an invocation, the filters that decide which event of a session belongs into a request,
  and the functions that turn events into messages.  The heap of responses comes in
  \<open>Content_History\<close>; the functions here read their events only.

  The few-shot resolver, the event projector, the summary formatter and the memory service are
  given by the user, so they are fields that hold functions.
\<close>

section \<open>Options\<close>

definition SessionSummaryInjectionSystem :: string where "SessionSummaryInjectionSystem = ''system''"

definition SessionSummaryInjectionUser :: string where "SessionSummaryInjectionUser = ''user''"

definition BranchFilterModePrefix :: string where "BranchFilterModePrefix = ''prefix''"

definition BranchFilterModeSubtree :: string where "BranchFilterModeSubtree = ''subtree''"

definition BranchFilterModeAll :: string where "BranchFilterModeAll = ''all''"

definition BranchFilterModeExact :: string where "BranchFilterModeExact = ''exact''"

definition TimelineFilterAll :: string where "TimelineFilterAll = ''all''"

definition TimelineFilterCurrentRequest :: string where "TimelineFilterCurrentRequest = ''request''"

definition TimelineFilterCurrentInvocation :: string where
  "TimelineFilterCurrentInvocation = ''invocation''"

definition ReasoningContentModeKeepAll :: string where "ReasoningContentModeKeepAll = ''keep_all''"

definition ReasoningContentModeDiscardPreviousTurns :: string where
  "ReasoningContentModeDiscardPreviousTurns = ''discard_previous_turns''"

definition ReasoningContentModeDiscardAll :: string where
  "ReasoningContentModeDiscardAll = ''discard_all''"

lemmas mode_defs =
  BranchFilterModePrefix_def BranchFilterModeSubtree_def BranchFilterModeAll_def
  BranchFilterModeExact_def TimelineFilterAll_def TimelineFilterCurrentRequest_def
  TimelineFilterCurrentInvocation_def ReasoningContentModeKeepAll_def
  ReasoningContentModeDiscardPreviousTurns_def ReasoningContentModeDiscardAll_def
  SessionSummaryInjectionSystem_def SessionSummaryInjectionUser_def

text \<open>
  An event of a session as the processor holds it: a copy of the fields and the pointer to the
  response.  The \<open>ev_response\<close> of the fields is not used.
\<close>

type_synonym addr = nat

record hevent =
  he_fields :: event
  he_ptr :: "addr option"

text \<open>\<open>memory.Entry\<close> and \<open>memory.Memory\<close> with the fields that are read.\<close>

record memory_data =
  md_memory :: string
  md_topics :: "string list"
  md_kind :: string
  md_event_time :: "gtime option"
  md_participants :: "string list"
  md_location :: string

record memory_entry =
  me_id :: string
  me_memory :: "memory_data option"

text \<open>The two methods of \<open>memory.Service\<close> that are called; \<open>None\<close> is an error.\<close>

record memory_service =
  ReadMemories :: "string \<Rightarrow> string \<Rightarrow> int \<Rightarrow> memory_entry option list option"
  SearchMemories :: "string \<Rightarrow> string \<Rightarrow> string \<Rightarrow> int \<Rightarrow> memory_entry option list option"

record history_session =
  hs_id :: string
  hs_app :: string
  hs_user :: string
  hs_events :: "hevent list"
  hs_summaries :: "(string, summary option) gomap option"

text \<open>The fields of \<open>agent.Invocation\<close> and its run options that the processor uses.\<close>

record invocation =
  iv_id :: string
  iv_agent :: string
  iv_branch :: string
  iv_filter_key :: string
  iv_message :: message
  iv_session :: "history_session option"
  iv_memory :: "memory_service option"
  iv_request_id :: string
  iv_injected :: "message list"
  iv_runtime_state :: "(string, gval) gomap option"
  iv_state :: "(string, bool) gomap"

record processor =
  pr_branch_mode :: string
  pr_add_prefix :: bool
  pr_add_summary :: bool
  pr_summary_mode :: string
  pr_max_runs :: int
  pr_same_branch :: bool
  pr_timeline_mode :: string
  pr_reasoning_mode :: string
  pr_preload_memory :: int
  pr_preload_recall :: int
  pr_formatter :: "(string \<Rightarrow> string) option"
  pr_projector :: "(invocation \<Rightarrow> event \<Rightarrow> message \<Rightarrow> message) option"
  pr_compaction :: compaction_config
  pr_few_shot :: "(invocation \<Rightarrow> message list list) option"

type_synonym content_option = "processor \<Rightarrow> processor"

definition WithBranchFilterMode :: "string \<Rightarrow> content_option" where
  "WithBranchFilterMode mode p =
     (let mode = (if mode \<noteq> BranchFilterModeAll \<and> mode \<noteq> BranchFilterModeExact
                     \<and> mode \<noteq> BranchFilterModeSubtree
                  then BranchFilterModePrefix else mode)
      in p\<lparr>pr_branch_mode := mode\<rparr>)"

definition WithTimelineFilterMode :: "string \<Rightarrow> content_option" where
  "WithTimelineFilterMode mode p =
     (let mode = (if mode \<noteq> TimelineFilterCurrentRequest \<and> mode \<noteq> TimelineFilterCurrentInvocation
                  then TimelineFilterAll else mode)
      in p\<lparr>pr_timeline_mode := mode\<rparr>)"

definition WithAddContextPrefix :: "bool \<Rightarrow> content_option" where
  "WithAddContextPrefix b p = p\<lparr>pr_add_prefix := b\<rparr>"

definition WithAddSessionSummary :: "bool \<Rightarrow> content_option" where
  "WithAddSessionSummary b p = p\<lparr>pr_add_summary := b\<rparr>"

definition WithSessionSummaryInjectionMode :: "string \<Rightarrow> content_option" where
  "WithSessionSummaryInjectionMode mode p =
     p\<lparr>pr_summary_mode := (if mode = SessionSummaryInjectionUser then SessionSummaryInjectionUser
                            else SessionSummaryInjectionSystem)\<rparr>"

definition WithMaxHistoryRuns :: "int \<Rightarrow> content_option" where
  "WithMaxHistoryRuns n p = p\<lparr>pr_max_runs := n\<rparr>"

definition WithPreserveSameBranch :: "bool \<Rightarrow> content_option" where
  "WithPreserveSameBranch b p = p\<lparr>pr_same_branch := b\<rparr>"

definition WithReasoningContentMode :: "string \<Rightarrow> content_option" where
  "WithReasoningContentMode mode p = p\<lparr>pr_reasoning_mode := mode\<rparr>"

definition WithPreloadMemory :: "int \<Rightarrow> content_option" where
  "WithPreloadMemory n p = p\<lparr>pr_preload_memory := n\<rparr>"

definition WithPreloadSessionRecall :: "int \<Rightarrow> content_option" where
  "WithPreloadSessionRecall n p = p\<lparr>pr_preload_recall := n\<rparr>"

definition WithSummaryFormatter :: "(string \<Rightarrow> string) option \<Rightarrow> content_option" where
  "WithSummaryFormatter f p = p\<lparr>pr_formatter := f\<rparr>"

definition WithEventMessageProjector ::
    "(invocation \<Rightarrow> event \<Rightarrow> message \<Rightarrow> message) option \<Rightarrow> content_option" where
  "WithEventMessageProjector f p = p\<lparr>pr_projector := f\<rparr>"

definition WithEnableContextCompaction :: "bool \<Rightarrow> content_option" where
  "WithEnableContextCompaction b p = p\<lparr>pr_compaction := (pr_compaction p)\<lparr>cc_enabled := b\<rparr>\<rparr>"

definition WithContextCompactionKeepRecentRequests :: "int \<Rightarrow> content_option" where
  "WithContextCompactionKeepRecentRequests n p =
     p\<lparr>pr_compaction := (pr_compaction p)\<lparr>cc_keep_recent := n\<rparr>\<rparr>"

definition WithContextCompactionToolResultMaxTokens :: "int \<Rightarrow> content_option" where
  "WithContextCompactionToolResultMaxTokens n p =
     p\<lparr>pr_compaction := (pr_compaction p)\<lparr>cc_tool_max := n\<rparr>\<rparr>"

definition WithContextCompactionOversizedToolResultMaxTokens :: "int \<Rightarrow> content_option" where
  "WithContextCompactionOversizedToolResultMaxTokens n p =
     p\<lparr>pr_compaction := (pr_compaction p)\<lparr>cc_oversized_max := n\<rparr>\<rparr>"

definition WithFewShotResolver :: "(invocation \<Rightarrow> message list list) option \<Rightarrow> content_option" where
  "WithFewShotResolver f p = p\<lparr>pr_few_shot := f\<rparr>"

definition NewContentRequestProcessor :: "content_option list \<Rightarrow> processor" where
  "NewContentRequestProcessor opts =
     foldl (\<lambda>p opt. opt p)
       \<lparr>pr_branch_mode = BranchFilterModePrefix, pr_add_prefix = True, pr_add_summary = False,
        pr_summary_mode = [], pr_max_runs = 0, pr_same_branch = False,
        pr_timeline_mode = TimelineFilterAll, pr_reasoning_mode = [], pr_preload_memory = 0,
        pr_preload_recall = 0, pr_formatter = None, pr_projector = None,
        pr_compaction =
          \<lparr>cc_enabled = False, cc_keep_recent = DefaultContextCompactionKeepRecentRequests,
           cc_tool_max = DefaultContextCompactionToolResultMaxTokens,
           cc_oversized_max = DefaultContextCompactionOversizedToolResultMaxTokens\<rparr>,
        pr_few_shot = None\<rparr> opts"

section \<open>Comparing messages\<close>

text \<open>
  \<open>model/message_compare.go\<close>.  \<open>reflect.DeepEqual\<close> compares maps as maps; slices are lists here, so
  a nil slice equals an empty one, which \<open>DeepEqual\<close> tells apart.
\<close>

fun json_equal :: "gojson \<Rightarrow> gojson \<Rightarrow> bool"
  and json_list_equal :: "gojson list \<Rightarrow> gojson list \<Rightarrow> bool"
  and json_members_equal :: "(string \<times> gojson) list \<Rightarrow> (string \<times> gojson) list \<Rightarrow> bool" where
  "json_equal (JArr xs) (JArr ys) = json_list_equal xs ys"
| "json_equal (JObj xs) (JObj ys) = (length xs = length ys \<and> json_members_equal xs ys)"
| "json_equal x y = (x = y)"
| "json_list_equal (x # xs) (y # ys) = (json_equal x y \<and> json_list_equal xs ys)"
| "json_list_equal xs ys = (xs = [] \<and> ys = [])"
| "json_members_equal [] ys = True"
| "json_members_equal ((k, v) # xs) ys =
     ((case map_of ys k of None \<Rightarrow> False | Some w \<Rightarrow> json_equal v w) \<and> json_members_equal xs ys)"

definition tool_call_equal :: "tool_call \<Rightarrow> tool_call \<Rightarrow> bool" where
  "tool_call_equal a b \<longleftrightarrow>
     a\<lparr>tc_extra_fields := None\<rparr> = b\<lparr>tc_extra_fields := None\<rparr>
     \<and> (case (tc_extra_fields a, tc_extra_fields b) of
          (None, None) \<Rightarrow> True
        | (Some x, Some y) \<Rightarrow> json_equal (JObj x) (JObj y)
        | _ \<Rightarrow> False)"

definition MessagesEqual :: "message \<Rightarrow> message \<Rightarrow> bool" where
  "MessagesEqual a b \<longleftrightarrow>
     m_role a = m_role b \<and> m_content a = m_content b \<and> m_tool_id a = m_tool_id b
     \<and> m_tool_name a = m_tool_name b \<and> m_reasoning_content a = m_reasoning_content b
     \<and> m_content_parts a = m_content_parts b
     \<and> list_all2 tool_call_equal (m_tool_calls a) (m_tool_calls b)"

definition invocationMessageEqual :: "message \<Rightarrow> message \<Rightarrow> bool" where
  "invocationMessageEqual invMsg evtMsg \<longleftrightarrow>
     (if m_role invMsg = [] then
        (if m_role evtMsg \<noteq> RoleUser then False else m_content invMsg = m_content evtMsg)
      else MessagesEqual invMsg evtMsg)"

section \<open>Which events belong into a request\<close>

definition choices_of :: "event \<Rightarrow> choice list" where
  "choices_of e = (case ev_response e of None \<Rightarrow> [] | Some r \<Rightarrow> rsp_choices r)"

text \<open>
  \<open>graph.CompletionSnapshotOnlyFromStateDelta\<close>: \<open>snapshot_only\<close> is the decoder of the completion
  metadata, \<open>None\<close> when the bytes do not decode.
\<close>

definition MetadataKeyCompletion :: string where "MetadataKeyCompletion = ''_completion_metadata''"

definition CompletionSnapshotOnlyFromStateDelta ::
    "(bytes \<Rightarrow> bool option) \<Rightarrow> (string, bytes option) gomap option \<Rightarrow> bool" where
  "CompletionSnapshotOnlyFromStateDelta snapshot_only stateDelta \<longleftrightarrow>
     (case stateDelta of
        None \<Rightarrow> False
      | Some d \<Rightarrow>
          (case gget d MetadataKeyCompletion of
             None \<Rightarrow> False
           | Some None \<Rightarrow> False
           | Some (Some raw) \<Rightarrow>
               (if raw = [] then False
                else (case snapshot_only raw of None \<Rightarrow> False | Some b \<Rightarrow> b))))"

definition is_partial :: "event \<Rightarrow> bool" where
  "is_partial e = (case ev_response e of None \<Rightarrow> False | Some r \<Rightarrow> rsp_is_partial r)"

definition isEventEligibleForInclusion :: "(bytes \<Rightarrow> bool option) \<Rightarrow> event \<Rightarrow> bool" where
  "isEventEligibleForInclusion so evt \<longleftrightarrow>
     ev_response evt \<noteq> None \<and> \<not> is_partial evt \<and> IsValidContent (ev_response evt)
     \<and> \<not> CompletionSnapshotOnlyFromStateDelta so (ev_state_delta evt)"

definition isStrictInvocationMessage :: "event \<Rightarrow> invocation \<Rightarrow> bool" where
  "isStrictInvocationMessage evt iv \<longleftrightarrow>
     iv_request_id iv = ev_request_id evt
     \<and> (case choices_of evt of
          [] \<Rightarrow> False
        | c # _ \<Rightarrow> invocationMessageEqual (iv_message iv) (ch_message c))"

definition isCurrentInvocationUserMessage :: "event \<Rightarrow> invocation \<Rightarrow> bool" where
  "isCurrentInvocationUserMessage evt iv \<longleftrightarrow>
     iv_request_id iv \<noteq> [] \<and> iv_request_id iv = ev_request_id evt
     \<and> iv_id iv \<noteq> [] \<and> iv_id iv = ev_invocation evt
     \<and> (case choices_of evt of [] \<Rightarrow> False | c # _ \<Rightarrow> m_role (ch_message c) = RoleUser)"

definition passTimelineFilter :: "processor \<Rightarrow> event \<Rightarrow> invocation \<Rightarrow> bool" where
  "passTimelineFilter p evt iv \<longleftrightarrow>
     (if pr_timeline_mode p = TimelineFilterCurrentRequest then iv_request_id iv = ev_request_id evt
      else if pr_timeline_mode p = TimelineFilterCurrentInvocation then ev_invocation evt = iv_id iv
      else True)"

definition filterSubtree :: "string \<Rightarrow> string \<Rightarrow> bool" where
  "filterSubtree eventFilterKey filterKey \<longleftrightarrow>
     (if filterKey = [] \<or> eventFilterKey = [] then True
      else if eventFilterKey = filterKey then True
      else HasPrefix (eventFilterKey @ FilterKeyDelimiter) (filterKey @ FilterKeyDelimiter))"

definition passBranchFilter :: "processor \<Rightarrow> event \<Rightarrow> string \<Rightarrow> bool" where
  "passBranchFilter p evt fk \<longleftrightarrow>
     (if pr_branch_mode p = BranchFilterModeExact then ev_filter_key evt = fk
      else if pr_branch_mode p = BranchFilterModePrefix then Event_Filter (Some evt) fk
      else if pr_branch_mode p = BranchFilterModeSubtree then filterSubtree (ev_filter_key evt) fk
      else True)"

text \<open>Whether the event is in the request, and whether it is the message of the invocation.\<close>

definition shouldIncludeEvent ::
    "(bytes \<Rightarrow> bool option) \<Rightarrow> processor \<Rightarrow> event \<Rightarrow> invocation \<Rightarrow> string \<Rightarrow> gtime \<Rightarrow> bool \<times> bool" where
  "shouldIncludeEvent so p evt iv fk since =
     (if \<not> isEventEligibleForInclusion so evt then (False, False)
      else if isStrictInvocationMessage evt iv then (True, True)
      else if isCurrentInvocationUserMessage evt iv then (True, False)
      else if \<not> IsZero since \<and> \<not> ev_timestamp evt > since then (False, False)
      else if \<not> passTimelineFilter p evt iv then (False, False)
      else if \<not> passBranchFilter p evt fk then (False, False)
      else (True, False))"

definition compactedToolResultPlaceholder :: string where
  "compactedToolResultPlaceholder =
     ''Tool result omitted from raw history; details are captured in the session summary above.''"

definition compactedCurrentInvocationMessage :: "message \<Rightarrow> message option" where
  "compactedCurrentInvocationMessage msg =
     (if m_tool_calls msg \<noteq> [] then
        Some (empty_message\<lparr>m_role := m_role msg, m_content := m_content msg,
                m_content_parts := m_content_parts msg, m_tool_calls := m_tool_calls msg\<rparr>)
      else if m_role msg = RoleTool \<and> m_tool_id msg \<noteq> [] then
        Some (empty_message\<lparr>m_role := m_role msg, m_content := compactedToolResultPlaceholder,
                m_tool_id := m_tool_id msg, m_tool_name := m_tool_name msg\<rparr>)
      else None)"

definition compacted_choices :: "choice list \<Rightarrow> choice list" where
  "compacted_choices cs =
     concat (map (\<lambda>c. case compactedCurrentInvocationMessage (ch_message c) of
                        None \<Rightarrow> []
                      | Some m \<Rightarrow> [(message_choice m)\<lparr>ch_index := ch_index c\<rparr>]) cs)"

definition compactCurrentInvocationEvent ::
    "(bytes \<Rightarrow> bool option) \<Rightarrow> processor \<Rightarrow> event \<Rightarrow> invocation \<Rightarrow> string \<Rightarrow> gtime \<Rightarrow> event option" where
  "compactCurrentInvocationEvent so p evt iv fk since =
     (if IsZero since then None
      else if ev_request_id evt \<noteq> iv_request_id iv \<or> ev_invocation evt \<noteq> iv_id iv then None
      else if ev_timestamp evt > since then None
      else if \<not> isEventEligibleForInclusion so evt then None
      else if \<not> passTimelineFilter p evt iv \<or> \<not> passBranchFilter p evt fk then None
      else
        case ev_response evt of
          None \<Rightarrow> None
        | Some r \<Rightarrow>
            (if compacted_choices (rsp_choices r) = [] then None
             else Some (evt\<lparr>ev_response := Some (empty_response\<lparr>rsp_done := rsp_done r,
                          rsp_object := rsp_object r,
                          rsp_choices := compacted_choices (rsp_choices r)\<rparr>)\<rparr>)))"

text \<open>The loop of \<open>hasCompactedCurrentInvocationToolResults\<close>, over events already loaded.\<close>

definition is_compacted_tool_result ::
    "(bytes \<Rightarrow> bool option) \<Rightarrow> processor \<Rightarrow> invocation \<Rightarrow> gtime \<Rightarrow> event \<Rightarrow> bool" where
  "is_compacted_tool_result so p iv since evt \<longleftrightarrow>
     ev_request_id evt = iv_request_id iv \<and> ev_invocation evt = iv_id iv
     \<and> \<not> ev_timestamp evt > since
     \<and> isEventEligibleForInclusion so evt
     \<and> (case choices_of evt of [] \<Rightarrow> False | c # _ \<Rightarrow> m_role (ch_message c) = RoleTool)
     \<and> passBranchFilter p evt (iv_filter_key iv)"

text \<open>The error of a response that has no content becomes its content, in a clone.\<close>

definition error_content :: "response_error \<Rightarrow> string" where
  "error_content e = ''type: '' @ re_type e @ '', message: '' @ re_message e"

definition needs_error_content :: "event \<Rightarrow> bool" where
  "needs_error_content evt \<longleftrightarrow>
     (case ev_response evt of
        None \<Rightarrow> False
      | Some r \<Rightarrow>
          (case rsp_choices r of
             [] \<Rightarrow> False
           | c # _ \<Rightarrow> m_content (ch_message c) = [] \<and> rsp_error r \<noteq> None))"

definition with_error_content :: "event \<Rightarrow> event" where
  "with_error_content evt =
     (case Response_Clone (ev_response evt) of
        None \<Rightarrow> evt
      | Some r \<Rightarrow>
          (case (rsp_choices r, rsp_error r) of
             (c # cs, Some err) \<Rightarrow>
               evt\<lparr>ev_response := Some (r\<lparr>rsp_choices :=
                     c\<lparr>ch_message := (ch_message c)\<lparr>m_content := error_content err\<rparr>\<rparr> # cs\<rparr>)\<rparr>
           | _ \<Rightarrow> evt))"

definition normalizeCurrentInvocationEvent :: "event \<Rightarrow> event" where
  "normalizeCurrentInvocationEvent evt =
     (if needs_error_content evt then with_error_content evt else evt)"

definition isCurrentInvocationEligibleEvent :: "event \<Rightarrow> string \<Rightarrow> bool" where
  "isCurrentInvocationEligibleEvent evt invocationID \<longleftrightarrow>
     ev_invocation evt = invocationID \<and> ev_response evt \<noteq> None \<and> \<not> is_partial evt
     \<and> IsValidContent (ev_response evt)"

definition containsInvocationMessage :: "event list \<Rightarrow> message \<Rightarrow> bool" where
  "containsInvocationMessage events invMsg \<longleftrightarrow>
     list_ex (\<lambda>evt. case choices_of evt of [] \<Rightarrow> False | c # _ \<Rightarrow> invocationMessageEqual invMsg (ch_message c))
       events"

section \<open>Events of other agents\<close>

definition BranchDelimiter :: string where "BranchDelimiter = ''/''"

definition isOtherAgentReply :: "processor \<Rightarrow> string \<Rightarrow> string \<Rightarrow> event \<Rightarrow> bool" where
  "isOtherAgentReply p currentAgentName currentBranch evt \<longleftrightarrow>
     (if currentAgentName = [] then False
      else if ev_author evt = [] \<or> ev_author evt = ''user'' \<or> ev_author evt = currentAgentName then False
      else if pr_same_branch p \<and> currentBranch \<noteq> [] \<and> ev_branch evt \<noteq> []
              \<and> (ev_branch evt = currentBranch
                 \<or> HasPrefix (ev_branch evt) (currentBranch @ BranchDelimiter)
                 \<or> HasPrefix currentBranch (ev_branch evt @ BranchDelimiter))
      then False
      else True)"

definition contextPrefix :: string where "contextPrefix = ''For context:''"

definition mergedUserSeparator :: string where "mergedUserSeparator = [CHR 0x0A, CHR 0x0A]"

definition ContentTypeText :: string where "ContentTypeText = ''text''"

definition ContentTypeFile :: string where "ContentTypeFile = ''file''"

definition text_part :: "string \<Rightarrow> content_part" where
  "text_part s = \<lparr>cp_type = ContentTypeText, cp_text = Some s, cp_image = None, cp_audio = None,
                  cp_file = None\<rparr>"

definition foreign_call :: "processor \<Rightarrow> string \<Rightarrow> tool_call \<Rightarrow> string" where
  "foreign_call p author tc =
     (if pr_add_prefix p
      then ''['' @ author @ ''] called tool '' @ [CHR 0x60] @ fn_name (tc_function tc) @ [CHR 0x60]
           @ '' with parameters: '' @ fn_arguments (tc_function tc)
      else ''Tool '' @ [CHR 0x60] @ fn_name (tc_function tc) @ [CHR 0x60]
           @ '' called with parameters: '' @ fn_arguments (tc_function tc))"

definition foreign_contents :: "processor \<Rightarrow> string \<Rightarrow> message \<Rightarrow> string list" where
  "foreign_contents p author m =
     (if m_content m \<noteq> [] then
        [if pr_add_prefix p then ''['' @ author @ ''] said: '' @ m_content m else m_content m]
      else if m_tool_calls m \<noteq> [] then map (foreign_call p author) (m_tool_calls m)
      else if m_tool_id m \<noteq> [] then
        [if pr_add_prefix p
         then ''['' @ author @ ''] '' @ [CHR 0x60] @ m_tool_id m @ [CHR 0x60]
              @ '' tool returned result: '' @ m_content m
         else m_content m]
      else [])"

definition foreign_parts :: "processor \<Rightarrow> string \<Rightarrow> message \<Rightarrow> content_part list" where
  "foreign_parts p author m =
     (if m_content_parts m \<noteq> []
      then (if pr_add_prefix p then [text_part (''['' @ author @ ''] said:'')] else [])
           @ m_content_parts m
      else [])"

fun join_with :: "string \<Rightarrow> string list \<Rightarrow> string" where
  "join_with sep [] = []"
| "join_with sep [x] = x"
| "join_with sep (x # y # xs) = x @ sep @ join_with sep (y # xs)"

definition converted_contents :: "processor \<Rightarrow> event \<Rightarrow> string list" where
  "converted_contents p evt =
     (if pr_add_prefix p then [contextPrefix] else [])
     @ concat (map (\<lambda>c. foreign_contents p (ev_author evt) (ch_message c)) (choices_of evt))"

definition converted_parts :: "processor \<Rightarrow> event \<Rightarrow> content_part list" where
  "converted_parts p evt =
     (if pr_add_prefix p then [text_part contextPrefix] else [])
     @ concat (map (\<lambda>c. foreign_parts p (ev_author evt) (ch_message c)) (choices_of evt))"

text \<open>\<open>convertForeignEvent\<close> with the identifier of the clone as an argument.\<close>

definition convertForeignEvent :: "processor \<Rightarrow> string \<Rightarrow> event \<Rightarrow> event" where
  "convertForeignEvent p uuid evt =
     (if choices_of evt = [] then evt
      else
        case Event_Clone uuid (Some evt) of
          None \<Rightarrow> evt
        | Some converted0 \<Rightarrow>
            (let converted = converted0\<lparr>ev_author := ''user''\<rparr>
             in if converted_contents p evt \<noteq> [] \<or> converted_parts p evt \<noteq> []
                then converted\<lparr>ev_response := map_option (\<lambda>r. r\<lparr>rsp_choices :=
                       [message_choice (empty_message\<lparr>m_role := RoleUser,
                          m_content := join_with '' '' (converted_contents p evt),
                          m_content_parts := converted_parts p evt\<rparr>)]\<rparr>) (ev_response converted)\<rparr>
                else converted))"

section \<open>Messages\<close>

definition processReasoningContent :: "processor \<Rightarrow> message \<Rightarrow> string \<Rightarrow> string \<Rightarrow> message" where
  "processReasoningContent p msg messageRequestID currentRequestID =
     (if m_role msg \<noteq> RoleAssistant \<or> m_reasoning_content msg = [] then msg
      else if pr_reasoning_mode p = ReasoningContentModeDiscardAll then msg\<lparr>m_reasoning_content := []\<rparr>
      else if pr_reasoning_mode p = ReasoningContentModeKeepAll then msg
      else if messageRequestID \<noteq> currentRequestID then msg\<lparr>m_reasoning_content := []\<rparr>
      else msg)"

definition projectEventMessage :: "processor \<Rightarrow> invocation \<Rightarrow> event \<Rightarrow> message \<Rightarrow> message" where
  "projectEventMessage p iv evt msg =
     (case pr_projector p of None \<Rightarrow> msg | Some f \<Rightarrow> f iv evt msg)"

definition isEmptyAssistantMessage :: "message \<Rightarrow> bool" where
  "isEmptyAssistantMessage msg \<longleftrightarrow>
     m_role msg = RoleAssistant \<and> m_content msg = [] \<and> m_content_parts msg = []
     \<and> m_tool_calls msg = [] \<and> m_reasoning_content msg = []"

text \<open>One event; the code of \<open>getIncrementMessages\<close> and of \<open>getCurrentInvocationMessages\<close> is the same.\<close>

definition projectMessagesForEvent ::
    "processor \<Rightarrow> string \<Rightarrow> invocation \<Rightarrow> event \<Rightarrow> string \<Rightarrow> message list" where
  "projectMessagesForEvent p uuid iv evt currentRequestID =
     (let ev = (if isOtherAgentReply p (iv_agent iv) (iv_branch iv) evt
                then convertForeignEvent p uuid evt else evt)
      in filter (\<lambda>m. \<not> isEmptyAssistantMessage m)
           (map (\<lambda>c. projectEventMessage p iv evt
                       (processReasoningContent p (ch_message c) (ev_request_id evt) currentRequestID))
             (choices_of ev)))"

text \<open>The merging loop with \<open>current\<close> and \<open>merged\<close>.\<close>

definition add_to_context :: "message \<Rightarrow> message \<Rightarrow> message" where
  "add_to_context cur msg =
     (let cur = (if m_content msg \<noteq> [] then
                   (if m_content cur = [] then cur\<lparr>m_content := m_content msg\<rparr>
                    else cur\<lparr>m_content := m_content cur @ mergedUserSeparator @ m_content msg\<rparr>)
                 else cur)
      in if m_content_parts msg \<noteq> []
         then cur\<lparr>m_content_parts := m_content_parts cur @ m_content_parts msg\<rparr> else cur)"

definition is_context_message :: "message \<Rightarrow> bool" where
  "is_context_message m \<longleftrightarrow> m_role m = RoleUser \<and> HasPrefix (m_content m) contextPrefix"

fun merge_loop :: "message option \<Rightarrow> message list \<Rightarrow> message list" where
  "merge_loop None [] = []"
| "merge_loop (Some cur) [] = [cur]"
| "merge_loop current (msg # msgs) =
     (if \<not> is_context_message msg
      then (case current of None \<Rightarrow> [] | Some cur \<Rightarrow> [cur]) @ msg # merge_loop None msgs
      else (case current of
              None \<Rightarrow> merge_loop (Some msg) msgs
            | Some cur \<Rightarrow> merge_loop (Some (add_to_context cur msg)) msgs))"

definition mergeUserMessages :: "processor \<Rightarrow> message list \<Rightarrow> message list" where
  "mergeUserMessages p messages =
     (if length messages \<le> 1 then messages
      else if \<not> pr_add_prefix p then messages
      else let merged = merge_loop None messages in if merged = [] then messages else merged)"

definition is_tool_result :: "message \<Rightarrow> bool" where
  "is_tool_result m \<longleftrightarrow> m_role m = RoleTool \<and> m_tool_id m \<noteq> []"

definition call_ids :: "message \<Rightarrow> string list" where
  "call_ids m = map tc_id (m_tool_calls m)"

definition applyMaxHistoryRuns :: "message list \<Rightarrow> int \<Rightarrow> message list" where
  "applyMaxHistoryRuns messages maxRuns =
     (if int (length messages) \<le> maxRuns then messages
      else
        let startIdx = nat (int (length messages) - maxRuns);
            rest = drop startIdx messages
        in case rest of
             [] \<Rightarrow> []
           | m # _ \<Rightarrow>
               (if \<not> is_tool_result m then rest
                else
                  let truncatedToolIDs =
                        filter (\<lambda>i. i \<noteq> []) (concat (map call_ids (take startIdx messages)))
                  in dropWhile (\<lambda>m. is_tool_result m \<and> m_tool_id m \<in> set truncatedToolIDs) rest))"

definition truncateOversizedToolResultMessages :: "processor \<Rightarrow> message list \<Rightarrow> message list" where
  "truncateOversizedToolResultMessages p messages =
     (if cc_oversized_max (pr_compaction p) \<le> 0 then messages
      else map (\<lambda>m. let (m', truncated, _) =
                          truncateOversizedToolResultMessage m (cc_oversized_max (pr_compaction p))
                    in if truncated then m' else m) messages)"

section \<open>Attached files\<close>

definition attachedFilesAnnotationPrefix :: string where
  "attachedFilesAnnotationPrefix = ''Attached files''"

definition attachedFilesMaxPreview :: nat where "attachedFilesMaxPreview = 20"

definition hostRefPrefix :: string where "hostRefPrefix = ''host://''"

definition ignoredAttachmentMimeType :: string where
  "ignoredAttachmentMimeType = ''application/octet-stream''"

definition ArtifactPrefix :: string where "ArtifactPrefix = ''artifact://''"

definition WorkspacePrefix :: string where "WorkspacePrefix = ''workspace://''"

text \<open>\<open>path.Base\<close> of the standard library; \<open>filepath.IsAbs\<close> is the Unix one.\<close>

definition path_Base :: "string \<Rightarrow> string" where
  "path_Base s =
     (if s = [] then ''.''
      else let t = rev (dropWhile (\<lambda>c. c = CHR ''/'') (rev s));
               b = rev (takeWhile (\<lambda>c. c \<noteq> CHR ''/'') (rev t))
           in if b = [] then ''/'' else b)"

abbreviation IsAbs :: "string \<Rightarrow> bool" where
  "IsAbs s \<equiv> HasPrefix s ''/''"

text \<open>\<open>codeexecutor/artifacts.go\<close>: the version is a 64-bit integer that may wrap around.\<close>

definition isDecimalVersion :: "string \<Rightarrow> bool" where
  "isDecimalVersion s \<longleftrightarrow>
     s \<noteq> [] \<and> list_all (\<lambda>c. 48 \<le> (of_char c :: nat) \<and> (of_char c :: nat) \<le> 57) s"

definition parseDecimalVersion :: "string \<Rightarrow> 64 word" where
  "parseDecimalVersion s = foldl (\<lambda>v c. v * 10 + of_nat (of_char c - 48)) 0 s"

definition ParseArtifactRef :: "string \<Rightarrow> (string \<times> 64 word option) option" where
  "ParseArtifactRef ref =
     (if CHR ''@'' \<notin> set ref then Some (ref, None)
      else
        let sfx = rev (takeWhile (\<lambda>c. c \<noteq> CHR ''@'') (rev ref));
            nm = take (length ref - length sfx - 1) ref
        in if sfx = [] then Some (ref, None)
           else if \<not> isDecimalVersion sfx then Some (ref, None)
           else if TrimSpace nm = [] then None
           else Some (nm, Some (parseDecimalVersion sfx)))"

definition proper_base :: "string \<Rightarrow> string" where
  "proper_base b = (if b = ''.'' \<or> b = ''/'' \<or> b = ''..'' then [] else b)"

definition baseNameForAnnotation :: "string \<Rightarrow> string" where
  "baseNameForAnnotation raw = proper_base (path_Base (TrimSpace raw))"

definition fileNameFromArtifactRef :: "string \<Rightarrow> string" where
  "fileNameFromArtifactRef fileID =
     (let s = TrimSpace fileID in
      if \<not> HasPrefix s ArtifactPrefix then []
      else case ParseArtifactRef (TrimPrefix s ArtifactPrefix) of
             None \<Rightarrow> []
           | Some (nm, _) \<Rightarrow> proper_base (path_Base (TrimSpace nm)))"

definition annotationRefDisplay :: "string \<Rightarrow> string" where
  "annotationRefDisplay fileID =
     (let ref = TrimSpace fileID in
      if ref = [] then []
      else if HasPrefix ref ArtifactPrefix \<or> HasPrefix ref WorkspacePrefix then ref
      else [])"

definition fileNameFromAnnotationRef :: "string \<Rightarrow> string" where
  "fileNameFromAnnotationRef fileID =
     (let nm = fileNameFromArtifactRef fileID; ref = TrimSpace fileID in
      if nm \<noteq> [] then nm
      else if HasPrefix ref hostRefPrefix then baseNameForAnnotation (TrimPrefix ref hostRefPrefix)
      else if IsAbs ref then baseNameForAnnotation ref
      else [])"

definition fileMimeLabel :: "file_part \<Rightarrow> string" where
  "fileMimeLabel f =
     (let mt = TrimSpace (file_mime_type f) in
      if mt = [] \<or> mt = ignoredAttachmentMimeType then [] else mt)"

definition fileLabelForAnnotation :: "file_part \<Rightarrow> nat \<Rightarrow> string" where
  "fileLabelForAnnotation f n =
     (let nm = TrimSpace (file_name f);
          nm = (if nm = [] then fileNameFromAnnotationRef (file_id f) else nm);
          nm = (if nm = [] then ''upload_'' @ show_nat n else nm);
          mt = fileMimeLabel f;
          nm = (if mt \<noteq> [] then nm @ '' ('' @ mt @ '')'' else nm);
          ref = annotationRefDisplay (file_id f)
      in if ref = [] \<or> ref = nm then nm else nm @ '' @ '' @ ref)"

text \<open>The names shown and the number of files.\<close>

fun fileNamesForAnnotation_from :: "string list \<Rightarrow> nat \<Rightarrow> content_part list \<Rightarrow> string list \<times> nat" where
  "fileNamesForAnnotation_from nms n [] = (nms, n)"
| "fileNamesForAnnotation_from nms n (q # qs) =
     (case cp_file q of
        None \<Rightarrow> fileNamesForAnnotation_from nms n qs
      | Some f \<Rightarrow>
          (if cp_type q \<noteq> ContentTypeFile then fileNamesForAnnotation_from nms n qs
           else if length nms \<ge> attachedFilesMaxPreview
           then fileNamesForAnnotation_from nms (n + 1) qs
           else fileNamesForAnnotation_from (nms @ [fileLabelForAnnotation f (n + 1)]) (n + 1) qs))"

definition fileNamesForAnnotation :: "content_part list \<Rightarrow> string list \<times> nat" where
  "fileNamesForAnnotation parts = fileNamesForAnnotation_from [] 0 parts"

definition buildAttachedFilesAnnotationText :: "content_part list \<Rightarrow> string" where
  "buildAttachedFilesAnnotationText parts =
     (let (nms, n) = fileNamesForAnnotation parts in
      if n = 0 then []
      else attachedFilesAnnotationPrefix @ '' ('' @ show_nat n @ ''): ''
           @ join_with '', '' nms
           @ (if n > length nms then '' (+'' @ show_nat (n - length nms) @ '' more)'' else [])
           @ [CHR 0x0A])"

definition hasAttachedFilesAnnotation :: "content_part list \<Rightarrow> bool" where
  "hasAttachedFilesAnnotation parts \<longleftrightarrow>
     list_ex (\<lambda>q. cp_type q = ContentTypeText
                  \<and> (case cp_text q of
                       None \<Rightarrow> False
                     | Some s \<Rightarrow> HasPrefix (TrimSpace s) attachedFilesAnnotationPrefix)) parts"

definition annotateUserMessageWithAttachedFiles :: "message \<Rightarrow> message" where
  "annotateUserMessageWithAttachedFiles msg =
     (if m_role msg \<noteq> RoleUser \<and> m_role msg \<noteq> [] then msg
      else if m_content_parts msg = [] then msg
      else if hasAttachedFilesAnnotation (m_content_parts msg) then msg
      else
        let s = buildAttachedFilesAnnotationText (m_content_parts msg) in
        if s = [] then msg else msg\<lparr>m_content_parts := text_part s # m_content_parts msg\<rparr>)"

definition annotateUserMessagesWithAttachedFiles :: "message list \<Rightarrow> message list" where
  "annotateUserMessagesWithAttachedFiles = map annotateUserMessageWithAttachedFiles"

end
