(* ===== verification/Content_History.thy ===== *)
theory Content_History
  imports Content_Data
begin

text \<open>
  The history of a request (\<open>internal/flow/processor/content.go\<close>): the events of the session that
  belong into it, the rearranging that puts the results of tools behind their calls, and the
  messages made of them.

  A session stores its events with a pointer to their response, and an event that is copied still
  points to the same response.  \<open>mergeFunctionResponseEvents\<close> writes through such a pointer, so the
  responses are on a heap: an address is a position of the list, an allocation appends to it.  All
  other functions write into fresh responses only.  Locks are left out.
\<close>

section \<open>The heap\<close>

type_synonym heap = "response list"

definition rsp_at :: "heap \<Rightarrow> hevent \<Rightarrow> response option" where
  "rsp_at h e = map_option (\<lambda>a. h ! a) (he_ptr e)"

definition load :: "heap \<Rightarrow> hevent \<Rightarrow> event" where
  "load h e = (he_fields e)\<lparr>ev_response := rsp_at h e\<rparr>"

text \<open>An event with a response of its own.\<close>

definition place :: "heap \<Rightarrow> event \<Rightarrow> heap \<times> hevent" where
  "place h ev =
     (case ev_response ev of
        None \<Rightarrow> (h, \<lparr>he_fields = ev, he_ptr = None\<rparr>)
      | Some r \<Rightarrow> (h @ [r], \<lparr>he_fields = ev\<lparr>ev_response := None\<rparr>, he_ptr = Some (length h)\<rparr>))"

section \<open>Collecting the events\<close>

text \<open>One round of the loop of \<open>getIncrementMessages\<close>: heap, events, whether the message was seen.\<close>

definition increment_step ::
    "(bytes \<Rightarrow> bool option) \<Rightarrow> processor \<Rightarrow> invocation \<Rightarrow> gtime \<Rightarrow> hevent
     \<Rightarrow> heap \<times> hevent list \<times> bool \<Rightarrow> heap \<times> hevent list \<times> bool" where
  "increment_step so p iv since e st =
     (let (h, events, included) = st; ev = load h e in
      case compactCurrentInvocationEvent so p ev iv (iv_filter_key iv) since of
        Some c \<Rightarrow> (let (h', e') = place h c in (h', events @ [e'], included))
      | None \<Rightarrow>
          (let (inc, isInvocationMessage) = shouldIncludeEvent so p ev iv (iv_filter_key iv) since in
           if \<not> inc then st
           else
             let (h', e') = (if needs_error_content ev then place h (with_error_content ev) else (h, e))
             in (h', events @ [e'], included \<or> isInvocationMessage)))"

definition current_step :: "invocation \<Rightarrow> hevent \<Rightarrow> heap \<times> hevent list \<Rightarrow> heap \<times> hevent list" where
  "current_step iv e st =
     (let (h, events) = st; ev = load h e in
      if \<not> isCurrentInvocationEligibleEvent ev (iv_id iv) then st
      else
        let (h', e') = (if needs_error_content ev then place h (normalizeCurrentInvocationEvent ev)
                        else (h, e))
        in (h', events @ [e']))"

definition collectCurrentInvocationEvents ::
    "invocation \<Rightarrow> history_session \<Rightarrow> heap \<Rightarrow> heap \<times> hevent list" where
  "collectCurrentInvocationEvents iv s h = fold (current_step iv) (hs_events s) (h, [])"

definition user_event :: "string \<Rightarrow> gtime \<Rightarrow> invocation \<Rightarrow> event" where
  "user_event uuid now iv =
     (NewResponseEvent uuid now (iv_id iv) ''user''
        (Some (empty_response\<lparr>rsp_choices := [message_choice (iv_message iv)]\<rparr>)) [])
     \<lparr>ev_request_id := iv_request_id iv\<rparr>"

definition of_invocation :: "invocation \<Rightarrow> hevent \<Rightarrow> bool" where
  "of_invocation iv e \<longleftrightarrow>
     ev_request_id (he_fields e) = iv_request_id iv \<and> ev_invocation (he_fields e) = iv_id iv"

text \<open>Before the first event of the same request and invocation, or at the end.\<close>

definition insertInvocationMessage ::
    "string \<Rightarrow> gtime \<Rightarrow> heap \<Rightarrow> hevent list \<Rightarrow> invocation \<Rightarrow> heap \<times> hevent list" where
  "insertInvocationMessage uuid now h events iv =
     (if \<not> HasPayload (iv_message iv) then (h, events)
      else
        let (h', u) = place h (user_event uuid now iv) in
        if events = [] then (h', [u])
        else
          let before = takeWhile (\<lambda>e. \<not> of_invocation iv e) events;
              after = dropWhile (\<lambda>e. \<not> of_invocation iv e) events
          in (if after = [] then (h', events @ [u]) else (h', before @ u # after)))"

section \<open>Rearranging tool results\<close>

text \<open>\<open>mergedEvent.Response.Choices = allChoices\<close> writes into the response of the first event.\<close>

definition result_choices :: "heap \<Rightarrow> hevent \<Rightarrow> choice list" where
  "result_choices h e =
     filter (\<lambda>c. m_content (ch_message c) \<noteq> [] \<and> m_tool_id (ch_message c) \<noteq> []) (choices_of (load h e))"

definition mergeFunctionResponseEvents :: "heap \<Rightarrow> hevent list \<Rightarrow> heap \<times> hevent" where
  "mergeFunctionResponseEvents h es =
     (case es of
        [] \<Rightarrow> (h, \<lparr>he_fields = empty_event, he_ptr = None\<rparr>)
      | base # _ \<Rightarrow>
          (let allChoices = concat (map (result_choices h) es) in
           case he_ptr base of
             None \<Rightarrow> (h, base)
           | Some a \<Rightarrow>
               (if allChoices \<noteq> [] then (h[a := (h ! a)\<lparr>rsp_choices := allChoices\<rparr>], base)
                else (h, base))))"

text \<open>The newest event below an index that fits.\<close>

fun find_back :: "('a \<Rightarrow> bool) \<Rightarrow> 'a list \<Rightarrow> nat \<Rightarrow> nat option" where
  "find_back P xs 0 = None"
| "find_back P xs (Suc i) = (if P (xs ! i) then Some i else find_back P xs i)"

abbreviation shares :: "string list \<Rightarrow> string list \<Rightarrow> bool" where
  "shares ids ids' \<equiv> list_ex (\<lambda>i. i \<in> set ids') ids"

definition rearrangeLatestFuncResp :: "heap \<Rightarrow> hevent list \<Rightarrow> heap \<times> hevent list" where
  "rearrangeLatestFuncResp h events =
     (if events = [] then (h, events)
      else if \<not> IsToolResultResponse (rsp_at h (last events)) then (h, events)
      else
        let responseIDs = GetToolResultIDs (rsp_at h (last events)) in
        if responseIDs = [] then (h, events)
        else
          case find_back (\<lambda>e. IsToolCallResponse (rsp_at h e)
                              \<and> shares responseIDs (GetToolCallIDs (rsp_at h e)))
                 events (length events - 1) of
            None \<Rightarrow> (h, events)
          | Some i \<Rightarrow>
              (let responses = filter (\<lambda>e. IsToolResultResponse (rsp_at h e)
                                           \<and> shares responseIDs (GetToolResultIDs (rsp_at h e)))
                                 (drop (i + 1) events);
                   kept = take (i + 1) events
               in if responses \<noteq> []
                  then (let (h', merged) = mergeFunctionResponseEvents h responses in (h', kept @ [merged]))
                  else (h, kept)))"

text \<open>The map from a call's identifier to the index of the last event with its result.\<close>

fun response_index :: "heap \<Rightarrow> nat \<Rightarrow> hevent list \<Rightarrow> (string, nat) gomap \<Rightarrow> (string, nat) gomap" where
  "response_index h i [] m = m"
| "response_index h i (e # es) m =
     response_index h (i + 1) es
       (if IsToolResultResponse (rsp_at h e)
        then foldl (\<lambda>m rid. gput rid i m) m (GetToolResultIDs (rsp_at h e)) else m)"

fun async_loop :: "(string, nat) gomap \<Rightarrow> hevent list \<Rightarrow> heap \<Rightarrow> hevent list \<Rightarrow> heap \<times> hevent list" where
  "async_loop idx events h [] = (h, [])"
| "async_loop idx events h (e # rest) =
     (if IsToolResultResponse (rsp_at h e) then async_loop idx events h rest
      else if IsToolCallResponse (rsp_at h e) then
        (case dedup_seen [] (List.map_filter (gget idx) (GetToolCallIDs (rsp_at h e))) of
           [] \<Rightarrow> (let (h', out) = async_loop idx events h rest in (h', e # out))
         | [i] \<Rightarrow> (let (h', out) = async_loop idx events h rest in (h', e # (events ! i) # out))
         | i # j # is \<Rightarrow>
             (let (h1, merged) = mergeFunctionResponseEvents h (map (\<lambda>i. events ! i) (i # j # is));
                  (h', out) = async_loop idx events h1 rest
              in (h', e # merged # out)))
      else (let (h', out) = async_loop idx events h rest in (h', e # out)))"

definition rearrangeAsyncFuncRespHist :: "heap \<Rightarrow> hevent list \<Rightarrow> heap \<times> hevent list" where
  "rearrangeAsyncFuncRespHist h events = async_loop (response_index h 0 events []) events h events"

section \<open>The messages\<close>

definition getIncrementMessages ::
    "(bytes \<Rightarrow> bool option) \<Rightarrow> processor \<Rightarrow> string \<Rightarrow> gtime \<Rightarrow> heap \<Rightarrow> invocation \<Rightarrow> gtime
     \<Rightarrow> heap \<times> message list" where
  "getIncrementMessages so p uuid now h0 iv since =
     (case iv_session iv of
        None \<Rightarrow> (h0, [])
      | Some s \<Rightarrow>
          (let (h1, events1, included) = fold (increment_step so p iv since) (hs_events s) (h0, [], False);
               (h2, events2) = (if \<not> included \<and> HasPayload (iv_message iv)
                                then insertInvocationMessage uuid now h1 events1 iv else (h1, events1));
               (h3, events3) = rearrangeLatestFuncResp h2 events2;
               (h4, events4) = rearrangeAsyncFuncRespHist h3 events3;
               evs = map (load h4) events4;
               evs = (if pr_timeline_mode p = TimelineFilterAll
                      then fst (compactIncrementEvents evs (iv_request_id iv) (iv_id iv) (pr_compaction p))
                      else evs);
               messages = concat (map (\<lambda>e. projectMessagesForEvent p uuid iv e (iv_request_id iv)) evs);
               messages = mergeUserMessages p messages;
               messages = (if \<not> pr_add_summary p \<and> 0 < pr_max_runs p
                           then applyMaxHistoryRuns messages (pr_max_runs p) else messages)
           in (h4, annotateUserMessagesWithAttachedFiles messages)))"

definition projectCurrentInvocationMessages ::
    "processor \<Rightarrow> string \<Rightarrow> invocation \<Rightarrow> heap \<Rightarrow> hevent list \<Rightarrow> heap \<times> message list" where
  "projectCurrentInvocationMessages p uuid iv h events =
     (let (h1, events1) = rearrangeLatestFuncResp h events;
          (h2, events2) = rearrangeAsyncFuncRespHist h1 events1
      in (h2, concat (map (\<lambda>e. projectMessagesForEvent p uuid iv (load h2 e) (iv_request_id iv)) events2)))"

definition getCurrentInvocationMessages ::
    "processor \<Rightarrow> string \<Rightarrow> gtime \<Rightarrow> heap \<Rightarrow> invocation \<Rightarrow> heap \<times> message list" where
  "getCurrentInvocationMessages p uuid now h0 iv =
     (case iv_session iv of
        None \<Rightarrow> (h0, [])
      | Some s \<Rightarrow>
          (let (h1, events1) = collectCurrentInvocationEvents iv s h0;
               (h2, events2) = (if \<not> containsInvocationMessage (map (load h1) events1) (iv_message iv)
                                   \<and> HasPayload (iv_message iv)
                                then insertInvocationMessage uuid now h1 events1 iv else (h1, events1));
               (h3, messages) = projectCurrentInvocationMessages p uuid iv h2 events2;
               messages = mergeUserMessages p messages;
               messages = truncateOversizedToolResultMessages p messages
           in (h3, annotateUserMessagesWithAttachedFiles messages)))"

definition hasCompactedCurrentInvocationToolResults ::
    "(bytes \<Rightarrow> bool option) \<Rightarrow> processor \<Rightarrow> heap \<Rightarrow> invocation \<Rightarrow> gtime \<Rightarrow> bool" where
  "hasCompactedCurrentInvocationToolResults so p h iv since \<longleftrightarrow>
     (case iv_session iv of
        None \<Rightarrow> False
      | Some s \<Rightarrow>
          (if IsZero since then False
           else if iv_request_id iv = [] \<or> iv_id iv = [] then False
           else list_ex (\<lambda>e. is_compacted_tool_result so p iv since (load h e)) (hs_events s)))"

end
