(* ===== verification/Content_Request.thy ===== *)
theory Content_Request
  imports Content_History
begin

text \<open>
  \<open>ProcessRequest\<close> of \<open>internal/flow/processor/content.go\<close>: what goes into a model request besides the
  history - injected context, few-shot examples, preloaded memories and the session summary - and
  where it goes.  The request is the list of its messages, the state of the invocation a map of
  flags.  The search over other sessions has scores in floating point; its message is an argument.
  Logging and the event that is emitted at the end are left out.
\<close>

section \<open>System messages\<close>

text \<open>The first system message takes the text, or a new one comes to the front.\<close>

fun add_to_system :: "string \<Rightarrow> message list \<Rightarrow> message list option" where
  "add_to_system c [] = None"
| "add_to_system c (m # ms) =
     (if m_role m = RoleSystem
      then Some (m\<lparr>m_content := (if m_content m = [] then c else m_content m @ mergedUserSeparator @ c)\<rparr> # ms)
      else map_option ((#) m) (add_to_system c ms))"

definition injectSystemContextMessage :: "message list \<Rightarrow> message \<Rightarrow> message list" where
  "injectSystemContextMessage req msg =
     (if m_role msg \<noteq> RoleSystem then req
      else case add_to_system (m_content msg) req of
             None \<Rightarrow> msg # req
           | Some req' \<Rightarrow> req')"

definition injectInjectedContextMessages :: "invocation \<Rightarrow> message list \<Rightarrow> message list" where
  "injectInjectedContextMessages iv req =
     (if iv_injected iv = [] then req else req @ iv_injected iv)"

definition flattenFewShotMessages :: "message list list \<Rightarrow> message list" where
  "flattenFewShotMessages examples = concat examples"

text \<open>\<open>internal/flow/fewshot.go\<close>: behind the leading system messages.\<close>

definition InsertFewShotMessages :: "message list \<Rightarrow> message list list \<Rightarrow> message list" where
  "InsertFewShotMessages messages examples =
     (let fewShot = flattenFewShotMessages examples in
      if fewShot = [] then messages
      else takeWhile (\<lambda>m. m_role m = RoleSystem) messages @ fewShot
           @ dropWhile (\<lambda>m. m_role m = RoleSystem) messages)"

definition injectFewShotMessages :: "processor \<Rightarrow> invocation \<Rightarrow> message list \<Rightarrow> message list" where
  "injectFewShotMessages p iv req =
     (case pr_few_shot p of
        None \<Rightarrow> req
      | Some resolver \<Rightarrow>
          (let examples = resolver iv in
           if examples = [] then req else InsertFewShotMessages req examples))"

section \<open>Summaries\<close>

text \<open>All summaries of keys below the prefix, in the order of the keys, and the newest time.\<close>

definition aggregatePrefixSummaries :: "(string, summary option) gomap \<Rightarrow> string \<Rightarrow> string \<times> gtime" where
  "aggregatePrefixSummaries summaries pfx =
     (let found = concat (map (\<lambda>key.
            case gget summaries key of
              Some (Some s) \<Rightarrow>
                (if sum_text s \<noteq> [] \<and> (key = pfx \<or> HasPrefix (key @ FilterKeyDelimiter) (pfx @ FilterKeyDelimiter))
                 then [s] else [])
            | _ \<Rightarrow> []) (sort (gkeys summaries)));
          latest = foldl (\<lambda>t s. if sum_updated_at s > t then sum_updated_at s else t) 0 found
      in if found = [] then ([], 0) else (join_with mergedUserSeparator (map sum_text found), latest))"

definition getSessionSummaryText :: "processor \<Rightarrow> invocation \<Rightarrow> string \<times> gtime" where
  "getSessionSummaryText p iv =
     (case iv_session iv of
        None \<Rightarrow> ([], 0)
      | Some s \<Rightarrow>
          (case hs_summaries s of
             None \<Rightarrow> ([], 0)
           | Some summaries \<Rightarrow>
               (let fk = (if pr_branch_mode p = BranchFilterModeAll then [] else iv_filter_key iv);
                    aggregated = (if pr_branch_mode p = BranchFilterModePrefix \<and> fk \<noteq> []
                                  then aggregatePrefixSummaries summaries fk else ([], 0))
                in case gget summaries fk of
                     Some (Some x) \<Rightarrow>
                       (if sum_text x \<noteq> [] then (sum_text x, sum_updated_at x) else aggregated)
                   | _ \<Rightarrow> aggregated)))"

definition lines_of :: "string list \<Rightarrow> string" where
  "lines_of ls = concat (map (\<lambda>l. l @ [CHR 0x0A]) ls)"

definition formatSummaryForUser :: "processor \<Rightarrow> string \<Rightarrow> string" where
  "formatSummaryForUser p s =
     (case pr_formatter p of
        Some f \<Rightarrow> f s
      | None \<Rightarrow>
          lines_of [''Context from previous interactions:'', '''', ''<summary_of_previous_interactions>'', s,
            ''</summary_of_previous_interactions>'', '''',
            ''Treat this as background context. If it conflicts with this conversation, ''
            @ ''prefer this conversation.''])"

definition formatSummary :: "processor \<Rightarrow> string \<Rightarrow> string" where
  "formatSummary p s =
     (case pr_formatter p of
        Some f \<Rightarrow> f s
      | None \<Rightarrow>
          lines_of [''Here is a brief summary of your previous interactions:'', '''',
            ''<summary_of_previous_interactions>'', s, ''</summary_of_previous_interactions>'', '''',
            ''Note: this information is from previous interactions and may be outdated. ''
            @ ''You should ALWAYS prefer information from this conversation over the past summary.''])"

definition getSessionSummaryMessage :: "processor \<Rightarrow> invocation \<Rightarrow> message option \<times> gtime" where
  "getSessionSummaryMessage p iv =
     (let (s, updatedAt) = getSessionSummaryText p iv in
      if s = [] then (None, 0) else (Some (NewSystemMessage (formatSummary p s)), updatedAt))"

text \<open>The first user message of the history takes the summary in front of its text.\<close>

fun add_to_first_user :: "string \<Rightarrow> message list \<Rightarrow> message list option" where
  "add_to_first_user c [] = None"
| "add_to_first_user c (m # ms) =
     (if m_role m = RoleUser
      then Some (m\<lparr>m_content := (if m_content m = [] then c else c @ mergedUserSeparator @ m_content m)\<rparr> # ms)
      else map_option ((#) m) (add_to_first_user c ms))"

text \<open>The messages and the prefix, whose last message may take the summary.\<close>

definition prependSummaryUserMessage ::
    "processor \<Rightarrow> string \<Rightarrow> message list \<Rightarrow> message list \<Rightarrow> message list \<times> message list" where
  "prependSummaryUserMessage p summaryText messages reqPrefix =
     (if summaryText = [] then (messages, reqPrefix)
      else
        let formatted = formatSummaryForUser p summaryText in
        if formatted = [] then (messages, reqPrefix)
        else
          case add_to_first_user formatted messages of
            Some merged \<Rightarrow> (merged, reqPrefix)
          | None \<Rightarrow>
              (if reqPrefix \<noteq> [] \<and> m_role (last reqPrefix) = RoleUser
               then (messages, butlast reqPrefix @
                      [(last reqPrefix)\<lparr>m_content :=
                          (if m_content (last reqPrefix) = [] then formatted
                           else m_content (last reqPrefix) @ mergedUserSeparator @ formatted)\<rparr>])
               else (NewUserMessage formatted # messages, reqPrefix)))"

section \<open>Memories\<close>

text \<open>
  \<open>Format("2006-01-02")\<close> of a time in UTC: the days since the first of January of year 1, counted
  from the first of March of year 0, so that a leap day ends a year.
\<close>

definition pad :: "nat \<Rightarrow> nat \<Rightarrow> string" where
  "pad w n = (let s = show_nat n in replicate (w - length s) CHR ''0'' @ s)"

definition civil_date :: "int \<Rightarrow> int \<times> int \<times> int" where
  "civil_date days =
     (let z = days + 306;
          era = z div 146097;
          doe = z mod 146097;
          yoe = (doe - doe div 1460 + doe div 36524 - doe div 146096) div 365;
          doy = doe - (365 * yoe + yoe div 4 - yoe div 100);
          mp = (5 * doy + 2) div 153;
          d = doy - (153 * mp + 2) div 5 + 1;
          m = (if mp < 10 then mp + 3 else mp - 9)
      in (yoe + era * 400 + (if m \<le> 2 then 1 else 0), m, d))"

definition format_date :: "gtime \<Rightarrow> string" where
  "format_date t =
     (let (y, m, d) = civil_date (t div (86400 * 1000000000))
      in (if y < 0 then ''-'' else []) @ pad 4 (nat \<bar>y\<bar>) @ ''-'' @ pad 2 (nat m) @ ''-'' @ pad 2 (nat d))"

lemma civil_date_samples:
  "civil_date 0 = (1, 1, 1)" "civil_date 738944 = (2024, 2, 29)" "civil_date 738945 = (2024, 3, 1)"
  by code_simp+

definition memory_line :: "memory_entry option \<Rightarrow> string" where
  "memory_line mem =
     (case mem of
        None \<Rightarrow> []
      | Some e \<Rightarrow>
          (case me_memory e of
             None \<Rightarrow> []
           | Some d \<Rightarrow>
               (let meta =
                      (if md_kind d \<noteq> [] then [''kind='' @ md_kind d] else [])
                      @ (case md_event_time d of None \<Rightarrow> [] | Some t \<Rightarrow> [''date='' @ format_date t])
                      @ (if md_participants d \<noteq> [] then [''with='' @ join_with '', '' (md_participants d)] else [])
                      @ (if md_location d \<noteq> [] then [''at='' @ md_location d] else [])
                      @ (if md_topics d \<noteq> [] then [''topics='' @ join_with '', '' (md_topics d)] else [])
                in ''- ['' @ me_id e @ ''] '' @ md_memory d
                   @ (if meta \<noteq> [] then '' ('' @ join_with ''; '' meta @ '')'' else [])
                   @ [CHR 0x0A])))"

definition formatMemoryContent :: "memory_entry option list \<Rightarrow> string" where
  "formatMemoryContent memories =
     ''## User Memories'' @ mergedUserSeparator
     @ ''The following are stored memories about the user. ''
     @ ''Use these to answer questions. Episodic memories include ''
     @ ''event details (time, participants, location).'' @ mergedUserSeparator
     @ concat (map memory_line memories)"

definition newPreloadMemoryMessage :: "memory_entry option list \<Rightarrow> message option" where
  "newPreloadMemoryMessage memories =
     (if memories = [] then None else Some (NewSystemMessage (formatMemoryContent memories)))"

definition loadPreloadMemoryMessage :: "memory_service \<Rightarrow> string \<Rightarrow> string \<Rightarrow> int \<Rightarrow> message option" where
  "loadPreloadMemoryMessage ms app user limit =
     (case ReadMemories ms app user limit of
        None \<Rightarrow> None
      | Some memories \<Rightarrow> newPreloadMemoryMessage memories)"

definition trimmed_texts :: "content_part list \<Rightarrow> string list" where
  "trimmed_texts parts =
     filter (\<lambda>s. s \<noteq> []) (map TrimSpace (concat (map (\<lambda>q.
       if cp_type q \<noteq> ContentTypeText then [] else case cp_text q of None \<Rightarrow> [] | Some s \<Rightarrow> [s]) parts)))"

definition buildPreloadSearchQuery :: "message \<Rightarrow> string" where
  "buildPreloadSearchQuery msg =
     TrimSpace (join_with [CHR 0x0A]
       ((if TrimSpace (m_content msg) \<noteq> [] then [TrimSpace (m_content msg)] else [])
        @ trimmed_texts (m_content_parts msg)))"

definition getAdaptivePreloadMemoryMessage ::
    "memory_service \<Rightarrow> message \<Rightarrow> string \<Rightarrow> string \<Rightarrow> int \<Rightarrow> message option" where
  "getAdaptivePreloadMemoryMessage ms msg app user budget =
     (case ReadMemories ms app user (budget + 1) of
        None \<Rightarrow> None
      | Some probeEntries \<Rightarrow>
          (if probeEntries = [] then None
           else if int (length probeEntries) \<le> budget then newPreloadMemoryMessage probeEntries
           else
             let query = buildPreloadSearchQuery msg in
             if query = [] then loadPreloadMemoryMessage ms app user budget
             else case SearchMemories ms app user query budget of
                    None \<Rightarrow> loadPreloadMemoryMessage ms app user budget
                  | Some memories \<Rightarrow>
                      (if memories = [] then loadPreloadMemoryMessage ms app user budget
                       else newPreloadMemoryMessage memories)))"

definition getPreloadMemoryMessage :: "processor \<Rightarrow> invocation \<Rightarrow> message option" where
  "getPreloadMemoryMessage p iv =
     (case (iv_memory iv, iv_session iv) of
        (Some ms, Some s) \<Rightarrow>
          (if hs_app s = [] \<or> hs_user s = [] then None
           else if pr_preload_memory p = 0 then None
           else if pr_preload_memory p < 0 then loadPreloadMemoryMessage ms (hs_app s) (hs_user s) 0
           else getAdaptivePreloadMemoryMessage ms (iv_message iv) (hs_app s) (hs_user s) (pr_preload_memory p))
      | _ \<Rightarrow> None)"

section \<open>The request\<close>

definition contentHasSessionSummaryStateKey :: string where
  "contentHasSessionSummaryStateKey = ''processor:content:has_session_summary''"

definition contentHasCompactedToolResultsStateKey :: string where
  "contentHasCompactedToolResultsStateKey = ''processor:content:has_compacted_tool_results''"

definition CfgKeyIncludeContents :: string where "CfgKeyIncludeContents = ''include_contents''"

text \<open>\<open>strings.ToLower\<close> yields \<open>none\<close> only for ASCII letters, so the ASCII mapping decides the same.\<close>

definition runtimeConfigFromInvocation :: "invocation \<Rightarrow> string" where
  "runtimeConfigFromInvocation iv =
     (case iv_runtime_state iv of
        None \<Rightarrow> []
      | Some st \<Rightarrow>
          (case gget st CfgKeyIncludeContents of
             Some (VStr s) \<Rightarrow> map lower_char s
           | _ \<Rightarrow> []))"

text \<open>Heap, request, state of the invocation, and whether the invocation's message is still to be added.\<close>

definition appendSessionMessages ::
    "(bytes \<Rightarrow> bool option) \<Rightarrow> processor \<Rightarrow> string \<Rightarrow> gtime \<Rightarrow> message option \<Rightarrow> heap \<Rightarrow> invocation \<Rightarrow> message list
     \<Rightarrow> bool \<Rightarrow> bool \<Rightarrow> heap \<times> message list \<times> (string, bool) gomap \<times> bool" where
  "appendSessionMessages so p uuid now recall h iv req skipHistory includeInvocationMessage =
     (case iv_session iv of
        None \<Rightarrow> (h, req, iv_state iv, True)
      | Some s \<Rightarrow>
          (let (summaryText, summaryUpdatedAt) =
                 (if \<not> skipHistory \<and> pr_add_summary p \<and> pr_timeline_mode p = TimelineFilterAll
                  then getSessionSummaryText p iv else ([], 0));
               req = (if pr_preload_memory p \<noteq> 0 \<and> iv_memory iv \<noteq> None
                      then (case getPreloadMemoryMessage p iv of
                              None \<Rightarrow> req
                            | Some m \<Rightarrow> injectSystemContextMessage req m)
                      else req);
               st = (if summaryText \<noteq> [] then gput contentHasSessionSummaryStateKey True (iv_state iv)
                     else iv_state iv);
               req = (if summaryText \<noteq> [] \<and> pr_summary_mode p \<noteq> SessionSummaryInjectionUser
                      then injectSystemContextMessage req (NewSystemMessage (formatSummary p summaryText))
                      else req);
               req = (if \<not> skipHistory \<and> pr_preload_recall p > 0
                      then (case recall of None \<Rightarrow> req | Some m \<Rightarrow> injectSystemContextMessage req m)
                      else req);
               (h', messages) =
                 (if skipHistory
                  then (if includeInvocationMessage then getCurrentInvocationMessages p uuid now h iv else (h, []))
                  else getIncrementMessages so p uuid now h iv summaryUpdatedAt);
               st = (if \<not> skipHistory \<and> hasCompactedCurrentInvocationToolResults so p h' iv summaryUpdatedAt
                     then gput contentHasCompactedToolResultsStateKey True st else st);
               (messages, req) =
                 (if summaryText \<noteq> [] \<and> pr_summary_mode p = SessionSummaryInjectionUser
                  then prependSummaryUserMessage p summaryText messages req else (messages, req))
           in (h', req @ messages, st, messages = [])))"

definition ProcessRequest ::
    "(bytes \<Rightarrow> bool option) \<Rightarrow> processor \<Rightarrow> string \<Rightarrow> gtime \<Rightarrow> message option \<Rightarrow> heap \<Rightarrow> invocation \<Rightarrow> message list
     \<Rightarrow> heap \<times> message list \<times> (string, bool) gomap" where
  "ProcessRequest so p uuid now recall h iv0 req =
     (let iv = iv0\<lparr>iv_state := gdel contentHasCompactedToolResultsStateKey (iv_state iv0)\<rparr>;
          skipHistory = (runtimeConfigFromInvocation iv = ''none'');
          req = injectInjectedContextMessages iv req;
          req = injectFewShotMessages p iv req;
          (h', req, st, need) = appendSessionMessages so p uuid now recall h iv req skipHistory True;
          req = (if HasPayload (iv_message iv) \<and> need
                 then req @ [annotateUserMessageWithAttachedFiles
                               (projectEventMessage p iv empty_event (iv_message iv))]
                 else req)
      in (h', req, st))"

end
