(* ===== verification/Content_Linked.thy ===== *)
theory Content_Linked
  imports Content_History
begin

text \<open>
  Histories whose tool results can be told apart: what the two rearranging functions of
  \<open>Content_History\<close> do to them.  Merging writes into responses that events share, so the lemmas go
  through a relation between heaps: only responses that are results change, and they stay results
  of the same calls.  In the end every result event directly follows the event of its calls.
\<close>

section \<open>Well-linked histories\<close>

definition plain_delta :: "choice \<Rightarrow> bool" where
  "plain_delta c \<longleftrightarrow> m_tool_id (ch_delta c) = [] \<and> m_tool_calls (ch_delta c) = []"

text \<open>A response is the results of tools, or talk: an answer with at most one message that calls tools.\<close>

definition result_rsp :: "response \<Rightarrow> bool" where
  "result_rsp r \<longleftrightarrow>
     rsp_choices r \<noteq> []
     \<and> (\<forall>c \<in> set (rsp_choices r).
          is_tool_result (ch_message c) \<and> m_tool_calls (ch_message c) = [] \<and> plain_delta c)"

definition talk_message :: "message \<Rightarrow> bool" where
  "talk_message m \<longleftrightarrow>
     m_tool_id m = [] \<and> m_role m \<noteq> RoleTool \<and> (m_tool_calls m \<noteq> [] \<longrightarrow> m_role m = RoleAssistant)"

definition talk_rsp :: "response \<Rightarrow> bool" where
  "talk_rsp r \<longleftrightarrow>
     (\<forall>c \<in> set (rsp_choices r). talk_message (ch_message c) \<and> plain_delta c)
     \<and> (length (rsp_choices r) \<le> 1 \<or> (\<forall>c \<in> set (rsp_choices r). m_tool_calls (ch_message c) = []))"

definition well_formed :: "event \<Rightarrow> bool" where
  "well_formed ev \<longleftrightarrow> (case ev_response ev of None \<Rightarrow> True | Some r \<Rightarrow> result_rsp r \<or> talk_rsp r)"

abbreviation is_result :: "event \<Rightarrow> bool" where
  "is_result ev \<equiv> IsToolResultResponse (ev_response ev)"

abbreviation res :: "event \<Rightarrow> string list" where
  "res ev \<equiv> GetToolResultIDs (ev_response ev)"

abbreviation cal :: "event \<Rightarrow> string list" where
  "cal ev \<equiv> GetToolCallIDs (ev_response ev)"

text \<open>Calls have distinct identifiers, and the results of an event belong to one call event.\<close>

definition well_linked :: "event list \<Rightarrow> bool" where
  "well_linked evs \<longleftrightarrow>
     (\<forall>ev \<in> set evs. well_formed ev)
     \<and> distinct (concat (map cal evs))
     \<and> (\<forall>e \<in> set evs. \<forall>r \<in> set evs. set (cal e) \<inter> set (res r) \<noteq> {} \<longrightarrow>
          set (res r) \<subseteq> set (cal e) \<and> ev_author r = ev_author e \<and> ev_branch r = ev_branch e)"

lemma result_facts:
  assumes "result_rsp r"
  shows "IsToolResultResponse (Some r)" "\<not> IsToolCallResponse (Some r)"
    "GetToolResultIDs (Some r) = map (\<lambda>c. m_tool_id (ch_message c)) (rsp_choices r)"
    "GetToolCallIDs (Some r) = []" "GetToolResultIDs (Some r) \<noteq> []"
proof -
  have c: "\<forall>c \<in> set (rsp_choices r). m_tool_id (ch_message c) \<noteq> [] \<and> m_tool_calls (ch_message c) = []
      \<and> m_tool_id (ch_delta c) = [] \<and> m_tool_calls (ch_delta c) = []"
    using assms by (auto simp: result_rsp_def is_tool_result_def plain_delta_def)
  have ne: "rsp_choices r \<noteq> []" using assms by (simp add: result_rsp_def)
  show "IsToolResultResponse (Some r)" "\<not> IsToolCallResponse (Some r)"
    using c ne by (auto simp: IsToolResultResponse_def IsToolCallResponse_def split: list.split)
  have "map (\<lambda>c. (if m_tool_id (ch_message c) \<noteq> [] then [m_tool_id (ch_message c)] else [])
           @ (if m_tool_id (ch_delta c) \<noteq> [] then [m_tool_id (ch_delta c)] else [])) (rsp_choices r)
      = map (\<lambda>c. [m_tool_id (ch_message c)]) (rsp_choices r)"
    using c by (intro map_cong) auto
  then show ids: "GetToolResultIDs (Some r) = map (\<lambda>c. m_tool_id (ch_message c)) (rsp_choices r)"
    unfolding GetToolResultIDs_def option.case by (simp only: concat_map_singleton)
  show "GetToolCallIDs (Some r) = []" using c by (auto simp: GetToolCallIDs_def)
  show "GetToolResultIDs (Some r) \<noteq> []" using ids ne by simp
qed

lemma talk_facts:
  assumes "talk_rsp r"
  shows "\<not> IsToolResultResponse (Some r)" "GetToolResultIDs (Some r) = []"
    "GetToolCallIDs (Some r) = concat (map (\<lambda>c. call_ids (ch_message c)) (rsp_choices r))"
proof -
  have c: "\<forall>c \<in> set (rsp_choices r). m_tool_id (ch_message c) = []
      \<and> m_tool_id (ch_delta c) = [] \<and> m_tool_calls (ch_delta c) = []"
    using assms by (auto simp: talk_rsp_def talk_message_def plain_delta_def)
  show "\<not> IsToolResultResponse (Some r)"
    using c by (auto simp: IsToolResultResponse_def split: list.split)
  show "GetToolResultIDs (Some r) = []" using c by (auto simp: GetToolResultIDs_def)
  have "map (\<lambda>c. map tc_id (m_tool_calls (ch_message c)) @ map tc_id (m_tool_calls (ch_delta c))) (rsp_choices r)
      = map (\<lambda>c. call_ids (ch_message c)) (rsp_choices r)"
    using c by (intro map_cong) (auto simp: call_ids_def)
  then show "GetToolCallIDs (Some r) = concat (map (\<lambda>c. call_ids (ch_message c)) (rsp_choices r))"
    unfolding GetToolCallIDs_def option.case by (simp only:)
qed

lemma well_formed_cases [consumes 1, case_names none result talk]:
  assumes "well_formed ev"
  obtains "ev_response ev = None"
  | r where "ev_response ev = Some r" "result_rsp r"
  | r where "ev_response ev = Some r" "talk_rsp r"
  using assms by (auto simp: well_formed_def split: option.splits)

lemma none_facts:
  "\<not> IsToolResultResponse None" "GetToolResultIDs None = []" "GetToolCallIDs None = []"
  by (simp_all add: IsToolResultResponse_def GetToolResultIDs_def GetToolCallIDs_def)

lemma result_event:
  assumes "well_formed ev" "is_result ev"
  obtains r where "ev_response ev = Some r" "result_rsp r"
  using assms by (cases rule: well_formed_cases) (auto simp: none_facts talk_facts)

lemma res_result: "well_formed ev \<Longrightarrow> x \<in> set (res ev) \<Longrightarrow> is_result ev"
  by (cases rule: well_formed_cases) (auto simp: none_facts talk_facts result_facts)

lemma result_has_ids: "well_formed ev \<Longrightarrow> is_result ev \<Longrightarrow> res ev \<noteq> [] \<and> cal ev = []"
proof -
  assume "well_formed ev" "is_result ev"
  then obtain r where r: "ev_response ev = Some r" "result_rsp r" by (rule result_event)
  show ?thesis unfolding r(1) using result_facts(4,5)[OF r(2)] by simp
qed

lemma owner_unique:
  "distinct (concat (map f xs)) \<Longrightarrow> x \<in> set xs \<Longrightarrow> y \<in> set xs \<Longrightarrow> i \<in> set (f x) \<Longrightarrow> i \<in> set (f y) \<Longrightarrow> x = y"
  by (induction xs) auto

lemma subseq_subset: "subseq xs ys \<Longrightarrow> set xs \<subseteq> set ys"
  by (induction rule: list_emb.induct) auto

lemma distinct_concat_subseq:
  "subseq xs ys \<Longrightarrow> distinct (concat (map f ys)) \<Longrightarrow> distinct (concat (map f xs))"
proof (induction rule: list_emb.induct)
  case (list_emb_Cons2 x y xs ys)
  from subseq_subset[OF list_emb_Cons2(2)] have "set (concat (map f xs)) \<subseteq> set (concat (map f ys))"
    by auto
  with list_emb_Cons2 show ?case by auto
qed auto

lemma ball_subset: "A \<subseteq> B \<Longrightarrow> \<forall>x \<in> B. P x \<Longrightarrow> \<forall>x \<in> A. P x"
  by blast

lemma ball_inner: "A \<subseteq> B \<Longrightarrow> \<forall>x \<in> B. \<forall>y \<in> B. P x y \<Longrightarrow> \<forall>x \<in> B. \<forall>y \<in> A. P x y"
  by blast

lemma linked_subseq: "subseq xs ys \<Longrightarrow> well_linked ys \<Longrightarrow> well_linked xs"
proof -
  assume s: "subseq xs ys" and l: "well_linked ys"
  have sub: "set xs \<subseteq> set ys" by (rule subseq_subset[OF s])
  have l1: "\<forall>ev \<in> set ys. well_formed ev" and l2: "distinct (concat (map cal ys))"
    and l3: "\<forall>e \<in> set ys. \<forall>r \<in> set ys. set (cal e) \<inter> set (res r) \<noteq> {} \<longrightarrow>
          set (res r) \<subseteq> set (cal e) \<and> ev_author r = ev_author e \<and> ev_branch r = ev_branch e"
    using l unfolding well_linked_def by blast+
  show ?thesis
    unfolding well_linked_def
    using ball_subset[OF sub l1] distinct_concat_subseq[OF s l2] ball_subset[OF sub, OF ball_inner[OF sub l3]]
    by (intro conjI)
qed

lemma linked_owner:
  "well_linked evs \<Longrightarrow> e \<in> set evs \<Longrightarrow> f \<in> set evs \<Longrightarrow> i \<in> set (cal e) \<Longrightarrow> i \<in> set (cal f) \<Longrightarrow> e = f"
  unfolding well_linked_def using owner_unique[of cal evs e f i] by simp

lemma linked_link:
  assumes "well_linked evs" "e \<in> set evs" "r \<in> set evs" "i \<in> set (cal e)" "i \<in> set (res r)"
  shows "set (res r) \<subseteq> set (cal e)" "ev_author r = ev_author e" "ev_branch r = ev_branch e"
proof -
  have "set (cal e) \<inter> set (res r) \<noteq> {}" using assms(4,5) by blast
  then show "set (res r) \<subseteq> set (cal e)" "ev_author r = ev_author e" "ev_branch r = ev_branch e"
    using assms(1-3) unfolding well_linked_def by simp_all
qed

section \<open>Writing through shared responses\<close>

text \<open>
  The heap changes only responses that are results of tools, and they stay results of calls of
  the same event.
\<close>

definition moved :: "event list \<Rightarrow> event \<Rightarrow> event \<Rightarrow> bool" where
  "moved evs v v' \<longleftrightarrow>
     v' = v
     \<or> (\<exists>r. v' = v\<lparr>ev_response := r\<rparr>) \<and> well_formed v \<and> well_formed v' \<and> is_result v \<and> is_result v'
       \<and> (\<exists>e \<in> set evs. set (res v) \<subseteq> set (cal e) \<and> set (res v') \<subseteq> set (cal e))"

lemma moved_facts:
  assumes "moved evs v v'" "well_formed v"
  shows "ev_author v' = ev_author v \<and> ev_branch v' = ev_branch v \<and> well_formed v' \<and> cal v' = cal v
    \<and> is_result v' = is_result v"
  using assms result_has_ids[of v] result_has_ids[of v'] unfolding moved_def by (elim disjE) auto

text \<open>An owner of the results before is the owner of the results after.\<close>

lemma moved_owner:
  assumes "well_linked evs" "moved evs v v'" "is_result v" "well_formed v"
    and "e \<in> set evs" "set (res v) \<subseteq> set (cal e)"
  shows "set (res v') \<subseteq> set (cal e)"
proof (cases "v' = v")
  case False
  then obtain f where f: "f \<in> set evs" "set (res v) \<subseteq> set (cal f)" "set (res v') \<subseteq> set (cal f)"
    using assms(2) unfolding moved_def by blast
  obtain i where "i \<in> set (res v)" using result_has_ids[OF assms(4,3)] by (cases "res v") auto
  then have "f = e"
    using linked_owner[OF assms(1) f(1) assms(5), of i] f(2) assms(6) by blast
  with f show ?thesis by simp
qed (use assms in simp)

definition regroup :: "hevent list \<Rightarrow> heap \<Rightarrow> heap \<Rightarrow> bool" where
  "regroup es h h' \<longleftrightarrow>
     length h' = length h \<and> (\<forall>x \<in> set es. moved (map (load h) es) (load h x) (load h' x))"

definition valid :: "heap \<Rightarrow> hevent list \<Rightarrow> bool" where
  "valid h es \<longleftrightarrow> (\<forall>x \<in> set es. case he_ptr x of None \<Rightarrow> True | Some a \<Rightarrow> a < length h)"

lemma regroup_refl [simp]: "regroup es h h"
  by (simp add: regroup_def moved_def)

lemma regroup_valid: "regroup es h h' \<Longrightarrow> valid h xs \<Longrightarrow> valid h' xs"
  by (auto simp: regroup_def valid_def split: option.splits)

lemma linked_formed: "well_linked (map f es) \<Longrightarrow> x \<in> set es \<Longrightarrow> well_formed (f x)"
  by (simp add: well_linked_def)

lemma regroup_facts:
  assumes "well_linked (map (load h) es)" "regroup es h h'" "x \<in> set es"
  shows "ev_author (load h' x) = ev_author (load h x) \<and> ev_branch (load h' x) = ev_branch (load h x)
    \<and> well_formed (load h' x) \<and> cal (load h' x) = cal (load h x) \<and> is_result (load h' x) = is_result (load h x)"
  using assms moved_facts[OF _ linked_formed[OF assms(1,3)]] unfolding regroup_def by blast

lemma linked_regroup:
  assumes l: "well_linked (map (load h) es)" and g: "regroup es h h'"
  shows "well_linked (map (load h') es)"
  unfolding well_linked_def
proof (intro conjI ballI impI)
  note F = regroup_facts[OF l g]
  show "well_formed ev" if "ev \<in> set (map (load h') es)" for ev using that F by auto
  have "map cal (map (load h') es) = map cal (map (load h) es)" using F by simp
  then show "distinct (concat (map cal (map (load h') es)))" using l unfolding well_linked_def by metis
  fix e r assume er: "e \<in> set (map (load h') es)" "r \<in> set (map (load h') es)" "set (cal e) \<inter> set (res r) \<noteq> {}"
  then obtain x y where x: "x \<in> set es" "e = load h' x" and y: "y \<in> set es" "r = load h' y" by auto
  have m: "moved (map (load h) es) (load h y) (load h' y)" using g y(1) unfolding regroup_def by blast
  have mx: "load h x \<in> set (map (load h) es)" and my: "load h y \<in> set (map (load h) es)" using x y by auto
  obtain i where i: "i \<in> set (cal (load h x))" "i \<in> set (res (load h' y))"
    using er(3) x y F[OF x(1)] by auto
  have "set (res (load h' y)) \<subseteq> set (cal (load h x))
      \<and> ev_author (load h y) = ev_author (load h x) \<and> ev_branch (load h y) = ev_branch (load h x)"
  proof (cases "load h' y = load h y")
    case True
    then show ?thesis using linked_link[OF l mx my] i by simp
  next
    case False
    then obtain f where f: "f \<in> set (map (load h) es)" "set (res (load h y)) \<subseteq> set (cal f)"
      "set (res (load h' y)) \<subseteq> set (cal f)" and ry: "is_result (load h y)"
      using m unfolding moved_def by blast
    have e: "f = load h x" using linked_owner[OF l f(1) mx] i f(3) by blast
    obtain j where "j \<in> set (res (load h y))"
      using result_has_ids[OF linked_formed[OF l y(1)] ry] by (cases "res (load h y)") auto
    then show ?thesis using linked_link[OF l mx my] f(2,3) unfolding e by blast
  qed
  then show "set (res r) \<subseteq> set (cal e)" "ev_author r = ev_author e" "ev_branch r = ev_branch e"
    using F[OF x(1)] F[OF y(1)] unfolding x(2) y(2) by simp_all
qed

lemma regroup_trans:
  assumes l: "well_linked (map (load h) es)" and g: "regroup es h h1" "regroup es h1 h2"
  shows "regroup es h h2"
  unfolding regroup_def
proof (intro conjI ballI)
  show "length h2 = length h" using g by (simp add: regroup_def)
  fix x assume x: "x \<in> set es"
  have m1: "moved (map (load h) es) (load h x) (load h1 x)" and m2: "moved (map (load h1) es) (load h1 x) (load h2 x)"
    using g x unfolding regroup_def by blast+
  show "moved (map (load h) es) (load h x) (load h2 x)"
  proof (cases "load h1 x = load h x \<or> load h2 x = load h1 x")
    case True
    then show ?thesis
    proof
      assume e: "load h1 x = load h x"
      show ?thesis
      proof (cases "load h2 x = load h1 x")
        case False
        then obtain z where z: "z \<in> set es" "set (res (load h x)) \<subseteq> set (cal (load h1 z))"
          "set (res (load h2 x)) \<subseteq> set (cal (load h1 z))"
          and m: "\<exists>r. load h2 x = (load h x)\<lparr>ev_response := r\<rparr>" "well_formed (load h x)"
          "well_formed (load h2 x)" "is_result (load h x)" "is_result (load h2 x)"
          using m2 unfolding moved_def e by auto
        have "cal (load h1 z) = cal (load h z)" using regroup_facts[OF l g(1) z(1)] by blast
        with z have "\<exists>f \<in> set (map (load h) es). set (res (load h x)) \<subseteq> set (cal f) \<and> set (res (load h2 x)) \<subseteq> set (cal f)"
          by auto
        with m show ?thesis unfolding moved_def by blast
      qed (simp add: e moved_def)
    qed (use m1 in simp)
  next
    case False
    have w: "well_linked (map (load h1) es)" by (rule linked_regroup[OF l g(1)])
    obtain e where e: "e \<in> set es" "set (res (load h x)) \<subseteq> set (cal (load h e))"
      "set (res (load h1 x)) \<subseteq> set (cal (load h e))"
      and r1: "is_result (load h x)" "is_result (load h1 x)" "well_formed (load h x)" "well_formed (load h1 x)"
      using m1 False unfolding moved_def by auto
    have "set (res (load h1 x)) \<subseteq> set (cal (load h1 e))" using e(3) regroup_facts[OF l g(1) e(1)] by simp
    then have "set (res (load h2 x)) \<subseteq> set (cal (load h1 e))"
      using moved_owner[OF w m2 r1(2,4)] e(1) by simp
    then have r: "set (res (load h2 x)) \<subseteq> set (cal (load h e))" using regroup_facts[OF l g(1) e(1)] by simp
    have "\<exists>r. load h2 x = (load h x)\<lparr>ev_response := r\<rparr>"
      by (simp add: load_def exI[of _ "rsp_at h2 x"])
    moreover have "is_result (load h2 x)" "well_formed (load h2 x)"
      using moved_facts[OF m2 r1(4)] r1(2) by auto
    ultimately show ?thesis using e r r1 unfolding moved_def by auto
  qed
qed

lemma load_response [simp]: "ev_response (load h x) = rsp_at h x"
  by (simp add: load_def)

lemma result_ptr:
  assumes "well_formed (load h x)" "is_result (load h x)"
  obtains a where "he_ptr x = Some a" "rsp_at h x = Some (h ! a)" "result_rsp (h ! a)"
  using assms by (elim result_event) (auto simp: rsp_at_def)

lemma merged_choices:
  assumes "\<forall>x \<in> set g. is_result (load h x) \<and> well_formed (load h x) \<and> set (res (load h x)) \<subseteq> C"
    and "c \<in> set (concat (map (result_choices h) g))"
  shows "is_tool_result (ch_message c) \<and> m_tool_calls (ch_message c) = [] \<and> plain_delta c
    \<and> m_tool_id (ch_message c) \<in> C"
proof -
  obtain x where x: "x \<in> set g" "c \<in> set (choices_of (load h x))"
    using assms(2) by (auto simp: result_choices_def)
  then obtain a where a: "rsp_at h x = Some (h ! a)" "result_rsp (h ! a)"
    using assms(1) result_ptr[of h x] by blast
  have c: "c \<in> set (rsp_choices (h ! a))" using x(2) a(1) by (simp add: choices_of_def)
  then have "m_tool_id (ch_message c) \<in> set (res (load h x))"
    using result_facts(3)[OF a(2)] by (simp add: a(1))
  moreover have "set (res (load h x)) \<subseteq> C" using assms(1) x(1) by blast
  ultimately show ?thesis using c a(2) unfolding result_rsp_def by blast
qed

lemma merge_regroup:
  assumes l: "well_linked (map (load h) es)" and v: "valid h es"
    and g: "g \<noteq> []" "set g \<subseteq> set es" and e: "e \<in> set es"
    and r: "\<forall>x \<in> set g. is_result (load h x) \<and> set (res (load h x)) \<subseteq> set (cal (load h e))"
    and m: "mergeFunctionResponseEvents h g = (h', b)"
  shows "regroup es h h' \<and> b = hd g"
proof -
  obtain base gs where gb: "g = base # gs" using g(1) by (cases g) auto
  have w: "well_formed (load h x)" if "x \<in> set g" for x using linked_formed[OF l] that g(2) by blast
  have rb: "is_result (load h base)" "set (res (load h base)) \<subseteq> set (cal (load h e))" "well_formed (load h base)"
    using r w gb by auto
  obtain a where a: "he_ptr base = Some a" "rsp_at h base = Some (h ! a)" "result_rsp (h ! a)"
    using result_ptr[OF rb(3,1)] by blast
  define all where "all = concat (map (result_choices h) g)"
  show ?thesis
  proof (cases "all = []")
    case True
    then show ?thesis using m a by (simp add: mergeFunctionResponseEvents_def gb all_def)
  next
    case False
    define new where "new = (h ! a)\<lparr>rsp_choices := all\<rparr>"
    have h': "h' = h[a := new]" "b = base"
      using m a False
      by (auto simp: mergeFunctionResponseEvents_def gb all_def new_def Let_def split: if_splits)
    have c: "\<forall>c \<in> set all. is_tool_result (ch_message c) \<and> m_tool_calls (ch_message c) = [] \<and> plain_delta c
        \<and> m_tool_id (ch_message c) \<in> set (cal (load h e))"
      using merged_choices[of g h] r w unfolding all_def by blast
    have new: "result_rsp new" using c False by (simp add: result_rsp_def new_def)
    have ids: "set (GetToolResultIDs (Some new)) \<subseteq> set (cal (load h e))"
      using result_facts(3)[OF new] c by (auto simp: new_def)
    have alen: "a < length h" using v a(1) g(2) gb by (fastforce simp: valid_def)
    have "moved (map (load h) es) (load h y) (load h' y)" if y: "y \<in> set es" for y
    proof (cases "he_ptr y = Some a")
      case True
      have "rsp_at h y = Some (h ! a)" "rsp_at h' y = Some new"
        using True alen by (simp_all add: rsp_at_def h')
      then show ?thesis
        using a new ids rb e unfolding moved_def
        by (auto simp: load_def well_formed_def result_facts intro!: exI[of _ "Some new"])
    next
      case False
      then have "rsp_at h' y = rsp_at h y" by (cases "he_ptr y") (auto simp: rsp_at_def h')
      then show ?thesis by (simp add: moved_def load_def)
    qed
    then show ?thesis using h' gb by (simp add: regroup_def)
  qed
qed

lemma regroup_owner:
  assumes "well_linked (map (load h) es)" "regroup es h h'" "x \<in> set es" "e \<in> set es"
    and "is_result (load h x)" "set (res (load h x)) \<subseteq> set (cal (load h e))"
  shows "set (res (load h' x)) \<subseteq> set (cal (load h' e))"
proof -
  have m: "moved (map (load h) es) (load h x) (load h' x)" using assms(2,3) by (simp add: regroup_def)
  have "set (res (load h' x)) \<subseteq> set (cal (load h e))"
    by (rule moved_owner[OF assms(1) m assms(5) linked_formed[OF assms(1,3)] _ assms(6)])
      (use assms(4) in simp)
  then show ?thesis using regroup_facts[OF assms(1,2,4)] by simp
qed

section \<open>The newest results\<close>

lemma find_back_Some: "find_back P xs n = Some i \<Longrightarrow> i < n \<and> P (xs ! i)"
  by (induction n) (auto split: if_splits)

lemma rearrange_latest_linked:
  assumes l: "well_linked (map (load h) es)" and v: "valid h es"
    and r: "rearrangeLatestFuncResp h es = (h', es')"
  shows "regroup es h h' \<and> subseq es' es"
proof (cases "h' = h \<and> es' = es")
  case False
  define ids where "ids = GetToolResultIDs (rsp_at h (last es))"
  obtain i where i: "find_back (\<lambda>e. IsToolCallResponse (rsp_at h e) \<and> shares ids (GetToolCallIDs (rsp_at h e)))
      es (length es - 1) = Some i" and ne: "es \<noteq> []"
    and last: "IsToolResultResponse (rsp_at h (last es))"
    using r False by (auto simp: rearrangeLatestFuncResp_def Let_def ids_def split: if_splits option.splits)
  define g where "g = filter (\<lambda>e. IsToolResultResponse (rsp_at h e) \<and> shares ids (GetToolResultIDs (rsp_at h e)))
      (drop (i + 1) es)"
  have ib: "i < length es - 1" "shares ids (cal (load h (es ! i)))" using find_back_Some[OF i] by auto
  have ei: "es ! i \<in> set es" using ib(1) by simp
  have il: "last es \<in> set es" using ne by simp
  obtain k where k: "k \<in> set ids" "k \<in> set (cal (load h (es ! i)))" using ib(2) by (auto simp: list_ex_iff)
  have sub: "set ids \<subseteq> set (cal (load h (es ! i)))"
    using linked_link(1)[OF l, of "load h (es ! i)" "load h (last es)" k] k ei il by (simp add: ids_def)
  have gs: "set g \<subseteq> set es" using set_drop_subset[of "i + 1" es] by (auto simp: g_def)
  have gr: "\<forall>x \<in> set g. is_result (load h x) \<and> set (res (load h x)) \<subseteq> set (cal (load h (es ! i)))"
  proof
    fix x assume x: "x \<in> set g"
    then obtain j where j: "j \<in> set ids" "j \<in> set (res (load h x))" by (auto simp: g_def list_ex_iff)
    have "set (res (load h x)) \<subseteq> set (cal (load h (es ! i)))"
      using linked_link(1)[OF l, of "load h (es ! i)" "load h x" j] j sub ei x gs by auto
    then show "is_result (load h x) \<and> set (res (load h x)) \<subseteq> set (cal (load h (es ! i)))"
      using x by (simp add: g_def)
  qed
  show ?thesis
  proof (cases "g = []")
    case True
    then have "h' = h \<and> (es' = take (i + 1) es \<or> es' = es)"
      using r ne last i by (auto simp: rearrangeLatestFuncResp_def Let_def ids_def g_def split: if_splits)
    then show ?thesis by auto
  next
    case False
    obtain h1 b where m: "mergeFunctionResponseEvents h g = (h1, b)" by (cases "mergeFunctionResponseEvents h g")
    have "h' = h1 \<and> es' = take (i + 1) es @ [b] \<or> h' = h \<and> es' = es"
      using r ne last i False m
      by (auto simp: rearrangeLatestFuncResp_def Let_def ids_def g_def split: if_splits)
    moreover have "regroup es h h1" and b: "b = hd g" using merge_regroup[OF l v False gs ei gr m] by auto
    moreover have "subseq (take (i + 1) es @ [b]) es"
    proof -
      have "b \<in> set (drop (i + 1) es)" using b False hd_in_set[OF False] by (simp add: g_def)
      then have "subseq [b] (drop (i + 1) es)" by (metis subseq_singleton_left)
      then show ?thesis using list_emb_append_mono[of "(=)" "take (i + 1) es" "take (i + 1) es" "[b]" "drop (i + 1) es"]
        by simp
    qed
    ultimately show ?thesis by auto
  qed
qed auto

section \<open>All results\<close>

definition idx_ok :: "heap \<Rightarrow> hevent list \<Rightarrow> (string, nat) gomap \<Rightarrow> bool" where
  "idx_ok h es idx \<longleftrightarrow>
     (\<forall>k i. gget idx k = Some i \<longrightarrow>
        i < length es \<and> is_result (load h (es ! i))
        \<and> (\<forall>e \<in> set es. k \<in> set (cal (load h e)) \<longrightarrow> set (res (load h (es ! i))) \<subseteq> set (cal (load h e))))"

lemma gget_put_ids: "gget (foldl (\<lambda>m r. gput r i m) m ids) k = (if k \<in> set ids then Some i else gget m k)"
  by (induction ids arbitrary: m) (auto simp: update_conv')

lemma gget_response_index:
  "gget (response_index h n xs m) k = Some i \<Longrightarrow>
     gget m k = Some i
     \<or> n \<le> i \<and> i < n + length xs \<and> is_result (load h (xs ! (i - n))) \<and> k \<in> set (res (load h (xs ! (i - n))))"
proof (induction h n xs m rule: response_index.induct)
  case (2 h n e es m)
  let ?m = "if IsToolResultResponse (rsp_at h e)
      then foldl (\<lambda>m rid. gput rid n m) m (GetToolResultIDs (rsp_at h e)) else m"
  from 2(2) have "gget (response_index h (n + 1) es ?m) k = Some i" by simp
  from 2(1)[OF this] show ?case
  proof
    assume "gget ?m k = Some i"
    then show ?thesis by (auto simp: gget_put_ids split: if_splits)
  next
    assume a: "n + 1 \<le> i \<and> i < n + 1 + length es \<and> is_result (load h (es ! (i - (n + 1))))
        \<and> k \<in> set (res (load h (es ! (i - (n + 1)))))"
    then have "(e # es) ! (i - n) = es ! (i - (n + 1))" by (simp add: nth_Cons' Suc_diff_Suc)
    with a show ?thesis by simp
  qed
qed simp

lemma index_ok:
  assumes "well_linked (map (load h) es)"
  shows "idx_ok h es (response_index h 0 es [])"
  unfolding idx_ok_def
proof (intro allI impI)
  fix k i assume "gget (response_index h 0 es []) k = Some i"
  then have i: "i < length es" "is_result (load h (es ! i))" "k \<in> set (res (load h (es ! i)))"
    using gget_response_index[of h 0 es "[]" k i] by auto
  have "set (res (load h (es ! i))) \<subseteq> set (cal (load h e))" if "e \<in> set es" "k \<in> set (cal (load h e))" for e
    using linked_link(1)[OF assms, of "load h e" "load h (es ! i)" k] that i by simp
  with i show "i < length es \<and> is_result (load h (es ! i))
      \<and> (\<forall>e \<in> set es. k \<in> set (cal (load h e)) \<longrightarrow> set (res (load h (es ! i))) \<subseteq> set (cal (load h e)))"
    by blast
qed

lemma idx_ok_regroup:
  assumes l: "well_linked (map (load h) es)" and g: "regroup es h h'" and i: "idx_ok h es idx"
  shows "idx_ok h' es idx"
  unfolding idx_ok_def
proof (intro allI impI)
  fix k n assume "gget idx k = Some n"
  then have n: "n < length es" "is_result (load h (es ! n))"
    "\<And>e. e \<in> set es \<Longrightarrow> k \<in> set (cal (load h e)) \<Longrightarrow> set (res (load h (es ! n))) \<subseteq> set (cal (load h e))"
    using i unfolding idx_ok_def by blast+
  have "is_result (load h' (es ! n))" using regroup_facts[OF l g, of "es ! n"] n by simp
  moreover have "set (res (load h' (es ! n))) \<subseteq> set (cal (load h' e))"
    if e: "e \<in> set es" "k \<in> set (cal (load h' e))" for e
    using regroup_owner[OF l g _ e(1) n(2)] n(1) n(3)[OF e(1)] regroup_facts[OF l g e(1)] e(2) by simp
  ultimately show "n < length es \<and> is_result (load h' (es ! n))
      \<and> (\<forall>e \<in> set es. k \<in> set (cal (load h' e)) \<longrightarrow> set (res (load h' (es ! n))) \<subseteq> set (cal (load h' e)))"
    using n(1) by blast
qed

text \<open>Every result event directly follows the event of its calls.\<close>

inductive threaded :: "event list \<Rightarrow> bool" where
  threaded_nil: "threaded []"
| threaded_talk: "\<not> is_result e \<Longrightarrow> threaded es \<Longrightarrow> threaded (e # es)"
| threaded_answer:
    "\<not> is_result e \<Longrightarrow> is_result r \<Longrightarrow> set (res r) \<subseteq> set (cal e)
     \<Longrightarrow> ev_author r = ev_author e \<Longrightarrow> ev_branch r = ev_branch e \<Longrightarrow> threaded es
     \<Longrightarrow> threaded (e # r # es)"

lemma owned_after:
  assumes l: "well_linked (map (load h) es)" and g: "regroup es h h'" and e: "e \<in> set es" and b: "b \<in> set es"
    and r: "is_result (load h b)" "set (res (load h b)) \<subseteq> set (cal (load h e))"
  shows "is_result (load h' b) \<and> set (res (load h' b)) \<subseteq> set (cal (load h' e))
    \<and> ev_author (load h' b) = ev_author (load h' e) \<and> ev_branch (load h' b) = ev_branch (load h' e)"
proof -
  obtain j where j: "j \<in> set (res (load h b))"
    using result_has_ids[OF linked_formed[OF l b] r(1)] by (cases "res (load h b)") auto
  have "ev_author (load h b) = ev_author (load h e) \<and> ev_branch (load h b) = ev_branch (load h e)"
    using linked_link(2,3)[OF l _ _ subsetD[OF r(2) j] j] imageI[OF e] imageI[OF b]
    unfolding set_map by blast
  moreover have "ev_author (load h' e) = ev_author (load h e) \<and> ev_branch (load h' e) = ev_branch (load h e)"
    using regroup_facts[OF l g e] by blast
  moreover have "ev_author (load h' b) = ev_author (load h b) \<and> ev_branch (load h' b) = ev_branch (load h b)
      \<and> is_result (load h' b)"
    using regroup_facts[OF l g b] r(1) by blast
  ultimately show ?thesis using regroup_owner[OF l g b e r] by simp
qed

lemma async_threaded:
  assumes "well_linked (map (load h) es)" "valid h es" "idx_ok h es idx" "set rest \<subseteq> set es"
    and "async_loop idx es h rest = (h', out)"
  shows "regroup es h h' \<and> set out \<subseteq> set es \<and> threaded (map (load h') out)"
  using assms
proof (induction rest arbitrary: h h' out)
  case Nil
  then show ?case by (simp add: threaded_nil)
next
  case (Cons e rest)
  note l = Cons.prems(1) and v = Cons.prems(2) and ok = Cons.prems(3)
  have e: "e \<in> set es" and rest: "set rest \<subseteq> set es" using Cons.prems(4) by auto
  show ?case
  proof (cases "is_result (load h e)")
    case True
    then show ?thesis using Cons.IH[OF l v ok rest] Cons.prems(5) by simp
  next
    case talk: False
    define idxs where "idxs = dedup_seen [] (List.map_filter (gget idx) (cal (load h e)))"
    have ix: "i < length es \<and> is_result (load h (es ! i)) \<and> set (res (load h (es ! i))) \<subseteq> set (cal (load h e))"
      if i: "i \<in> set idxs" for i
    proof -
      obtain k where "k \<in> set (cal (load h e))" "gget idx k = Some i"
        using i by (auto simp: idxs_def map_filter_def)
      then show ?thesis using ok e unfolding idx_ok_def by blast
    qed
    obtain h2 out2 where o2: "async_loop idx es h rest = (h2, out2)" by (cases "async_loop idx es h rest")
    note I = Cons.IH[OF l v ok rest o2]
    have t2: "\<not> is_result (load h2 e)" using regroup_facts[OF l _ e, of h2] I talk by simp
    have plain: ?thesis if "h' = h2" "out = e # out2"
      using I that t2 e by (simp add: threaded_talk)
    have nth: "es ! i \<in> set es" if "i \<in> set idxs" for i using ix[OF that] by simp
    consider "\<not> IsToolCallResponse (rsp_at h e)" | "IsToolCallResponse (rsp_at h e)" "idxs = []"
      | i where "IsToolCallResponse (rsp_at h e)" "idxs = [i]"
      | i j js where "IsToolCallResponse (rsp_at h e)" "idxs = i # j # js"
      by (metis list.exhaust)
    then show ?thesis
    proof cases
      case 3
      then have "h' = h2" "out = e # es ! i # out2"
        using Cons.prems(5) talk o2 by (simp_all add: idxs_def)
      moreover have i: "i \<in> set idxs" using 3 by simp
      ultimately show ?thesis
        using I owned_after[OF l _ e nth[OF i], of h2] ix[OF i] nth[OF i] t2 e by (simp add: threaded_answer)
    next
      case 4
      define g where "g = map (\<lambda>i. es ! i) idxs"
      obtain h1 b where m: "mergeFunctionResponseEvents h g = (h1, b)" by (cases "mergeFunctionResponseEvents h g")
      obtain h3 out3 where o3: "async_loop idx es h1 rest = (h3, out3)" by (cases "async_loop idx es h1 rest")
      have out: "h' = h3" "out = e # b # out3"
        using Cons.prems(5) talk m o3 4 by (simp_all add: idxs_def g_def)
      have gs: "set g \<subseteq> set es" "g \<noteq> []" using nth 4(2) by (auto simp: g_def)
      have "\<forall>x \<in> set g. is_result (load h x) \<and> set (res (load h x)) \<subseteq> set (cal (load h e))"
        using ix by (auto simp: g_def)
      then have r1: "regroup es h h1" and b: "b = hd g" using merge_regroup[OF l v gs(2,1) e _ m] by auto
      have bes: "b \<in> set es" and "b = es ! i" "i \<in> set idxs" using b gs 4(2) by (auto simp: g_def)
      then have bo: "is_result (load h b)" "set (res (load h b)) \<subseteq> set (cal (load h e))" using ix by auto
      note I3 = Cons.IH[OF linked_regroup[OF l r1] regroup_valid[OF r1 v] idx_ok_regroup[OF l r1 ok] rest o3]
      have r3: "regroup es h h3" using regroup_trans[OF l r1] I3 by blast
      show ?thesis
        using I3 r3 owned_after[OF l r3 e bes bo] regroup_facts[OF l r3 e] talk e bes out
        by (simp add: threaded_answer)
    qed (use plain Cons.prems(5) talk o2 in \<open>auto simp: idxs_def\<close>)
  qed
qed

end
