(* ===== verification/Content_Answers.thy ===== *)
theory Content_Answers
  imports Content_Request Content_Linked
begin

text \<open>
  What the rearranging of tool results is for: in the messages of a request every tool result
  directly follows the assistant message that called the tool, with nothing but other results of
  that message in between.  Chat APIs reject a request in which it does not.  The theorem holds for
  every history whose events are well formed and whose tool calls have distinct identifiers, for
  every configuration and through the shared responses on the heap.
\<close>

section \<open>Answered messages\<close>

text \<open>
  \<open>answered ids ms\<close>: every tool result in \<open>ms\<close> belongs to a call of the last message that is not a
  tool result (to one of \<open>ids\<close> at the front).
\<close>

fun answered :: "string list \<Rightarrow> message list \<Rightarrow> bool" where
  "answered ids [] = True"
| "answered ids (m # ms) =
     (if is_tool_result m then m_tool_id m \<in> set ids \<and> answered ids ms
      else answered (call_ids m) ms)"

lemma answered_mono: "answered ids ms \<Longrightarrow> set ids \<subseteq> set ids' \<Longrightarrow> answered ids' ms"
  by (induction ids ms rule: answered.induct) (auto split: if_splits)

lemma answered_from_none: "answered [] ms \<Longrightarrow> answered ids ms"
  by (erule answered_mono) simp

lemma answered_talk:
  "\<forall>m \<in> set ms. \<not> is_tool_result m \<Longrightarrow> answered [] ys \<Longrightarrow> answered ids (ms @ ys)"
  by (induction ms arbitrary: ids) (auto intro: answered_from_none)

lemma answered_results:
  "\<forall>m \<in> set ms. is_tool_result m \<and> m_tool_id m \<in> set ids \<Longrightarrow> answered [] ys \<Longrightarrow> answered ids (ms @ ys)"
  by (induction ms) (auto intro: answered_from_none)

text \<open>Functions on messages that keep what matters for it.\<close>

definition keeps :: "message \<Rightarrow> message \<Rightarrow> bool" where
  "keeps m m' \<longleftrightarrow> m_role m' = m_role m \<and> m_tool_id m' = m_tool_id m \<and> m_tool_calls m' = m_tool_calls m"

lemma keeps_facts: "keeps m m' \<Longrightarrow> is_tool_result m' = is_tool_result m \<and> call_ids m' = call_ids m"
  by (simp add: keeps_def is_tool_result_def call_ids_def)

lemma answered_map:
  assumes "\<And>m. keeps m (f m)"
  shows "answered ids (map f ms) = answered ids ms"
proof (induction ids ms rule: answered.induct)
  case (2 ids m ms)
  have "m_tool_id (f m) = m_tool_id m" using assms[of m] by (simp add: keeps_def)
  with 2 keeps_facts[OF assms[of m]] show ?case by simp
qed simp

definition faithful_projector :: "processor \<Rightarrow> bool" where
  "faithful_projector p \<longleftrightarrow> (\<forall>iv e m. keeps m (projectEventMessage p iv e m))"

lemma no_projector [simp]: "pr_projector p = None \<Longrightarrow> faithful_projector p"
  by (simp add: faithful_projector_def projectEventMessage_def keeps_def)

lemma reasoning_keeps: "keeps m (processReasoningContent p m a b)"
  by (simp add: processReasoningContent_def keeps_def)

lemma annotate_keeps: "keeps m (annotateUserMessageWithAttachedFiles m)"
  by (simp add: annotateUserMessageWithAttachedFiles_def keeps_def Let_def)

lemma truncate_keeps: "keeps m (fst (truncateOversizedToolResultMessage m n))"
  by (cases rule: truncated_shape[of m n]) (simp_all add: keeps_def)

section \<open>One event\<close>

definition projected :: "processor \<Rightarrow> invocation \<Rightarrow> event \<Rightarrow> string \<Rightarrow> message \<Rightarrow> message" where
  "projected p iv e rid m =
     projectEventMessage p iv e (processReasoningContent p m (ev_request_id e) rid)"

lemma projected_keeps: "faithful_projector p \<Longrightarrow> keeps m (projected p iv e rid m)"
  using reasoning_keeps[of m p "ev_request_id e" rid]
  by (simp add: faithful_projector_def projected_def keeps_def)

lemma project_own:
  "\<not> isOtherAgentReply p (iv_agent iv) (iv_branch iv) e \<Longrightarrow>
   projectMessagesForEvent p uuid iv e rid =
     filter (\<lambda>m. \<not> isEmptyAssistantMessage m) (map (\<lambda>c. projected p iv e rid (ch_message c)) (choices_of e))"
  by (simp add: projectMessagesForEvent_def projected_def)

lemma foreign_talks:
  assumes f: "faithful_projector p" and w: "well_formed e"
    and o: "isOtherAgentReply p (iv_agent iv) (iv_branch iv) e"
  shows "\<forall>m \<in> set (projectMessagesForEvent p uuid iv e rid). \<not> is_tool_result m \<and> (m_tool_calls m \<noteq> [] \<longrightarrow> m_role m = RoleAssistant)"
proof -
  have key: "\<forall>c \<in> set (choices_of (convertForeignEvent p uuid e)). talk_message (ch_message c)"
  proof (cases "choices_of e = []")
    case True
    then show ?thesis by (simp add: convertForeignEvent_def)
  next
    case False
    then obtain r where r: "ev_response e = Some r" "rsp_choices r \<noteq> []"
      by (auto simp: choices_of_def split: option.splits)
    show ?thesis
    proof (cases "converted_contents p e \<noteq> [] \<or> converted_parts p e \<noteq> []")
      case True
      then have "choices_of (convertForeignEvent p uuid e)
          = [message_choice (empty_message\<lparr>m_role := RoleUser, m_content := join_with '' '' (converted_contents p e),
               m_content_parts := converted_parts p e\<rparr>)]"
        using False r
        by (auto simp: convertForeignEvent_def Event_Clone_def Let_def choices_of_def)
      then show ?thesis by (simp add: message_choice_def talk_message_def empty_message_def)
    next
      case none: False
      have "\<not> result_rsp r"
      proof
        assume "result_rsp r"
        then obtain c where "c \<in> set (rsp_choices r)" "m_tool_id (ch_message c) \<noteq> []"
          using r(2) by (cases "rsp_choices r") (auto simp: result_rsp_def is_tool_result_def)
        moreover have "foreign_contents p (ev_author e) (ch_message c) \<noteq> []"
          using \<open>m_tool_id (ch_message c) \<noteq> []\<close> by (simp add: foreign_contents_def)
        ultimately show False using none r(1) by (auto simp: converted_contents_def choices_of_def)
      qed
      then have "talk_rsp r" using w r(1) by (simp add: well_formed_def)
      moreover have "choices_of (convertForeignEvent p uuid e) = rsp_choices r"
        using False none r by (simp add: convertForeignEvent_def Event_Clone_def Let_def choices_of_def)
      ultimately show ?thesis by (simp add: talk_rsp_def)
    qed
  qed
  show ?thesis
  proof
    fix m assume "m \<in> set (projectMessagesForEvent p uuid iv e rid)"
    then obtain c where c: "c \<in> set (choices_of (convertForeignEvent p uuid e))"
      "m = projected p iv e rid (ch_message c)"
      using o by (auto simp: projectMessagesForEvent_def projected_def)
    then show "\<not> is_tool_result m \<and> (m_tool_calls m \<noteq> [] \<longrightarrow> m_role m = RoleAssistant)"
      using key projected_keeps[OF f, of "ch_message c" iv e rid]
      by (auto simp: keeps_def is_tool_result_def talk_message_def)
  qed
qed

lemma own_result:
  assumes f: "faithful_projector p" and w: "well_formed e" "is_result e"
    and o: "\<not> isOtherAgentReply p (iv_agent iv) (iv_branch iv) e"
  shows "\<forall>m \<in> set (projectMessagesForEvent p uuid iv e rid). is_tool_result m \<and> m_tool_id m \<in> set (res e)
    \<and> m_tool_calls m = []"
proof -
  obtain r where r: "ev_response e = Some r" "result_rsp r" using w by (rule result_event)
  show ?thesis
  proof
    fix m assume "m \<in> set (projectMessagesForEvent p uuid iv e rid)"
    then obtain c where c: "c \<in> set (rsp_choices r)" "m = projected p iv e rid (ch_message c)"
      using r(1) by (auto simp: project_own[OF o] choices_of_def)
    have k: "keeps (ch_message c) m" unfolding c(2) by (rule projected_keeps[OF f])
    have "m_tool_id (ch_message c) \<in> set (res e)"
      unfolding r(1) result_facts(3)[OF r(2)] using c(1) by simp
    then show "is_tool_result m \<and> m_tool_id m \<in> set (res e) \<and> m_tool_calls m = []"
      using k c(1) r(2) by (auto simp: keeps_def is_tool_result_def result_rsp_def)
  qed
qed

lemma own_talk:
  assumes f: "faithful_projector p" and w: "well_formed e" "\<not> is_result e"
    and o: "\<not> isOtherAgentReply p (iv_agent iv) (iv_branch iv) e"
  shows "\<forall>m \<in> set (projectMessagesForEvent p uuid iv e rid). \<not> is_tool_result m \<and> (m_tool_calls m \<noteq> [] \<longrightarrow> m_role m = RoleAssistant)"
    and "cal e \<noteq> [] \<Longrightarrow> \<exists>m. projectMessagesForEvent p uuid iv e rid = [m] \<and> call_ids m = cal e"
proof -
  have "ev_response e = None \<or> (\<exists>r. ev_response e = Some r \<and> talk_rsp r)"
    using w by (cases rule: well_formed_cases) (auto simp: result_facts)
  then show "\<forall>m \<in> set (projectMessagesForEvent p uuid iv e rid). \<not> is_tool_result m \<and> (m_tool_calls m \<noteq> [] \<longrightarrow> m_role m = RoleAssistant)"
    using projected_keeps[OF f, of _ iv e rid]
    by (fastforce simp: project_own[OF o] choices_of_def talk_rsp_def talk_message_def keeps_def is_tool_result_def)
  assume c: "cal e \<noteq> []"
  obtain r where r: "ev_response e = Some r" "talk_rsp r"
    using w c by (cases rule: well_formed_cases) (auto simp: none_facts result_facts)
  have cal: "concat (map (\<lambda>c. call_ids (ch_message c)) (rsp_choices r)) \<noteq> []"
    using c unfolding r(1) talk_facts(3)[OF r(2)] .
  then have "\<not> (\<forall>c \<in> set (rsp_choices r). m_tool_calls (ch_message c) = [])" by (auto simp: call_ids_def)
  then have "length (rsp_choices r) \<le> 1" using r(2) unfolding talk_rsp_def by blast
  with cal obtain x where x: "rsp_choices r = [x]" by (cases "rsp_choices r") auto
  define m where "m = projected p iv e rid (ch_message x)"
  have k: "keeps (ch_message x) m" unfolding m_def by (rule projected_keeps[OF f])
  have "m_tool_calls m \<noteq> []" using k cal x by (auto simp: keeps_def call_ids_def)
  then have "projectMessagesForEvent p uuid iv e rid = [m]"
    by (simp add: project_own[OF o] choices_of_def r(1) x m_def isEmptyAssistantMessage_def)
  moreover have "call_ids m = cal e"
    using keeps_facts[OF k] unfolding r(1) talk_facts(3)[OF r(2)] x by simp
  ultimately show "\<exists>m. projectMessagesForEvent p uuid iv e rid = [m] \<and> call_ids m = cal e" by blast
qed

section \<open>All events\<close>

abbreviation messages_of :: "processor \<Rightarrow> string \<Rightarrow> invocation \<Rightarrow> string \<Rightarrow> event list \<Rightarrow> message list" where
  "messages_of p uuid iv rid evs \<equiv> concat (map (\<lambda>e. projectMessagesForEvent p uuid iv e rid) evs)"

definition callers_ok :: "message list \<Rightarrow> bool" where
  "callers_ok ms \<longleftrightarrow> (\<forall>m \<in> set ms. m_tool_calls m \<noteq> [] \<longrightarrow> m_role m = RoleAssistant)"

lemma event_callers:
  assumes "faithful_projector p" "well_formed e"
  shows "callers_ok (projectMessagesForEvent p uuid iv e rid)"
  using foreign_talks[OF assms, of iv uuid rid] own_result[OF assms, of iv uuid rid] own_talk(1)[OF assms, of iv uuid rid]
  by (cases "is_result e"; cases "isOtherAgentReply p (iv_agent iv) (iv_branch iv) e") (auto simp: callers_ok_def)

lemma other_agent_cong:
  "ev_author r = ev_author e \<Longrightarrow> ev_branch r = ev_branch e \<Longrightarrow> isOtherAgentReply p a b r = isOtherAgentReply p a b e"
  by (simp add: isOtherAgentReply_def)

lemma talk_event_answered:
  assumes "faithful_projector p" "well_formed e" "\<not> is_result e" "answered [] ys"
  shows "answered ids (projectMessagesForEvent p uuid iv e rid @ ys)"
proof (cases "isOtherAgentReply p (iv_agent iv) (iv_branch iv) e")
  case True
  then show ?thesis using foreign_talks[OF assms(1,2) True, of uuid rid] assms(4) by (intro answered_talk) auto
next
  case False
  then show ?thesis using own_talk(1)[OF assms(1-3) False, of uuid rid] assms(4) by (intro answered_talk) auto
qed

lemma answer_event_answered:
  assumes f: "faithful_projector p" and e: "well_formed e" "\<not> is_result e" and r: "well_formed r" "is_result r"
    and ids: "set (res r) \<subseteq> set (cal e)" and a: "ev_author r = ev_author e" "ev_branch r = ev_branch e"
    and ys: "answered [] ys"
  shows "answered [] (projectMessagesForEvent p uuid iv e rid @ projectMessagesForEvent p uuid iv r rid @ ys)"
proof (cases "isOtherAgentReply p (iv_agent iv) (iv_branch iv) e")
  case True
  then have o: "isOtherAgentReply p (iv_agent iv) (iv_branch iv) r" using other_agent_cong[OF a] by simp
  have "answered [] (projectMessagesForEvent p uuid iv r rid @ ys)"
    using foreign_talks[OF f r(1) o, of uuid rid] ys by (intro answered_talk) auto
  then show ?thesis by (rule talk_event_answered[OF f e])
next
  case False
  then have o: "\<not> isOtherAgentReply p (iv_agent iv) (iv_branch iv) r" using other_agent_cong[OF a] by simp
  have "cal e \<noteq> []" using ids result_has_ids[OF r] by auto
  then obtain m where m: "projectMessagesForEvent p uuid iv e rid = [m]" "call_ids m = cal e"
    using own_talk(2)[OF f e False] by blast
  have nm: "\<not> is_tool_result m" using own_talk(1)[OF f e False, of uuid rid] m(1) by simp
  have "\<forall>x \<in> set (projectMessagesForEvent p uuid iv r rid). is_tool_result x \<and> m_tool_id x \<in> set (call_ids m)"
    using own_result[OF f r o, of uuid rid] ids m(2) by auto
  then have "answered (call_ids m) (projectMessagesForEvent p uuid iv r rid @ ys)"
    using ys by (rule answered_results)
  then show ?thesis by (simp add: m(1) nm)
qed

lemma threaded_answered:
  assumes f: "faithful_projector p"
  shows "threaded evs \<Longrightarrow> \<forall>e \<in> set evs. well_formed e \<Longrightarrow> answered [] (messages_of p uuid iv rid evs)"
proof (induction rule: threaded.induct)
  case (threaded_talk e es)
  then show ?case using talk_event_answered[OF f] by simp
next
  case (threaded_answer e r es)
  then show ?case using answer_event_answered[OF f, of e r] by simp
qed simp

text \<open>Compaction keeps the thread.\<close>

lemma same_choice_delta: "same_choice c c' \<Longrightarrow> ch_delta c' = ch_delta c"
  by (cases c; cases c') (simp add: same_choice_def)

lemma same_result_choice:
  assumes "same_choice c c'"
    "is_tool_result (ch_message c) \<and> m_tool_calls (ch_message c) = [] \<and> plain_delta c"
  shows "is_tool_result (ch_message c') \<and> m_tool_calls (ch_message c') = [] \<and> plain_delta c'
    \<and> m_tool_id (ch_message c') = m_tool_id (ch_message c)"
  using assms same_choice_delta[OF assms(1)]
  by (auto simp: same_choice_def shortened_def is_tool_result_def plain_delta_def)

lemma same_result_choices:
  "list_all2 same_choice cs cs' \<Longrightarrow>
   \<forall>c \<in> set cs. is_tool_result (ch_message c) \<and> m_tool_calls (ch_message c) = [] \<and> plain_delta c \<Longrightarrow>
   (\<forall>c \<in> set cs'. is_tool_result (ch_message c) \<and> m_tool_calls (ch_message c) = [] \<and> plain_delta c)
   \<and> map (\<lambda>c. m_tool_id (ch_message c)) cs' = map (\<lambda>c. m_tool_id (ch_message c)) cs"
  by (induction rule: list_all2_induct) (use same_result_choice in auto)

lemma same_talk_choices:
  "list_all2 same_choice cs cs' \<Longrightarrow> \<forall>c \<in> set cs. talk_message (ch_message c) \<and> plain_delta c \<Longrightarrow> cs' = cs"
proof (induction rule: list_all2_induct)
  case (Cons c cs c' cs')
  then have "ch_message c' = ch_message c" by (auto simp: same_choice_def shortened_def talk_message_def)
  then have "c' = c" using Cons(1) by (cases c; cases c') (simp add: same_choice_def)
  with Cons show ?case by simp
qed simp

lemma same_event_facts:
  assumes s: "same_event e e'" and w: "well_formed e"
  shows "ev_author e' = ev_author e \<and> ev_branch e' = ev_branch e \<and> well_formed e'
    \<and> is_result e' = is_result e \<and> res e' = res e \<and> cal e' = cal e"
proof -
  have fields: "ev_author e' = ev_author e \<and> ev_branch e' = ev_branch e"
    using s by (cases e; cases e') (simp add: same_event_def)
  have rel: "rel_option same_response (ev_response e) (ev_response e')" using s by (simp add: same_event_def)
  from w show ?thesis
  proof (cases rule: well_formed_cases)
    case none
    then show ?thesis using fields rel by (auto simp: well_formed_def)
  next
    case (result r)
    obtain r' where r': "ev_response e' = Some r'" "same_response r r'"
      using rel result(1) by (cases "ev_response e'") auto
    have c: "list_all2 same_choice (rsp_choices r) (rsp_choices r')" using r'(2) by (simp add: same_response_def)
    have k: "(\<forall>c \<in> set (rsp_choices r'). is_tool_result (ch_message c) \<and> m_tool_calls (ch_message c) = [] \<and> plain_delta c)
        \<and> map (\<lambda>c. m_tool_id (ch_message c)) (rsp_choices r') = map (\<lambda>c. m_tool_id (ch_message c)) (rsp_choices r)"
      using same_result_choices[OF c] result(2) unfolding result_rsp_def by blast
    have rr: "result_rsp r'" using k c result(2) unfolding result_rsp_def by auto
    have "GetToolResultIDs (Some r') = GetToolResultIDs (Some r)"
      unfolding result_facts(3)[OF rr] result_facts(3)[OF result(2)] using k by blast
    then show ?thesis
      using fields result_facts(1,4)[OF rr] result_facts(1,4)[OF result(2)] rr
      unfolding result(1) r'(1) well_formed_def by simp
  next
    case (talk r)
    obtain r' where r': "ev_response e' = Some r'" "same_response r r'"
      using rel talk(1) by (cases "ev_response e'") auto
    have "rsp_choices r' = rsp_choices r"
      using r'(2) talk(2) same_talk_choices by (auto simp: same_response_def talk_rsp_def)
    then have "r' = r" using r'(2) by (cases r; cases r') (simp add: same_response_def)
    then show ?thesis using fields talk r' by (simp add: well_formed_def)
  qed
qed

lemma threaded_same:
  "threaded evs \<Longrightarrow> list_all2 same_event evs evs' \<Longrightarrow> \<forall>e \<in> set evs. well_formed e \<Longrightarrow>
   threaded evs' \<and> (\<forall>e \<in> set evs'. well_formed e)"
proof (induction arbitrary: evs' rule: threaded.induct)
  case (threaded_talk e es)
  then obtain e' es' where e: "evs' = e' # es'" "same_event e e'" "list_all2 same_event es es'"
    by (auto simp: list_all2_Cons1)
  with threaded_talk same_event_facts[OF e(2)] show ?case by (auto intro: threaded.threaded_talk)
next
  case (threaded_answer e r es)
  then obtain e' r' es' where e: "evs' = e' # r' # es'" "same_event e e'" "same_event r r'"
    "list_all2 same_event es es'"
    by (auto simp: list_all2_Cons1)
  with threaded_answer same_event_facts[OF e(2)] same_event_facts[OF e(3)] show ?case
    by (auto intro!: threaded.threaded_answer)
qed (auto intro: threaded_nil)

section \<open>Cutting and merging messages\<close>

lemma merge_loop_answered:
  "callers_ok ms \<Longrightarrow>
   (case cur of
      None \<Rightarrow> answered ids ms \<longrightarrow> answered ids (merge_loop cur ms)
    | Some c \<Rightarrow> \<not> is_tool_result c \<longrightarrow> call_ids c = [] \<longrightarrow> answered [] ms \<longrightarrow> answered ids (merge_loop cur ms))"
proof (induction cur ms arbitrary: ids rule: merge_loop.induct)
  case (3 cur m ms)
  have c: "callers_ok ms" and m: "m_tool_calls m \<noteq> [] \<longrightarrow> m_role m = RoleAssistant"
    using 3(4) by (auto simp: callers_ok_def)
  have ctx: "call_ids m = [] \<and> \<not> is_tool_result m" if "is_context_message m"
    using that m by (auto simp: is_context_message_def call_ids_def is_tool_result_def)
  have add: "call_ids (add_to_context x m) = call_ids x \<and> is_tool_result (add_to_context x m) = is_tool_result x" for x
    by (simp add: add_to_context_def call_ids_def is_tool_result_def Let_def)
  show ?case
  proof (cases "is_context_message m")
    case False
    then show ?thesis using 3(1)[OF False c, of "if is_tool_result m then ids else call_ids m"]
        3(1)[OF False c, of "if is_tool_result m then [] else call_ids m"]
      by (cases cur) (auto split: if_splits)
  next
    case True
    show ?thesis
    proof (cases cur)
      case None
      then show ?thesis using 3(2)[of ids] True c ctx[OF True] by (simp add: answered_from_none)
    next
      case (Some x)
      then show ?thesis using 3(3)[of x ids] True c ctx[OF True] add[of x] by simp
    qed
  qed
qed (auto intro: answered_from_none)

lemma mergeUserMessages_answered:
  assumes "callers_ok ms" "answered [] ms"
  shows "answered [] (mergeUserMessages p ms)"
  using merge_loop_answered[OF assms(1), where cur = None and ids = "[]"] assms(2)
  by (simp add: mergeUserMessages_def Let_def)

text \<open>What a cut leaves open are calls in front of the cut.\<close>

lemma answered_drop:
  "answered ids (pre @ ms) \<Longrightarrow> \<exists>open. answered open ms \<and> set open \<subseteq> set ids \<union> set (concat (map call_ids pre))"
proof (induction pre arbitrary: ids)
  case (Cons m pre)
  from Cons.prems have "answered (if is_tool_result m then ids else call_ids m) (pre @ ms)"
    by (simp split: if_splits)
  from Cons.IH[OF this] show ?case by (auto split: if_splits)
qed auto

lemma answered_dropWhile:
  "answered open ms \<Longrightarrow> \<forall>i \<in> set open. i \<noteq> [] \<longrightarrow> i \<in> T \<Longrightarrow>
   answered [] (dropWhile (\<lambda>m. is_tool_result m \<and> m_tool_id m \<in> T) ms)"
proof (induction ms)
  case (Cons m ms)
  then show ?case by (cases "is_tool_result m") (auto simp: is_tool_result_def)
qed simp

lemma answered_cut:
  assumes "answered [] ms"
  shows "answered [] (applyMaxHistoryRuns ms n)"
proof -
  define i where "i = nat (int (length ms) - n)"
  define T where "T = filter (\<lambda>i. i \<noteq> []) (concat (map call_ids (take i ms)))"
  have "answered [] (take i ms @ drop i ms)" using assms by simp
  then obtain open' where o: "answered open' (drop i ms)" "set open' \<subseteq> set (concat (map call_ids (take i ms)))"
    using answered_drop[of "[]" "take i ms" "drop i ms"] by auto
  have "\<forall>j \<in> set open'. j \<noteq> [] \<longrightarrow> j \<in> set T" using o(2) by (auto simp: T_def)
  then have d: "answered [] (dropWhile (\<lambda>m. is_tool_result m \<and> m_tool_id m \<in> set T) (drop i ms))"
    using o(1) by (intro answered_dropWhile)
  show ?thesis
  proof (cases "drop i ms")
    case Nil
    then show ?thesis using assms by (simp add: applyMaxHistoryRuns_def i_def[symmetric])
  next
    case (Cons m rest)
    show ?thesis
    proof (cases "is_tool_result m")
      case False
      then have "answered [] (drop i ms)" using o(1) Cons by simp
      then show ?thesis using False Cons assms by (simp add: applyMaxHistoryRuns_def i_def[symmetric])
    next
      case True
      then show ?thesis using d Cons assms by (simp add: applyMaxHistoryRuns_def i_def[symmetric] T_def[symmetric])
    qed
  qed
qed

section \<open>Collecting\<close>

definition drv :: "event \<Rightarrow> event \<Rightarrow> bool" where
  "drv v v' \<longleftrightarrow>
     ev_author v' = ev_author v \<and> ev_branch v' = ev_branch v \<and> res v' = res v \<and> cal v' = cal v \<and> well_formed v'"

lemma compacted_results:
  "\<forall>c \<in> set cs. is_tool_result (ch_message c) \<and> m_tool_calls (ch_message c) = [] \<Longrightarrow>
   (\<forall>c \<in> set (compacted_choices cs).
      is_tool_result (ch_message c) \<and> m_tool_calls (ch_message c) = [] \<and> plain_delta c)
   \<and> map (\<lambda>c. m_tool_id (ch_message c)) (compacted_choices cs) = map (\<lambda>c. m_tool_id (ch_message c)) cs"
  by (induction cs)
    (auto simp: compacted_choices_def compactedCurrentInvocationMessage_def is_tool_result_def
      message_choice_def empty_message_def plain_delta_def)

lemma compacted_no_calls:
  "\<forall>c \<in> set cs. talk_message (ch_message c) \<and> m_tool_calls (ch_message c) = [] \<Longrightarrow> compacted_choices cs = []"
  by (auto simp: compacted_choices_def compactedCurrentInvocationMessage_def talk_message_def)

lemma compacted_call:
  assumes "talk_message (ch_message c)" "m_tool_calls (ch_message c) \<noteq> []"
  obtains c' where "compacted_choices [c] = [c']" "talk_message (ch_message c')" "plain_delta c'"
    "m_tool_calls (ch_message c') = m_tool_calls (ch_message c)"
  using assms
  by (auto simp: compacted_choices_def compactedCurrentInvocationMessage_def talk_message_def
      message_choice_def empty_message_def plain_delta_def)

lemma compact_drv:
  assumes w: "well_formed v" and c: "compactCurrentInvocationEvent so p v iv fk since = Some v'"
  shows "drv v v'"
proof -
  obtain r where r: "ev_response v = Some r" "compacted_choices (rsp_choices r) \<noteq> []"
    and v': "v' = v\<lparr>ev_response := Some (empty_response\<lparr>rsp_done := rsp_done r, rsp_object := rsp_object r,
                      rsp_choices := compacted_choices (rsp_choices r)\<rparr>)\<rparr>"
    using c by (auto simp: compactCurrentInvocationEvent_def split: if_splits option.splits)
  define r' where "r' = empty_response\<lparr>rsp_done := rsp_done r, rsp_object := rsp_object r,
      rsp_choices := compacted_choices (rsp_choices r)\<rparr>"
  have rc: "rsp_choices r' = compacted_choices (rsp_choices r)" by (simp add: r'_def)
  have e': "ev_response v' = Some r'" "ev_author v' = ev_author v" "ev_branch v' = ev_branch v"
    by (simp_all add: v' r'_def)
  show ?thesis
  proof (cases "result_rsp r")
    case True
    then have k: "\<forall>c \<in> set (rsp_choices r). is_tool_result (ch_message c) \<and> m_tool_calls (ch_message c) = []"
      by (simp add: result_rsp_def)
    have r': "result_rsp r'" using compacted_results[OF k] r(2) by (simp add: result_rsp_def rc)
    have "GetToolResultIDs (Some r') = GetToolResultIDs (Some r)"
      unfolding result_facts(3)[OF r'] result_facts(3)[OF True] rc using compacted_results[OF k] by blast
    then show ?thesis
      using result_facts(4)[OF r'] result_facts(4)[OF True] r' unfolding drv_def e' r(1) well_formed_def
      by simp
  next
    case False
    then have t: "talk_rsp r" using w r(1) by (simp add: well_formed_def)
    then have "\<not> (\<forall>c \<in> set (rsp_choices r). m_tool_calls (ch_message c) = [])"
      using compacted_no_calls[of "rsp_choices r"] r(2) by (auto simp: talk_rsp_def)
    then have "length (rsp_choices r) \<le> 1" "\<not> (\<forall>c \<in> set (rsp_choices r). m_tool_calls (ch_message c) = [])"
      using t unfolding talk_rsp_def by blast+
    then obtain x where x: "rsp_choices r = [x]" "m_tool_calls (ch_message x) \<noteq> []"
      by (cases "rsp_choices r") auto
    obtain c' where c': "compacted_choices [x] = [c']" "talk_message (ch_message c')" "plain_delta c'"
      "m_tool_calls (ch_message c') = m_tool_calls (ch_message x)"
      using compacted_call[of x] t x by (auto simp: talk_rsp_def)
    have t': "talk_rsp r'" using c' x by (simp add: talk_rsp_def rc)
    have "GetToolCallIDs (Some r') = GetToolCallIDs (Some r)"
      unfolding talk_facts(3)[OF t'] talk_facts(3)[OF t] rc x(1) c'(1) using c'(4) by (simp add: call_ids_def)
    then show ?thesis
      using talk_facts(2)[OF t'] talk_facts(2)[OF t] t' unfolding drv_def e' r(1) well_formed_def by simp
  qed
qed

lemma error_content_drv:
  assumes w: "well_formed v"
  shows "drv v (with_error_content v)"
proof (cases "\<exists>r c cs err. ev_response v = Some r \<and> rsp_choices r = c # cs \<and> rsp_error r = Some err")
  case False
  then have "with_error_content v = v"
    by (auto simp: with_error_content_def split: option.splits list.splits)
  then show ?thesis using w by (simp add: drv_def)
next
  case True
  then obtain r c cs err where r: "ev_response v = Some r" "rsp_choices r = c # cs" "rsp_error r = Some err"
    by blast
  define c' where "c' = c\<lparr>ch_message := (ch_message c)\<lparr>m_content := error_content err\<rparr>\<rparr>"
  define r' where "r' = r\<lparr>rsp_choices := c' # cs\<rparr>"
  have e: "with_error_content v = v\<lparr>ev_response := Some r'\<rparr>"
    by (simp add: with_error_content_def r r'_def c'_def)
  have c: "m_tool_id (ch_message c') = m_tool_id (ch_message c)" "m_tool_calls (ch_message c') = m_tool_calls (ch_message c)"
    "is_tool_result (ch_message c') = is_tool_result (ch_message c)" "talk_message (ch_message c') = talk_message (ch_message c)"
    "plain_delta c' = plain_delta c" "ch_delta c' = ch_delta c"
    by (simp_all add: c'_def is_tool_result_def talk_message_def plain_delta_def)
  have "result_rsp r' = result_rsp r" "talk_rsp r' = talk_rsp r"
    using c by (simp_all add: result_rsp_def talk_rsp_def r'_def r(2))
  moreover have "GetToolResultIDs (Some r') = GetToolResultIDs (Some r)" "GetToolCallIDs (Some r') = GetToolCallIDs (Some r)"
    using c by (simp_all add: GetToolResultIDs_def GetToolCallIDs_def r'_def r(2))
  ultimately show ?thesis using w unfolding e drv_def well_formed_def by (simp add: r(1))
qed

lemma linked_drv:
  assumes d: "list_all2 drv evs evs'" and l: "well_linked evs"
  shows "well_linked evs'"
proof -
  have m: "map cal evs' = map cal evs" using d by (induction rule: list_all2_induct) (auto simp: drv_def)
  have src: "\<exists>v \<in> set evs. drv v v'" if "v' \<in> set evs'" for v'
    using d that by (induction rule: list_all2_induct) auto
  have "well_formed v'" if "v' \<in> set evs'" for v' using src[OF that] by (auto simp: drv_def)
  moreover have "distinct (concat (map cal evs'))" using l unfolding m well_linked_def by blast
  moreover have "set (res r') \<subseteq> set (cal e') \<and> ev_author r' = ev_author e' \<and> ev_branch r' = ev_branch e'"
    if h: "e' \<in> set evs'" "r' \<in> set evs'" "set (cal e') \<inter> set (res r') \<noteq> {}" for e' r'
  proof -
    obtain e r where er: "e \<in> set evs" "drv e e'" "r \<in> set evs" "drv r r'" using src h(1,2) by blast
    obtain i where "i \<in> set (cal e)" "i \<in> set (res r)" using h(3) er(2,4) by (auto simp: drv_def)
    from linked_link[OF l er(1,3) this] show ?thesis using er(2,4) by (simp add: drv_def)
  qed
  ultimately show ?thesis unfolding well_linked_def by blast
qed

lemma linked_insert:
  assumes l: "well_linked (xs @ ys)" and u: "well_formed u" "cal u = []" "res u = []"
  shows "well_linked (xs @ u # ys)"
proof -
  have "concat (map cal (xs @ u # ys)) = concat (map cal (xs @ ys))" using u(2) by simp
  moreover have "set (xs @ u # ys) = insert u (set (xs @ ys))" by simp
  ultimately show ?thesis using l u unfolding well_linked_def by auto
qed

lemma load_append: "valid h xs \<Longrightarrow> x \<in> set xs \<Longrightarrow> load (h @ t) x = load h x"
  by (cases "he_ptr x") (auto simp: load_def rsp_at_def valid_def nth_append dest: bspec)

lemma valid_append: "valid h xs \<Longrightarrow> valid (h @ t) xs"
  by (fastforce simp: valid_def split: option.splits)

lemma place_facts:
  assumes "place h ev = (h', e')" "valid h xs"
  shows "(\<exists>t. h' = h @ t) \<and> valid h' (xs @ [e']) \<and> load h' e' = ev \<and> (\<forall>x \<in> set xs. load h' x = load h x)"
proof (cases "ev_response ev")
  case None
  then show ?thesis using assms by (cases ev) (auto simp: place_def load_def rsp_at_def valid_def)
next
  case (Some r)
  then have h': "h' = h @ [r]" "e' = \<lparr>he_fields = ev\<lparr>ev_response := None\<rparr>, he_ptr = Some (length h)\<rparr>"
    using assms(1) by (auto simp: place_def)
  have "load h' e' = ev" using Some by (cases ev) (simp add: load_def rsp_at_def h')
  moreover have "valid h' (xs @ [e'])" using valid_append[OF assms(2), of "[r]"] by (auto simp: valid_def h')
  ultimately show ?thesis using load_append[OF assms(2)] h'(1) by blast
qed

text \<open>The events collected from those seen so far.\<close>

definition collected_from :: "heap \<Rightarrow> hevent list \<Rightarrow> heap \<Rightarrow> hevent list \<Rightarrow> bool" where
  "collected_from h0 seen h events \<longleftrightarrow>
     (\<exists>t. h = h0 @ t) \<and> valid h events
     \<and> (\<exists>sub. subseq sub (map (load h0) seen) \<and> list_all2 drv sub (map (load h) events))"

lemma collected_skip:
  "collected_from h0 seen h events \<Longrightarrow> collected_from h0 (seen @ [e]) h events"
  unfolding collected_from_def by (auto intro: subseq_order.order_trans[OF _ list_emb_append2])

lemma collected_add:
  assumes c: "collected_from h0 seen h events" and e: "valid h0 [e]" and d: "drv (load h0 e) (load h' e')"
    and h': "\<exists>t. h' = h @ t" "valid h' (events @ [e'])" "\<forall>x \<in> set events. load h' x = load h x"
  shows "collected_from h0 (seen @ [e]) h' (events @ [e'])"
proof -
  obtain sub where s: "subseq sub (map (load h0) seen)" "list_all2 drv sub (map (load h) events)"
    using c unfolding collected_from_def by blast
  have m: "map (load h') events = map (load h) events" using h'(3) by simp
  have "list_all2 drv (sub @ [load h0 e]) (map (load h) events @ [load h' e'])"
    using s(2) d by (intro list_all2_appendI) simp_all
  then have "list_all2 drv (sub @ [load h0 e]) (map (load h') (events @ [e']))"
    by (simp only: map_append m list.map)
  moreover have "subseq (sub @ [load h0 e]) (map (load h0) (seen @ [e]))"
    using s(1) by (simp add: list_emb_append_mono)
  ultimately show ?thesis using c h'(1,2) unfolding collected_from_def by fastforce
qed

lemma collected_place:
  assumes c: "collected_from h0 seen h events" and e: "valid h0 [e]" and d: "drv (load h0 e) v"
    and pl: "place h v = (h', e')"
  shows "collected_from h0 (seen @ [e]) h' (events @ [e'])"
proof -
  have "valid h events" using c by (simp add: collected_from_def)
  from place_facts[OF pl this] show ?thesis using collected_add[OF c e] d by simp
qed

lemma collected_keep:
  assumes c: "collected_from h0 seen h events" and e: "valid h0 [e]" and w: "well_formed (load h0 e)"
  shows "collected_from h0 (seen @ [e]) h (events @ [e])"
proof -
  obtain t where t: "h = h0 @ t" and v: "valid h events" using c by (auto simp: collected_from_def)
  have "load h e = load h0 e" using load_append[OF e, of e] t by simp
  moreover have "valid h (events @ [e])" using v valid_append[OF e, of t] t by (simp add: valid_def)
  ultimately show ?thesis using collected_add[OF c e, of h e] w by (auto simp: drv_def)
qed

lemma collected_step:
  assumes c: "collected_from h0 seen h events" and e: "valid h0 [e]" and w: "well_formed (load h0 e)"
    and v: "\<And>x y. x = load h0 e \<Longrightarrow> f x = Some y \<Longrightarrow> drv x y"
    and s: "(h', events') = (case f (load h e) of
              None \<Rightarrow> if keep (load h e) then (h, events @ [e]) else (h, events)
            | Some y \<Rightarrow> (let (h', e') = place h y in (h', events @ [e'])))"
  shows "collected_from h0 (seen @ [e]) h' events'"
proof -
  obtain t where t: "h = h0 @ t" using c by (auto simp: collected_from_def)
  have l: "load h e = load h0 e" using load_append[OF e, of e] t by simp
  show ?thesis
  proof (cases "f (load h0 e)")
    case None
    then show ?thesis using s collected_keep[OF c e w] collected_skip[OF c] by (simp add: l split: if_splits)
  next
    case (Some y)
    obtain h1 e1 where p: "place h y = (h1, e1)" by (cases "place h y")
    show ?thesis using s collected_place[OF c e v[OF refl Some] p] by (simp add: l Some p)
  qed
qed

lemma increment_collected:
  assumes c: "collected_from h0 seen h events" and e: "valid h0 [e]" and w: "well_formed (load h0 e)"
    and s: "increment_step so p iv since e (h, events, b) = (h', events', b')"
  shows "collected_from h0 (seen @ [e]) h' events'"
proof -
  define f where "f = (\<lambda>ev. case compactCurrentInvocationEvent so p ev iv (iv_filter_key iv) since of
      Some v \<Rightarrow> Some v
    | None \<Rightarrow> if fst (shouldIncludeEvent so p ev iv (iv_filter_key iv) since) \<and> needs_error_content ev
              then Some (with_error_content ev) else None)"
  have v: "drv x y" if "x = load h0 e" "f x = Some y" for x y
    using that w compact_drv[OF w] error_content_drv[OF w] by (auto simp: f_def split: option.splits if_splits)
  show ?thesis
    by (rule collected_step[OF c e w v, where f = f
          and keep = "\<lambda>ev. fst (shouldIncludeEvent so p ev iv (iv_filter_key iv) since)"])
      (use s in \<open>auto simp: increment_step_def f_def Let_def split_beta split: option.splits if_splits\<close>)
qed

lemma current_collected:
  assumes c: "collected_from h0 seen h events" and e: "valid h0 [e]" and w: "well_formed (load h0 e)"
    and s: "current_step iv e (h, events) = (h', events')"
  shows "collected_from h0 (seen @ [e]) h' events'"
proof -
  define f where "f = (\<lambda>ev. if isCurrentInvocationEligibleEvent ev (iv_id iv) \<and> needs_error_content ev
      then Some (with_error_content ev) else None)"
  have v: "drv x y" if "x = load h0 e" "f x = Some y" for x y
    using that w error_content_drv[OF w] by (auto simp: f_def split: if_splits)
  show ?thesis
    by (rule collected_step[OF c e w v, where f = f
          and keep = "\<lambda>ev. isCurrentInvocationEligibleEvent ev (iv_id iv)"])
      (use s in \<open>auto simp: current_step_def f_def Let_def split_beta normalizeCurrentInvocationEvent_def
        split: if_splits\<close>)
qed

lemma collected_nil: "collected_from h0 [] h0 []"
  by (auto simp: collected_from_def valid_def)

lemma valid_single: "valid h xs \<Longrightarrow> x \<in> set xs \<Longrightarrow> valid h [x]"
  by (simp add: valid_def)

lemma increments_collected:
  assumes "valid h0 (seen @ es)" "\<forall>x \<in> set (seen @ es). well_formed (load h0 x)"
    and "collected_from h0 seen h events" "fold (increment_step so p iv since) es (h, events, b) = (h', events', b')"
  shows "collected_from h0 (seen @ es) h' events'"
  using assms
proof (induction es arbitrary: seen h events b)
  case (Cons e es)
  obtain h1 ev1 b1 where s: "increment_step so p iv since e (h, events, b) = (h1, ev1, b1)" by (metis prod_cases3)
  have "collected_from h0 (seen @ [e]) h1 ev1"
    by (rule increment_collected[OF Cons.prems(3) valid_single[OF Cons.prems(1)] _ s]) (use Cons.prems(2) in auto)
  from Cons.IH[OF _ _ this, of b1] show ?case using Cons.prems s by simp
qed simp

lemma currents_collected:
  assumes "valid h0 (seen @ es)" "\<forall>x \<in> set (seen @ es). well_formed (load h0 x)"
    and "collected_from h0 seen h events" "fold (current_step iv) es (h, events) = (h', events')"
  shows "collected_from h0 (seen @ es) h' events'"
  using assms
proof (induction es arbitrary: seen h events)
  case (Cons e es)
  obtain h1 ev1 where s: "current_step iv e (h, events) = (h1, ev1)" by (metis prod.exhaust)
  have "collected_from h0 (seen @ [e]) h1 ev1"
    by (rule current_collected[OF Cons.prems(3) valid_single[OF Cons.prems(1)] _ s]) (use Cons.prems(2) in auto)
  from Cons.IH[OF _ _ this] show ?case using Cons.prems s by simp
qed simp

lemma collected_linked:
  assumes "well_linked (map (load h0) seen)" "collected_from h0 seen h events"
  shows "well_linked (map (load h) events) \<and> valid h events"
  using assms linked_subseq linked_drv unfolding collected_from_def by blast

definition plain_user :: "message \<Rightarrow> bool" where
  "plain_user m \<longleftrightarrow> talk_message m \<and> m_tool_calls m = []"

lemma user_event_facts:
  assumes "plain_user (iv_message iv)"
  shows "well_formed (user_event uuid now iv)" "cal (user_event uuid now iv) = []" "res (user_event uuid now iv) = []"
proof -
  define r where "r = empty_response\<lparr>rsp_choices := [message_choice (iv_message iv)]\<rparr>"
  have e: "ev_response (user_event uuid now iv) = Some r"
    by (simp add: user_event_def NewResponseEvent_def event_New_def WithResponse_def r_def)
  have t: "talk_rsp r"
    using assms by (simp add: talk_rsp_def r_def message_choice_def plain_delta_def empty_message_def plain_user_def)
  then show "well_formed (user_event uuid now iv)" by (simp add: well_formed_def e)
  show "cal (user_event uuid now iv) = []"
    unfolding e talk_facts(3)[OF t] using assms by (simp add: r_def message_choice_def plain_user_def call_ids_def)
  show "res (user_event uuid now iv) = []" unfolding e by (rule talk_facts(2)[OF t])
qed

lemma insert_linked:
  assumes l: "well_linked (map (load h) es)" and v: "valid h es" and m: "plain_user (iv_message iv)"
    and i: "insertInvocationMessage uuid now h es iv = (h', es')"
  shows "well_linked (map (load h') es') \<and> valid h' es'"
proof (cases "HasPayload (iv_message iv)")
  case False
  then show ?thesis using i l v by (simp add: insertInvocationMessage_def)
next
  case True
  obtain h1 u where pl: "place h (user_event uuid now iv) = (h1, u)" by (cases "place h (user_event uuid now iv)")
  note P = place_facts[OF pl v]
  have h': "h' = h1" and "\<exists>xs ys. es = xs @ ys \<and> es' = xs @ u # ys"
  proof -
    show "h' = h1" using i True pl by (auto simp: insertInvocationMessage_def Let_def split: if_splits)
    have "es' = [u] \<and> es = [] \<or> es' = es @ [u]
        \<or> es' = takeWhile (\<lambda>e. \<not> of_invocation iv e) es @ u # dropWhile (\<lambda>e. \<not> of_invocation iv e) es"
      using i True pl by (auto simp: insertInvocationMessage_def Let_def split: if_splits)
    then show "\<exists>xs ys. es = xs @ ys \<and> es' = xs @ u # ys"
      by (metis append_Nil append_Nil2 takeWhile_dropWhile_id)
  qed
  then obtain xs ys where xy: "es = xs @ ys" "es' = xs @ u # ys" by blast
  have same: "map (load h1) xs = map (load h) xs" "map (load h1) ys = map (load h) ys" using P xy(1) by auto
  have "well_linked (map (load h) xs @ user_event uuid now iv # map (load h) ys)"
    using linked_insert[OF _ user_event_facts[OF m]] l xy(1) by simp
  moreover have "valid h1 es'" using P by (auto simp: xy valid_def)
  moreover have "map (load h1) es' = map (load h) xs @ user_event uuid now iv # map (load h) ys"
    using P by (simp only: xy(2) map_append list.map same)
  ultimately show ?thesis by (simp only: h')
qed

lemma history_threaded:
  assumes l: "well_linked (map (load h) es)" and v: "valid h es"
    and r: "rearrangeLatestFuncResp h es = (h1, es1)" and a: "rearrangeAsyncFuncRespHist h1 es1 = (h2, es2)"
  shows "threaded (map (load h2) es2) \<and> (\<forall>e \<in> set (map (load h2) es2). well_formed e)"
proof -
  have g: "regroup es h h1" and s: "subseq es1 es" using rearrange_latest_linked[OF l v r] by auto
  have l1: "well_linked (map (load h1) es1)"
    using linked_subseq[OF subseq_map[OF s] linked_regroup[OF l g]] .
  have v1: "valid h1 es1" using regroup_valid[OF g v] subseq_subset[OF s] by (auto simp: valid_def)
  have t: "regroup es1 h1 h2 \<and> set es2 \<subseteq> set es1 \<and> threaded (map (load h2) es2)"
    using async_threaded[OF l1 v1 index_ok[OF l1], of es1 h2 es2] a
    by (simp add: rearrangeAsyncFuncRespHist_def)
  then have "\<forall>e \<in> set es2. well_formed (load h2 e)" using regroup_facts[OF l1, of h2] by blast
  with t show ?thesis by simp
qed

lemma messages_callers:
  "faithful_projector p \<Longrightarrow> \<forall>e \<in> set evs. well_formed e \<Longrightarrow> callers_ok (messages_of p uuid iv rid evs)"
  using event_callers[of p] by (fastforce simp: callers_ok_def)

lemma projected_history:
  assumes "faithful_projector p" "threaded evs" "\<forall>e \<in> set evs. well_formed e"
  shows "answered [] (mergeUserMessages p (messages_of p uuid iv rid evs))"
  using mergeUserMessages_answered[OF messages_callers threaded_answered] assms by blast

lemma compacted_history:
  assumes "threaded evs" "\<forall>e \<in> set evs. well_formed e"
  shows "threaded (fst (compactIncrementEvents evs rid iid cfg))
    \<and> (\<forall>e \<in> set (fst (compactIncrementEvents evs rid iid cfg)). well_formed e)"
proof -
  have "list_all2 same_event evs (fst (compactIncrementEvents evs rid iid cfg))"
    unfolding compactIncrementEvents_map
    by (auto simp: list_all2_conv_all_nth intro: same_event_trans[OF old_pass_same size_pass_same])
  from threaded_same[OF assms(1) this assms(2)] show ?thesis .
qed

lemma annotated_answered: "answered ids (annotateUserMessagesWithAttachedFiles ms) = answered ids ms"
  unfolding annotateUserMessagesWithAttachedFiles_def by (rule answered_map[OF annotate_keeps])

lemma truncated_answered: "answered ids (truncateOversizedToolResultMessages p ms) = answered ids ms"
proof (cases "cc_oversized_max (pr_compaction p) \<le> 0")
  case False
  let ?n = "cc_oversized_max (pr_compaction p)"
  have "keeps m (let (m', truncated, _) = truncateOversizedToolResultMessage m ?n in if truncated then m' else m)" for m
    using truncate_keeps[of m ?n] by (auto simp: Let_def split_beta keeps_def)
  then show ?thesis using False answered_map by (simp add: truncateOversizedToolResultMessages_def)
qed (simp add: truncateOversizedToolResultMessages_def)

lemma increment_answered:
  assumes s: "iv_session iv = Some s" and v: "valid h (hs_events s)" and l: "well_linked (map (load h) (hs_events s))"
    and m: "plain_user (iv_message iv)" and f: "faithful_projector p"
  shows "answered [] (snd (getIncrementMessages so p uuid now h iv since))"
proof -
  obtain h1 e1 b where c: "fold (increment_step so p iv since) (hs_events s) (h, [], False) = (h1, e1, b)"
    by (metis prod_cases3)
  have "collected_from h (hs_events s) h1 e1"
    using increments_collected[of h "[]" "hs_events s" h "[]"] v l collected_nil c by (simp add: well_linked_def)
  from collected_linked[OF l this] have l1: "well_linked (map (load h1) e1)" "valid h1 e1" by auto
  define ins where "ins = (if \<not> b \<and> HasPayload (iv_message iv)
      then insertInvocationMessage uuid now h1 e1 iv else (h1, e1))"
  obtain h2 e2 where i: "ins = (h2, e2)" by (cases ins)
  have l2: "well_linked (map (load h2) e2) \<and> valid h2 e2"
    using i l1 insert_linked[OF l1 m, of uuid now h2 e2] by (auto simp: ins_def split: if_splits)
  obtain h3 e3 where r: "rearrangeLatestFuncResp h2 e2 = (h3, e3)" by (cases "rearrangeLatestFuncResp h2 e2")
  obtain h4 e4 where a: "rearrangeAsyncFuncRespHist h3 e3 = (h4, e4)" by (cases "rearrangeAsyncFuncRespHist h3 e3")
  have t: "threaded (map (load h4) e4)" "\<forall>e \<in> set (map (load h4) e4). well_formed e"
    using history_threaded[OF _ _ r a] l2 by auto
  define evs where "evs = (if pr_timeline_mode p = TimelineFilterAll
      then fst (compactIncrementEvents (map (load h4) e4) (iv_request_id iv) (iv_id iv) (pr_compaction p))
      else map (load h4) e4)"
  have "threaded evs \<and> (\<forall>e \<in> set evs. well_formed e)"
    using t compacted_history[OF t] by (simp add: evs_def)
  then have msgs: "answered [] (mergeUserMessages p (messages_of p uuid iv (iv_request_id iv) evs))"
    using projected_history[OF f] by blast
  have "snd (getIncrementMessages so p uuid now h iv since)
      = annotateUserMessagesWithAttachedFiles
          (let ms = mergeUserMessages p (messages_of p uuid iv (iv_request_id iv) evs)
           in if \<not> pr_add_summary p \<and> 0 < pr_max_runs p then applyMaxHistoryRuns ms (pr_max_runs p) else ms)"
    unfolding getIncrementMessages_def s option.case c Let_def split ins_def[symmetric] i r a evs_def snd_conv ..
  then show ?thesis using msgs answered_cut[OF msgs] by (simp add: annotated_answered Let_def)
qed

lemma current_answered:
  assumes s: "iv_session iv = Some s" and v: "valid h (hs_events s)" and l: "well_linked (map (load h) (hs_events s))"
    and m: "plain_user (iv_message iv)" and f: "faithful_projector p"
  shows "answered [] (snd (getCurrentInvocationMessages p uuid now h iv))"
proof -
  obtain h1 e1 where c: "collectCurrentInvocationEvents iv s h = (h1, e1)"
    by (cases "collectCurrentInvocationEvents iv s h")
  have "collected_from h (hs_events s) h1 e1"
    using currents_collected[of h "[]" "hs_events s" h "[]"] v l collected_nil c
    by (simp add: well_linked_def collectCurrentInvocationEvents_def)
  from collected_linked[OF l this] have l1: "well_linked (map (load h1) e1)" "valid h1 e1" by auto
  define ins where "ins = (if \<not> containsInvocationMessage (map (load h1) e1) (iv_message iv) \<and> HasPayload (iv_message iv)
      then insertInvocationMessage uuid now h1 e1 iv else (h1, e1))"
  obtain h2 e2 where i: "ins = (h2, e2)" by (cases ins)
  have l2: "well_linked (map (load h2) e2) \<and> valid h2 e2"
    using i l1 insert_linked[OF l1 m, of uuid now h2 e2] by (auto simp: ins_def split: if_splits)
  obtain h3 e3 where r: "rearrangeLatestFuncResp h2 e2 = (h3, e3)" by (cases "rearrangeLatestFuncResp h2 e2")
  obtain h4 e4 where a: "rearrangeAsyncFuncRespHist h3 e3 = (h4, e4)" by (cases "rearrangeAsyncFuncRespHist h3 e3")
  have t: "threaded (map (load h4) e4)" "\<forall>e \<in> set (map (load h4) e4). well_formed e"
    using history_threaded[OF _ _ r a] l2 by auto
  have "snd (getCurrentInvocationMessages p uuid now h iv)
      = annotateUserMessagesWithAttachedFiles (truncateOversizedToolResultMessages p
          (mergeUserMessages p (messages_of p uuid iv (iv_request_id iv) (map (load h4) e4))))"
    by (simp add: getCurrentInvocationMessages_def s c ins_def[symmetric] i projectCurrentInvocationMessages_def r a
        comp_def Let_def)
  then show ?thesis
    using projected_history[OF f t, of uuid iv "iv_request_id iv"] by (simp add: annotated_answered truncated_answered)
qed

section \<open>The whole request\<close>

lemma answered_append: "answered ids xs \<Longrightarrow> answered [] ys \<Longrightarrow> answered ids (xs @ ys)"
  by (induction ids xs rule: answered.induct) (auto intro: answered_from_none)

lemma answered_prefix: "answered ids (xs @ ys) \<Longrightarrow> answered ids xs"
  by (induction ids xs rule: answered.induct) auto

lemma answered_keeps: "list_all2 keeps ms ms' \<Longrightarrow> answered ids ms' = answered ids ms"
proof (induction arbitrary: ids rule: list_all2_induct)
  case (Cons m ms m' ms')
  have "m_tool_id m' = m_tool_id m" using Cons(1) by (simp add: keeps_def)
  with Cons keeps_facts[OF Cons(1)] show ?case by simp
qed simp

lemma keeps_refl [simp]: "keeps m m"
  by (simp add: keeps_def)

lemma add_to_system_keeps: "add_to_system c ms = Some ms' \<Longrightarrow> list_all2 keeps ms ms'"
  by (induction ms arbitrary: ms') (auto simp: keeps_def list_all2_same split: if_splits)

lemma add_to_first_user_keeps: "add_to_first_user c ms = Some ms' \<Longrightarrow> list_all2 keeps ms ms'"
  by (induction ms arbitrary: ms') (auto simp: keeps_def list_all2_same split: if_splits)

lemma injected_answered: "answered [] req \<Longrightarrow> answered [] (injectSystemContextMessage req m)"
  by (cases "add_to_system (m_content m) req")
    (auto simp: injectSystemContextMessage_def is_tool_result_def answered_keeps[OF add_to_system_keeps]
      intro: answered_from_none)

lemma few_shot_answered:
  assumes "answered [] req" "callers_ok req" "answered [] (concat examples)"
  shows "answered [] (InsertFewShotMessages req examples)"
proof -
  let ?sys = "\<lambda>m. m_role m = RoleSystem"
  have d: "answered ids (dropWhile ?sys ms)" if "answered ids ms" "callers_ok ms" "ids = []" for ids ms
    using that
  proof (induction ms arbitrary: ids)
    case (Cons m ms)
    show ?case
    proof (cases "?sys m")
      case True
      then have "\<not> is_tool_result m" "call_ids m = []"
        using Cons.prems(2) by (auto simp: is_tool_result_def callers_ok_def call_ids_def)
      then show ?thesis using Cons True by (simp add: callers_ok_def)
    qed (use Cons.prems in simp)
  qed simp
  have "answered [] (takeWhile ?sys req)" using answered_prefix[of "[]" "takeWhile ?sys req" "dropWhile ?sys req"] assms(1) by simp
  then show ?thesis
    using assms(1,3) d[OF assms(1,2) refl]
    by (simp add: InsertFewShotMessages_def flattenFewShotMessages_def Let_def answered_append)
qed

lemma summary_answered:
  assumes "answered [] ms" "answered [] req" "prependSummaryUserMessage p s ms req = (ms', req')"
  shows "answered [] ms' \<and> answered [] req'"
proof -
  have l: "list_all2 keeps req (butlast req @ [(last req)\<lparr>m_content := c\<rparr>])" if "req \<noteq> []" for c
    using that list_all2_appendI[of keeps "butlast req" "butlast req" "[last req]" "[(last req)\<lparr>m_content := c\<rparr>]"]
    by (simp add: list_all2_same keeps_def)
  have nu: "\<not> is_tool_result (NewUserMessage c)" for c
    by (simp add: NewUserMessage_def plain_message_def is_tool_result_def)
  have u: "answered (call_ids (NewUserMessage c)) ms" for c
    using assms(1) by (rule answered_from_none)
  show ?thesis
    using assms(3,1,2) u nu answered_keeps[OF l] answered_keeps[OF add_to_first_user_keeps]
    by (auto simp: prependSummaryUserMessage_def Let_def split: if_splits option.splits)
qed

lemma appended_answered:
  assumes s: "iv_session iv = Some s" "valid h (hs_events s)" "well_linked (map (load h) (hs_events s))"
    "plain_user (iv_message iv)" "faithful_projector p"
    and r: "answered [] req"
    and a: "appendSessionMessages so p uuid now recall h iv req skip incl = (h', req', st, need)"
  shows "answered [] req'"
proof -
  define sm where "sm = (if \<not> skip \<and> pr_add_summary p \<and> pr_timeline_mode p = TimelineFilterAll
      then getSessionSummaryText p iv else ([], 0))"
  define req1 where "req1 = (if pr_preload_memory p \<noteq> 0 \<and> iv_memory iv \<noteq> None
      then (case getPreloadMemoryMessage p iv of None \<Rightarrow> req | Some m \<Rightarrow> injectSystemContextMessage req m) else req)"
  define req2 where "req2 = (if fst sm \<noteq> [] \<and> pr_summary_mode p \<noteq> SessionSummaryInjectionUser
      then injectSystemContextMessage req1 (NewSystemMessage (formatSummary p (fst sm))) else req1)"
  define req3 where "req3 = (if \<not> skip \<and> pr_preload_recall p > 0
      then (case recall of None \<Rightarrow> req2 | Some m \<Rightarrow> injectSystemContextMessage req2 m) else req2)"
  define ms where "ms = snd (if skip then (if incl then getCurrentInvocationMessages p uuid now h iv else (h, []))
      else getIncrementMessages so p uuid now h iv (snd sm))"
  have r3: "answered [] req3"
    using r by (auto simp: req1_def req2_def req3_def injected_answered split: option.splits)
  have m: "answered [] ms"
    using increment_answered[OF s] current_answered[OF s] by (simp add: ms_def)
  obtain ms' req4 where f: "(if fst sm \<noteq> [] \<and> pr_summary_mode p = SessionSummaryInjectionUser
      then prependSummaryUserMessage p (fst sm) ms req3 else (ms, req3)) = (ms', req4)"
    by (metis prod.exhaust)
  have "answered [] ms' \<and> answered [] req4"
    using f m r3 summary_answered[OF m r3] by (auto split: if_splits)
  moreover have "req' = req4 @ ms'"
    using a f unfolding appendSessionMessages_def s(1) option.case Let_def split_beta
      sm_def[symmetric] req1_def[symmetric] req2_def[symmetric] req3_def[symmetric] ms_def[symmetric]
    by simp
  ultimately show ?thesis by (simp add: answered_append)
qed

section \<open>A sample session\<close>

text \<open>
  A question, a message that calls two tools, their results as events of their own, and an answer.
  The response of the first result event holds the second result \<open>n\<close> times more.
\<close>

definition sample_call :: "string \<Rightarrow> tool_call" where
  "sample_call i = \<lparr>tc_type = ''function'',
     tc_function = \<lparr>fn_name = ''f'', fn_strict = False, fn_description = [], fn_arguments = ''{}''\<rparr>,
     tc_id = i, tc_index = None, tc_extra_fields = None\<rparr>"

definition sample_question :: message where "sample_question = plain_message RoleUser ''why?''"

definition sample_calls :: message where
  "sample_calls = (plain_message RoleAssistant [])\<lparr>m_tool_calls := [sample_call ''a'', sample_call ''b'']\<rparr>"

definition sample_answer :: message where "sample_answer = plain_message RoleAssistant ''so''"

definition tool_message :: "string \<Rightarrow> string \<Rightarrow> message" where
  "tool_message i c = (plain_message RoleTool c)\<lparr>m_tool_id := i\<rparr>"

abbreviation result_a :: message where "result_a \<equiv> tool_message ''a'' ''1''"

abbreviation result_b :: message where "result_b \<equiv> tool_message ''b'' ''2''"

definition sample_response :: "message list \<Rightarrow> response" where
  "sample_response ms = empty_response\<lparr>rsp_choices := map message_choice ms\<rparr>"

definition sample_heap :: "nat \<Rightarrow> heap" where
  "sample_heap n = map sample_response
     [[sample_question], [sample_calls], result_a # replicate n result_b, [result_b], [sample_answer]]"

definition sample_event :: "string \<Rightarrow> nat \<Rightarrow> hevent" where
  "sample_event author a =
     \<lparr>he_fields = empty_event\<lparr>ev_request_id := ''r'', ev_invocation := ''i'', ev_author := author,
                   ev_version := CurrentVersion\<rparr>,
      he_ptr = Some a\<rparr>"

definition sample_session :: "nat \<Rightarrow> history_session" where
  "sample_session k = \<lparr>hs_id = ''s'', hs_app = ''app'', hs_user = ''u'',
     hs_events = take k [sample_event ''user'' 0, sample_event ''agent'' 1, sample_event ''agent'' 2,
                         sample_event ''agent'' 3, sample_event ''agent'' 4],
     hs_summaries = None\<rparr>"

definition sample_invocation :: "nat \<Rightarrow> invocation" where
  "sample_invocation k = \<lparr>iv_id = ''i'', iv_agent = ''agent'', iv_branch = [], iv_filter_key = [],
     iv_message = sample_question, iv_session = Some (sample_session k), iv_memory = None,
     iv_request_id = ''r'', iv_injected = [], iv_runtime_state = None, iv_state = []\<rparr>"

lemma sample_linked:
  "valid (sample_heap 0) (hs_events (sample_session 5))
   \<and> well_linked (map (load (sample_heap 0)) (hs_events (sample_session 5)))"
  by code_simp



end
