(* ===== verification/Content_Growth.thy ===== *)
theory Content_Growth
  imports Content_Answers
begin

text \<open>
  Where the rearranging of tool results fails: what it drops when the newest results of a call come
  as events of their own, and what it writes into the session when it merges them.
\<close>

section \<open>The newest results\<close>

lemma find_back_last: "P (xs ! i) \<Longrightarrow> i < n \<Longrightarrow> \<forall>j. i < j \<longrightarrow> j < n \<longrightarrow> \<not> P (xs ! j) \<Longrightarrow> find_back P xs n = Some i"
  by (induction n) (auto simp: less_Suc_eq)

text \<open>
  C37. When the newest event is a tool result, everything between it and its call is left out of the
  request, but for one event: the first one with a result for one of the same calls, which takes
  over their results.  So when the results of several calls of one message come as events of their
  own, the request holds only the newest one's, although its message made the other calls too.
\<close>

theorem newest_results_hide_others:
  assumes c: "IsToolCallResponse (rsp_at h c)" "shares (GetToolResultIDs (rsp_at h r)) (GetToolCallIDs (rsp_at h c))"
    and r: "IsToolResultResponse (rsp_at h r)"
    and m: "\<forall>e \<in> set mid. \<not> (IsToolCallResponse (rsp_at h e)
              \<and> shares (GetToolResultIDs (rsp_at h r)) (GetToolCallIDs (rsp_at h e)))"
  shows "snd (rearrangeLatestFuncResp h (pre @ c # mid @ [r]))
    = pre @ [c, hd (filter (\<lambda>e. IsToolResultResponse (rsp_at h e)
                      \<and> shares (GetToolResultIDs (rsp_at h r)) (GetToolResultIDs (rsp_at h e))) (mid @ [r]))]"
proof -
  define ids where "ids = GetToolResultIDs (rsp_at h r)"
  note c = c[folded ids_def] and m = m[folded ids_def]
  let ?es = "pre @ c # mid @ [r]"
  let ?P = "\<lambda>e. IsToolCallResponse (rsp_at h e) \<and> shares ids (GetToolCallIDs (rsp_at h e))"
  let ?g = "filter (\<lambda>e. IsToolResultResponse (rsp_at h e) \<and> shares ids (GetToolResultIDs (rsp_at h e))) (mid @ [r])"
  obtain k where k: "k \<in> set ids" using c(2) by (auto simp: list_ex_iff)
  have fb: "find_back ?P ?es (length ?es - 1) = Some (length pre)"
  proof (rule find_back_last)
    show "?P (?es ! length pre)" using c by simp
    show "\<forall>j. length pre < j \<longrightarrow> j < length ?es - 1 \<longrightarrow> \<not> ?P (?es ! j)"
    proof (intro allI impI)
      fix j assume j: "length pre < j" "j < length ?es - 1"
      then obtain i where i: "j = Suc (length pre) + i" using less_iff_Suc_add by auto
      then have "?es ! j = mid ! i" "i < length mid" using j by (simp_all add: nth_append)
      then show "\<not> ?P (?es ! j)" using m by simp
    qed
  qed simp
  have g: "?g \<noteq> []" using r k by (auto simp: ids_def filter_empty_conv list_ex_iff)
  have "snd (mergeFunctionResponseEvents h ?g) = hd ?g"
    using g by (cases ?g) (auto simp: mergeFunctionResponseEvents_def Let_def split: option.split)
  moreover have "ids \<noteq> []" using k by auto
  ultimately show ?thesis
    using r g fb by (simp add: rearrangeLatestFuncResp_def Let_def ids_def[symmetric] split_beta)
qed

lemma sample_index:
  "rsp_at (sample_heap n) (sample_event au 0) = Some (sample_response [sample_question])"
  "rsp_at (sample_heap n) (sample_event au 1) = Some (sample_response [sample_calls])"
  "rsp_at (sample_heap n) (sample_event au 2) = Some (sample_response (result_a # replicate n result_b))"
  "rsp_at (sample_heap n) (sample_event au 3) = Some (sample_response [result_b])"
  "rsp_at (sample_heap n) (sample_event au 4) = Some (sample_response [sample_answer])"
  by (simp_all add: rsp_at_def sample_event_def sample_heap_def eval_nat_numeral)

lemma sample_messages:
  "m_role sample_question = RoleUser" "m_content sample_question = ''why?''" "m_tool_id sample_question = []"
  "m_content_parts sample_question = []" "m_tool_calls sample_question = []" "m_reasoning_content sample_question = []"
  "m_role sample_calls = RoleAssistant" "m_tool_id sample_calls = []" "m_content sample_calls = []"
  "m_content_parts sample_calls = []" "m_tool_calls sample_calls = [sample_call ''a'', sample_call ''b'']"
  "m_reasoning_content sample_calls = []"
  "m_role (tool_message i c) = RoleTool" "m_content (tool_message i c) = c" "m_tool_id (tool_message i c) = i"
  "m_content_parts (tool_message i c) = []" "m_tool_calls (tool_message i c) = []" "m_reasoning_content (tool_message i c) = []"
  "m_role sample_answer = RoleAssistant" "m_content sample_answer = ''so''" "m_tool_id sample_answer = []"
  "m_content_parts sample_answer = []" "m_tool_calls sample_answer = []" "m_reasoning_content sample_answer = []"
  "tc_id (sample_call j) = j"
  by (simp_all add: sample_question_def sample_calls_def tool_message_def sample_answer_def plain_message_def
      sample_call_def)

lemma sample_responses:
  "rsp_choices (sample_response ms) = map message_choice ms" "rsp_error (sample_response ms) = None"
  "rsp_is_partial (sample_response ms) = False"
  "IsToolResultResponse (Some (sample_response (m # ms))) = (m_tool_id m \<noteq> [])"
  "IsToolCallResponse (Some (sample_response (m # ms))) = (m_tool_calls m \<noteq> [])"
  by (simp_all add: sample_response_def empty_response_def IsToolResultResponse_def IsToolCallResponse_def
      message_choice_def empty_message_def)

lemma sample_call_ids:
  "GetToolCallIDs (Some (sample_response ms)) = concat (map call_ids ms)"
  "\<forall>m \<in> set ms. m_tool_id m \<noteq> [] \<Longrightarrow> GetToolResultIDs (Some (sample_response ms)) = map m_tool_id ms"
proof -
  show "GetToolCallIDs (Some (sample_response ms)) = concat (map call_ids ms)"
    by (induction ms) (simp_all add: sample_responses GetToolCallIDs_def message_choice_def empty_message_def call_ids_def)
  show "GetToolResultIDs (Some (sample_response ms)) = map m_tool_id ms" if "\<forall>m \<in> set ms. m_tool_id m \<noteq> []"
    using that
    by (induction ms) (simp_all add: sample_responses GetToolResultIDs_def message_choice_def empty_message_def)
qed

lemma sample_fields:
  "ev_request_id (load h (sample_event au a)) = ''r''" "ev_invocation (load h (sample_event au a)) = ''i''"
  "ev_author (load h (sample_event au a)) = au" "ev_branch (load h (sample_event au a)) = []"
  "ev_filter_key (load h (sample_event au a)) = []" "ev_version (load h (sample_event au a)) = CurrentVersion"
  "ev_state_delta (load h (sample_event au a)) = None"
  by (simp_all add: load_def sample_event_def empty_event_def)

abbreviation standard :: processor where
  "standard \<equiv> NewContentRequestProcessor []"

lemma standard_fields:
  "pr_branch_mode standard = BranchFilterModePrefix" "pr_add_prefix standard" "\<not> pr_add_summary standard"
  "pr_max_runs standard = 0" "pr_timeline_mode standard = TimelineFilterAll" "pr_projector standard = None"
  "pr_preload_memory standard = 0" "pr_preload_recall standard = 0" "pr_few_shot standard = None"
  "cc_enabled (pr_compaction standard) = False" "cc_oversized_max (pr_compaction standard) = 8192"
  by (simp_all add: NewContentRequestProcessor_def DefaultContextCompactionOversizedToolResultMaxTokens_def)

lemma sample_included:
  assumes r: "rsp_at h (sample_event au a) = Some (sample_response (m # ms))"
    and v: "HasPayload m \<or> m_tool_id m \<noteq> [] \<or> m_tool_calls m \<noteq> []"
  shows "increment_step so standard (sample_invocation k) 0 (sample_event au a) (h, es, b)
    = (h, es @ [sample_event au a], b \<or> MessagesEqual sample_question m)"
proof -
  have "IsValidContent (Some (sample_response (m # ms)))"
    using v by (auto simp: IsValidContent_def sample_responses message_choice_def)
  then have "isEventEligibleForInclusion so (load h (sample_event au a))"
    by (simp add: isEventEligibleForInclusion_def r is_partial_def sample_responses sample_fields
        CompletionSnapshotOnlyFromStateDelta_def)
  then show ?thesis
    by (simp add: increment_step_def compactCurrentInvocationEvent_def shouldIncludeEvent_def needs_error_content_def
        isStrictInvocationMessage_def sample_invocation_def sample_fields choices_of_def r sample_responses
        message_choice_def invocationMessageEqual_def sample_messages passTimelineFilter_def standard_fields mode_defs
        passBranchFilter_def Event_Filter_def filter_key_of_def RoleUser_def Let_def)
qed

definition sample_events :: "hevent list" where
  "sample_events = [sample_event ''user'' 0, sample_event ''agent'' 1, sample_event ''agent'' 2,
     sample_event ''agent'' 3, sample_event ''agent'' 4]"

lemma sample_collected:
  "fold (increment_step so standard (sample_invocation k) 0) sample_events (sample_heap n, [], False)
   = (sample_heap n, sample_events, True)"
proof -
  have "MessagesEqual sample_question sample_question"
    by (simp add: MessagesEqual_def sample_messages)
  then show ?thesis
    by (simp add: sample_events_def sample_included[OF sample_index(1)] sample_included[OF sample_index(2)]
        sample_included[OF sample_index(3)] sample_included[OF sample_index(4)] sample_included[OF sample_index(5)]
        sample_messages HasPayload_def del: One_nat_def)
qed

section \<open>Rearranging the sample\<close>

lemma sample_async:
  "rearrangeAsyncFuncRespHist (sample_heap n) sample_events
   = (sample_heap (Suc n), [sample_event ''user'' 0, sample_event ''agent'' 1, sample_event ''agent'' 2,
        sample_event ''agent'' 4])"
proof -
  let ?r2 = "result_a # replicate n result_b"
  have ids: "GetToolResultIDs (Some (sample_response ?r2)) = ''a'' # replicate n ''b''"
    "GetToolResultIDs (Some (sample_response [result_b])) = [''b'']"
    by (simp_all add: sample_call_ids sample_messages)
  define idx where "idx = response_index (sample_heap n) 0 sample_events []"
  have "idx = foldl (\<lambda>m r. gput r (0 + 1 + 1 + 1) m)
      (foldl (\<lambda>m r. gput r (0 + 1 + 1) m) [] (''a'' # replicate n ''b'')) [''b'']"
    unfolding idx_def sample_events_def response_index.simps sample_index ids
    by (simp only: sample_responses sample_messages simp_thms if_True if_False list.distinct)
  then have "gget idx ''a'' = Some 2" "gget idx ''b'' = Some 3"
    by (simp_all only: gget_put_ids) simp_all
  then have found: "dedup_seen [] (List.map_filter (gget idx) (GetToolCallIDs (Some (sample_response [sample_calls])))) = [2, 3]"
    by (simp add: sample_call_ids sample_messages call_ids_def map_filter_simps)
  have parts: "result_choices (sample_heap n) (sample_event ''agent'' 2) = map message_choice ?r2"
    "result_choices (sample_heap n) (sample_event ''agent'' 3) = [message_choice result_b]"
    by (simp_all add: result_choices_def choices_of_def sample_index sample_responses message_choice_def sample_messages
        filter_id_conv)
  have len: "map message_choice ?r2 @ [message_choice result_b] = map message_choice (result_a # replicate (Suc n) result_b)"
    by (simp add: replicate_append_same[symmetric] del: replicate_append_same)
  have merged: "mergeFunctionResponseEvents (sample_heap n) [sample_event ''agent'' 2, sample_event ''agent'' 3]
      = (sample_heap (Suc n), sample_event ''agent'' 2)"
    using len
    by (simp add: mergeFunctionResponseEvents_def parts) (simp add: sample_event_def sample_heap_def sample_response_def eval_nat_numeral)
  show ?thesis
    unfolding rearrangeAsyncFuncRespHist_def idx_def[symmetric]
    by (simp add: sample_events_def sample_index sample_responses sample_messages found[unfolded sample_events_def] merged
        del: One_nat_def)
qed

text \<open>The sample without its answer: the result of the first call is left out.\<close>

theorem newest_results_hide_others_witness:
  "snd (rearrangeLatestFuncResp (sample_heap 0) ([sample_event ''user'' 0] @ sample_event ''agent'' 1
       # [sample_event ''agent'' 2] @ [sample_event ''agent'' 3]))
   = [sample_event ''user'' 0, sample_event ''agent'' 1, sample_event ''agent'' 3]"
proof -
  have ids: "GetToolResultIDs (Some (sample_response [result_b])) = [''b'']"
    "GetToolResultIDs (Some (sample_response [result_a])) = [''a'']"
    by (simp_all add: sample_call_ids sample_messages)
  have calls: "GetToolCallIDs (Some (sample_response [sample_calls])) = [''a'', ''b'']"
    "GetToolCallIDs (Some (sample_response [result_a])) = []"
    by (simp_all add: sample_call_ids sample_messages call_ids_def)
  have "snd (rearrangeLatestFuncResp (sample_heap 0) ([sample_event ''user'' 0] @ sample_event ''agent'' 1
       # [sample_event ''agent'' 2] @ [sample_event ''agent'' 3]))
     = [sample_event ''user'' 0] @ [sample_event ''agent'' 1,
         hd (filter (\<lambda>e. IsToolResultResponse (rsp_at (sample_heap 0) e)
               \<and> shares (GetToolResultIDs (rsp_at (sample_heap 0) (sample_event ''agent'' 3)))
                   (GetToolResultIDs (rsp_at (sample_heap 0) e)))
              ([sample_event ''agent'' 2] @ [sample_event ''agent'' 3]))]"
    by (rule newest_results_hide_others)
      (simp_all add: sample_index sample_responses sample_messages ids calls del: One_nat_def)
  then show ?thesis by (simp add: sample_index sample_responses sample_messages ids del: One_nat_def)
qed

section \<open>Cutting the history\<close>

text \<open>
  A limit that is not larger than the number of the newest results leaves no message at all; the
  request then holds the user's message as if nothing had been done for it.
\<close>

lemma history_limit_can_empty:
  assumes r: "\<forall>m \<in> set rs. is_tool_result m \<and> m_tool_id m \<in> set (call_ids c)"
    and n: "0 < n" "n \<le> int (length rs)"
  shows "applyMaxHistoryRuns (pre @ c # rs) n = []"
proof -
  define i where "i = nat (int (length (pre @ c # rs)) - n)"
  have i: "length pre < i" "i < length (pre @ c # rs)" using n by (auto simp: i_def)
  then obtain j where j: "i = Suc (length pre) + j" using less_iff_Suc_add by auto
  have d: "drop i (pre @ c # rs) = drop j rs" "take i (pre @ c # rs) = pre @ c # take j rs"
    by (simp_all add: j)
  have ne: "drop j rs \<noteq> []" using i(2) j by simp
  have all: "\<forall>m \<in> set (drop j rs). is_tool_result m \<and> m_tool_id m \<in> set (call_ids c)"
    using r set_drop_subset[of j rs] by blast
  obtain x xs where x: "drop j rs = x # xs" using ne by (cases "drop j rs") auto
  have "is_tool_result x" using all x by simp
  moreover define T where "T = filter (\<lambda>k. k \<noteq> []) (concat (map call_ids (take i (pre @ c # rs))))"
  have "\<forall>m \<in> set (drop j rs). is_tool_result m \<and> m_tool_id m \<in> set T"
    using all unfolding T_def d by (auto simp: is_tool_result_def)
  then have "dropWhile (\<lambda>m. is_tool_result m \<and> m_tool_id m \<in> set T) (drop i (pre @ c # rs)) = []"
    unfolding d by (simp add: dropWhile_eq_Nil_conv)
  moreover have "drop i (pre @ c # rs) = x # xs" using d(1) x by simp
  moreover have "\<not> int (length (pre @ c # rs)) \<le> n" using n by simp
  ultimately show ?thesis
    unfolding applyMaxHistoryRuns_def Let_def i_def[symmetric] T_def[symmetric]
    by (simp only: if_False list.case not_True_eq_False if_True split: if_split)
qed

section \<open>The messages of the sample\<close>

lemma rewrite_choices_small:
  "\<forall>c \<in> set cs. rw (ch_message c) n = (ch_message c, False, 0) \<Longrightarrow> rewrite_choices rw n cs = (cs, 0, 0)"
  by (induction cs) auto

lemma size_pass_small:
  assumes "\<forall>c \<in> set (choices_of e). simple_count_tokens (ch_message c) \<le> cc_oversized_max cfg"
  shows "size_pass cfg e = e"
proof -
  have "truncateOversizedToolResultMessage m n = (m, False, 0)" if "simple_count_tokens m \<le> n" for m n
    using that by (simp add: truncateOversizedToolResultMessage_def Let_def)
  then have "rewriteToolResultEventMessages e (cc_oversized_max cfg) truncateOversizedToolResultMessage = (e, False, 0, 0)"
    using assms
    by (auto simp: rewriteToolResultEventMessages_def choices_of_def split: option.split intro!: rewrite_choices_small)
      (simp_all add: rewrite_choices_small)
  then show ?thesis by (simp add: size_pass_def)
qed

lemma compaction_small:
  assumes "\<not> cc_enabled cfg"
    "\<forall>e \<in> set evs. \<forall>c \<in> set (choices_of e). simple_count_tokens (ch_message c) \<le> cc_oversized_max cfg"
  shows "fst (compactIncrementEvents evs rid iid cfg) = evs"
  using assms by (simp add: compactIncrementEvents_map old_pass_def size_pass_small map_idI)

lemma sample_tokens:
  "simple_count_tokens sample_question \<le> 8192" "simple_count_tokens sample_calls \<le> 8192"
  "simple_count_tokens result_a \<le> 8192" "simple_count_tokens result_b \<le> 8192"
  "simple_count_tokens sample_answer \<le> 8192"
  by code_simp+

lemma sample_choices:
  "choices_of (load (sample_heap n) (sample_event au 0)) = [message_choice sample_question]"
  "choices_of (load (sample_heap n) (sample_event au 1)) = [message_choice sample_calls]"
  "choices_of (load (sample_heap n) (sample_event au 2)) = map message_choice (result_a # replicate n result_b)"
  "choices_of (load (sample_heap n) (sample_event au 4)) = [message_choice sample_answer]"
  by (simp_all add: choices_of_def sample_index sample_responses del: One_nat_def)

lemma sample_own:
  "au = ''user'' \<or> au = ''agent'' \<Longrightarrow> \<not> isOtherAgentReply standard ''agent'' b (load h (sample_event au a))"
  by (auto simp: isOtherAgentReply_def sample_fields)

lemma sample_projected:
  assumes "au = ''user'' \<or> au = ''agent''" "choices_of (load h (sample_event au a)) = map message_choice ms"
    and "\<forall>m \<in> set ms. m_reasoning_content m = [] \<and> \<not> isEmptyAssistantMessage m"
  shows "projectMessagesForEvent standard uuid (sample_invocation k) (load h (sample_event au a)) rid = ms"
proof -
  have "projectMessagesForEvent standard uuid (sample_invocation k) (load h (sample_event au a)) rid
      = filter (\<lambda>m. \<not> isEmptyAssistantMessage m)
          (map (\<lambda>c. projected standard (sample_invocation k) (load h (sample_event au a)) rid (ch_message c)) (map message_choice ms))"
    using project_own[of standard "sample_invocation k" "load h (sample_event au a)" uuid rid] sample_own[OF assms(1)] assms(2)
    by (simp add: sample_invocation_def)
  also have "\<dots> = filter (\<lambda>m. \<not> isEmptyAssistantMessage m) ms"
    using assms(3)
    by (simp add: comp_def projected_def projectEventMessage_def standard_fields processReasoningContent_def
        message_choice_def map_idI)
  finally show ?thesis using assms(3) by (simp add: filter_id_conv)
qed

lemma merge_loop_plain: "\<forall>m \<in> set ms. \<not> is_context_message m \<Longrightarrow> merge_loop None ms = ms"
  by (induction ms) auto

lemma annotate_plain:
  "\<forall>m \<in> set ms. m_content_parts m = [] \<Longrightarrow> annotateUserMessagesWithAttachedFiles ms = ms"
  by (auto simp: annotateUserMessagesWithAttachedFiles_def annotateUserMessageWithAttachedFiles_def intro!: map_idI)

definition sample_messages_of :: "nat \<Rightarrow> message list" where
  "sample_messages_of n = [sample_question, sample_calls, result_a] @ replicate n result_b @ [sample_answer]"

lemma sample_increment:
  "getIncrementMessages so standard uuid now (sample_heap n) (sample_invocation 5) 0
   = (sample_heap (Suc n), sample_messages_of (Suc n))"
proof -
  let ?h = "sample_heap (Suc n)"
  let ?out = "[sample_event ''user'' 0, sample_event ''agent'' 1, sample_event ''agent'' 2, sample_event ''agent'' 4]"
  have ev: "hs_events (sample_session 5) = sample_events"
    by (simp add: sample_session_def sample_events_def)
  have latest: "rearrangeLatestFuncResp (sample_heap n) sample_events = (sample_heap n, sample_events)"
    by (simp add: rearrangeLatestFuncResp_def sample_events_def sample_index sample_responses sample_messages)
  have small: "fst (compactIncrementEvents (map (load ?h) ?out) rid iid (pr_compaction standard)) = map (load ?h) ?out" for rid iid
    by (rule compaction_small)
      (auto simp: standard_fields sample_choices message_choice_def sample_tokens simp del: One_nat_def)
  have msgs: "concat (map (\<lambda>e. projectMessagesForEvent standard uuid (sample_invocation 5) e rid) (map (load ?h) ?out))
      = sample_messages_of (Suc n)" for rid
    using sample_projected[of "''user''" ?h 0 "[sample_question]" uuid 5 rid]
      sample_projected[of "''agent''" ?h 1 "[sample_calls]" uuid 5 rid]
      sample_projected[of "''agent''" ?h 2 "result_a # replicate (Suc n) result_b" uuid 5 rid]
      sample_projected[of "''agent''" ?h 4 "[sample_answer]" uuid 5 rid]
    by (simp add: sample_choices sample_messages isEmptyAssistantMessage_def sample_messages_of_def del: One_nat_def)
  have merged: "mergeUserMessages standard (sample_messages_of (Suc n)) = sample_messages_of (Suc n)"
    by (simp add: mergeUserMessages_def merge_loop_plain sample_messages_of_def is_context_message_def sample_messages
        contextPrefix_def)
  have ann: "annotateUserMessagesWithAttachedFiles (sample_messages_of (Suc n)) = sample_messages_of (Suc n)"
    by (rule annotate_plain) (auto simp: sample_messages_of_def sample_messages)
  have iv: "iv_session (sample_invocation 5) = Some (sample_session 5)"
    by (simp add: sample_invocation_def)
  show ?thesis
    unfolding getIncrementMessages_def iv option.case ev sample_collected Let_def split
    by (simp only: not_True_eq_False simp_thms if_True if_False prod.case latest sample_async standard_fields
        small msgs merged ann less_irrefl)
qed

section \<open>Requests change the session\<close>

abbreviation build_request ::
    "(bytes \<Rightarrow> bool option) \<Rightarrow> string \<Rightarrow> gtime \<Rightarrow> message option \<Rightarrow> heap \<Rightarrow> heap \<times> message list \<times> (string, bool) gomap" where
  "build_request so uuid now recall h \<equiv> ProcessRequest so standard uuid now recall h (sample_invocation 5) []"

lemma sample_request:
  "build_request so uuid now recall (sample_heap n) = (sample_heap (Suc n), sample_messages_of (Suc n), [])"
proof -
  have iv: "sample_invocation 5\<lparr>iv_state := gdel contentHasCompactedToolResultsStateKey (iv_state (sample_invocation 5))\<rparr>
      = sample_invocation 5"
    by (simp add: sample_invocation_def)
  have f: "iv_session (sample_invocation 5) = Some (sample_session 5)" "iv_injected (sample_invocation 5) = []"
    "iv_state (sample_invocation 5) = []" "iv_runtime_state (sample_invocation 5) = None"
    by (simp_all add: sample_invocation_def)
  have ne: "sample_messages_of (Suc n) \<noteq> []" by (simp add: sample_messages_of_def)
  show ?thesis
    using ne unfolding ProcessRequest_def Let_def iv
    by (simp add: f injectInjectedContextMessages_def injectFewShotMessages_def standard_fields
        appendSessionMessages_def runtimeConfigFromInvocation_def sample_increment
        hasCompactedCurrentInvocationToolResults_def)
qed


end
