(* ===== verification/Spec2Isabelle.thy ===== *)
theory Spec2Isabelle
  imports Token_Tailor Message_Json Dag_Runs Time_Travel Session_Cleanup Session_Summary
    Content_Growth
begin

text \<open>
  A verification library for the core of the agent framework: the graph engine of \<open>src/graph\<close>,
  the chat-message model of \<open>src/model\<close> it carries, the sessions of \<open>src/session\<close> in which
  conversations are kept, and the content processor of \<open>src/internal/flow/processor\<close> that turns a
  session into a model request.

  \<^bold>\<open>How the program is put together.\<close>  A user builds a graph of nodes with the builder
  (\<open>state_graph.go\<close>), which adds for every edge a channel, a writer at the source and a trigger at
  the target, and compiles it.  The executor (\<open>executor.go\<close>) runs the graph in supersteps, or eagerly node by node
  (\<open>executor_dag.go\<close>): it plans a
  task for every node one of whose channels is available, runs the tasks with copies of the shared
  state, merges their results into the state with the reducers of the schema (\<open>state.go\<close>), writes
  their channels (\<open>internal/channel\<close>), follows their commands and conditional edges, and between the
  steps stores checkpoints through the checkpoint manager (\<open>checkpoint.go\<close>) into a saver
  (\<open>checkpoint/inmemory\<close>), from which a later run resumes.  The state holds message histories
  (\<open>model/request.go\<close>), which are validated and cut to a token budget before they reach a model
  (\<open>message_validator.go\<close>, \<open>token_tailor.go\<close>).  The events of a conversation (\<open>event/event.go\<close>) are
  appended to sessions (\<open>session/session.go\<close>), which a session service stores by application, user
  and identifier (\<open>session/inmemory\<close>), and which are summarised per filter key
  (\<open>session/internal/summary\<close>).  Before a model is called the content processor
  (\<open>internal/flow/processor/content.go\<close>, \<open>context_compact.go\<close>) reads the session's events through its
  filters, puts tool results behind their calls, rewrites what other agents said, compacts and cuts
  the history, and adds summaries, memories and the current message.

  \<^bold>\<open>The theories.\<close>
  \<^item> \<open>Go_Prelude\<close>: the outcome of Go code that may panic, maps as association lists with distinct
    keys (so that iteration orders can be varied), generic list lemmas and the lemma collections.
  \<^item> \<open>Model_Message\<close>, \<open>Message_Json\<close>: \<open>Message\<close> and its parts, the JSON codec with the custom
    marshalling of tool-call arguments; round trip, and the panic on a null function.
  \<^item> \<open>Message_Validator\<close>: \<open>validateAndFixMessageSequence\<close>, function by function.
  \<^item> \<open>Token_Tailor\<close>: the simple token counter, prefix sums, user-anchored rounds and the three
    tailoring strategies; budget, optimality and selection theorems.
  \<^item> \<open>Go_Values\<close>: the dynamic values of a state, their JSON image and the two deep copies
    (\<open>utils.go\<close>, \<open>deepCopy\<close> and \<open>deepCopyMap\<close> of \<open>checkpoint.go\<close>).
  \<^item> \<open>Graph_Channel\<close>: \<open>Channel\<close> and \<open>Manager\<close>; when a barrier fires.
  \<^item> \<open>State_Schema\<close>: the schema, all reducers, \<open>ApplyUpdate\<close>, both validations, one-shot messages.
  \<^item> \<open>Graph_Core\<close>, \<open>Graph_Builder\<close>: the graph and its validation; the builder and \<open>Compile\<close>, with
    the soundness of every compiled graph.
  \<^item> \<open>Checkpoint_Data\<close>, \<open>Saver_InMemory\<close>, \<open>Checkpoint_Manager\<close>: checkpoints and their
    configurations; every operation of the in-memory saver with its invariant; the manager over the
    locale \<open>checkpoint_saver\<close> of savers, interpreted on the in-memory saver, with branching, resuming
    and the checkpoint tree.
  \<^item> \<open>Exec_Context\<close>, \<open>Planner\<close>, \<open>Routing\<close>, \<open>Task_Exec\<close>: the run's mutable context; the planner;
    the handling of results; attempts, retries and the step.  \<open>Step_Frame\<close>: the locale of relations
    that every part of a step keeps, from which the whole step keeps them.
  \<^item> \<open>Interrupts\<close>: questions to the user with their answers (\<open>interrupt.go\<close>, \<open>resume.go\<close>) and static
    break points (\<open>static_interrupt.go\<close>).
  \<^item> \<open>Engine_Checkpoint\<close>, \<open>Typed_Restore\<close>: the checkpoints of a step and of an interrupt; giving
    restored values back the types of the schema.
  \<^item> \<open>Engine\<close>: a whole run of the superstep engine, fresh or resumed (\<open>executeGraph\<close>, \<open>runBspLoop\<close>).
    \<open>Engine_Versions\<close>: versions only grow, and every state a run reaches plans fully.
    \<open>Engine_Resume\<close>, \<open>Graph_Ready\<close>: resuming from a checkpoint plans what the uninterrupted run plans;
    compiled graphs meet what this needs.  \<open>Engine_Reruns\<close>: the outcome of a run, and where resuming
    loses or repeats work.  \<open>Engine_Net\<close>: the abstract net of signals and join arrivals that every
    superstep refines, and that edges are followed.
  \<^item> \<open>Engine_Dag\<close>: the eager engine (\<open>executor_dag.go\<close>), its loop and the goroutines of its tasks
    interleaved by a sequence of events.  \<open>Dag_Props\<close>: one task per node, progress and the bound on
    events.  \<open>Dag_Outcomes\<close>: what each outcome means, and the runs that block, lose an error or crash.
    \<open>Dag_Runs\<close>: concrete runs.
  \<^item> \<open>Time_Travel\<close>: snapshots, history and editing of stored states (\<open>time_travel.go\<close>), over the locale
    of savers.
  \<^item> \<open>Event_Data\<close>, \<open>Session_Data\<close>: responses, events and their hierarchical filter; the session, its
    copies, windows, tracks, options and keys.
  \<^item> \<open>Session_InMemory\<close>: every operation of the in-memory session service, with expiry and hooks.
    \<open>Session_History\<close>: what the windows and the event limit keep.  \<open>Session_Store\<close>: the service through
    its lookups; the newest turn of a conversation is kept.  \<open>Session_Cleanup\<close>: a simulation between
    the cleaned and the uncleaned service, so the cleanup is invisible, and the one way it is not.
  \<^item> \<open>Session_Summary\<close>: summaries per key and the cascade; every event is summarised once, and how a
    full-session summary comes to claim events it does not contain.
  \<^item> \<open>Context_Compact\<close>: the passes that replace old tool results by placeholders and cut large ones,
    both instances of the locale \<open>message_rewrite\<close>; what stays and how large it gets.
  \<^item> \<open>Content_Data\<close>, \<open>Content_History\<close>, \<open>Content_Request\<close>: the content processor, with its options,
    filters and conversions, the rearranging of the history, and the whole \<open>ProcessRequest\<close>.
    \<open>Content_Linked\<close>: histories whose results belong to calls before them, and that rearranging
    regroups them.  \<open>Content_Answers\<close>: in every request a tool result directly follows its call.
    \<open>Content_Growth\<close>: where results are lost, and where building a request changes the session.

  \<^bold>\<open>How state is represented.\<close> A Go struct is a record, a map an association list,
  an interface value the datatype \<open>gval\<close>. A panic is the value \<open>Panic\<close>; an
  error is a summand of a sum type (the right one in the engine, the left one in the sessions) or
  \<open>Some\<close> error. The state that Go shares by reference is passed explicitly; where two
  names share one map and the code relies on it (\<open>ec_planned\<close>), the sharing is a field of
  its own; the responses that a session's events and their copies in a request share are a heap, a
  list of responses at their addresses. Code that is not in the repository's files is a parameter:
  node functions and conditions of the user, fresh identifiers, clocks, the hash of the join names,
  random delays, whether and when an external interrupt comes, the summarizer of a session, the
  projector and the few-shot resolver of a content processor, the message that recalls other sessions,
  and the codecs of the track index and of time stamps. Time is the number of nanoseconds since the
  zero time.

  \<^bold>\<open>Concurrency.\<close> The tasks of a superstep work on copies of the planned state and
  their results are merged one by one under locks; they are run in a list order that theorems vary.
  The eager engine is a relation over events - a task copies its input, a task finishes, the loop
  receives a result, the context is cancelled - in any order the code allows, each event atomic. An
  operation of a session service holds its lock throughout and is one step; the cleanup is a step that
  may come between any two.

  \<^bold>\<open>Bounds.\<close>  No fuel is used.  The attempt loop ends by the largest attempt budget of its policies, the
  loop of supersteps by the step limit, the worklists and eviction loops by the length of their lists,
  each with a termination proof; a run of the eager engine is a sequence of events, of which fewer than
  three per step up to the limit are not cancellations.

  \<^bold>\<open>Not modelled.\<close> Telemetry, events and callbacks of the engine; the node cache;
  timers, timeouts and the channels of an external interrupt; finer interleavings of the locks inside
  the end of a task of the eager engine; emitting events and their JSON form; the model call of a
  summarizer and its thresholds; the ranking of recalled sessions by their scores; the other flow
  processors; the constructors of LLM, tool, agent and knowledge nodes; database savers and session
  services; the model providers, agents, runners, tools, knowledge, servers and applications around
  the engine, which are I/O or glue. The manifest lists them.
\<close>

end
